(* ===== verification/Prelude.thy ===== *)
theory Prelude
  imports Main
    "HOL-Library.Word"
    "HOL-Library.Multiset"
    "HOL-Library.Char_ord"
    "HOL-Library.List_Lexorder"
    "HOL-Library.Product_Lexorder"
    "HOL-Library.Option_ord"
begin

text \<open>
  Shared types and lemmas of the development.

  Machine integers keep their width: \<open>u8\<close>, \<open>u16\<close>, \<open>u32\<close> and \<open>u64\<close> are
  words, so \<open>+\<close> wraps exactly as the release profile of the crate does.  An
  \<open>i64\<close> is an \<open>int\<close> whose additions go through \<open>i64_add\<close>, which writes the
  two's-complement wrap-around out.  Fixed-size byte arrays (node ids, hashes,
  uuids, signatures) are byte lists; a \<open>String\<close> is the list of its UTF-8 bytes
  (an Isabelle \<open>char\<close> is one byte).  The orders on tuples, lists and options
  are the lexicographic ones of the library, which are the orders Rust derives
  for tuples, arrays, strings and \<open>Option\<close>.
\<close>

type_synonym u8 = "8 word"
type_synonym u16 = "16 word"
type_synonym u32 = "32 word"
type_synonym u64 = "64 word"
type_synonym i64 = int
type_synonym bytes = "u8 list"
type_synonym node_id = "bytes"
type_synonym hash32 = "bytes"
type_synonym uuid16 = "bytes"
type_synonym path = "string"

named_theorems btree_laws \<open>laws of the ordered map that carry the component proofs\<close>
named_theorems vv_laws \<open>algebra of version vectors\<close>
named_theorems store_frame \<open>what a store operation leaves untouched\<close>

subsection \<open>Signed 64-bit arithmetic\<close>

definition i64_wrap :: "int \<Rightarrow> i64" where
  "i64_wrap x = (x + 2 ^ 63) mod 2 ^ 64 - 2 ^ 63"

definition i64_add :: "i64 \<Rightarrow> i64 \<Rightarrow> i64" where
  "i64_add a b = i64_wrap (a + b)"

definition is_i64 :: "int \<Rightarrow> bool" where
  "is_i64 x \<longleftrightarrow> - (2 ^ 63) \<le> x \<and> x < 2 ^ 63"

lemma i64_wrap_id: "is_i64 x \<Longrightarrow> i64_wrap x = x"
  by (simp add: i64_wrap_def is_i64_def)

lemma i64_wrap_range [simp]: "is_i64 (i64_wrap x)"
  using pos_mod_bound [of "2 ^ 64" "x + 2 ^ 63"] pos_mod_sign [of "2 ^ 64" "x + 2 ^ 63"]
  by (simp add: i64_wrap_def is_i64_def)

lemma i64_add_id: "is_i64 (a + b) \<Longrightarrow> i64_add a b = a + b"
  by (simp add: i64_add_def i64_wrap_id)

subsection \<open>Byte encodings of integers\<close>

text \<open>\<open>to_be_bytes\<close> and \<open>to_le_bytes\<close> of the standard library.\<close>

fun be_of_nat :: "nat \<Rightarrow> nat \<Rightarrow> bytes" where
  "be_of_nat 0 k = []"
| "be_of_nat (Suc n) k = be_of_nat n (k div 256) @ [word_of_nat (k mod 256)]"

definition nat_of_be :: "bytes \<Rightarrow> nat" where
  "nat_of_be bs = foldl (\<lambda>a b. a * 256 + unat b) 0 bs"

definition u16_be :: "u16 \<Rightarrow> bytes" where "u16_be w = be_of_nat 2 (unat w)"
definition u32_be :: "u32 \<Rightarrow> bytes" where "u32_be w = be_of_nat 4 (unat w)"
definition u64_be :: "u64 \<Rightarrow> bytes" where "u64_be w = be_of_nat 8 (unat w)"
definition u32_le :: "u32 \<Rightarrow> bytes" where "u32_le w = rev (u32_be w)"
definition u64_le :: "u64 \<Rightarrow> bytes" where "u64_le w = rev (u64_be w)"
definition i64_be :: "i64 \<Rightarrow> bytes" where "i64_be x = be_of_nat 8 (nat (x mod 2 ^ 64))"

lemma length_be_of_nat [simp]: "length (be_of_nat n k) = n"
  by (induction n arbitrary: k) auto

lemma nat_of_be_snoc: "nat_of_be (bs @ [b]) = nat_of_be bs * 256 + unat b"
  by (simp add: nat_of_be_def)

lemma unat_byte_of_nat: "k < 256 \<Longrightarrow> unat (word_of_nat k :: u8) = k"
  by (simp add: unat_of_nat)

lemma nat_of_be_of_nat: "k < 256 ^ n \<Longrightarrow> nat_of_be (be_of_nat n k) = k"
proof (induction n arbitrary: k)
  case 0
  then show ?case by (simp add: nat_of_be_def)
next
  case (Suc n)
  from Suc.prems have "k div 256 < 256 ^ n"
    by (simp add: less_mult_imp_div_less mult.commute)
  then have "nat_of_be (be_of_nat n (k div 256)) = k div 256" by (rule Suc.IH)
  moreover have "unat (word_of_nat (k mod 256) :: u8) = k mod 256"
    by (rule unat_byte_of_nat) simp
  ultimately show ?case by (simp add: nat_of_be_snoc)
qed

lemma be_of_nat_inj:
  assumes "j < 256 ^ n" "k < 256 ^ n" "be_of_nat n j = be_of_nat n k"
  shows "j = k"
  using assms by (metis nat_of_be_of_nat)

lemma u64_be_inj [simp]: "u64_be a = u64_be b \<longleftrightarrow> a = b"
proof
  assume "u64_be a = u64_be b"
  then have "unat a = unat b"
    by (intro be_of_nat_inj [of _ 8]) (auto simp: u64_be_def intro: less_le_trans [OF unsigned_less])
  then show "a = b" by (rule unsigned_word_eqI)
qed simp

lemma u32_be_inj [simp]: "u32_be a = u32_be b \<longleftrightarrow> a = b"
proof
  assume "u32_be a = u32_be b"
  then have "unat a = unat b"
    by (intro be_of_nat_inj [of _ 4]) (auto simp: u32_be_def intro: less_le_trans [OF unsigned_less])
  then show "a = b" by (rule unsigned_word_eqI)
qed simp

lemma u16_be_inj [simp]: "u16_be a = u16_be b \<longleftrightarrow> a = b"
proof
  assume "u16_be a = u16_be b"
  then have "unat a = unat b"
    by (intro be_of_nat_inj [of _ 2]) (auto simp: u16_be_def intro: less_le_trans [OF unsigned_less])
  then show "a = b" by (rule unsigned_word_eqI)
qed simp

lemma i64_be_inj:
  assumes "is_i64 a" "is_i64 b" "i64_be a = i64_be b"
  shows "a = b"
proof -
  have "nat (a mod 2 ^ 64) = nat (b mod 2 ^ 64)"
    using assms(3) by (intro be_of_nat_inj [of _ 8]) (auto simp: i64_be_def nat_less_iff)
  then have "a mod 2 ^ 64 = b mod 2 ^ 64" by (simp add: eq_nat_nat_iff)
  then have "(a + 2 ^ 63) mod 2 ^ 64 = (b + 2 ^ 63) mod 2 ^ 64" by (metis mod_add_left_eq)
  then have "i64_wrap a = i64_wrap b" by (simp add: i64_wrap_def)
  with assms(1,2) show ?thesis by (simp add: i64_wrap_id)
qed

lemma length_int_be [simp]:
  "length (u16_be w16) = 2" "length (u32_be w32) = 4" "length (u64_be w64) = 8"
  "length (u32_le w32) = 4" "length (u64_le w64) = 8" "length (i64_be x) = 8"
  by (simp_all add: u16_be_def u32_be_def u64_be_def u32_le_def u64_le_def i64_be_def)

lemma int_le_inj [simp]:
  "u32_le a = u32_le b \<longleftrightarrow> a = b" "u64_le c = u64_le d \<longleftrightarrow> c = d"
  by (simp_all add: u32_le_def u64_le_def)

subsection \<open>Strings as bytes\<close>

definition as_bytes :: "string \<Rightarrow> bytes" where
  "as_bytes s = map (\<lambda>c. word_of_nat (of_char c)) s"

lemma as_bytes_append [simp]: "as_bytes (s @ t) = as_bytes s @ as_bytes t"
  by (simp add: as_bytes_def)

lemma byte_of_char_inj: "(word_of_nat (of_char c) :: u8) = word_of_nat (of_char d) \<longleftrightarrow> c = d"
proof
  assume "(word_of_nat (of_char c) :: u8) = word_of_nat (of_char d)"
  then have "unat (word_of_nat (of_char c) :: u8) = unat (word_of_nat (of_char d) :: u8)" by simp
  then have "(of_char c :: nat) = of_char d"
    by (simp add: unat_of_nat)
  then show "c = d" by simp
qed simp

lemma as_bytes_inj [simp]: "as_bytes s = as_bytes t \<longleftrightarrow> s = t"
  by (auto simp: as_bytes_def byte_of_char_inj inj_on_def dest: map_inj_on)

subsection \<open>Options and results\<close>

definition unwrap_or :: "'a option \<Rightarrow> 'a \<Rightarrow> 'a" where
  "unwrap_or x d = (case x of None \<Rightarrow> d | Some y \<Rightarrow> y)"

lemma unwrap_or_simps [simp]: "unwrap_or None d = d" "unwrap_or (Some y) d = y"
  by (simp_all add: unwrap_or_def)

definition opt_or :: "'a option \<Rightarrow> 'a option \<Rightarrow> 'a option" where
  "opt_or x y = (case x of None \<Rightarrow> y | Some _ \<Rightarrow> x)"

lemma opt_or_simps [simp]: "opt_or None y = y" "opt_or (Some v) y = Some v"
  by (simp_all add: opt_or_def)

definition zeros :: "nat \<Rightarrow> bytes" where "zeros n = replicate n 0"

lemma length_zeros [simp]: "length (zeros n) = n"
  by (simp add: zeros_def)

end
