(* ===== verification/BTree_Map.thy ===== *)
theory BTree_Map
  imports Prelude
begin

text \<open>
  Ordered maps.  The code keeps every replicated table in a \<open>BTreeMap\<close> (or in a
  SQL table with a primary key read back in key order), because iteration order
  is part of the agreed bytes: version vectors are serialized, roster digests are
  hashed and Merkle directories are hashed in key order.  The model is the list of
  entries in ascending key order, so an iteration is the list itself and two maps
  with the same contents are the same value.

  The interface the components rely on is the locale \<open>ordered_map\<close>: what a read
  returns after a write or a removal, and that the entries stay in order.  It is
  interpreted on the list operations below as \<open>btree\<close>.
\<close>

type_synonym ('k, 'v) btree = "('k \<times> 'v) list"

definition bt_ok :: "('k::linorder, 'v) btree \<Rightarrow> bool" where
  "bt_ok m \<longleftrightarrow> sorted_wrt (<) (map fst m)"

definition bt_get :: "('k, 'v) btree \<Rightarrow> 'k \<Rightarrow> 'v option" where
  "bt_get m k = map_of m k"

fun bt_insert :: "'k::linorder \<Rightarrow> 'v \<Rightarrow> ('k, 'v) btree \<Rightarrow> ('k, 'v) btree" where
  "bt_insert k v [] = [(k, v)]"
| "bt_insert k v ((k', v') # m) =
     (if k = k' then (k, v) # m
      else if k < k' then (k, v) # (k', v') # m
      else (k', v') # bt_insert k v m)"

definition bt_remove :: "'k \<Rightarrow> ('k, 'v) btree \<Rightarrow> ('k, 'v) btree" where
  "bt_remove k m = filter (\<lambda>e. fst e \<noteq> k) m"

definition bt_keys :: "('k, 'v) btree \<Rightarrow> 'k list" where
  "bt_keys m = map fst m"

definition bt_values :: "('k, 'v) btree \<Rightarrow> 'v list" where
  "bt_values m = map snd m"

subsection \<open>The interface\<close>

locale ordered_map =
  fixes emp :: "'m"
    and get :: "'m \<Rightarrow> 'k \<Rightarrow> 'v option"
    and ins :: "'k \<Rightarrow> 'v \<Rightarrow> 'm \<Rightarrow> 'm"
    and del :: "'k \<Rightarrow> 'm \<Rightarrow> 'm"
    and ok :: "'m \<Rightarrow> bool"
  assumes get_emp: "get emp k = None"
    and get_ins: "get (ins k v m) j = (if j = k then Some v else get m j)"
    and get_del: "get (del k m) j = (if j = k then None else get m j)"
    and ok_emp: "ok emp"
    and ok_ins: "ok m \<Longrightarrow> ok (ins k v m)"
    and ok_del: "ok m \<Longrightarrow> ok (del k m)"
    and canonical: "ok m \<Longrightarrow> ok n \<Longrightarrow> (\<And>k. get m k = get n k) \<Longrightarrow> m = n"
begin

lemma ins_overwrites: "ok m \<Longrightarrow> ins k w (ins k v m) = ins k w m"
  by (rule canonical) (auto simp: ok_ins get_ins)

lemma ins_commutes: "ok m \<Longrightarrow> j \<noteq> k \<Longrightarrow> ins j w (ins k v m) = ins k v (ins j w m)"
  by (rule canonical) (auto simp: ok_ins get_ins)

lemma ins_same: "ok m \<Longrightarrow> get m k = Some v \<Longrightarrow> ins k v m = m"
  by (rule canonical) (auto simp: ok_ins get_ins)

lemma ok_fold_ins: "ok m \<Longrightarrow> ok (fold (\<lambda>e. ins (f e) (g e)) es m)"
  by (induction es arbitrary: m) (auto simp: ok_ins)

text \<open>Writing a batch of rows: the last write of a key wins, other keys are untouched.\<close>

lemma get_fold_ins_notin:
  "j \<notin> f ` set es \<Longrightarrow> get (fold (\<lambda>e. ins (f e) (g e)) es m) j = get m j"
  by (induction es arbitrary: m) (auto simp: get_ins)

lemma get_fold_ins:
  assumes "e \<in> set es" and "distinct (map f es)"
  shows "get (fold (\<lambda>e. ins (f e) (g e)) es m) (f e) = Some (g e)"
  using assms
proof (induction es arbitrary: m)
  case Nil
  then show ?case by simp
next
  case (Cons x es)
  show ?case
  proof (cases "e = x")
    case True
    with Cons.prems(2) have "f e \<notin> f ` set es" by auto
    then show ?thesis using True by (simp add: get_fold_ins_notin get_ins)
  next
    case False
    with Cons show ?thesis by simp
  qed
qed

end

subsection \<open>Facts about the list representation\<close>

lemma bt_ok_Nil [simp]: "bt_ok []"
  by (simp add: bt_ok_def)

lemma bt_ok_Cons: "bt_ok ((k, v) # m) \<longleftrightarrow> (\<forall>e \<in> set m. k < fst e) \<and> bt_ok m"
  by (simp add: bt_ok_def)

lemma bt_ok_distinct: "bt_ok m \<Longrightarrow> distinct (map fst m)"
  by (auto simp: bt_ok_def strict_sorted_iff)

lemma bt_get_Nil [simp]: "bt_get [] k = None"
  by (simp add: bt_get_def)

lemma bt_get_Cons: "bt_get ((k, v) # m) j = (if j = k then Some v else bt_get m j)"
  by (simp add: bt_get_def)

lemma bt_get_insert [btree_laws]: "bt_get (bt_insert k v m) j = (if j = k then Some v else bt_get m j)"
  by (induction k v m rule: bt_insert.induct) (auto simp: bt_get_Cons)

lemma bt_get_remove [btree_laws]: "bt_get (bt_remove k m) j = (if j = k then None else bt_get m j)"
  by (induction m) (auto simp: bt_remove_def bt_get_def)

lemma set_bt_insert_keys: "fst ` set (bt_insert k v m) = insert k (fst ` set m)"
  by (induction k v m rule: bt_insert.induct) auto

lemma bt_insert_bound: "e \<in> set (bt_insert k v m) \<Longrightarrow> e = (k, v) \<or> e \<in> set m"
  by (induction k v m rule: bt_insert.induct) (auto split: if_splits)

lemma bt_ok_insert [btree_laws]: "bt_ok m \<Longrightarrow> bt_ok (bt_insert k v m)"
proof (induction k v m rule: bt_insert.induct)
  case (2 k v k' v' m)
  then show ?case
    by (cases "k = k'"; cases "k < k'")
       (auto simp: bt_ok_Cons dest!: bt_insert_bound intro: less_trans)
qed (simp add: bt_ok_def)

lemma bt_ok_remove [btree_laws]: "bt_ok m \<Longrightarrow> bt_ok (bt_remove k m)"
  by (induction m) (auto simp: bt_remove_def bt_ok_Cons)

lemma bt_get_Some_mem: "bt_get m k = Some v \<Longrightarrow> (k, v) \<in> set m"
  by (simp add: bt_get_def map_of_SomeD)

lemma bt_get_mem_iff: "bt_ok m \<Longrightarrow> bt_get m k = Some v \<longleftrightarrow> (k, v) \<in> set m"
  by (simp add: bt_get_def bt_ok_distinct map_of_eq_Some_iff)

lemma bt_get_None_iff: "bt_get m k = None \<longleftrightarrow> k \<notin> fst ` set m"
  by (simp add: bt_get_def map_of_eq_None_iff)

lemma bt_canonical:
  assumes "bt_ok m" "bt_ok n" "\<And>k. bt_get m k = bt_get n k"
  shows "m = n"
proof -
  have eq: "set m = set n"
    using assms by (auto simp flip: bt_get_mem_iff)
  have sorted: "sorted (map fst m)" "sorted (map fst n)"
    using assms by (simp_all add: bt_ok_def strict_sorted_iff)
  have dist: "distinct (map fst m)" "distinct (map fst n)"
    using assms by (simp_all add: bt_ok_distinct)
  then have "inj_on fst (set m \<union> set n)"
    by (simp add: eq distinct_map)
  with eq sorted dist show ?thesis
    by (intro map_sorted_distinct_set_unique) auto
qed

interpretation btree: ordered_map "[] :: ('k::linorder, 'v) btree" bt_get bt_insert bt_remove bt_ok
  by unfold_locales (auto simp: btree_laws intro: bt_canonical)

lemma bt_keys_mem: "k \<in> set (bt_keys m) \<longleftrightarrow> bt_get m k \<noteq> None"
  by (auto simp: bt_keys_def bt_get_None_iff)

lemma bt_values_mem: "bt_ok m \<Longrightarrow> v \<in> set (bt_values m) \<longleftrightarrow> (\<exists>k. bt_get m k = Some v)"
  by (force simp: bt_values_def bt_get_mem_iff)

lemma bt_get_filter: "bt_get (filter (\<lambda>e. P (fst e)) t) k = (if P k then bt_get t k else None)"
  by (induction t) (auto simp: bt_get_def)

lemma bt_ok_filter: "bt_ok t \<Longrightarrow> bt_ok (filter P t)"
  by (induction t) (auto simp: bt_ok_Cons split: prod.splits)

lemmas bt_get_simps = bt_get_insert bt_get_remove bt_get_Nil

end
