(* ===== verification/Replay.thy ===== *)
theory Replay
  imports Prelude
begin

text \<open>
  Two contracts that several components share.

  \<open>absorbing_merge\<close>: a state into which entries are merged one at a time, where
  merging commutes and repeating a merge changes nothing.  Then the state reached
  depends on the set of entries merged only, not on their order or multiplicity:
  this is the convergence argument of version-vector merging and of the roster.

  \<open>causal_compare\<close>: a four-way comparison that behaves like a partial order on
  the values it is used on.  Its lemmas are the order facts the conflict planner
  needs: domination is a strict order, and in a finite candidate set every
  candidate lies below a maximal one.
\<close>

datatype ord3 = Dominates | Dominated | Equal | Concurrent

subsection \<open>Order-insensitive merging\<close>

locale absorbing_merge =
  fixes merge :: "'s \<Rightarrow> 'e \<Rightarrow> 's"
    and ok :: "'s \<Rightarrow> bool"
    and adm :: "'e \<Rightarrow> bool"
  assumes ok_merge: "ok s \<Longrightarrow> adm a \<Longrightarrow> ok (merge s a)"
    and merge_commute: "ok s \<Longrightarrow> adm a \<Longrightarrow> adm b \<Longrightarrow> merge (merge s a) b = merge (merge s b) a"
    and merge_again: "ok s \<Longrightarrow> adm a \<Longrightarrow> merge (merge s a) a = merge s a"
begin

lemma ok_foldl: "ok s \<Longrightarrow> list_all adm xs \<Longrightarrow> ok (foldl merge s xs)"
  by (induction xs arbitrary: s) (auto simp: ok_merge)

lemma merge_foldl_swap:
  "ok s \<Longrightarrow> adm a \<Longrightarrow> list_all adm xs \<Longrightarrow> merge (foldl merge s xs) a = foldl merge (merge s a) xs"
proof (induction xs arbitrary: s)
  case Nil
  then show ?case by simp
next
  case (Cons x xs)
  then show ?case by (simp add: ok_merge merge_commute)
qed

lemma merge_member:
  "ok s \<Longrightarrow> list_all adm xs \<Longrightarrow> a \<in> set xs \<Longrightarrow> merge (foldl merge s xs) a = foldl merge s xs"
proof (induction xs arbitrary: s)
  case Nil
  then show ?case by simp
next
  case (Cons x xs)
  show ?case
  proof (cases "a = x")
    case True
    with Cons.prems show ?thesis by (simp add: merge_foldl_swap ok_merge merge_again)
  next
    case False
    with Cons show ?thesis by (simp add: ok_merge)
  qed
qed

lemma foldl_absorbs:
  "ok s \<Longrightarrow> list_all adm xs \<Longrightarrow> set ys \<subseteq> set xs \<Longrightarrow>
     foldl merge (foldl merge s xs) ys = foldl merge s xs"
  by (induction ys) (auto simp: merge_member)

lemma foldl_swap:
  "ok s \<Longrightarrow> list_all adm xs \<Longrightarrow> list_all adm ys \<Longrightarrow>
     foldl merge (foldl merge s xs) ys = foldl merge (foldl merge s ys) xs"
proof (induction ys arbitrary: s)
  case Nil
  then show ?case by simp
next
  case (Cons y ys)
  then show ?case by (simp add: merge_foldl_swap ok_merge)
qed

theorem order_insensitive:
  assumes "ok s" "list_all adm xs" "list_all adm ys" "set xs = set ys"
  shows "foldl merge s xs = foldl merge s ys"
proof -
  have "foldl merge s xs = foldl merge (foldl merge s xs) ys"
    using assms by (simp add: foldl_absorbs)
  also have "\<dots> = foldl merge (foldl merge s ys) xs"
    using assms by (simp add: foldl_swap)
  also have "\<dots> = foldl merge s ys"
    using assms by (simp add: foldl_absorbs)
  finally show ?thesis .
qed

end

subsection \<open>Causal comparison\<close>

locale causal_compare =
  fixes cmp :: "'v \<Rightarrow> 'v \<Rightarrow> ord3"
    and ok :: "'v \<Rightarrow> bool"
  assumes cmp_refl: "ok a \<Longrightarrow> cmp a a = Equal"
    and cmp_equal: "ok a \<Longrightarrow> ok b \<Longrightarrow> cmp a b = Equal \<Longrightarrow> a = b"
    and cmp_flip: "ok a \<Longrightarrow> ok b \<Longrightarrow> cmp a b = Dominates \<longleftrightarrow> cmp b a = Dominated"
    and cmp_trans: "ok a \<Longrightarrow> ok b \<Longrightarrow> ok c \<Longrightarrow>
      cmp a b = Dominates \<Longrightarrow> cmp b c = Dominates \<Longrightarrow> cmp a c = Dominates"
begin

lemma dominates_irrefl: "ok a \<Longrightarrow> cmp a a \<noteq> Dominates"
  by (simp add: cmp_refl)

lemma dominates_asym: "ok a \<Longrightarrow> ok b \<Longrightarrow> cmp a b = Dominates \<Longrightarrow> cmp b a \<noteq> Dominates"
  using cmp_trans dominates_irrefl by blast

lemma equal_iff: "ok a \<Longrightarrow> ok b \<Longrightarrow> cmp a b = Equal \<longleftrightarrow> a = b"
  using cmp_equal cmp_refl by blast

lemma concurrent_sym:
  assumes "ok a" "ok b" "cmp a b = Concurrent"
  shows "cmp b a = Concurrent"
proof (cases "cmp b a")
  case Dominates
  with assms show ?thesis by (simp add: cmp_flip)
next
  case Dominated
  with assms show ?thesis by (simp flip: cmp_flip)
next
  case Equal
  with assms show ?thesis by (simp add: equal_iff)
qed

lemma concurrent_flip: "ok a \<Longrightarrow> ok b \<Longrightarrow> cmp a b = Concurrent \<longleftrightarrow> cmp b a = Concurrent"
  using concurrent_sym by blast

lemma covered_by_maximal:
  assumes "finite S" "\<forall>a \<in> S. ok a" "x \<in> S"
  shows "\<exists>m \<in> S. (m = x \<or> cmp m x = Dominates) \<and> (\<forall>y \<in> S. cmp y m \<noteq> Dominates)"
  using assms
proof (induction "card {y \<in> S. cmp y x = Dominates}" arbitrary: x rule: less_induct)
  case less
  show ?case
  proof (cases "\<exists>y \<in> S. cmp y x = Dominates")
    case False
    with less.prems show ?thesis by blast
  next
    case True
    then obtain y where y: "y \<in> S" "cmp y x = Dominates" by blast
    have sub: "{z \<in> S. cmp z y = Dominates} \<subset> {z \<in> S. cmp z x = Dominates}"
    proof
      show "{z \<in> S. cmp z y = Dominates} \<subseteq> {z \<in> S. cmp z x = Dominates}"
        using y less.prems by (auto intro: cmp_trans [of _ y x])
      show "{z \<in> S. cmp z y = Dominates} \<noteq> {z \<in> S. cmp z x = Dominates}"
        using y less.prems dominates_irrefl by blast
    qed
    then have "card {z \<in> S. cmp z y = Dominates} < card {z \<in> S. cmp z x = Dominates}"
      using less.prems(1) by (intro psubset_card_mono) auto
    from less.hyps [OF this less.prems(1,2) y(1)] obtain m where
      m: "m \<in> S" "m = y \<or> cmp m y = Dominates" "\<forall>z \<in> S. cmp z m \<noteq> Dominates" by blast
    then have "cmp m x = Dominates"
      using y less.prems by (auto intro: cmp_trans [of m y x])
    with m show ?thesis by blast
  qed
qed

end

end
