(* ===== verification/Version_Vector.thy ===== *)
theory Version_Vector
  imports BTree_Map Replay
begin

text \<open>
  Per-file version vectors (\<open>src/vv.rs\<close>): the newtype over
  \<open>BTreeMap<NodeId, u64>\<close>, with \<open>get\<close>, \<open>increment\<close>, \<open>merge\<close>, \<open>compare\<close>,
  \<open>dominates\<close> and the normalizing \<open>FromIterator\<close>.  Counters are 64-bit words and
  \<open>increment\<close> wraps as the release build does; the invariant \<open>vv_ok\<close> is the
  module's own (entries in key order, no stored zero).
\<close>

type_synonym version_vector = "(node_id, u64) btree"

definition vv_ok :: "version_vector \<Rightarrow> bool" where
  "vv_ok v \<longleftrightarrow> bt_ok v \<and> (\<forall>e \<in> set v. snd e \<noteq> 0)"

definition vv_new :: version_vector where "vv_new = []"

definition vv_get :: "version_vector \<Rightarrow> node_id \<Rightarrow> u64" where
  "vv_get v node = unwrap_or (bt_get v node) 0"

definition vv_increment :: "version_vector \<Rightarrow> node_id \<Rightarrow> version_vector" where
  "vv_increment v node = bt_insert node (unwrap_or (bt_get v node) 0 + 1) v"

text \<open>One round of the loop of \<open>merge\<close>: \<open>entry(node).or_insert(0)\<close>, then the larger count.\<close>

definition vv_merge_entry :: "version_vector \<Rightarrow> node_id \<times> u64 \<Rightarrow> version_vector" where
  "vv_merge_entry v e =
     (let mine = unwrap_or (bt_get v (fst e)) 0
      in bt_insert (fst e) (if snd e > mine then snd e else mine) v)"

definition vv_merge :: "version_vector \<Rightarrow> version_vector \<Rightarrow> version_vector" where
  "vv_merge v other = foldl vv_merge_entry v other"

text \<open>The loop of \<open>compare\<close>, with its early exit once both sides are ahead somewhere.\<close>

fun vv_compare_loop :: "version_vector \<Rightarrow> version_vector \<Rightarrow> node_id list \<Rightarrow> bool \<Rightarrow> bool \<Rightarrow> ord3" where
  "vv_compare_loop a b [] self_gt other_gt =
     (case (self_gt, other_gt) of
        (True, True) \<Rightarrow> Concurrent
      | (True, False) \<Rightarrow> Dominates
      | (False, True) \<Rightarrow> Dominated
      | (False, False) \<Rightarrow> Equal)"
| "vv_compare_loop a b (node # nodes) self_gt other_gt =
     (let x = vv_get a node; y = vv_get b node;
          self_gt' = (if x > y then True else self_gt);
          other_gt' = (if x > y then other_gt else if y > x then True else other_gt)
      in if self_gt' \<and> other_gt' then Concurrent
         else vv_compare_loop a b nodes self_gt' other_gt')"

definition vv_compare :: "version_vector \<Rightarrow> version_vector \<Rightarrow> ord3" where
  "vv_compare a b = vv_compare_loop a b (bt_keys a @ bt_keys b) False False"

definition vv_dominates :: "version_vector \<Rightarrow> version_vector \<Rightarrow> bool" where
  "vv_dominates a b \<longleftrightarrow> vv_compare a b = Dominates"

definition vv_is_empty :: "version_vector \<Rightarrow> bool" where
  "vv_is_empty v \<longleftrightarrow> v = []"

definition vv_from_iter :: "(node_id \<times> u64) list \<Rightarrow> version_vector" where
  "vv_from_iter es = foldl (\<lambda>m e. if snd e > 0 then vv_merge_entry m e else m) [] es"

subsection \<open>The invariant and the reading of a component\<close>

text \<open>The causal order: componentwise on the counts, absent meaning zero.\<close>

definition vv_le :: "version_vector \<Rightarrow> version_vector \<Rightarrow> bool" where
  "vv_le a b \<longleftrightarrow> (\<forall>n. vv_get a n \<le> vv_get b n)"

lemma vv_ok_bt: "vv_ok v \<Longrightarrow> bt_ok v"
  by (simp add: vv_ok_def)

lemma vv_ok_new [simp]: "vv_ok vv_new" "vv_ok []"
  by (simp_all add: vv_ok_def vv_new_def)

lemma vv_get_new [simp]: "vv_get vv_new n = 0" "vv_get [] n = 0"
  by (simp_all add: vv_get_def vv_new_def)

lemma vv_get_zero_iff:
  assumes "vv_ok v"
  shows "vv_get v n = 0 \<longleftrightarrow> bt_get v n = None"
proof
  assume zero: "vv_get v n = 0"
  show "bt_get v n = None"
  proof (rule ccontr)
    assume "bt_get v n \<noteq> None"
    then obtain c where c: "bt_get v n = Some c" by blast
    then have "(n, c) \<in> set v" by (rule bt_get_Some_mem)
    with assms have "c \<noteq> 0" by (auto simp: vv_ok_def)
    with zero c show False by (simp add: vv_get_def)
  qed
qed (simp add: vv_get_def)

lemma vv_get_keys: "vv_get v n \<noteq> 0 \<Longrightarrow> n \<in> set (bt_keys v)"
  by (auto simp: vv_get_def bt_keys_mem unwrap_or_def split: option.splits)

lemma vv_eqI:
  assumes "vv_ok a" "vv_ok b" "\<And>n. vv_get a n = vv_get b n"
  shows "a = b"
proof (rule bt_canonical)
  fix k
  show "bt_get a k = bt_get b k"
    using assms(3) [of k] vv_get_zero_iff [OF assms(1), of k] vv_get_zero_iff [OF assms(2), of k]
    by (auto simp: vv_get_def unwrap_or_def split: option.splits)
qed (use assms in \<open>simp_all add: vv_ok_bt\<close>)

lemma vv_get_insert: "vv_get (bt_insert k c v) n = (if n = k then c else vv_get v n)"
  by (simp add: vv_get_def bt_get_insert)

lemma vv_ok_insert: "vv_ok v \<Longrightarrow> c \<noteq> 0 \<Longrightarrow> vv_ok (bt_insert k c v)"
  by (auto simp: vv_ok_def bt_ok_insert dest!: bt_insert_bound)

lemma vv_get_increment [vv_laws]:
  "vv_get (vv_increment v node) n = (if n = node then vv_get v node + 1 else vv_get v n)"
  by (auto simp: vv_increment_def vv_get_def bt_get_insert)

lemma vv_get_merge_entry:
  "vv_get (vv_merge_entry v e) n = (if n = fst e then max (vv_get v n) (snd e) else vv_get v n)"
  by (auto simp: vv_merge_entry_def Let_def vv_get_def bt_get_insert max_def)

lemma vv_ok_merge_entry: "vv_ok v \<Longrightarrow> snd e \<noteq> 0 \<Longrightarrow> vv_ok (vv_merge_entry v e)"
  unfolding vv_merge_entry_def Let_def
  by (rule vv_ok_insert) (auto simp: word_neq_0_conv)

lemma vv_ok_merge [vv_laws]: "vv_ok v \<Longrightarrow> vv_ok w \<Longrightarrow> vv_ok (vv_merge v w)"
proof -
  have "(\<forall>e \<in> set w. snd e \<noteq> 0) \<Longrightarrow> vv_ok v \<Longrightarrow> vv_ok (foldl vv_merge_entry v w)"
    by (induction w arbitrary: v) (auto simp: vv_ok_merge_entry)
  then show "vv_ok v \<Longrightarrow> vv_ok w \<Longrightarrow> vv_ok (vv_merge v w)"
    by (simp add: vv_merge_def vv_ok_def)
qed

lemma vv_get_merge [vv_laws]:
  assumes "vv_ok w"
  shows "vv_get (vv_merge v w) n = max (vv_get v n) (vv_get w n)"
proof -
  have "bt_ok w \<Longrightarrow> vv_get (foldl vv_merge_entry v w) n = max (vv_get v n) (vv_get w n)"
  proof (induction w arbitrary: v)
    case Nil
    then show ?case by (simp add: max_def)
  next
    case (Cons e w)
    obtain k c where e: "e = (k, c)" by (cases e)
    from Cons.prems e have ok: "bt_ok w" and notin: "bt_get w k = None"
      by (auto simp: bt_ok_Cons bt_get_None_iff)
    have "vv_get (e # w) n = (if n = k then c else vv_get w n)"
      by (simp add: e vv_get_def bt_get_Cons)
    moreover have "vv_get w k = 0" using notin by (simp add: vv_get_def)
    ultimately show ?case
      using Cons.IH [OF ok, of "vv_merge_entry v e"]
      by (auto simp: vv_get_merge_entry e max_def)
  qed
  with assms show ?thesis by (simp add: vv_merge_def vv_ok_bt)
qed

lemma vv_ok_increment: "vv_ok v \<Longrightarrow> vv_get v n + 1 \<noteq> 0 \<Longrightarrow> vv_ok (vv_increment v n)"
  unfolding vv_increment_def by (rule vv_ok_insert) (auto simp: vv_get_def)

lemma vv_ok_from_iter: "vv_ok (vv_from_iter es)"
proof -
  have "vv_ok m \<Longrightarrow> vv_ok (foldl (\<lambda>m e. if snd e > 0 then vv_merge_entry m e else m) m es)" for m
    by (induction es arbitrary: m) (auto simp: vv_ok_merge_entry)
  then show ?thesis by (simp add: vv_from_iter_def)
qed

subsection \<open>What the comparison decides\<close>

lemma vv_compare_loop_spec:
  "\<not> (sg \<and> og) \<Longrightarrow>
   vv_compare_loop a b nodes sg og =
     (case (sg \<or> (\<exists>n \<in> set nodes. vv_get b n < vv_get a n),
            og \<or> (\<exists>n \<in> set nodes. vv_get a n < vv_get b n)) of
        (True, True) \<Rightarrow> Concurrent
      | (True, False) \<Rightarrow> Dominates
      | (False, True) \<Rightarrow> Dominated
      | (False, False) \<Rightarrow> Equal)"
proof (induction nodes arbitrary: sg og)
  case Nil
  then show ?case by simp
next
  case (Cons n nodes)
  consider (gt) "vv_get b n < vv_get a n" | (lt) "vv_get a n < vv_get b n" | (eq) "vv_get a n = vv_get b n"
    by (rule linorder_cases)
  then show ?case
  proof cases
    case gt
    then have "\<not> vv_get a n < vv_get b n" by simp
    with gt Cons show ?thesis by (cases og) (auto simp: Let_def)
  next
    case lt
    then have "\<not> vv_get b n < vv_get a n" by simp
    with lt Cons show ?thesis by (cases sg) (auto simp: Let_def split: bool.splits)
  next
    case eq
    with Cons show ?thesis by (auto simp: Let_def)
  qed
qed

lemma vv_lt_key:
  "vv_get a n < vv_get b n \<Longrightarrow> n \<in> set (bt_keys a @ bt_keys b)"
  using vv_get_keys [of b n] by (cases "vv_get b n = 0") auto

lemma vv_compare_cases:
  "vv_compare a b =
     (if vv_le b a then (if vv_le a b then Equal else Dominates)
      else (if vv_le a b then Dominated else Concurrent))"
proof -
  have 1: "(\<exists>n \<in> set (bt_keys a @ bt_keys b). vv_get b n < vv_get a n) \<longleftrightarrow> \<not> vv_le a b"
    using vv_lt_key [of b _ a] by (auto simp: vv_le_def not_le)
  have 2: "(\<exists>n \<in> set (bt_keys a @ bt_keys b). vv_get a n < vv_get b n) \<longleftrightarrow> \<not> vv_le b a"
    using vv_lt_key [of a _ b] by (auto simp: vv_le_def not_le)
  show ?thesis
    unfolding vv_compare_def
    by (subst vv_compare_loop_spec) (simp, simp only: 1 2, auto)
qed

lemma vv_le_refl [simp]: "vv_le a a"
  by (simp add: vv_le_def)

lemma vv_le_trans: "vv_le a b \<Longrightarrow> vv_le b c \<Longrightarrow> vv_le a c"
  by (auto simp: vv_le_def intro: order_trans)

lemma vv_le_antisym: "vv_ok a \<Longrightarrow> vv_ok b \<Longrightarrow> vv_le a b \<Longrightarrow> vv_le b a \<Longrightarrow> a = b"
  by (rule vv_eqI) (auto simp: vv_le_def intro: order_antisym)

lemma vv_le_new [simp]: "vv_le [] a" "vv_le vv_new a"
  by (simp_all add: vv_le_def)

lemma vv_compare_refl [simp]: "vv_compare a a = Equal"
  by (simp add: vv_compare_cases)

lemma vv_compare_Dominates: "vv_compare a b = Dominates \<longleftrightarrow> vv_le b a \<and> \<not> vv_le a b"
  by (simp add: vv_compare_cases)

lemma vv_compare_Dominated: "vv_compare a b = Dominated \<longleftrightarrow> vv_le a b \<and> \<not> vv_le b a"
  by (simp add: vv_compare_cases)

lemma vv_compare_Concurrent: "vv_compare a b = Concurrent \<longleftrightarrow> \<not> vv_le a b \<and> \<not> vv_le b a"
  by (simp add: vv_compare_cases)

lemma vv_compare_Equal: "vv_ok a \<Longrightarrow> vv_ok b \<Longrightarrow> vv_compare a b = Equal \<longleftrightarrow> a = b"
  by (auto simp: vv_compare_cases intro: vv_le_antisym)

lemmas vv_compare_iffs = vv_compare_Dominates vv_compare_Dominated vv_compare_Concurrent

interpretation vvo: causal_compare vv_compare vv_ok
proof unfold_locales
  fix a b c
  show "vv_ok a \<Longrightarrow> vv_ok b \<Longrightarrow> vv_compare a b = Equal \<Longrightarrow> a = b"
    by (simp add: vv_compare_Equal)
  show "vv_compare a b = Dominates \<Longrightarrow> vv_compare b c = Dominates \<Longrightarrow> vv_compare a c = Dominates"
    by (auto simp: vv_compare_iffs intro: vv_le_trans)
qed (auto simp: vv_compare_iffs)

subsection \<open>Merging is the join of the causal order\<close>

lemma vv_merge_ub1: "vv_ok b \<Longrightarrow> vv_le a (vv_merge a b)"
  by (simp add: vv_le_def vv_get_merge)

lemma vv_merge_ub2: "vv_ok b \<Longrightarrow> vv_le b (vv_merge a b)"
  by (simp add: vv_le_def vv_get_merge)

lemma vv_merge_least: "vv_ok b \<Longrightarrow> vv_le a c \<Longrightarrow> vv_le b c \<Longrightarrow> vv_le (vv_merge a b) c"
  by (simp add: vv_le_def vv_get_merge)

lemma vv_merge_commute: "vv_ok a \<Longrightarrow> vv_ok b \<Longrightarrow> vv_merge a b = vv_merge b a"
  by (rule vv_eqI) (simp_all add: vv_laws max.commute)

lemma vv_merge_assoc:
  "vv_ok a \<Longrightarrow> vv_ok b \<Longrightarrow> vv_ok c \<Longrightarrow> vv_merge (vv_merge a b) c = vv_merge a (vv_merge b c)"
  by (rule vv_eqI) (simp_all add: vv_laws max.assoc)

lemma vv_merge_idem: "vv_ok a \<Longrightarrow> vv_merge a a = a"
  by (rule vv_eqI) (simp_all add: vv_laws)

lemma vv_merge_new [simp]: "vv_ok a \<Longrightarrow> vv_merge [] a = a"
  by (rule vv_eqI) (simp_all add: vv_laws)

lemma vv_merge_dominated: "vv_ok a \<Longrightarrow> vv_ok b \<Longrightarrow> vv_le b a \<Longrightarrow> vv_merge a b = a"
  by (rule vv_eqI) (auto simp: vv_laws vv_le_def max_def intro: order_antisym)

interpretation vvm: absorbing_merge vv_merge vv_ok vv_ok
proof unfold_locales
  fix s a b
  show "vv_ok s \<Longrightarrow> vv_ok a \<Longrightarrow> vv_ok (vv_merge s a)"
    by (rule vv_ok_merge)
  show "vv_ok s \<Longrightarrow> vv_ok a \<Longrightarrow> vv_ok b \<Longrightarrow> vv_merge (vv_merge s a) b = vv_merge (vv_merge s b) a"
    by (rule vv_eqI) (simp_all add: vv_laws max.commute max.left_commute)
  show "vv_ok s \<Longrightarrow> vv_ok a \<Longrightarrow> vv_merge (vv_merge s a) a = vv_merge s a"
    by (rule vv_eqI) (simp_all add: vv_laws)
qed

definition vv_merge_all :: "version_vector list \<Rightarrow> version_vector" where
  "vv_merge_all vs = foldl vv_merge vv_new vs"

lemma vv_ok_merge_all: "list_all vv_ok vs \<Longrightarrow> vv_ok (vv_merge_all vs)"
  unfolding vv_merge_all_def by (rule vvm.ok_foldl) simp_all

lemma vv_merge_all_set:
  "list_all vv_ok vs \<Longrightarrow> list_all vv_ok ws \<Longrightarrow> set vs = set ws \<Longrightarrow> vv_merge_all vs = vv_merge_all ws"
  unfolding vv_merge_all_def by (rule vvm.order_insensitive) simp_all

lemma vv_merge_all_ub:
  assumes "list_all vv_ok vs" "v \<in> set vs"
  shows "vv_le v (vv_merge_all vs)"
proof -
  from assms have "vv_ok v" by (auto simp: list_all_iff)
  then have "vv_le v (vv_merge (vv_merge_all vs) v)" by (rule vv_merge_ub2)
  then show ?thesis
    using assms by (simp add: vv_merge_all_def vvm.merge_member)
qed

lemma u64_succ_less: "(x :: u64) \<noteq> - 1 \<Longrightarrow> x < x + 1"
  by (metis inc_less_eq_triv_imp not_le)

lemma vv_increment_dominates:
  assumes "vv_get v n \<noteq> - 1"
  shows "vv_compare (vv_increment v n) v = Dominates"
proof -
  have lt: "vv_get v n < vv_get v n + 1"
    using assms by (rule u64_succ_less)
  have "vv_le v (vv_increment v n)"
    using lt by (auto simp: vv_le_def vv_get_increment)
  moreover have "\<not> vv_le (vv_increment v n) v"
    using lt by (auto simp: vv_le_def vv_get_increment not_le intro!: exI [of _ n])
  ultimately show ?thesis by (simp add: vv_compare_Dominates)
qed

lemma vv_ok_increment': "vv_ok v \<Longrightarrow> vv_get v n \<noteq> - 1 \<Longrightarrow> vv_ok (vv_increment v n)"
  by (rule vv_ok_increment) (simp_all add: eq_neg_iff_add_eq_0)

subsection \<open>Properties\<close>

text \<open>
  \<open>compare\<close> decides the causal order: on the vectors the program builds, the four
  answers are exactly strict domination either way, equality and incomparability of
  the component-wise order, where an absent component counts as zero.
\<close>

theorem vv_compare_decides_order:
  assumes "vv_ok a" "vv_ok b"
  shows "vv_compare a b =
    (if a = b then Equal
     else if \<forall>n. vv_get b n \<le> vv_get a n then Dominates
     else if \<forall>n. vv_get a n \<le> vv_get b n then Dominated else Concurrent)"
  using assms vv_le_antisym [OF assms] by (auto simp: vv_compare_cases vv_le_def)

theorem vv_compare_decides_order_witness: "vv_compare [([1], 2)] [] = Dominates"
  using vv_compare_decides_order [of "[([1], 2)]" "[]"] by (simp add: vv_ok_def bt_ok_def)

text \<open>
  \<open>merge\<close> is the least upper bound: it dominates both arguments, anything that
  dominates both dominates it, and it does not depend on the order or the grouping of
  the merges or on repetition.
\<close>

theorem vv_merge_is_join:
  assumes "vv_ok a" "vv_ok b" "vv_ok c"
  shows "vv_le a (vv_merge a b) \<and> vv_le b (vv_merge a b)
    \<and> (vv_le a c \<longrightarrow> vv_le b c \<longrightarrow> vv_le (vv_merge a b) c)
    \<and> vv_merge a b = vv_merge b a \<and> vv_merge (vv_merge a b) c = vv_merge a (vv_merge b c)
    \<and> vv_merge a a = a"
  using assms
  by (intro conjI impI vv_merge_ub1 vv_merge_ub2 vv_merge_least vv_merge_commute vv_merge_assoc vv_merge_idem)

theorem vv_merge_is_join_witness:
  "vv_merge [([1], 2)] [([2], 1)] = vv_merge [([2], 1)] [([1], 2)] \<and> vv_merge [([1], 2)] [([1], 2)] = [([1], 2)]"
  using vv_merge_is_join [of "[([1], 2)]" "[([2], 1)]" "[]"] by (simp add: vv_ok_def bt_ok_def)

text \<open>
  A local event moves the vector strictly forward, in the incremented component
  only, as long as the 64-bit counter is not at its maximum; at the maximum it wraps to
  zero.
\<close>

theorem vv_increment_strictly_later:
  "(vv_get v n \<noteq> - 1 \<longrightarrow> vv_compare (vv_increment v n) v = Dominates)
   \<and> (vv_get v n = - 1 \<longrightarrow> vv_get (vv_increment v n) n = 0)
   \<and> (\<forall>m. m \<noteq> n \<longrightarrow> vv_get (vv_increment v n) m = vv_get v m)"
  by (simp add: vv_increment_dominates vv_get_increment)

theorem vv_increment_strictly_later_witness:
  "vv_compare (vv_increment [([1], 2)] [1]) [([1], 2)] = Dominates"
proof -
  have "vv_get [([1], 2)] [1] \<noteq> - 1" by (simp add: vv_get_def bt_get_def)
  then show ?thesis using vv_increment_strictly_later [of "[([1], 2)]" "[1]"] by simp
qed

text \<open>
  \<open>merge\<close> does not drop a zero counter it is given, and neither does the derived decoder:
  a vector with a stored zero is causally equal to the empty one and not equal to it.
\<close>

lemma zero_counter_survives_merge:
  "vv_merge vv_new [(n, 0)] = [(n, 0)] \<and> vv_compare [(n, 0)] vv_new = Equal \<and> [(n, 0)] \<noteq> vv_new"
  by (simp add: vv_merge_def vv_new_def vv_merge_entry_def Let_def vv_compare_def vv_get_def bt_get_Cons bt_keys_def)

end
