(* ===== verification/Metadata.thy ===== *)
theory Metadata
  imports Version_Vector
begin

text \<open>
  Canonical metadata (\<open>src/metadata.rs\<close>): the snapshot \<open>Meta\<close> that rides every
  write, its canonical hash and the hash of the stable subset that names conflict
  copies.  \<open>capture\<close> is modelled as the function of what \<open>lstat\<close>, \<open>readlink\<close> and
  the xattr listing return.

  The third-party crates the program calls are the fields of the record \<open>crates\<close>,
  an argument of every definition that uses one: \<open>blake3\<close> (a hasher fed piecewise
  is the hash of the concatenation), \<open>hex::encode\<close>, \<open>bincode::serialize\<close> on the two
  types that are hashed or stored (\<open>None\<close> is its error), and \<open>ring\<close>'s Ed25519
  verification (public key, message, signature).
\<close>

datatype file_kind = Regular | Symlink | Fifo | CharDev | BlockDev

record meta =
  m_kind :: file_kind
  m_mode :: u32
  m_uid :: u32
  m_gid :: u32
  m_mtime_s :: i64
  m_mtime_ns :: u32
  m_symlink_target :: "bytes option"
  m_rdev :: u64
  m_xattrs :: "(bytes \<times> bytes) list"

record crates =
  blake3 :: "bytes \<Rightarrow> bytes"
  hex_encode :: "bytes \<Rightarrow> string"
  bincode_meta :: "meta \<Rightarrow> bytes option"
  bincode_vv :: "version_vector \<Rightarrow> bytes option"
  ed25519_verify :: "bytes \<Rightarrow> bytes \<Rightarrow> bytes \<Rightarrow> bool"

definition META_NONE :: hash32 where "META_NONE = zeros 32"

definition hash_of :: "crates \<Rightarrow> meta option \<Rightarrow> hash32" where
  "hash_of X mo =
     (case mo of None \<Rightarrow> META_NONE | Some m \<Rightarrow> blake3 X (unwrap_or (bincode_meta X m) []))"

definition kind_byte :: "file_kind \<Rightarrow> u8" where
  "kind_byte k = (case k of Regular \<Rightarrow> 0 | Symlink \<Rightarrow> 1 | Fifo \<Rightarrow> 2 | CharDev \<Rightarrow> 3 | BlockDev \<Rightarrow> 4)"

text \<open>A length-prefixed field: \<open>(t.len() as u64).to_le_bytes()\<close> and the bytes.\<close>

definition len_prefixed :: "bytes \<Rightarrow> bytes" where
  "len_prefixed t = u64_le (word_of_nat (length t)) @ t"

definition naming_bytes :: "meta \<Rightarrow> bytes" where
  "naming_bytes m =
     (let xattrs = sort (m_xattrs m)
      in [kind_byte (m_kind m)] @ u32_le (m_mode m) @ u64_le (m_rdev m)
         @ (case m_symlink_target m of Some t \<Rightarrow> [1] @ len_prefixed t | None \<Rightarrow> [0])
         @ u64_le (word_of_nat (length xattrs))
         @ concat (map (\<lambda>(k, v). len_prefixed k @ len_prefixed v) xattrs))"

definition naming_hash :: "crates \<Rightarrow> meta option \<Rightarrow> hash32" where
  "naming_hash X mo = (case mo of None \<Rightarrow> META_NONE | Some m \<Rightarrow> blake3 X (naming_bytes m))"

datatype owner_policy = Numeric | Skip

text \<open>What the kernel reports for a path; \<open>OtherType\<close> covers sockets and directories.\<close>

datatype file_type = IsFile | IsSymlink | IsFifo | IsCharDev | IsBlockDev | OtherType

record lstat =
  st_type :: file_type
  st_mode :: u32
  st_uid :: u32
  st_gid :: u32
  st_mtime :: i64
  st_mtime_nsec :: u32
  st_rdev :: u64
  st_link :: bytes
  st_xattrs :: "(bytes \<times> bytes) list"

definition capture :: "lstat \<Rightarrow> owner_policy \<Rightarrow> meta option" where
  "capture st policy =
     (case (case st_type st of IsFile \<Rightarrow> Some Regular | IsSymlink \<Rightarrow> Some Symlink
             | IsFifo \<Rightarrow> Some Fifo | IsCharDev \<Rightarrow> Some CharDev | IsBlockDev \<Rightarrow> Some BlockDev
             | OtherType \<Rightarrow> None) of
        None \<Rightarrow> None
      | Some kind \<Rightarrow>
          Some \<lparr>m_kind = kind,
                m_mode = and (st_mode st) 0xFFF,
                m_uid = (case policy of Numeric \<Rightarrow> st_uid st | Skip \<Rightarrow> 0),
                m_gid = (case policy of Numeric \<Rightarrow> st_gid st | Skip \<Rightarrow> 0),
                m_mtime_s = st_mtime st,
                m_mtime_ns = st_mtime_nsec st,
                m_symlink_target = (if kind = Symlink then Some (st_link st) else None),
                m_rdev = (if kind = CharDev \<or> kind = BlockDev then st_rdev st else 0),
                m_xattrs = sort (st_xattrs st)\<rparr>)"

subsection \<open>The naming encoding is unambiguous\<close>

text \<open>Lengths a 64-bit machine can hold, so that a length survives the cast to \<open>u64\<close>.\<close>

definition fits_u64 :: "'a list \<Rightarrow> bool" where
  "fits_u64 xs \<longleftrightarrow> length xs < 2 ^ 64"

definition meta_fits :: "meta \<Rightarrow> bool" where
  "meta_fits m \<longleftrightarrow> fits_u64 (m_xattrs m) \<and> (\<forall>(k, v) \<in> set (m_xattrs m). fits_u64 k \<and> fits_u64 v)
     \<and> (case m_symlink_target m of None \<Rightarrow> True | Some t \<Rightarrow> fits_u64 t)"

lemma word_of_length_inj:
  assumes "fits_u64 a" "fits_u64 b" "(word_of_nat (length a) :: u64) = word_of_nat (length b)"
  shows "length a = length b"
proof -
  have "unat (word_of_nat (length a) :: u64) = unat (word_of_nat (length b) :: u64)"
    using assms(3) by simp
  with assms(1,2) show ?thesis by (simp add: unat_of_nat fits_u64_def)
qed

lemma len_prefixed_cancel:
  assumes "fits_u64 a" "fits_u64 b"
  shows "len_prefixed a @ x = len_prefixed b @ y \<longleftrightarrow> a = b \<and> x = y"
proof
  assume eq: "len_prefixed a @ x = len_prefixed b @ y"
  then have "(word_of_nat (length a) :: u64) = word_of_nat (length b)" and rest: "a @ x = b @ y"
    by (simp_all add: len_prefixed_def)
  then have "length a = length b" using assms word_of_length_inj by blast
  with rest show "a = b \<and> x = y" by simp
qed simp

lemma xattr_bytes_cancel:
  assumes "\<forall>(k, v) \<in> set xs. fits_u64 k \<and> fits_u64 v"
    and "\<forall>(k, v) \<in> set ys. fits_u64 k \<and> fits_u64 v"
    and "length xs = length ys"
    and "concat (map (\<lambda>(k, v). len_prefixed k @ len_prefixed v) xs) =
         concat (map (\<lambda>(k, v). len_prefixed k @ len_prefixed v) ys)"
  shows "xs = ys"
  using assms(3,1,2,4)
proof (induction xs ys rule: list_induct2)
  case Nil
  then show ?case by simp
next
  case (Cons x xs y ys)
  then show ?case by (cases x; cases y) (auto simp: len_prefixed_cancel)
qed

definition same_naming :: "meta \<Rightarrow> meta \<Rightarrow> bool" where
  "same_naming m m' \<longleftrightarrow> m_kind m = m_kind m' \<and> m_mode m = m_mode m' \<and> m_rdev m = m_rdev m'
     \<and> m_symlink_target m = m_symlink_target m' \<and> sort (m_xattrs m) = sort (m_xattrs m')"

lemma kind_byte_inj: "kind_byte k = kind_byte k' \<longleftrightarrow> k = k'"
  by (cases k; cases k') (auto simp: kind_byte_def)

lemma naming_tail_cancel:
  assumes "fits_u64 xs" "fits_u64 ys"
    and "\<forall>(k, v) \<in> set xs. fits_u64 k \<and> fits_u64 v" "\<forall>(k, v) \<in> set ys. fits_u64 k \<and> fits_u64 v"
    and "u64_le (word_of_nat (length xs)) @ concat (map (\<lambda>(k, v). len_prefixed k @ len_prefixed v) xs)
       = u64_le (word_of_nat (length ys)) @ concat (map (\<lambda>(k, v). len_prefixed k @ len_prefixed v) ys)"
  shows "xs = ys"
proof -
  from assms(5) have "(word_of_nat (length xs) :: u64) = word_of_nat (length ys)" by simp
  then have "length xs = length ys" using assms(1,2) word_of_length_inj by blast
  with assms show ?thesis by (intro xattr_bytes_cancel) auto
qed

lemma naming_bytes_same: "same_naming m m' \<Longrightarrow> naming_bytes m = naming_bytes m'"
  by (simp add: same_naming_def naming_bytes_def Let_def)

lemma naming_bytes_inj:
  assumes fits: "meta_fits m" "meta_fits m'" and eq: "naming_bytes m = naming_bytes m'"
  shows "same_naming m m'"
proof -
  let ?tail = "\<lambda>m. u64_le (word_of_nat (length (sort (m_xattrs m))))
      @ concat (map (\<lambda>(k, v). len_prefixed k @ len_prefixed v) (sort (m_xattrs m)))"
  let ?link = "\<lambda>m. case m_symlink_target m of Some t \<Rightarrow> [1] @ len_prefixed t | None \<Rightarrow> [0]"
  from eq have head: "m_kind m = m_kind m'" "m_mode m = m_mode m'" "m_rdev m = m_rdev m'"
    and rest: "?link m @ ?tail m = ?link m' @ ?tail m'"
    by (auto simp: naming_bytes_def Let_def kind_byte_inj)
  from fits have f: "fits_u64 (sort (m_xattrs m))" "fits_u64 (sort (m_xattrs m'))"
    "\<forall>(k, v) \<in> set (sort (m_xattrs m)). fits_u64 k \<and> fits_u64 v"
    "\<forall>(k, v) \<in> set (sort (m_xattrs m')). fits_u64 k \<and> fits_u64 v"
    by (auto simp: meta_fits_def fits_u64_def)
  have "m_symlink_target m = m_symlink_target m' \<and> ?tail m = ?tail m'"
    using rest fits
    by (auto simp: meta_fits_def len_prefixed_cancel split: option.splits)
  with naming_tail_cancel [OF f] head show ?thesis by (simp add: same_naming_def)
qed

subsection \<open>Properties\<close>

text \<open>A concrete choice of the third-party functions, for examples.\<close>

definition plain_crates :: crates where
  "plain_crates = \<lparr>blake3 = (\<lambda>bs. bs), hex_encode = map (\<lambda>b. char_of (unat b)),
     bincode_meta = (\<lambda>m. Some (naming_bytes m)), bincode_vv = (\<lambda>v. Some (concat (map fst v))),
     ed25519_verify = (\<lambda>pk msg sig. sig = pk @ msg)\<rparr>"

definition plain_meta :: "(bytes \<times> bytes) list \<Rightarrow> u32 \<Rightarrow> meta" where
  "plain_meta xs uid = \<lparr>m_kind = Regular, m_mode = 420, m_uid = uid, m_gid = 0, m_mtime_s = 0,
     m_mtime_ns = 0, m_symlink_target = None, m_rdev = 0, m_xattrs = xs\<rparr>"

text \<open>
  The bytes that name a conflict copy are the same for two metadata snapshots exactly
  when they agree on kind, mode, device number, link target and the set of extended
  attributes; owner and modification time never enter, and no two different stable
  subsets are encoded alike.
\<close>

theorem naming_bytes_identify_stable_subset:
  assumes "meta_fits m" "meta_fits m'"
  shows "naming_bytes m = naming_bytes m' \<longleftrightarrow> same_naming m m'"
  using naming_bytes_inj [OF assms] naming_bytes_same [of m m'] by blast

theorem naming_bytes_identify_stable_subset_witness:
  "naming_bytes (plain_meta [([1], [2]), ([3], [])] 7) = naming_bytes (plain_meta [([3], []), ([1], [2])] 8)"
  using naming_bytes_identify_stable_subset [of "plain_meta [([1], [2]), ([3], [])] 7" "plain_meta [([3], []), ([1], [2])] 8"]
  by (simp add: plain_meta_def meta_fits_def fits_u64_def same_naming_def)

end
