(* ===== verification/Proto.thy ===== *)
theory Proto
  imports Metadata
begin

text \<open>
  The wire protocol (\<open>src/proto.rs\<close>): operation records and their identity, the
  data of the ephemeral streams, and the framing of messages.  A stream is the list
  of bytes still to be read; \<open>bincode\<close> on the message type is the pair of
  parameters \<open>ser\<close> and \<open>deser\<close> (\<open>None\<close> is its error).
\<close>

definition PROTO_VERSION :: u16 where "PROTO_VERSION = 4"
definition MAX_FRAME :: nat where "MAX_FRAME = 2 ^ 20"

datatype op_type = Write | Delete | Rename

record op_record =
  o_op_id :: hash32
  o_origin :: node_id
  o_origin_seq :: i64
  o_op_type :: op_type
  o_path :: path
  o_path_old :: "path option"
  o_uuid :: "uuid16 option"
  o_mode :: u32
  o_size :: u64
  o_content_hash :: "hash32 option"
  o_meta :: "meta option"
  o_vv :: version_vector

definition op_id :: "crates \<Rightarrow> node_id \<Rightarrow> i64 \<Rightarrow> hash32" where
  "op_id X origin origin_seq = blake3 X (origin @ i64_be origin_seq)"

record chunk_entry =
  ce_hash :: hash32
  ce_len :: u32

definition MANIFEST_PAGE :: nat where "MANIFEST_PAGE = 4096"
definition TREE_PAGE :: nat where "TREE_PAGE = 512"

record wire_child =
  wc_name :: string
  wc_hash :: hash32
  wc_is_dir :: bool

datatype proto_error = PIo | PTooLarge nat | PEncode | PDecode | PClosed

definition write_msg :: "('a \<Rightarrow> bytes option) \<Rightarrow> 'a \<Rightarrow> proto_error + bytes" where
  "write_msg ser msg =
     (case ser msg of
        None \<Rightarrow> Inl PEncode
      | Some body \<Rightarrow>
          if length body > MAX_FRAME then Inl (PTooLarge (length body))
          else Inr (u32_be (word_of_nat (length body)) @ body))"

text \<open>
  \<open>read_exact\<close> on the header fails with \<open>UnexpectedEof\<close> for any stream shorter
  than four bytes, the length is checked before the body is allocated or read.
\<close>

definition read_msg :: "(bytes \<Rightarrow> 'a option) \<Rightarrow> bytes \<Rightarrow> proto_error + 'a \<times> bytes" where
  "read_msg deser stream =
     (if length stream < 4 then Inl PClosed
      else let len = nat_of_be (take 4 stream); rest = drop 4 stream
           in if len > MAX_FRAME then Inl (PTooLarge len)
              else if length rest < len then Inl PIo
              else case deser (take len rest) of
                     None \<Rightarrow> Inl PDecode
                   | Some msg \<Rightarrow> Inr (msg, drop len rest))"

lemma op_id_seq_inj:
  assumes "inj_on (blake3 X) {origin @ i64_be a, origin @ i64_be b}"
    and "is_i64 a" "is_i64 b" "op_id X origin a = op_id X origin b"
  shows "a = b"
proof -
  have "origin @ i64_be a = origin @ i64_be b"
    using assms(1,4) by (auto simp: op_id_def dest: inj_onD)
  then show ?thesis using assms(2,3) i64_be_inj by simp
qed

lemma u32_header:
  assumes "n \<le> MAX_FRAME"
  shows "nat_of_be (u32_be (word_of_nat n)) = n"
proof -
  have "n < 2 ^ 32" using assms by (simp add: MAX_FRAME_def)
  then have "unat (word_of_nat n :: u32) = n" by (simp add: unat_of_nat)
  then show ?thesis using \<open>n < 2 ^ 32\<close>
    by (simp add: u32_be_def nat_of_be_of_nat)
qed

lemma read_frame:
  assumes "length body \<le> MAX_FRAME" "deser body = Some msg"
  shows "read_msg deser (u32_be (word_of_nat (length body)) @ body @ rest) = Inr (msg, rest)"
  using assms by (simp add: read_msg_def u32_header)

subsection \<open>Properties\<close>

text \<open>
  Framing round trip: what \<open>write_msg\<close> puts on a stream, \<open>read_msg\<close> takes off it
  again, leaving exactly what followed, whenever the codec round-trips.
\<close>

theorem frame_round_trip:
  assumes "write_msg ser msg = Inr frame" "\<And>body. ser msg = Some body \<Longrightarrow> deser body = Some msg"
  shows "read_msg deser (frame @ rest) = Inr (msg, rest)"
proof -
  obtain body where b: "ser msg = Some body" "length body \<le> MAX_FRAME"
    "frame = u32_be (word_of_nat (length body)) @ body"
    using assms(1) by (auto simp: write_msg_def split: option.splits if_splits)
  show ?thesis using read_frame [of body deser msg rest] assms(2) [OF b(1)] b(2) by (simp add: b(3))
qed

theorem frame_round_trip_witness:
  "read_msg Some ((u32_be 2 @ [7, 8]) @ [9]) = Inr ([7, 8 :: u8], [9])"
  by (rule frame_round_trip [where ser = Some]) (simp_all add: write_msg_def MAX_FRAME_def)

text \<open>
  Reading a frame on any input: a length above the cap is refused whatever follows
  it, a truncated body is an I/O error, an undecodable body a decode error, and a stream
  that ends inside the four header bytes is reported as closed, whether or not it ended
  at a frame boundary.
\<close>

theorem read_msg_errors:
  "(length s < 4 \<longrightarrow> read_msg deser s = Inl PClosed)
   \<and> (4 \<le> length s \<and> nat_of_be (take 4 s) > MAX_FRAME \<longrightarrow> read_msg deser s = Inl (PTooLarge (nat_of_be (take 4 s))))
   \<and> (4 \<le> length s \<and> nat_of_be (take 4 s) \<le> MAX_FRAME \<and> length s - 4 < nat_of_be (take 4 s) \<longrightarrow> read_msg deser s = Inl PIo)
   \<and> (read_msg deser s = Inl PDecode \<longrightarrow> deser (take (nat_of_be (take 4 s)) (drop 4 s)) = None)"
  by (auto simp: read_msg_def Let_def split: option.splits)

theorem read_msg_errors_witness: "read_msg Some [0, 0, 0] = Inl PClosed"
  using read_msg_errors [of "[0, 0, 0]" Some] by simp

end
