(* ===== verification/Chunk.thy ===== *)
theory Chunk
  imports Proto
begin

text \<open>
  Content-defined chunking and the content-addressed store (\<open>src/chunk.rs\<close>).  The
  store directory is a partial map from chunk hash to the bytes of the file at that
  name; the bytes are arbitrary, so bit-rot is a state of the model.  Whether the
  file-system calls of an operation succeed is an argument (\<open>io_ok\<close>).  A file being
  assembled is its bytes and the write position, so seeking over an all-zero chunk
  leaves a hole.  \<open>fastcdc\<close> is the parameter \<open>cdc\<close> from the file's bytes to its
  pieces; its stream can break off with an error after a number of pieces (\<open>broken\<close>).
\<close>

record manifest =
  mf_content_hash :: hash32
  mf_chunks :: "chunk_entry list"

definition total_len :: "manifest \<Rightarrow> u64" where
  "total_len m = sum_list (map (\<lambda>c. ucast (ce_len c)) (mf_chunks m))"

datatype cas_error = CIo | CHashMismatch | CMissing | CChunker

type_synonym cas = "hash32 \<rightharpoonup> bytes"

definition cas_has :: "cas \<Rightarrow> hash32 \<Rightarrow> bool" where
  "cas_has cas h \<longleftrightarrow> cas h \<noteq> None"

definition put_verified :: "crates \<Rightarrow> bool \<Rightarrow> cas \<Rightarrow> hash32 \<Rightarrow> bytes \<Rightarrow> cas \<times> (cas_error + unit)" where
  "put_verified X io_ok cas h bs =
     (if blake3 X bs \<noteq> h then (cas, Inl CHashMismatch)
      else if cas_has cas h then (cas, Inr ())
      else if \<not> io_ok then (cas, Inl CIo)
      else (cas(h \<mapsto> bs), Inr ()))"

text \<open>Reading re-verifies; a corrupt chunk is unlinked before the error is returned.\<close>

definition cas_read :: "crates \<Rightarrow> bool \<Rightarrow> cas \<Rightarrow> hash32 \<Rightarrow> cas \<times> (cas_error + bytes)" where
  "cas_read X io_ok cas h =
     (case cas h of
        None \<Rightarrow> (cas, Inl CMissing)
      | Some bs \<Rightarrow>
          if \<not> io_ok then (cas, Inl CIo)
          else if blake3 X bs \<noteq> h then (cas(h := None), Inl CHashMismatch)
          else (cas, Inr bs))"

record chunk_params =
  cp_min :: u32
  cp_avg :: u32
  cp_max :: u32

fun chunk_pieces :: "crates \<Rightarrow> bool \<Rightarrow> cas \<Rightarrow> bytes list \<Rightarrow> cas \<times> (cas_error + chunk_entry list)" where
  "chunk_pieces X io_ok cas [] = (cas, Inr [])"
| "chunk_pieces X io_ok cas (data # pieces) =
     (let hash = blake3 X data
      in case put_verified X io_ok cas hash data of
           (cas', Inl e) \<Rightarrow> (cas', Inl e)
         | (cas', Inr _) \<Rightarrow>
             (case chunk_pieces X io_ok cas' pieces of
                (cas'', Inl e) \<Rightarrow> (cas'', Inl e)
              | (cas'', Inr es) \<Rightarrow>
                  (cas'', Inr (\<lparr>ce_hash = hash, ce_len = word_of_nat (length data)\<rparr> # es))))"

definition chunk_file_into_cas ::
  "crates \<Rightarrow> (chunk_params \<Rightarrow> bytes \<Rightarrow> bytes list) \<Rightarrow> bool \<Rightarrow> nat option \<Rightarrow> chunk_params \<Rightarrow> bytes \<Rightarrow> cas
     \<Rightarrow> cas \<times> (cas_error + manifest)" where
  "chunk_file_into_cas X cdc io_ok broken params data cas =
     (let pieces = (case broken of None \<Rightarrow> cdc params data | Some k \<Rightarrow> take k (cdc params data))
      in case chunk_pieces X io_ok cas pieces of
           (cas', Inl e) \<Rightarrow> (cas', Inl e)
         | (cas', Inr es) \<Rightarrow>
             if broken \<noteq> None then (cas', Inl CChunker)
             else (cas', Inr \<lparr>mf_content_hash = blake3 X (concat pieces), mf_chunks = es\<rparr>))"

subsection \<open>Assembly\<close>

text \<open>Writing at a position past the end of a file fills the gap with zeros.\<close>

definition write_at :: "bytes \<Rightarrow> nat \<Rightarrow> bytes \<Rightarrow> bytes" where
  "write_at out pos bs =
     take pos (out @ zeros (pos - length out)) @ bs @ drop (pos + length bs) out"

definition set_len :: "bytes \<Rightarrow> nat \<Rightarrow> bytes" where
  "set_len out n = take n (out @ zeros (n - length out))"

text \<open>
  The loop of \<open>assemble_from_cas\<close>: the file, the offset, and the bytes fed to the
  whole-file hasher.
\<close>

fun assemble_loop ::
  "crates \<Rightarrow> bool \<Rightarrow> cas \<Rightarrow> chunk_entry list \<Rightarrow> bytes \<Rightarrow> nat \<Rightarrow> bytes
     \<Rightarrow> cas \<times> (cas_error + bytes \<times> nat \<times> bytes)" where
  "assemble_loop X io_ok cas [] out offset whole = (cas, Inr (out, offset, whole))"
| "assemble_loop X io_ok cas (entry # es) out offset whole =
     (case cas_read X io_ok cas (ce_hash entry) of
        (cas', Inl e) \<Rightarrow> (cas', Inl e)
      | (cas', Inr bs) \<Rightarrow>
          if (word_of_nat (length bs) :: u32) \<noteq> ce_len entry then (cas', Inl CHashMismatch)
          else if list_all (\<lambda>b. b = 0) bs
               then assemble_loop X io_ok cas' es out (offset + length bs) (whole @ bs)
               else assemble_loop X io_ok cas' es (write_at out offset bs) (offset + length bs) (whole @ bs))"

definition assemble_from_cas ::
  "crates \<Rightarrow> bool \<Rightarrow> manifest \<Rightarrow> cas \<Rightarrow> cas \<times> (cas_error + bytes \<times> hash32)" where
  "assemble_from_cas X io_ok manifest cas =
     (case assemble_loop X io_ok cas (mf_chunks manifest) [] 0 [] of
        (cas', Inl e) \<Rightarrow> (cas', Inl e)
      | (cas', Inr (out, offset, whole)) \<Rightarrow> (cas', Inr (set_len out offset, blake3 X whole)))"

subsection \<open>Verified contents\<close>

text \<open>Every chunk of the store hashes to its name.\<close>

definition cas_ok :: "crates \<Rightarrow> cas \<Rightarrow> bool" where
  "cas_ok X cas \<longleftrightarrow> (\<forall>h bs. cas h = Some bs \<longrightarrow> blake3 X bs = h)"

lemma put_verified_ok: "cas_ok X cas \<Longrightarrow> cas_ok X (fst (put_verified X io_ok cas h bs))"
  by (auto simp: cas_ok_def put_verified_def)

lemma put_verified_keeps: "cas k = Some b \<Longrightarrow> fst (put_verified X io_ok cas h bs) k = Some b"
  by (auto simp: put_verified_def cas_has_def)

lemma put_verified_Inr:
  "put_verified X io_ok cas h bs = (cas', Inr u) \<Longrightarrow> cas_has cas' h \<and> blake3 X bs = h"
  by (auto simp: put_verified_def cas_has_def split: if_splits)

lemma cas_read_ok: "cas_ok X cas \<Longrightarrow> cas_ok X (fst (cas_read X io_ok cas h))"
  by (auto simp: cas_ok_def cas_read_def split: option.splits)

lemma cas_read_verified: "cas_read X io_ok cas h = (cas', Inr bs) \<Longrightarrow> blake3 X bs = h \<and> cas' = cas \<and> cas h = Some bs"
  by (auto simp: cas_read_def split: option.splits if_splits)

lemma chunk_pieces_ok: "cas_ok X cas \<Longrightarrow> cas_ok X (fst (chunk_pieces X io_ok cas ps))"
proof (induction ps arbitrary: cas)
  case (Cons p ps)
  have "cas_ok X (fst (put_verified X io_ok cas (blake3 X p) p))"
    using Cons.prems by (rule put_verified_ok)
  then show ?case
    using Cons.IH by (auto simp: Let_def split: prod.splits sum.splits) (metis fst_conv)+
qed simp

text \<open>The assembled file: the bytes written so far, padded to the offset, are the bytes hashed.\<close>

lemma set_len_write_at:
  assumes "length out \<le> pos"
  shows "set_len (write_at out pos bs) (pos + length bs) = set_len out pos @ bs"
  using assms by (simp add: set_len_def write_at_def)

lemma zero_bytes: "list_all (\<lambda>b. b = 0) bs \<Longrightarrow> bs = zeros (length bs)"
  by (simp add: zeros_def list_all_iff replicate_eqI)

lemma set_len_hole:
  assumes "length out \<le> pos" "list_all (\<lambda>b. b = 0) bs"
  shows "set_len out (pos + length bs) = set_len out pos @ bs"
proof -
  have "set_len out (pos + length bs) = out @ zeros (pos - length out + length bs)"
    using assms(1) by (simp add: set_len_def)
  also have "\<dots> = out @ zeros (pos - length out) @ zeros (length bs)"
    by (simp add: zeros_def replicate_add)
  also have "\<dots> = set_len out pos @ bs"
    using assms zero_bytes by (simp add: set_len_def)
  finally show ?thesis .
qed

lemma set_len_zero: "length ([] :: bytes) \<le> 0" "set_len [] 0 = []"
  by (simp_all add: set_len_def)

lemma assemble_loop_bytes:
  assumes "assemble_loop X io_ok cas es out pos whole = (cas', Inr (out', pos', whole'))"
    and "length out \<le> pos" "set_len out pos = whole"
  shows "length out' \<le> pos' \<and> set_len out' pos' = whole'"
  using assms
proof (induction es arbitrary: cas out pos whole)
  case Nil
  then show ?case by simp
next
  case (Cons e es)
  obtain bs where step: "cas_read X io_ok cas (ce_hash e) = (cas, Inr bs)"
    and len: "(word_of_nat (length bs) :: u32) = ce_len e"
    using Cons.prems(1)
    by (auto split: prod.splits sum.splits if_splits dest!: cas_read_verified)
  show ?case
  proof (cases "list_all (\<lambda>b. b = 0) bs")
    case True
    have "set_len out (pos + length bs) = whole @ bs"
      using True Cons.prems(2,3) by (simp add: set_len_hole)
    with True Cons.prems step len show ?thesis
      by (intro Cons.IH [of cas out "pos + length bs" "whole @ bs"]) auto
  next
    case False
    have "set_len (write_at out pos bs) (pos + length bs) = whole @ bs"
      using Cons.prems(2,3) by (simp add: set_len_write_at)
    moreover have "length (write_at out pos bs) \<le> pos + length bs"
      using Cons.prems(2) by (simp add: write_at_def)
    ultimately show ?thesis
      using False Cons.prems step len
      by (intro Cons.IH [of cas "write_at out pos bs" "pos + length bs" "whole @ bs"]) auto
  qed
qed

lemma assemble_loop_present:
  assumes "list_all (\<lambda>p. cas (blake3 X p) = Some p) ps"
  shows "\<exists>out'. assemble_loop X True cas
           (map (\<lambda>p. \<lparr>ce_hash = blake3 X p, ce_len = word_of_nat (length p)\<rparr>) ps) out pos whole
         = (cas, Inr (out', pos + length (concat ps), whole @ concat ps))"
  using assms
proof (induction ps arbitrary: out pos whole)
  case Nil
  then show ?case by simp
next
  case (Cons p ps)
  then have "cas_read X True cas (blake3 X p) = (cas, Inr p)"
    by (simp add: cas_read_def)
  with Cons.prems Cons.IH [of out "pos + length p" "whole @ p"]
    Cons.IH [of "write_at out pos p" "pos + length p" "whole @ p"]
  show ?case by (simp add: add.assoc)
qed

lemma chunk_pieces_keeps:
  "cas k = Some b \<Longrightarrow> fst (chunk_pieces X io_ok cas ps) k = Some b"
proof (induction ps arbitrary: cas)
  case (Cons p ps)
  have "fst (put_verified X io_ok cas (blake3 X p) p) k = Some b"
    using Cons.prems by (rule put_verified_keeps)
  then show ?case
    using Cons.IH by (auto simp: Let_def split: prod.splits sum.splits) (metis fst_conv)+
qed simp

text \<open>With a disk that works, every piece ends up present under its own hash.\<close>

lemma put_verified_ran: "ran (fst (put_verified X io_ok cas h bs)) \<subseteq> insert bs (ran cas)"
  by (auto simp: put_verified_def ran_def split: if_splits)

lemma chunk_pieces_present:
  assumes "cas_ok X cas" "inj_on (blake3 X) (ran cas \<union> set ps)"
  shows "\<exists>cas'. chunk_pieces X True cas ps =
           (cas', Inr (map (\<lambda>p. \<lparr>ce_hash = blake3 X p, ce_len = word_of_nat (length p)\<rparr>) ps))
         \<and> list_all (\<lambda>p. cas' (blake3 X p) = Some p) ps"
  using assms
proof (induction ps arbitrary: cas)
  case Nil
  then show ?case by simp
next
  case (Cons p ps)
  obtain cas1 where put: "put_verified X True cas (blake3 X p) p = (cas1, Inr ())"
    by (cases "cas_has cas (blake3 X p)") (auto simp: put_verified_def)
  have ok1: "cas_ok X cas1"
    using put_verified_ok [OF Cons.prems(1), of True "blake3 X p" p] put by simp
  have ran1: "ran cas1 \<subseteq> insert p (ran cas)"
    using put_verified_ran [of X True cas "blake3 X p" p] put by simp
  have "cas_has cas1 (blake3 X p)" using put put_verified_Inr by blast
  then obtain b where b: "cas1 (blake3 X p) = Some b" by (auto simp: cas_has_def)
  with ok1 have same: "blake3 X b = blake3 X p" by (simp add: cas_ok_def)
  have "b \<in> insert p (ran cas)" using ran1 b by (meson ranI subsetD)
  then have "b \<in> ran cas \<union> set (p # ps)" "p \<in> ran cas \<union> set (p # ps)" by auto
  with Cons.prems(2) same have "b = p" by (rule inj_onD)
  with b have present: "cas1 (blake3 X p) = Some p" by simp
  have "inj_on (blake3 X) (ran cas1 \<union> set ps)"
    using Cons.prems(2) by (rule inj_on_subset) (use ran1 in auto)
  from Cons.IH [OF ok1 this] obtain cas2 where rest: "chunk_pieces X True cas1 ps =
      (cas2, Inr (map (\<lambda>p. \<lparr>ce_hash = blake3 X p, ce_len = word_of_nat (length p)\<rparr>) ps))"
    "list_all (\<lambda>p. cas2 (blake3 X p) = Some p) ps" by blast
  have "cas2 (blake3 X p) = Some p"
    using chunk_pieces_keeps [of cas1, OF present, of X True ps] rest by simp
  with put rest show ?case by (simp add: Let_def)
qed

text \<open>A stream that breaks off gives an error, never a manifest of a part; the chunks so far stay, verified.\<close>

lemma broken_stream_is_an_error:
  "\<exists>e. snd (chunk_file_into_cas X cdc io_ok (Some k) params data cas) = Inl e"
  "cas_ok X cas \<Longrightarrow> cas_ok X (fst (chunk_file_into_cas X cdc io_ok broken params data cas))"
  using chunk_pieces_ok [of X cas io_ok "case broken of None \<Rightarrow> cdc params data | Some k \<Rightarrow> take k (cdc params data)"]
  by (auto simp: chunk_file_into_cas_def Let_def split: prod.splits sum.splits)

subsection \<open>Properties\<close>

text \<open>
  C28. Chunking a file into the store and assembling its manifest gives back the file
  and its hash, all-zero chunks (which are skipped over, leaving holes) included, when
  the disk works, the stream of pieces does not break off, the pieces are the file and no two of
  the contents at hand collide.
\<close>

theorem chunk_assemble_round_trip:
  assumes "cas_ok X cas" "concat (cdc params data) = data"
    and "inj_on (blake3 X) (ran cas \<union> set (cdc params data))"
  shows "\<exists>cas' m. chunk_file_into_cas X cdc True None params data cas = (cas', Inr m)
           \<and> mf_content_hash m = blake3 X data \<and> cas_ok X cas'
           \<and> assemble_from_cas X True m cas' = (cas', Inr (data, blake3 X data))"
proof -
  let ?ps = "cdc params data"
  let ?es = "map (\<lambda>p. \<lparr>ce_hash = blake3 X p, ce_len = word_of_nat (length p)\<rparr>) ?ps"
  obtain cas' where c: "chunk_pieces X True cas ?ps = (cas', Inr ?es)"
    "list_all (\<lambda>p. cas' (blake3 X p) = Some p) ?ps"
    using chunk_pieces_present [OF assms(1,3)] by blast
  obtain out where a: "assemble_loop X True cas' ?es [] 0 [] = (cas', Inr (out, length data, data))"
    using assemble_loop_present [OF c(2), of "[]" 0 "[]"] assms(2) by auto
  have "set_len out (length data) = data"
    using assemble_loop_bytes [OF a] set_len_zero by simp
  with a c assms(2) chunk_pieces_ok [OF assms(1), of True ?ps] show ?thesis
    by (simp add: chunk_file_into_cas_def assemble_from_cas_def Let_def)
qed

theorem chunk_assemble_round_trip_witness:
  "\<exists>cas' m. chunk_file_into_cas plain_crates (\<lambda>_ d. [take 2 d, drop 2 d]) True None
        \<lparr>cp_min = 1, cp_avg = 2, cp_max = 4\<rparr> [0, 0, 5] Map.empty = (cas', Inr m)
      \<and> mf_content_hash m = blake3 plain_crates [0, 0, 5] \<and> cas_ok plain_crates cas'
      \<and> assemble_from_cas plain_crates True m cas' = (cas', Inr ([0, 0, 5], blake3 plain_crates [0, 0, 5]))"
  by (rule chunk_assemble_round_trip) (simp_all add: cas_ok_def plain_crates_def)

text \<open>
  Assembly never reports a hash for other bytes than the ones it leaves in the
  file, whatever the store holds: with bit-rot in the store it returns an error, or
  the hash of exactly the assembled file.
\<close>

theorem assembled_hash_is_of_the_file:
  assumes "assemble_from_cas X io_ok m cas = (cas', Inr (file, h))"
  shows "h = blake3 X file \<and> cas' = cas \<and> list_all (\<lambda>e. cas_has cas (ce_hash e)) (mf_chunks m)"
proof -
  from assms obtain out pos whole where
    l: "assemble_loop X io_ok cas (mf_chunks m) [] 0 [] = (cas', Inr (out, pos, whole))"
    and r: "file = set_len out pos" "h = blake3 X whole"
    by (auto simp: assemble_from_cas_def split: prod.splits sum.splits)
  have "assemble_loop X io_ok c es o1 p1 w1 = (c', Inr q) \<Longrightarrow> c' = c \<and> list_all (\<lambda>e. cas_has c (ce_hash e)) es"
    for c c' es o1 p1 w1 q
  proof (induction es arbitrary: c o1 p1 w1)
    case (Cons e es)
    obtain bs where "cas_read X io_ok c (ce_hash e) = (c, Inr bs)" "c (ce_hash e) = Some bs"
      using Cons.prems by (auto split: prod.splits sum.splits if_splits dest!: cas_read_verified)
    with Cons show ?case by (auto simp: cas_has_def split: if_splits)
  qed simp
  from this [OF l] assemble_loop_bytes [OF l] set_len_zero r show ?thesis by simp
qed

theorem assembled_hash_is_of_the_file_witness:
  "blake3 plain_crates [5] = [5] \<and> cas_has [[5] \<mapsto> [5 :: u8]] [5]"
  using assembled_hash_is_of_the_file [of plain_crates True
    "\<lparr>mf_content_hash = [5], mf_chunks = [\<lparr>ce_hash = [5], ce_len = 1\<rparr>]\<rparr>" "[[5] \<mapsto> [5]]" "[[5] \<mapsto> [5]]" "[5]" "[5]"]
  by (simp add: assemble_from_cas_def cas_read_def plain_crates_def write_at_def set_len_def zeros_def cas_has_def)

end
