(* ===== verification/Decide.thy ===== *)
theory Decide
  imports Version_Vector
begin

text \<open>
  The pure decision on a remote version (\<open>src/decide.rs\<close>).  \<open>LocalFile\<close> is the
  decision-relevant view of a row; \<open>decide\<close> reads the two version vectors only.
\<close>

record local_file =
  lf_vv :: version_vector
  lf_tombstone :: bool
  lf_content_hash :: "hash32 option"
  lf_mode :: u32

datatype decision = Apply | Ignore | DConcurrent | Quarantined

definition decide :: "local_file option \<Rightarrow> version_vector \<Rightarrow> decision" where
  "decide local remote_vv =
     (case local of
        None \<Rightarrow> Apply
      | Some l \<Rightarrow>
          (case vv_compare remote_vv (lf_vv l) of
             Dominates \<Rightarrow> Apply
           | Dominated \<Rightarrow> Ignore
           | Equal \<Rightarrow> Ignore
           | Concurrent \<Rightarrow> DConcurrent))"

lemma decide_None [simp]: "decide None v = Apply"
  by (simp add: decide_def)

lemma decide_Some_cases:
  "decide (Some l) v =
     (if vv_le v (lf_vv l) then Ignore else if vv_le (lf_vv l) v then Apply else DConcurrent)"
  by (auto simp: decide_def vv_compare_cases)

lemma decide_not_quarantined: "decide local v \<noteq> Quarantined"
  by (cases local) (auto simp: decide_Some_cases)

end
