(* ===== verification/State.thy ===== *)
theory State
  imports Chunk Decide
begin

text \<open>
  The materialized index and its row helpers (\<open>src/state.rs\<close>).  The SQLite
  database is the record \<open>db\<close>: one field per table, a table with a primary key
  being an ordered map from the key to the row and the operation log the list of
  its rows in arrival order.  Columns hold typed values; the casts between the
  integer columns and \<open>u32\<close>/\<open>u64\<close> are lossless both ways.  A statement is a
  function on \<open>db\<close>, and a transaction that returns an error returns the database
  it started from (rusqlite rolls back a transaction that is dropped).
\<close>

record file_row =
  r_path :: path
  r_content_hash :: "hash32 option"
  r_mode :: u32
  r_size :: u64
  r_tombstone :: bool
  r_vv :: version_vector
  r_uuid :: "uuid16 option"
  r_meta :: "meta option"

record live_file =
  lv_path :: path
  lv_content_hash :: "hash32 option"
  lv_mode :: u32
  lv_size :: u64

record cursor_row =
  cu_recv_cursor :: i64
  cu_last_acked_seq :: i64

record peer_row =
  pr_last_acked_seq :: i64
  pr_recv_cursor :: i64

record db =
  t_oplog :: "op_record list"
  t_files :: "(path, file_row) btree"
  t_peers :: "(node_id, peer_row) btree"
  t_applied :: "hash32 list"
  t_manifests :: "(hash32, i64) btree"
  t_manifest_chunks :: "(hash32 \<times> i64, chunk_entry) btree"
  t_peer_cursors :: "(node_id \<times> node_id, cursor_row) btree"
  t_meta :: "(string, string) btree"

datatype store_error = Corrupt string | Gone

definition load_row :: "db \<Rightarrow> path \<Rightarrow> file_row option" where
  "load_row d p = bt_get (t_files d) p"

definition row_local :: "file_row \<Rightarrow> local_file" where
  "row_local r = \<lparr>lf_vv = r_vv r, lf_tombstone = r_tombstone r,
                  lf_content_hash = r_content_hash r, lf_mode = r_mode r\<rparr>"

definition load_file :: "db \<Rightarrow> path \<Rightarrow> local_file option" where
  "load_file d p = map_option row_local (bt_get (t_files d) p)"

definition upsert_file ::
  "path \<Rightarrow> hash32 option \<Rightarrow> u32 \<Rightarrow> u64 \<Rightarrow> version_vector \<Rightarrow> bool \<Rightarrow> uuid16 option \<Rightarrow> meta option
     \<Rightarrow> db \<Rightarrow> db" where
  "upsert_file p ch mode sz vv tombstone uuid mt d =
     d\<lparr>t_files := bt_insert p
         \<lparr>r_path = p, r_content_hash = ch, r_mode = mode, r_size = sz,
          r_tombstone = tombstone, r_vv = vv, r_uuid = uuid, r_meta = mt\<rparr> (t_files d)\<rparr>"

definition live_files :: "db \<Rightarrow> live_file list" where
  "live_files d =
     map (\<lambda>r. \<lparr>lv_path = r_path r, lv_content_hash = r_content_hash r,
               lv_mode = r_mode r, lv_size = r_size r\<rparr>)
       (filter (\<lambda>r. \<not> r_tombstone r) (bt_values (t_files d)))"

definition all_files :: "db \<Rightarrow> file_row list" where
  "all_files d = bt_values (t_files d)"

definition backfill_uuids :: "(path \<Rightarrow> uuid16) \<Rightarrow> db \<Rightarrow> db" where
  "backfill_uuids mint d =
     d\<lparr>t_files := map (\<lambda>(p, r). (p, if r_uuid r = None then r\<lparr>r_uuid := Some (mint p)\<rparr> else r)) (t_files d)\<rparr>"

text \<open>\<open>INSERT OR IGNORE\<close>: an existing row with the same primary key stays.\<close>

definition bt_insert_ignore :: "'k::linorder \<Rightarrow> 'v \<Rightarrow> ('k, 'v) btree \<Rightarrow> ('k, 'v) btree" where
  "bt_insert_ignore k v m = (case bt_get m k of None \<Rightarrow> bt_insert k v m | Some _ \<Rightarrow> m)"

definition put_manifest :: "manifest \<Rightarrow> db \<Rightarrow> db" where
  "put_manifest m d =
     d\<lparr>t_manifests := bt_insert_ignore (mf_content_hash m) (int (length (mf_chunks m))) (t_manifests d),
       t_manifest_chunks :=
         foldl (\<lambda>t (idx, c). bt_insert_ignore (mf_content_hash m, int idx) c t)
           (t_manifest_chunks d) (enumerate 0 (mf_chunks m))\<rparr>"

text \<open>The chunk rows of one manifest, in index order (the table is ordered by its key).\<close>

definition chunk_rows :: "db \<Rightarrow> hash32 \<Rightarrow> chunk_entry list" where
  "chunk_rows d h = map snd (filter (\<lambda>e. fst (fst e) = h) (t_manifest_chunks d))"

definition manifest_for :: "db \<Rightarrow> hash32 \<Rightarrow> manifest option" where
  "manifest_for d h =
     (case bt_get (t_manifests d) h of
        None \<Rightarrow> None
      | Some cnt \<Rightarrow>
          if int (length (chunk_rows d h)) \<noteq> cnt then None
          else Some \<lparr>mf_content_hash = h, mf_chunks = chunk_rows d h\<rparr>)"

definition path_for_hash :: "db \<Rightarrow> hash32 \<Rightarrow> path option" where
  "path_for_hash d h =
     map_option r_path
       (List.find (\<lambda>r. r_content_hash r = Some h \<and> \<not> r_tombstone r) (bt_values (t_files d)))"

subsection \<open>Reading back what was written\<close>

definition files_ok :: "(path, file_row) btree \<Rightarrow> bool" where
  "files_ok t \<longleftrightarrow> bt_ok t \<and> (\<forall>(p, r) \<in> set t. r_path r = p \<and> vv_ok (r_vv r))"

lemma load_row_upsert [simp]:
  "load_row (upsert_file p ch mode sz vv ts u m d) q =
     (if q = p then Some \<lparr>r_path = p, r_content_hash = ch, r_mode = mode, r_size = sz,
                          r_tombstone = ts, r_vv = vv, r_uuid = u, r_meta = m\<rparr>
      else load_row d q)"
  by (simp add: load_row_def upsert_file_def bt_get_insert)

lemma load_file_row: "load_file d p = map_option row_local (load_row d p)"
  by (simp add: load_file_def load_row_def)

lemma upsert_frame [simp, store_frame]:
  "t_oplog (upsert_file p ch mode sz vv ts u m d) = t_oplog d"
  "t_peers (upsert_file p ch mode sz vv ts u m d) = t_peers d"
  "t_applied (upsert_file p ch mode sz vv ts u m d) = t_applied d"
  "t_manifests (upsert_file p ch mode sz vv ts u m d) = t_manifests d"
  "t_manifest_chunks (upsert_file p ch mode sz vv ts u m d) = t_manifest_chunks d"
  "t_peer_cursors (upsert_file p ch mode sz vv ts u m d) = t_peer_cursors d"
  "t_meta (upsert_file p ch mode sz vv ts u m d) = t_meta d"
  by (simp_all add: upsert_file_def)

lemma put_manifest_frame [simp, store_frame]:
  "t_oplog (put_manifest m d) = t_oplog d" "t_files (put_manifest m d) = t_files d"
  "t_peers (put_manifest m d) = t_peers d" "t_applied (put_manifest m d) = t_applied d"
  "t_peer_cursors (put_manifest m d) = t_peer_cursors d" "t_meta (put_manifest m d) = t_meta d"
  by (simp_all add: put_manifest_def)

lemma load_row_frame: "t_files d' = t_files d \<Longrightarrow> load_row d' p = load_row d p"
  by (simp add: load_row_def)

lemma files_ok_upsert:
  "files_ok (t_files d) \<Longrightarrow> vv_ok vv \<Longrightarrow> files_ok (t_files (upsert_file p ch mode sz vv ts u m d))"
  by (auto simp: files_ok_def upsert_file_def bt_ok_insert dest!: bt_insert_bound)

lemma files_ok_vv: "files_ok (t_files d) \<Longrightarrow> load_row d p = Some r \<Longrightarrow> vv_ok (r_vv r)"
  by (auto simp: files_ok_def load_row_def dest!: bt_get_Some_mem)

lemma files_ok_path: "files_ok (t_files d) \<Longrightarrow> load_row d p = Some r \<Longrightarrow> r_path r = p"
  by (auto simp: files_ok_def load_row_def dest!: bt_get_Some_mem)

lemma bt_get_insert_ignore:
  "bt_get (bt_insert_ignore k v m) j =
     (if j = k \<and> bt_get m k = None then Some v else bt_get m j)"
  by (auto simp: bt_insert_ignore_def bt_get_insert split: option.splits)

lemma bt_ok_insert_ignore: "bt_ok m \<Longrightarrow> bt_ok (bt_insert_ignore k v m)"
  by (auto simp: bt_insert_ignore_def bt_ok_insert split: option.splits)

end
