(* ===== verification/Conflict.thy ===== *)
theory Conflict
  imports State
begin

text \<open>
  Deterministic conflict resolution (\<open>src/conflict.rs\<close>): the total-order key, the
  maximal antichain of the candidates, the row plan (winner row and conflict
  copies) and the naming of copies.  The closure \<open>lookup\<close> the planner is given is a
  parameter from copy path to result; an out-of-range index is the fault
  \<open>IndexPanic\<close>, which is proved unreachable below.
\<close>

definition COPY_MARKER :: string where "COPY_MARKER = ''.sync-conflict-''"
definition MAX_COPY_DEPTH :: nat where "MAX_COPY_DEPTH = 4"

record version =
  v_tombstone :: bool
  v_content_hash :: "hash32 option"
  v_meta_hash :: hash32
  v_meta :: "meta option"
  v_mode :: u32
  v_size :: u64
  v_vv :: version_vector
  v_uuid :: "uuid16 option"

type_synonym side_key = "u8 \<times> hash32 \<times> hash32"

definition version_key :: "version \<Rightarrow> side_key" where
  "version_key v = (if v_tombstone v then 0 else 1, unwrap_or (v_content_hash v) (zeros 32), v_meta_hash v)"

definition from_row :: "crates \<Rightarrow> file_row \<Rightarrow> version" where
  "from_row X r = \<lparr>v_tombstone = r_tombstone r, v_content_hash = r_content_hash r,
     v_meta_hash = hash_of X (r_meta r), v_meta = r_meta r, v_mode = r_mode r,
     v_size = r_size r, v_vv = r_vv r, v_uuid = r_uuid r\<rparr>"

record planned_row =
  p_path :: path
  p_content_hash :: "hash32 option"
  p_mode :: u32
  p_size :: u64
  p_tombstone :: bool
  p_vv :: version_vector
  p_uuid :: "uuid16 option"
  p_meta :: "meta option"

subsection \<open>The maximal antichain\<close>

text \<open>
  The inner \<open>while\<close> of \<open>antichain\<close>: walk the kept versions, dropping those the
  candidate dominates; stop without adding the candidate at the first one that is
  at least as new.  The result is the kept list and whether the candidate is added.
\<close>

fun antichain_scan :: "version \<Rightarrow> version list \<Rightarrow> version list \<times> bool" where
  "antichain_scan c [] = ([], True)"
| "antichain_scan c (k # ks) =
     (case vv_compare (v_vv c) (v_vv k) of
        Dominated \<Rightarrow> (k # ks, False)
      | Equal \<Rightarrow> (k # ks, False)
      | Dominates \<Rightarrow> antichain_scan c ks
      | Concurrent \<Rightarrow> (let (ks', add) = antichain_scan c ks in (k # ks', add)))"

definition antichain_step :: "version list \<Rightarrow> version \<Rightarrow> version list" where
  "antichain_step keep c = (let (keep', add) = antichain_scan c keep in if add then keep' @ [c] else keep')"

text \<open>\<open>sort_by_key\<close> with \<open>Reverse\<close>: a stable sort, largest key first.\<close>

definition sort_desc :: "('a \<Rightarrow> 'k::linorder) \<Rightarrow> 'a list \<Rightarrow> 'a list" where
  "sort_desc f xs = rev (sort_key f (rev xs))"

definition antichain :: "version list \<Rightarrow> version list" where
  "antichain candidates = sort_desc version_key (foldl antichain_step [] candidates)"

subsection \<open>Copy names\<close>

fun rfind :: "char \<Rightarrow> string \<Rightarrow> nat option" where
  "rfind c [] = None"
| "rfind c (x # xs) =
     (case rfind c xs of Some i \<Rightarrow> Some (Suc i) | None \<Rightarrow> if x = c then Some 0 else None)"

definition copy_path_for :: "crates \<Rightarrow> path \<Rightarrow> hash32 \<Rightarrow> hash32 \<Rightarrow> path" where
  "copy_path_for X p loser_hash loser_meta =
     (let hex16 = hex_encode X (take 8 (blake3 X (loser_hash @ loser_meta)));
          (dir, name) = (case rfind CHR ''/'' p of
                           Some i \<Rightarrow> (take (Suc i) p, drop (Suc i) p)
                         | None \<Rightarrow> ([], p))
      in case (case rfind CHR ''.'' name of Some i \<Rightarrow> if i > 0 then Some i else None | None \<Rightarrow> None) of
           Some i \<Rightarrow> dir @ take i name @ COPY_MARKER @ hex16 @ ''.'' @ drop (i + 1) name
         | None \<Rightarrow> dir @ name @ COPY_MARKER @ hex16)"

definition copy_origin :: "crates \<Rightarrow> path \<Rightarrow> node_id" where
  "copy_origin X cp = take 16 (blake3 X (as_bytes ''replicore-conflict'' @ as_bytes cp))"

definition copy_vv :: "crates \<Rightarrow> path \<Rightarrow> version_vector" where
  "copy_vv X cp = vv_from_iter [(copy_origin X cp, 1)]"

subsection \<open>The plan\<close>

datatype 'e plan_fault = LookupErr 'e | IndexPanic

type_synonym 'e lookup = "path \<Rightarrow> 'e + version option"

definition copy_row :: "crates \<Rightarrow> path \<Rightarrow> version \<Rightarrow> planned_row" where
  "copy_row X cp content =
     \<lparr>p_path = cp, p_content_hash = v_content_hash content, p_mode = v_mode content,
      p_size = v_size content, p_tombstone = False, p_vv = copy_vv X cp,
      p_uuid = Some (copy_origin X cp), p_meta = v_meta content\<rparr>"

definition as_copy :: "crates \<Rightarrow> path \<Rightarrow> version \<Rightarrow> version" where
  "as_copy X cp content =
     content\<lparr>v_tombstone := False, v_vv := copy_vv X cp, v_uuid := Some (copy_origin X cp)\<rparr>"

definition nested_row :: "crates \<Rightarrow> path \<Rightarrow> version \<Rightarrow> version \<Rightarrow> version \<Rightarrow> planned_row" where
  "nested_row X cp existing w l =
     (let keys_tie = (version_key w = version_key l)
      in \<lparr>p_path = cp, p_content_hash = v_content_hash w,
          p_mode = (if keys_tie then max (v_mode w) (v_mode l) else v_mode w),
          p_size = v_size w, p_tombstone = False,
          p_vv = vv_merge (v_vv existing) (copy_vv X cp),
          p_uuid = (if keys_tie then max (v_uuid w) (v_uuid l)
                    else opt_or (v_uuid w) (Some (copy_origin X cp))),
          p_meta = v_meta w\<rparr>)"

text \<open>
  The copy chain of one loser, \<open>while let Some((cp, content)) = link.take()\<close>.  The
  first argument counts the links left before \<open>MAX_COPY_DEPTH\<close> is exceeded.
\<close>

fun plan_chain ::
  "crates \<Rightarrow> 'e lookup \<Rightarrow> nat \<Rightarrow> planned_row list \<Rightarrow> path \<Rightarrow> version
     \<Rightarrow> 'e plan_fault + planned_row list option" where
  "plan_chain X lookup 0 rows cp content = Inr None"
| "plan_chain X lookup (Suc depth) rows cp content =
     (if \<exists>r \<in> set rows. p_path r = cp then Inr (Some rows)
      else case lookup cp of
        Inl e \<Rightarrow> Inl (LookupErr e)
      | Inr None \<Rightarrow> Inr (Some (rows @ [copy_row X cp content]))
      | Inr (Some existing) \<Rightarrow>
          (case vv_compare (copy_vv X cp) (v_vv existing) of
             Dominates \<Rightarrow> Inr (Some (rows @ [copy_row X cp content]))
           | Equal \<Rightarrow> Inr (Some rows)
           | Dominated \<Rightarrow> Inr (Some rows)
           | Concurrent \<Rightarrow>
               (case antichain [existing, as_copy X cp content] of
                  w # l # _ \<Rightarrow>
                    (let rows' = rows @ [nested_row X cp existing w l]
                     in case v_content_hash l of
                          Some lh \<Rightarrow>
                            if version_key l \<noteq> version_key w
                            then plan_chain X lookup depth rows'
                                   (copy_path_for X cp lh (naming_hash X (v_meta l))) l
                            else Inr (Some rows')
                        | None \<Rightarrow> Inr (Some rows'))
                | _ \<Rightarrow> Inl IndexPanic)))"

fun plan_losers ::
  "crates \<Rightarrow> 'e lookup \<Rightarrow> path \<Rightarrow> side_key \<Rightarrow> planned_row list \<Rightarrow> version list
     \<Rightarrow> 'e plan_fault + planned_row list option" where
  "plan_losers X lookup p wkey rows [] = Inr (Some rows)"
| "plan_losers X lookup p wkey rows (loser # losers) =
     (case v_content_hash loser of
        None \<Rightarrow> plan_losers X lookup p wkey rows losers
      | Some h \<Rightarrow>
          if version_key loser = wkey then plan_losers X lookup p wkey rows losers
          else case plan_chain X lookup MAX_COPY_DEPTH rows
                      (copy_path_for X p h (naming_hash X (v_meta loser))) loser of
                 Inl e \<Rightarrow> Inl e
               | Inr None \<Rightarrow> Inr None
               | Inr (Some rows') \<Rightarrow> plan_losers X lookup p wkey rows' losers)"

definition list_max :: "'a::linorder list \<Rightarrow> 'a option" where
  "list_max xs = (case xs of [] \<Rightarrow> None | x # xs' \<Rightarrow> Some (fold max xs' x))"

definition winner_row :: "path \<Rightarrow> version list \<Rightarrow> version list \<Rightarrow> version \<Rightarrow> planned_row" where
  "winner_row p candidates maximal winner =
     (let equal_key = filter (\<lambda>m. version_key m = version_key winner) maximal
      in \<lparr>p_path = p, p_content_hash = v_content_hash winner,
          p_mode = (if v_tombstone winner then 0
                    else unwrap_or (list_max (map v_mode equal_key)) (v_mode winner)),
          p_size = (if v_tombstone winner then 0 else v_size winner),
          p_tombstone = v_tombstone winner,
          p_vv = vv_merge_all (map v_vv candidates),
          p_uuid = opt_or (list_max (List.map_filter v_uuid equal_key)) (v_uuid winner),
          p_meta = (if v_tombstone winner then None else v_meta winner)\<rparr>)"

definition plan_candidates ::
  "crates \<Rightarrow> path \<Rightarrow> version list \<Rightarrow> 'e lookup \<Rightarrow> 'e plan_fault + planned_row list option" where
  "plan_candidates X p candidates lookup =
     (let maximal = antichain candidates
      in case maximal of
           [] \<Rightarrow> Inr None
         | winner # losers \<Rightarrow>
             plan_losers X lookup p (version_key winner)
               [winner_row p candidates maximal winner] losers)"

subsection \<open>The antichain is the set of maximal candidates\<close>

definition maximal_in :: "version set \<Rightarrow> version set" where
  "maximal_in S = {c \<in> S. \<forall>d \<in> S. vv_compare (v_vv d) (v_vv c) \<noteq> Dominates}"

text \<open>
  Candidates come from one replicated history: well-formed vectors, and a vector
  identifies the version that carries it.
\<close>

definition one_history :: "version set \<Rightarrow> bool" where
  "one_history S \<longleftrightarrow> (\<forall>a \<in> S. vv_ok (v_vv a)) \<and> (\<forall>a \<in> S. \<forall>b \<in> S. v_vv a = v_vv b \<longrightarrow> a = b)"

lemma one_history_subset: "one_history S \<Longrightarrow> T \<subseteq> S \<Longrightarrow> one_history T"
  by (auto simp: one_history_def)

lemma scan_blocked:
  assumes "\<exists>k \<in> set ks. vv_compare (v_vv c) (v_vv k) \<in> {Dominated, Equal}"
    and "\<forall>k \<in> set ks. vv_compare (v_vv c) (v_vv k) \<noteq> Dominates"
  shows "antichain_scan c ks = (ks, False)"
  using assms
proof (induction ks)
  case Nil
  then show ?case by simp
next
  case (Cons a ks)
  show ?case
  proof (cases "vv_compare (v_vv c) (v_vv a) = Concurrent")
    case True
    with Cons.prems(1) have "\<exists>k \<in> set ks. vv_compare (v_vv c) (v_vv k) \<in> {Dominated, Equal}" by auto
    with Cons.IH Cons.prems(2) True show ?thesis by simp
  next
    case False
    with Cons.prems(2) show ?thesis by (auto split: ord3.splits)
  qed
qed

lemma scan_open:
  assumes "\<forall>k \<in> set ks. vv_compare (v_vv c) (v_vv k) \<in> {Dominates, Concurrent}"
  shows "antichain_scan c ks = (filter (\<lambda>k. vv_compare (v_vv c) (v_vv k) = Concurrent) ks, True)"
  using assms
  by (induction ks) (auto split: ord3.splits)

lemma covered_version:
  assumes "finite S" "one_history S" "c \<in> S"
  shows "\<exists>m \<in> maximal_in S. m = c \<or> vv_compare (v_vv m) (v_vv c) = Dominates"
proof -
  have "finite (v_vv ` S)" "\<forall>a \<in> v_vv ` S. vv_ok a" "v_vv c \<in> v_vv ` S"
    using assms by (auto simp: one_history_def)
  from vvo.covered_by_maximal [OF this] obtain m where
    m: "m \<in> S" "v_vv m = v_vv c \<or> vv_compare (v_vv m) (v_vv c) = Dominates"
    "\<forall>y \<in> S. vv_compare (v_vv y) (v_vv m) \<noteq> Dominates" by auto
  then have "m \<in> maximal_in S" by (auto simp: maximal_in_def)
  moreover have "m = c \<or> vv_compare (v_vv m) (v_vv c) = Dominates"
    using m assms by (auto simp: one_history_def)
  ultimately show ?thesis by blast
qed

lemma maximal_step_blocked:
  assumes "finite P" "one_history (insert c P)" "k \<in> maximal_in P"
    and "vv_compare (v_vv c) (v_vv k) \<in> {Dominated, Equal}"
  shows "maximal_in (insert c P) = maximal_in P \<and> (\<forall>m \<in> maximal_in P. vv_compare (v_vv c) (v_vv m) \<noteq> Dominates)"
proof -
  have kP: "k \<in> P" using assms(3) by (simp add: maximal_in_def)
  have le: "vv_le (v_vv c) (v_vv k)"
    using assms(4) by (auto simp: vv_compare_cases split: if_splits)
  have nodom: "vv_compare (v_vv c) (v_vv m) \<noteq> Dominates" if "m \<in> maximal_in P" for m
  proof
    assume "vv_compare (v_vv c) (v_vv m) = Dominates"
    then have "vv_compare (v_vv k) (v_vv m) = Dominates"
      using le by (auto simp: vv_compare_iffs intro: vv_le_trans)
    with that kP show False by (simp add: maximal_in_def)
  qed
  have "c \<in> maximal_in (insert c P) \<Longrightarrow> c \<in> P"
  proof -
    assume "c \<in> maximal_in (insert c P)"
    then have "vv_compare (v_vv k) (v_vv c) \<noteq> Dominates" using kP by (simp add: maximal_in_def)
    then have "vv_le (v_vv k) (v_vv c)" using le by (simp add: vv_compare_iffs)
    then have "v_vv c = v_vv k"
      using le kP assms(2) by (auto simp: one_history_def intro: vv_le_antisym)
    then have "c = k" using kP assms(2) by (auto simp: one_history_def)
    with kP show "c \<in> P" by simp
  qed
  then have "maximal_in (insert c P) = maximal_in P"
    using nodom by (auto simp: maximal_in_def)
  with nodom show ?thesis by blast
qed

lemma maximal_step_open:
  assumes "finite P" "one_history (insert c P)"
    and "\<forall>k \<in> maximal_in P. vv_compare (v_vv c) (v_vv k) \<in> {Dominates, Concurrent}"
  shows "maximal_in (insert c P) = insert c {k \<in> maximal_in P. vv_compare (v_vv c) (v_vv k) = Concurrent}"
proof -
  have c: "vv_compare (v_vv d) (v_vv c) \<noteq> Dominates" if "d \<in> insert c P" for d
  proof
    assume dom: "vv_compare (v_vv d) (v_vv c) = Dominates"
    then have "d \<in> P" using that by auto
    moreover have "one_history P" using assms(2) by (rule one_history_subset) auto
    ultimately obtain m where m: "m \<in> maximal_in P" "m = d \<or> vv_compare (v_vv m) (v_vv d) = Dominates"
      using assms(1) covered_version by blast
    then have "vv_compare (v_vv m) (v_vv c) = Dominates"
      using dom by (auto simp: vv_compare_iffs intro: vv_le_trans)
    then have "vv_compare (v_vv c) (v_vv m) = Dominated" by (simp add: vv_compare_iffs)
    with assms(3) m(1) show False by auto
  qed
  show ?thesis
  proof (intro equalityI subsetI)
    fix x assume "x \<in> maximal_in (insert c P)"
    then show "x \<in> insert c {k \<in> maximal_in P. vv_compare (v_vv c) (v_vv k) = Concurrent}"
      using assms(3) by (auto simp: maximal_in_def)
  next
    fix x assume "x \<in> insert c {k \<in> maximal_in P. vv_compare (v_vv c) (v_vv k) = Concurrent}"
    then show "x \<in> maximal_in (insert c P)"
      using c by (auto simp: maximal_in_def)
  qed
qed

lemma antichain_step_set:
  assumes "finite P" "one_history (insert c P)" "set keep = maximal_in P" "distinct keep"
  shows "set (antichain_step keep c) = maximal_in (insert c P) \<and> distinct (antichain_step keep c)"
proof (cases "\<exists>k \<in> maximal_in P. vv_compare (v_vv c) (v_vv k) \<in> {Dominated, Equal}")
  case True
  then obtain k where k: "k \<in> maximal_in P" "vv_compare (v_vv c) (v_vv k) \<in> {Dominated, Equal}" by blast
  from maximal_step_blocked [OF assms(1,2) k] have
    eq: "maximal_in (insert c P) = maximal_in P" and
    nd: "\<forall>m \<in> set keep. vv_compare (v_vv c) (v_vv m) \<noteq> Dominates" using assms(3) by auto
  have "antichain_scan c keep = (keep, False)"
    using True nd assms(3) by (intro scan_blocked) auto
  with eq assms(3,4) show ?thesis by (simp add: antichain_step_def)
next
  case False
  have op: "\<forall>k \<in> maximal_in P. vv_compare (v_vv c) (v_vv k) \<in> {Dominates, Concurrent}"
  proof
    fix k assume "k \<in> maximal_in P"
    with False show "vv_compare (v_vv c) (v_vv k) \<in> {Dominates, Concurrent}"
      by (cases "vv_compare (v_vv c) (v_vv k)") auto
  qed
  then have scan: "antichain_scan c keep =
      (filter (\<lambda>k. vv_compare (v_vv c) (v_vv k) = Concurrent) keep, True)"
    using assms(3) by (intro scan_open) auto
  have "c \<notin> maximal_in P" using op vv_compare_refl [of "v_vv c"] by auto
  with scan maximal_step_open [OF assms(1,2) op] assms(3,4) show ?thesis
    by (auto simp: antichain_step_def)
qed

lemma antichain_fold:
  assumes "one_history (set done \<union> set cs)" "set keep = maximal_in (set done)" "distinct keep"
  shows "set (foldl antichain_step keep cs) = maximal_in (set done \<union> set cs)
         \<and> distinct (foldl antichain_step keep cs)"
  using assms
proof (induction cs arbitrary: "done" keep)
  case Nil
  then show ?case by simp
next
  case (Cons c cs)
  have "one_history (insert c (set done))"
    using Cons.prems(1) by (rule one_history_subset) auto
  from antichain_step_set [OF _ this Cons.prems(2,3)]
  have step: "set (antichain_step keep c) = maximal_in (set (c # done))" "distinct (antichain_step keep c)"
    by auto
  from Cons.IH [of "c # done" "antichain_step keep c"] Cons.prems(1) step show ?case by simp
qed

lemma set_sort_desc [simp]: "set (sort_desc f xs) = set xs"
  by (simp add: sort_desc_def)

lemma mset_sort_desc [simp]: "mset (sort_desc f xs) = mset xs"
  by (simp add: sort_desc_def)

lemma distinct_sort_desc [simp]: "distinct (sort_desc f xs) = distinct xs"
  by (simp add: sort_desc_def)

lemma sort_desc_sorted: "sorted (rev (map f (sort_desc f xs)))"
  by (simp add: sort_desc_def rev_map)

lemma antichain_set:
  assumes "one_history (set cs)"
  shows "set (antichain cs) = maximal_in (set cs)" and "distinct (antichain cs)"
  using antichain_fold [of "[]" cs "[]"] assms
  by (simp_all add: antichain_def maximal_in_def)

lemma antichain_head_max:
  assumes "antichain cs = w # ls" "l \<in> set ls"
  shows "version_key l \<le> version_key w"
proof -
  have "sorted (rev (map version_key (w # ls)))"
    using sort_desc_sorted [of version_key "foldl antichain_step [] cs"] assms(1)
    by (simp add: antichain_def)
  with assms(2) show ?thesis by (auto simp: sorted_append)
qed

subsection \<open>What a plan depends on\<close>

text \<open>
  A loser enters the plan through its content, mode, size and metadata only; a
  version that ties with the winner enters it without its mode, which is normalized.
\<close>

definition payload :: "version \<Rightarrow> version" where
  "payload v = v\<lparr>v_vv := [], v_uuid := None\<rparr>"

definition wpayload :: "side_key \<Rightarrow> version \<Rightarrow> version" where
  "wpayload wk v = (if version_key v = wk then (payload v)\<lparr>v_mode := 0\<rparr> else payload v)"

lemma payload_eq_iff:
  "payload v = payload w \<longleftrightarrow> v_tombstone v = v_tombstone w \<and> v_content_hash v = v_content_hash w
     \<and> v_meta_hash v = v_meta_hash w \<and> v_meta v = v_meta w \<and> v_mode v = v_mode w \<and> v_size v = v_size w"
  by (cases v; cases w) (auto simp: payload_def)

lemma wpayload_sel [simp]:
  "v_tombstone (wpayload wk v) = v_tombstone v" "v_content_hash (wpayload wk v) = v_content_hash v"
  "v_meta_hash (wpayload wk v) = v_meta_hash v" "v_meta (wpayload wk v) = v_meta v"
  "v_size (wpayload wk v) = v_size v" "version_key (wpayload wk v) = version_key v"
  by (simp_all add: wpayload_def payload_def version_key_def)

lemma wpayload_fields:
  assumes "wpayload wk v = wpayload wk w"
  shows "v_tombstone v = v_tombstone w" "v_content_hash v = v_content_hash w"
    "v_meta v = v_meta w" "v_size v = v_size w" "version_key v = version_key w"
  using assms by (metis wpayload_sel)+

lemma wpayload_loser:
  "wpayload wk v = wpayload wk w \<Longrightarrow> version_key v \<noteq> wk \<Longrightarrow> payload v = payload w"
  by (metis wpayload_def wpayload_fields(5))

lemma as_copy_payload: "payload v = payload w \<Longrightarrow> as_copy X cp v = as_copy X cp w"
  by (cases v; cases w) (auto simp: as_copy_def payload_def)

lemma copy_row_payload: "payload v = payload w \<Longrightarrow> copy_row X cp v = copy_row X cp w"
  by (simp add: copy_row_def payload_eq_iff)

lemma plan_chain_payload:
  "payload v = payload w \<Longrightarrow> plan_chain X lookup n rows cp v = plan_chain X lookup n rows cp w"
proof (cases n)
  case (Suc d)
  assume pl: "payload v = payload w"
  show ?thesis
    unfolding Suc plan_chain.simps as_copy_payload [OF pl] copy_row_payload [OF pl] ..
qed simp

lemma plan_losers_wpayload:
  "map (wpayload wk) vs = map (wpayload wk) ws \<Longrightarrow>
     plan_losers X lookup p wk rows vs = plan_losers X lookup p wk rows ws"
proof (induction vs arbitrary: ws rows)
  case Nil
  then show ?case by simp
next
  case (Cons v vs)
  then obtain w ws' where ws: "ws = w # ws'" "wpayload wk v = wpayload wk w"
    "map (wpayload wk) vs = map (wpayload wk) ws'" by (cases ws) auto
  note same = wpayload_fields [OF ws(2)]
  have IH: "\<And>rows. plan_losers X lookup p wk rows vs = plan_losers X lookup p wk rows ws'"
    using ws(3) by (rule Cons.IH)
  show ?case
  proof (cases "version_key v = wk")
    case True
    with IH same show ?thesis by (auto simp: ws(1) split: option.splits)
  next
    case False
    then have pl: "payload v = payload w" using ws(2) wpayload_loser by blast
    show ?thesis
      unfolding ws(1) plan_losers.simps plan_chain_payload [OF pl] IH same ..
  qed
qed

lemma list_max_set: "list_max xs = (if xs = [] then None else Some (Max (set xs)))"
proof (cases xs)
  case (Cons x xs')
  have "fold max xs' x = Max (set (x # xs'))"
    by (metis Max.set_eq_fold)
  with Cons show ?thesis by (simp add: list_max_def)
qed (simp add: list_max_def)

lemma list_max_cong: "set xs = set ys \<Longrightarrow> list_max xs = list_max ys"
  by (cases "xs = []") (auto simp: list_max_set)

lemma set_map_filter_cong: "set xs = set ys \<Longrightarrow> set (List.map_filter f xs) = set (List.map_filter f ys)"
  by (simp add: List.map_filter_def)

lemma uuid_or_member:
  assumes "w \<in> set ms"
  shows "opt_or (list_max (List.map_filter v_uuid ms)) (v_uuid w) = list_max (List.map_filter v_uuid ms)"
proof (cases "v_uuid w")
  case None
  then show ?thesis by (simp add: opt_or_def split: option.splits)
next
  case (Some u)
  with assms have "List.map_filter v_uuid ms \<noteq> []"
    by (auto simp: List.map_filter_def filter_empty_conv)
  then show ?thesis by (simp add: list_max_set)
qed

lemma winner_row_cong:
  assumes "list_all vv_ok (map v_vv cs)" "set cs = set cs'" "set ms = set ms'"
    and "wpayload (version_key w) w = wpayload (version_key w) w'" "w \<in> set ms" "w' \<in> set ms'"
  shows "winner_row p cs ms w = winner_row p cs' ms' w'"
proof -
  note same = wpayload_fields [OF assms(4)]
  note key = same(5)
  let ?e = "filter (\<lambda>m. version_key m = version_key w) ms"
  let ?e' = "filter (\<lambda>m. version_key m = version_key w') ms'"
  have e: "set ?e = set ?e'" using assms(3) key by auto
  have nonempty: "?e' \<noteq> []" using assms(6) by (auto simp: filter_empty_conv)
  have mode: "list_max (map v_mode ?e) = list_max (map v_mode ?e')"
    using e by (intro list_max_cong) (metis list.set_map)
  have modes: "unwrap_or (list_max (map v_mode ?e)) (v_mode w) = unwrap_or (list_max (map v_mode ?e')) (v_mode w')"
    using mode nonempty by (simp add: list_max_set)
  have uuid: "list_max (List.map_filter v_uuid ?e) = list_max (List.map_filter v_uuid ?e')"
    using e by (intro list_max_cong set_map_filter_cong)
  have vvs: "vv_merge_all (map v_vv cs) = vv_merge_all (map v_vv cs')"
    using assms(1,2) by (intro vv_merge_all_set) (auto simp: list_all_iff)
  show ?thesis
    using uuid uuid_or_member [of w ?e] uuid_or_member [of w' ?e'] assms(5,6) modes vvs same
    by (simp add: winner_row_def Let_def)
qed

subsection \<open>The plan is a function of the candidate set\<close>

text \<open>
  Versions that tie on the key are interchangeable: the same content, size and
  metadata, and the same mode unless they tie for the win (where the code
  normalizes it).
\<close>

definition tie_coherent :: "version set \<Rightarrow> bool" where
  "tie_coherent S \<longleftrightarrow>
     (\<forall>a \<in> S. \<forall>b \<in> S. version_key a = version_key b \<longrightarrow>
        v_content_hash a = v_content_hash b \<and> v_meta a = v_meta b \<and> v_size a = v_size b
        \<and> (v_mode a = v_mode b \<or> (\<forall>c \<in> S. version_key c \<le> version_key a)))"

lemma version_key_parts:
  "version_key a = version_key b \<Longrightarrow> v_tombstone a = v_tombstone b \<and> v_meta_hash a = v_meta_hash b"
  by (auto simp: version_key_def split: if_splits)

lemma tie_wpayload:
  assumes "tie_coherent S" "a \<in> S" "b \<in> S" "version_key a = version_key b"
    and "w \<in> S" "\<forall>c \<in> S. version_key c \<le> version_key w"
  shows "wpayload (version_key w) a = wpayload (version_key w) b"
proof -
  have all: "v_content_hash a = v_content_hash b \<and> v_meta a = v_meta b \<and> v_size a = v_size b
      \<and> (v_mode a = v_mode b \<or> (\<forall>c \<in> S. version_key c \<le> version_key a))"
    using assms(1-4) unfolding tie_coherent_def by blast
  then have same: "v_content_hash a = v_content_hash b" "v_meta a = v_meta b" "v_size a = v_size b"
    and mode: "v_mode a = v_mode b \<or> (\<forall>c \<in> S. version_key c \<le> version_key a)"
    by simp_all
  note parts = version_key_parts [OF assms(4)]
  show ?thesis
  proof (cases "version_key a = version_key w")
    case True
    with same parts assms(4) show ?thesis
      by (cases a; cases b) (simp add: wpayload_def payload_def)
  next
    case False
    have "v_mode a = v_mode b"
      using mode False assms(2,5,6) by (meson order_antisym)
    with False same parts assms(4) show ?thesis
      by (simp add: wpayload_def payload_eq_iff)
  qed
qed

lemma sort_desc_keys_unique:
  assumes "mset xs = mset ys"
  shows "map f (sort_desc f xs) = map f (sort_desc f ys)"
proof -
  have "mset (rev (map f (sort_desc f xs))) = mset (rev (map f (sort_desc f ys)))"
    using assms by simp
  then have "rev (map f (sort_desc f xs)) = rev (map f (sort_desc f ys))"
    by (metis sort_desc_sorted properties_for_sort)
  then show ?thesis by simp
qed

lemma sort_desc_map_unique:
  assumes "mset xs = mset ys" "\<And>a b. a \<in> set xs \<Longrightarrow> b \<in> set xs \<Longrightarrow> f a = f b \<Longrightarrow> g a = g b"
  shows "map g (sort_desc f xs) = map g (sort_desc f ys)"
proof -
  let ?xs = "sort_desc f xs" and ?ys = "sort_desc f ys"
  have keys: "map f ?xs = map f ?ys" using assms(1) by (rule sort_desc_keys_unique)
  then have len: "length ?xs = length ?ys" by (metis length_map)
  have "set xs = set ys" using assms(1) by (rule mset_eq_setD)
  then have sets: "set ?xs = set xs" "set ?ys = set xs" by simp_all
  show ?thesis
  proof (rule nth_equalityI)
    fix i assume "i < length (map g ?xs)"
    then have i: "i < length ?xs" "i < length ?ys" using len by simp_all
    have "map f ?xs ! i = map f ?ys ! i" by (simp only: keys)
    then have feq: "f (?xs ! i) = f (?ys ! i)" by (simp only: nth_map i)
    have "?xs ! i \<in> set xs" using nth_mem [OF i(1)] by (simp only: sets)
    moreover have "?ys ! i \<in> set xs" using nth_mem [OF i(2)] by (simp only: sets)
    ultimately have "g (?xs ! i) = g (?ys ! i)" using feq by (rule assms(2))
    then show "map g ?xs ! i = map g ?ys ! i" by (simp only: nth_map i)
  qed (simp add: len)
qed

lemma antichain_map_unique:
  assumes "one_history (set cs)" "set cs = set cs'"
    and "\<And>a b. a \<in> maximal_in (set cs) \<Longrightarrow> b \<in> maximal_in (set cs) \<Longrightarrow> version_key a = version_key b \<Longrightarrow> g a = g b"
  shows "map g (antichain cs) = map g (antichain cs')"
proof -
  let ?k = "foldl antichain_step [] cs" and ?k' = "foldl antichain_step [] cs'"
  have k: "set ?k = maximal_in (set cs)" "distinct ?k" "set ?k' = maximal_in (set cs)" "distinct ?k'"
    using antichain_set [of cs] antichain_set [of cs'] assms(1,2) by (simp_all add: antichain_def)
  then have "mset ?k = mset ?k'" by (metis set_eq_iff_mset_eq_distinct)
  then show ?thesis
    unfolding antichain_def by (rule sort_desc_map_unique) (use k assms(3) in blast)
qed

lemma plan_is_set_function:
  assumes hist: "one_history (set cs)" and same: "set cs = set cs'"
    and ties: "tie_coherent (maximal_in (set cs))"
  shows "plan_candidates X p cs lookup = plan_candidates X p cs' lookup"
proof (cases "antichain cs")
  case Nil
  then have "antichain cs' = []"
    using antichain_map_unique [OF hist same, of "\<lambda>_. ()"] by simp
  with Nil show ?thesis by (simp add: plan_candidates_def)
next
  case (Cons w ls)
  let ?S = "maximal_in (set cs)"
  have sets: "set (antichain cs) = ?S" "set (antichain cs') = ?S"
    using antichain_set(1) [of cs] antichain_set(1) [of cs'] hist same by simp_all
  have w: "w \<in> ?S" "\<forall>c \<in> ?S. version_key c \<le> version_key w"
    using Cons sets(1) [symmetric] antichain_head_max [OF Cons] by auto
  have "map (wpayload (version_key w)) (antichain cs) = map (wpayload (version_key w)) (antichain cs')"
    using hist same tie_wpayload [OF ties _ _ _ w] by (rule antichain_map_unique)
  then obtain w' ls' where c': "antichain cs' = w' # ls'"
    and ww: "wpayload (version_key w) w = wpayload (version_key w) w'"
    and ll: "map (wpayload (version_key w)) ls = map (wpayload (version_key w)) ls'"
    using Cons by (cases "antichain cs'") auto
  have "winner_row p cs (w # ls) w = winner_row p cs' (w' # ls') w'"
    using hist same sets Cons c' ww by (intro winner_row_cong) (auto simp: list_all_iff one_history_def)
  moreover have "version_key w = version_key w'" using ww by (rule wpayload_fields)
  ultimately show ?thesis
    using Cons c' plan_losers_wpayload [OF ll] by (simp add: plan_candidates_def)
qed


text \<open>
  C3. For candidates of one history the plan is a function of their set, up to ties.  When the
  candidates have well-formed version vectors and equal vectors mean equal versions, and when
  maximal candidates that tie on the key have the same content hash, metadata and size, and the
  same mode unless they tie for the win, then however the candidates are ordered or repeated the
  planner returns the same rows or the same failure.  Without the condition on ties two orders can
  plan copies of different modes (\<open>Copy_Order\<close>).
\<close>

theorem plan_set_determined:
  assumes "one_history (set cs)" "set cs = set cs'" "tie_coherent (maximal_in (set cs))"
  shows "plan_candidates X p cs lookup = plan_candidates X p cs' lookup"
  using assms by (rule plan_is_set_function)

text \<open>Example versions: a file with the given content written by the given node.\<close>

definition example_version :: "node_id \<Rightarrow> hash32 \<Rightarrow> version" where
  "example_version n h = \<lparr>v_tombstone = False, v_content_hash = Some h, v_meta_hash = META_NONE, v_meta = None,
     v_mode = 420, v_size = 1, v_vv = [(n, 1)], v_uuid = None\<rparr>"

definition no_rows :: "unit lookup" where "no_rows q = Inr None"

lemma example_concurrent:
  "vv_compare [([1], 1)] [([2], 1)] = Concurrent" "vv_compare [([2], 1)] [([1], 1)] = Concurrent"
  by (simp_all add: vv_compare_def bt_keys_def vv_get_def bt_get_def)

lemma example_history: "one_history {example_version [1] h, example_version [2] k}"
  by (auto simp: one_history_def example_version_def vv_ok_def bt_ok_def)

lemma example_maximal:
  "maximal_in {example_version [1] h, example_version [2] k} = {example_version [1] h, example_version [2] k}"
  by (auto simp: maximal_in_def) (simp_all add: example_version_def example_concurrent)

theorem plan_set_determined_witness:
  "plan_candidates plain_crates ''f'' [example_version [1] [7], example_version [2] [8]] no_rows =
   plan_candidates plain_crates ''f'' [example_version [2] [8], example_version [1] [7]] no_rows"
proof (rule plan_set_determined)
  show "one_history (set [example_version [1] [7], example_version [2] [8]])"
    using example_history by simp
  have "tie_coherent {example_version [1] [7], example_version [2] [8]}"
    by (auto simp: tie_coherent_def example_version_def version_key_def)
  then show "tie_coherent (maximal_in (set [example_version [1] [7], example_version [2] [8]]))"
    by (simp add: example_maximal)
qed auto

end
