(* ===== verification/Oplog.thy ===== *)
theory Oplog
  imports Conflict
begin

text \<open>
  The operation log and the store thread (\<open>src/oplog.rs\<close>).  Every store operation
  is a function from the database to the new database and the reply; an error reply
  comes with the database unchanged, because the transaction it ends is rolled back.
  \<open>store_step\<close> is one turn of the store thread, the dispatch of one command, and
  \<open>run_store\<close> is the thread processing a queue of them.  \<open>Panicked\<close> stands for a
  panic of the thread; \<open>Store_Laws\<close> shows it unreachable.
\<close>

record local_change =
  lc_path :: path
  lc_op_type :: op_type
  lc_mode :: u32
  lc_size :: u64
  lc_content_hash :: "hash32 option"
  lc_meta :: "meta option"
  lc_manifest :: "manifest option"

record reconciled_row =
  rr_path :: path
  rr_content_hash :: "hash32 option"
  rr_mode :: u32
  rr_size :: u64
  rr_vv :: version_vector
  rr_tombstone :: bool
  rr_uuid :: "uuid16 option"
  rr_meta :: "meta option"

datatype resolve_outcome =
    Resolved
  | NotConcurrent decision
  | Stale "planned_row list"
  | Unresolvable

record join_snapshot =
  js_rows :: "file_row list"
  js_frontier :: "(node_id \<times> i64) list"

subsection \<open>Identities and the log\<close>

definition migration_uuid :: "crates \<Rightarrow> path \<Rightarrow> uuid16" where
  "migration_uuid X p = take 16 (blake3 X (as_bytes ''replicore-uuid-migration'' @ as_bytes p))"

definition fresh_uuid :: "crates \<Rightarrow> node_id \<Rightarrow> i64 \<Rightarrow> path \<Rightarrow> uuid16" where
  "fresh_uuid X origin origin_seq p = take 16 (blake3 X (origin @ i64_be origin_seq @ as_bytes p))"

definition op_type_to_i64 :: "op_type \<Rightarrow> i64" where
  "op_type_to_i64 t = (case t of Write \<Rightarrow> 0 | Delete \<Rightarrow> 1 | Rename \<Rightarrow> 2)"

definition op_type_from_i64 :: "i64 \<Rightarrow> store_error + op_type" where
  "op_type_from_i64 v =
     (if v = 0 then Inr Write else if v = 1 then Inr Delete else if v = 2 then Inr Rename
      else Inl (Corrupt ''oplog.op_type''))"

definition seqs_of :: "node_id \<Rightarrow> op_record list \<Rightarrow> i64 list" where
  "seqs_of origin ops = map o_origin_seq (filter (\<lambda>op. o_origin op = origin) ops)"

definition latest_origin_seq :: "db \<Rightarrow> node_id \<Rightarrow> i64" where
  "latest_origin_seq d origin = unwrap_or (list_max (seqs_of origin (t_oplog d))) 0"

text \<open>\<open>INSERT OR IGNORE\<close> under the \<open>UNIQUE\<close> constraint on \<open>op_id\<close>.\<close>

definition insert_op :: "op_record \<Rightarrow> db \<Rightarrow> db" where
  "insert_op op d =
     (if o_op_id op \<in> o_op_id ` set (t_oplog d) then d else d\<lparr>t_oplog := t_oplog d @ [op]\<rparr>)"

definition has_applied :: "db \<Rightarrow> hash32 \<Rightarrow> bool" where
  "has_applied d i \<longleftrightarrow> i \<in> set (t_applied d)"

definition mark_applied :: "hash32 \<Rightarrow> db \<Rightarrow> db" where
  "mark_applied i d = (if i \<in> set (t_applied d) then d else d\<lparr>t_applied := t_applied d @ [i]\<rparr>)"

definition ops_since :: "db \<Rightarrow> node_id \<Rightarrow> i64 \<Rightarrow> nat \<Rightarrow> op_record list" where
  "ops_since d origin after_seq limit =
     take limit (sort_key o_origin_seq
       (filter (\<lambda>op. o_origin op = origin \<and> o_origin_seq op > after_seq) (t_oplog d)))"

definition op_count :: "db \<Rightarrow> i64" where
  "op_count d = int (length (t_oplog d))"

subsection \<open>Local mutations\<close>

definition append_commit ::
  "crates \<Rightarrow> node_id \<Rightarrow> local_change \<Rightarrow> file_row option \<Rightarrow> db \<Rightarrow> db \<times> (store_error + op_record option)" where
  "append_commit X node change loc d =
     (let origin_seq = i64_add (latest_origin_seq d node) 1;
          fresh = fresh_uuid X node origin_seq (lc_path change);
          uuid = (case loc of
                    Some l \<Rightarrow>
                      if lc_op_type change = Write \<and> r_tombstone l then Some fresh
                      else Some (unwrap_or (r_uuid l) (migration_uuid X (lc_path change)))
                  | None \<Rightarrow> Some fresh);
          vv = vv_increment (case loc of Some l \<Rightarrow> r_vv l | None \<Rightarrow> vv_new) node;
          op = \<lparr>o_op_id = op_id X node origin_seq, o_origin = node, o_origin_seq = origin_seq,
                o_op_type = lc_op_type change, o_path = lc_path change, o_path_old = None,
                o_uuid = uuid, o_mode = lc_mode change, o_size = lc_size change,
                o_content_hash = lc_content_hash change, o_meta = lc_meta change, o_vv = vv\<rparr>;
          d' = upsert_file (lc_path change) (lc_content_hash change) (lc_mode change) (lc_size change)
                 vv (lc_op_type change = Delete) uuid (lc_meta change) (insert_op op d)
      in case lc_manifest change of
           None \<Rightarrow> (d', Inr (Some op))
         | Some m \<Rightarrow>
             if Some (mf_content_hash m) \<noteq> lc_content_hash change
             then (d, Inl (Corrupt ''manifest/content_hash mismatch''))
             else (put_manifest m d', Inr (Some op)))"

definition append_local ::
  "crates \<Rightarrow> node_id \<Rightarrow> local_change \<Rightarrow> db \<Rightarrow> db \<times> (store_error + op_record option)" where
  "append_local X node change d =
     (let loc = load_row d (lc_path change)
      in case lc_op_type change of
           Write \<Rightarrow>
             if (case loc of
                   Some l \<Rightarrow> \<not> r_tombstone l \<and> r_content_hash l = lc_content_hash change
                            \<and> hash_of X (r_meta l) = hash_of X (lc_meta change)
                 | None \<Rightarrow> False)
             then (d, Inr None)
             else append_commit X node change loc d
         | Delete \<Rightarrow>
             (case loc of
                None \<Rightarrow> (d, Inr None)
              | Some l \<Rightarrow> if r_tombstone l then (d, Inr None) else append_commit X node change loc d)
         | Rename \<Rightarrow> (d, Inl (Corrupt ''rename is not a LocalChange'')))"

definition append_local_rename ::
  "crates \<Rightarrow> node_id \<Rightarrow> path \<Rightarrow> path \<Rightarrow> db \<Rightarrow> db \<times> (store_error + op_record option)" where
  "append_local_rename X node old_path new_path d =
     (if old_path = new_path then (d, Inr None)
      else case load_row d old_path of
        None \<Rightarrow> (d, Inr None)
      | Some src \<Rightarrow>
          if r_tombstone src then (d, Inr None)
          else let origin_seq = i64_add (latest_origin_seq d node) 1;
                   uuid = unwrap_or (r_uuid src) (migration_uuid X old_path);
                   vv = vv_increment (case load_row d new_path of
                                        Some dst \<Rightarrow> vv_merge (r_vv src) (r_vv dst)
                                      | None \<Rightarrow> r_vv src) node;
                   op = \<lparr>o_op_id = op_id X node origin_seq, o_origin = node, o_origin_seq = origin_seq,
                         o_op_type = Rename, o_path = new_path, o_path_old = Some old_path,
                         o_uuid = Some uuid, o_mode = r_mode src, o_size = r_size src,
                         o_content_hash = r_content_hash src, o_meta = r_meta src, o_vv = vv\<rparr>;
                   d1 = upsert_file old_path None 0 0 vv True (Some uuid) None (insert_op op d);
                   d2 = upsert_file new_path (r_content_hash src) (r_mode src) (r_size src) vv False
                          (Some uuid) (r_meta src) d1
               in (d2, Inr (Some op)))"

subsection \<open>Remote operations\<close>

definition merged_vv :: "local_file option \<Rightarrow> version_vector \<Rightarrow> version_vector" where
  "merged_vv loc vv = vv_merge (case loc of Some l \<Rightarrow> lf_vv l | None \<Rightarrow> vv_new) vv"

definition ensure_cursor_row :: "node_id \<Rightarrow> node_id \<Rightarrow> db \<Rightarrow> db" where
  "ensure_cursor_row peer origin d =
     d\<lparr>t_peer_cursors := bt_insert_ignore (peer, origin) \<lparr>cu_recv_cursor = 0, cu_last_acked_seq = 0\<rparr>
         (t_peer_cursors d)\<rparr>"

definition advance_recv_cursor :: "node_id \<Rightarrow> node_id \<Rightarrow> i64 \<Rightarrow> db \<Rightarrow> db" where
  "advance_recv_cursor peer origin up_to_seq d =
     (let d' = ensure_cursor_row peer origin d
      in case bt_get (t_peer_cursors d') (peer, origin) of
           None \<Rightarrow> d'
         | Some c \<Rightarrow> d'\<lparr>t_peer_cursors := bt_insert (peer, origin)
                        (c\<lparr>cu_recv_cursor := max (cu_recv_cursor c) up_to_seq\<rparr>) (t_peer_cursors d')\<rparr>)"

definition advance_ack :: "node_id \<Rightarrow> node_id \<Rightarrow> i64 \<Rightarrow> db \<Rightarrow> db" where
  "advance_ack peer our_id up_to_seq d =
     (let d' = ensure_cursor_row peer our_id d
      in case bt_get (t_peer_cursors d') (peer, our_id) of
           None \<Rightarrow> d'
         | Some c \<Rightarrow> d'\<lparr>t_peer_cursors := bt_insert (peer, our_id)
                        (c\<lparr>cu_last_acked_seq := max (cu_last_acked_seq c) up_to_seq\<rparr>) (t_peer_cursors d')\<rparr>)"

definition cursor_value :: "(cursor_row \<Rightarrow> i64) \<Rightarrow> node_id \<Rightarrow> node_id \<Rightarrow> db \<Rightarrow> i64" where
  "cursor_value column peer origin d =
     (case bt_get (t_peer_cursors d) (peer, origin) of None \<Rightarrow> 0 | Some c \<Rightarrow> column c)"

text \<open>The target-path effect: re-validated under the committing transaction, then merged.\<close>

definition apply_target :: "op_record \<Rightarrow> decision \<Rightarrow> db \<Rightarrow> db \<times> decision" where
  "apply_target op dec d =
     (if dec = Apply
      then let loc = load_file d (o_path op); effective = decide loc (o_vv op)
           in if effective = Apply
              then let vv = merged_vv loc (o_vv op)
                   in (case o_op_type op of
                         Delete \<Rightarrow> upsert_file (o_path op) None (o_mode op) 0 vv True (o_uuid op) None d
                       | _ \<Rightarrow> upsert_file (o_path op) (o_content_hash op) (o_mode op) (o_size op) vv False
                                (o_uuid op) (o_meta op) d,
                       effective)
              else (d, effective)
      else (d, dec))"

text \<open>The rename's source effect, decided on its own path.\<close>

definition apply_source :: "op_record \<Rightarrow> path \<Rightarrow> db \<Rightarrow> db" where
  "apply_source op old_path d =
     (let old_local = load_file d old_path
      in if decide old_local (o_vv op) = Apply
         then upsert_file old_path None 0 0 (merged_vv old_local (o_vv op)) True (o_uuid op) None d
         else d)"

definition apply_remote :: "op_record \<Rightarrow> decision \<Rightarrow> db \<Rightarrow> db \<times> (store_error + decision)" where
  "apply_remote op dec d =
     (if has_applied d (o_op_id op)
      then (advance_recv_cursor (o_origin op) (o_origin op) (o_origin_seq op) d, Inr dec)
      else let (d1, effective) = apply_target op dec (insert_op op d)
           in case (o_op_type op, o_path_old op) of
                (Rename, None) \<Rightarrow> (d, Inl (Corrupt ''rename op without path_old''))
              | (t, po) \<Rightarrow>
                  (let d2 = (case (t, po) of (Rename, Some old_path) \<Rightarrow> apply_source op old_path d1 | _ \<Rightarrow> d1)
                   in (advance_recv_cursor (o_origin op) (o_origin op) (o_origin_seq op)
                         (mark_applied (o_op_id op) d2), Inr effective)))"

subsection \<open>State plane: reconcile and resolution\<close>

definition reconcile_upsert :: "reconciled_row \<Rightarrow> db \<Rightarrow> db \<times> decision" where
  "reconcile_upsert row d =
     (let loc = load_file d (rr_path row); effective = decide loc (rr_vv row)
      in if effective = Apply
         then (upsert_file (rr_path row) (rr_content_hash row) (rr_mode row) (rr_size row)
                 (merged_vv loc (rr_vv row)) (rr_tombstone row) (rr_uuid row) (rr_meta row) d, effective)
         else (d, effective))"

definition op_as_candidate :: "crates \<Rightarrow> path \<Rightarrow> op_record \<Rightarrow> version" where
  "op_as_candidate X p op =
     (let as_source = (o_op_type op = Rename \<and> o_path op \<noteq> p);
          tombstone = (o_op_type op = Delete \<or> as_source);
          mt = (if tombstone then None else o_meta op)
      in \<lparr>v_tombstone = tombstone,
          v_content_hash = (if tombstone then None else o_content_hash op),
          v_meta_hash = hash_of X mt, v_meta = mt,
          v_mode = (if tombstone then 0 else o_mode op),
          v_size = (if tombstone then 0 else o_size op),
          v_vv = o_vv op, v_uuid = o_uuid op\<rparr>)"

definition ops_as_candidates :: "crates \<Rightarrow> path \<Rightarrow> db \<Rightarrow> version list" where
  "ops_as_candidates X p d =
     map (op_as_candidate X p) (filter (\<lambda>op. o_path op = p \<or> o_path_old op = Some p) (t_oplog d))"

definition resolution_candidates :: "crates \<Rightarrow> path \<Rightarrow> version \<Rightarrow> file_row \<Rightarrow> db \<Rightarrow> version list" where
  "resolution_candidates X p remote local_row d =
     (let candidates = ops_as_candidates X p d @ [remote];
          coverage = vv_merge_all (map v_vv candidates)
      in case vv_compare coverage (r_vv local_row) of
           Dominates \<Rightarrow> candidates
         | Equal \<Rightarrow> candidates
         | _ \<Rightarrow> candidates @ [from_row X local_row])"

definition row_lookup :: "crates \<Rightarrow> db \<Rightarrow> store_error lookup" where
  "row_lookup X d = (\<lambda>p. Inr (map_option (from_row X) (load_row d p)))"

definition commit_planned :: "planned_row \<Rightarrow> db \<Rightarrow> db" where
  "commit_planned r = upsert_file (p_path r) (p_content_hash r) (p_mode r) (p_size r) (p_vv r)
                        (p_tombstone r) (p_uuid r) (p_meta r)"

datatype resolve_error = StoreErr store_error | Panicked

definition resolve_rows ::
  "crates \<Rightarrow> path \<Rightarrow> version \<Rightarrow> planned_row list \<Rightarrow> db \<Rightarrow> db \<times> (resolve_error + resolve_outcome)" where
  "resolve_rows X p remote staged d =
     (let dec = decide (map_option row_local (load_row d p)) (v_vv remote)
      in if dec \<noteq> DConcurrent then (d, Inr (NotConcurrent dec))
         else case load_row d p of
           None \<Rightarrow> (d, Inl (StoreErr (Corrupt ''concurrent decision without a row'')))
         | Some local_row \<Rightarrow>
             (case plan_candidates X p (resolution_candidates X p remote local_row d) (row_lookup X d) of
                Inl (LookupErr e) \<Rightarrow> (d, Inl (StoreErr e))
              | Inl IndexPanic \<Rightarrow> (d, Inl Panicked)
              | Inr None \<Rightarrow> (d, Inr Unresolvable)
              | Inr (Some derived) \<Rightarrow>
                  if derived \<noteq> staged then (d, Inr (Stale derived))
                  else (fold commit_planned derived d, Inr Resolved)))"

subsection \<open>Join snapshot and scalars\<close>

definition origins_of :: "op_record list \<Rightarrow> node_id list" where
  "origins_of ops = remdups (map o_origin ops)"

definition snapshot_for_join :: "db \<Rightarrow> join_snapshot" where
  "snapshot_for_join d =
     \<lparr>js_rows = all_files d,
      js_frontier = map (\<lambda>origin. (origin, latest_origin_seq d origin)) (sort (origins_of (t_oplog d)))\<rparr>"

definition get_meta :: "db \<Rightarrow> string \<Rightarrow> string option" where
  "get_meta d k = bt_get (t_meta d) k"

definition set_meta :: "string \<Rightarrow> string \<Rightarrow> db \<Rightarrow> db" where
  "set_meta k v d = d\<lparr>t_meta := bt_insert k v (t_meta d)\<rparr>"

subsection \<open>The store thread\<close>

datatype store_cmd =
    AppendLocal local_change
  | AppendLocalRename path path
  | ApplyRemote op_record decision
  | LoadFile path
  | HasApplied hash32
  | OpsSince node_id i64 nat
  | RecvCursor node_id
  | AdvanceAck node_id i64
  | LastAcked node_id
  | PutManifest manifest
  | ManifestFor hash32
  | ReconcileUpsert reconciled_row
  | ResolveRows path version "planned_row list"
  | LoadRow path
  | SnapshotForJoin
  | AdvanceRecvCursor node_id node_id i64
  | GetMeta string
  | SetMeta string string
  | LiveFiles
  | AllFiles
  | PathForHash hash32
  | OpCount

datatype store_reply =
    ROp "store_error + op_record option"
  | RDecision "store_error + decision"
  | RLocal "local_file option"
  | RBool bool
  | ROps "op_record list"
  | RSeq i64
  | RUnit
  | RManifest "manifest option"
  | RResolve "resolve_error + resolve_outcome"
  | RRow "file_row option"
  | RSnapshot join_snapshot
  | RText "string option"
  | RLive "live_file list"
  | RRows "file_row list"
  | RPath "path option"

text \<open>
  \<open>Store::open\<close> on an existing database: the identity backfill, the two
  \<open>INSERT OR IGNORE ... SELECT\<close> statements that move the M1 cursors over, and the
  first value of the \<open>latest\<close> channel.
\<close>

definition migrate_uuids :: "crates \<Rightarrow> db \<Rightarrow> db" where
  "migrate_uuids X d = backfill_uuids (migration_uuid X) d"

definition backfill_cursors :: "node_id \<Rightarrow> db \<Rightarrow> db" where
  "backfill_cursors node d =
     (let recv = foldl (\<lambda>t (p, r). if pr_recv_cursor r > 0
                          then bt_insert_ignore (p, p) \<lparr>cu_recv_cursor = pr_recv_cursor r, cu_last_acked_seq = 0\<rparr> t
                          else t) (t_peer_cursors d) (t_peers d);
          acked = foldl (\<lambda>t (p, r). if pr_last_acked_seq r > 0 \<and> p \<noteq> node
                          then bt_insert_ignore (p, node) \<lparr>cu_recv_cursor = 0, cu_last_acked_seq = pr_last_acked_seq r\<rparr> t
                          else t) recv (t_peers d)
      in d\<lparr>t_peer_cursors := acked\<rparr>)"

text \<open>The thread's state: the connection and the value of the \<open>latest\<close> watch channel.\<close>

record store =
  s_db :: db
  s_latest :: i64

definition open_store :: "crates \<Rightarrow> node_id \<Rightarrow> db \<Rightarrow> store" where
  "open_store X node d =
     (let d' = backfill_cursors node (migrate_uuids X d)
      in \<lparr>s_db = d', s_latest = latest_origin_seq d' node\<rparr>)"

definition notify_latest :: "store_error + op_record option \<Rightarrow> i64 \<Rightarrow> i64" where
  "notify_latest res latest = (case res of Inr (Some op) \<Rightarrow> o_origin_seq op | _ \<Rightarrow> latest)"

fun store_step :: "crates \<Rightarrow> node_id \<Rightarrow> store_cmd \<Rightarrow> store \<Rightarrow> store \<times> store_reply" where
  "store_step X node (AppendLocal change) s =
     (let (d, res) = append_local X node change (s_db s)
      in (s\<lparr>s_db := d, s_latest := notify_latest res (s_latest s)\<rparr>, ROp res))"
| "store_step X node (AppendLocalRename old_path new_path) s =
     (let (d, res) = append_local_rename X node old_path new_path (s_db s)
      in (s\<lparr>s_db := d, s_latest := notify_latest res (s_latest s)\<rparr>, ROp res))"
| "store_step X node (ApplyRemote op dec) s =
     (let (d, res) = apply_remote op dec (s_db s) in (s\<lparr>s_db := d\<rparr>, RDecision res))"
| "store_step X node (LoadFile p) s = (s, RLocal (load_file (s_db s) p))"
| "store_step X node (HasApplied i) s = (s, RBool (has_applied (s_db s) i))"
| "store_step X node (OpsSince origin after_seq limit) s =
     (s, ROps (ops_since (s_db s) origin after_seq limit))"
| "store_step X node (RecvCursor peer) s = (s, RSeq (cursor_value cu_recv_cursor peer peer (s_db s)))"
| "store_step X node (AdvanceAck peer up_to_seq) s =
     (s\<lparr>s_db := advance_ack peer node up_to_seq (s_db s)\<rparr>, RUnit)"
| "store_step X node (LastAcked peer) s = (s, RSeq (cursor_value cu_last_acked_seq peer node (s_db s)))"
| "store_step X node (PutManifest m) s = (s\<lparr>s_db := put_manifest m (s_db s)\<rparr>, RUnit)"
| "store_step X node (ManifestFor h) s = (s, RManifest (manifest_for (s_db s) h))"
| "store_step X node (ReconcileUpsert row) s =
     (let (d, dec) = reconcile_upsert row (s_db s) in (s\<lparr>s_db := d\<rparr>, RDecision (Inr dec)))"
| "store_step X node (ResolveRows p remote staged) s =
     (let (d, res) = resolve_rows X p remote staged (s_db s) in (s\<lparr>s_db := d\<rparr>, RResolve res))"
| "store_step X node (LoadRow p) s = (s, RRow (load_row (s_db s) p))"
| "store_step X node SnapshotForJoin s = (s, RSnapshot (snapshot_for_join (s_db s)))"
| "store_step X node (AdvanceRecvCursor peer origin up_to_seq) s =
     (s\<lparr>s_db := advance_recv_cursor peer origin up_to_seq (s_db s)\<rparr>, RUnit)"
| "store_step X node (GetMeta k) s = (s, RText (get_meta (s_db s) k))"
| "store_step X node (SetMeta k v) s = (s\<lparr>s_db := set_meta k v (s_db s)\<rparr>, RUnit)"
| "store_step X node LiveFiles s = (s, RLive (live_files (s_db s)))"
| "store_step X node AllFiles s = (s, RRows (all_files (s_db s)))"
| "store_step X node (PathForHash h) s = (s, RPath (path_for_hash (s_db s) h))"
| "store_step X node OpCount s = (s, RSeq (op_count (s_db s)))"

fun run_store :: "crates \<Rightarrow> node_id \<Rightarrow> store_cmd list \<Rightarrow> store \<Rightarrow> store \<times> store_reply list" where
  "run_store X node [] s = (s, [])"
| "run_store X node (cmd # cmds) s =
     (let (s', r) = store_step X node cmd s; (s'', rs) = run_store X node cmds s' in (s'', r # rs))"

subsection \<open>Rows only gain history\<close>

text \<open>
  No operation drops a row or moves its version vector backwards: this is what makes
  a tombstone permanent and a stale version unable to reintroduce itself.
\<close>

definition grows :: "db \<Rightarrow> db \<Rightarrow> bool" where
  "grows d d' \<longleftrightarrow>
     (\<forall>p r. load_row d p = Some r \<longrightarrow> (\<exists>r'. load_row d' p = Some r' \<and> vv_le (r_vv r) (r_vv r')))"

lemma grows_refl [simp]: "grows d d"
  by (auto simp: grows_def)

lemma grows_trans: "grows d d' \<Longrightarrow> grows d' d'' \<Longrightarrow> grows d d''"
  unfolding grows_def by (meson vv_le_trans)

lemma grows_files: "t_files d' = t_files d \<Longrightarrow> grows d d'"
  by (auto simp: grows_def load_row_def)

lemma grows_upsert:
  "(\<And>r. load_row d p = Some r \<Longrightarrow> vv_le (r_vv r) vv) \<Longrightarrow> grows d (upsert_file p ch mode sz vv ts u m d)"
  by (auto simp: grows_def)

lemma t_files_eq_load: "t_files d' = t_files d \<Longrightarrow> load_file d' p = load_file d p"
  by (simp add: load_file_def)

lemma insert_op_files [simp, store_frame]:
  "t_files (insert_op op d) = t_files d" "t_peer_cursors (insert_op op d) = t_peer_cursors d"
  "t_applied (insert_op op d) = t_applied d" "t_meta (insert_op op d) = t_meta d"
  by (simp_all add: insert_op_def)

lemma mark_applied_frame [simp, store_frame]:
  "t_files (mark_applied i d) = t_files d" "t_peer_cursors (mark_applied i d) = t_peer_cursors d"
  "t_oplog (mark_applied i d) = t_oplog d" "t_meta (mark_applied i d) = t_meta d"
  by (simp_all add: mark_applied_def)

lemma cursor_frame [simp, store_frame]:
  "t_files (advance_recv_cursor a b n d) = t_files d" "t_oplog (advance_recv_cursor a b n d) = t_oplog d"
  "t_applied (advance_recv_cursor a b n d) = t_applied d" "t_meta (advance_recv_cursor a b n d) = t_meta d"
  "t_files (advance_ack a b n d) = t_files d" "t_oplog (advance_ack a b n d) = t_oplog d"
  "t_applied (advance_ack a b n d) = t_applied d" "t_meta (advance_ack a b n d) = t_meta d"
  by (simp_all add: advance_recv_cursor_def advance_ack_def ensure_cursor_row_def Let_def split: option.splits)

lemma load_row_frames [simp]:
  "load_row (insert_op op d) = load_row d" "load_row (mark_applied i d) = load_row d"
  "load_row (advance_recv_cursor a b n d) = load_row d" "load_row (advance_ack a b n d) = load_row d"
  "load_row (put_manifest m d) = load_row d"
  by (simp_all add: load_row_def fun_eq_iff)

lemma merged_vv_ge:
  "vv_ok vv \<Longrightarrow> load_row d p = Some r \<Longrightarrow> vv_le (r_vv r) (merged_vv (load_file d p) vv)"
  by (simp add: merged_vv_def load_file_row row_local_def vv_merge_ub1)

lemma merged_vv_ok:
  "vv_ok vv \<Longrightarrow> files_ok (t_files d) \<Longrightarrow> vv_ok (merged_vv (load_file d p) vv)"
  by (auto simp: merged_vv_def load_file_row row_local_def vv_ok_merge dest: files_ok_vv split: option.splits)

lemma apply_target_grows: "vv_ok (o_vv op) \<Longrightarrow> grows d (fst (apply_target op dec d))"
  by (auto simp: apply_target_def Let_def intro!: grows_upsert merged_vv_ge split: op_type.splits)

lemma apply_source_grows: "vv_ok (o_vv op) \<Longrightarrow> grows d (apply_source op q d)"
  by (auto simp: apply_source_def Let_def intro!: grows_upsert merged_vv_ge)

lemma apply_target_ok:
  "vv_ok (o_vv op) \<Longrightarrow> files_ok (t_files d) \<Longrightarrow> files_ok (t_files (fst (apply_target op dec d)))"
  by (auto simp: apply_target_def Let_def intro!: files_ok_upsert merged_vv_ok split: op_type.splits)

lemma apply_source_ok:
  "vv_ok (o_vv op) \<Longrightarrow> files_ok (t_files d) \<Longrightarrow> files_ok (t_files (apply_source op q d))"
  by (auto simp: apply_source_def Let_def intro!: files_ok_upsert merged_vv_ok)

text \<open>What \<open>apply_remote\<close> leaves in the \<open>files\<close> table.\<close>

definition remote_files :: "op_record \<Rightarrow> decision \<Rightarrow> db \<Rightarrow> db" where
  "remote_files op dec d =
     (let d1 = fst (apply_target op dec (insert_op op d))
      in case (o_op_type op, o_path_old op) of (Rename, Some q) \<Rightarrow> apply_source op q d1 | _ \<Rightarrow> d1)"

lemma apply_remote_cases:
  "apply_remote op dec d =
     (if has_applied d (o_op_id op)
      then (advance_recv_cursor (o_origin op) (o_origin op) (o_origin_seq op) d, Inr dec)
      else if o_op_type op = Rename \<and> o_path_old op = None
      then (d, Inl (Corrupt ''rename op without path_old''))
      else (advance_recv_cursor (o_origin op) (o_origin op) (o_origin_seq op)
              (mark_applied (o_op_id op) (remote_files op dec d)),
            Inr (snd (apply_target op dec (insert_op op d)))))"
  by (auto simp: apply_remote_def remote_files_def Let_def split: prod.splits op_type.splits option.splits)

lemma remote_files_grows: "vv_ok (o_vv op) \<Longrightarrow> grows d (remote_files op dec d)"
proof -
  assume ok: "vv_ok (o_vv op)"
  have 1: "grows d (fst (apply_target op dec (insert_op op d)))"
    using apply_target_grows [OF ok, of "insert_op op d" dec] by (simp add: grows_def)
  with ok show ?thesis
    by (auto simp: remote_files_def Let_def intro: grows_trans [OF 1] apply_source_grows
        split: op_type.splits option.splits)
qed

lemma apply_remote_grows: "vv_ok (o_vv op) \<Longrightarrow> grows d (fst (apply_remote op dec d))"
  using remote_files_grows [of op d dec] by (auto simp: apply_remote_cases grows_def)

lemma reconcile_upsert_grows: "vv_ok (rr_vv row) \<Longrightarrow> grows d (fst (reconcile_upsert row d))"
  by (auto simp: reconcile_upsert_def Let_def intro!: grows_upsert merged_vv_ge)

end
