(* ===== verification/Plan_Laws.thy ===== *)
theory Plan_Laws
  imports Conflict
begin

text \<open>
  What a row plan of \<open>Conflict\<close> guarantees to the transaction that commits it: it
  never faults on its own, its rows have distinct paths and well-formed vectors that
  cover what the table already holds there, and every losing version with content
  ends up under its copy path.
\<close>

subsection \<open>Copy names\<close>

lemma rfind_less: "rfind c s = Some i \<Longrightarrow> i < length s"
  by (induction s arbitrary: i) (auto split: option.splits if_splits)

lemma name_with_copy_longer:
  "length name < length (case (case rfind c name of Some i \<Rightarrow> if i > 0 then Some i else None | None \<Rightarrow> None) of
     Some i \<Rightarrow> take i name @ COPY_MARKER @ hex @ ''.'' @ drop (i + 1) name
   | None \<Rightarrow> name @ COPY_MARKER @ hex)"
  by (cases "rfind c name") (auto simp: COPY_MARKER_def dest: rfind_less)

lemma copy_path_longer: "length p < length (copy_path_for X p h m)"
  using name_with_copy_longer [of "drop (Suc i) p" for i] name_with_copy_longer [of p]
  by (cases "rfind CHR ''/'' p") (auto simp: copy_path_for_def Let_def COPY_MARKER_def dest!: rfind_less split: option.splits if_splits)

lemma copy_path_neq: "copy_path_for X p h m \<noteq> p"
  using copy_path_longer [of p X h m] by auto

lemma vv_ok_copy [simp]: "vv_ok (copy_vv X cp)"
  by (simp add: copy_vv_def vv_ok_from_iter)

subsection \<open>No fault of the planner's own\<close>

lemma antichain_concurrent_pair:
  assumes "vv_compare (v_vv b) (v_vv a) = Concurrent"
  shows "\<exists>w l. antichain [a, b] = [w, l] \<and> {w, l} = {a, b} \<and> version_key l \<le> version_key w"
proof -
  let ?k = "foldl antichain_step [] [a, b]"
  have k: "?k = [a, b]" using assms by (simp add: antichain_step_def)
  have ac: "antichain [a, b] = sort_desc version_key [a, b]" unfolding antichain_def k ..
  have "mset (antichain [a, b]) = {#a, b#}" by (simp add: ac)
  then have "length (antichain [a, b]) = 2" by (metis mset.simps size_mset length_Cons list.size(3) numeral_2_eq_2 add_mset_commute)
  then obtain w l where wl: "antichain [a, b] = [w, l]"
    by (metis (no_types, lifting) One_nat_def Suc_1 length_0_conv length_Suc_conv)
  moreover have "{w, l} = {a, b}" using wl ac set_sort_desc [of version_key "[a, b]"] by simp
  ultimately show ?thesis using antichain_head_max [of "[a, b]" w "[l]" l] by auto
qed

text \<open>What each row of a plan satisfies with respect to the rows already in the table.\<close>

definition row_covers :: "'e lookup \<Rightarrow> planned_row \<Rightarrow> bool" where
  "row_covers lookup r \<longleftrightarrow>
     vv_ok (p_vv r) \<and> (\<forall>ex. lookup (p_path r) = Inr (Some ex) \<longrightarrow> vv_le (v_vv ex) (p_vv r))"

definition lookup_ok :: "'e lookup \<Rightarrow> bool" where
  "lookup_ok lookup \<longleftrightarrow> (\<forall>q ex. lookup q = Inr (Some ex) \<longrightarrow> vv_ok (v_vv ex))"

definition is_copy :: "crates \<Rightarrow> planned_row \<Rightarrow> bool" where
  "is_copy X r \<longleftrightarrow> \<not> p_tombstone r \<and> vv_le (copy_vv X (p_path r)) (p_vv r)"

lemma copy_row_covers:
  "vv_compare (copy_vv X cp) (v_vv ex) = Dominates \<Longrightarrow> lookup cp = Inr (Some ex) \<Longrightarrow>
     row_covers lookup (copy_row X cp c)"
  by (auto simp: row_covers_def copy_row_def vv_compare_iffs)

lemma copy_row_fresh_covers: "lookup cp = Inr None \<Longrightarrow> row_covers lookup (copy_row X cp c)"
  by (auto simp: row_covers_def copy_row_def)

lemma nested_row_covers:
  "lookup_ok lookup \<Longrightarrow> lookup cp = Inr (Some ex) \<Longrightarrow> row_covers lookup (nested_row X cp ex w l)"
  by (auto simp: row_covers_def nested_row_def Let_def lookup_ok_def vv_ok_merge vv_merge_ub1)

lemma copy_rows_are_copies [simp]:
  "is_copy X (copy_row X cp c)" "is_copy X (nested_row X cp ex w l)"
  by (simp_all add: is_copy_def copy_row_def nested_row_def Let_def vv_merge_ub2)

lemma row_paths [simp]: "p_path (copy_row X cp c) = cp" "p_path (nested_row X cp ex w l) = cp"
  by (simp_all add: copy_row_def nested_row_def Let_def)

definition copy_held :: "crates \<Rightarrow> 'e lookup \<Rightarrow> planned_row list \<Rightarrow> path \<Rightarrow> bool" where
  "copy_held X lookup rows cp \<longleftrightarrow>
     (\<exists>r \<in> set rows. p_path r = cp)
     \<or> (\<exists>ex. lookup cp = Inr (Some ex) \<and> vv_le (copy_vv X cp) (v_vv ex))"

text \<open>
  One link chain: it can only fail through the lookup; the rows it adds have new
  paths, cover the table and are copies; the chain's first path is held.
\<close>

definition extends_plan :: "crates \<Rightarrow> 'e lookup \<Rightarrow> planned_row list \<Rightarrow> planned_row list \<Rightarrow> bool" where
  "extends_plan X lookup rows rows' \<longleftrightarrow>
     (\<exists>new. rows' = rows @ new \<and> (\<forall>r \<in> set new. row_covers lookup r \<and> is_copy X r))
     \<and> (distinct (map p_path rows) \<longrightarrow> distinct (map p_path rows'))"

lemma extends_plan_refl [simp]: "extends_plan X lookup rows rows"
  by (simp add: extends_plan_def)

lemma extends_plan_trans:
  "extends_plan X lookup a b \<Longrightarrow> extends_plan X lookup b c \<Longrightarrow> extends_plan X lookup a c"
  by (auto simp: extends_plan_def)

lemma extends_plan_snoc:
  "row_covers lookup r \<Longrightarrow> is_copy X r \<Longrightarrow> p_path r \<notin> p_path ` set rows \<Longrightarrow>
     extends_plan X lookup rows (rows @ [r])"
  by (auto simp: extends_plan_def)

lemma extends_plan_held:
  "extends_plan X lookup rows rows' \<Longrightarrow> copy_held X lookup rows cp \<Longrightarrow> copy_held X lookup rows' cp"
  by (auto simp: extends_plan_def copy_held_def)

lemma copy_held_snoc [simp]: "copy_held X lookup (rows @ [r]) (p_path r)"
  by (simp add: copy_held_def)

lemma plan_chain_extends:
  assumes "lookup_ok lookup"
  shows "case plan_chain X lookup n rows cp content of
           Inl f \<Rightarrow> (\<exists>e q. f = LookupErr e \<and> lookup q = Inl e)
         | Inr None \<Rightarrow> True
         | Inr (Some rows') \<Rightarrow> extends_plan X lookup rows rows' \<and> copy_held X lookup rows' cp"
proof (induction n arbitrary: rows cp content)
  case 0
  then show ?case by simp
next
  case (Suc n)
  show ?case
  proof (cases "\<exists>r \<in> set rows. p_path r = cp")
    case True
    then show ?thesis by (auto simp: copy_held_def)
  next
    case new: False
    then have fresh: "cp \<notin> p_path ` set rows" by auto
    show ?thesis
    proof (cases "lookup cp")
      case (Inl e)
      with new show ?thesis by auto
    next
      case (Inr v)
      show ?thesis
      proof (cases v)
        case None
        with Inr new fresh show ?thesis
          by (simp add: extends_plan_snoc copy_row_fresh_covers copy_held_def)
      next
        case (Some ex)
        with Inr have ex: "lookup cp = Inr (Some ex)" by simp
        show ?thesis
        proof (cases "vv_compare (copy_vv X cp) (v_vv ex)")
          case Dominates
          with ex new fresh copy_row_covers [of X cp ex lookup] show ?thesis
            by (simp add: extends_plan_snoc copy_held_def)
        next
          case Dominated
          then have "vv_le (copy_vv X cp) (v_vv ex)" by (simp add: vv_compare_iffs)
          with ex new Dominated show ?thesis by (auto simp: copy_held_def)
        next
          case Equal
          then have "vv_le (copy_vv X cp) (v_vv ex)" by (simp add: vv_compare_cases split: if_splits)
          with ex new Equal show ?thesis by (auto simp: copy_held_def)
        next
          case Concurrent
          then have "vv_compare (v_vv (as_copy X cp content)) (v_vv ex) = Concurrent"
            by (simp add: as_copy_def)
          from antichain_concurrent_pair [OF this] obtain w l where
            wl: "antichain [ex, as_copy X cp content] = [w, l]" by blast
          let ?rows = "rows @ [nested_row X cp ex w l]"
          have e: "extends_plan X lookup rows ?rows"
            using fresh assms ex by (simp add: extends_plan_snoc nested_row_covers)
          have h: "copy_held X lookup ?rows cp" by (simp add: copy_held_def)
          show ?thesis
          proof (cases "\<exists>lh. v_content_hash l = Some lh \<and> version_key l \<noteq> version_key w")
            case True
            then obtain lh where lh: "v_content_hash l = Some lh" "version_key l \<noteq> version_key w" by blast
            let ?cp = "copy_path_for X cp lh (naming_hash X (v_meta l))"
            have "plan_chain X lookup (Suc n) rows cp content = plan_chain X lookup n ?rows ?cp l"
              using new ex Concurrent wl lh by (auto simp: Let_def)
            then show ?thesis
              using Suc.IH [of ?rows ?cp l] extends_plan_trans [OF e] extends_plan_held [OF _ h]
              by (auto split: sum.splits option.splits)
          next
            case False
            then have "plan_chain X lookup (Suc n) rows cp content = Inr (Some ?rows)"
              using new ex Concurrent wl by (auto simp: Let_def split: option.splits)
            with e h show ?thesis by simp
          qed
        qed
      qed
    qed
  qed
qed

lemma plan_losers_extends:
  assumes "lookup_ok lookup"
  shows "case plan_losers X lookup p wkey rows losers of
           Inl f \<Rightarrow> (\<exists>e q. f = LookupErr e \<and> lookup q = Inl e)
         | Inr None \<Rightarrow> True
         | Inr (Some rows') \<Rightarrow> extends_plan X lookup rows rows' \<and>
             (\<forall>l \<in> set losers. \<forall>h. v_content_hash l = Some h \<longrightarrow> version_key l \<noteq> wkey \<longrightarrow>
                copy_held X lookup rows' (copy_path_for X p h (naming_hash X (v_meta l))))"
proof (induction losers arbitrary: rows)
  case Nil
  then show ?case by simp
next
  case (Cons l ls)
  show ?case
  proof (cases "\<exists>h. v_content_hash l = Some h \<and> version_key l \<noteq> wkey")
    case False
    then have "plan_losers X lookup p wkey rows (l # ls) = plan_losers X lookup p wkey rows ls"
      by (auto split: option.splits)
    with False Cons.IH [of rows] show ?thesis by (auto split: sum.splits option.splits)
  next
    case True
    then obtain h where h: "v_content_hash l = Some h" "version_key l \<noteq> wkey" by blast
    let ?cp = "copy_path_for X p h (naming_hash X (v_meta l))"
    note chain = plan_chain_extends [where X = X and n = MAX_COPY_DEPTH and rows = rows and cp = ?cp and content = l, OF assms]
    show ?thesis
    proof (cases "\<exists>rows1. plan_chain X lookup MAX_COPY_DEPTH rows ?cp l = Inr (Some rows1)")
      case False
      with h chain show ?thesis by (auto split: sum.splits option.splits)
    next
      case True
      then obtain rows1 where r1: "plan_chain X lookup MAX_COPY_DEPTH rows ?cp l = Inr (Some rows1)" by blast
      with chain have e1: "extends_plan X lookup rows rows1" and h1: "copy_held X lookup rows1 ?cp" by simp_all
      have "plan_losers X lookup p wkey rows (l # ls) = plan_losers X lookup p wkey rows1 ls"
        using h r1 by simp
      with Cons.IH [of rows1] h extends_plan_trans [OF e1] extends_plan_held [OF _ h1] show ?thesis
        by (auto split: sum.splits option.splits)
    qed
  qed
qed

lemma plan_no_fault:
  assumes "lookup_ok lookup" "\<And>q e. lookup q \<noteq> Inl e"
  shows "\<exists>r. plan_candidates X p cs lookup = Inr r"
proof (cases "antichain cs")
  case Nil
  then show ?thesis by (simp add: plan_candidates_def)
next
  case (Cons w ls)
  with plan_losers_extends [where X = X and p = p and wkey = "version_key w" and losers = ls and rows = "[winner_row p cs (w # ls) w]", OF assms(1)] assms(2)
  show ?thesis by (auto simp: plan_candidates_def split: sum.splits option.splits)
qed

lemma winner_row_sel [simp]:
  "p_path (winner_row p cs ms w) = p" "p_vv (winner_row p cs ms w) = vv_merge_all (map v_vv cs)"
  "p_content_hash (winner_row p cs ms w) = v_content_hash w"
  "p_tombstone (winner_row p cs ms w) = v_tombstone w"
  by (simp_all add: winner_row_def Let_def)

lemma plan_shape:
  assumes "lookup_ok lookup" "plan_candidates X p cs lookup = Inr (Some rows)"
  obtains w ls new where "antichain cs = w # ls" "rows = winner_row p cs (w # ls) w # new"
    and "distinct (map p_path rows)" "\<forall>r \<in> set new. row_covers lookup r \<and> is_copy X r"
    and "\<forall>l \<in> set ls. \<forall>h. v_content_hash l = Some h \<longrightarrow> version_key l \<noteq> version_key w \<longrightarrow>
           copy_held X lookup rows (copy_path_for X p h (naming_hash X (v_meta l)))"
proof (cases "antichain cs")
  case Nil
  with assms(2) show thesis by (simp add: plan_candidates_def)
next
  case (Cons w ls)
  let ?w = "winner_row p cs (w # ls) w"
  have "plan_losers X lookup p (version_key w) [?w] ls = Inr (Some rows)"
    using assms(2) Cons by (simp add: plan_candidates_def)
  with plan_losers_extends [where X = X and p = p and wkey = "version_key w" and losers = ls and rows = "[?w]", OF assms(1)]
  have e: "extends_plan X lookup [?w] rows"
    and h: "\<forall>l \<in> set ls. \<forall>h. v_content_hash l = Some h \<longrightarrow> version_key l \<noteq> version_key w \<longrightarrow>
           copy_held X lookup rows (copy_path_for X p h (naming_hash X (v_meta l)))" by simp_all
  from e obtain new where "rows = ?w # new" "\<forall>r \<in> set new. row_covers lookup r \<and> is_copy X r"
    "distinct (map p_path rows)" by (auto simp: extends_plan_def)
  with Cons h show thesis by (intro that [of w ls new]) auto
qed

subsection \<open>Losing content is kept\<close>

definition loser_copy_path :: "crates \<Rightarrow> path \<Rightarrow> version \<Rightarrow> hash32 \<Rightarrow> path" where
  "loser_copy_path X p l h = copy_path_for X p h (naming_hash X (v_meta l))"

lemma plan_chain_fresh:
  "lookup cp = Inr None \<Longrightarrow>
     plan_chain X lookup (Suc n) rows cp c =
       Inr (Some (if cp \<in> p_path ` set rows then rows else rows @ [copy_row X cp c]))"
  by auto

lemma plan_losers_fresh:
  assumes "\<And>q. lookup q = Inr None"
  shows "\<exists>new. plan_losers X lookup p wkey rows losers = Inr (Some (rows @ new)) \<and>
     (\<forall>r \<in> set new. \<exists>l \<in> set losers. \<exists>h. v_content_hash l = Some h \<and> r = copy_row X (loser_copy_path X p l h) l)"
proof (induction losers arbitrary: rows)
  case Nil
  then show ?case by simp
next
  case (Cons l ls)
  have depth: "MAX_COPY_DEPTH = Suc 3" by (simp add: MAX_COPY_DEPTH_def)
  show ?case
  proof (cases "\<exists>h. v_content_hash l = Some h \<and> version_key l \<noteq> wkey")
    case False
    then have "plan_losers X lookup p wkey rows (l # ls) = plan_losers X lookup p wkey rows ls"
      by (auto split: option.splits)
    with Cons.IH [of rows] show ?thesis by auto
  next
    case True
    then obtain h where h: "v_content_hash l = Some h" "version_key l \<noteq> wkey" by blast
    define cp where "cp = loser_copy_path X p l h"
    define rows1 where "rows1 = (if cp \<in> p_path ` set rows then rows else rows @ [copy_row X cp l])"
    have "plan_chain X lookup MAX_COPY_DEPTH rows cp l = Inr (Some rows1)"
      unfolding depth rows1_def by (rule plan_chain_fresh) (rule assms)
    then have "plan_losers X lookup p wkey rows (l # ls) = plan_losers X lookup p wkey rows1 ls"
      using h by (simp add: cp_def loser_copy_path_def)
    moreover obtain new where
      "plan_losers X lookup p wkey rows1 ls = Inr (Some (rows1 @ new))"
      "\<forall>r \<in> set new. \<exists>l \<in> set ls. \<exists>h. v_content_hash l = Some h \<and> r = copy_row X (loser_copy_path X p l h) l"
      using Cons.IH [of rows1] by blast
    ultimately show ?thesis
      using h by (cases "cp \<in> p_path ` set rows")
        (auto simp: rows1_def cp_def intro!: exI [of _ new] exI [of _ "copy_row X cp l # new"])
  qed
qed

lemma plan_fresh:
  assumes "\<And>q. lookup q = Inr None" "antichain cs \<noteq> []"
  shows "\<exists>rows. rows \<noteq> [] \<and> plan_candidates X p cs lookup = Inr (Some rows)"
proof -
  obtain w ls where wl: "antichain cs = w # ls" using assms(2) by (cases "antichain cs") auto
  let ?w = "winner_row p cs (w # ls) w"
  obtain new where "plan_losers X lookup p (version_key w) [?w] ls = Inr (Some ([?w] @ new))"
    using plan_losers_fresh [of lookup X p "version_key w" "[?w]" ls] assms(1) by blast
  then have "plan_candidates X p cs lookup = Inr (Some (?w # new))"
    by (simp add: plan_candidates_def wl)
  then show ?thesis by blast
qed

lemma key_content:
  "version_key a = version_key b \<Longrightarrow> v_content_hash a = Some h \<Longrightarrow> h \<noteq> zeros 32 \<Longrightarrow> v_content_hash b = Some h"
  by (cases "v_content_hash b") (auto simp: version_key_def)

text \<open>Copy names tell the contents of one set of versions apart.\<close>

definition names_separate :: "crates \<Rightarrow> path \<Rightarrow> version set \<Rightarrow> bool" where
  "names_separate X p S \<longleftrightarrow>
     (\<forall>a \<in> S. \<forall>b \<in> S. \<forall>h k. v_content_hash a = Some h \<longrightarrow> v_content_hash b = Some k \<longrightarrow>
        loser_copy_path X p a h = loser_copy_path X p b k \<longrightarrow> h = k)"

text \<open>
  No content is lost silently: when no copy paths are taken yet, planning succeeds,
  and the content of every maximal version is in the plan, as the winner or under its
  copy path, unless two contents share a copy name.
\<close>

theorem plan_keeps_content:
  assumes hist: "one_history (set cs)" and none: "\<And>q. lookup q = Inr None"
    and sep: "names_separate X p (set cs)"
    and c: "c \<in> maximal_in (set cs)" "v_content_hash c = Some h" "h \<noteq> zeros 32"
  shows "\<exists>rows. plan_candidates X p cs lookup = Inr (Some rows) \<and> (\<exists>r \<in> set rows. p_content_hash r = Some h)"
proof -
  have ac: "set (antichain cs) = maximal_in (set cs)" using hist by (rule antichain_set)
  obtain w ls where wl: "antichain cs = w # ls" using ac c(1) by (cases "antichain cs") auto
  let ?w = "winner_row p cs (w # ls) w"
  obtain new where new: "plan_losers X lookup p (version_key w) [?w] ls = Inr (Some (?w # new))"
    "\<forall>r \<in> set new. \<exists>l \<in> set ls. \<exists>h. v_content_hash l = Some h \<and> r = copy_row X (loser_copy_path X p l h) l"
    using plan_losers_fresh [of lookup X p "version_key w" "[?w]" ls] none by auto
  then have plan: "plan_candidates X p cs lookup = Inr (Some (?w # new))"
    by (simp add: plan_candidates_def wl)
  have "\<exists>r \<in> set (?w # new). p_content_hash r = Some h"
  proof (cases "version_key c = version_key w")
    case True
    with key_content [OF True c(2,3)] show ?thesis by simp
  next
    case False
    then have "c \<in> set ls" using ac wl c(1) by auto
    moreover have "lookup_ok lookup" by (simp add: lookup_ok_def none)
    ultimately have "copy_held X lookup (?w # new) (loser_copy_path X p c h)"
      using plan_losers_extends [where lookup = lookup and X = X and p = p and wkey = "version_key w" and losers = ls and rows = "[?w]"] new(1) False c(2)
      by (auto simp: loser_copy_path_def)
    then obtain r where r: "r \<in> set (?w # new)" "p_path r = loser_copy_path X p c h"
      unfolding copy_held_def none by blast
    have "r \<noteq> ?w" using r(2) copy_path_neq [of X p h "naming_hash X (v_meta c)"] by (auto simp: loser_copy_path_def)
    then have "r \<in> set new" using r(1) by simp
    with new(2) obtain l k where l: "l \<in> set ls" "v_content_hash l = Some k"
      "r = copy_row X (loser_copy_path X p l k) l" by blast
    have "l \<in> set cs" "c \<in> set cs" using l(1) c(1) ac wl by (auto simp: maximal_in_def)
    with sep l c(2) r(2) have "k = h" by (auto simp: names_separate_def)
    with l have "p_content_hash r = Some h" by (simp add: copy_row_def)
    with \<open>r \<in> set new\<close> show ?thesis by (intro bexI [of _ r]) simp_all
  qed
  with plan show ?thesis by blast
qed


theorem plan_keeps_content_witness:
  "\<exists>rows. plan_candidates plain_crates ''f'' [example_version [1] [7], example_version [2] [8]] no_rows = Inr (Some rows)
     \<and> (\<exists>r \<in> set rows. p_content_hash r = Some [7])"
proof (rule plan_keeps_content)
  show "one_history (set [example_version [1] [7], example_version [2] [8]])"
    using example_history by simp
  show "names_separate plain_crates ''f'' (set [example_version [1] [7], example_version [2] [8]])"
    by (auto simp: names_separate_def example_version_def loser_copy_path_def copy_path_for_def plain_crates_def)
  show "example_version [1] [7] \<in> maximal_in (set [example_version [1] [7], example_version [2] [8]])"
    using example_maximal [of "[7]" "[8]"] by simp
qed (simp_all add: no_rows_def example_version_def zeros_def numeral_eq_Suc)

text \<open>
  The winner: the first row of a plan is at the conflicting path, carries the content
  of a version no candidate supersedes whose key is the largest, its vector covers every
  candidate, and it is a tombstone only if every maximal version is one (a modification
  beats a concurrent deletion).
\<close>

theorem plan_winner_is_maximal:
  assumes "one_history (set cs)" "lookup_ok lookup" "plan_candidates X p cs lookup = Inr (Some rows)"
  shows "\<exists>w \<in> maximal_in (set cs). p_path (hd rows) = p
     \<and> p_content_hash (hd rows) = v_content_hash w \<and> p_tombstone (hd rows) = v_tombstone w
     \<and> (\<forall>m \<in> maximal_in (set cs). version_key m \<le> version_key w)
     \<and> (\<forall>c \<in> set cs. vv_le (v_vv c) (p_vv (hd rows)))
     \<and> (v_tombstone w \<longrightarrow> (\<forall>m \<in> maximal_in (set cs). v_tombstone m))"
proof -
  obtain w ls new where
    w: "antichain cs = w # ls" and rows: "rows = winner_row p cs (w # ls) w # new"
    by (rule plan_shape [OF assms(2,3)]) (rule that)
  have ac: "set (antichain cs) = maximal_in (set cs)" using assms(1) by (rule antichain_set)
  have wm: "w \<in> maximal_in (set cs)" using ac w by auto
  have keys: "\<forall>m \<in> maximal_in (set cs). version_key m \<le> version_key w"
    using antichain_head_max [OF w] unfolding ac [symmetric] w by auto
  have cover: "\<forall>c \<in> set cs. vv_le (v_vv c) (vv_merge_all (map v_vv cs))"
    using assms(1) by (auto simp: one_history_def list_all_iff intro!: vv_merge_all_ub)
  have tomb: "v_tombstone w \<longrightarrow> (\<forall>m \<in> maximal_in (set cs). v_tombstone m)"
    using keys by (fastforce simp: version_key_def split: if_splits)
  show ?thesis using wm keys cover tomb by (intro bexI [of _ w]) (simp_all add: rows)
qed

theorem plan_winner_is_maximal_witness:
  "\<exists>w \<in> maximal_in (set [example_version [1] [7]]).
     p_content_hash (hd [winner_row ''f'' [example_version [1] [7]] [example_version [1] [7]] (example_version [1] [7])]) = v_content_hash w"
proof -
  let ?v = "example_version [1] [7]"
  have "one_history (set [?v])" by (rule one_history_subset [OF example_history [of "[7]" "[8]"]]) simp
  moreover have "lookup_ok no_rows" by (simp add: lookup_ok_def no_rows_def)
  moreover have "plan_candidates plain_crates ''f'' [?v] no_rows = Inr (Some [winner_row ''f'' [?v] [?v] ?v])"
    by (simp add: plan_candidates_def antichain_def antichain_step_def sort_desc_def Let_def)
  ultimately show ?thesis using plan_winner_is_maximal by blast
qed

text \<open>The plan reads the table at copy paths only, which are longer than the path in conflict.\<close>

lemma plan_chain_lookup_cong:
  assumes "\<And>q. k < length q \<Longrightarrow> lookup q = lookup' q"
  shows "k < length cp \<Longrightarrow> plan_chain X lookup n rows cp c = plan_chain X lookup' n rows cp c"
proof (induction n arbitrary: rows cp c)
  case (Suc n)
  have here: "lookup cp = lookup' cp" using Suc.prems assms by blast
  have rest: "plan_chain X lookup n rows' (copy_path_for X cp h m) l = plan_chain X lookup' n rows' (copy_path_for X cp h m) l"
    for rows' h m l
    using Suc.prems copy_path_longer [of cp X h m] by (intro Suc.IH) simp
  show ?case unfolding plan_chain.simps here rest ..
qed simp

lemma plan_losers_lookup_cong:
  assumes "\<And>q. length p < length q \<Longrightarrow> lookup q = lookup' q"
  shows "plan_losers X lookup p wk rows ls = plan_losers X lookup' p wk rows ls"
proof (induction ls arbitrary: rows)
  case (Cons l ls)
  have chain: "plan_chain X lookup MAX_COPY_DEPTH rows (copy_path_for X p h m) l =
      plan_chain X lookup' MAX_COPY_DEPTH rows (copy_path_for X p h m) l" for h m
    using assms copy_path_longer by (rule plan_chain_lookup_cong)
  show ?case unfolding plan_losers.simps chain Cons.IH ..
qed simp

lemma plan_lookup_cong:
  assumes "\<And>q. length p < length q \<Longrightarrow> lookup q = lookup' q"
  shows "plan_candidates X p cs lookup = plan_candidates X p cs lookup'"
proof -
  have losers: "plan_losers X lookup p wk rows ls = plan_losers X lookup' p wk rows ls" for wk rows ls
    using assms by (rule plan_losers_lookup_cong)
  show ?thesis unfolding plan_candidates_def losers ..
qed

end
