(* ===== verification/Store_Laws.thy ===== *)
theory Store_Laws
  imports Oplog Plan_Laws
begin

text \<open>
  The laws of the store thread.  A database is well formed (\<open>db_ok\<close>) when its keyed
  tables are, when operation ids are unique and when this node's own sequence numbers
  are 1, 2, 3, ... in log order; every command keeps it.  The locale
  \<open>growing_store\<close> is the contract the replication engine relies on: no command drops
  a row or moves a row's version vector backwards.
\<close>

subsection \<open>Local appends\<close>

definition own_op ::
  "crates \<Rightarrow> node_id \<Rightarrow> op_record \<Rightarrow> db \<Rightarrow> bool" where
  "own_op X node op d \<longleftrightarrow>
     o_origin op = node \<and> o_origin_seq op = i64_add (latest_origin_seq d node) 1
     \<and> o_op_id op = op_id X node (o_origin_seq op)"

lemma upsert_t_files:
  "t_files (upsert_file p ch mode sz vv ts u m d) =
     bt_insert p \<lparr>r_path = p, r_content_hash = ch, r_mode = mode, r_size = sz,
                  r_tombstone = ts, r_vv = vv, r_uuid = u, r_meta = m\<rparr> (t_files d)"
  by (simp add: upsert_file_def)

lemma append_commit_ok:
  assumes "append_commit X node c loc d = (d', Inr (Some op))"
  shows "own_op X node op d" "t_oplog d' = t_oplog (insert_op op d)"
    "o_vv op = vv_increment (case loc of Some l \<Rightarrow> r_vv l | None \<Rightarrow> vv_new) node"
    "load_row d' (lc_path c) =
       Some \<lparr>r_path = lc_path c, r_content_hash = lc_content_hash c, r_mode = lc_mode c, r_size = lc_size c,
             r_tombstone = (lc_op_type c = Delete), r_vv = o_vv op, r_uuid = o_uuid op, r_meta = lc_meta c\<rparr>"
    "q \<noteq> lc_path c \<Longrightarrow> load_row d' q = load_row d q"
    "\<exists>u. t_files d' = t_files (upsert_file (lc_path c) (lc_content_hash c) (lc_mode c) (lc_size c) (o_vv op)
       (lc_op_type c = Delete) u (lc_meta c) d)"
    "t_peer_cursors d' = t_peer_cursors d" "t_applied d' = t_applied d"
    "o_path op = lc_path c \<and> o_op_type op = lc_op_type c"
  using assms
  by (auto simp: append_commit_def Let_def own_op_def upsert_t_files split: option.splits if_splits)

lemma append_local_ok:
  assumes "append_local X node c d = (d', Inr (Some op))"
  shows "append_commit X node c (load_row d (lc_path c)) d = (d', Inr (Some op))" "lc_op_type c \<noteq> Rename"
  using assms by (auto simp: append_local_def Let_def split: op_type.splits option.splits if_splits)

lemma append_local_idle:
  "append_local X node c d = (d', r) \<Longrightarrow> (\<forall>op. r \<noteq> Inr (Some op)) \<Longrightarrow> d' = d"
  by (auto simp: append_local_def append_commit_def Let_def split: op_type.splits option.splits if_splits)

lemma append_rename_ok:
  assumes "append_local_rename X node old new d = (d', Inr (Some op))"
  obtains src where "old \<noteq> new" "load_row d old = Some src" "\<not> r_tombstone src"
    "own_op X node op d" "t_oplog d' = t_oplog (insert_op op d)"
    "o_vv op = vv_increment (case load_row d new of Some dst \<Rightarrow> vv_merge (r_vv src) (r_vv dst) | None \<Rightarrow> r_vv src) node"
    "load_row d' old = Some \<lparr>r_path = old, r_content_hash = None, r_mode = 0, r_size = 0, r_tombstone = True,
        r_vv = o_vv op, r_uuid = o_uuid op, r_meta = None\<rparr>"
    "load_row d' new = Some \<lparr>r_path = new, r_content_hash = r_content_hash src, r_mode = r_mode src,
        r_size = r_size src, r_tombstone = False, r_vv = o_vv op, r_uuid = o_uuid op, r_meta = r_meta src\<rparr>"
    "\<And>q. q \<noteq> old \<Longrightarrow> q \<noteq> new \<Longrightarrow> load_row d' q = load_row d q"
    "\<exists>u. t_files d' = t_files (upsert_file new (r_content_hash src) (r_mode src) (r_size src) (o_vv op) False u
           (r_meta src) (upsert_file old None 0 0 (o_vv op) True u None d))"
    "t_peer_cursors d' = t_peer_cursors d" "t_applied d' = t_applied d"
proof -
  obtain src where src: "load_row d old = Some src" "old \<noteq> new" "\<not> r_tombstone src"
    using assms by (auto simp: append_local_rename_def split: if_splits option.splits)
  show thesis
  proof (rule that [OF src(2,1,3)])
  qed (use assms src in \<open>auto simp: append_local_rename_def Let_def own_op_def upsert_t_files\<close>)
qed

lemma append_rename_idle:
  "append_local_rename X node old new d = (d', r) \<Longrightarrow> (\<forall>op. r \<noteq> Inr (Some op)) \<Longrightarrow> d' = d"
  by (auto simp: append_local_rename_def Let_def split: option.splits if_splits)

text \<open>Room left in this node's counter, in the vector the next operation starts from.\<close>

definition counter_room :: "node_id \<Rightarrow> db \<Rightarrow> bool" where
  "counter_room node d \<longleftrightarrow> (\<forall>p r. load_row d p = Some r \<longrightarrow> vv_get (r_vv r) node \<noteq> - 1)"

lemma vv_increment_ge: "vv_get v n \<noteq> - 1 \<Longrightarrow> vv_le v (vv_increment v n)"
  by (auto simp: vv_le_def vv_get_increment dest: u64_succ_less)

lemma base_room:
  "counter_room node d \<Longrightarrow> vv_get (case load_row d p of Some l \<Rightarrow> r_vv l | None \<Rightarrow> vv_new) node \<noteq> - 1"
  by (auto simp: counter_room_def split: option.splits)

lemma rename_base_room:
  assumes "counter_room node d" "files_ok (t_files d)" "load_row d old = Some src"
  shows "vv_get (case load_row d new of Some dst \<Rightarrow> vv_merge (r_vv src) (r_vv dst) | None \<Rightarrow> r_vv src) node \<noteq> - 1"
proof (cases "load_row d new")
  case (Some dst)
  then have "vv_get (vv_merge (r_vv src) (r_vv dst)) node = max (vv_get (r_vv src) node) (vv_get (r_vv dst) node)"
    using assms(2) files_ok_vv by (simp add: vv_get_merge)
  moreover have "vv_get (r_vv src) node \<noteq> - 1" "vv_get (r_vv dst) node \<noteq> - 1"
    using assms(1,3) Some by (auto simp: counter_room_def)
  ultimately show ?thesis using Some by (simp add: max_def)
qed (use assms in \<open>auto simp: counter_room_def\<close>)

lemma append_local_grows:
  assumes "counter_room node d"
  shows "grows d (fst (append_local X node c d))"
proof -
  obtain d' r where e: "append_local X node c d = (d', r)" by fastforce
  show ?thesis
  proof (cases "\<exists>op. r = Inr (Some op)")
    case True
    then obtain op where op: "append_commit X node c (load_row d (lc_path c)) d = (d', Inr (Some op))"
      using e append_local_ok by blast
    note facts = append_commit_ok [OF op]
    have "vv_le (case load_row d (lc_path c) of Some l \<Rightarrow> r_vv l | None \<Rightarrow> vv_new) (o_vv op)"
      unfolding facts(3) by (intro vv_increment_ge base_room assms)
    then have "load_row d p = Some r \<Longrightarrow> \<exists>r'. load_row d' p = Some r' \<and> vv_le (r_vv r) (r_vv r')" for p r
      using facts(4,5) by (cases "p = lc_path c") auto
    then show ?thesis by (simp add: grows_def e)
  next
    case False
    with e append_local_idle show ?thesis by fastforce
  qed
qed

lemma append_rename_grows:
  assumes "counter_room node d" "files_ok (t_files d)"
  shows "grows d (fst (append_local_rename X node old new d))"
proof -
  obtain d' r where e: "append_local_rename X node old new d = (d', r)" by fastforce
  show ?thesis
  proof (cases "\<exists>op. r = Inr (Some op)")
    case True
    then obtain op where "append_local_rename X node old new d = (d', Inr (Some op))" using e by blast
    then obtain src where src: "old \<noteq> new" "load_row d old = Some src"
      and vv: "o_vv op = vv_increment (case load_row d new of Some dst \<Rightarrow> vv_merge (r_vv src) (r_vv dst) | None \<Rightarrow> r_vv src) node"
      and rows: "\<exists>r. load_row d' old = Some r \<and> r_vv r = o_vv op" "\<exists>r. load_row d' new = Some r \<and> r_vv r = o_vv op"
        "\<And>q. q \<noteq> old \<Longrightarrow> q \<noteq> new \<Longrightarrow> load_row d' q = load_row d q"
      by (rule append_rename_ok) auto
    have le: "vv_le (case load_row d new of Some dst \<Rightarrow> vv_merge (r_vv src) (r_vv dst) | None \<Rightarrow> r_vv src) (o_vv op)"
      unfolding vv by (intro vv_increment_ge rename_base_room [OF assms src(2)])
    have src_le: "vv_le (r_vv src) (o_vv op)"
      using le vv_merge_ub1 [OF files_ok_vv [OF assms(2)], of new _ "r_vv src"]
      by (auto split: option.splits intro: vv_le_trans)
    have dst_le: "load_row d new = Some dst \<Longrightarrow> vv_le (r_vv dst) (o_vv op)" for dst
      using le vv_merge_ub2 [OF files_ok_vv [OF assms(2)], of new dst "r_vv src"] by (auto intro: vv_le_trans)
    have "load_row d p = Some r \<Longrightarrow> \<exists>r'. load_row d' p = Some r' \<and> vv_le (r_vv r) (r_vv r')" for p r
      using rows src src_le dst_le by (cases "p = old"; cases "p = new") auto
    then show ?thesis by (simp add: grows_def e)
  next
    case False
    with e append_rename_idle show ?thesis by fastforce
  qed
qed

subsection \<open>The state plane\<close>

definition planned_file :: "planned_row \<Rightarrow> file_row" where
  "planned_file r = \<lparr>r_path = p_path r, r_content_hash = p_content_hash r, r_mode = p_mode r,
     r_size = p_size r, r_tombstone = p_tombstone r, r_vv = p_vv r, r_uuid = p_uuid r, r_meta = p_meta r\<rparr>"

lemma commit_planned_files:
  "t_files (commit_planned r d) = bt_insert (p_path r) (planned_file r) (t_files d)"
  by (simp add: commit_planned_def upsert_t_files planned_file_def)

lemma commit_frame [simp, store_frame]:
  "t_oplog (commit_planned r d) = t_oplog d" "t_peer_cursors (commit_planned r d) = t_peer_cursors d"
  "t_applied (commit_planned r d) = t_applied d" "t_peers (commit_planned r d) = t_peers d"
  "t_manifests (commit_planned r d) = t_manifests d" "t_meta (commit_planned r d) = t_meta d"
  "t_manifest_chunks (commit_planned r d) = t_manifest_chunks d"
  by (simp_all add: commit_planned_def)

lemma fold_commit_frame [simp, store_frame]:
  "t_oplog (fold commit_planned rows d) = t_oplog d"
  "t_peer_cursors (fold commit_planned rows d) = t_peer_cursors d"
  "t_applied (fold commit_planned rows d) = t_applied d"
  by (induction rows arbitrary: d) simp_all

lemma fold_commit_files:
  "t_files (fold commit_planned rows d) = fold (\<lambda>r. bt_insert (p_path r) (planned_file r)) rows (t_files d)"
  by (induction rows arbitrary: d) (simp_all add: commit_planned_files)

lemma load_committed:
  "r \<in> set rows \<Longrightarrow> distinct (map p_path rows) \<Longrightarrow>
     load_row (fold commit_planned rows d) (p_path r) = Some (planned_file r)"
  unfolding load_row_def fold_commit_files by (rule btree.get_fold_ins)

lemma load_uncommitted:
  "q \<notin> p_path ` set rows \<Longrightarrow> load_row (fold commit_planned rows d) q = load_row d q"
  unfolding load_row_def fold_commit_files by (rule btree.get_fold_ins_notin)

lemma files_ok_commit:
  "files_ok (t_files d) \<Longrightarrow> \<forall>r \<in> set rows. vv_ok (p_vv r) \<Longrightarrow> files_ok (t_files (fold commit_planned rows d))"
  by (induction rows arbitrary: d) (auto simp: commit_planned_def intro: files_ok_upsert)

lemma row_lookup_ok: "files_ok (t_files d) \<Longrightarrow> lookup_ok (row_lookup X d)"
  by (auto simp: lookup_ok_def row_lookup_def from_row_def dest: files_ok_vv)

definition log_vvs_ok :: "db \<Rightarrow> bool" where
  "log_vvs_ok d \<longleftrightarrow> (\<forall>op \<in> set (t_oplog d). vv_ok (o_vv op))"

lemma candidates_ok:
  assumes "files_ok (t_files d)" "log_vvs_ok d" "vv_ok (v_vv remote)" "load_row d p = Some l"
  shows "list_all vv_ok (map v_vv (resolution_candidates X p remote l d))"
  using assms files_ok_vv [OF assms(1,4)]
  by (auto simp: list_all_iff resolution_candidates_def Let_def ops_as_candidates_def op_as_candidate_def
      log_vvs_ok_def from_row_def split: ord3.splits)

text \<open>The candidates cover the local row, whether it was added to them or not.\<close>

lemma candidates_cover_local:
  assumes "files_ok (t_files d)" "log_vvs_ok d" "vv_ok (v_vv remote)" "load_row d p = Some l"
  shows "vv_le (r_vv l) (vv_merge_all (map v_vv (resolution_candidates X p remote l d)))"
proof -
  let ?cs = "ops_as_candidates X p d @ [remote]"
  note ok = candidates_ok [OF assms, of X]
  show ?thesis
  proof (cases "vv_compare (vv_merge_all (map v_vv ?cs)) (r_vv l) \<in> {Dominates, Equal}")
    case True
    then have "resolution_candidates X p remote l d = ?cs"
      by (auto simp: resolution_candidates_def Let_def)
    with True show ?thesis by (auto simp: vv_compare_cases split: if_splits)
  next
    case False
    then have "resolution_candidates X p remote l d = ?cs @ [from_row X l]"
      by (auto simp: resolution_candidates_def Let_def split: ord3.splits)
    with ok show ?thesis by (intro vv_merge_all_ub) (auto simp: from_row_def)
  qed
qed

lemma remote_is_candidate: "remote \<in> set (resolution_candidates X p remote l d)"
  by (auto simp: resolution_candidates_def Let_def split: ord3.splits)

lemma resolve_rows_Resolved:
  assumes "files_ok (t_files d)" "log_vvs_ok d" "vv_ok (v_vv remote)"
    and "resolve_rows X p remote staged d = (d', Inr Resolved)"
  obtains l w ls new where "load_row d p = Some l" "d' = fold commit_planned staged d"
    "antichain (resolution_candidates X p remote l d) = w # ls"
    "staged = winner_row p (resolution_candidates X p remote l d) (w # ls) w # new"
    "distinct (map p_path staged)" "\<forall>r \<in> set staged. row_covers (row_lookup X d) r"
    "\<forall>r \<in> set new. is_copy X r"
    "\<forall>l \<in> set ls. \<forall>h. v_content_hash l = Some h \<longrightarrow> version_key l \<noteq> version_key w \<longrightarrow>
       copy_held X (row_lookup X d) staged (copy_path_for X p h (naming_hash X (v_meta l)))"
proof -
  from assms(4) obtain l where l: "load_row d p = Some l"
    and plan: "plan_candidates X p (resolution_candidates X p remote l d) (row_lookup X d) = Inr (Some staged)"
    and d': "d' = fold commit_planned staged d"
    by (auto simp: resolve_rows_def Let_def split: if_splits option.splits sum.splits plan_fault.splits)
  have lok: "lookup_ok (row_lookup X d)" using assms(1) by (rule row_lookup_ok)
  from plan_shape [OF this plan] obtain w ls new where
    shape: "antichain (resolution_candidates X p remote l d) = w # ls"
      "staged = winner_row p (resolution_candidates X p remote l d) (w # ls) w # new"
      "distinct (map p_path staged)" "\<forall>r \<in> set new. row_covers (row_lookup X d) r \<and> is_copy X r"
      "\<forall>l \<in> set ls. \<forall>h. v_content_hash l = Some h \<longrightarrow> version_key l \<noteq> version_key w \<longrightarrow>
       copy_held X (row_lookup X d) staged (copy_path_for X p h (naming_hash X (v_meta l)))" by blast
  have "row_covers (row_lookup X d) (winner_row p (resolution_candidates X p remote l d) (w # ls) w)"
    using candidates_cover_local [OF assms(1-3) l] vv_ok_merge_all [OF candidates_ok [OF assms(1-3) l]]
    by (auto simp: row_covers_def row_lookup_def l from_row_def)
  then show thesis using that l d' shape by auto
qed

lemma resolve_rows_idle:
  "resolve_rows X p remote staged d = (d', r) \<Longrightarrow> r \<noteq> Inr Resolved \<Longrightarrow> d' = d"
  by (auto simp: resolve_rows_def Let_def split: if_splits option.splits sum.splits plan_fault.splits)

lemma commit_grows:
  assumes "distinct (map p_path rows)" "\<forall>r \<in> set rows. row_covers (row_lookup X d) r"
  shows "grows d (fold commit_planned rows d)"
  unfolding grows_def
proof (intro allI impI)
  fix q l assume l: "load_row d q = Some l"
  show "\<exists>r'. load_row (fold commit_planned rows d) q = Some r' \<and> vv_le (r_vv l) (r_vv r')"
  proof (cases "q \<in> p_path ` set rows")
    case True
    then obtain r where r: "r \<in> set rows" "q = p_path r" by auto
    then have "vv_le (r_vv l) (p_vv r)"
      using assms(2) l by (auto simp: row_covers_def row_lookup_def from_row_def)
    with load_committed [OF r(1) assms(1)] r(2) show ?thesis by (simp add: planned_file_def)
  next
    case False
    with l show ?thesis by (simp add: load_uncommitted)
  qed
qed

lemma resolve_rows_grows:
  assumes "files_ok (t_files d)" "log_vvs_ok d" "vv_ok (v_vv remote)"
  shows "grows d (fst (resolve_rows X p remote staged d))"
proof (cases "\<exists>d'. resolve_rows X p remote staged d = (d', Inr Resolved)")
  case True
  then obtain d' where r: "resolve_rows X p remote staged d = (d', Inr Resolved)" by blast
  then have "grows d d'" by (rule resolve_rows_Resolved [OF assms]) (metis commit_grows)
  with r show ?thesis by simp
next
  case False
  obtain d' r where "resolve_rows X p remote staged d = (d', r)" by fastforce
  with False resolve_rows_idle show ?thesis by fastforce
qed

subsection \<open>Every command keeps the database well formed\<close>

definition gapfree :: "node_id \<Rightarrow> db \<Rightarrow> bool" where
  "gapfree node d \<longleftrightarrow> seqs_of node (t_oplog d) = map int [1..<Suc (length (seqs_of node (t_oplog d)))]"

definition db_ok :: "node_id \<Rightarrow> db \<Rightarrow> bool" where
  "db_ok node d \<longleftrightarrow> files_ok (t_files d) \<and> bt_ok (t_peer_cursors d) \<and> log_vvs_ok d
     \<and> distinct (map o_op_id (t_oplog d)) \<and> distinct (t_applied d) \<and> gapfree node d"

text \<open>
  What a command must satisfy: vectors that come from outside are well formed (nodes make
  no others, and the decoder does not check it), an operation received from a peer is not this node's own,
  and a local append has room in the counters and an operation id not yet in the log.
\<close>

definition append_room :: "crates \<Rightarrow> node_id \<Rightarrow> db \<Rightarrow> bool" where
  "append_room X node d \<longleftrightarrow> counter_room node d \<and> is_i64 (latest_origin_seq d node + 1)
     \<and> op_id X node (latest_origin_seq d node + 1) \<notin> o_op_id ` set (t_oplog d)"

fun cmd_ok :: "crates \<Rightarrow> node_id \<Rightarrow> store_cmd \<Rightarrow> db \<Rightarrow> bool" where
  "cmd_ok X node (AppendLocal c) d = append_room X node d"
| "cmd_ok X node (AppendLocalRename old new) d = append_room X node d"
| "cmd_ok X node (ApplyRemote op dec) d = (vv_ok (o_vv op) \<and> o_origin op \<noteq> node)"
| "cmd_ok X node (ReconcileUpsert row) d = vv_ok (rr_vv row)"
| "cmd_ok X node (ResolveRows p remote staged) d = vv_ok (v_vv remote)"
| "cmd_ok X node cmd d = True"

lemma gapfree_latest:
  assumes "gapfree node d"
  shows "latest_origin_seq d node = int (length (seqs_of node (t_oplog d)))"
proof (cases "seqs_of node (t_oplog d) = []")
  case True
  then show ?thesis by (simp add: latest_origin_seq_def list_max_def)
next
  case False
  let ?n = "length (seqs_of node (t_oplog d))"
  have "set (seqs_of node (t_oplog d)) = int ` {1..<Suc ?n}"
    using assms unfolding gapfree_def by (metis list.set_map set_upt)
  moreover have "Max (int ` {1..<Suc ?n}) = int ?n"
    using False by (intro Max_eqI) (auto simp: Suc_le_eq)
  ultimately show ?thesis using False by (simp add: latest_origin_seq_def list_max_set)
qed

lemma seqs_of_snoc:
  "seqs_of node (ops @ [op]) = (if o_origin op = node then seqs_of node ops @ [o_origin_seq op] else seqs_of node ops)"
  by (simp add: seqs_of_def)

lemma gapfree_append:
  assumes "gapfree node d" "own_op X node op d" "append_room X node d"
    and "t_oplog d' = t_oplog (insert_op op d)"
  shows "gapfree node d'" "t_oplog d' = t_oplog d @ [op]"
    "o_origin_seq op = int (length (seqs_of node (t_oplog d))) + 1"
proof -
  have sq: "o_origin_seq op = latest_origin_seq d node + 1"
    using assms(2,3) by (simp add: own_op_def append_room_def i64_add_id)
  then show seq: "o_origin_seq op = int (length (seqs_of node (t_oplog d))) + 1"
    using gapfree_latest [OF assms(1)] by simp
  show log: "t_oplog d' = t_oplog d @ [op]"
    using assms(2-4) sq by (simp add: own_op_def append_room_def insert_op_def)
  have "o_origin op = node" using assms(2) by (simp add: own_op_def)
  then show "gapfree node d'"
    using assms(1) seq by (simp add: gapfree_def log seqs_of_snoc)
qed

lemma gapfree_foreign:
  "gapfree node d \<Longrightarrow> o_origin op \<noteq> node \<Longrightarrow> t_oplog d' = t_oplog (insert_op op d) \<Longrightarrow> gapfree node d'"
  by (auto simp: gapfree_def insert_op_def seqs_of_snoc split: if_splits)

lemma insert_op_distinct:
  "distinct (map o_op_id (t_oplog d)) \<Longrightarrow> t_oplog d' = t_oplog (insert_op op d) \<Longrightarrow> distinct (map o_op_id (t_oplog d'))"
  by (auto simp: insert_op_def split: if_splits)

lemma insert_op_vvs:
  "log_vvs_ok d \<Longrightarrow> vv_ok (o_vv op) \<Longrightarrow> t_oplog d' = t_oplog (insert_op op d) \<Longrightarrow> log_vvs_ok d'"
  by (auto simp: log_vvs_ok_def insert_op_def split: if_splits)

lemma cursors_ok [simp]:
  "bt_ok (t_peer_cursors d) \<Longrightarrow> bt_ok (t_peer_cursors (advance_recv_cursor a b n d))"
  "bt_ok (t_peer_cursors d) \<Longrightarrow> bt_ok (t_peer_cursors (advance_ack a b n d))"
  by (auto simp: advance_recv_cursor_def advance_ack_def ensure_cursor_row_def Let_def
      intro!: bt_ok_insert bt_ok_insert_ignore split: option.splits)

lemma own_append_db_ok:
  assumes "db_ok node d" "append_room X node d" "own_op X node op d" "t_oplog d' = t_oplog (insert_op op d)"
    and "vv_ok (o_vv op)" "files_ok (t_files d')" "t_peer_cursors d' = t_peer_cursors d" "t_applied d' = t_applied d"
  shows "db_ok node d'"
  unfolding db_ok_def
proof (intro conjI)
  show "distinct (map o_op_id (t_oplog d'))"
    using assms(1) by (intro insert_op_distinct [OF _ assms(4)]) (simp add: db_ok_def)
  show "log_vvs_ok d'"
    using assms(1) by (intro insert_op_vvs [OF _ assms(5,4)]) (simp add: db_ok_def)
  show "gapfree node d'"
    using assms(1) by (intro gapfree_append(1) [OF _ assms(3,2,4)]) (simp add: db_ok_def)
qed (use assms in \<open>simp_all add: db_ok_def\<close>)

lemma append_local_db_ok:
  assumes "db_ok node d" "append_room X node d"
  shows "db_ok node (fst (append_local X node c d))"
proof -
  obtain d' r where e: "append_local X node c d = (d', r)" by fastforce
  show ?thesis
  proof (cases "\<exists>op. r = Inr (Some op)")
    case True
    then obtain op where "append_commit X node c (load_row d (lc_path c)) d = (d', Inr (Some op))"
      using e append_local_ok by blast
    note facts = append_commit_ok [OF this]
    have fo: "files_ok (t_files d)" and room: "counter_room node d"
      using assms by (simp_all add: db_ok_def append_room_def)
    have vv: "vv_ok (o_vv op)"
      unfolding facts(3) using base_room [OF room, of "lc_path c"] files_ok_vv [OF fo]
      by (intro vv_ok_increment') (auto split: option.splits)
    have "files_ok (t_files d')" using facts(6) fo vv by (auto intro: files_ok_upsert)
    from own_append_db_ok [OF assms facts(1,2) vv this facts(7,8)] show ?thesis by (simp add: e)
  next
    case False
    with e append_local_idle assms show ?thesis by fastforce
  qed
qed

lemma append_rename_db_ok:
  assumes "db_ok node d" "append_room X node d"
  shows "db_ok node (fst (append_local_rename X node old new d))"
proof -
  obtain d' r where e: "append_local_rename X node old new d = (d', r)" by fastforce
  have fo: "files_ok (t_files d)" and room: "counter_room node d"
    using assms by (simp_all add: db_ok_def append_room_def)
  show ?thesis
  proof (cases "\<exists>op. r = Inr (Some op)")
    case True
    then obtain op where "append_local_rename X node old new d = (d', Inr (Some op))" using e by blast
    then obtain src u where src: "load_row d old = Some src" and own: "own_op X node op d"
      and log: "t_oplog d' = t_oplog (insert_op op d)"
      and vv_eq: "o_vv op = vv_increment (case load_row d new of Some dst \<Rightarrow> vv_merge (r_vv src) (r_vv dst) | None \<Rightarrow> r_vv src) node"
      and files: "t_files d' = t_files (upsert_file new (r_content_hash src) (r_mode src) (r_size src) (o_vv op) False u
           (r_meta src) (upsert_file old None 0 0 (o_vv op) True u None d))"
      and rest: "t_peer_cursors d' = t_peer_cursors d" "t_applied d' = t_applied d"
      by (rule append_rename_ok) auto
    have vv: "vv_ok (o_vv op)"
      unfolding vv_eq using rename_base_room [OF room fo src, of new] files_ok_vv [OF fo] src
      by (intro vv_ok_increment') (auto split: option.splits intro: vv_ok_merge)
    have "files_ok (t_files d')" unfolding files using fo vv by (intro files_ok_upsert)
    from own_append_db_ok [OF assms own log vv this rest] show ?thesis by (simp add: e)
  next
    case False
    with e append_rename_idle assms show ?thesis by fastforce
  qed
qed

lemma db_ok_frame:
  "db_ok node d \<Longrightarrow> t_files d' = t_files d \<Longrightarrow> t_oplog d' = t_oplog d \<Longrightarrow> t_applied d' = t_applied d \<Longrightarrow>
     bt_ok (t_peer_cursors d') \<Longrightarrow> db_ok node d'"
  by (simp add: db_ok_def log_vvs_ok_def gapfree_def)

lemma cursor_db_ok:
  assumes "db_ok node d"
  shows "db_ok node (advance_recv_cursor a b n d)" "db_ok node (advance_ack a b n d)"
proof -
  have "bt_ok (t_peer_cursors d)" using assms by (simp add: db_ok_def)
  then show "db_ok node (advance_recv_cursor a b n d)" "db_ok node (advance_ack a b n d)"
    by (simp_all add: db_ok_frame [OF assms])
qed

lemma target_source_frame [simp, store_frame]:
  "t_oplog (fst (apply_target op dec d)) = t_oplog d" "t_oplog (apply_source op q d) = t_oplog d"
  "t_applied (fst (apply_target op dec d)) = t_applied d" "t_applied (apply_source op q d) = t_applied d"
  "t_peer_cursors (fst (apply_target op dec d)) = t_peer_cursors d"
  "t_peer_cursors (apply_source op q d) = t_peer_cursors d"
  by (simp_all add: apply_target_def apply_source_def Let_def split: op_type.splits)

lemma remote_files_frame [simp, store_frame]:
  "t_oplog (remote_files op dec d) = t_oplog (insert_op op d)"
  "t_applied (remote_files op dec d) = t_applied d"
  "t_peer_cursors (remote_files op dec d) = t_peer_cursors d"
  by (simp_all add: remote_files_def Let_def split: op_type.splits option.splits)

lemma remote_files_ok:
  "vv_ok (o_vv op) \<Longrightarrow> files_ok (t_files d) \<Longrightarrow> files_ok (t_files (remote_files op dec d))"
  using apply_target_ok [of op "insert_op op d" dec]
  by (auto simp: remote_files_def Let_def intro!: apply_source_ok split: op_type.splits option.splits)

lemma mark_applied_mem [simp]: "i \<in> set (t_applied (mark_applied i d))"
  by (simp add: mark_applied_def)

lemma insert_op_mem [simp]: "o_op_id op \<in> o_op_id ` set (t_oplog (insert_op op d))"
  by (simp add: insert_op_def)

lemma mark_applied_distinct: "distinct (t_applied d) \<Longrightarrow> distinct (t_applied (mark_applied i d))"
  by (simp add: mark_applied_def)

lemma apply_remote_db_ok:
  assumes "db_ok node d" "vv_ok (o_vv op)" "o_origin op \<noteq> node"
  shows "db_ok node (fst (apply_remote op dec d))"
proof (cases "has_applied d (o_op_id op) \<or> (o_op_type op = Rename \<and> o_path_old op = None)")
  case True
  with assms(1) cursor_db_ok [OF assms(1)] show ?thesis by (auto simp: apply_remote_cases)
next
  case False
  let ?d = "fst (apply_remote op dec d)"
  have log: "t_oplog ?d = t_oplog (insert_op op d)" using False by (auto simp: apply_remote_cases)
  have ok: "files_ok (t_files d)" "bt_ok (t_peer_cursors d)" "log_vvs_ok d" "distinct (map o_op_id (t_oplog d))"
    "distinct (t_applied d)" "gapfree node d" using assms(1) by (simp_all add: db_ok_def)
  have "files_ok (t_files ?d)" "bt_ok (t_peer_cursors ?d)" "distinct (t_applied ?d)"
    using False ok(1,2,5) assms(2) remote_files_ok
    by (auto simp: apply_remote_cases intro: mark_applied_distinct)
  with insert_op_distinct [OF ok(4) log] insert_op_vvs [OF ok(3) assms(2) log] gapfree_foreign [OF ok(6) assms(3) log]
  show ?thesis by (simp add: db_ok_def)
qed

lemma reconcile_db_ok:
  assumes "db_ok node d" "vv_ok (rr_vv row)"
  shows "db_ok node (fst (reconcile_upsert row d))"
proof -
  have "files_ok (t_files (fst (reconcile_upsert row d)))"
    using assms by (auto simp: reconcile_upsert_def Let_def db_ok_def intro!: files_ok_upsert merged_vv_ok)
  with assms(1) show ?thesis
    by (auto simp: db_ok_def reconcile_upsert_def Let_def log_vvs_ok_def gapfree_def)
qed

lemma resolve_db_ok:
  assumes "db_ok node d" "vv_ok (v_vv remote)"
  shows "db_ok node (fst (resolve_rows X p remote staged d))"
proof (cases "\<exists>d'. resolve_rows X p remote staged d = (d', Inr Resolved)")
  case True
  then obtain d' where r: "resolve_rows X p remote staged d = (d', Inr Resolved)" by blast
  have ok: "files_ok (t_files d)" "log_vvs_ok d" using assms(1) by (simp_all add: db_ok_def)
  from r have d': "d' = fold commit_planned staged d" "\<forall>r \<in> set staged. row_covers (row_lookup X d) r"
    by (rule resolve_rows_Resolved [OF ok assms(2)], simp_all)+
  then have "files_ok (t_files d')"
    using ok by (auto intro!: files_ok_commit simp: row_covers_def)
  with assms(1) show ?thesis by (simp add: r d' db_ok_def log_vvs_ok_def gapfree_def)
next
  case False
  obtain d' r where "resolve_rows X p remote staged d = (d', r)" by fastforce
  with False resolve_rows_idle assms(1) show ?thesis by fastforce
qed

definition store_ok :: "node_id \<Rightarrow> store \<Rightarrow> bool" where
  "store_ok node s \<longleftrightarrow> db_ok node (s_db s) \<and> s_latest s = latest_origin_seq (s_db s) node"

lemma latest_frame: "t_oplog d' = t_oplog d \<Longrightarrow> latest_origin_seq d' node = latest_origin_seq d node"
  by (simp add: latest_origin_seq_def)

lemma append_latest:
  assumes "gapfree node d" "append_room X node d" "own_op X node op d" "t_oplog d' = t_oplog (insert_op op d)"
  shows "latest_origin_seq d' node = o_origin_seq op"
proof -
  have "o_origin op = node" using assms(3) by (simp add: own_op_def)
  with gapfree_append [OF assms(1,3,2,4)] gapfree_latest show ?thesis by (simp add: seqs_of_snoc)
qed

lemma foreign_latest:
  "o_origin op \<noteq> node \<Longrightarrow> t_oplog d' = t_oplog (insert_op op d) \<Longrightarrow> latest_origin_seq d' node = latest_origin_seq d node"
  by (auto simp: latest_origin_seq_def insert_op_def seqs_of_snoc)

lemma apply_remote_latest:
  assumes "o_origin op \<noteq> node"
  shows "latest_origin_seq (fst (apply_remote op dec d)) node = latest_origin_seq d node"
proof (cases "has_applied d (o_op_id op) \<or> (o_op_type op = Rename \<and> o_path_old op = None)")
  case True
  then have "t_oplog (fst (apply_remote op dec d)) = t_oplog d" by (auto simp: apply_remote_cases)
  then show ?thesis by (rule latest_frame)
next
  case False
  then have "t_oplog (fst (apply_remote op dec d)) = t_oplog (insert_op op d)" by (auto simp: apply_remote_cases)
  with assms show ?thesis by (rule foreign_latest)
qed

lemma local_store_ok:
  assumes "store_ok node s" "append_room X node (s_db s)" "db_ok node d'"
    and "\<And>op. r = Inr (Some op) \<Longrightarrow> own_op X node op (s_db s) \<and> t_oplog d' = t_oplog (insert_op op (s_db s))"
    and "(\<forall>op. r \<noteq> Inr (Some op)) \<Longrightarrow> d' = s_db s"
  shows "store_ok node (s\<lparr>s_db := d', s_latest := notify_latest r (s_latest s)\<rparr>)"
proof (cases "\<exists>op. r = Inr (Some op)")
  case True
  then obtain op where op: "r = Inr (Some op)" by blast
  have "gapfree node (s_db s)" using assms(1) by (simp add: store_ok_def db_ok_def)
  with append_latest [OF _ assms(2), of op d'] assms(3,4) op show ?thesis
    by (simp add: store_ok_def notify_latest_def)
next
  case False
  then have "notify_latest r (s_latest s) = s_latest s" by (auto simp: notify_latest_def split: sum.splits option.splits)
  with False assms(1,5) show ?thesis by (simp add: store_ok_def)
qed

lemma side_table_ok:
  assumes "store_ok node s" "t_files d' = t_files (s_db s)" "t_oplog d' = t_oplog (s_db s)"
    and "t_applied d' = t_applied (s_db s)" "bt_ok (t_peer_cursors d')"
  shows "store_ok node (s\<lparr>s_db := d'\<rparr>) \<and> grows (s_db s) d'"
  using assms db_ok_frame [OF _ assms(2-5)] grows_files [OF assms(2)] latest_frame [OF assms(3)]
  by (simp add: store_ok_def)

lemma store_step_ok:
  assumes "store_ok node s" "cmd_ok X node cmd (s_db s)"
  shows "store_ok node (fst (store_step X node cmd s)) \<and> grows (s_db s) (s_db (fst (store_step X node cmd s)))"
proof -
  have db: "db_ok node (s_db s)" and lt: "s_latest s = latest_origin_seq (s_db s) node"
    using assms(1) by (simp_all add: store_ok_def)
  then have ok: "files_ok (t_files (s_db s))" "log_vvs_ok (s_db s)" "bt_ok (t_peer_cursors (s_db s))"
    by (simp_all add: db_ok_def)
  show ?thesis
  proof (cases cmd)
    case (AppendLocal c)
    with assms(2) have room: "append_room X node (s_db s)" by simp
    obtain d' r where e: "append_local X node c (s_db s) = (d', r)" by fastforce
    have "store_ok node (s\<lparr>s_db := d', s_latest := notify_latest r (s_latest s)\<rparr>)"
      using assms(1) room
    proof (rule local_store_ok)
      show "db_ok node d'" using append_local_db_ok [OF db room, of c] e by simp
      show "r = Inr (Some op) \<Longrightarrow> own_op X node op (s_db s) \<and> t_oplog d' = t_oplog (insert_op op (s_db s))" for op
        using append_commit_ok(1,2) [OF append_local_ok(1)] e by blast
      show "\<forall>op. r \<noteq> Inr (Some op) \<Longrightarrow> d' = s_db s" using e by (rule append_local_idle)
    qed
    moreover have "grows (s_db s) d'"
      using append_local_grows [of node "s_db s" X c] room e by (simp add: append_room_def)
    ultimately show ?thesis by (simp add: AppendLocal e)
  next
    case (AppendLocalRename old new)
    with assms(2) have room: "append_room X node (s_db s)" by simp
    obtain d' r where e: "append_local_rename X node old new (s_db s) = (d', r)" by fastforce
    have "store_ok node (s\<lparr>s_db := d', s_latest := notify_latest r (s_latest s)\<rparr>)"
      using assms(1) room
    proof (rule local_store_ok)
      show "db_ok node d'" using append_rename_db_ok [OF db room, of old new] e by simp
      show "r = Inr (Some op) \<Longrightarrow> own_op X node op (s_db s) \<and> t_oplog d' = t_oplog (insert_op op (s_db s))" for op
        by (rule append_rename_ok [of X node old new "s_db s" d' op]) (use e in auto)
      show "\<forall>op. r \<noteq> Inr (Some op) \<Longrightarrow> d' = s_db s" using e by (rule append_rename_idle)
    qed
    moreover have "grows (s_db s) d'"
      using append_rename_grows [of node "s_db s" X old new] room e ok by (simp add: append_room_def)
    ultimately show ?thesis by (simp add: AppendLocalRename e)
  next
    case (ApplyRemote op dec)
    have "o_origin op \<noteq> node" using assms(2) ApplyRemote by simp
    then have "latest_origin_seq (fst (apply_remote op dec (s_db s))) node = latest_origin_seq (s_db s) node"
      by (rule apply_remote_latest)
    with assms(2) apply_remote_db_ok [OF db, of op dec] apply_remote_grows [of op "s_db s" dec] lt show ?thesis
      by (simp add: ApplyRemote store_ok_def case_prod_unfold Let_def)
  next
    case (ReconcileUpsert row)
    have "t_oplog (fst (reconcile_upsert row (s_db s))) = t_oplog (s_db s)"
      by (simp add: reconcile_upsert_def Let_def)
    with assms(2) reconcile_db_ok [OF db, of row] reconcile_upsert_grows [of row "s_db s"] lt show ?thesis
      by (simp add: ReconcileUpsert store_ok_def latest_origin_seq_def case_prod_unfold Let_def)
  next
    case (ResolveRows p remote staged)
    have "t_oplog (fst (resolve_rows X p remote staged (s_db s))) = t_oplog (s_db s)"
      by (auto simp: resolve_rows_def Let_def split: option.splits sum.splits plan_fault.splits)
    with assms(2) resolve_db_ok [OF db, of remote X p staged] resolve_rows_grows [OF ok(1,2), of remote X p staged] lt
    show ?thesis by (simp add: ResolveRows store_ok_def latest_origin_seq_def case_prod_unfold Let_def)
  next
    case (AdvanceAck peer n)
    with ok side_table_ok [OF assms(1), of "advance_ack peer node n (s_db s)"] show ?thesis by simp
  next
    case (AdvanceRecvCursor peer origin n)
    with ok side_table_ok [OF assms(1), of "advance_recv_cursor peer origin n (s_db s)"] show ?thesis by simp
  next
    case (PutManifest m)
    with ok side_table_ok [OF assms(1), of "put_manifest m (s_db s)"] show ?thesis by simp
  next
    case (SetMeta k v)
    with ok side_table_ok [OF assms(1), of "set_meta k v (s_db s)"] show ?thesis by (simp add: set_meta_def)
  qed (use assms(1) in simp_all)
qed

subsection \<open>Runs of the store thread\<close>

primrec admissible :: "('c \<Rightarrow> 's \<Rightarrow> bool) \<Rightarrow> ('c \<Rightarrow> 's \<Rightarrow> 's) \<Rightarrow> 'c list \<Rightarrow> 's \<Rightarrow> bool" where
  "admissible adm step [] s = True"
| "admissible adm step (c # cs) s = (adm c s \<and> admissible adm step cs (step c s))"

locale growing_store =
  fixes step :: "'c \<Rightarrow> 's \<Rightarrow> 's"
    and adm :: "'c \<Rightarrow> 's \<Rightarrow> bool"
    and inv :: "'s \<Rightarrow> bool"
    and le :: "'s \<Rightarrow> 's \<Rightarrow> bool"
  assumes step_inv: "inv s \<Longrightarrow> adm c s \<Longrightarrow> inv (step c s)"
    and step_le: "inv s \<Longrightarrow> adm c s \<Longrightarrow> le s (step c s)"
    and le_refl: "le s s"
    and le_trans: "le s t \<Longrightarrow> le t u \<Longrightarrow> le s u"
begin

lemma run_inv: "inv s \<Longrightarrow> admissible adm step cs s \<Longrightarrow> inv (fold step cs s)"
  by (induction cs arbitrary: s) (auto intro: step_inv)

lemma run_le: "inv s \<Longrightarrow> admissible adm step cs s \<Longrightarrow> le s (fold step cs s)"
  by (induction cs arbitrary: s) (auto intro: le_refl le_trans step_inv step_le)

end

interpretation st: growing_store "\<lambda>c s. fst (store_step X node c s)" "\<lambda>c s. cmd_ok X node c (s_db s)"
    "store_ok node" "\<lambda>s t. grows (s_db s) (s_db t)" for X node
  by unfold_locales (auto simp: store_step_ok intro: grows_trans)

lemma run_store_fold: "fst (run_store X node cmds s) = fold (\<lambda>c s. fst (store_step X node c s)) cmds s"
  by (induction cmds arbitrary: s) (simp_all add: case_prod_unfold Let_def)

abbreviation cmds_ok :: "crates \<Rightarrow> node_id \<Rightarrow> store_cmd list \<Rightarrow> store \<Rightarrow> bool" where
  "cmds_ok X node \<equiv> admissible (\<lambda>c s. cmd_ok X node c (s_db s)) (\<lambda>c s. fst (store_step X node c s))"

lemma run_store_ok: "store_ok node s \<Longrightarrow> cmds_ok X node cmds s \<Longrightarrow> store_ok node (fst (run_store X node cmds s))"
  unfolding run_store_fold by (rule st.run_inv)

lemma run_store_grows:
  "store_ok node s \<Longrightarrow> cmds_ok X node cmds s \<Longrightarrow> grows (s_db s) (s_db (fst (run_store X node cmds s)))"
  unfolding run_store_fold by (rule st.run_le)

subsection \<open>Cursors\<close>

lemma cursor_recv_value:
  "cursor_value cu_recv_cursor p q (advance_recv_cursor a b n d) =
     (if (p, q) = (a, b) then max (cursor_value cu_recv_cursor a b d) n else cursor_value cu_recv_cursor p q d)"
  "cursor_value cu_last_acked_seq p q (advance_recv_cursor a b n d) = cursor_value cu_last_acked_seq p q d"
  by (auto simp: cursor_value_def advance_recv_cursor_def ensure_cursor_row_def Let_def
      bt_get_insert_ignore bt_get_insert split: option.splits)

lemma cursor_ack_value:
  "cursor_value cu_last_acked_seq p q (advance_ack a b n d) =
     (if (p, q) = (a, b) then max (cursor_value cu_last_acked_seq a b d) n else cursor_value cu_last_acked_seq p q d)"
  "cursor_value cu_recv_cursor p q (advance_ack a b n d) = cursor_value cu_recv_cursor p q d"
  by (auto simp: cursor_value_def advance_ack_def ensure_cursor_row_def Let_def
      bt_get_insert_ignore bt_get_insert split: option.splits)

lemma advance_recv_idem:
  assumes "bt_ok (t_peer_cursors d)"
  shows "advance_recv_cursor a b n (advance_recv_cursor a b n d) = advance_recv_cursor a b n d"
proof -
  let ?d = "advance_recv_cursor a b n d"
  obtain c where c: "bt_get (t_peer_cursors ?d) (a, b) = Some c" "n \<le> cu_recv_cursor c"
    by (cases "bt_get (t_peer_cursors d) (a, b)")
      (auto simp: advance_recv_cursor_def ensure_cursor_row_def Let_def bt_get_insert_ignore bt_get_insert)
  have same: "c\<lparr>cu_recv_cursor := max (cu_recv_cursor c) n\<rparr> = c" using c(2) by simp
  have e: "ensure_cursor_row a b ?d = ?d"
    using c(1) by (simp add: ensure_cursor_row_def bt_insert_ignore_def)
  have "bt_insert (a, b) c (t_peer_cursors ?d) = t_peer_cursors ?d"
    using assms c(1) by (intro btree.ins_same) auto
  with e c(1) same show ?thesis by (simp add: advance_recv_cursor_def [of a b n ?d] Let_def)
qed

subsection \<open>Redelivery\<close>

lemma apply_remote_applied:
  assumes "apply_remote op dec d = (d', Inr e)"
  shows "has_applied d' (o_op_id op)"
  using assms by (auto simp: apply_remote_cases has_applied_def mark_applied_def split: if_splits)

lemma apply_remote_again:
  assumes "bt_ok (t_peer_cursors d)" "apply_remote op dec d = (d', Inr e)"
  shows "apply_remote op dec' d' = (d', Inr dec')"
proof -
  obtain d1 where d1: "d' = advance_recv_cursor (o_origin op) (o_origin op) (o_origin_seq op) d1"
    "bt_ok (t_peer_cursors d1)"
    using assms by (auto simp: apply_remote_cases split: if_splits)
  have "has_applied d' (o_op_id op)" using assms(2) by (rule apply_remote_applied)
  with d1 show ?thesis by (simp add: apply_remote_cases advance_recv_idem)
qed

text \<open>A version that is not strictly newer leaves the row of its target path alone.\<close>

lemma apply_remote_stale_target:
  assumes "load_row d (o_path op) = Some r" "vv_le (o_vv op) (r_vv r)" "o_path_old op \<noteq> Some (o_path op)"
  shows "load_row (fst (apply_remote op dec d)) (o_path op) = Some r"
proof -
  have "decide (load_file d (o_path op)) (o_vv op) = Ignore"
    using assms by (simp add: load_file_row decide_Some_cases row_local_def)
  then have "fst (apply_target op dec (insert_op op d)) = insert_op op d"
    by (simp add: apply_target_def Let_def load_file_row)
  then have "load_row (remote_files op dec d) (o_path op) = Some r"
    using assms by (auto simp: remote_files_def Let_def apply_source_def split: op_type.splits option.splits)
  with assms(1) show ?thesis by (simp add: apply_remote_cases)
qed

subsection \<open>Resolution settles a conflict\<close>

lemma resolve_settles:
  assumes "files_ok (t_files d)" "log_vvs_ok d" "vv_ok (v_vv remote)"
    and "resolve_rows X p remote staged d = (d', Inr Resolved)"
  shows "decide (load_file d' p) (v_vv remote) = Ignore"
proof -
  from assms(4) obtain l w ls new where l: "load_row d p = Some l" "d' = fold commit_planned staged d"
    and staged: "staged = winner_row p (resolution_candidates X p remote l d) (w # ls) w # new"
      "distinct (map p_path staged)"
    by (rule resolve_rows_Resolved [OF assms(1-3)])
  let ?w = "winner_row p (resolution_candidates X p remote l d) (w # ls) w"
  have "load_row d' (p_path ?w) = Some (planned_file ?w)"
    unfolding l(2) by (rule load_committed) (use staged in auto)
  moreover have "vv_le (v_vv remote) (p_vv ?w)"
    using candidates_ok [OF assms(1-3) l(1)] remote_is_candidate
    by (auto intro!: vv_merge_all_ub)
  ultimately show ?thesis
    by (simp add: load_file_row decide_Some_cases row_local_def planned_file_def)
qed

lemma resolve_retry:
  assumes "resolve_rows X p remote staged d = (d', Inr (Stale derived))"
  shows "d' = d \<and> resolve_rows X p remote derived d = (fold commit_planned derived d, Inr Resolved)"
  using assms
  by (auto simp: resolve_rows_def Let_def split: if_splits option.splits sum.splits plan_fault.splits)

lemma resolve_no_panic:
  assumes "files_ok (t_files d)"
  shows "snd (resolve_rows X p remote staged d) \<noteq> Inl e"
proof -
  have "\<exists>r. plan_candidates X p cs (row_lookup X d) = Inr r" for cs
    by (rule plan_no_fault) (use row_lookup_ok [OF assms] in \<open>simp_all add: row_lookup_def\<close>)
  then have "plan_candidates X p cs (row_lookup X d) \<noteq> Inl f" for cs f by (metis sum.distinct(1))
  then show ?thesis
    by (auto simp: resolve_rows_def Let_def split: if_splits option.splits sum.splits plan_fault.splits)
qed

subsection \<open>Properties\<close>

definition empty_db :: db where
  "empty_db = \<lparr>t_oplog = [], t_files = [], t_peers = [], t_applied = [], t_manifests = [],
     t_manifest_chunks = [], t_peer_cursors = [], t_meta = []\<rparr>"

definition example_change :: "path \<Rightarrow> hash32 \<Rightarrow> local_change" where
  "example_change p h = \<lparr>lc_path = p, lc_op_type = Write, lc_mode = 420, lc_size = 1, lc_content_hash = Some h,
     lc_meta = None, lc_manifest = None\<rparr>"

definition example_op :: "node_id \<Rightarrow> i64 \<Rightarrow> path \<Rightarrow> hash32 \<Rightarrow> version_vector \<Rightarrow> op_record" where
  "example_op n s p h vv = \<lparr>o_op_id = op_id plain_crates n s, o_origin = n, o_origin_seq = s, o_op_type = Write,
     o_path = p, o_path_old = None, o_uuid = None, o_mode = 420, o_size = 1, o_content_hash = Some h,
     o_meta = None, o_vv = vv\<rparr>"

definition example_db :: "path \<Rightarrow> hash32 \<Rightarrow> version_vector \<Rightarrow> db" where
  "example_db p h vv = upsert_file p (Some h) 420 1 vv False None None empty_db"

lemma empty_db_sel [simp]:
  "t_oplog empty_db = []" "t_files empty_db = []" "t_applied empty_db = []" "t_peer_cursors empty_db = []"
  "t_peers empty_db = []" "t_manifests empty_db = []" "t_manifest_chunks empty_db = []" "load_row empty_db p = None"
  by (simp_all add: empty_db_def load_row_def)

lemma example_db_ok:
  "vv_ok vv \<Longrightarrow> files_ok (t_files (example_db p h vv))" "log_vvs_ok (example_db p h vv)"
  by (auto simp: example_db_def upsert_file_def files_ok_def log_vvs_ok_def bt_ok_Cons)

lemma example_vv [simp]: "vv_ok [(n, 1)]" "vv_ok [(n, 2)]"
  by (simp_all add: vv_ok_def bt_ok_def)

lemma empty_store_ok: "store_ok node \<lparr>s_db = empty_db, s_latest = 0\<rparr>"
  by (simp add: store_ok_def db_ok_def files_ok_def log_vvs_ok_def gapfree_def seqs_of_def latest_origin_seq_def
      list_max_def)

lemma empty_append_room: "append_room plain_crates n empty_db"
  by (simp add: append_room_def counter_room_def latest_origin_seq_def seqs_of_def list_max_def is_i64_def)

text \<open>
  C16. Whatever commands the store thread processes, in whatever order, the database stays
  well formed (keyed tables in order, vectors normalized, operation ids unique, this
  node's sequence numbers gap-free), the \<open>latest\<close> channel shows the newest own sequence
  number, and no row disappears or loses history.
\<close>

theorem store_run_keeps_history:
  assumes "store_ok node s" "cmds_ok X node cmds s"
  shows "store_ok node (fst (run_store X node cmds s))
    \<and> (\<forall>p r. load_row (s_db s) p = Some r \<longrightarrow>
         (\<exists>r'. load_row (s_db (fst (run_store X node cmds s))) p = Some r' \<and> vv_le (r_vv r) (r_vv r')))"
  using run_store_ok [OF assms] run_store_grows [OF assms] by (simp add: grows_def)

theorem store_run_keeps_history_witness:
  "store_ok [1] (fst (run_store plain_crates [1] [AppendLocal (example_change ''f'' [7])] \<lparr>s_db = empty_db, s_latest = 0\<rparr>))"
  using store_run_keeps_history [OF empty_store_ok, of plain_crates "[1]" "[AppendLocal (example_change ''f'' [7])]"]
    empty_append_room by simp

text \<open>
  C21. A version that a row once covered is never applied again: after any run of the
  store thread, the decision for it is to ignore it, so a stale write cannot bring a
  deleted file back.
\<close>

theorem covered_version_stays_covered:
  assumes "store_ok node s" "cmds_ok X node cmds s" "load_row (s_db s) p = Some r" "vv_le v (r_vv r)"
  shows "decide (load_file (s_db (fst (run_store X node cmds s))) p) v = Ignore"
proof -
  obtain r' where "load_row (s_db (fst (run_store X node cmds s))) p = Some r'" "vv_le (r_vv r) (r_vv r')"
    using run_store_grows [OF assms(1,2)] assms(3) by (auto simp: grows_def)
  with assms(4) vv_le_trans show ?thesis by (auto simp: load_file_row decide_Some_cases row_local_def)
qed

theorem covered_version_stays_covered_witness:
  "decide (load_file (s_db (fst (run_store plain_crates [1] [LoadFile ''f'']
     \<lparr>s_db = example_db ''f'' [7] [([2], 1)], s_latest = 0\<rparr>))) ''f'') [([2], 1)] = Ignore"
proof (rule covered_version_stays_covered)
  have "bt_ok (t_peer_cursors (example_db ''f'' [7] [([2], 1)]))" "t_oplog (example_db ''f'' [7] [([2], 1)]) = []"
    "t_applied (example_db ''f'' [7] [([2], 1)]) = []" by (simp_all add: example_db_def)
  then show "store_ok [1] \<lparr>s_db = example_db ''f'' [7] [([2], 1)], s_latest = 0\<rparr>"
    using example_db_ok by (simp add: store_ok_def db_ok_def gapfree_def seqs_of_def latest_origin_seq_def list_max_def)
  show "load_row (s_db \<lparr>s_db = example_db ''f'' [7] [([2], 1)], s_latest = 0\<rparr>) ''f'' =
      Some \<lparr>r_path = ''f'', r_content_hash = Some [7], r_mode = 420, r_size = 1, r_tombstone = False,
        r_vv = [([2], 1)], r_uuid = None, r_meta = None\<rparr>"
    by (simp add: example_db_def)
qed simp_all

text \<open>
  A local change that is recorded gets the next gap-free sequence number, a vector
  strictly newer than the row's, and becomes the row; other rows stay.
\<close>

theorem append_local_records:
  assumes "db_ok node d" "append_room X node d" "append_local X node c d = (d', Inr (Some op))"
  shows "t_oplog d' = t_oplog d @ [op] \<and> o_origin op = node
    \<and> o_origin_seq op = int (length (seqs_of node (t_oplog d))) + 1
    \<and> (\<forall>r. load_row d (lc_path c) = Some r \<longrightarrow> vv_compare (o_vv op) (r_vv r) = Dominates)
    \<and> (\<exists>r. load_row d' (lc_path c) = Some r \<and> r_vv r = o_vv op \<and> r_content_hash r = lc_content_hash c
           \<and> r_tombstone r = (lc_op_type c = Delete) \<and> r_uuid r = o_uuid op)
    \<and> (\<forall>q. q \<noteq> lc_path c \<longrightarrow> load_row d' q = load_row d q)"
proof -
  have gf: "gapfree node d" and room: "counter_room node d"
    using assms(1,2) by (simp_all add: db_ok_def append_room_def)
  note facts = append_commit_ok [OF append_local_ok(1) [OF assms(3)]]
  note log = gapfree_append [OF gf facts(1) assms(2) facts(2)]
  have "vv_compare (o_vv op) (r_vv r) = Dominates" if "load_row d (lc_path c) = Some r" for r
    using facts(3) that room by (simp add: vv_increment_dominates counter_room_def)
  with facts(1,4,5) log show ?thesis by (simp add: own_op_def)
qed

theorem append_local_records_witness:
  "\<exists>op d'. append_local plain_crates [1] (example_change ''f'' [7]) empty_db = (d', Inr (Some op)) \<and> o_origin_seq op = 1"
proof -
  have "i64_add 0 1 = 1" by (simp add: i64_add_id is_i64_def)
  then obtain d' op where a: "append_local plain_crates [1] (example_change ''f'' [7]) empty_db = (d', Inr (Some op))"
    by (auto simp: append_local_def append_commit_def example_change_def Let_def)
  have "db_ok [1] empty_db" using empty_store_ok [of "[1]"] by (simp add: store_ok_def)
  from append_local_records [OF this empty_append_room a] a show ?thesis by (auto simp: seqs_of_def)
qed

text \<open>
  Nothing is logged for a change that is none: \<open>append_local\<close> answers without an
  operation exactly for a write of the content and metadata the live row already has
  and for a delete of a path that is absent or already deleted; it fails exactly for a
  rename and for a manifest of other content; whenever it logs nothing, the database is
  unchanged.
\<close>

theorem append_local_filters_noops:
  "(snd (append_local X node c d) = Inr None \<longleftrightarrow>
      (lc_op_type c = Write \<and> (\<exists>l. load_row d (lc_path c) = Some l \<and> \<not> r_tombstone l
          \<and> r_content_hash l = lc_content_hash c \<and> hash_of X (r_meta l) = hash_of X (lc_meta c)))
      \<or> (lc_op_type c = Delete \<and> (\<forall>l. load_row d (lc_path c) = Some l \<longrightarrow> r_tombstone l)))
   \<and> ((\<forall>op. snd (append_local X node c d) \<noteq> Inr (Some op)) \<longrightarrow> fst (append_local X node c d) = d)"
  by (auto simp: append_local_def append_commit_def Let_def split: op_type.splits option.splits if_splits)

theorem append_local_filters_noops_witness:
  "snd (append_local plain_crates [1] (example_change ''f'' [7]) (example_db ''f'' [7] [([2], 1)])) = Inr None"
  unfolding append_local_filters_noops [THEN conjunct1]
  by (simp add: example_change_def example_db_def)

text \<open>
  A rename is one operation with two effects: the source path becomes a tombstone,
  the target carries the source's content, mode and identity, both under one vector that
  is strictly newer than what either path had; every other path is untouched.
\<close>

theorem append_rename_moves:
  assumes "files_ok (t_files d)" "counter_room node d"
    and "append_local_rename X node old new d = (d', Inr (Some op))"
  shows "\<exists>src a b. load_row d old = Some src \<and> \<not> r_tombstone src
    \<and> load_row d' old = Some a \<and> r_tombstone a \<and> r_vv a = o_vv op
    \<and> load_row d' new = Some b \<and> \<not> r_tombstone b \<and> r_vv b = o_vv op
    \<and> r_content_hash b = r_content_hash src \<and> r_mode b = r_mode src
    \<and> r_uuid b = Some (unwrap_or (r_uuid src) (migration_uuid X old))
    \<and> vv_compare (o_vv op) (r_vv src) = Dominates
    \<and> (\<forall>dst. load_row d new = Some dst \<longrightarrow> vv_compare (o_vv op) (r_vv dst) = Dominates)
    \<and> (\<forall>q. q \<noteq> old \<longrightarrow> q \<noteq> new \<longrightarrow> load_row d' q = load_row d q)"
proof -
  from assms(3) obtain src where src: "load_row d old = Some src" "\<not> r_tombstone src"
    and vv: "o_vv op = vv_increment (case load_row d new of Some dst \<Rightarrow> vv_merge (r_vv src) (r_vv dst) | None \<Rightarrow> r_vv src) node"
    and rows: "load_row d' old = Some \<lparr>r_path = old, r_content_hash = None, r_mode = 0, r_size = 0, r_tombstone = True,
        r_vv = o_vv op, r_uuid = o_uuid op, r_meta = None\<rparr>"
      "load_row d' new = Some \<lparr>r_path = new, r_content_hash = r_content_hash src, r_mode = r_mode src,
        r_size = r_size src, r_tombstone = False, r_vv = o_vv op, r_uuid = o_uuid op, r_meta = r_meta src\<rparr>"
      "\<And>q. q \<noteq> old \<Longrightarrow> q \<noteq> new \<Longrightarrow> load_row d' q = load_row d q"
    by (rule append_rename_ok) (rule that)
  let ?base = "case load_row d new of Some dst \<Rightarrow> vv_merge (r_vv src) (r_vv dst) | None \<Rightarrow> r_vv src"
  have dom: "vv_compare (o_vv op) ?base = Dominates"
    unfolding vv by (intro vv_increment_dominates rename_base_room [OF assms(2,1) src(1)])
  have above: "vv_le v ?base \<Longrightarrow> vv_compare (o_vv op) v = Dominates" for v
    using dom by (auto simp: vv_compare_iffs intro: vv_le_trans)
  have "vv_le (r_vv src) ?base" "load_row d new = Some dst \<Longrightarrow> vv_le (r_vv dst) ?base" for dst
    using files_ok_vv [OF assms(1)] by (auto simp: vv_merge_ub1 vv_merge_ub2 split: option.splits)
  moreover have "o_uuid op = Some (unwrap_or (r_uuid src) (migration_uuid X old))"
    using assms(3) src by (auto simp: append_local_rename_def Let_def split: if_splits)
  ultimately show ?thesis using src rows above by auto
qed

theorem append_rename_moves_witness:
  "\<exists>d' op b. append_local_rename plain_crates [1] ''f'' ''g'' (example_db ''f'' [7] [([2], 1)]) = (d', Inr (Some op))
     \<and> load_row d' ''g'' = Some b \<and> r_content_hash b = Some [7]"
proof -
  let ?d = "example_db ''f'' [7] [([2], 1)]"
  obtain d' op where r: "append_local_rename plain_crates [1] ''f'' ''g'' ?d = (d', Inr (Some op))"
    by (simp add: append_local_rename_def example_db_def Let_def)
  have "counter_room [1] ?d" by (auto simp: counter_room_def example_db_def vv_get_def bt_get_def)
  from append_rename_moves [OF example_db_ok(1) this r] r show ?thesis by (auto simp: example_db_def)
qed

text \<open>
  Redelivery is harmless: once an operation has been handled, handling it again, with
  whatever decision, changes nothing at all, the receive cursor included.
\<close>

theorem apply_remote_idempotent:
  assumes "bt_ok (t_peer_cursors d)" "apply_remote op dec d = (d', Inr e)"
  shows "fst (apply_remote op dec' d') = d'"
  using apply_remote_again [OF assms] by simp

theorem apply_remote_idempotent_witness:
  "\<exists>d' e. apply_remote (example_op [2] 1 ''f'' [7] [([2], 1)]) Apply empty_db = (d', Inr e)
     \<and> fst (apply_remote (example_op [2] 1 ''f'' [7] [([2], 1)]) Ignore d') = d'"
proof -
  let ?op = "example_op [2] 1 ''f'' [7] [([2], 1)]"
  obtain d' e where r: "apply_remote ?op Apply empty_db = (d', Inr e)"
    by (simp add: apply_remote_cases has_applied_def example_op_def)
  show ?thesis
    using r apply_remote_idempotent [OF _ r, of Ignore] by auto
qed

text \<open>
  A remote operation that is not newer than the row leaves the row alone but is
  still recorded as handled: the operation is in the log and in the applied set and the
  receive cursor has moved past it.  This holds for a stale \<open>Apply\<close> decision too, which
  is re-validated under the committing transaction.
\<close>

theorem stale_operation_is_recorded_not_applied:
  assumes "load_row d (o_path op) = Some r" "\<not> vv_le (r_vv r) (o_vv op) \<or> vv_le (o_vv op) (r_vv r)"
    and "o_op_type op \<noteq> Rename" "\<not> has_applied d (o_op_id op)"
  shows "load_row (fst (apply_remote op dec d)) (o_path op) = Some r
    \<and> has_applied (fst (apply_remote op dec d)) (o_op_id op)
    \<and> o_op_id op \<in> o_op_id ` set (t_oplog (fst (apply_remote op dec d)))
    \<and> o_origin_seq op \<le> cursor_value cu_recv_cursor (o_origin op) (o_origin op) (fst (apply_remote op dec d))
    \<and> snd (apply_remote op Apply d) \<noteq> Inr Apply"
proof -
  have nd: "decide (load_file d (o_path op)) (o_vv op) \<noteq> Apply"
    using assms(1,2) by (auto simp: load_file_row decide_Some_cases row_local_def)
  then have t: "fst (apply_target op dec' (insert_op op d)) = insert_op op d"
    "snd (apply_target op Apply (insert_op op d)) \<noteq> Apply" for dec'
    by (simp_all add: apply_target_def Let_def load_file_row)
  have "load_row (remote_files op dec d) (o_path op) = Some r"
    using t assms(1,3) by (auto simp: remote_files_def Let_def split: op_type.splits)
  with assms(3,4) t(2) show ?thesis
    by (auto simp: apply_remote_cases has_applied_def cursor_recv_value)
qed

theorem stale_operation_is_recorded_not_applied_witness:
  "snd (apply_remote (example_op [2] 2 ''f'' [9] [([2], 1)]) Apply (example_db ''f'' [7] [([1], 1)])) \<noteq> Inr Apply"
proof -
  have "load_row (example_db ''f'' [7] [([1], 1)]) (o_path (example_op [2] 2 ''f'' [9] [([2], 1)])) =
      Some \<lparr>r_path = ''f'', r_content_hash = Some [7], r_mode = 420, r_size = 1, r_tombstone = False,
        r_vv = [([1], 1)], r_uuid = None, r_meta = None\<rparr>"
    by (simp add: example_db_def example_op_def)
  from stale_operation_is_recorded_not_applied [OF this]
  show ?thesis using example_concurrent by (auto simp: example_op_def has_applied_def example_db_def vv_compare_iffs)
qed

lemma held_copy_row:
  assumes "distinct (map p_path staged)" "\<forall>r \<in> set staged. p_path r \<noteq> p \<longrightarrow> is_copy X r"
    and "copy_held X (row_lookup X d) staged cp" "cp \<noteq> p"
  shows "\<exists>r. load_row (fold commit_planned staged d) cp = Some r \<and> vv_le (copy_vv X cp) (r_vv r)"
proof (cases "cp \<in> p_path ` set staged")
  case True
  then obtain r where r: "r \<in> set staged" "p_path r = cp" by auto
  with assms(2,4) have "vv_le (copy_vv X cp) (p_vv r)" by (auto simp: is_copy_def)
  with load_committed [OF r(1) assms(1), of d] r(2) show ?thesis by (simp add: planned_file_def)
next
  case False
  with assms(3) obtain ex where "row_lookup X d cp = Inr (Some ex)" "vv_le (copy_vv X cp) (v_vv ex)"
    by (auto simp: copy_held_def)
  then show ?thesis using load_uncommitted [OF False, of d] by (auto simp: row_lookup_def from_row_def)
qed

lemma example_candidates:
  "resolution_candidates plain_crates ''f'' (example_version [2] [8])
     \<lparr>r_path = ''f'', r_content_hash = Some [7], r_mode = 420, r_size = 1, r_tombstone = False,
        r_vv = [([1], 1)], r_uuid = None, r_meta = None\<rparr> (example_db ''f'' [7] [([1], 1)])
   = [example_version [2] [8], example_version [1] [7]]"
  by (simp add: resolution_candidates_def ops_as_candidates_def example_db_def vv_merge_all_def example_version_def
      example_concurrent from_row_def hash_of_def vv_new_def Let_def)

lemma example_candidates':
  "resolution_candidates plain_crates ''f'' (example_version [1] [7])
     \<lparr>r_path = ''f'', r_content_hash = Some [8], r_mode = 420, r_size = 1, r_tombstone = False,
        r_vv = [([2], 1)], r_uuid = None, r_meta = None\<rparr> (example_db ''f'' [8] [([2], 1)])
   = [example_version [1] [7], example_version [2] [8]]"
  by (simp add: resolution_candidates_def ops_as_candidates_def example_db_def vv_merge_all_def example_version_def
      example_concurrent from_row_def hash_of_def vv_new_def Let_def)

lemma example_plan:
  "\<exists>rows. rows \<noteq> [] \<and> plan_candidates plain_crates ''f'' [example_version [2] [8], example_version [1] [7]]
     (row_lookup plain_crates (example_db ''f'' [7] [([1], 1)])) = Inr (Some rows)"
proof -
  let ?cs = "[example_version [2] [8], example_version [1] [7]]"
  have "set ?cs = {example_version [1] [7], example_version [2] [8]}" by auto
  then have "set (antichain ?cs) \<noteq> {}" using antichain_set(1) [of ?cs] example_history example_maximal by simp
  then have "antichain ?cs \<noteq> []" by auto
  then have "\<exists>rows. rows \<noteq> [] \<and> plan_candidates plain_crates ''f'' ?cs (\<lambda>_. Inr None :: store_error + version option) = Inr (Some rows)"
    by (intro plan_fresh) simp_all
  moreover have "plan_candidates plain_crates ''f'' ?cs (row_lookup plain_crates (example_db ''f'' [7] [([1], 1)])) =
      plan_candidates plain_crates ''f'' ?cs (\<lambda>_. Inr None)"
    by (rule plan_lookup_cong) (auto simp: row_lookup_def example_db_def)
  ultimately show ?thesis by (simp only:)
qed

lemma example_stale:
  "\<exists>derived. resolve_rows plain_crates ''f'' (example_version [2] [8]) [] (example_db ''f'' [7] [([1], 1)]) =
     (example_db ''f'' [7] [([1], 1)], Inr (Stale derived))"
  using example_plan example_candidates
  by (auto simp: resolve_rows_def Let_def example_db_def decide_def row_local_def example_concurrent example_version_def)

lemma example_resolves:
  "\<exists>staged d'. resolve_rows plain_crates ''f'' (example_version [2] [8]) staged (example_db ''f'' [7] [([1], 1)]) = (d', Inr Resolved)"
  using example_stale resolve_retry by blast

text \<open>
  C20. Resolution settles the conflict: once \<open>resolve_rows\<close> reports success, the remote
  version is covered by the path's row, and for every losing version with content there
  is a row at its copy path that includes the copy event.
\<close>

theorem resolve_settles_conflict:
  assumes "files_ok (t_files d)" "log_vvs_ok d" "vv_ok (v_vv remote)"
    and "resolve_rows X p remote staged d = (d', Inr Resolved)"
  shows "decide (load_file d' p) (v_vv remote) = Ignore \<and>
    (\<exists>l w ls. load_row d p = Some l \<and> antichain (resolution_candidates X p remote l d) = w # ls
       \<and> (\<forall>v \<in> set ls. \<forall>h. v_content_hash v = Some h \<longrightarrow> version_key v \<noteq> version_key w \<longrightarrow>
            (\<exists>r. load_row d' (loser_copy_path X p v h) = Some r
                 \<and> vv_le (copy_vv X (loser_copy_path X p v h)) (r_vv r))))"
proof -
  from assms(4) obtain l w ls new where l: "load_row d p = Some l" "d' = fold commit_planned staged d"
    and ac: "antichain (resolution_candidates X p remote l d) = w # ls"
    and staged: "staged = winner_row p (resolution_candidates X p remote l d) (w # ls) w # new"
      "distinct (map p_path staged)" and cov: "\<forall>r \<in> set staged. row_covers (row_lookup X d) r"
    and copies: "\<forall>r \<in> set new. is_copy X r"
    and held: "\<forall>l \<in> set ls. \<forall>h. v_content_hash l = Some h \<longrightarrow> version_key l \<noteq> version_key w \<longrightarrow>
       copy_held X (row_lookup X d) staged (copy_path_for X p h (naming_hash X (v_meta l)))"
    by (rule resolve_rows_Resolved [OF assms(1-3)])
  have "\<exists>r. load_row d' cp = Some r \<and> vv_le (copy_vv X cp) (r_vv r)"
    if cp: "copy_held X (row_lookup X d) staged cp" "cp \<noteq> p" for cp
    unfolding l(2) using staged copies cp by (intro held_copy_row) auto
  then show ?thesis
    using resolve_settles [OF assms] l(1) ac held copy_path_neq by (auto simp: loser_copy_path_def)
qed

theorem resolve_settles_conflict_witness:
  "\<exists>staged d'. resolve_rows plain_crates ''f'' (example_version [2] [8]) staged (example_db ''f'' [7] [([1], 1)]) = (d', Inr Resolved)
     \<and> decide (load_file d' ''f'') [([2], 1)] = Ignore"
proof -
  let ?d = "example_db ''f'' [7] [([1], 1)]" and ?v = "example_version [2] [8]"
  have ok: "files_ok (t_files ?d)" "log_vvs_ok ?d" "vv_ok (v_vv ?v)"
    by (simp_all add: example_db_ok) (simp add: example_version_def)
  obtain staged d' where "resolve_rows plain_crates ''f'' ?v staged ?d = (d', Inr Resolved)"
    using example_resolves by blast
  with resolve_settles_conflict [OF ok this] show ?thesis by (auto simp: example_version_def)
qed

text \<open>
  Resolution retries settle: when the staged plan is stale, nothing is committed, and
  presenting the plan it returned, against the same database, commits it.
\<close>

theorem resolve_stale_then_resolved:
  assumes "resolve_rows X p remote staged d = (d', Inr (Stale derived))"
  shows "d' = d \<and> snd (resolve_rows X p remote derived d) = Inr Resolved"
  using resolve_retry [OF assms] by simp

theorem resolve_stale_then_resolved_witness:
  "\<exists>derived. snd (resolve_rows plain_crates ''f'' (example_version [2] [8]) derived (example_db ''f'' [7] [([1], 1)])) = Inr Resolved"
proof -
  obtain derived where "resolve_rows plain_crates ''f'' (example_version [2] [8]) [] (example_db ''f'' [7] [([1], 1)]) =
      (example_db ''f'' [7] [([1], 1)], Inr (Stale derived))" using example_stale by blast
  from resolve_stale_then_resolved [OF this] show ?thesis by blast
qed

text \<open>
  The planner's indexing never panics the store thread, and on a well-formed
  database resolution reports no error at all: it commits, or says why not.
\<close>

theorem resolve_never_fails:
  assumes "files_ok (t_files d)"
  shows "\<exists>outcome. snd (resolve_rows X p remote staged d) = Inr outcome"
  using resolve_no_panic [OF assms] by (metis sum.exhaust)

theorem resolve_never_fails_witness:
  "\<exists>outcome. snd (resolve_rows plain_crates ''f'' (example_version [2] [8]) [] (example_db ''f'' [7] [([1], 1)])) = Inr outcome"
  by (rule resolve_never_fails) (simp add: example_db_ok)

text \<open>
  Replicas agree: two nodes that resolve the same path from the same set of candidate
  versions, and hold the same rows at longer paths, accept exactly the same plan,
  whatever order the versions reached them in.
\<close>

theorem resolutions_agree:
  assumes "load_row d p = Some l" "load_row e p = Some k"
    and "decide (Some (row_local l)) (v_vv r) = DConcurrent" "decide (Some (row_local k)) (v_vv s) = DConcurrent"
    and "set (resolution_candidates X p r l d) = set (resolution_candidates X p s k e)"
    and "one_history (set (resolution_candidates X p r l d))"
    and "tie_coherent (maximal_in (set (resolution_candidates X p r l d)))"
    and "\<And>q. length p < length q \<Longrightarrow> load_row d q = load_row e q"
  shows "snd (resolve_rows X p r staged d) = snd (resolve_rows X p s staged e)"
proof -
  have "plan_candidates X p (resolution_candidates X p r l d) (row_lookup X d) =
      plan_candidates X p (resolution_candidates X p r l d) (row_lookup X e)"
    by (rule plan_lookup_cong) (simp add: row_lookup_def assms(8))
  also have "\<dots> = plan_candidates X p (resolution_candidates X p s k e) (row_lookup X e)"
    by (rule plan_is_set_function) (use assms in auto)
  finally show ?thesis
    using assms(1-4) by (auto simp: resolve_rows_def split: option.splits sum.splits plan_fault.splits)
qed

theorem resolutions_agree_witness:
  "snd (resolve_rows plain_crates ''f'' (example_version [2] [8]) [] (example_db ''f'' [7] [([1], 1)])) =
   snd (resolve_rows plain_crates ''f'' (example_version [1] [7]) [] (example_db ''f'' [8] [([2], 1)]))"
proof (rule resolutions_agree)
  let ?row = "\<lambda>h n. \<lparr>r_path = ''f'', r_content_hash = Some h, r_mode = 420, r_size = 1, r_tombstone = False,
        r_vv = [(n, 1)], r_uuid = None, r_meta = None\<rparr>"
  show "load_row (example_db ''f'' [7] [([1], 1)]) ''f'' = Some (?row [7] [1])"
    "load_row (example_db ''f'' [8] [([2], 1)]) ''f'' = Some (?row [8] [2])" by (simp_all add: example_db_def)
  show "decide (Some (row_local (?row [7] [1]))) (v_vv (example_version [2] [8])) = DConcurrent"
    "decide (Some (row_local (?row [8] [2]))) (v_vv (example_version [1] [7])) = DConcurrent"
    by (simp_all add: decide_def row_local_def example_version_def example_concurrent)
  have c1: "resolution_candidates plain_crates ''f'' (example_version [2] [8]) (?row [7] [1]) (example_db ''f'' [7] [([1], 1)])
      = [example_version [2] [8], example_version [1] [7]]"
    and c2: "resolution_candidates plain_crates ''f'' (example_version [1] [7]) (?row [8] [2]) (example_db ''f'' [8] [([2], 1)])
      = [example_version [1] [7], example_version [2] [8]]"
    by (simp_all add: example_candidates example_candidates')
  show "set (resolution_candidates plain_crates ''f'' (example_version [2] [8]) (?row [7] [1]) (example_db ''f'' [7] [([1], 1)])) =
      set (resolution_candidates plain_crates ''f'' (example_version [1] [7]) (?row [8] [2]) (example_db ''f'' [8] [([2], 1)]))"
    unfolding c1 c2 by auto
  have two: "set [example_version [2] [8], example_version [1] [7]] = {example_version [1] [7], example_version [2] [8]}" by auto
  show "one_history (set (resolution_candidates plain_crates ''f'' (example_version [2] [8]) (?row [7] [1]) (example_db ''f'' [7] [([1], 1)])))"
    unfolding c1 two by (rule example_history)
  show "tie_coherent (maximal_in (set (resolution_candidates plain_crates ''f'' (example_version [2] [8]) (?row [7] [1]) (example_db ''f'' [7] [([1], 1)]))))"
    unfolding c1 two example_maximal by (auto simp: tie_coherent_def example_version_def version_key_def)
qed (auto simp: example_db_def)

end
