(* ===== verification/Store_Handle.thy ===== *)
theory Store_Handle
  imports Store_Laws
begin

text \<open>
  The handle the rest of the daemon holds (\<open>Store\<close> in \<open>src/oplog.rs\<close>).  Every method
  sends one command to the store thread and waits for its reply: it is one
  \<open>store_step\<close>, with the reply unpacked.  A thread that panicked has closed the
  channel, and the handle reports \<open>Gone\<close>.  Reads cannot fail on typed tables, so their
  result is the value itself.
\<close>

definition store_append_local ::
  "crates \<Rightarrow> node_id \<Rightarrow> local_change \<Rightarrow> store \<Rightarrow> store \<times> (store_error + op_record option)" where
  "store_append_local X node change s =
     (let (s', r) = store_step X node (AppendLocal change) s in (s', case r of ROp x \<Rightarrow> x | _ \<Rightarrow> Inl Gone))"

definition store_append_local_rename ::
  "crates \<Rightarrow> node_id \<Rightarrow> path \<Rightarrow> path \<Rightarrow> store \<Rightarrow> store \<times> (store_error + op_record option)" where
  "store_append_local_rename X node old_path new_path s =
     (let (s', r) = store_step X node (AppendLocalRename old_path new_path) s
      in (s', case r of ROp x \<Rightarrow> x | _ \<Rightarrow> Inl Gone))"

definition store_apply_remote ::
  "crates \<Rightarrow> node_id \<Rightarrow> op_record \<Rightarrow> decision \<Rightarrow> store \<Rightarrow> store \<times> (store_error + decision)" where
  "store_apply_remote X node op dec s =
     (let (s', r) = store_step X node (ApplyRemote op dec) s in (s', case r of RDecision x \<Rightarrow> x | _ \<Rightarrow> Inl Gone))"

definition store_load_file :: "crates \<Rightarrow> node_id \<Rightarrow> path \<Rightarrow> store \<Rightarrow> local_file option" where
  "store_load_file X node p s = (case snd (store_step X node (LoadFile p) s) of RLocal x \<Rightarrow> x | _ \<Rightarrow> None)"

definition store_has_applied :: "crates \<Rightarrow> node_id \<Rightarrow> hash32 \<Rightarrow> store \<Rightarrow> bool" where
  "store_has_applied X node i s = (case snd (store_step X node (HasApplied i) s) of RBool x \<Rightarrow> x | _ \<Rightarrow> False)"

definition store_ops_since :: "crates \<Rightarrow> node_id \<Rightarrow> node_id \<Rightarrow> i64 \<Rightarrow> nat \<Rightarrow> store \<Rightarrow> op_record list" where
  "store_ops_since X node origin after_seq limit s =
     (case snd (store_step X node (OpsSince origin after_seq limit) s) of ROps x \<Rightarrow> x | _ \<Rightarrow> [])"

definition store_recv_cursor :: "crates \<Rightarrow> node_id \<Rightarrow> node_id \<Rightarrow> store \<Rightarrow> i64" where
  "store_recv_cursor X node peer s = (case snd (store_step X node (RecvCursor peer) s) of RSeq x \<Rightarrow> x | _ \<Rightarrow> 0)"

definition store_advance_ack :: "crates \<Rightarrow> node_id \<Rightarrow> node_id \<Rightarrow> i64 \<Rightarrow> store \<Rightarrow> store" where
  "store_advance_ack X node peer up_to_seq s = fst (store_step X node (AdvanceAck peer up_to_seq) s)"

definition store_last_acked :: "crates \<Rightarrow> node_id \<Rightarrow> node_id \<Rightarrow> store \<Rightarrow> i64" where
  "store_last_acked X node peer s = (case snd (store_step X node (LastAcked peer) s) of RSeq x \<Rightarrow> x | _ \<Rightarrow> 0)"

definition store_live_files :: "crates \<Rightarrow> node_id \<Rightarrow> store \<Rightarrow> live_file list" where
  "store_live_files X node s = (case snd (store_step X node LiveFiles s) of RLive x \<Rightarrow> x | _ \<Rightarrow> [])"

definition store_all_files :: "crates \<Rightarrow> node_id \<Rightarrow> store \<Rightarrow> file_row list" where
  "store_all_files X node s = (case snd (store_step X node AllFiles s) of RRows x \<Rightarrow> x | _ \<Rightarrow> [])"

definition store_path_for_hash :: "crates \<Rightarrow> node_id \<Rightarrow> hash32 \<Rightarrow> store \<Rightarrow> path option" where
  "store_path_for_hash X node h s = (case snd (store_step X node (PathForHash h) s) of RPath x \<Rightarrow> x | _ \<Rightarrow> None)"

definition store_op_count :: "crates \<Rightarrow> node_id \<Rightarrow> store \<Rightarrow> i64" where
  "store_op_count X node s = (case snd (store_step X node OpCount s) of RSeq x \<Rightarrow> x | _ \<Rightarrow> 0)"

definition store_put_manifest :: "crates \<Rightarrow> node_id \<Rightarrow> manifest \<Rightarrow> store \<Rightarrow> store" where
  "store_put_manifest X node m s = fst (store_step X node (PutManifest m) s)"

definition store_manifest_for :: "crates \<Rightarrow> node_id \<Rightarrow> hash32 \<Rightarrow> store \<Rightarrow> manifest option" where
  "store_manifest_for X node h s = (case snd (store_step X node (ManifestFor h) s) of RManifest x \<Rightarrow> x | _ \<Rightarrow> None)"

definition resolve_fault :: "resolve_error \<Rightarrow> store_error" where
  "resolve_fault e = (case e of StoreErr x \<Rightarrow> x | Panicked \<Rightarrow> Gone)"

definition store_resolve_rows ::
  "crates \<Rightarrow> node_id \<Rightarrow> path \<Rightarrow> version \<Rightarrow> planned_row list \<Rightarrow> store \<Rightarrow> store \<times> (store_error + resolve_outcome)" where
  "store_resolve_rows X node p remote staged s =
     (let (s', r) = store_step X node (ResolveRows p remote staged) s
      in (s', case r of RResolve (Inr x) \<Rightarrow> Inr x | RResolve (Inl e) \<Rightarrow> Inl (resolve_fault e) | _ \<Rightarrow> Inl Gone))"

definition store_load_row :: "crates \<Rightarrow> node_id \<Rightarrow> path \<Rightarrow> store \<Rightarrow> file_row option" where
  "store_load_row X node p s = (case snd (store_step X node (LoadRow p) s) of RRow x \<Rightarrow> x | _ \<Rightarrow> None)"

definition store_reconcile_upsert ::
  "crates \<Rightarrow> node_id \<Rightarrow> reconciled_row \<Rightarrow> store \<Rightarrow> store \<times> (store_error + decision)" where
  "store_reconcile_upsert X node row s =
     (let (s', r) = store_step X node (ReconcileUpsert row) s in (s', case r of RDecision x \<Rightarrow> x | _ \<Rightarrow> Inl Gone))"

definition store_snapshot_for_join :: "crates \<Rightarrow> node_id \<Rightarrow> store \<Rightarrow> join_snapshot option" where
  "store_snapshot_for_join X node s =
     (case snd (store_step X node SnapshotForJoin s) of RSnapshot x \<Rightarrow> Some x | _ \<Rightarrow> None)"

definition store_advance_recv_cursor :: "crates \<Rightarrow> node_id \<Rightarrow> node_id \<Rightarrow> node_id \<Rightarrow> i64 \<Rightarrow> store \<Rightarrow> store" where
  "store_advance_recv_cursor X node peer origin up_to_seq s =
     fst (store_step X node (AdvanceRecvCursor peer origin up_to_seq) s)"

definition store_get_meta :: "crates \<Rightarrow> node_id \<Rightarrow> string \<Rightarrow> store \<Rightarrow> string option" where
  "store_get_meta X node k s = (case snd (store_step X node (GetMeta k) s) of RText x \<Rightarrow> x | _ \<Rightarrow> None)"

definition store_set_meta :: "crates \<Rightarrow> node_id \<Rightarrow> string \<Rightarrow> string \<Rightarrow> store \<Rightarrow> store" where
  "store_set_meta X node k v s = fst (store_step X node (SetMeta k v) s)"

subsection \<open>What the methods compute\<close>

lemma store_reads [simp]:
  "store_load_file X node p s = load_file (s_db s) p"
  "store_has_applied X node i s = has_applied (s_db s) i"
  "store_ops_since X node origin n limit s = ops_since (s_db s) origin n limit"
  "store_recv_cursor X node peer s = cursor_value cu_recv_cursor peer peer (s_db s)"
  "store_last_acked X node peer s = cursor_value cu_last_acked_seq peer node (s_db s)"
  "store_live_files X node s = live_files (s_db s)"
  "store_all_files X node s = all_files (s_db s)"
  "store_path_for_hash X node h s = path_for_hash (s_db s) h"
  "store_op_count X node s = op_count (s_db s)"
  "store_manifest_for X node h s = manifest_for (s_db s) h"
  "store_load_row X node p s = load_row (s_db s) p"
  "store_snapshot_for_join X node s = Some (snapshot_for_join (s_db s))"
  "store_get_meta X node k s = get_meta (s_db s) k"
  by (simp_all add: store_load_file_def store_has_applied_def store_ops_since_def store_recv_cursor_def
      store_last_acked_def store_live_files_def store_all_files_def store_path_for_hash_def store_op_count_def
      store_manifest_for_def store_load_row_def store_snapshot_for_join_def store_get_meta_def)

lemma store_advances [simp]:
  "store_advance_ack X node peer n s = s\<lparr>s_db := advance_ack peer node n (s_db s)\<rparr>"
  "store_put_manifest X node m s = s\<lparr>s_db := put_manifest m (s_db s)\<rparr>"
  "store_advance_recv_cursor X node peer origin n s = s\<lparr>s_db := advance_recv_cursor peer origin n (s_db s)\<rparr>"
  "store_set_meta X node k v s = s\<lparr>s_db := set_meta k v (s_db s)\<rparr>"
  by (simp_all add: store_advance_ack_def store_put_manifest_def store_advance_recv_cursor_def store_set_meta_def)

lemma store_writes:
  "store_append_local X node c s =
     (let (d, r) = append_local X node c (s_db s)
      in (s\<lparr>s_db := d, s_latest := notify_latest r (s_latest s)\<rparr>, r))"
  "store_append_local_rename X node old new s =
     (let (d, r) = append_local_rename X node old new (s_db s)
      in (s\<lparr>s_db := d, s_latest := notify_latest r (s_latest s)\<rparr>, r))"
  "store_apply_remote X node op dec s = (let (d, r) = apply_remote op dec (s_db s) in (s\<lparr>s_db := d\<rparr>, r))"
  "store_reconcile_upsert X node row s =
     (let (d, e) = reconcile_upsert row (s_db s) in (s\<lparr>s_db := d\<rparr>, Inr e))"
  "store_resolve_rows X node p remote staged s =
     (let (d, r) = resolve_rows X p remote staged (s_db s)
      in (s\<lparr>s_db := d\<rparr>, case r of Inr x \<Rightarrow> Inr x | Inl e \<Rightarrow> Inl (resolve_fault e)))"
  by (simp_all add: store_append_local_def store_append_local_rename_def store_apply_remote_def
      store_reconcile_upsert_def store_resolve_rows_def case_prod_unfold Let_def)

text \<open>A method call is one turn of the store thread, so it keeps what every turn keeps.\<close>

lemma handle_turns:
  "fst (store_append_local X node c s) = fst (store_step X node (AppendLocal c) s)"
  "fst (store_append_local_rename X node old new s) = fst (store_step X node (AppendLocalRename old new) s)"
  "fst (store_apply_remote X node op dec s) = fst (store_step X node (ApplyRemote op dec) s)"
  "fst (store_reconcile_upsert X node row s) = fst (store_step X node (ReconcileUpsert row) s)"
  "fst (store_resolve_rows X node p remote staged s) = fst (store_step X node (ResolveRows p remote staged) s)"
  by (simp_all add: store_append_local_def store_append_local_rename_def store_apply_remote_def
      store_reconcile_upsert_def store_resolve_rows_def case_prod_unfold Let_def)

end
