(* ===== verification/Replica.thy ===== *)
theory Replica
  imports Store_Handle
begin

text \<open>
  One node with its store and an abstract file system (\<open>src/replica.rs\<close>): the receive
  path, the conflict-resolution loop and the anti-entropy pass, with the file system a
  map from paths to content hashes.  Each operation returns the new replica and its
  result.  The theory shows that no operation separates the file system from the index.
\<close>

type_synonym fake_fs = "(path, hash32) btree"

definition fs_write :: "path \<Rightarrow> hash32 \<Rightarrow> fake_fs \<Rightarrow> fake_fs" where "fs_write p h fs = bt_insert p h fs"
definition fs_delete :: "path \<Rightarrow> fake_fs \<Rightarrow> fake_fs" where "fs_delete p fs = bt_remove p fs"

definition op_version :: "crates \<Rightarrow> op_record \<Rightarrow> version" where
  "op_version X op =
     \<lparr>v_tombstone = (o_op_type op = Delete), v_content_hash = o_content_hash op,
      v_meta_hash = hash_of X (o_meta op), v_meta = o_meta op, v_mode = o_mode op, v_size = o_size op,
      v_vv = o_vv op, v_uuid = o_uuid op\<rparr>"

definition rename_source_version :: "op_record \<Rightarrow> version" where
  "rename_source_version op =
     \<lparr>v_tombstone = True, v_content_hash = None, v_meta_hash = META_NONE, v_meta = None, v_mode = 0,
      v_size = 0, v_vv = o_vv op, v_uuid = o_uuid op\<rparr>"

record replica =
  rp_node :: node_id
  rp_store :: store
  rp_fs :: fake_fs

definition replica_new :: "crates \<Rightarrow> node_id \<Rightarrow> replica" where
  "replica_new X node = \<lparr>rp_node = node, rp_store = open_store X node empty_db, rp_fs = []\<rparr>"

subsection \<open>Local changes\<close>

definition replica_append :: "crates \<Rightarrow> local_change \<Rightarrow> replica \<Rightarrow> replica \<times> (store_error + op_record option)" where
  "replica_append X change r =
     (let (s, res) = store_append_local X (rp_node r) change (rp_store r) in (r\<lparr>rp_store := s\<rparr>, res))"

definition local_write :: "crates \<Rightarrow> path \<Rightarrow> bytes \<Rightarrow> replica \<Rightarrow> replica \<times> (store_error + op_record option)" where
  "local_write X p content r =
     (let h = blake3 X content
      in replica_append X
           \<lparr>lc_path = p, lc_op_type = Write, lc_mode = 420, lc_size = of_nat (length content),
            lc_content_hash = Some h, lc_meta = None, lc_manifest = None\<rparr>
           (r\<lparr>rp_fs := fs_write p h (rp_fs r)\<rparr>))"

definition mode_meta :: "u32 \<Rightarrow> meta" where
  "mode_meta mode = \<lparr>m_kind = Regular, m_mode = mode, m_uid = 0, m_gid = 0, m_mtime_s = 0, m_mtime_ns = 0,
     m_symlink_target = None, m_rdev = 0, m_xattrs = []\<rparr>"

definition local_write_with_mode ::
  "crates \<Rightarrow> path \<Rightarrow> bytes \<Rightarrow> u32 \<Rightarrow> replica \<Rightarrow> replica \<times> (store_error + op_record option)" where
  "local_write_with_mode X p content mode r =
     (let h = blake3 X content
      in replica_append X
           \<lparr>lc_path = p, lc_op_type = Write, lc_mode = mode, lc_size = of_nat (length content),
            lc_content_hash = Some h, lc_meta = Some (mode_meta mode), lc_manifest = None\<rparr>
           (r\<lparr>rp_fs := fs_write p h (rp_fs r)\<rparr>))"

definition local_delete :: "crates \<Rightarrow> path \<Rightarrow> replica \<Rightarrow> replica \<times> (store_error + op_record option)" where
  "local_delete X p r =
     replica_append X
       \<lparr>lc_path = p, lc_op_type = Delete, lc_mode = 420, lc_size = 0, lc_content_hash = None,
        lc_meta = None, lc_manifest = None\<rparr>
       (r\<lparr>rp_fs := fs_delete p (rp_fs r)\<rparr>)"

definition local_rename :: "crates \<Rightarrow> path \<Rightarrow> path \<Rightarrow> replica \<Rightarrow> replica \<times> (store_error + op_record option)" where
  "local_rename X old new r =
     (let fs = (case bt_get (rp_fs r) old of
                  Some h \<Rightarrow> fs_write new h (fs_delete old (rp_fs r))
                | None \<Rightarrow> rp_fs r);
          (s, res) = store_append_local_rename X (rp_node r) old new (rp_store r)
      in (r\<lparr>rp_store := s, rp_fs := fs\<rparr>, res))"

subsection \<open>Following the index\<close>

definition sync_fs_from_row :: "crates \<Rightarrow> path \<Rightarrow> replica \<Rightarrow> replica" where
  "sync_fs_from_row X p r =
     (case store_load_file X (rp_node r) p (rp_store r) of
        Some row \<Rightarrow>
          if lf_tombstone row then r\<lparr>rp_fs := fs_delete p (rp_fs r)\<rparr>
          else (case lf_content_hash row of
                  Some h \<Rightarrow> r\<lparr>rp_fs := fs_write p h (rp_fs r)\<rparr>
                | None \<Rightarrow> r)
      | None \<Rightarrow> r\<lparr>rp_fs := fs_delete p (rp_fs r)\<rparr>)"

definition mirror_row :: "fake_fs \<Rightarrow> file_row \<Rightarrow> fake_fs" where
  "mirror_row fs row =
     (case r_content_hash row of
        Some h \<Rightarrow> if \<not> r_tombstone row then fs_write (r_path row) h fs else fs_delete (r_path row) fs
      | None \<Rightarrow> fs_delete (r_path row) fs)"

text \<open>\<open>str::contains\<close>.\<close>

fun str_contains :: "string \<Rightarrow> string \<Rightarrow> bool" where
  "str_contains [] pat \<longleftrightarrow> pat = []"
| "str_contains (c # cs) pat \<longleftrightarrow> take (length pat) (c # cs) = pat \<or> str_contains cs pat"

text \<open>
  The resolution loop: the rounds left, the plan staged so far.  The flag of the result
  says whether the committed rows are mirrored to the file system.
\<close>

fun resolve_loop ::
  "crates \<Rightarrow> node_id \<Rightarrow> nat \<Rightarrow> path \<Rightarrow> version \<Rightarrow> planned_row list \<Rightarrow> store \<Rightarrow> store \<times> (store_error + bool)" where
  "resolve_loop X node 0 p remote plan s = (s, Inr True)"
| "resolve_loop X node (Suc n) p remote plan s =
     (let (s', res) = store_resolve_rows X node p remote plan s
      in case res of
           Inl e \<Rightarrow> (s', Inl e)
         | Inr Resolved \<Rightarrow> (s', Inr True)
         | Inr (Stale fresh) \<Rightarrow> resolve_loop X node n p remote fresh s'
         | Inr (NotConcurrent _) \<Rightarrow> (s', Inr False)
         | Inr Unresolvable \<Rightarrow> (s', Inr False))"

definition resolve_conflict :: "crates \<Rightarrow> path \<Rightarrow> version \<Rightarrow> replica \<Rightarrow> replica \<times> (store_error + unit)" where
  "resolve_conflict X p remote r =
     (let (s, res) = resolve_loop X (rp_node r) 5 p remote [] (rp_store r)
      in case res of
           Inl e \<Rightarrow> (r\<lparr>rp_store := s\<rparr>, Inl e)
         | Inr False \<Rightarrow> (r\<lparr>rp_store := s\<rparr>, Inr ())
         | Inr True \<Rightarrow>
             (r\<lparr>rp_store := s,
                rp_fs := foldl mirror_row (rp_fs r)
                  (filter (\<lambda>row. r_path row = p \<or> str_contains (r_path row) COPY_MARKER)
                    (store_all_files X (rp_node r) s))\<rparr>, Inr ()))"

subsection \<open>Receiving an operation\<close>

text \<open>The file-system effect of a decision to apply.\<close>

definition apply_effect :: "crates \<Rightarrow> op_record \<Rightarrow> replica \<Rightarrow> fake_fs" where
  "apply_effect X op r =
     (case o_op_type op of
        Write \<Rightarrow> (case o_content_hash op of Some h \<Rightarrow> fs_write (o_path op) h (rp_fs r) | None \<Rightarrow> rp_fs r)
      | Delete \<Rightarrow> fs_delete (o_path op) (rp_fs r)
      | Rename \<Rightarrow>
          (let fs = (case o_content_hash op of Some h \<Rightarrow> fs_write (o_path op) h (rp_fs r) | None \<Rightarrow> rp_fs r)
           in case o_path_old op of
                Some old_rel \<Rightarrow>
                  if decide (store_load_file X (rp_node r) old_rel (rp_store r)) (o_vv op) = Apply
                  then fs_delete old_rel fs else fs
              | None \<Rightarrow> fs))"

text \<open>The repair of a path whose row turned out not to be dominated after all.\<close>

definition repair_downgrade :: "crates \<Rightarrow> op_record \<Rightarrow> replica \<Rightarrow> replica" where
  "repair_downgrade X op r =
     (case store_load_file X (rp_node r) (o_path op) (rp_store r) of
        Some row \<Rightarrow>
          if lf_tombstone row then r\<lparr>rp_fs := fs_delete (o_path op) (rp_fs r)\<rparr>
          else (case lf_content_hash row of
                  Some h \<Rightarrow> r\<lparr>rp_fs := fs_write (o_path op) h (rp_fs r)\<rparr>
                | None \<Rightarrow> r)
      | None \<Rightarrow> r\<lparr>rp_fs := fs_delete (o_path op) (rp_fs r)\<rparr>)"

definition rename_post :: "crates \<Rightarrow> op_record \<Rightarrow> path \<Rightarrow> replica \<Rightarrow> replica \<times> (store_error + unit)" where
  "rename_post X op old_rel r =
     (case decide (store_load_file X (rp_node r) old_rel (rp_store r)) (o_vv op) of
        Ignore \<Rightarrow> (sync_fs_from_row X old_rel r, Inr ())
      | Apply \<Rightarrow> (sync_fs_from_row X old_rel r, Inr ())
      | DConcurrent \<Rightarrow> resolve_conflict X old_rel (rename_source_version op) (sync_fs_from_row X old_rel r)
      | Quarantined \<Rightarrow> (r, Inr ()))"

text \<open>The result \<open>None\<close>: a duplicate, dropped.\<close>

definition receive_finish ::
  "crates \<Rightarrow> op_record \<Rightarrow> decision \<Rightarrow> decision \<Rightarrow> replica \<Rightarrow> replica \<times> (store_error + decision option)" where
  "receive_finish X op dec effective r =
     (case (o_op_type op, o_path_old op) of
        (Rename, Some old_rel) \<Rightarrow>
          if dec = Quarantined then (r, Inr (Some effective))
          else (case rename_post X op old_rel r of
                  (r', Inl e) \<Rightarrow> (r', Inl e)
                | (r', Inr _) \<Rightarrow> (r', Inr (Some effective)))
      | _ \<Rightarrow> (r, Inr (Some effective)))"

definition receive_commit ::
  "crates \<Rightarrow> op_record \<Rightarrow> decision \<Rightarrow> replica \<Rightarrow> replica \<times> (store_error + decision option)" where
  "receive_commit X op dec r =
     (let (s, res) = store_apply_remote X (rp_node r) op dec (rp_store r); r1 = r\<lparr>rp_store := s\<rparr>
      in case res of
           Inl e \<Rightarrow> (r1, Inl e)
         | Inr effective \<Rightarrow>
             if dec = Apply \<and> effective \<noteq> Apply
             then let r2 = repair_downgrade X op r1
                  in if effective = DConcurrent
                     then (case resolve_conflict X (o_path op) (op_version X op) r2 of
                             (r3, Inl e) \<Rightarrow> (r3, Inl e)
                           | (r3, Inr _) \<Rightarrow> receive_finish X op dec effective r3)
                     else receive_finish X op dec effective r2
             else receive_finish X op dec effective r1)"

definition receive :: "crates \<Rightarrow> op_record \<Rightarrow> replica \<Rightarrow> replica \<times> (store_error + decision option)" where
  "receive X op r =
     (if store_has_applied X (rp_node r) (o_op_id op) (rp_store r) then (r, Inr None)
      else let dec = decide (store_load_file X (rp_node r) (o_path op) (rp_store r)) (o_vv op);
               r1 = (if dec = Apply then r\<lparr>rp_fs := apply_effect X op r\<rparr> else r)
           in if dec = DConcurrent
              then (case resolve_conflict X (o_path op) (op_version X op) r1 of
                      (r2, Inl e) \<Rightarrow> (r2, Inl e)
                    | (r2, Inr _) \<Rightarrow> receive_commit X op dec r2)
              else receive_commit X op dec r1)"

subsection \<open>Anti-entropy\<close>

definition reconcile_row :: "crates \<Rightarrow> file_row \<Rightarrow> replica \<Rightarrow> replica \<times> (store_error + unit)" where
  "reconcile_row X row r =
     (case decide (store_load_file X (rp_node r) (r_path row) (rp_store r)) (r_vv row) of
        Apply \<Rightarrow>
          (let (s, res) = store_reconcile_upsert X (rp_node r)
                 \<lparr>rr_path = r_path row, rr_content_hash = r_content_hash row, rr_mode = r_mode row,
                  rr_size = r_size row, rr_vv = r_vv row, rr_tombstone = r_tombstone row,
                  rr_uuid = r_uuid row, rr_meta = r_meta row\<rparr> (rp_store r)
           in case res of
                Inl e \<Rightarrow> (r\<lparr>rp_store := s\<rparr>, Inl e)
              | Inr effective \<Rightarrow>
                  (if effective = Apply
                   then r\<lparr>rp_store := s, rp_fs := mirror_row (rp_fs r) row\<rparr>
                   else r\<lparr>rp_store := s\<rparr>, Inr ()))
      | DConcurrent \<Rightarrow> resolve_conflict X (r_path row) (from_row X row) r
      | Ignore \<Rightarrow> (r, Inr ())
      | Quarantined \<Rightarrow> (r, Inr ()))"

fun reconcile_from :: "crates \<Rightarrow> file_row list \<Rightarrow> replica \<Rightarrow> replica \<times> (store_error + unit)" where
  "reconcile_from X [] r = (r, Inr ())"
| "reconcile_from X (row # rows) r =
     (case reconcile_row X row r of
        (r', Inl e) \<Rightarrow> (r', Inl e)
      | (r', Inr _) \<Rightarrow> reconcile_from X rows r')"

definition replica_snapshot :: "crates \<Rightarrow> replica \<Rightarrow> file_row list" where
  "replica_snapshot X r = store_all_files X (rp_node r) (rp_store r)"

text \<open>The live rows of the index with their content, and the assertion that the file system holds exactly these.\<close>

definition live_index :: "file_row list \<Rightarrow> fake_fs" where
  "live_index rows =
     foldl (\<lambda>m (p, h). bt_insert p h m) []
       (List.map_filter (\<lambda>row. map_option (\<lambda>h. (r_path row, h)) (r_content_hash row))
         (filter (\<lambda>row. \<not> r_tombstone row) rows))"

definition fs_matches_index :: "crates \<Rightarrow> replica \<Rightarrow> bool" where
  "fs_matches_index X r \<longleftrightarrow> rp_fs r = live_index (replica_snapshot X r)"

datatype replica_event =
    LocalWrite path bytes
  | LocalWriteMode path bytes u32
  | LocalDelete path
  | LocalRename path path
  | Receive op_record
  | ReconcileFrom "file_row list"

definition replica_step :: "crates \<Rightarrow> replica_event \<Rightarrow> replica \<Rightarrow> replica" where
  "replica_step X ev r = (case ev of
      LocalWrite p content \<Rightarrow> fst (local_write X p content r)
    | LocalWriteMode p content mode \<Rightarrow> fst (local_write_with_mode X p content mode r)
    | LocalDelete p \<Rightarrow> fst (local_delete X p r)
    | LocalRename old new \<Rightarrow> fst (local_rename X old new r)
    | Receive op \<Rightarrow> fst (receive X op r)
    | ReconcileFrom rows \<Rightarrow> fst (reconcile_from X rows r))"

end
