(* ===== verification/Replica_Laws.thy ===== *)
theory Replica_Laws
  imports Replica
begin

text \<open>
  The replica keeps its file system and its index together, whatever happens to it.  The
  plan of a conflict touches the conflicting path and marked copy names only, and every
  live row it commits has content; from this follow the resolution loop, the receive path
  and the anti-entropy pass, and by the contract of growing stores all runs of events.
\<close>

subsection \<open>Copy names carry the marker, copy rows carry content\<close>

lemma str_contains_iff: "str_contains s pat \<longleftrightarrow> (\<exists>a b. s = a @ pat @ b)"
proof (induction s)
  case Nil
  then show ?case by simp
next
  case (Cons c cs)
  show ?case
  proof
    assume "str_contains (c # cs) pat"
    then consider "take (length pat) (c # cs) = pat" | "\<exists>a b. cs = a @ pat @ b" using Cons by auto
    then show "\<exists>a b. c # cs = a @ pat @ b"
    proof cases
      case 1
      then have "c # cs = [] @ pat @ drop (length pat) (c # cs)" by (metis append_Nil append_take_drop_id)
      then show ?thesis by blast
    next
      case 2
      then show ?thesis by (metis append_Cons)
    qed
  next
    assume "\<exists>a b. c # cs = a @ pat @ b"
    then obtain a b where ab: "c # cs = a @ pat @ b" by blast
    show "str_contains (c # cs) pat"
    proof (cases a)
      case Nil
      with ab have "take (length pat) (c # cs) = pat" by (metis append_Nil append_eq_conv_conj)
      then show ?thesis by simp
    next
      case (Cons x a')
      with ab have "cs = a' @ pat @ b" by simp
      with Cons.IH show ?thesis by auto
    qed
  qed
qed

abbreviation marked :: "path \<Rightarrow> bool" where "marked p \<equiv> str_contains p COPY_MARKER"

lemma copy_path_marked [simp]: "marked (copy_path_for X p h m)"
  unfolding str_contains_iff copy_path_for_def Let_def
  by (auto split: option.splits prod.splits) (metis append.assoc)+

text \<open>A version or planned row that is live has content.\<close>

definition full_version :: "version \<Rightarrow> bool" where
  "full_version v \<longleftrightarrow> v_tombstone v \<or> v_content_hash v \<noteq> None"

definition full_plan :: "planned_row \<Rightarrow> bool" where
  "full_plan r \<longleftrightarrow> p_tombstone r \<or> p_content_hash r \<noteq> None"

definition full_lookup :: "'e lookup \<Rightarrow> bool" where
  "full_lookup lookup \<longleftrightarrow> (\<forall>q v. lookup q = Inr (Some v) \<longrightarrow> full_version v)"

lemma nested_winner_full:
  assumes "antichain [ex, as_copy X cp c] = [w, l]" "full_version ex" "v_content_hash c \<noteq> None"
  shows "v_content_hash w \<noteq> None"
proof -
  have k: "version_key l \<le> version_key w" using antichain_head_max [of _ w "[l]" l] assms(1) by simp
  have "set [w, l] \<subseteq> {ex, as_copy X cp c}"
    unfolding assms(1) [symmetric] antichain_def
    by (auto simp: antichain_step_def Let_def split: ord3.splits prod.splits if_splits)
  then consider "w = as_copy X cp c" | "w = ex" "l = as_copy X cp c" | "w = ex" "l = ex" by auto
  then show ?thesis
  proof cases
    case 1
    with assms(3) show ?thesis by (simp add: as_copy_def)
  next
    case 2
    with k assms(2) show ?thesis
      by (auto simp: version_key_def full_version_def as_copy_def less_eq_prod_def split: if_splits)
  next
    case 3
    have "distinct (antichain [ex, as_copy X cp c]) \<or> ex = as_copy X cp c"
      by (auto simp: antichain_def antichain_step_def Let_def split: ord3.splits prod.splits if_splits)
    with 3 assms(1,3) show ?thesis by (auto simp: as_copy_def)
  qed
qed

lemma antichain_scan_subset: "set (fst (antichain_scan c ks)) \<subseteq> set ks"
  by (induction ks) (auto split: ord3.splits prod.splits)

lemma antichain_subset: "set (antichain cs) \<subseteq> set cs"
proof -
  have "set (foldl antichain_step keep cs) \<subseteq> set keep \<union> set cs" for keep
  proof (induction cs arbitrary: keep)
    case (Cons c cs)
    have "set (antichain_step keep c) \<subseteq> insert c (set keep)"
      using antichain_scan_subset [of c keep] by (cases "antichain_scan c keep") (auto simp: antichain_step_def)
    with Cons [of "antichain_step keep c"] show ?case by auto
  qed simp
  from this [of "[]"] show ?thesis by (simp add: antichain_def)
qed

abbreviation good_copy :: "planned_row \<Rightarrow> bool" where
  "good_copy r \<equiv> marked (p_path r) \<and> p_content_hash r \<noteq> None"

lemma plan_chain_good:
  assumes "full_lookup lookup"
  shows "plan_chain X lookup n rows cp c = Inr (Some rows') \<Longrightarrow> marked cp \<Longrightarrow> v_content_hash c \<noteq> None \<Longrightarrow>
     \<exists>new. rows' = rows @ new \<and> (\<forall>r \<in> set new. good_copy r)"
proof (induction n arbitrary: rows cp c)
  case 0
  then show ?case by simp
next
  case (Suc n)
  show ?case
  proof (cases "(\<exists>r \<in> set rows. p_path r = cp) \<or>
      (\<forall>ex. lookup cp = Inr (Some ex) \<longrightarrow> vv_compare (copy_vv X cp) (v_vv ex) \<noteq> Concurrent)")
    case True
    with Suc.prems show ?thesis
      by (auto simp: copy_row_def split: if_splits sum.splits option.splits ord3.splits)
  next
    case False
    then obtain ex where ex: "\<not> (\<exists>r \<in> set rows. p_path r = cp)" "lookup cp = Inr (Some ex)"
      "vv_compare (copy_vv X cp) (v_vv ex) = Concurrent" by auto
    then have "vv_compare (v_vv (as_copy X cp c)) (v_vv ex) = Concurrent" by (simp add: as_copy_def)
    from antichain_concurrent_pair [OF this] obtain w l where
      wl: "antichain [ex, as_copy X cp c] = [w, l]" by blast
    let ?rows = "rows @ [nested_row X cp ex w l]"
    have good: "good_copy (nested_row X cp ex w l)"
      using nested_winner_full [OF wl] assms ex(2) Suc.prems(2,3)
      by (auto simp: nested_row_def Let_def full_lookup_def)
    show ?thesis
    proof (cases "\<exists>lh. v_content_hash l = Some lh \<and> version_key l \<noteq> version_key w")
      case True
      then obtain lh where lh: "v_content_hash l = Some lh" "version_key l \<noteq> version_key w" by blast
      let ?cp = "copy_path_for X cp lh (naming_hash X (v_meta l))"
      have "plan_chain X lookup n ?rows ?cp l = Inr (Some rows')"
        using Suc.prems(1) ex wl lh by (auto simp: Let_def)
      then obtain new where "rows' = ?rows @ new" "\<forall>r \<in> set new. good_copy r"
        using Suc.IH [of ?rows ?cp l] lh by auto
      with good show ?thesis by (intro exI [of _ "nested_row X cp ex w l # new"]) simp
    next
      case no: False
      then have "rows' = ?rows"
        using Suc.prems(1) ex wl by (auto simp: Let_def split: option.splits)
      with good show ?thesis by simp
    qed
  qed
qed

lemma plan_losers_good:
  assumes "full_lookup lookup"
  shows "plan_losers X lookup p wkey rows ls = Inr (Some rows') \<Longrightarrow>
     \<exists>new. rows' = rows @ new \<and> (\<forall>r \<in> set new. good_copy r)"
proof (induction ls arbitrary: rows)
  case Nil
  then show ?case by simp
next
  case (Cons l ls)
  show ?case
  proof (cases "\<exists>h. v_content_hash l = Some h \<and> version_key l \<noteq> wkey")
    case False
    then have "plan_losers X lookup p wkey rows ls = Inr (Some rows')"
      using Cons.prems by (auto split: option.splits)
    then show ?thesis by (rule Cons.IH)
  next
    case True
    then obtain h rows1 where h: "v_content_hash l = Some h" and
      c: "plan_chain X lookup MAX_COPY_DEPTH rows (copy_path_for X p h (naming_hash X (v_meta l))) l = Inr (Some rows1)"
      and r: "plan_losers X lookup p wkey rows1 ls = Inr (Some rows')"
      using Cons.prems by (auto split: sum.splits option.splits)
    obtain n1 where "rows1 = rows @ n1" "\<forall>r \<in> set n1. good_copy r"
      using plan_chain_good [OF assms c] h by auto
    moreover obtain n2 where "rows' = rows1 @ n2" "\<forall>r \<in> set n2. good_copy r" using Cons.IH [OF r] by auto
    ultimately show ?thesis by (intro exI [of _ "n1 @ n2"]) auto
  qed
qed

lemma plan_good:
  assumes "full_lookup lookup" "plan_candidates X p cs lookup = Inr (Some rows)"
  obtains w new where "w \<in> set cs" "rows = winner_row p cs (antichain cs) w # new" "\<forall>r \<in> set new. good_copy r"
proof (cases "antichain cs")
  case Nil
  with assms(2) show thesis by (simp add: plan_candidates_def)
next
  case (Cons w ls)
  have "plan_losers X lookup p (version_key w) [winner_row p cs (antichain cs) w] ls = Inr (Some rows)"
    using assms(2) Cons by (simp add: plan_candidates_def)
  from plan_losers_good [OF assms(1) this] obtain new where
    new: "rows = winner_row p cs (antichain cs) w # new" "\<forall>r \<in> set new. good_copy r" by auto
  have "set (antichain cs) \<subseteq> set cs" by (rule antichain_subset)
  with Cons new that show thesis by auto
qed

subsection \<open>The content of the index\<close>

definition row_content :: "db \<Rightarrow> path \<Rightarrow> hash32 option" where
  "row_content d p = (case load_row d p of Some r \<Rightarrow> if r_tombstone r then None else r_content_hash r | None \<Rightarrow> None)"

lemma live_index_fold:
  assumes "distinct (map fst t)" "\<forall>(p, r) \<in> set t. r_path r = p"
  shows "bt_get (foldl (\<lambda>m (p, h). bt_insert p h m) m
      (List.map_filter (\<lambda>row. map_option (\<lambda>h. (r_path row, h)) (r_content_hash row))
         (filter (\<lambda>row. \<not> r_tombstone row) (map snd t)))) p =
    (case map_of t p of Some r \<Rightarrow> if r_tombstone r \<or> r_content_hash r = None then bt_get m p else r_content_hash r
     | None \<Rightarrow> bt_get m p)"
  using assms
proof (induction t arbitrary: m)
  case (Cons e t)
  obtain q r where e: "e = (q, r)" by fastforce
  with Cons.prems have notin: "map_of t q = None" by (auto simp: map_of_eq_None_iff)
  from Cons.prems have IH: "\<And>m. bt_get (foldl (\<lambda>m (p, h). bt_insert p h m) m
      (List.map_filter (\<lambda>row. map_option (\<lambda>h. (r_path row, h)) (r_content_hash row))
         (filter (\<lambda>row. \<not> r_tombstone row) (map snd t)))) p =
    (case map_of t p of Some r \<Rightarrow> if r_tombstone r \<or> r_content_hash r = None then bt_get m p else r_content_hash r
     | None \<Rightarrow> bt_get m p)" by (intro Cons.IH) auto
  have qr: "r_path r = q" using Cons.prems(2) e by auto
  show ?case
    using IH notin
    by (cases "p = q"; cases "r_tombstone r"; cases "r_content_hash r")
       (auto simp: e qr List.map_filter_simps bt_get_insert split: option.splits)
qed (simp add: List.map_filter_simps)

lemma live_index_get:
  assumes "files_ok (t_files d)"
  shows "bt_get (live_index (all_files d)) p = row_content d p"
proof -
  have "distinct (map fst (t_files d))" "\<forall>(p, r) \<in> set (t_files d). r_path r = p"
    using assms by (auto simp: files_ok_def bt_ok_distinct)
  from live_index_fold [OF this, of "[]"] show ?thesis
    by (auto simp: live_index_def all_files_def bt_values_def row_content_def load_row_def bt_get_def split: option.splits)
qed

lemma live_index_ok: "bt_ok (live_index rows)"
proof -
  have "bt_ok m \<Longrightarrow> bt_ok (foldl (\<lambda>m (p, h). bt_insert p h m) m xs)" for m :: fake_fs and xs
    by (induction xs arbitrary: m) (auto intro: bt_ok_insert)
  then show ?thesis by (simp add: live_index_def)
qed

abbreviation rp_db :: "replica \<Rightarrow> db" where "rp_db r \<equiv> s_db (rp_store r)"

definition fs_synced :: "replica \<Rightarrow> bool" where
  "fs_synced r \<longleftrightarrow> bt_ok (rp_fs r) \<and> (\<forall>p. bt_get (rp_fs r) p = row_content (rp_db r) p)"

lemma fs_matches_iff:
  "files_ok (t_files (rp_db r)) \<Longrightarrow> fs_matches_index X r \<longleftrightarrow> fs_synced r"
  by (auto simp: fs_matches_index_def replica_snapshot_def fs_synced_def live_index_get live_index_ok
      intro!: bt_canonical)

text \<open>Live rows and logged writes carry content.\<close>

definition full_rows :: "db \<Rightarrow> bool" where
  "full_rows d \<longleftrightarrow> (\<forall>p r. load_row d p = Some r \<longrightarrow> r_tombstone r \<or> r_content_hash r \<noteq> None)"

definition full_log :: "db \<Rightarrow> bool" where
  "full_log d \<longleftrightarrow> (\<forall>op \<in> set (t_oplog d). o_op_type op = Delete \<or> o_content_hash op \<noteq> None)"

definition op_sane :: "op_record \<Rightarrow> bool" where
  "op_sane op \<longleftrightarrow> vv_ok (o_vv op) \<and> (o_op_type op = Delete \<or> o_content_hash op \<noteq> None)
     \<and> (o_op_type op = Rename \<longrightarrow> o_path_old op \<noteq> None)"

definition replica_ok :: "replica \<Rightarrow> bool" where
  "replica_ok r \<longleftrightarrow> store_ok (rp_node r) (rp_store r) \<and> full_rows (rp_db r) \<and> full_log (rp_db r)"

lemma replica_ok_db:
  assumes "replica_ok r"
  shows "files_ok (t_files (rp_db r))" "log_vvs_ok (rp_db r)" "db_ok (rp_node r) (rp_db r)"
    "full_rows (rp_db r)" "full_log (rp_db r)"
  using assms by (auto simp: replica_ok_def store_ok_def db_ok_def)

lemma full_lookup_rows: "full_rows d \<Longrightarrow> full_lookup (row_lookup X d)"
  by (force simp: full_lookup_def row_lookup_def full_rows_def full_version_def from_row_def)

lemma candidates_full:
  assumes "full_rows d" "full_log d" "full_version remote" "load_row d p = Some l"
  shows "\<forall>c \<in> set (resolution_candidates X p remote l d). full_version c"
  using assms
  by (auto simp: resolution_candidates_def Let_def ops_as_candidates_def op_as_candidate_def full_version_def
      full_log_def full_rows_def from_row_def split: ord3.splits)

subsection \<open>The resolution loop\<close>

lemma resolve_stale:
  assumes "resolve_rows X p remote staged d = (d', Inr (Stale plan))"
  shows "d' = d" "resolve_rows X p remote plan d = (fold commit_planned plan d, Inr Resolved)"
  using assms by (auto simp: resolve_rows_def Let_def split: if_splits option.splits sum.splits plan_fault.splits)

lemma resolve_empty_not_resolved: "snd (resolve_rows X p remote [] d) \<noteq> Inr Resolved"
proof
  assume "snd (resolve_rows X p remote [] d) = Inr Resolved"
  then obtain l where "plan_candidates X p (resolution_candidates X p remote l d) (row_lookup X d) = Inr (Some [])"
    by (auto simp: resolve_rows_def Let_def split: if_splits option.splits sum.splits plan_fault.splits)
  moreover have "plan_losers X lk p k (r # rows) ls \<noteq> Inr (Some [])" for lk :: "store_error lookup" and k r rows ls
  proof (induction ls arbitrary: rows)
    case (Cons l ls)
    have chain: "plan_chain X lk n (r # rows) cp c = Inr (Some rows') \<Longrightarrow> \<exists>rs. rows' = r # rs" for n rows cp c rows'
      by (induction n arbitrary: rows cp c)
        (auto simp: Let_def split: if_splits sum.splits option.splits ord3.splits list.splits)
    show ?case
      using Cons chain by (auto split: option.splits sum.splits) blast
  qed simp
  ultimately show False
    by (cases "antichain (resolution_candidates X p remote l d)") (simp_all add: plan_candidates_def Let_def)
qed

lemma resolve_loop_two:
  "resolve_loop X node (Suc (Suc n)) p remote [] s =
     (case resolve_rows X p remote [] (s_db s) of
        (d, Inr (Stale plan)) \<Rightarrow> (s\<lparr>s_db := fold commit_planned plan (s_db s)\<rparr>, Inr True)
      | (d, Inr _) \<Rightarrow> (s, Inr False)
      | (d, Inl e) \<Rightarrow> (s, Inl (resolve_fault e)))"
proof -
  obtain d res where r: "resolve_rows X p remote [] (s_db s) = (d, res)" by fastforce
  have nr: "res \<noteq> Inr Resolved" using resolve_empty_not_resolved [of X p remote "s_db s"] r by simp
  have same: "d = s_db s" using resolve_rows_idle [OF r nr] .
  show ?thesis
  proof (cases "\<exists>plan. res = Inr (Stale plan)")
    case True
    then obtain plan where p: "res = Inr (Stale plan)" by blast
    with r resolve_stale(2) [of X p remote "[]" "s_db s" d plan] same show ?thesis
      by (simp add: store_writes Let_def)
  next
    case False
    with nr r same show ?thesis
      by (auto simp: store_writes Let_def split: sum.splits resolve_outcome.splits)
  qed
qed

lemma mirror_get:
  "bt_get (mirror_row fs row) p =
     (if p = r_path row then (if r_tombstone row then None else r_content_hash row) else bt_get fs p)"
  by (auto simp: mirror_row_def fs_write_def fs_delete_def bt_get_simps split: option.splits)

lemma mirror_ok: "bt_ok fs \<Longrightarrow> bt_ok (mirror_row fs row)"
  by (auto simp: mirror_row_def fs_write_def fs_delete_def bt_ok_insert bt_ok_remove split: option.splits)

lemma mirror_fold_ok: "bt_ok fs \<Longrightarrow> bt_ok (foldl mirror_row fs rows)"
  by (induction rows arbitrary: fs) (auto intro: mirror_ok)

lemma mirror_fold:
  assumes "distinct (map fst t)" "\<forall>(p, r) \<in> set t. r_path r = p"
  shows "bt_get (foldl mirror_row fs (filter (\<lambda>row. P (r_path row)) (map snd t))) p =
     (case map_of t p of
        Some r \<Rightarrow> if P p then (if r_tombstone r then None else r_content_hash r) else bt_get fs p
      | None \<Rightarrow> bt_get fs p)"
  using assms
proof (induction t arbitrary: fs)
  case (Cons e t)
  obtain q r where e: "e = (q, r)" by fastforce
  with Cons.prems have notin: "map_of t q = None" by (auto simp: map_of_eq_None_iff)
  have qr: "r_path r = q" using Cons.prems(2) e by auto
  from Cons have "\<And>fs. bt_get (foldl mirror_row fs (filter (\<lambda>row. P (r_path row)) (map snd t))) p =
     (case map_of t p of
        Some r \<Rightarrow> if P p then (if r_tombstone r then None else r_content_hash r) else bt_get fs p
      | None \<Rightarrow> bt_get fs p)" by auto
  with notin qr show ?case by (cases "p = q") (auto simp: e mirror_get split: option.splits)
qed simp

lemma mirror_index:
  assumes "files_ok (t_files d)"
  shows "bt_get (foldl mirror_row fs (filter (\<lambda>row. P (r_path row)) (all_files d))) p =
     (if P p \<and> load_row d p \<noteq> None then row_content d p else bt_get fs p)"
proof -
  have "distinct (map fst (t_files d))" "\<forall>(p, r) \<in> set (t_files d). r_path r = p"
    using assms by (auto simp: files_ok_def bt_ok_distinct)
  from mirror_fold [OF this] show ?thesis
    by (auto simp: all_files_def bt_values_def row_content_def load_row_def bt_get_def split: option.splits)
qed

text \<open>What a committed resolution does to the index.\<close>

lemma resolved_index:
  assumes "files_ok (t_files d)" "log_vvs_ok d" "full_rows d" "full_log d" "vv_ok (v_vv remote)" "full_version remote"
    and "resolve_rows X p remote plan d = (d', Inr Resolved)"
  shows "full_rows d'" "t_oplog d' = t_oplog d" "q \<noteq> p \<Longrightarrow> \<not> marked q \<Longrightarrow> load_row d' q = load_row d q"
proof -
  from assms(7) obtain l where l: "load_row d p = Some l"
    and plan: "plan_candidates X p (resolution_candidates X p remote l d) (row_lookup X d) = Inr (Some plan)"
    and d': "d' = fold commit_planned plan d"
    by (auto simp: resolve_rows_def Let_def split: if_splits option.splits sum.splits plan_fault.splits)
  let ?cs = "resolution_candidates X p remote l d"
  obtain w new where w: "w \<in> set ?cs" "plan = winner_row p ?cs (antichain ?cs) w # new" "\<forall>r \<in> set new. good_copy r"
    using plan_good [OF full_lookup_rows [OF assms(3)] plan] .
  have full: "\<forall>c \<in> set ?cs. full_version c" using candidates_full [OF assms(3,4,6) l] .
  have dist: "distinct (map p_path plan)"
    by (rule resolve_rows_Resolved [OF assms(1,2,5,7)])
  have rows: "\<forall>r \<in> set plan. full_plan r"
    using w full by (auto simp: full_plan_def full_version_def)
  show "t_oplog d' = t_oplog d" by (simp add: d')
  show "full_rows d'"
    unfolding full_rows_def
  proof (intro allI impI)
    fix q r assume r: "load_row d' q = Some r"
    show "r_tombstone r \<or> r_content_hash r \<noteq> None"
    proof (cases "q \<in> p_path ` set plan")
      case True
      then obtain pr where "pr \<in> set plan" "q = p_path pr" by blast
      with load_committed [OF _ dist, of pr d] r rows show ?thesis
        by (auto simp: d' planned_file_def full_plan_def)
    next
      case False
      with r load_uncommitted assms(3) show ?thesis by (metis d' full_rows_def)
    qed
  qed
  assume "q \<noteq> p" "\<not> marked q"
  with w have "q \<notin> p_path ` set plan" by auto
  then show "load_row d' q = load_row d q" unfolding d' by (rule load_uncommitted)
qed

text \<open>What every event keeps: a well-formed replica, the file system as the index says, and the history of every row.\<close>

definition good_step :: "replica \<Rightarrow> replica \<Rightarrow> bool" where
  "good_step r r' \<longleftrightarrow> replica_ok r' \<and> fs_synced r' \<and> rp_node r' = rp_node r \<and> grows (rp_db r) (rp_db r')"

lemma good_step_refl: "replica_ok r \<Longrightarrow> fs_synced r \<Longrightarrow> good_step r r"
  by (simp add: good_step_def)

lemma good_step_trans: "good_step r r' \<Longrightarrow> good_step r' r'' \<Longrightarrow> good_step r r''"
  by (auto simp: good_step_def intro: grows_trans)

lemma good_step_from:
  "good_step r' r'' \<Longrightarrow> rp_node r' = rp_node r \<Longrightarrow> grows (rp_db r) (rp_db r') \<Longrightarrow> good_step r r''"
  by (auto simp: good_step_def intro: grows_trans)

lemma resolve_conflict_ok:
  assumes "replica_ok r" "fs_synced r" "vv_ok (v_vv remote)" "full_version remote"
  shows "good_step r (fst (resolve_conflict X p remote r))"
    "t_oplog (rp_db (fst (resolve_conflict X p remote r))) = t_oplog (rp_db r)"
    "t_applied (rp_db (fst (resolve_conflict X p remote r))) = t_applied (rp_db r)"
    "q \<noteq> p \<Longrightarrow> \<not> marked q \<Longrightarrow> load_row (rp_db (fst (resolve_conflict X p remote r))) q = load_row (rp_db r) q"
proof -
  let ?r = "fst (resolve_conflict X p remote r)"
  note db = replica_ok_db [OF assms(1)]
  have "good_step r ?r \<and> t_oplog (rp_db ?r) = t_oplog (rp_db r)
      \<and> t_applied (rp_db ?r) = t_applied (rp_db r)
      \<and> (q \<noteq> p \<longrightarrow> \<not> marked q \<longrightarrow> load_row (rp_db ?r) q = load_row (rp_db r) q)"
  proof (cases "\<exists>d plan. resolve_rows X p remote [] (rp_db r) = (d, Inr (Stale plan))")
    case False
    then have "?r = r"
      using resolve_loop_two [of X "rp_node r" 3 p remote "rp_store r"]
      by (auto simp: resolve_conflict_def Let_def numeral_eq_Suc split: prod.splits sum.splits resolve_outcome.splits)
    with assms show ?thesis by (simp add: good_step_refl)
  next
    case True
    then obtain d plan where st: "resolve_rows X p remote [] (rp_db r) = (d, Inr (Stale plan))" by blast
    let ?d = "fold commit_planned plan (rp_db r)"
    have res: "resolve_rows X p remote plan (rp_db r) = (?d, Inr Resolved)" using resolve_stale(2) [OF st] .
    have r: "?r = r\<lparr>rp_store := (rp_store r)\<lparr>s_db := ?d\<rparr>,
        rp_fs := foldl mirror_row (rp_fs r) (filter (\<lambda>row. r_path row = p \<or> marked (r_path row)) (all_files ?d))\<rparr>"
      using resolve_loop_two [of X "rp_node r" 3 p remote "rp_store r"] st
      by (simp add: resolve_conflict_def Let_def numeral_eq_Suc)
    have "store_ok (rp_node r) (fst (store_step X (rp_node r) (ResolveRows p remote plan) (rp_store r)))"
      using store_step_ok [of "rp_node r" "rp_store r" X "ResolveRows p remote plan"] assms(1,3)
      by (simp add: replica_ok_def)
    then have sok: "store_ok (rp_node r) ((rp_store r)\<lparr>s_db := ?d\<rparr>)" by (simp add: res)
    then have fok: "files_ok (t_files ?d)" by (simp add: store_ok_def db_ok_def)
    note idx = resolved_index [OF db(1,2,4,5) assms(3,4) res]
    have ok: "replica_ok ?r" using sok idx(1,2) db(5) by (simp add: replica_ok_def r full_log_def)
    have "bt_get (rp_fs ?r) x = row_content (rp_db ?r) x" for x
    proof (cases "x = p \<or> marked x")
      case True
      have "load_row ?d x = None \<Longrightarrow> load_row (rp_db r) x = None"
        using resolve_rows_grows [OF db(1,2) assms(3), of X p plan] res
        by (auto simp: grows_def) (metis not_Some_eq option.distinct(1))
      with True assms(2) show ?thesis
        unfolding r by (auto simp: mirror_index [OF fok, of _ "\<lambda>x. x = p \<or> marked x"] fs_synced_def row_content_def)
    next
      case False
      with idx(3) [of x] assms(2) show ?thesis
        unfolding r by (auto simp: mirror_index [OF fok, of _ "\<lambda>x. x = p \<or> marked x"] fs_synced_def row_content_def)
    qed
    with assms(2) have "fs_synced ?r"
      using mirror_fold_ok by (simp add: fs_synced_def r)
    moreover have "grows (rp_db r) ?d" using resolve_rows_grows [OF db(1,2) assms(3), of X p plan] res by simp
    ultimately show ?thesis using ok idx(2,3) by (simp add: r good_step_def)
  qed
  then show "good_step r ?r" "t_oplog (rp_db ?r) = t_oplog (rp_db r)"
    "t_applied (rp_db ?r) = t_applied (rp_db r)"
    "q \<noteq> p \<Longrightarrow> \<not> marked q \<Longrightarrow> load_row (rp_db ?r) q = load_row (rp_db r) q" by simp_all
qed

subsection \<open>Every event keeps file system and index together\<close>

text \<open>The file system agrees with the index, except perhaps at one path.\<close>

definition synced_off :: "path \<Rightarrow> replica \<Rightarrow> bool" where
  "synced_off p r \<longleftrightarrow> bt_ok (rp_fs r) \<and> (\<forall>q. q \<noteq> p \<longrightarrow> bt_get (rp_fs r) q = row_content (rp_db r) q)"

lemma synced_off_synced: "fs_synced r \<longleftrightarrow> synced_off p r \<and> bt_get (rp_fs r) p = row_content (rp_db r) p"
  by (auto simp: fs_synced_def synced_off_def)

lemma fs_updates [simp]:
  "bt_get (fs_write p h fs) q = (if q = p then Some h else bt_get fs q)"
  "bt_get (fs_delete p fs) q = (if q = p then None else bt_get fs q)"
  "bt_ok fs \<Longrightarrow> bt_ok (fs_write p h fs)" "bt_ok fs \<Longrightarrow> bt_ok (fs_delete p fs)"
  by (simp_all add: fs_write_def fs_delete_def bt_get_simps bt_ok_insert bt_ok_remove)

lemma full_rowsD: "full_rows d \<Longrightarrow> load_row d p = Some r \<Longrightarrow> \<not> r_tombstone r \<Longrightarrow> \<exists>h. r_content_hash r = Some h"
  by (force simp: full_rows_def)

lemma sync_frame [simp]:
  "rp_store (sync_fs_from_row X p r) = rp_store r" "rp_node (sync_fs_from_row X p r) = rp_node r"
  by (auto simp: sync_fs_from_row_def split: option.splits)

lemma sync_restores:
  assumes "full_rows (rp_db r)" "synced_off p r"
  shows "fs_synced (sync_fs_from_row X p r)"
proof -
  have "bt_get (rp_fs (sync_fs_from_row X p r)) q = (if q = p then row_content (rp_db r) p else bt_get (rp_fs r) q)" for q
    using full_rowsD [OF assms(1), of p]
    by (auto simp: sync_fs_from_row_def load_file_row row_content_def row_local_def split: option.splits)
  moreover have "bt_ok (rp_fs (sync_fs_from_row X p r))"
    using assms(2) by (auto simp: sync_fs_from_row_def synced_off_def split: option.splits)
  ultimately show ?thesis using assms(2) by (simp add: fs_synced_def synced_off_def)
qed

lemma no_op_content:
  assumes "append_local X node c d = (d', res)" "\<forall>op. res \<noteq> Inr (Some op)" "lc_op_type c \<noteq> Rename" "lc_manifest c = None"
    and "lc_op_type c = Delete \<or> lc_content_hash c \<noteq> None"
  shows "row_content d (lc_path c) = (if lc_op_type c = Delete then None else lc_content_hash c)"
  using assms
  by (auto simp: append_local_def append_commit_def Let_def row_content_def
      split: op_type.splits option.splits if_splits)

lemma replica_append_ok:
  assumes ok: "replica_ok r" and room: "append_room X (rp_node r) (rp_db r)"
    and c: "lc_op_type c \<noteq> Rename" "lc_manifest c = None" "lc_op_type c = Delete \<or> lc_content_hash c \<noteq> None"
    and fs: "synced_off (lc_path c) r" "bt_get (rp_fs r) (lc_path c) = (if lc_op_type c = Delete then None else lc_content_hash c)"
  shows "good_step r (fst (replica_append X c r))"
proof -
  obtain d' res where a: "append_local X (rp_node r) c (rp_db r) = (d', res)" by fastforce
  let ?s = "(rp_store r)\<lparr>s_db := d', s_latest := notify_latest res (s_latest (rp_store r))\<rparr>"
  have r: "fst (replica_append X c r) = r\<lparr>rp_store := ?s\<rparr>"
    using a by (simp add: replica_append_def store_writes Let_def)
  have sok: "store_ok (rp_node r) ?s" and gr: "grows (rp_db r) d'"
    using store_step_ok [of "rp_node r" "rp_store r" X "AppendLocal c"] ok room a
    by (simp_all add: replica_ok_def Let_def)
  show ?thesis
  proof (cases "\<exists>op. res = Inr (Some op)")
    case True
    then obtain op where op: "append_commit X (rp_node r) c (load_row (rp_db r) (lc_path c)) (rp_db r) = (d', Inr (Some op))"
      using append_local_ok(1) a by blast
    note facts = append_commit_ok [OF op]
    have content: "o_content_hash op = lc_content_hash c"
      using op by (auto simp: append_commit_def Let_def split: option.splits if_splits)
    have rows: "load_row d' q = (if q = lc_path c then load_row d' (lc_path c) else load_row (rp_db r) q)" for q
      using facts(5) [of q] by simp
    have "full_rows d'"
      unfolding full_rows_def
    proof (intro allI impI)
      fix q row assume "load_row d' q = Some row"
      then show "r_tombstone row \<or> r_content_hash row \<noteq> None"
        using facts(4) rows [of q] c(3) replica_ok_db(4) [OF ok]
        by (cases "q = lc_path c") (auto simp: full_rows_def)
    qed
    moreover have "full_log d'"
      using facts(2,9) content c(3) replica_ok_db(5) [OF ok] by (auto simp: full_log_def insert_op_def)
    moreover have "row_content d' q = (if q = lc_path c then (if lc_op_type c = Delete then None else lc_content_hash c)
        else row_content (rp_db r) q)" for q
      using facts(4) rows [of q] by (auto simp: row_content_def)
    ultimately show ?thesis
      using sok gr fs by (auto simp: r good_step_def replica_ok_def fs_synced_def synced_off_def)
  next
    case False
    then have "d' = rp_db r" using append_local_idle [OF a] by blast
    with False no_op_content [OF a _ c] sok ok fs show ?thesis
      by (auto simp: r good_step_def replica_ok_def synced_off_synced [of _ "lc_path c"] synced_off_def)
  qed
qed

lemma local_rename_ok:
  assumes ok: "replica_ok r" and synced: "fs_synced r" and room: "append_room X (rp_node r) (rp_db r)"
  shows "good_step r (fst (local_rename X old new r))"
proof -
  obtain d' res where a: "append_local_rename X (rp_node r) old new (rp_db r) = (d', res)" by fastforce
  let ?s = "(rp_store r)\<lparr>s_db := d', s_latest := notify_latest res (s_latest (rp_store r))\<rparr>"
  let ?fs = "case bt_get (rp_fs r) old of Some h \<Rightarrow> fs_write new h (fs_delete old (rp_fs r)) | None \<Rightarrow> rp_fs r"
  have r: "fst (local_rename X old new r) = r\<lparr>rp_store := ?s, rp_fs := ?fs\<rparr>"
    using a by (simp add: local_rename_def store_writes Let_def)
  have sok: "store_ok (rp_node r) ?s" and gr: "grows (rp_db r) d'"
    using store_step_ok [of "rp_node r" "rp_store r" X "AppendLocalRename old new"] ok room a
    by (simp_all add: replica_ok_def Let_def)
  have fsok: "bt_ok ?fs" using synced by (auto simp: fs_synced_def split: option.splits)
  have old: "bt_get (rp_fs r) old = row_content (rp_db r) old" using synced by (simp add: fs_synced_def)
  show ?thesis
  proof (cases "\<exists>op. res = Inr (Some op)")
    case True
    then obtain op where op: "append_local_rename X (rp_node r) old new (rp_db r) = (d', Inr (Some op))" using a by blast
    then obtain src where src: "old \<noteq> new" "load_row (rp_db r) old = Some src" "\<not> r_tombstone src"
      and log: "t_oplog d' = t_oplog (insert_op op (rp_db r))"
      and rows: "load_row d' old = Some \<lparr>r_path = old, r_content_hash = None, r_mode = 0, r_size = 0, r_tombstone = True,
          r_vv = o_vv op, r_uuid = o_uuid op, r_meta = None\<rparr>"
        "load_row d' new = Some \<lparr>r_path = new, r_content_hash = r_content_hash src, r_mode = r_mode src,
          r_size = r_size src, r_tombstone = False, r_vv = o_vv op, r_uuid = o_uuid op, r_meta = r_meta src\<rparr>"
        "\<And>q. q \<noteq> old \<Longrightarrow> q \<noteq> new \<Longrightarrow> load_row d' q = load_row (rp_db r) q"
      by (rule append_rename_ok) auto
    obtain h where h: "r_content_hash src = Some h" using full_rowsD [OF replica_ok_db(4) [OF ok]] src by blast
    have "o_content_hash op = r_content_hash src"
      using op src by (auto simp: append_local_rename_def Let_def)
    then have "full_log d'" using log h replica_ok_db(5) [OF ok] by (auto simp: full_log_def insert_op_def)
    moreover have "full_rows d'"
      unfolding full_rows_def
    proof (intro allI impI)
      fix q row assume "load_row d' q = Some row"
      then show "r_tombstone row \<or> r_content_hash row \<noteq> None"
        using rows(1,2) rows(3) [of q] h replica_ok_db(4) [OF ok]
        by (cases "q = old"; cases "q = new") (auto simp: full_rows_def)
    qed
    moreover have "row_content d' q = (if q = old then None else if q = new then Some h else row_content (rp_db r) q)" for q
      using rows(1,2) rows(3) [of q] h by (auto simp: row_content_def)
    moreover have "bt_get (rp_fs r) old = Some h" using old src h by (simp add: row_content_def)
    ultimately show ?thesis
      using sok gr fsok synced src(1) by (auto simp: r good_step_def replica_ok_def fs_synced_def)
  next
    case False
    then have same: "d' = rp_db r" using append_rename_idle [OF a] by blast
    have "bt_get (rp_fs r) old = None \<or> old = new"
      using False a old by (auto simp: append_local_rename_def row_content_def Let_def split: if_splits option.splits)
    then have "bt_get ?fs q = bt_get (rp_fs r) q" for q by (auto split: option.splits)
    with same sok ok synced fsok show ?thesis by (auto simp: r good_step_def replica_ok_def fs_synced_def)
  qed
qed

lemma full_rows_upsert:
  "full_rows d \<Longrightarrow> ts \<or> ch \<noteq> None \<Longrightarrow> full_rows (upsert_file p ch mode sz vv ts u m d)"
  by (force simp: full_rows_def)

lemma full_rows_frame: "t_files d' = t_files d \<Longrightarrow> full_rows d' = full_rows d"
  by (simp add: full_rows_def load_row_def)

lemma apply_target_rows:
  "q \<noteq> o_path op \<Longrightarrow> load_row (fst (apply_target op dec d)) q = load_row d q"
  "dec \<noteq> Apply \<Longrightarrow> apply_target op dec d = (d, dec)"
  "decide (load_file d (o_path op)) (o_vv op) = Apply \<Longrightarrow>
     snd (apply_target op Apply d) = Apply \<and>
     row_content (fst (apply_target op Apply d)) (o_path op) = (if o_op_type op = Delete then None else o_content_hash op)"
  by (auto simp: apply_target_def Let_def row_content_def split: op_type.splits)

lemma apply_target_full:
  "full_rows d \<Longrightarrow> o_op_type op = Delete \<or> o_content_hash op \<noteq> None \<Longrightarrow> full_rows (fst (apply_target op dec d))"
  by (auto simp: apply_target_def Let_def intro!: full_rows_upsert split: op_type.splits)

lemma apply_source_rows:
  "q \<noteq> old \<Longrightarrow> load_row (apply_source op old d) q = load_row d q"
  "full_rows d \<Longrightarrow> full_rows (apply_source op old d)"
  by (auto simp: apply_source_def Let_def intro!: full_rows_upsert)

text \<open>The path, if any, that a rename leaves behind.\<close>

definition op_source :: "op_record \<Rightarrow> path option" where
  "op_source op = (if o_op_type op = Rename then o_path_old op else None)"

lemma remote_files_source:
  "remote_files op dec d = (case op_source op of
      Some q \<Rightarrow> apply_source op q (fst (apply_target op dec (insert_op op d)))
    | None \<Rightarrow> fst (apply_target op dec (insert_op op d)))"
  by (auto simp: remote_files_def op_source_def Let_def split: op_type.splits option.splits)

lemma remote_commit:
  assumes ok: "replica_ok r" and sane: "op_sane op" "o_origin op \<noteq> rp_node r"
    and fresh: "\<not> has_applied (rp_db r) (o_op_id op)"
    and dec: "dec = Apply \<Longrightarrow> decide (load_file (rp_db r) (o_path op)) (o_vv op) = Apply"
  obtains d' where "apply_remote op dec (rp_db r) = (d', Inr dec)"
    "replica_ok (r\<lparr>rp_store := (rp_store r)\<lparr>s_db := d'\<rparr>\<rparr>)"
    "\<And>q. q \<noteq> o_path op \<Longrightarrow> op_source op \<noteq> Some q \<Longrightarrow> load_row d' q = load_row (rp_db r) q"
    "dec \<noteq> Apply \<Longrightarrow> op_source op \<noteq> Some (o_path op) \<Longrightarrow> load_row d' (o_path op) = load_row (rp_db r) (o_path op)"
    "dec = Apply \<Longrightarrow> op_source op \<noteq> Some (o_path op) \<Longrightarrow>
       row_content d' (o_path op) = (if o_op_type op = Delete then None else o_content_hash op)"
    "t_oplog d' = t_oplog (insert_op op (rp_db r))" "grows (rp_db r) d'"
proof -
  let ?d0 = "insert_op op (rp_db r)"
  let ?d1 = "fst (apply_target op dec ?d0)"
  let ?d' = "fst (apply_remote op dec (rp_db r))"
  have old: "o_op_type op = Rename \<Longrightarrow> o_path_old op \<noteq> None" using sane(1) by (simp add: op_sane_def)
  have dec0: "dec = Apply \<Longrightarrow> decide (load_file ?d0 (o_path op)) (o_vv op) = Apply"
    using dec by (simp add: load_file_row)
  have eff: "snd (apply_target op dec ?d0) = dec"
    using dec0 apply_target_rows(2,3) [of ] by (cases "dec = Apply") auto
  have run: "apply_remote op dec (rp_db r) = (?d', Inr dec)"
    using fresh old eff by (auto simp: apply_remote_cases)
  have rows: "load_row ?d' q = load_row (remote_files op dec (rp_db r)) q" for q
    using fresh old by (auto simp: apply_remote_cases)
  have log: "t_oplog ?d' = t_oplog ?d0" using fresh old by (auto simp: apply_remote_cases)
  have full0: "full_rows ?d0" "full_log ?d0"
    using replica_ok_db(4,5) [OF ok] sane(1) full_rows_frame [of ?d0 "rp_db r"]
    by (auto simp: full_log_def insert_op_def op_sane_def)
  have "full_rows (remote_files op dec (rp_db r))"
    using apply_target_full [OF full0(1)] sane(1)
    by (auto simp: remote_files_source op_sane_def intro!: apply_source_rows(2) split: option.splits)
  then have full: "full_rows ?d'" "full_log ?d'"
    using rows log full0(2) by (auto simp: full_rows_def full_log_def)
  have "store_ok (rp_node r) (fst (store_step X (rp_node r) (ApplyRemote op dec) (rp_store r)))" for X
    using store_step_ok [of "rp_node r" "rp_store r" X "ApplyRemote op dec"] ok sane
    by (auto simp: replica_ok_def op_sane_def)
  then have "replica_ok (r\<lparr>rp_store := (rp_store r)\<lparr>s_db := ?d'\<rparr>\<rparr>)"
    using full by (simp add: replica_ok_def case_prod_unfold Let_def)
  moreover have "q \<noteq> o_path op \<Longrightarrow> op_source op \<noteq> Some q \<Longrightarrow> load_row ?d' q = load_row (rp_db r) q" for q
    unfolding rows remote_files_source
    by (auto simp: apply_target_rows(1) apply_source_rows(1) split: option.splits)
  moreover have tgt: "op_source op \<noteq> Some (o_path op) \<Longrightarrow> load_row ?d' (o_path op) = load_row ?d1 (o_path op)"
    unfolding rows remote_files_source by (auto simp: apply_source_rows(1) split: option.splits)
  moreover have "dec \<noteq> Apply \<Longrightarrow> load_row ?d1 (o_path op) = load_row (rp_db r) (o_path op)"
    by (simp add: apply_target_rows(2))
  moreover have "dec = Apply \<Longrightarrow> row_content ?d1 (o_path op) = (if o_op_type op = Delete then None else o_content_hash op)"
    using dec0 apply_target_rows(3) by auto
  moreover have "grows (rp_db r) ?d'" using sane(1) by (intro apply_remote_grows) (simp add: op_sane_def)
  ultimately show thesis using run log by (intro that [of ?d']) (auto simp: row_content_def)
qed

lemma op_version_facts:
  "op_sane op \<Longrightarrow> vv_ok (v_vv (op_version X op)) \<and> full_version (op_version X op)"
  "op_sane op \<Longrightarrow> vv_ok (v_vv (rename_source_version op)) \<and> full_version (rename_source_version op)"
  by (auto simp: op_sane_def op_version_def rename_source_version_def full_version_def)

lemma rename_post_ok:
  assumes "replica_ok r" "op_sane op" "synced_off old r"
  shows "good_step r (fst (rename_post X op old r))"
proof -
  let ?r = "sync_fs_from_row X old r"
  have ok: "replica_ok ?r" using assms(1) by (simp add: replica_ok_def)
  have synced: "fs_synced ?r" using sync_restores replica_ok_db(4) [OF assms(1)] assms(3) by blast
  show ?thesis
    using good_step_refl [OF ok synced] resolve_conflict_ok(1) [OF ok synced, of "rename_source_version op" X old] op_version_facts(2) [OF assms(2)]
      decide_not_quarantined
    by (auto simp: rename_post_def good_step_def split: decision.splits)
qed

lemma receive_finish_ok:
  assumes "replica_ok r" "op_sane op" "dec \<noteq> Quarantined"
    and "case op_source op of Some old \<Rightarrow> synced_off old r | None \<Rightarrow> fs_synced r"
  shows "good_step r (fst (receive_finish X op dec eff r))"
  using assms rename_post_ok [of r op "the (o_path_old op)" X] good_step_refl [of r]
  by (auto simp: receive_finish_def op_source_def op_sane_def split: op_type.splits option.splits prod.splits sum.splits)

lemma receive_commit_ok:
  assumes ok: "replica_ok r" and sane: "op_sane op" "o_origin op \<noteq> rp_node r"
    and fresh: "\<not> has_applied (rp_db r) (o_op_id op)"
    and dec: "dec = Apply \<Longrightarrow> decide (load_file (rp_db r) (o_path op)) (o_vv op) = Apply" "dec \<noteq> Quarantined"
    and fs: "bt_ok (rp_fs r)"
      "\<And>q. q \<noteq> o_path op \<Longrightarrow> op_source op \<noteq> Some q \<Longrightarrow> bt_get (rp_fs r) q = row_content (rp_db r) q"
      "op_source op \<noteq> Some (o_path op) \<Longrightarrow> bt_get (rp_fs r) (o_path op) =
         (if dec = Apply then (if o_op_type op = Delete then None else o_content_hash op)
          else row_content (rp_db r) (o_path op))"
  shows "good_step r (fst (receive_commit X op dec r))"
proof -
  obtain d' where d': "apply_remote op dec (rp_db r) = (d', Inr dec)"
    "replica_ok (r\<lparr>rp_store := (rp_store r)\<lparr>s_db := d'\<rparr>\<rparr>)"
    "\<And>q. q \<noteq> o_path op \<Longrightarrow> op_source op \<noteq> Some q \<Longrightarrow> load_row d' q = load_row (rp_db r) q"
    "dec \<noteq> Apply \<Longrightarrow> op_source op \<noteq> Some (o_path op) \<Longrightarrow> load_row d' (o_path op) = load_row (rp_db r) (o_path op)"
    "dec = Apply \<Longrightarrow> op_source op \<noteq> Some (o_path op) \<Longrightarrow>
       row_content d' (o_path op) = (if o_op_type op = Delete then None else o_content_hash op)"
    "grows (rp_db r) d'"
    using remote_commit [OF ok sane fresh dec(1)] by metis
  let ?r = "r\<lparr>rp_store := (rp_store r)\<lparr>s_db := d'\<rparr>\<rparr>"
  have run: "receive_commit X op dec r = receive_finish X op dec dec ?r"
    using d'(1) by (simp add: receive_commit_def store_writes Let_def)
  have get: "op_source op \<noteq> Some q \<Longrightarrow> bt_get (rp_fs r) q = row_content d' q" for q
    using fs(2,3) d'(3-5) by (cases "q = o_path op"; cases "dec = Apply") (auto simp: row_content_def)
  have "case op_source op of Some old \<Rightarrow> synced_off old ?r | None \<Rightarrow> fs_synced ?r"
    using get fs(1) by (auto simp: synced_off_def fs_synced_def split: option.splits)
  then have "good_step ?r (fst (receive_finish X op dec dec ?r))"
    using receive_finish_ok [OF d'(2) sane(1) dec(2)] by simp
  then show ?thesis unfolding run by (rule good_step_from) (use d'(6) in simp_all)
qed

lemma receive_ok:
  assumes ok: "replica_ok r" and synced: "fs_synced r" and sane: "op_sane op" "o_origin op \<noteq> rp_node r"
  shows "good_step r (fst (receive X op r))"
proof (cases "has_applied (rp_db r) (o_op_id op)")
  case True
  with ok synced show ?thesis by (simp add: receive_def good_step_refl)
next
  case fresh: False
  let ?dec = "decide (load_file (rp_db r) (o_path op)) (o_vv op)"
  note nq = decide_not_quarantined [of "load_file (rp_db r) (o_path op)" "o_vv op"]
  have bt: "bt_ok (rp_fs r)" and get: "\<And>q. bt_get (rp_fs r) q = row_content (rp_db r) q"
    using synced by (auto simp: fs_synced_def)
  show ?thesis
  proof (cases "?dec = DConcurrent")
    case True
    let ?r2 = "fst (resolve_conflict X (o_path op) (op_version X op) r)"
    note res = resolve_conflict_ok(1-3) [OF ok synced, of "op_version X op" X "o_path op"]
    note vf = op_version_facts(1) [OF sane(1), of X]
    have g: "good_step r ?r2" using res(1) vf by simp
    then have r2: "replica_ok ?r2" "fs_synced ?r2" "rp_node ?r2 = rp_node r" "t_applied (rp_db ?r2) = t_applied (rp_db r)"
      using res(3) vf by (simp_all add: good_step_def)
    have "good_step ?r2 (fst (receive_commit X op DConcurrent ?r2))"
      using r2 sane fresh by (intro receive_commit_ok) (auto simp: fs_synced_def has_applied_def)
    with good_step_trans [OF g this] g True fresh show ?thesis
      by (auto simp: receive_def Let_def split: prod.splits sum.splits)
  next
    case False
    let ?r1 = "if ?dec = Apply then r\<lparr>rp_fs := apply_effect X op r\<rparr> else r"
    have run: "receive X op r = receive_commit X op ?dec ?r1" using False fresh by (simp add: receive_def Let_def)
    have ok1: "replica_ok ?r1" "rp_node ?r1 = rp_node r" "rp_db ?r1 = rp_db r" using ok by (auto simp: replica_ok_def)
    have "bt_ok (apply_effect X op r)"
      using bt by (auto simp: apply_effect_def Let_def split: op_type.splits option.splits)
    moreover have "q \<noteq> o_path op \<Longrightarrow> op_source op \<noteq> Some q \<Longrightarrow> bt_get (apply_effect X op r) q = bt_get (rp_fs r) q" for q
      by (auto simp: apply_effect_def op_source_def Let_def split: op_type.splits option.splits)
    moreover have "op_source op \<noteq> Some (o_path op) \<Longrightarrow>
        bt_get (apply_effect X op r) (o_path op) = (if o_op_type op = Delete then None else o_content_hash op)"
      using sane(1) by (auto simp: apply_effect_def op_source_def op_sane_def Let_def split: op_type.splits option.splits)
    ultimately have "good_step ?r1 (fst (receive_commit X op ?dec ?r1))"
      using receive_commit_ok [OF ok1(1) sane(1), of ?dec X] ok1 sane(2) fresh nq bt get by auto
    then show ?thesis unfolding run by (rule good_step_from) (simp_all add: ok1)
  qed
qed

definition row_sane :: "file_row \<Rightarrow> bool" where
  "row_sane row \<longleftrightarrow> vv_ok (r_vv row) \<and> (r_tombstone row \<or> r_content_hash row \<noteq> None)"

lemma reconcile_row_ok:
  assumes ok: "replica_ok r" and synced: "fs_synced r" and sane: "row_sane row"
  shows "good_step r (fst (reconcile_row X row r))"
proof (cases "decide (load_file (rp_db r) (r_path row)) (r_vv row)")
  case Apply
  let ?rr = "\<lparr>rr_path = r_path row, rr_content_hash = r_content_hash row, rr_mode = r_mode row,
    rr_size = r_size row, rr_vv = r_vv row, rr_tombstone = r_tombstone row, rr_uuid = r_uuid row, rr_meta = r_meta row\<rparr>"
  let ?d = "fst (reconcile_upsert ?rr (rp_db r))"
  let ?vv = "merged_vv (load_file (rp_db r) (r_path row)) (r_vv row)"
  have d: "reconcile_upsert ?rr (rp_db r) =
      (upsert_file (r_path row) (r_content_hash row) (r_mode row) (r_size row) ?vv (r_tombstone row) (r_uuid row)
        (r_meta row) (rp_db r), Apply)"
    using Apply by (simp add: reconcile_upsert_def Let_def)
  have sok: "store_ok (rp_node r) ((rp_store r)\<lparr>s_db := ?d\<rparr>)" and gr: "grows (rp_db r) ?d"
    using store_step_ok [of "rp_node r" "rp_store r" undefined "ReconcileUpsert ?rr"] ok sane
    by (simp_all add: replica_ok_def row_sane_def case_prod_unfold Let_def)
  have full: "full_rows ?d" "full_log ?d"
    using full_rows_upsert replica_ok_db(4,5) [OF ok] sane by (simp_all add: d full_log_def row_sane_def)
  have "bt_get (mirror_row (rp_fs r) row) q = row_content ?d q" for q
    using synced by (simp add: mirror_get fs_synced_def d row_content_def)
  then have "fs_synced (r\<lparr>rp_store := (rp_store r)\<lparr>s_db := ?d\<rparr>, rp_fs := mirror_row (rp_fs r) row\<rparr>)"
    using synced mirror_ok by (simp add: fs_synced_def)
  with sok gr full Apply show ?thesis
    by (simp add: reconcile_row_def good_step_def replica_ok_def store_writes d Let_def)
next
  case DConcurrent
  have "vv_ok (v_vv (from_row X row))" "full_version (from_row X row)"
    using sane by (auto simp: from_row_def full_version_def row_sane_def)
  from resolve_conflict_ok(1) [OF ok synced this] DConcurrent show ?thesis by (simp add: reconcile_row_def)
qed (use good_step_refl [OF ok synced] in \<open>simp_all add: reconcile_row_def\<close>)

lemma reconcile_from_ok:
  assumes "replica_ok r" "fs_synced r" "\<forall>row \<in> set rows. row_sane row"
  shows "good_step r (fst (reconcile_from X rows r))"
  using assms
proof (induction rows arbitrary: r)
  case Nil
  then show ?case by (simp add: good_step_refl)
next
  case (Cons row rows)
  let ?r = "fst (reconcile_row X row r)"
  have g: "good_step r ?r" using Cons.prems by (intro reconcile_row_ok) auto
  then have "good_step ?r (fst (reconcile_from X rows ?r))"
    using Cons.IH [of ?r] Cons.prems(3) by (auto simp: good_step_def)
  with good_step_trans [OF g this] g show ?case by (auto split: prod.splits sum.splits)
qed

subsection \<open>Runs of events\<close>

text \<open>
  What an event must satisfy: a local change has room in the counters and a fresh
  operation id; what comes from a peer has well-formed vectors, content where it is
  live, and a received operation is not this node's own.
\<close>

definition event_ok :: "crates \<Rightarrow> replica_event \<Rightarrow> replica \<Rightarrow> bool" where
  "event_ok X ev r \<longleftrightarrow> (case ev of
      Receive op \<Rightarrow> op_sane op \<and> o_origin op \<noteq> rp_node r
    | ReconcileFrom rows \<Rightarrow> (\<forall>row \<in> set rows. row_sane row)
    | _ \<Rightarrow> append_room X (rp_node r) (rp_db r))"

lemma local_change_good:
  assumes "replica_ok r" "fs_synced r" "append_room X (rp_node r) (rp_db r)" "lc_op_type c \<noteq> Rename" "lc_manifest c = None"
    and "if lc_op_type c = Delete then fs = fs_delete (lc_path c) (rp_fs r)
         else \<exists>h. lc_content_hash c = Some h \<and> fs = fs_write (lc_path c) h (rp_fs r)"
  shows "good_step r (fst (replica_append X c (r\<lparr>rp_fs := fs\<rparr>)))"
proof -
  have "good_step (r\<lparr>rp_fs := fs\<rparr>) (fst (replica_append X c (r\<lparr>rp_fs := fs\<rparr>)))"
    using assms
    by (intro replica_append_ok)
       (auto simp: replica_ok_def fs_synced_def synced_off_def split: if_splits)
  then show ?thesis by (rule good_step_from) simp_all
qed

lemma replica_step_good:
  assumes "replica_ok r" "fs_synced r" "event_ok X ev r"
  shows "good_step r (replica_step X ev r)"
proof (cases ev)
  case (LocalWrite p content)
  with assms show ?thesis
    by (auto simp: replica_step_def event_ok_def local_write_def Let_def intro!: local_change_good)
next
  case (LocalWriteMode p content mode)
  with assms show ?thesis
    by (auto simp: replica_step_def event_ok_def local_write_with_mode_def Let_def intro!: local_change_good)
next
  case (LocalDelete p)
  with assms show ?thesis
    by (auto simp: replica_step_def event_ok_def local_delete_def intro!: local_change_good)
qed (use assms in \<open>auto simp: replica_step_def event_ok_def intro: local_rename_ok receive_ok reconcile_from_ok\<close>)

text \<open>
  Replicas are another provider of the store's growth contract: the invariant is that the
  file system agrees with the index.
\<close>

interpretation rep: growing_store "replica_step X" "event_ok X" "\<lambda>r. replica_ok r \<and> fs_synced r"
    "\<lambda>r r'. rp_node r' = rp_node r \<and> grows (rp_db r) (rp_db r')" for X
  by unfold_locales (auto dest!: replica_step_good simp: good_step_def intro: grows_trans)

lemma opened_store_ok: "store_ok node (open_store X node empty_db)"
  by (auto simp: open_store_def Let_def store_ok_def db_ok_def empty_db_def migrate_uuids_def backfill_uuids_def
      backfill_cursors_def files_ok_def log_vvs_ok_def gapfree_def seqs_of_def)

lemma replica_new_ok: "replica_ok (replica_new X node)" "fs_synced (replica_new X node)"
proof -
  have "s_db (open_store X node empty_db) = empty_db"
    by (simp add: open_store_def Let_def empty_db_def migrate_uuids_def backfill_uuids_def backfill_cursors_def)
  then show "replica_ok (replica_new X node)" "fs_synced (replica_new X node)"
    using opened_store_ok [of node X]
    by (auto simp: replica_ok_def replica_new_def full_rows_def full_log_def load_row_def fs_synced_def row_content_def
        empty_db_def)
qed

subsection \<open>Properties\<close>

text \<open>
  C17. The file system and the index never separate: after any sequence of local writes,
  deletes and renames, received operations (in any order, with repetitions, conflicts
  resolved on the way) and anti-entropy passes, the files of a replica are exactly the
  live rows of its index with their content, and no row has lost history.
\<close>

theorem replica_files_match_index:
  assumes "replica_ok r" "fs_matches_index X r" "admissible (event_ok X) (replica_step X) evs r"
  shows "fs_matches_index X (fold (replica_step X) evs r)
    \<and> grows (rp_db r) (rp_db (fold (replica_step X) evs r))"
proof -
  have "replica_ok r \<and> fs_synced r" using assms(1,2) fs_matches_iff replica_ok_db(1) by blast
  from rep.run_inv [OF this assms(3)] rep.run_le [OF this assms(3)] show ?thesis
    using fs_matches_iff replica_ok_db(1) by blast
qed

theorem replica_files_match_index_witness:
  "fs_matches_index plain_crates
     (fold (replica_step plain_crates)
       [LocalWrite ''f'' [7], Receive (example_op [2] 1 ''f'' [9] [([2], 1)])] (replica_new plain_crates [1]))"
proof -
  let ?r = "replica_new plain_crates [1]"
  let ?evs = "[LocalWrite ''f'' [7], Receive (example_op [2] 1 ''f'' [9] [([2], 1)])]"
  have db: "rp_db ?r = empty_db" "rp_node ?r = [1]"
    by (simp_all add: replica_new_def open_store_def Let_def empty_db_def migrate_uuids_def backfill_uuids_def backfill_cursors_def)
  have 1: "replica_ok ?r" by (rule replica_new_ok)
  have 2: "fs_matches_index plain_crates ?r"
    using fs_matches_iff [OF replica_ok_db(1) [OF 1]] replica_new_ok by blast
  have room: "event_ok plain_crates (LocalWrite ''f'' [7]) ?r"
    by (simp add: event_ok_def db append_room_def counter_room_def load_row_def empty_db_def latest_origin_seq_def
        seqs_of_def list_max_def unwrap_or_def is_i64_def)
  have node: "rp_node (replica_step plain_crates (LocalWrite ''f'' [7]) ?r) = [1]"
    using replica_step_good [OF 1 _ room] replica_new_ok db by (simp add: good_step_def)
  have "event_ok plain_crates (Receive (example_op [2] 1 ''f'' [9] [([2], 1)]))
      (replica_step plain_crates (LocalWrite ''f'' [7]) ?r)"
    unfolding event_ok_def node by (simp add: op_sane_def example_op_def vv_ok_def bt_ok_def)
  with room have "admissible (event_ok plain_crates) (replica_step plain_crates) ?evs ?r" by simp
  from replica_files_match_index [OF 1 2 this] show ?thesis by blast
qed

end
