(* ===== verification/Settled.thy ===== *)
theory Settled
  imports Replica_Laws
begin

text \<open>
  The row a history of operations settles on.  \<open>settled_row\<close> reads a path's operations as
  one batch: nothing for none, the last operation when it follows all others, and the
  planner's winner over the maximal operations otherwise.  The lemmas say how one more
  operation changes the row, in the three cases the decision function distinguishes.
\<close>

definition ops_at :: "path \<Rightarrow> op_record list \<Rightarrow> op_record list" where
  "ops_at p ops = filter (\<lambda>o'. o_path o' = p) ops"

definition op_row :: "path \<Rightarrow> op_record \<Rightarrow> file_row" where
  "op_row p op =
     \<lparr>r_path = p, r_content_hash = o_content_hash op, r_mode = o_mode op, r_size = o_size op,
      r_tombstone = (o_op_type op = Delete), r_vv = o_vv op, r_uuid = o_uuid op, r_meta = o_meta op\<rparr>"

definition top_ops :: "op_record list \<Rightarrow> op_record list" where
  "top_ops ops = filter (\<lambda>a. \<forall>b \<in> set ops. vv_compare (o_vv b) (o_vv a) \<noteq> Dominates) ops"

definition batch_winner :: "crates \<Rightarrow> path \<Rightarrow> version list \<Rightarrow> file_row" where
  "batch_winner X p cs = planned_file (winner_row p cs (antichain cs) (hd (antichain cs)))"

definition settled_row :: "crates \<Rightarrow> path \<Rightarrow> op_record list \<Rightarrow> file_row option" where
  "settled_row X p ops =
     (case top_ops ops of
        [] \<Rightarrow> None
      | [a] \<Rightarrow> Some (op_row p a)
      | _ \<Rightarrow> Some (batch_winner X p (map (op_as_candidate X p) ops)))"

text \<open>
  Operations as local writes and deletes make them: a delete carries nothing, and the
  vectors are well formed.
\<close>

definition plain_op :: "op_record \<Rightarrow> bool" where
  "plain_op op \<longleftrightarrow> op_sane op \<and> o_op_type op \<noteq> Rename \<and> o_path_old op = None
     \<and> (o_op_type op = Delete \<longrightarrow> o_content_hash op = None \<and> o_size op = 0 \<and> o_meta op = None)"

lemma ops_at_simps [simp]:
  "ops_at p [] = []" "ops_at p (as @ bs) = ops_at p as @ ops_at p bs"
  "ops_at p [a] = (if o_path a = p then [a] else [])" "set (ops_at p as) = {a \<in> set as. o_path a = p}"
  by (auto simp: ops_at_def)

lemma candidate_sel [simp]:
  "v_vv (op_as_candidate X p a) = o_vv a" "v_uuid (op_as_candidate X p a) = o_uuid a"
  by (simp_all add: op_as_candidate_def Let_def)

lemma ops_as_candidates_at:
  assumes "\<forall>a \<in> set (t_oplog d). o_path_old a = None"
  shows "ops_as_candidates X p d = map (op_as_candidate X p) (ops_at p (t_oplog d))"
proof -
  have "filter (\<lambda>a. o_path a = p \<or> o_path_old a = Some p) (t_oplog d) = ops_at p (t_oplog d)"
    unfolding ops_at_def using assms by (intro filter_cong) auto
  then show ?thesis by (simp add: ops_as_candidates_def)
qed

subsection \<open>Joins and maximal operations\<close>

abbreviation vv_join :: "op_record list \<Rightarrow> version_vector" where
  "vv_join ops \<equiv> vv_merge_all (map o_vv ops)"

lemma vv_merge_all_snoc: "vv_merge_all (vs @ [v]) = vv_merge (vv_merge_all vs) v"
  by (simp add: vv_merge_all_def)

lemma vv_merge_all_get:
  assumes "list_all vv_ok vs" "vv_get (vv_merge_all vs) k \<noteq> 0"
  shows "\<exists>v \<in> set vs. vv_get v k = vv_get (vv_merge_all vs) k"
  using assms
proof (induction vs rule: rev_induct)
  case Nil
  then show ?case by (simp add: vv_merge_all_def)
next
  case (snoc v vs)
  then have "vv_ok v" by simp
  then have "vv_get (vv_merge_all (vs @ [v])) k = max (vv_get (vv_merge_all vs) k) (vv_get v k)"
    by (simp add: vv_merge_all_snoc vv_get_merge)
  with snoc show ?case by (auto simp: max_def split: if_splits)
qed

lemma vv_merge_all_least:
  assumes "list_all vv_ok vs" "\<forall>v \<in> set vs. vv_le v w"
  shows "vv_le (vv_merge_all vs) w"
  using assms
proof (induction vs rule: rev_induct)
  case Nil
  then show ?case by (simp add: vv_merge_all_def)
qed (auto simp: vv_merge_all_snoc intro: vv_merge_least)

definition vvs_ok :: "op_record list \<Rightarrow> bool" where
  "vvs_ok ops \<longleftrightarrow> (\<forall>a \<in> set ops. vv_ok (o_vv a)) \<and> inj_on o_vv (set ops) \<and> distinct ops"

lemma vvs_ok_snocD: "vvs_ok (ops @ [a]) \<Longrightarrow> vvs_ok ops \<and> a \<notin> set ops \<and> vv_ok (o_vv a)"
  by (auto simp: vvs_ok_def)

lemma vvs_ok_list: "vvs_ok ops \<Longrightarrow> list_all vv_ok (map o_vv ops)"
  by (auto simp: vvs_ok_def list_all_iff)

lemma vv_join_ub: "vvs_ok ops \<Longrightarrow> a \<in> set ops \<Longrightarrow> vv_le (o_vv a) (vv_join ops)"
  by (intro vv_merge_all_ub vvs_ok_list) auto

lemma vvs_antisym:
  "vvs_ok ops \<Longrightarrow> a \<in> set ops \<Longrightarrow> b \<in> set ops \<Longrightarrow> vv_le (o_vv a) (o_vv b) \<Longrightarrow> vv_le (o_vv b) (o_vv a) \<Longrightarrow> a = b"
  unfolding vvs_ok_def by (metis inj_onD vv_le_antisym)

lemma top_ops_cover:
  assumes "vvs_ok ops" "a \<in> set ops"
  shows "\<exists>m \<in> set (top_ops ops). vv_le (o_vv a) (o_vv m)"
proof -
  have "finite (o_vv ` set ops)" "\<forall>v \<in> o_vv ` set ops. vv_ok v" "o_vv a \<in> o_vv ` set ops"
    using assms by (auto simp: vvs_ok_def)
  from vvo.covered_by_maximal [OF this] obtain m where
    "m \<in> set ops" "o_vv m = o_vv a \<or> vv_compare (o_vv m) (o_vv a) = Dominates"
    "\<forall>b \<in> set ops. vv_compare (o_vv b) (o_vv m) \<noteq> Dominates" by auto
  then show ?thesis by (auto simp: top_ops_def vv_compare_Dominates intro!: bexI [of _ m])
qed

lemma top_ops_last:
  assumes "vvs_ok (ops @ [a])" "\<forall>b \<in> set ops. vv_le (o_vv b) (o_vv a)"
  shows "top_ops (ops @ [a]) = [a]"
proof -
  have "vv_compare (o_vv a) (o_vv b) = Dominates" if "b \<in> set ops" for b
    using that assms vvs_antisym [OF assms(1), of b a] by (auto simp: vv_compare_Dominates vvs_ok_def)
  then have "filter (\<lambda>x. \<forall>b \<in> set (ops @ [a]). vv_compare (o_vv b) (o_vv x) \<noteq> Dominates) ops = []"
    by (auto simp: filter_empty_conv)
  moreover have "\<forall>b \<in> set (ops @ [a]). vv_compare (o_vv b) (o_vv a) \<noteq> Dominates"
    using assms(2) by (auto simp: vv_compare_Dominates)
  ultimately show ?thesis by (simp add: top_ops_def)
qed

lemma top_ops_covered:
  assumes "vvs_ok (ops @ [a])" "b \<in> set ops" "vv_le (o_vv a) (o_vv b)"
  shows "top_ops (ops @ [a]) = top_ops ops"
proof -
  have "a \<noteq> b" using vvs_ok_snocD [OF assms(1)] assms(2) by auto
  then have dom: "vv_compare (o_vv b) (o_vv a) = Dominates"
    using vvs_antisym [OF assms(1), of a b] assms by (auto simp: vv_compare_Dominates)
  have "vv_compare (o_vv a) (o_vv x) = Dominates \<Longrightarrow> vv_compare (o_vv b) (o_vv x) = Dominates" for x
    using assms(3) unfolding vv_compare_Dominates by (meson vv_le_trans)
  then have "filter (\<lambda>x. \<forall>b \<in> set (ops @ [a]). vv_compare (o_vv b) (o_vv x) \<noteq> Dominates) ops = top_ops ops"
    using assms(2) by (auto simp: top_ops_def intro!: filter_cong)
  with dom assms(2) show ?thesis by (auto simp: top_ops_def)
qed

lemma top_ops_concurrent:
  assumes "vvs_ok (ops @ [a])" "\<not> vv_le (o_vv a) (vv_join ops)" "\<not> vv_le (vv_join ops) (o_vv a)"
  obtains x y zs where "top_ops (ops @ [a]) = x # y # zs"
proof -
  note ok = vvs_ok_snocD [OF assms(1)]
  obtain b where b: "b \<in> set ops" "\<not> vv_le (o_vv b) (o_vv a)"
    using assms(3) vv_merge_all_least [OF vvs_ok_list] ok by fastforce
  obtain m where m: "m \<in> set (top_ops ops)" "vv_le (o_vv b) (o_vv m)" using top_ops_cover ok b by blast
  have "\<not> vv_le (o_vv m) (o_vv a)" using b m vv_le_trans by blast
  then have "m \<in> set (top_ops (ops @ [a]))" using m by (auto simp: top_ops_def vv_compare_Dominates)
  moreover have "a \<in> set (top_ops (ops @ [a]))"
    using assms(2) vv_join_ub ok vv_le_trans by (fastforce simp: top_ops_def vv_compare_Dominates)
  moreover have "m \<noteq> a" using m ok by (auto simp: top_ops_def)
  ultimately obtain x y zs where "top_ops (ops @ [a]) = x # y # zs"
    by (cases "top_ops (ops @ [a])" rule: remdups_adj.cases) auto
  then show thesis by (rule that)
qed

subsection \<open>How a row follows its operations\<close>

lemma settled_none: "vvs_ok ops \<Longrightarrow> settled_row X p ops = None \<longleftrightarrow> ops = []"
proof -
  assume "vvs_ok ops"
  from top_ops_cover [OF this, of "hd ops"] have "top_ops ops = [] \<longleftrightarrow> ops = []"
    by (cases "ops = []") (auto simp: top_ops_def [of "[]"])
  then show ?thesis by (auto simp: settled_row_def split: list.splits)
qed

lemma settled_vv:
  assumes "vvs_ok ops" "settled_row X p ops = Some r"
  shows "r_vv r = vv_join ops" "r_path r = p"
proof -
  have "r_vv r = vv_join ops \<and> r_path r = p"
  proof (cases "\<exists>a. top_ops ops = [a]")
    case True
    then obtain a where a: "top_ops ops = [a]" by blast
    then have mem: "a \<in> set (top_ops ops)" by simp
    then have "a \<in> set ops" by (simp add: top_ops_def)
    moreover have "\<forall>b \<in> set ops. vv_le (o_vv b) (o_vv a)" using top_ops_cover [OF assms(1)] a by fastforce
    ultimately have "o_vv a = vv_join ops"
      using assms(1) vv_join_ub vv_merge_all_least [OF vvs_ok_list]
      by (intro vv_le_antisym) (auto simp: vvs_ok_def intro!: vv_ok_merge_all vvs_ok_list)
    with a assms(2) show ?thesis by (auto simp: settled_row_def op_row_def)
  next
    case False
    then have "r = batch_winner X p (map (op_as_candidate X p) ops)"
      using assms(2) by (auto simp: settled_row_def split: list.splits)
    then show ?thesis by (simp add: batch_winner_def planned_file_def comp_def)
  qed
  then show "r_vv r = vv_join ops" "r_path r = p" by simp_all
qed

lemma settled_last:
  "vvs_ok (ops @ [a]) \<Longrightarrow> vv_le (vv_join ops) (o_vv a) \<Longrightarrow> settled_row X p (ops @ [a]) = Some (op_row p a)"
proof -
  assume a: "vvs_ok (ops @ [a])" "vv_le (vv_join ops) (o_vv a)"
  then have "\<forall>b \<in> set ops. vv_le (o_vv b) (o_vv a)"
    using vv_join_ub vvs_ok_snocD vv_le_trans by blast
  from top_ops_last [OF a(1) this] show ?thesis by (simp add: settled_row_def)
qed

lemma settled_concurrent:
  assumes "vvs_ok (ops @ [a])" "\<not> vv_le (o_vv a) (vv_join ops)" "\<not> vv_le (vv_join ops) (o_vv a)"
  shows "settled_row X p (ops @ [a]) = Some (batch_winner X p (map (op_as_candidate X p) (ops @ [a])))"
  by (rule top_ops_concurrent [OF assms]) (simp add: settled_row_def)

lemma antichain_blocked:
  assumes "one_history (set (cs @ [c]))" "b \<in> set cs" "vv_compare (v_vv b) (v_vv c) = Dominates"
  shows "antichain (cs @ [c]) = antichain cs"
proof -
  have h: "one_history (set [] \<union> set cs)" using assms(1) by (auto simp: one_history_def)
  have keep: "set (foldl antichain_step [] cs) = maximal_in (set cs)"
    using antichain_fold [OF h] by (simp add: maximal_in_def)
  obtain m where m: "m \<in> maximal_in (set cs)" "m = b \<or> vv_compare (v_vv m) (v_vv b) = Dominates"
    using covered_version [of "set cs" b] assms(2) h by auto
  then have mc: "vv_le (v_vv c) (v_vv m)" "\<not> vv_le (v_vv m) (v_vv c)"
    using assms(3) unfolding vv_compare_Dominates by (auto intro: vv_le_trans)
  have "vv_compare (v_vv c) (v_vv k) \<noteq> Dominates" if "k \<in> maximal_in (set cs)" for k
  proof
    assume "vv_compare (v_vv c) (v_vv k) = Dominates"
    then have "vv_compare (v_vv m) (v_vv k) = Dominates"
      using mc unfolding vv_compare_Dominates by (meson vv_le_trans)
    with that m(1) show False by (auto simp: maximal_in_def)
  qed
  moreover have "vv_compare (v_vv c) (v_vv m) = Dominated" using mc by (simp add: vv_compare_Dominated)
  ultimately have "antichain_scan c (foldl antichain_step [] cs) = (foldl antichain_step [] cs, False)"
    using m(1) keep by (intro scan_blocked) auto
  then show ?thesis by (simp add: antichain_def antichain_step_def)
qed

lemma candidates_history:
  assumes "vvs_ok ops" shows "one_history (op_as_candidate X p ` set ops)"
  using assms by (auto simp: one_history_def vvs_ok_def dest: inj_onD)

lemma settled_covered:
  assumes "vvs_ok (ops @ [a])" "b \<in> set ops" "vv_le (o_vv a) (o_vv b)"
  shows "settled_row X p (ops @ [a]) = settled_row X p ops"
proof -
  let ?c = "op_as_candidate X p"
  note ok = vvs_ok_snocD [OF assms(1)]
  have "a \<noteq> b" using ok assms(2) by auto
  then have "vv_compare (o_vv b) (o_vv a) = Dominates"
    using vvs_antisym [OF assms(1), of a b] assms by (auto simp: vv_compare_Dominates)
  then have anti: "antichain (map ?c ops @ [?c a]) = antichain (map ?c ops)"
    using candidates_history [OF assms(1), of X p] assms(2) by (intro antichain_blocked [of _ _ "?c b"]) auto
  have "vv_le (o_vv a) (vv_join ops)" using vv_join_ub ok assms(2,3) vv_le_trans by blast
  then have "vv_join (ops @ [a]) = vv_join ops"
    using ok by (simp add: vv_merge_all_snoc vv_merge_dominated vv_ok_merge_all vvs_ok_list)
  then have "batch_winner X p (map ?c (ops @ [a])) = batch_winner X p (map ?c ops)"
    by (simp add: batch_winner_def anti winner_row_def comp_def Let_def)
  then show ?thesis unfolding settled_row_def top_ops_covered [OF assms] by (simp only:)
qed

text \<open>The row depends on the set of operations only, when versions with equal keys have equal content, metadata and size.\<close>

definition keys_separate :: "version set \<Rightarrow> bool" where
  "keys_separate S \<longleftrightarrow> (\<forall>a \<in> S. \<forall>b \<in> S. version_key a = version_key b \<longrightarrow>
     v_content_hash a = v_content_hash b \<and> v_meta a = v_meta b \<and> v_size a = v_size b)"

lemma batch_winner_set:
  assumes "one_history (set cs)" "set cs = set cs'" "cs \<noteq> []" "keys_separate (set cs)"
  shows "batch_winner X p cs = batch_winner X p cs'"
proof -
  have sets: "set (antichain cs) = maximal_in (set cs)" "set (antichain cs') = maximal_in (set cs)"
    using antichain_set(1) [OF assms(1)] antichain_set(1) [of cs'] assms(1,2) by simp_all
  obtain c where "c \<in> set cs" using assms(3) by (meson hd_in_set)
  then have "maximal_in (set cs) \<noteq> {}" using covered_version [OF _ assms(1)] by blast
  with sets have "antichain cs \<noteq> []" "antichain cs' \<noteq> []" by auto
  then obtain w ls w' ls' where w: "antichain cs = w # ls" "antichain cs' = w' # ls'" by (meson neq_Nil_conv)
  then have mem: "w \<in> maximal_in (set cs)" "w' \<in> maximal_in (set cs)" using sets by auto
  have "w' \<in> insert w (set ls)" "w \<in> insert w' (set ls')" using mem sets w by simp_all
  then have "version_key w' \<le> version_key w" "version_key w \<le> version_key w'"
    using antichain_head_max [OF w(1), of w'] antichain_head_max [OF w(2), of w] by auto
  then have key: "version_key w = version_key w'" by simp
  have "w \<in> set cs" "w' \<in> set cs" using mem by (auto simp: maximal_in_def)
  then have "v_content_hash w = v_content_hash w' \<and> v_meta w = v_meta w' \<and> v_size w = v_size w'"
    using key assms(4) unfolding keys_separate_def by blast
  with version_key_parts [OF key] have "wpayload (version_key w) w = wpayload (version_key w) w'"
    unfolding wpayload_def payload_def key by (cases w, cases w') simp
  moreover have "list_all vv_ok (map v_vv cs)" using assms(1) by (auto simp: one_history_def list_all_iff)
  ultimately have "winner_row p cs (antichain cs) w = winner_row p cs' (antichain cs') w'"
    using sets w by (intro winner_row_cong assms(2)) auto
  then show ?thesis by (simp add: batch_winner_def w)
qed

lemma top_ops_set: "set as = set bs \<Longrightarrow> distinct as \<Longrightarrow> distinct bs \<Longrightarrow> mset (top_ops as) = mset (top_ops bs)"
  using set_eq_iff_mset_eq_distinct [of as bs] by (simp add: top_ops_def mset_filter)

lemma settled_set:
  assumes "vvs_ok as" "vvs_ok bs" "set as = set bs" "keys_separate (op_as_candidate X p ` set as)"
  shows "settled_row X p as = settled_row X p bs"
proof -
  have m: "mset (top_ops as) = mset (top_ops bs)" using assms by (intro top_ops_set) (auto simp: vvs_ok_def)
  then have len: "length (top_ops as) = length (top_ops bs)" by (metis size_mset)
  show ?thesis
  proof (cases "length (top_ops as) \<le> 1")
    case True
    with len consider "top_ops as = []" "top_ops bs = []" | a b where "top_ops as = [a]" "top_ops bs = [b]"
      using length_0_conv length_Suc_conv by (metis One_nat_def le_Suc_eq le_zero_eq)
    then show ?thesis
    proof cases
      case 1
      then show ?thesis by (simp add: settled_row_def)
    next
      case 2
      have "a = b" using m unfolding 2 by simp
      with 2 show ?thesis by (simp add: settled_row_def)
    qed
  next
    case False
    then have "as \<noteq> []" by (auto simp: top_ops_def)
    then have "batch_winner X p (map (op_as_candidate X p) as) = batch_winner X p (map (op_as_candidate X p) bs)"
      using assms candidates_history [OF assms(1), of X p] by (intro batch_winner_set) auto
    moreover obtain x y zs where "top_ops as = x # y # zs" using False
      by (cases "top_ops as" rule: remdups_adj.cases) auto
    moreover obtain x' y' zs' where "top_ops bs = x' # y' # zs'" using False len
      by (cases "top_ops bs" rule: remdups_adj.cases) auto
    ultimately show ?thesis by (simp add: settled_row_def)
  qed
qed

end
