(* ===== verification/Node_Steps.thy ===== *)
theory Node_Steps
  imports Settled
begin

text \<open>
  What one event does to the log and the rows of a replica that handles writes and
  deletes: a local change appends one operation that follows its row; a received
  operation is logged, and the row of its path is left alone, replaced or resolved as
  the decision says.  Copy rows never stop a resolution, because each row at a copy name
  covers the vector of the copy.
\<close>

subsection \<open>Planning with the received operation\<close>

text \<open>
  The candidate made from a received deletion keeps the operation's mode, the one made
  from the log has mode zero.  The plan does not depend on it.
\<close>

definition tomb_norm :: "version \<Rightarrow> version" where
  "tomb_norm v = (if v_tombstone v then v\<lparr>v_mode := 0\<rparr> else v)"

lemma tomb_norm_sel [simp]:
  "v_vv (tomb_norm v) = v_vv v" "version_key (tomb_norm v) = version_key v" "v_uuid (tomb_norm v) = v_uuid v"
  "v_tombstone (tomb_norm v) = v_tombstone v" "v_content_hash (tomb_norm v) = v_content_hash v"
  "v_meta (tomb_norm v) = v_meta v" "v_size (tomb_norm v) = v_size v"
  "\<not> v_tombstone v \<Longrightarrow> tomb_norm v = v"
  by (simp_all add: tomb_norm_def version_key_def)

lemma tomb_norm_candidate: "tomb_norm (op_as_candidate X p op) = op_as_candidate X p op"
  by (simp add: tomb_norm_def op_as_candidate_def Let_def)

lemma tomb_norm_op: "plain_op op \<Longrightarrow> tomb_norm (op_version X op) = op_as_candidate X p op"
  by (auto simp: tomb_norm_def plain_op_def op_version_def op_as_candidate_def Let_def)

lemma insort_key_map:
  "(\<And>x. k (f x) = k x) \<Longrightarrow> insort_key k (f x) (map f xs) = map f (insort_key k x xs)"
  by (induction xs) auto

lemma sort_key_map: "(\<And>x. k (f x) = k x) \<Longrightarrow> sort_key k (map f xs) = map f (sort_key k xs)"
  by (induction xs) (auto simp: insort_key_map)

lemma antichain_scan_norm:
  "antichain_scan (tomb_norm c) (map tomb_norm ks) = map_prod (map tomb_norm) id (antichain_scan c ks)"
  by (induction ks) (auto split: ord3.splits prod.splits)

lemma antichain_norm: "antichain (map tomb_norm cs) = map tomb_norm (antichain cs)"
proof -
  have "antichain_step (map tomb_norm ks) (tomb_norm c) = map tomb_norm (antichain_step ks c)" for ks c
    by (auto simp: antichain_step_def antichain_scan_norm Let_def split: prod.splits)
  then have "foldl antichain_step (map tomb_norm ks) (map tomb_norm cs) = map tomb_norm (foldl antichain_step ks cs)" for ks
    by (induction cs arbitrary: ks) auto
  from this [of "[]"] show ?thesis
    by (simp add: antichain_def sort_desc_def rev_map sort_key_map)
qed

lemma winner_row_norm: "winner_row p (map tomb_norm cs) (map tomb_norm ms) (tomb_norm w) = winner_row p cs ms w"
proof -
  have eq: "filter (\<lambda>m. version_key m = version_key (tomb_norm w)) (map tomb_norm ms) =
      map tomb_norm (filter (\<lambda>m. version_key m = version_key w) ms)"
    by (simp add: filter_map comp_def)
  have live: "map v_mode (map tomb_norm (filter (\<lambda>m. version_key m = version_key w) ms)) =
      map v_mode (filter (\<lambda>m. version_key m = version_key w) ms)" if "\<not> v_tombstone w"
    using that by (auto simp: version_key_def split: if_splits)
  have "List.map_filter v_uuid (map tomb_norm xs) = List.map_filter v_uuid xs" for xs
    by (induction xs) (simp_all add: List.map_filter_simps split: option.splits)
  moreover have "map v_vv (map tomb_norm cs) = map v_vv cs" by simp
  ultimately show ?thesis
    unfolding winner_row_def eq Let_def using live by (cases "v_tombstone w") (simp_all del: map_map)
qed

lemma batch_winner_norm: "antichain cs \<noteq> [] \<Longrightarrow> batch_winner X p (map tomb_norm cs) = batch_winner X p cs"
  by (simp add: batch_winner_def antichain_norm hd_map winner_row_norm)

text \<open>Rows at copy names cover the vector of the copy.\<close>

definition copies_covered :: "crates \<Rightarrow> db \<Rightarrow> bool" where
  "copies_covered X d \<longleftrightarrow> (\<forall>q r. marked q \<longrightarrow> load_row d q = Some r \<longrightarrow> vv_le (copy_vv X q) (r_vv r))"

lemma plan_chain_covered:
  assumes "copies_covered X d" "marked cp"
  shows "\<exists>rows'. plan_chain X (row_lookup X d) (Suc n) rows cp c = Inr (Some rows')"
proof (cases "load_row d cp")
  case (Some r)
  then have "vv_le (copy_vv X cp) (r_vv r)" using assms by (simp add: copies_covered_def)
  with Some show ?thesis by (simp add: row_lookup_def from_row_def vv_compare_cases)
qed (simp add: row_lookup_def)

lemma plan_losers_covered:
  assumes "copies_covered X d"
  shows "\<exists>rows'. plan_losers X (row_lookup X d) p wk rows ls = Inr (Some rows')"
proof (induction ls arbitrary: rows)
  case (Cons l ls)
  show ?case
  proof (cases "\<exists>h. v_content_hash l = Some h \<and> version_key l \<noteq> wk")
    case True
    then obtain h where h: "v_content_hash l = Some h" "version_key l \<noteq> wk" by blast
    have "MAX_COPY_DEPTH = Suc 3" by (simp add: MAX_COPY_DEPTH_def)
    then obtain rows' where "plan_chain X (row_lookup X d) MAX_COPY_DEPTH rows (copy_path_for X p h (naming_hash X (v_meta l))) l = Inr (Some rows')"
      using plan_chain_covered [OF assms copy_path_marked, of 3 rows X p h "naming_hash X (v_meta l)" l] by fastforce
    with h Cons [of rows'] show ?thesis by simp
  qed (use Cons in \<open>auto split: option.splits\<close>)
qed simp

lemma plan_covered:
  "copies_covered X d \<Longrightarrow> antichain cs \<noteq> [] \<Longrightarrow> \<exists>rows. plan_candidates X p cs (row_lookup X d) = Inr (Some rows)"
  using plan_losers_covered by (auto simp: plan_candidates_def Let_def split: list.splits)

subsection \<open>A resolution settles the path\<close>

text \<open>What the induction over runs knows of one database.\<close>

definition settled_db :: "crates \<Rightarrow> db \<Rightarrow> bool" where
  "settled_db X d \<longleftrightarrow> copies_covered X d \<and> (\<forall>a \<in> set (t_oplog d). plain_op a)
     \<and> (\<forall>p. \<not> marked p \<longrightarrow> vvs_ok (ops_at p (t_oplog d)) \<and> load_row d p = settled_row X p (ops_at p (t_oplog d)))"

lemma op_version_vv [simp]: "v_vv (op_version X op) = o_vv op"
  by (simp add: op_version_def)

lemma settled_candidates:
  assumes "settled_db X d" "\<not> marked p" "load_row d p = Some l" "plain_op op"
  shows "resolution_candidates X p (op_version X op) l d =
    map (op_as_candidate X p) (ops_at p (t_oplog d)) @ [op_version X op]"
proof -
  let ?ops = "ops_at p (t_oplog d)"
  have ok: "vvs_ok ?ops" "settled_row X p ?ops = Some l" "\<forall>a \<in> set (t_oplog d). o_path_old a = None"
    using assms by (auto simp: settled_db_def plain_op_def)
  have "vv_ok (o_vv op)" using assms(4) by (simp add: plain_op_def op_sane_def)
  then have "vv_le (vv_join ?ops) (vv_merge_all (map o_vv ?ops @ [o_vv op]))"
    by (simp add: vv_merge_all_snoc vv_merge_ub1)
  then have "vv_compare (vv_merge_all (map o_vv ?ops @ [o_vv op])) (r_vv l) \<in> {Dominates, Equal}"
    using settled_vv(1) [OF ok(1,2)] by (simp add: vv_compare_cases)
  then show ?thesis
    using ok(3) by (auto simp: resolution_candidates_def ops_as_candidates_at Let_def comp_def split: ord3.splits)
qed

lemma antichain_nonempty: "cs \<noteq> [] \<Longrightarrow> antichain cs \<noteq> []"
proof -
  have scan: "antichain_scan c ks = (ks', False) \<Longrightarrow> ks' \<noteq> []" for c ks ks'
    by (induction ks arbitrary: ks') (auto split: ord3.splits prod.splits)
  have step: "antichain_step ks c \<noteq> []" for ks c
    using scan [of c ks "[]"] by (cases "antichain_scan c ks") (auto simp: antichain_step_def)
  assume "cs \<noteq> []"
  then have "foldl antichain_step [] cs \<noteq> []" by (cases cs rule: rev_cases) (auto simp: step)
  then show ?thesis by (metis antichain_def set_empty set_sort_desc)
qed

lemma conflict_settles_row:
  assumes r: "replica_ok r" "fs_synced r" and set: "settled_db X (rp_db r)" "\<not> marked p"
    and op: "plain_op op" "decide (load_file (rp_db r) p) (o_vv op) = DConcurrent"
  shows "load_row (rp_db (fst (resolve_conflict X p (op_version X op) r))) p =
      Some (batch_winner X p (map (op_as_candidate X p) (ops_at p (t_oplog (rp_db r)) @ [op])))"
proof -
  let ?d = "rp_db r" and ?v = "op_version X op"
  obtain l where l: "load_row ?d p = Some l" using op(2) by (cases "load_row ?d p") (auto simp: load_file_row)
  let ?cs = "map (op_as_candidate X p) (ops_at p (t_oplog ?d)) @ [?v]"
  note cs = settled_candidates [OF set l op(1)]
  have copies: "copies_covered X ?d" using set(1) by (simp add: settled_db_def)
  obtain plan where plan: "plan_candidates X p ?cs (row_lookup X ?d) = Inr (Some plan)"
    using plan_covered [OF copies antichain_nonempty] by blast
  have dec: "decide (map_option row_local (load_row ?d p)) (v_vv ?v) = DConcurrent"
    using op(2) by (simp add: load_file_row)
  have "snd (resolve_rows X p ?v [] ?d) \<noteq> Inr Resolved" by (rule resolve_empty_not_resolved)
  then have stale: "resolve_rows X p ?v [] ?d = (?d, Inr (Stale plan))"
    using dec l plan unfolding resolve_rows_def by (simp add: cs Let_def split: if_splits)
  have db: "rp_db (fst (resolve_conflict X p ?v r)) = fold commit_planned plan ?d"
    using resolve_loop_two [of X "rp_node r" 3 p ?v "rp_store r"] stale
    by (simp add: resolve_conflict_def Let_def numeral_eq_Suc)
  have "vv_ok (v_vv ?v)" using op(1) by (simp add: plain_op_def op_sane_def)
  from resolve_rows_Resolved [OF replica_ok_db(1,2) [OF r(1)] this resolve_stale(2) [OF stale]]
  obtain l' w ls new where w: "load_row ?d p = Some l'" "antichain (resolution_candidates X p ?v l' ?d) = w # ls"
    "plan = winner_row p (resolution_candidates X p ?v l' ?d) (w # ls) w # new" "distinct (map p_path plan)"
    by metis
  have "planned_file (hd plan) = batch_winner X p ?cs"
    using w l cs by (simp add: batch_winner_def)
  moreover have "batch_winner X p (map tomb_norm ?cs) = batch_winner X p ?cs"
    by (intro batch_winner_norm antichain_nonempty) simp
  moreover have "map tomb_norm ?cs = map (op_as_candidate X p) (ops_at p (t_oplog ?d) @ [op])"
    using op(1) by (simp add: tomb_norm_candidate tomb_norm_op)
  moreover have "load_row (fold commit_planned plan ?d) p = Some (planned_file (hd plan))"
    using load_committed [OF _ w(4), of "hd plan" ?d] w(3) by simp
  ultimately show ?thesis by (simp only: db)
qed

text \<open>Every resolution, at marked paths too, leaves the copies covered.\<close>

lemma resolve_copies:
  assumes r: "replica_ok r" and c: "copies_covered X (rp_db r)" "vv_ok (v_vv remote)"
    and m: "marked p \<Longrightarrow> vv_le (copy_vv X p) (v_vv remote)"
  shows "copies_covered X (rp_db (fst (resolve_conflict X p remote r)))"
proof (cases "\<exists>d plan. resolve_rows X p remote [] (rp_db r) = (d, Inr (Stale plan))")
  case False
  then have "rp_db (fst (resolve_conflict X p remote r)) = rp_db r"
    using resolve_loop_two [of X "rp_node r" 3 p remote "rp_store r"]
    by (auto simp: resolve_conflict_def Let_def numeral_eq_Suc split: prod.splits sum.splits resolve_outcome.splits)
  with c show ?thesis by simp
next
  case True
  let ?d = "rp_db r"
  obtain d plan where st: "resolve_rows X p remote [] ?d = (d, Inr (Stale plan))" using True by blast
  have db: "rp_db (fst (resolve_conflict X p remote r)) = fold commit_planned plan ?d"
    using resolve_loop_two [of X "rp_node r" 3 p remote "rp_store r"] st
    by (simp add: resolve_conflict_def Let_def numeral_eq_Suc)
  from resolve_rows_Resolved [OF replica_ok_db(1,2) [OF r] c(2) resolve_stale(2) [OF st]]
  obtain l w ls new where w: "load_row ?d p = Some l"
    "plan = winner_row p (resolution_candidates X p remote l ?d) (w # ls) w # new" "distinct (map p_path plan)"
    "\<forall>r \<in> set plan. row_covers (row_lookup X ?d) r" "\<forall>r \<in> set new. is_copy X r" by metis
  have cs: "list_all vv_ok (map v_vv (resolution_candidates X p remote l ?d))"
    using candidates_ok [OF replica_ok_db(1,2) [OF r] c(2) w(1)] .
  have mem: "remote \<in> set (resolution_candidates X p remote l ?d)"
    by (auto simp: resolution_candidates_def Let_def split: ord3.splits)
  have "vv_le (v_vv remote) (vv_merge_all (map v_vv (resolution_candidates X p remote l ?d)))"
    using mem by (intro vv_merge_all_ub cs) auto
  then have "marked (p_path pr) \<Longrightarrow> vv_le (copy_vv X (p_path pr)) (p_vv pr)" if "pr \<in> set plan" for pr
    using that w(2,5) m vv_le_trans by (auto simp: is_copy_def)
  then have "marked q \<Longrightarrow> load_row (fold commit_planned plan ?d) q = Some row \<Longrightarrow> vv_le (copy_vv X q) (r_vv row)" for q row
  proof (cases "q \<in> p_path ` set plan")
    case True
    assume a: "marked q" "load_row (fold commit_planned plan ?d) q = Some row"
      and rows: "\<And>pr. pr \<in> set plan \<Longrightarrow> marked (p_path pr) \<Longrightarrow> vv_le (copy_vv X (p_path pr)) (p_vv pr)"
    from True obtain pr where "pr \<in> set plan" "q = p_path pr" by blast
    with load_committed [OF _ w(3), of pr ?d] a rows show ?thesis by (auto simp: planned_file_def)
  next
    case False
    assume "marked q" "load_row (fold commit_planned plan ?d) q = Some row"
    with False load_uncommitted [OF False] c(1) show ?thesis by (simp add: copies_covered_def)
  qed
  then show ?thesis by (simp add: copies_covered_def db)
qed

subsection \<open>Receiving a write or a delete\<close>

lemma resolve_conflict_succeeds:
  assumes "replica_ok r" shows "snd (resolve_conflict X p remote r) = Inr ()"
proof -
  have "\<exists>outcome. snd (resolve_rows X p remote [] (rp_db r)) = Inr outcome"
    using resolve_no_panic [OF replica_ok_db(1) [OF assms]] by (metis sum.exhaust)
  then show ?thesis
    using resolve_loop_two [of X "rp_node r" 3 p remote "rp_store r"]
    by (auto simp: resolve_conflict_def Let_def numeral_eq_Suc split: prod.splits sum.splits resolve_outcome.splits)
qed

definition receive_base :: "crates \<Rightarrow> op_record \<Rightarrow> replica \<Rightarrow> db" where
  "receive_base X op r =
     (if decide (load_file (rp_db r) (o_path op)) (o_vv op) = DConcurrent
      then rp_db (fst (resolve_conflict X (o_path op) (op_version X op) r)) else rp_db r)"

lemma receive_plain_db:
  assumes r: "replica_ok r" "fs_synced r" and op: "plain_op op" "o_origin op \<noteq> rp_node r"
    and fresh: "\<not> has_applied (rp_db r) (o_op_id op)"
  shows "rp_db (fst (receive X op r)) =
    fst (apply_remote op (decide (load_file (rp_db r) (o_path op)) (o_vv op)) (receive_base X op r))"
proof -
  let ?dec = "decide (load_file (rp_db r) (o_path op)) (o_vv op)"
  have sane: "op_sane op" "o_op_type op \<noteq> Rename" using op(1) by (auto simp: plain_op_def)
  have commit: "rp_db (fst (receive_commit X op ?dec r1)) = fst (apply_remote op ?dec (rp_db r1))"
    if "replica_ok r1" "rp_node r1 = rp_node r" "\<not> has_applied (rp_db r1) (o_op_id op)"
      "?dec = Apply \<longrightarrow> rp_db r1 = rp_db r" for r1
  proof -
    note h = that
    obtain d' where "apply_remote op ?dec (rp_db r1) = (d', Inr ?dec)"
      using remote_commit [OF h(1) sane(1) _ h(3), of ?dec] op(2) h(2,4) by auto
    then show ?thesis
      using sane(2) by (auto simp: receive_commit_def store_writes receive_finish_def Let_def split: op_type.splits)
  qed
  show ?thesis
  proof (cases "?dec = DConcurrent")
    case True
    let ?r2 = "fst (resolve_conflict X (o_path op) (op_version X op) r)"
    note vf = op_version_facts(1) [OF sane(1), of X]
    note res = resolve_conflict_ok(1,3) [OF r, of "op_version X op" X "o_path op"]
    have "replica_ok ?r2" "rp_node ?r2 = rp_node r" "\<not> has_applied (rp_db ?r2) (o_op_id op)"
      using res vf fresh by (auto simp: good_step_def has_applied_def)
    from commit [OF this] True fresh resolve_conflict_succeeds [OF r(1), of X "o_path op" "op_version X op"]
    show ?thesis
      by (auto simp: receive_def receive_base_def Let_def split: prod.splits sum.splits)
  next
    case False
    let ?r1 = "if ?dec = Apply then r\<lparr>rp_fs := apply_effect X op r\<rparr> else r"
    have "replica_ok ?r1" "rp_node ?r1 = rp_node r" "rp_db ?r1 = rp_db r" using r(1) by (auto simp: replica_ok_def)
    with commit [of ?r1] False fresh show ?thesis
      by (auto simp: receive_def receive_base_def Let_def)
  qed
qed

text \<open>The effect on tables and rows.\<close>

lemma receive_base_frame:
  assumes "replica_ok r" "fs_synced r" "plain_op op"
  shows "t_oplog (receive_base X op r) = t_oplog (rp_db r)" "t_applied (receive_base X op r) = t_applied (rp_db r)"
    "q \<noteq> o_path op \<Longrightarrow> \<not> marked q \<Longrightarrow> load_row (receive_base X op r) q = load_row (rp_db r) q"
  using resolve_conflict_ok(2,3) [OF assms(1,2), of "op_version X op" X "o_path op"]
    resolve_conflict_ok(4) [OF assms(1,2), of "op_version X op" q "o_path op" X]
    op_version_facts(1) [of op X] assms(3)
  by (auto simp: receive_base_def plain_op_def)

lemma receive_plain_effect:
  fixes X :: crates and op :: op_record and r :: replica
  assumes r: "replica_ok r" "fs_synced r" and op: "plain_op op" "o_origin op \<noteq> rp_node r"
    and fresh: "\<not> has_applied (rp_db r) (o_op_id op)"
  defines "d \<equiv> rp_db r" and "d' \<equiv> rp_db (fst (receive X op r))"
    and "dec \<equiv> decide (load_file (rp_db r) (o_path op)) (o_vv op)"
  shows "t_oplog d' = t_oplog (insert_op op d)" "t_applied d' = t_applied d @ [o_op_id op]"
    "q \<noteq> o_path op \<Longrightarrow> load_row d' q = load_row (receive_base X op r) q"
    "dec \<noteq> Apply \<Longrightarrow> load_row d' (o_path op) = load_row (receive_base X op r) (o_path op)"
    "dec = Apply \<Longrightarrow> load_row d' (o_path op) = Some (op_row (o_path op) op)"
proof -
  let ?b = "receive_base X op r"
  note frame = receive_base_frame(1,2) [OF r op(1), of X]
  have fresh': "\<not> has_applied ?b (o_op_id op)" using fresh frame(2) by (simp add: has_applied_def)
  have d': "d' = fst (apply_remote op dec ?b)"
    unfolding d'_def dec_def by (rule receive_plain_db [OF r op fresh])
  have t: "o_op_type op \<noteq> Rename" "op_source op = None" using op(1) by (auto simp: plain_op_def op_source_def)
  have files: "load_row d' q = load_row (fst (apply_target op dec (insert_op op ?b))) q" for q
    using fresh' t by (auto simp: d' apply_remote_cases remote_files_source)
  show "t_oplog d' = t_oplog (insert_op op d)"
    using fresh' t frame(1) by (auto simp: d' d_def apply_remote_cases insert_op_def)
  show "t_applied d' = t_applied d @ [o_op_id op]"
    using fresh' t frame(2) by (auto simp: d' d_def apply_remote_cases mark_applied_def has_applied_def remote_files_source)
  show "q \<noteq> o_path op \<Longrightarrow> load_row d' q = load_row ?b q"
    by (simp add: files apply_target_rows(1))
  show "dec \<noteq> Apply \<Longrightarrow> load_row d' (o_path op) = load_row ?b (o_path op)"
    by (simp add: files apply_target_rows(2))
  show "load_row d' (o_path op) = Some (op_row (o_path op) op)" if "dec = Apply"
  proof -
    have b: "?b = d" using that by (simp add: receive_base_def d_def dec_def)
    have "merged_vv (load_file d (o_path op)) (o_vv op) = o_vv op"
      using that op(1) replica_ok_db(1) [OF r(1)] files_ok_vv
      by (cases "load_row d (o_path op)")
        (auto simp: merged_vv_def load_file_row dec_def d_def decide_Some_cases row_local_def plain_op_def op_sane_def
          vv_new_def vv_merge_commute vv_merge_dominated split: if_splits)
    with that op(1) show ?thesis
      unfolding files b
      by (auto simp: apply_target_def load_file_row op_row_def plain_op_def dec_def d_def Let_def split: op_type.splits)
  qed
qed

text \<open>What a node must know of an operation for it to fit its log.\<close>

definition causal_op :: "crates \<Rightarrow> db \<Rightarrow> op_record \<Rightarrow> bool" where
  "causal_op X d op \<longleftrightarrow> plain_op op
     \<and> (marked (o_path op) \<longrightarrow> vv_le (copy_vv X (o_path op)) (o_vv op))
     \<and> (op \<notin> set (t_oplog d) \<longrightarrow> o_op_id op \<notin> o_op_id ` set (t_oplog d))
     \<and> (\<not> marked (o_path op) \<longrightarrow> op \<notin> set (t_oplog d) \<longrightarrow> vvs_ok (ops_at (o_path op) (t_oplog d) @ [op]))
     \<and> (\<not> marked (o_path op) \<longrightarrow> vv_le (o_vv op) (vv_join (ops_at (o_path op) (t_oplog d))) \<longrightarrow>
          (\<exists>b \<in> set (ops_at (o_path op) (t_oplog d)). vv_le (o_vv op) (o_vv b)))"

lemma receive_path_settled:
  assumes r: "replica_ok r" "fs_synced r" and op: "causal_op X (rp_db r) op" "o_origin op \<noteq> rp_node r"
    and set: "settled_db X (rp_db r)" "\<not> marked (o_path op)"
    and new: "\<not> has_applied (rp_db r) (o_op_id op)" "op \<notin> set (t_oplog (rp_db r))"
  shows "load_row (rp_db (fst (receive X op r))) (o_path op) =
    settled_row X (o_path op) (ops_at (o_path op) (t_oplog (rp_db r)) @ [op])"
proof -
  let ?p = "o_path op" and ?d = "rp_db r"
  let ?ops = "ops_at ?p (t_oplog ?d)"
  have plain: "plain_op op" using op(1) by (simp add: causal_op_def)
  have vvs: "vvs_ok (?ops @ [op])" using op(1) set(2) new(2) by (simp add: causal_op_def)
  note ok = vvs_ok_snocD [OF vvs]
  have row: "load_row ?d ?p = settled_row X ?p ?ops" using set by (simp add: settled_db_def)
  note eff = receive_plain_effect(4,5) [OF r plain op(2) new(1), of X]
  show ?thesis
  proof (cases "load_row ?d ?p")
    case None
    with row ok have "?ops = []" using settled_none by metis
    with None eff(2) settled_last [OF vvs, of X ?p] show ?thesis
      by (simp add: load_file_row vv_merge_all_def)
  next
    case (Some l)
    have vv: "r_vv l = vv_join ?ops" using settled_vv(1) [of ?ops X ?p l] ok row Some by simp
    have dec: "decide (load_file ?d ?p) (o_vv op) = (if vv_le (o_vv op) (vv_join ?ops) then Ignore
        else if vv_le (vv_join ?ops) (o_vv op) then Apply else DConcurrent)"
      by (simp add: load_file_row Some decide_Some_cases row_local_def vv)
    consider (old) "vv_le (o_vv op) (vv_join ?ops)"
      | (newer) "\<not> vv_le (o_vv op) (vv_join ?ops)" "vv_le (vv_join ?ops) (o_vv op)"
      | (conc) "\<not> vv_le (o_vv op) (vv_join ?ops)" "\<not> vv_le (vv_join ?ops) (o_vv op)" by blast
    then show ?thesis
    proof cases
      case old
      then obtain b where "b \<in> set ?ops" "vv_le (o_vv op) (o_vv b)" using op(1) set(2) by (auto simp: causal_op_def)
      from settled_covered [OF vvs this] old eff(1) dec row show ?thesis by (simp add: receive_base_def)
    next
      case newer
      with settled_last [OF vvs] eff(2) dec show ?thesis by simp
    next
      case conc
      with dec have "decide (load_file ?d ?p) (o_vv op) = DConcurrent" by simp
      with conflict_settles_row [OF r set plain this] settled_concurrent [OF vvs conc] eff(1) show ?thesis
        by (simp add: receive_base_def)
    qed
  qed
qed

lemma receive_copies:
  assumes r: "replica_ok r" "fs_synced r" and op: "causal_op X (rp_db r) op" "o_origin op \<noteq> rp_node r"
    and c: "copies_covered X (rp_db r)" and new: "\<not> has_applied (rp_db r) (o_op_id op)"
  shows "copies_covered X (rp_db (fst (receive X op r)))"
proof -
  have plain: "plain_op op" and m: "marked (o_path op) \<longrightarrow> vv_le (copy_vv X (o_path op)) (o_vv op)"
    using op(1) by (simp_all add: causal_op_def)
  have "copies_covered X (receive_base X op r)"
    using c resolve_copies [OF r(1) c, of "op_version X op" "o_path op"] plain m
    by (auto simp: receive_base_def plain_op_def op_sane_def)
  then show ?thesis
    using receive_plain_effect(3) [OF r plain op(2) new, of _ X]
      receive_plain_effect(4,5) [OF r plain op(2) new, of X] m
    unfolding copies_covered_def
    by (metis (no_types, lifting) file_row.select_convs(6) op_row_def option.inject)
qed

lemma receive_settled:
  assumes r: "replica_ok r" "fs_synced r" and op: "causal_op X (rp_db r) op" "o_origin op \<noteq> rp_node r"
    and set: "settled_db X (rp_db r)" and new: "\<not> has_applied (rp_db r) (o_op_id op)"
  shows "settled_db X (rp_db (fst (receive X op r)))"
    "set (t_oplog (rp_db (fst (receive X op r)))) = insert op (set (t_oplog (rp_db r)))"
proof -
  let ?d = "rp_db r" and ?d' = "rp_db (fst (receive X op r))"
  have plain: "plain_op op" and id: "op \<notin> set (t_oplog ?d) \<longrightarrow> o_op_id op \<notin> o_op_id ` set (t_oplog ?d)"
    using op(1) by (simp_all add: causal_op_def)
  have log: "t_oplog ?d' = (if op \<in> set (t_oplog ?d) then t_oplog ?d else t_oplog ?d @ [op])"
    using receive_plain_effect(1) [OF r plain op(2) new, of X] id by (auto simp: insert_op_def)
  then show "set (t_oplog ?d') = insert op (set (t_oplog ?d))" by auto
  have copies: "copies_covered X ?d" using set by (simp add: settled_db_def)
  have rows: "vvs_ok (ops_at p (t_oplog ?d')) \<and> load_row ?d' p = settled_row X p (ops_at p (t_oplog ?d'))" if p: "\<not> marked p" for p
  proof (cases "p = o_path op")
    case False
    then have "ops_at p (t_oplog ?d') = ops_at p (t_oplog ?d)" by (simp add: log)
    moreover have "load_row ?d' p = load_row ?d p"
      using receive_plain_effect(3) [OF r plain op(2) new False, of X] receive_base_frame(3) [OF r plain False p, of X] by simp
    ultimately show ?thesis using set p by (simp add: settled_db_def)
  next
    case True
    show ?thesis
    proof (cases "op \<in> set (t_oplog ?d)")
      case False
      with True p op(1) receive_path_settled [OF r op set _ new False] show ?thesis
        by (simp add: log causal_op_def)
    next
      case old: True
      let ?ops = "ops_at p (t_oplog ?d)"
      have ok: "vvs_ok ?ops" "load_row ?d p = settled_row X p ?ops" using set p by (simp_all add: settled_db_def)
      have mem: "op \<in> set ?ops" using old True by simp
      then obtain l where l: "load_row ?d p = Some l" using ok settled_none by fastforce
      then have "decide (load_file ?d p) (o_vv op) = Ignore"
        using settled_vv(1) [of ?ops X p l] ok vv_join_ub [OF ok(1) mem]
        by (simp add: load_file_row decide_Some_cases row_local_def)
      then have "load_row ?d' p = load_row ?d p"
        using receive_plain_effect(4) [OF r plain op(2) new, of X] True by (simp add: receive_base_def)
      with ok old show ?thesis by (simp add: log)
    qed
  qed
  show "settled_db X ?d'"
    using receive_copies [OF r op copies new] rows set plain log by (auto simp: settled_db_def)
qed

subsection \<open>Local writes and deletes\<close>

fun local_path :: "replica_event \<Rightarrow> path option" where
  "local_path (LocalWrite p content) = Some p"
| "local_path (LocalWriteMode p content mode) = Some p"
| "local_path (LocalDelete p) = Some p"
| "local_path ev = None"

definition base_vv :: "db \<Rightarrow> path \<Rightarrow> version_vector" where
  "base_vv d p = (case load_row d p of Some l \<Rightarrow> r_vv l | None \<Rightarrow> vv_new)"

lemma local_step_cases:
  assumes ok: "replica_ok r" and ev: "local_path ev = Some p" and room: "append_room X (rp_node r) (rp_db r)"
  defines "d \<equiv> rp_db r" and "d' \<equiv> rp_db (replica_step X ev r)"
  obtains (idle) "d' = d"
    | (append) op where "t_oplog d' = t_oplog d @ [op]" "t_applied d' = t_applied d" "plain_op op" "o_path op = p"
        "o_origin op = rp_node r" "o_op_id op = op_id X (rp_node r) (latest_origin_seq d (rp_node r) + 1)"
        "o_vv op = vv_increment (base_vv d p) (rp_node r)"
        "\<And>q. load_row d' q = (if q = p then Some (op_row p op) else load_row d q)"
proof -
  obtain c fs where c: "replica_step X ev r = fst (replica_append X c (r\<lparr>rp_fs := fs\<rparr>))" "lc_path c = p"
    "lc_op_type c \<noteq> Rename" "lc_manifest c = None"
    "if lc_op_type c = Delete then lc_content_hash c = None \<and> lc_size c = 0 \<and> lc_meta c = None else lc_content_hash c \<noteq> None"
    using ev by (cases ev) (force simp: replica_step_def local_write_def local_write_with_mode_def local_delete_def Let_def)+
  obtain e res where a: "append_local X (rp_node r) c d = (e, res)" by fastforce
  have e: "d' = e" using a by (simp add: d_def d'_def c(1) replica_append_def store_writes Let_def)
  show thesis
  proof (cases "\<exists>op. res = Inr (Some op)")
    case False
    with append_local_idle [OF a] e idle show thesis by blast
  next
    case True
    then obtain op where ap: "append_commit X (rp_node r) c (load_row d p) d = (e, Inr (Some op))"
      using append_local_ok(1) a c(2) by blast
    note facts = append_commit_ok [OF ap]
    have fields: "o_content_hash op = lc_content_hash c" "o_mode op = lc_mode c" "o_size op = lc_size c"
      "o_meta op = lc_meta c" "o_path_old op = None"
      using ap by (auto simp: append_commit_def Let_def split: option.splits if_splits)
    have seq: "o_origin_seq op = latest_origin_seq d (rp_node r) + 1"
      using facts(1) room by (simp add: own_op_def append_room_def i64_add_id d_def)
    have vv: "o_vv op = vv_increment (base_vv d p) (rp_node r)" using facts(3) by (simp add: base_vv_def)
    have "vv_ok (base_vv d p)" using replica_ok_db(1) [OF ok] files_ok_vv by (auto simp: base_vv_def d_def split: option.splits)
    then have "vv_ok (o_vv op)"
      using base_room [of "rp_node r" d p] room by (simp add: vv vv_ok_increment' base_vv_def append_room_def d_def)
    with c(3,5) facts(9) fields have plain: "plain_op op"
      by (auto simp: plain_op_def op_sane_def split: if_splits)
    have log: "t_oplog e = t_oplog d @ [op]"
      using facts(1,2) seq room by (simp add: insert_op_def own_op_def append_room_def d_def)
    have rows: "load_row e q = (if q = p then Some (op_row p op) else load_row d q)" for q
      using facts(4) facts(5) [of q] facts(9) fields c(2) by (auto simp: op_row_def)
    show thesis
      by (rule append [OF log [folded e] _ plain]) (use facts(1,8,9) seq vv rows c(2) e in \<open>auto simp: own_op_def\<close>)
  qed
qed

end
