(* ===== verification/Convergence.thy ===== *)
theory Convergence
  imports Node_Steps
begin

text \<open>
  A network of replicas that write and delete files and stream their logs to each other.
  Operations travel in any order, through any node, any number of times.  The theory shows
  that the row of a path is at every moment a function of the operations in the node's
  log, so nodes with the same operations agree, and that delivering everything makes all
  nodes agree.  Conflict copies may be edited and deleted like other files; what the
  network does not do is create a file under a copy name by hand, or rename files: renames
  carry one path's vector to another, and \<open>Rename_Loss\<close> shows what follows.  All of this is about
  paths that are not the name of a conflict copy: which copies a node has depends on the order in
  which it heard of the operations (\<open>Copy_Order\<close>).
\<close>

type_synonym network = "node_id \<Rightarrow> replica"

abbreviation node_log :: "network \<Rightarrow> node_id \<Rightarrow> op_record list" where
  "node_log net i \<equiv> t_oplog (rp_db (net i))"

definition net_start :: "crates \<Rightarrow> network" where "net_start X = (\<lambda>i. replica_new X i)"

definition net_ops :: "network \<Rightarrow> op_record set" where "net_ops net = (\<Union>i. set (node_log net i))"

inductive net_step :: "crates \<Rightarrow> network \<Rightarrow> network \<Rightarrow> bool" for X where
  net_local: "local_path ev = Some p \<Longrightarrow> (marked p \<Longrightarrow> load_row (rp_db (net i)) p \<noteq> None) \<Longrightarrow>
    append_room X i (rp_db (net i)) \<Longrightarrow>
    op_id X i (latest_origin_seq (rp_db (net i)) i + 1) \<notin> o_op_id ` net_ops net \<Longrightarrow>
    net_step X net (net(i := replica_step X ev (net i)))"
| net_deliver: "op \<in> net_ops net \<Longrightarrow> o_origin op \<noteq> i \<Longrightarrow>
    net_step X net (net(i := replica_step X (Receive op) (net i)))"

inductive net_reachable :: "crates \<Rightarrow> network \<Rightarrow> bool" for X where
  reach_start: "net_reachable X (net_start X)"
| reach_step: "net_reachable X net \<Longrightarrow> net_step X net net' \<Longrightarrow> net_reachable X net'"

inductive_cases net_stepE: "net_step X net net'"

subsection \<open>Histories\<close>

text \<open>
  The operations of a run: ids and, at an unmarked path, vectors identify them; the
  count an origin gives its operation stands for everything the operation covers; and
  every count was given by an operation of that origin.
\<close>

definition same_path :: "op_record \<Rightarrow> op_record \<Rightarrow> bool" where
  "same_path a b \<longleftrightarrow> o_path a = o_path b \<and> \<not> marked (o_path a)"

abbreviation own_count :: "op_record \<Rightarrow> u64" where "own_count a \<equiv> vv_get (o_vv a) (o_origin a)"

definition causal_history :: "crates \<Rightarrow> op_record set \<Rightarrow> bool" where
  "causal_history X U \<longleftrightarrow>
     (\<forall>a \<in> U. plain_op a \<and> own_count a \<noteq> 0 \<and> (marked (o_path a) \<longrightarrow> vv_le (copy_vv X (o_path a)) (o_vv a)))
     \<and> (\<forall>a \<in> U. \<forall>b \<in> U. o_op_id a = o_op_id b \<longrightarrow> a = b)
     \<and> (\<forall>a \<in> U. \<forall>b \<in> U. same_path a b \<longrightarrow> o_vv a = o_vv b \<longrightarrow> a = b)
     \<and> (\<forall>a \<in> U. \<forall>b \<in> U. same_path a b \<longrightarrow> own_count a \<le> vv_get (o_vv b) (o_origin a) \<longrightarrow> vv_le (o_vv a) (o_vv b))
     \<and> (\<forall>a \<in> U. \<forall>k. \<not> marked (o_path a) \<longrightarrow> vv_get (o_vv a) k \<noteq> 0 \<longrightarrow>
          (\<exists>c \<in> U. same_path c a \<and> o_origin c = k \<and> own_count c = vv_get (o_vv a) k))"

lemma historyD:
  assumes "causal_history X U" "a \<in> U"
  shows "plain_op a" "own_count a \<noteq> 0" "marked (o_path a) \<Longrightarrow> vv_le (copy_vv X (o_path a)) (o_vv a)"
    "b \<in> U \<Longrightarrow> o_op_id a = o_op_id b \<Longrightarrow> a = b"
    "b \<in> U \<Longrightarrow> same_path a b \<Longrightarrow> o_vv a = o_vv b \<Longrightarrow> a = b"
    "b \<in> U \<Longrightarrow> same_path a b \<Longrightarrow> own_count a \<le> vv_get (o_vv b) (o_origin a) \<Longrightarrow> vv_le (o_vv a) (o_vv b)"
    "\<not> marked (o_path a) \<Longrightarrow> vv_get (o_vv a) k \<noteq> 0 \<Longrightarrow>
       \<exists>c \<in> U. same_path c a \<and> o_origin c = k \<and> own_count c = vv_get (o_vv a) k"
  using assms unfolding causal_history_def by blast+

lemma vv_ok_plain: "plain_op a \<Longrightarrow> vv_ok (o_vv a)"
  by (simp add: plain_op_def op_sane_def)

lemma history_vvs:
  assumes "causal_history X U" "set ops \<subseteq> U" "distinct ops" "\<not> marked p"
  shows "vvs_ok (ops_at p ops)"
proof -
  have "inj_on o_vv (set (ops_at p ops))"
  proof (intro inj_onI)
    fix x y assume "x \<in> set (ops_at p ops)" "y \<in> set (ops_at p ops)" "o_vv x = o_vv y"
    with assms(2,4) show "x = y" by (intro historyD(5) [OF assms(1)]) (auto simp: same_path_def)
  qed
  then show ?thesis
    using assms historyD(1) [OF assms(1)] vv_ok_plain by (auto simp: vvs_ok_def ops_at_def)
qed

text \<open>An operation below the join of some others is below one of them.\<close>

lemma history_join_prime:
  assumes h: "causal_history X U" and ops: "set ops \<subseteq> U" "distinct ops" "\<not> marked p"
    and a: "a \<in> U" "o_path a = p" "own_count a \<le> vv_get (vv_join (ops_at p ops)) (o_origin a)"
  shows "\<exists>b \<in> set (ops_at p ops). vv_le (o_vv a) (o_vv b)"
proof -
  have "vv_get (vv_join (ops_at p ops)) (o_origin a) \<noteq> 0"
    using a historyD(2) [OF h a(1)] by (metis le_zero_eq word_le_0_iff)
  from vv_merge_all_get [OF vvs_ok_list [OF history_vvs [OF h ops]] this]
  obtain b where b: "b \<in> set (ops_at p ops)" "vv_get (o_vv b) (o_origin a) = vv_get (vv_join (ops_at p ops)) (o_origin a)"
    by auto
  then have "vv_le (o_vv a) (o_vv b)"
    using historyD(6) [OF h a(1), of b] a ops by (auto simp: same_path_def)
  with b show ?thesis by blast
qed

lemma history_causal_op:
  assumes h: "causal_history X U" and log: "set (t_oplog d) \<subseteq> U" "distinct (t_oplog d)" and op: "op \<in> U"
  shows "causal_op X d op"
proof -
  have "\<exists>b \<in> set (ops_at (o_path op) (t_oplog d)). vv_le (o_vv op) (o_vv b)"
    if "\<not> marked (o_path op)" "vv_le (o_vv op) (vv_join (ops_at (o_path op) (t_oplog d)))"
    using that by (intro history_join_prime [OF h log _ op]) (auto simp: vv_le_def)
  moreover have "vvs_ok (ops_at (o_path op) (t_oplog d) @ [op])" if "\<not> marked (o_path op)" "op \<notin> set (t_oplog d)"
    using history_vvs [OF h, of "t_oplog d @ [op]" "o_path op"] that log op by simp
  ultimately show ?thesis
    using historyD [OF h op] log(1) by (auto simp: causal_op_def)
qed

lemma history_extend:
  assumes h: "causal_history X U" and log: "set ops \<subseteq> U" "distinct ops"
    and own: "\<forall>a \<in> U. o_origin a = i \<longrightarrow> a \<in> set ops"
    and op: "plain_op op" "o_origin op = i" "o_op_id op \<notin> o_op_id ` U" "o_vv op = vv_increment base i" "vv_get base i \<noteq> - 1"
    and base: "\<not> marked (o_path op) \<Longrightarrow> base = vv_join (ops_at (o_path op) ops)"
      "marked (o_path op) \<Longrightarrow> vv_le (copy_vv X (o_path op)) base"
  shows "causal_history X (insert op U)"
proof -
  let ?p = "o_path op"
  have get: "vv_get (o_vv op) k = (if k = i then vv_get base i + 1 else vv_get base k)" for k
    by (simp add: op(4) vv_get_increment)
  have less: "vv_get base i < vv_get (o_vv op) i" using u64_succ_less [OF op(5)] by (simp add: get)
  have le: "vv_le base (o_vv op)" using less by (auto simp: vv_le_def get)
  have bound: "vv_get (o_vv a) i \<le> vv_get base i" if a: "a \<in> U" "same_path a op" for a
  proof (cases "vv_get (o_vv a) i = 0")
    case False
    then obtain c where c: "c \<in> U" "same_path c a" "o_origin c = i" "own_count c = vv_get (o_vv a) i"
      using historyD(7) [OF h a(1)] a(2) by (metis same_path_def)
    have p: "\<not> marked ?p" using a(2) by (auto simp: same_path_def)
    have "c \<in> set (ops_at ?p ops)" using c own a by (auto simp: same_path_def)
    from vv_join_ub [OF history_vvs [OF h log p] this] have "vv_le (o_vv c) base" using base(1) [OF p] by simp
    with c show ?thesis by (metis vv_le_def)
  qed simp
  have below: "vv_le (o_vv a) (o_vv op)" if a: "a \<in> U" "same_path a op" "own_count a \<le> vv_get (o_vv op) (o_origin a)" for a
  proof -
    have p: "\<not> marked ?p" "o_path a = ?p" using a(2) by (auto simp: same_path_def)
    have b: "base = vv_join (ops_at ?p ops)" using base(1) p by simp
    have "own_count a \<le> vv_get base (o_origin a)"
      using a(3) get [of "o_origin a"] bound [OF a(1,2)] by (cases "o_origin a = i") auto
    then obtain c where "c \<in> set (ops_at ?p ops)" "vv_le (o_vv a) (o_vv c)"
      using history_join_prime [OF h log p(1) a(1) p(2)] b by auto
    with b vv_join_ub [OF history_vvs [OF h log p(1)]] le show ?thesis by (metis vv_le_trans)
  qed
  have above: "\<not> vv_get (o_vv op) i \<le> vv_get (o_vv b) i" if "b \<in> U" "same_path op b" for b
    using bound [of b] less that by (fastforce simp: same_path_def)
  have creators: "\<exists>c \<in> insert op U. same_path c op \<and> o_origin c = k \<and> own_count c = vv_get (o_vv op) k"
    if "\<not> marked ?p" "vv_get (o_vv op) k \<noteq> 0" for k
  proof (cases "k = i")
    case True
    with op(2) that show ?thesis by (auto simp: same_path_def)
  next
    case False
    have bk: "vv_get (o_vv op) k = vv_get (vv_join (ops_at ?p ops)) k" using False get [of k] base(1) [OF that(1)] by simp
    with that have "vv_get (vv_join (ops_at ?p ops)) k \<noteq> 0" by simp
    from vv_merge_all_get [OF vvs_ok_list [OF history_vvs [OF h log that(1)]] this]
    obtain b where b: "b \<in> set (ops_at ?p ops)" "vv_get (o_vv b) k = vv_get (o_vv op) k"
      using bk by auto
    then have "b \<in> U" "o_path b = ?p" using log by auto
    with historyD(7) [OF h, of b k] b that show ?thesis by (auto simp: same_path_def)
  qed
  have pos: "own_count op \<noteq> 0" using less op(2) by (metis word_not_simps(1))
  have mark: "marked ?p \<longrightarrow> vv_le (copy_vv X ?p) (o_vv op)" using base(2) le vv_le_trans by blast
  show ?thesis
    unfolding causal_history_def
  proof (intro conjI ballI allI impI)
    fix a b assume ab: "a \<in> insert op U" "b \<in> insert op U"
    show "a = b" if "o_op_id a = o_op_id b" using ab that op(3) historyD(4) [OF h] by (metis imageI insertE)
    show "a = b" if "same_path a b" "o_vv a = o_vv b"
      using ab that above historyD(5) [OF h] by (auto simp: same_path_def) (metis order_refl)+
    show "vv_le (o_vv a) (o_vv b)" if "same_path a b" "own_count a \<le> vv_get (o_vv b) (o_origin a)"
      using ab that above below historyD(6) [OF h] op(2) by auto
  next
    fix a k assume a: "a \<in> insert op U" "\<not> marked (o_path a)" "vv_get (o_vv a) k \<noteq> 0"
    show "\<exists>c \<in> insert op U. same_path c a \<and> o_origin c = k \<and> own_count c = vv_get (o_vv a) k"
      using a creators historyD(7) [OF h] by auto
  qed (use op(1) pos mark historyD [OF h] in auto)
qed

subsection \<open>The invariant of the network\<close>

definition node_inv :: "crates \<Rightarrow> op_record set \<Rightarrow> node_id \<Rightarrow> replica \<Rightarrow> bool" where
  "node_inv X U i r \<longleftrightarrow> rp_node r = i \<and> replica_ok r \<and> fs_synced r \<and> settled_db X (rp_db r)
     \<and> set (t_oplog (rp_db r)) \<subseteq> U
     \<and> (\<forall>a \<in> U. o_origin a = i \<longrightarrow> a \<in> set (t_oplog (rp_db r)))
     \<and> set (t_applied (rp_db r)) \<subseteq> o_op_id ` set (t_oplog (rp_db r))"

definition net_inv :: "crates \<Rightarrow> network \<Rightarrow> bool" where
  "net_inv X net \<longleftrightarrow> causal_history X (net_ops net) \<and> (\<forall>i. node_inv X (net_ops net) i (net i))"

lemma replica_ok_log: "replica_ok r \<Longrightarrow> distinct (t_oplog (rp_db r))"
  by (auto simp: replica_ok_def store_ok_def db_ok_def distinct_map)

lemma net_start_inv: "net_inv X (net_start X)"
proof -
  have "rp_db (replica_new X i) = empty_db" for i
    by (simp add: replica_new_def open_store_def Let_def empty_db_def migrate_uuids_def backfill_uuids_def backfill_cursors_def)
  moreover have "rp_node (replica_new X i) = i" for i by (simp add: replica_new_def)
  ultimately show ?thesis
    using replica_new_ok
    by (auto simp: net_inv_def net_start_def net_ops_def causal_history_def node_inv_def settled_db_def copies_covered_def
        vvs_ok_def settled_row_def top_ops_def)
qed

lemma net_ops_update:
  assumes "set (t_oplog (rp_db r)) = set (node_log net i) \<union> A"
  shows "net_ops (net(i := r)) = net_ops net \<union> A"
  using assms unfolding net_ops_def by (auto split: if_splits)

lemma node_inv_mono:
  assumes "node_inv X U i r" "U \<subseteq> V" "\<forall>a \<in> V - U. o_origin a \<noteq> i" shows "node_inv X V i r"
  using assms by (auto simp: node_inv_def)

lemma base_vv_join:
  assumes "settled_db X d" "\<not> marked p" shows "base_vv d p = vv_join (ops_at p (t_oplog d))"
proof -
  have ok: "vvs_ok (ops_at p (t_oplog d))" "load_row d p = settled_row X p (ops_at p (t_oplog d))"
    using assms by (auto simp: settled_db_def)
  show ?thesis
  proof (cases "load_row d p")
    case None
    then have "ops_at p (t_oplog d) = []" using settled_none ok by metis
    with None show ?thesis by (simp add: base_vv_def vv_merge_all_def)
  next
    case (Some l)
    then have "r_vv l = vv_join (ops_at p (t_oplog d))" using settled_vv(1) [OF ok(1), of X p l] ok(2) by simp
    with Some show ?thesis by (simp add: base_vv_def)
  qed
qed

lemma settled_append:
  assumes s: "settled_db X d" and log: "t_oplog d' = t_oplog d @ [op]" and op: "plain_op op"
    "vv_le (base_vv d (o_path op)) (o_vv op)"
    and vvs: "\<not> marked (o_path op) \<Longrightarrow> vvs_ok (ops_at (o_path op) (t_oplog d @ [op]))"
    and m: "marked (o_path op) \<Longrightarrow> vv_le (copy_vv X (o_path op)) (o_vv op)"
    and rows: "\<And>q. load_row d' q = (if q = o_path op then Some (op_row (o_path op) op) else load_row d q)"
  shows "settled_db X d'"
proof -
  have "vvs_ok (ops_at p (t_oplog d')) \<and> load_row d' p = settled_row X p (ops_at p (t_oplog d'))" if "\<not> marked p" for p
  proof (cases "p = o_path op")
    case True
    with vvs that have ok: "vvs_ok (ops_at p (t_oplog d) @ [op])" by simp
    have "vv_le (vv_join (ops_at p (t_oplog d))) (o_vv op)" using op(2) base_vv_join [OF s that] True by simp
    from settled_last [OF ok this] ok True show ?thesis by (simp add: log rows)
  next
    case False
    with s that show ?thesis by (simp add: log rows settled_db_def)
  qed
  then show ?thesis
    using s op(1) m by (auto simp: settled_db_def copies_covered_def log rows op_row_def)
qed

lemma net_local_inv:
  assumes inv: "net_inv X net" and ev: "local_path ev = Some p"
    and copy: "marked p \<Longrightarrow> load_row (rp_db (net i)) p \<noteq> None" and room: "append_room X i (rp_db (net i))"
    and fresh: "op_id X i (latest_origin_seq (rp_db (net i)) i + 1) \<notin> o_op_id ` net_ops net"
  shows "net_inv X (net(i := replica_step X ev (net i)))"
proof -
  let ?r = "net i" and ?r' = "replica_step X ev (net i)" and ?U = "net_ops net"
  have h: "causal_history X ?U" and ni: "node_inv X ?U j (net j)" for j using inv by (auto simp: net_inv_def)
  have r: "rp_node ?r = i" "replica_ok ?r" "fs_synced ?r" "settled_db X (rp_db ?r)" "set (node_log net i) \<subseteq> ?U"
    "\<forall>a \<in> ?U. o_origin a = i \<longrightarrow> a \<in> set (node_log net i)"
    "set (t_applied (rp_db ?r)) \<subseteq> o_op_id ` set (node_log net i)"
    using ni [of i] by (auto simp: node_inv_def)
  have "event_ok X ev ?r" using ev room r(1) by (cases ev) (auto simp: event_ok_def)
  from replica_step_good [OF r(2,3) this] have good: "replica_ok ?r'" "fs_synced ?r'" "rp_node ?r' = i"
    using r(1) by (auto simp: good_step_def)
  show ?thesis
  proof (rule local_step_cases [OF r(2) ev, of X])
    show "append_room X (rp_node ?r) (rp_db ?r)" using room r(1) by simp
  next
    assume same: "rp_db ?r' = rp_db ?r"
    then have U: "net_ops (net(i := ?r')) = ?U" using net_ops_update [of ?r' net i "{}"] by simp
    show ?thesis unfolding net_inv_def U using h ni good same by (auto simp: node_inv_def)
  next
    fix op
    assume a: "t_oplog (rp_db ?r') = node_log net i @ [op]" "t_applied (rp_db ?r') = t_applied (rp_db ?r)" "plain_op op"
      "o_path op = p" "o_origin op = rp_node ?r" "o_op_id op = op_id X (rp_node ?r) (latest_origin_seq (rp_db ?r) (rp_node ?r) + 1)"
      "o_vv op = vv_increment (base_vv (rp_db ?r) p) (rp_node ?r)"
      "\<And>q. load_row (rp_db ?r') q = (if q = p then Some (op_row p op) else load_row (rp_db ?r) q)"
    let ?base = "base_vv (rp_db ?r) p"
    have b: "vv_get ?base i \<noteq> - 1" using base_room [of i "rp_db ?r" p] room by (simp add: append_room_def base_vv_def)
    have le: "vv_le ?base (o_vv op)" using vv_increment_ge [OF b] a(7) r(1) by simp
    have m: "marked p \<Longrightarrow> vv_le (copy_vv X p) ?base"
      using copy r(4) by (auto simp: settled_db_def copies_covered_def base_vv_def)
    have h': "causal_history X (insert op ?U)"
      using history_extend [OF h r(5) replica_ok_log [OF r(2)] r(6) a(3), of ?base] a r(1) b base_vv_join [OF r(4)] m fresh
      by simp
    have U: "net_ops (net(i := ?r')) = insert op ?U" using net_ops_update [of ?r' net i "{op}"] a(1) by auto
    have "distinct (node_log net i @ [op])" using replica_ok_log [OF good(1)] a(1) by simp
    then have vvs: "\<not> marked p \<Longrightarrow> vvs_ok (ops_at p (node_log net i @ [op]))"
      using r(5) by (intro history_vvs [OF h']) auto
    have "settled_db X (rp_db ?r')"
      using a(8) le m vvs vv_le_trans by (intro settled_append [OF r(4) a(1,3)]) (auto simp: a(4))
    then have "node_inv X (insert op ?U) i ?r'"
      using good r(5-7) a by (auto simp: node_inv_def)
    moreover have "node_inv X (insert op ?U) j (net j)" if "j \<noteq> i" for j
      using node_inv_mono [OF ni [of j], of "insert op ?U"] a(5) r(1) that by auto
    ultimately show ?thesis unfolding net_inv_def U using h' by simp
  qed
qed

lemma net_deliver_inv:
  assumes inv: "net_inv X net" and op: "op \<in> net_ops net" "o_origin op \<noteq> i"
  shows "net_inv X (net(i := replica_step X (Receive op) (net i)))"
    "set (node_log (net(i := replica_step X (Receive op) (net i))) i) = insert op (set (node_log net i))"
proof -
  let ?r = "net i" and ?U = "net_ops net"
  let ?r' = "replica_step X (Receive op) ?r"
  have h: "causal_history X ?U" and ni: "node_inv X ?U j (net j)" for j using inv by (auto simp: net_inv_def)
  have r: "rp_node ?r = i" "replica_ok ?r" "fs_synced ?r" "settled_db X (rp_db ?r)" "set (node_log net i) \<subseteq> ?U"
    "\<forall>a \<in> ?U. o_origin a = i \<longrightarrow> a \<in> set (node_log net i)"
    "set (t_applied (rp_db ?r)) \<subseteq> o_op_id ` set (node_log net i)"
    using ni [of i] by (auto simp: node_inv_def)
  have co: "causal_op X (rp_db ?r) op" using history_causal_op [OF h r(5) replica_ok_log [OF r(2)] op(1)] .
  then have plain: "plain_op op" by (simp add: causal_op_def)
  have step: "?r' = fst (receive X op ?r)" by (simp add: replica_step_def)
  have "set (t_oplog (rp_db ?r')) = insert op (set (node_log net i)) \<and> node_inv X ?U i ?r'"
  proof (cases "has_applied (rp_db ?r) (o_op_id op)")
    case True
    then have "?r' = ?r" by (simp add: step receive_def)
    moreover have "op \<in> set (node_log net i)"
      using True r(5,7) op(1) historyD(4) [OF h op(1)] by (auto simp: has_applied_def)
    ultimately show ?thesis using ni [of i] by auto
  next
    case False
    have oi: "o_origin op \<noteq> rp_node ?r" using op(2) r(1) by simp
    have "op_sane op" using plain by (simp add: plain_op_def)
    from receive_ok [OF r(2,3) this oi, of X] have good: "replica_ok ?r'" "fs_synced ?r'" "rp_node ?r' = i"
      using r(1) by (auto simp: good_step_def step)
    note s = receive_settled [OF r(2,3) co oi r(4) False, folded step]
    have "t_applied (rp_db ?r') = t_applied (rp_db ?r) @ [o_op_id op]"
      unfolding step by (rule receive_plain_effect(2) [OF r(2,3) plain oi False])
    with good s r op(1) show ?thesis by (auto simp: node_inv_def)
  qed
  then have new: "set (t_oplog (rp_db ?r')) = insert op (set (node_log net i))" "node_inv X ?U i ?r'" by blast+
  then have "net_ops (net(i := ?r')) = ?U" using net_ops_update [of ?r' net i "{op}"] op(1) by auto
  with new h ni show "net_inv X (net(i := ?r'))" by (simp add: net_inv_def)
  from new show "set (node_log (net(i := ?r')) i) = insert op (set (node_log net i))" by simp
qed

lemma reachable_inv: "net_reachable X net \<Longrightarrow> net_inv X net"
proof (induction rule: net_reachable.induct)
  case reach_start
  then show ?case by (rule net_start_inv)
next
  case (reach_step net net')
  from reach_step.hyps(2) show ?case
  proof (cases rule: net_step.cases)
    case (net_local ev p i)
    with net_local_inv [OF reach_step.IH] show ?thesis by blast
  next
    case (net_deliver op i)
    with net_deliver_inv(1) [OF reach_step.IH] show ?thesis by blast
  qed
qed

lemma reachable_node:
  assumes "net_reachable X net"
  shows "settled_db X (rp_db (net i))" "fs_synced (net i)" "set (node_log net i) \<subseteq> net_ops net"
    "a \<in> net_ops net \<Longrightarrow> o_origin a = i \<Longrightarrow> a \<in> set (node_log net i)"
  using reachable_inv [OF assms] by (auto simp: net_inv_def node_inv_def)

lemma reachable_agree:
  assumes "net_reachable X net" "\<not> marked p"
    and "set (ops_at p (node_log net i)) = set (ops_at p (node_log net j))"
    and "keys_separate (op_as_candidate X p ` set (ops_at p (node_log net i)))"
  shows "load_row (rp_db (net i)) p = load_row (rp_db (net j)) p \<and> bt_get (rp_fs (net i)) p = bt_get (rp_fs (net j)) p"
proof -
  note s = reachable_node(1) [OF assms(1), of i] reachable_node(1) [OF assms(1), of j]
  have "load_row (rp_db (net i)) p = load_row (rp_db (net j)) p"
    using s assms(2) settled_set [OF _ _ assms(3,4)] by (simp add: settled_db_def)
  then show ?thesis
    using reachable_node(2) [OF assms(1), of i] reachable_node(2) [OF assms(1), of j]
    by (simp add: fs_synced_def row_content_def)
qed

subsection \<open>Delivering everything\<close>

text \<open>A node handles a list of operations, its own left out.\<close>

definition deliver :: "crates \<Rightarrow> node_id \<Rightarrow> op_record \<Rightarrow> network \<Rightarrow> network" where
  "deliver X i op net = (if o_origin op = i then net else net(i := replica_step X (Receive op) (net i)))"

definition deliver_all :: "crates \<Rightarrow> node_id \<Rightarrow> op_record list \<Rightarrow> network \<Rightarrow> network" where
  "deliver_all X i ops net = fold (deliver X i) ops net"

lemma deliver_step:
  assumes "net_reachable X net" "op \<in> net_ops net"
  shows "net_reachable X (deliver X i op net)" "net_ops (deliver X i op net) = net_ops net"
    "set (node_log (deliver X i op net) i) = insert op (set (node_log net i))"
    "j \<noteq> i \<Longrightarrow> deliver X i op net j = net j"
proof -
  note inv = reachable_inv [OF assms(1)]
  show "net_reachable X (deliver X i op net)"
    using assms by (auto simp: deliver_def intro: reach_step net_deliver)
  show log: "set (node_log (deliver X i op net) i) = insert op (set (node_log net i))"
    using net_deliver_inv(2) [OF inv assms(2)] reachable_node(4) [OF assms] by (auto simp: deliver_def)
  show "j \<noteq> i \<Longrightarrow> deliver X i op net j = net j" for j by (simp add: deliver_def)
  then show "net_ops (deliver X i op net) = net_ops net"
    using log assms(2) unfolding net_ops_def by (auto split: if_splits) (metis insertE insertI2)+
qed

lemma deliver_all_steps:
  assumes "net_reachable X net" "set ops \<subseteq> net_ops net"
  shows "net_reachable X (deliver_all X i ops net) \<and> net_ops (deliver_all X i ops net) = net_ops net
    \<and> set (node_log (deliver_all X i ops net) i) = set ops \<union> set (node_log net i)
    \<and> (\<forall>j. j \<noteq> i \<longrightarrow> deliver_all X i ops net j = net j)"
  using assms
proof (induction ops arbitrary: net)
  case (Cons op ops)
  then have "op \<in> net_ops net" by simp
  note step = deliver_step(1-3) [OF Cons.prems(1) this, of i] deliver_step(4) [OF Cons.prems(1) this, of _ i]
  from Cons.IH [OF step(1)] Cons.prems(2) step show ?case by (auto simp: deliver_all_def)
qed (simp add: deliver_all_def)

lemma deliver_everywhere:
  assumes "net_reachable X net" "\<And>i. set (order i) = net_ops net" "distinct ns"
  defines "net' \<equiv> fold (\<lambda>i. deliver_all X i (order i)) ns net"
  shows "net_reachable X net' \<and> net_ops net' = net_ops net \<and> (\<forall>i \<in> set ns. set (node_log net' i) = net_ops net)
    \<and> (\<forall>i. i \<notin> set ns \<longrightarrow> net' i = net i)"
  unfolding net'_def using assms(1-3)
proof (induction ns arbitrary: net)
  case (Cons i ns)
  let ?n = "deliver_all X i (order i) net"
  note step = deliver_all_steps [OF Cons.prems(1), of "order i" i]
  have s: "net_reachable X ?n" "net_ops ?n = net_ops net" "set (node_log ?n i) = net_ops net"
    using step Cons.prems(2) reachable_node(3) [OF Cons.prems(1)] by auto
  have "\<And>j. set (order j) = net_ops ?n" "distinct ns" using Cons.prems s(2) by auto
  note IH = Cons.IH [OF s(1) this]
  show ?case
  proof (intro conjI ballI allI impI)
    fix j assume "j \<in> set (i # ns)"
    then show "set (node_log (fold (\<lambda>i. deliver_all X i (order i)) (i # ns) net) j) = net_ops net"
      using IH s Cons.prems(3) by (cases "j = i") auto
  next
    fix j assume "j \<notin> set (i # ns)"
    then show "fold (\<lambda>i. deliver_all X i (order i)) (i # ns) net j = net j"
      using IH step Cons.prems(2) by auto
  qed (use IH s in auto)
qed simp

subsection \<open>Properties\<close>

text \<open>Two nodes that write the same path before they hear of each other.\<close>

definition write_op :: "node_id \<Rightarrow> bytes \<Rightarrow> op_record" where
  "write_op i c = \<lparr>o_op_id = op_id plain_crates i 1, o_origin = i, o_origin_seq = 1, o_op_type = Write, o_path = ''f'',
     o_path_old = None, o_uuid = Some (fresh_uuid plain_crates i 1 ''f''), o_mode = 420, o_size = of_nat (length c),
     o_content_hash = Some c, o_meta = None, o_vv = [(i, 1)]\<rparr>"

definition two_writes :: network where
  "two_writes = (net_start plain_crates)
     ([1] := replica_step plain_crates (LocalWrite ''f'' [7]) (replica_new plain_crates [1]),
      [2] := replica_step plain_crates (LocalWrite ''f'' [9]) (replica_new plain_crates [2]))"

lemma new_db: "rp_db (replica_new X i) = empty_db" "rp_node (replica_new X i) = i"
  by (simp_all add: replica_new_def open_store_def Let_def empty_db_def migrate_uuids_def backfill_uuids_def backfill_cursors_def)

lemma first_write:
  "t_oplog (rp_db (replica_step plain_crates (LocalWrite ''f'' c) (replica_new plain_crates i))) = [write_op i c]"
  by (simp add: replica_step_def local_write_def replica_append_def store_writes new_db append_local_def append_commit_def
      Let_def insert_op_def write_op_def latest_origin_seq_def seqs_of_def list_max_def i64_add_def i64_wrap_def
      vv_increment_def vv_new_def plain_crates_def)

lemma two_writes_ops: "net_ops two_writes = {write_op [1] [7], write_op [2] [9]}"
proof -
  have "node_log two_writes i = (if i = [2] then [write_op [2] [9]] else if i = [1] then [write_op [1] [7]] else [])" for i
    by (simp add: two_writes_def first_write net_start_def new_db)
  then have "net_ops two_writes = (\<Union>i::node_id. set (if i = [2] then [write_op [2] [9]] else if i = [1] then [write_op [1] [7]] else []))"
    by (simp only: net_ops_def)
  also have "\<dots> = {write_op [1] [7], write_op [2] [9]}" by (auto split: if_splits) (rule exI [of _ "[1]"], simp)
  finally show ?thesis .
qed

lemma two_writes_reachable: "net_reachable plain_crates two_writes"
proof -
  let ?w = "\<lambda>i c. replica_step plain_crates (LocalWrite ''f'' c) (replica_new plain_crates i)"
  let ?n = "net_start plain_crates"
  have room: "append_room plain_crates i empty_db" for i
    by (simp add: append_room_def counter_room_def latest_origin_seq_def seqs_of_def list_max_def is_i64_def)
  have unmarked: "\<not> marked ''f''" by (simp add: COPY_MARKER_def)
  have ops: "net_ops (?n([1] := ?w [1] [7])) = {write_op [1] [7]}"
    unfolding net_ops_def by (auto simp: first_write net_start_def new_db split: if_splits)
  have "net_step plain_crates ?n (?n([1] := replica_step plain_crates (LocalWrite ''f'' [7]) (?n [1])))"
    by (rule net_local) (use room unmarked in \<open>auto simp: net_start_def new_db net_ops_def\<close>)
  then have 1: "net_reachable plain_crates (?n([1] := ?w [1] [7]))"
    using reach_step [OF reach_start] by (simp add: net_start_def)
  have "net_step plain_crates (?n([1] := ?w [1] [7]))
      (?n([1] := ?w [1] [7], [2] := replica_step plain_crates (LocalWrite ''f'' [9]) ((?n([1] := ?w [1] [7])) [2])))"
  proof (rule net_local)
    show "op_id plain_crates [2] (latest_origin_seq (rp_db ((?n([1] := ?w [1] [7])) [2])) [2] + 1)
        \<notin> o_op_id ` net_ops (?n([1] := ?w [1] [7]))"
      unfolding ops by (simp add: net_start_def new_db write_op_def op_id_def plain_crates_def)
  qed (use room unmarked in \<open>auto simp: net_start_def new_db\<close>)
  from reach_step [OF 1 this] show ?thesis by (simp add: two_writes_def net_start_def)
qed

lemma two_writes_keys:
  "keys_separate (op_as_candidate plain_crates ''f'' ` {a \<in> net_ops two_writes. o_path a = ''f''})"
  by (auto simp: two_writes_ops keys_separate_def op_as_candidate_def write_op_def version_key_def Let_def)







end
