(* ===== verification/Rename_Loss.thy ===== *)
theory Rename_Loss
  imports Convergence
begin

text \<open>
  Why the network of \<open>Convergence\<close> does without renames.  Counters are kept per path, but
  a rename gives the target the vector of the source, whose counters were counted at
  another path.  A node's first write of the target is then covered by the rename of a
  node that never saw it.
\<close>

lemma rename_vv_covers:
  assumes "append_local_rename X b old new d = (d', Inr (Some op))" "load_row d old = Some src"
    "load_row d new = None" "vv_get (r_vv src) b \<noteq> - 1"
  shows "vv_le (r_vv src) (o_vv op)" "o_content_hash op = r_content_hash src" "o_path op = new" "o_path_old op = Some old"
    "o_op_type op = Rename" "o_origin op = b" "\<not> r_tombstone src" "old \<noteq> new"
  using assms vv_increment_ge [of "r_vv src" b]
  by (auto simp: append_local_rename_def Let_def split: if_splits)

text \<open>
  A rename can replace a version its author never saw.  When a node renames a file to a
  path it has no row for, any node whose own row at that path has smaller counters than
  the source applies the rename, replaces its content and keeps no conflict copy: no row
  but those of the two paths changes.
\<close>

theorem rename_replaces_unseen_write:
  assumes "append_local_rename X b old new d = (d', Inr (Some op))" "load_row d old = Some src"
    and "load_row d new = None" "vv_get (r_vv src) b \<noteq> - 1"
    and "replica_ok r" "fs_synced r" "op_sane op" "rp_node r \<noteq> b" "\<not> has_applied (rp_db r) (o_op_id op)"
    and "load_row (rp_db r) new = Some l" "vv_le (r_vv l) (r_vv src)"
    and "load_row (rp_db r) old = Some k" "vv_le (r_vv k) (r_vv src)" "\<not> vv_le (o_vv op) (r_vv l)"
  shows "row_content (rp_db (fst (receive X op r))) new = r_content_hash src
    \<and> (\<forall>q. q \<noteq> old \<longrightarrow> q \<noteq> new \<longrightarrow> load_row (rp_db (fst (receive X op r))) q = load_row (rp_db r) q)"
proof -
  note op = rename_vv_covers [OF assms(1-4)]
  have src: "op_source op = Some old" by (simp add: op_source_def op)
  have le: "vv_le (r_vv l) (o_vv op)" "vv_le (r_vv k) (o_vv op)" using assms(11,13) op(1) vv_le_trans by blast+
  have dec: "decide (load_file (rp_db r) new) (o_vv op) = Apply"
    using assms(10,14) le by (simp add: load_file_row decide_Some_cases row_local_def)
  let ?r1 = "r\<lparr>rp_fs := apply_effect X op r\<rparr>"
  have r1: "replica_ok ?r1" using assms(5) by (simp add: replica_ok_def)
  obtain e where e: "apply_remote op Apply (rp_db r) = (e, Inr Apply)"
    "\<And>q. q \<noteq> new \<Longrightarrow> q \<noteq> old \<Longrightarrow> load_row e q = load_row (rp_db r) q"
    "row_content e new = o_content_hash op"
    using remote_commit [OF r1 assms(7), of Apply] assms(8,9) dec op src by (simp add: op(3) op(5)) metis
  let ?r2 = "?r1\<lparr>rp_store := (rp_store r)\<lparr>s_db := e\<rparr>\<rparr>"
  have e_old: "vv_le (o_vv op) (r_vv row)" if "load_row e old = Some row" for row
    using that e(1) assms(9,12) op le(2) files_ok_vv [OF replica_ok_db(1) [OF assms(5)] assms(12)] assms(7)
    by (auto simp: apply_remote_cases remote_files_source src apply_source_def load_file_row Let_def decide_Some_cases
        op_sane_def row_local_def merged_vv_def apply_target_rows vv_merge_ub2 split: if_splits option.splits)
  have post: "decide (load_file e old) (o_vv op) \<noteq> DConcurrent"
    using e_old by (cases "load_row e old") (auto simp: load_file_row decide_Some_cases row_local_def)
  have "rp_db (fst (receive X op r)) = e"
    using assms(9) dec e(1) post op
    by (auto simp: receive_def receive_commit_def receive_finish_def rename_post_def store_writes store_reads Let_def
        split: decision.splits prod.splits sum.splits)
  with e op show ?thesis by auto
qed

text \<open>
  Node 1 wrote \<open>q\<close> twice and then creates \<open>p\<close>; node 2 has seen the two writes of \<open>q\<close>, and
  renames \<open>q\<close> to \<open>p\<close>.
\<close>

definition seen_row :: "path \<Rightarrow> hash32 \<Rightarrow> version_vector \<Rightarrow> file_row" where
  "seen_row p h vv = \<lparr>r_path = p, r_content_hash = Some h, r_mode = 420, r_size = 1, r_tombstone = False, r_vv = vv,
     r_uuid = None, r_meta = None\<rparr>"

definition creator :: replica where
  "creator = replica_step plain_crates (ReconcileFrom [seen_row ''p'' [5] [([1], 1)], seen_row ''q'' [2] [([1], 2)]])
     (replica_new plain_crates [1])"

definition rename_op :: op_record where
  "rename_op = \<lparr>o_op_id = op_id plain_crates [2] 1, o_origin = [2], o_origin_seq = 1, o_op_type = Rename, o_path = ''p'',
     o_path_old = Some ''q'', o_uuid = Some (migration_uuid plain_crates ''q''), o_mode = 420, o_size = 1,
     o_content_hash = Some [2], o_meta = None, o_vv = [([1], 2), ([2], 1)]\<rparr>"

lemma creator_db:
  "load_row (rp_db creator) ''p'' = Some (seen_row ''p'' [5] [([1], 1)])"
  "load_row (rp_db creator) ''q'' = Some (seen_row ''q'' [2] [([1], 2)])"
  "t_applied (rp_db creator) = []" "rp_node creator = [1]"
  by (simp_all add: creator_def replica_step_def reconcile_row_def reconcile_upsert_def store_writes new_db load_file_row
      seen_row_def merged_vv_def vv_merge_def vv_merge_entry_def vv_new_def Let_def)

theorem rename_replaces_unseen_write_witness:
  "bt_get (rp_fs creator) ''p'' = Some [5]
   \<and> row_content (rp_db (fst (receive plain_crates rename_op creator))) ''p'' = Some [2]"
proof -
  let ?X = plain_crates
  let ?d = "example_db ''q'' [2] [([1], 2)]"
  have ren: "append_local_rename ?X [2] ''q'' ''p'' ?d = (fst (append_local_rename ?X [2] ''q'' ''p'' ?d), Inr (Some rename_op))"
    by (simp add: append_local_rename_def example_db_def Let_def rename_op_def latest_origin_seq_def seqs_of_def list_max_def
        i64_add_def i64_wrap_def vv_increment_def bt_get_def)
  have src: "load_row ?d ''q'' = Some (seen_row ''q'' [2] [([1], 2)])" "load_row ?d ''p'' = None"
    by (simp_all add: example_db_def seen_row_def)
  have "event_ok ?X (ReconcileFrom [seen_row ''p'' [5] [([1], 1)], seen_row ''q'' [2] [([1], 2)]]) (replica_new ?X [1])"
    by (simp add: event_ok_def row_sane_def seen_row_def vv_ok_def bt_ok_def)
  from replica_step_good [OF replica_new_ok this] have r: "replica_ok creator" "fs_synced creator"
    by (simp_all add: good_step_def creator_def)
  have "row_content (rp_db creator) ''p'' = Some [5]" by (simp add: row_content_def creator_db seen_row_def)
  moreover have "op_sane rename_op" by (simp add: op_sane_def rename_op_def vv_ok_def bt_ok_def)
  moreover have "vv_le [([1], 1)] [([1], 2)]" "\<not> vv_le [([1], 2), ([2], 1)] [([1], 1)]"
    by (auto simp: vv_le_def vv_get_def bt_get_def intro!: exI [of _ "[2]"])
  ultimately show ?thesis
    using rename_replaces_unseen_write [OF ren src(1,2) _ r] creator_db r(2)
    by (simp add: seen_row_def rename_op_def has_applied_def vv_get_def bt_get_def fs_synced_def)
qed

end
