(* ===== verification/Copy_Order.thy ===== *)
theory Copy_Order
  imports Convergence
begin

text \<open>
  What the order of delivery still decides.  Nodes with the same operations agree on every path
  that is not the name of a conflict copy (\<open>Convergence\<close>); on the copies they need not agree, and
  this theory has the two reasons.  The plan of a resolution gives a copy the mode of the first of
  several losers with the same key, so versions that tie on the key have to be interchangeable for
  the plan to be a function of the candidate set.  And a conflict that is resolved before a later
  write of one side is heard of leaves a copy that a node which hears of the write first never makes.
\<close>

subsection \<open>The mode of a copy\<close>

definition mode_version :: "node_id \<Rightarrow> hash32 \<Rightarrow> u32 \<Rightarrow> version" where
  "mode_version n h mode = (example_version n h)\<lparr>v_mode := mode\<rparr>"

lemma tied_losers:
  assumes "cs \<in> {[mode_version [1] [7] 384, mode_version [2] [7] 420], [mode_version [2] [7] 420, mode_version [1] [7] 384]}"
  shows "antichain (cs @ [mode_version [3] [9] 420]) = mode_version [3] [9] 420 # cs"
  using assms
  by (auto simp: antichain_def antichain_step_def mode_version_def example_version_def vv_compare_def bt_keys_def
      vv_get_def bt_get_Cons sort_desc_def version_key_def less_prod_def)

lemma plan_two_losers:
  assumes "antichain cs = [w, a, b]" "v_content_hash a = Some h" "v_content_hash b = Some h" "v_meta a = None" "v_meta b = None"
    "version_key a \<noteq> version_key w" "version_key b \<noteq> version_key w" "copy_path_for X p h META_NONE \<noteq> p"
  shows "plan_candidates X p cs no_rows = Inr (Some [winner_row p cs [w, a, b] w, copy_row X (copy_path_for X p h META_NONE) a])"
  using assms
  by (simp add: plan_candidates_def MAX_COPY_DEPTH_def winner_row_def eval_nat_numeral naming_hash_def no_rows_def copy_row_def Let_def)

theorem copy_mode_depends_on_order:
  "one_history (set [mode_version [1] [7] 384, mode_version [2] [7] 420, mode_version [3] [9] 420]) \<and>
   plan_candidates plain_crates ''f'' [mode_version [1] [7] 384, mode_version [2] [7] 420, mode_version [3] [9] 420] no_rows \<noteq>
   plan_candidates plain_crates ''f'' [mode_version [2] [7] 420, mode_version [1] [7] 384, mode_version [3] [9] 420] no_rows"
proof
  show "one_history (set [mode_version [1] [7] 384, mode_version [2] [7] 420, mode_version [3] [9] 420])"
    by (auto simp: one_history_def mode_version_def example_version_def vv_ok_def bt_ok_def)
  have cp: "copy_path_for plain_crates ''f'' [7] META_NONE \<noteq> ''f''" by (simp add: copy_path_for_def COPY_MARKER_def Let_def)
  have plan: "plan_candidates plain_crates ''f'' ([a, b] @ [mode_version [3] [9] 420]) no_rows =
      Inr (Some [winner_row ''f'' ([a, b] @ [mode_version [3] [9] 420]) [mode_version [3] [9] 420, a, b] (mode_version [3] [9] 420),
        copy_row plain_crates (copy_path_for plain_crates ''f'' [7] META_NONE) a])"
    if "[a, b] \<in> {[mode_version [1] [7] 384, mode_version [2] [7] 420], [mode_version [2] [7] 420, mode_version [1] [7] 384]}" for a b
    by (rule plan_two_losers [OF tied_losers [OF that]])
      (use that cp in \<open>auto simp: mode_version_def example_version_def version_key_def\<close>)
  show "plan_candidates plain_crates ''f'' [mode_version [1] [7] 384, mode_version [2] [7] 420, mode_version [3] [9] 420] no_rows \<noteq>
      plan_candidates plain_crates ''f'' [mode_version [2] [7] 420, mode_version [1] [7] 384, mode_version [3] [9] 420] no_rows"
    using plan [of "mode_version [1] [7] 384" "mode_version [2] [7] 420"] plan [of "mode_version [2] [7] 420" "mode_version [1] [7] 384"]
    by (simp add: copy_row_def) (simp add: mode_version_def)
qed

subsection \<open>What a write from elsewhere does to the index\<close>


lemma commits_frame: "t_oplog (fold commit_planned rows d) = t_oplog d" "t_applied (fold commit_planned rows d) = t_applied d"
  by (induction rows arbitrary: d) (simp_all add: commit_planned_def upsert_file_def)

definition logs_new :: "op_record \<Rightarrow> db \<Rightarrow> db \<Rightarrow> bool" where
  "logs_new op d d' \<longleftrightarrow> t_oplog d' = t_oplog d @ [op] \<and> t_applied d' = t_applied d @ [o_op_id op]"

lemma receive_applies:
  assumes "\<not> has_applied (rp_db r) (o_op_id op)" "o_op_id op \<notin> o_op_id ` set (t_oplog (rp_db r))" "o_op_type op = Write"
    "decide (load_file (rp_db r) (o_path op)) (o_vv op) = Apply"
  shows "t_files (rp_db (replica_step X (Receive op) r)) = t_files (upsert_file (o_path op) (o_content_hash op) (o_mode op) (o_size op)
      (merged_vv (load_file (rp_db r) (o_path op)) (o_vv op)) False (o_uuid op) (o_meta op) (rp_db r))"
    "logs_new op (rp_db r) (rp_db (replica_step X (Receive op) r))"
  using assms
  by (simp_all add: replica_step_def receive_def Let_def receive_commit_def store_writes apply_remote_def apply_target_def insert_op_def
      load_file_row load_row_def has_applied_def receive_finish_def case_prod_unfold upsert_file_def mark_applied_def cursor_frame logs_new_def)

lemma receive_resolves:
  assumes "\<not> has_applied (rp_db r) (o_op_id op)" "o_op_id op \<notin> o_op_id ` set (t_oplog (rp_db r))" "o_op_type op = Write"
    "load_row (rp_db r) (o_path op) = Some l" "vv_compare (o_vv op) (r_vv l) = Concurrent"
    "plan_candidates X (o_path op) (resolution_candidates X (o_path op) (op_version X op) l (rp_db r)) (row_lookup X (rp_db r)) = Inr (Some plan)"
    "plan \<noteq> []" "v_vv (op_version X op) = o_vv op"
  shows "t_files (rp_db (replica_step X (Receive op) r)) = t_files (fold commit_planned plan (rp_db r))"
    "logs_new op (rp_db r) (rp_db (replica_step X (Receive op) r))"
proof -
  have dec: "decide (Some (row_local l)) (o_vv op) = DConcurrent" using assms(5) by (simp add: decide_def row_local_def)
  have rows: "resolve_rows X (o_path op) (op_version X op) staged (rp_db r) =
      (if plan \<noteq> staged then (rp_db r, Inr (Stale plan)) else (fold commit_planned plan (rp_db r), Inr Resolved))" for staged
    unfolding resolve_rows_def Let_def assms(4,8) using assms(6) dec by simp
  have "resolve_loop X (rp_node r) (Suc (Suc 3)) (o_path op) (op_version X op) [] (rp_store r)
      = ((rp_store r)\<lparr>s_db := fold commit_planned plan (rp_db r)\<rparr>, Inr True)"
    unfolding resolve_loop.simps store_writes using assms(7) by (simp add: rows)
  then have loop: "resolve_loop X (rp_node r) 5 (o_path op) (op_version X op) [] (rp_store r)
      = ((rp_store r)\<lparr>s_db := fold commit_planned plan (rp_db r)\<rparr>, Inr True)" by (simp add: eval_nat_numeral del: resolve_loop.simps)
  show "t_files (rp_db (replica_step X (Receive op) r)) = t_files (fold commit_planned plan (rp_db r))"
    "logs_new op (rp_db r) (rp_db (replica_step X (Receive op) r))"
    using assms(1-4) dec loop
    by (simp_all del: resolve_loop.simps add: replica_step_def receive_def Let_def receive_commit_def store_writes apply_remote_def apply_target_def insert_op_def
      load_file_row has_applied_def receive_finish_def case_prod_unfold mark_applied_def cursor_frame logs_new_def resolve_conflict_def commits_frame)
qed


lemma plan_one_loser:
  assumes "antichain cs = [b, a]" "v_content_hash a = Some h" "version_key a \<noteq> version_key b"
    "lookup (copy_path_for X p h (naming_hash X (v_meta a))) = Inr None" "copy_path_for X p h (naming_hash X (v_meta a)) \<noteq> p"
  shows "plan_candidates X p cs lookup = Inr (Some [winner_row p cs [b, a] b, copy_row X (copy_path_for X p h (naming_hash X (v_meta a))) a])"
  using assms by (simp add: plan_candidates_def MAX_COPY_DEPTH_def winner_row_def eval_nat_numeral Let_def)

subsection \<open>Three writes in two orders\<close>

text \<open>A third write at the first node, and the two orders in which others hear of the three.\<close>

definition later_write :: op_record where
  "later_write = \<lparr>o_op_id = op_id plain_crates [1] 2, o_origin = [1], o_origin_seq = 2, o_op_type = Write, o_path = ''f'',
     o_path_old = None, o_uuid = Some (fresh_uuid plain_crates [1] 1 ''f''), o_mode = 420, o_size = 1,
     o_content_hash = Some [8], o_meta = None, o_vv = [([1], 2)]\<rparr>"

abbreviation "copy_of h \<equiv> copy_path_for plain_crates ''f'' h META_NONE"

lemma copies_differ: "copy_of [7] \<noteq> ''f''" "copy_of [8] \<noteq> ''f''" "copy_of [7] \<noteq> copy_of [8]"
  by (simp_all add: copy_path_for_def COPY_MARKER_def plain_crates_def META_NONE_def Let_def)

lemma write_versions:
  "op_as_candidate plain_crates ''f'' (write_op i c) = op_version plain_crates (write_op i c)"
  "op_as_candidate plain_crates ''f'' later_write = op_version plain_crates later_write"
  by (simp_all add: op_as_candidate_def op_version_def write_op_def later_write_def Let_def)

lemma first_conflict:
  "antichain [op_version plain_crates (write_op [1] [7]), op_version plain_crates (write_op [2] [9])]
     = [op_version plain_crates (write_op [2] [9]), op_version plain_crates (write_op [1] [7])]"
  by (simp add: antichain_def antichain_step_def op_version_def write_op_def vv_compare_def bt_keys_def vv_get_def bt_get_Cons
      sort_desc_def version_key_def less_prod_def)

lemma later_conflict:
  "antichain [op_version plain_crates (write_op [1] [7]), op_version plain_crates later_write, op_version plain_crates (write_op [2] [9])]
     = [op_version plain_crates (write_op [2] [9]), op_version plain_crates later_write]"
  by (simp add: antichain_def antichain_step_def op_version_def write_op_def later_write_def vv_compare_def bt_keys_def vv_get_def bt_get_Cons
      sort_desc_def version_key_def less_prod_def)


definition got :: "node_id \<Rightarrow> op_record list \<Rightarrow> replica" where
  "got i ops = fold (\<lambda>op. replica_step plain_crates (Receive op)) ops (replica_new plain_crates i)"

lemma op_ids: "o_op_id (write_op [1] [7]) \<noteq> o_op_id (write_op [2] [9])" "o_op_id (write_op [1] [7]) \<noteq> o_op_id later_write"
  "o_op_id (write_op [2] [9]) \<noteq> o_op_id later_write"
proof -
  have "be_of_nat 8 (Suc 0) \<noteq> be_of_nat 8 2" using nat_of_be_of_nat [of "Suc 0" 8] nat_of_be_of_nat [of 2 8] by auto
  then show "o_op_id (write_op [1] [7]) \<noteq> o_op_id (write_op [2] [9])" "o_op_id (write_op [1] [7]) \<noteq> o_op_id later_write"
    "o_op_id (write_op [2] [9]) \<noteq> o_op_id later_write"
    by (simp_all add: write_op_def later_write_def op_id_def plain_crates_def i64_be_def)
qed

lemma merges: "vv_merge vv_new [([1], 1)] = [([1], 1)]" "vv_merge [([1], 1)] [([1], 2)] = [([1], 2)]"
  "vv_compare [([2], 1)] [([1], 1)] = Concurrent" "vv_compare [([1], 2)] [([1], 1)] = Dominates" "vv_compare [([2], 1)] [([1], 2)] = Concurrent"
  "vv_compare (vv_merge_all [[([1], 1)], [([2], 1)]]) [([1], 1)] = Dominates"
  "vv_compare (vv_merge_all [[([1], 1)], [([1], 2)], [([2], 1)]]) [([1], 2)] = Dominates"
  by code_simp+

lemma written: "o_path (write_op i c) = ''f''" "o_vv (write_op i c) = [(i, 1)]" "o_op_type (write_op i c) = Write" "o_path_old (write_op i c) = None"
  "o_path later_write = ''f''" "o_vv later_write = [([1], 2)]" "o_op_type later_write = Write" "o_path_old later_write = None"
  "v_vv (op_version X op) = o_vv op" "v_content_hash (op_version X op) = o_content_hash op" "v_meta (op_version X op) = o_meta op"
  "o_content_hash (write_op i c) = Some c" "o_content_hash later_write = Some [8]" "o_meta (write_op i c) = None" "o_meta later_write = None"
  by (simp_all add: write_op_def later_write_def op_version_def)

lemma got_first:
  "t_oplog (rp_db (got i [write_op [1] [7]])) = [write_op [1] [7]]" "t_applied (rp_db (got i [write_op [1] [7]])) = [o_op_id (write_op [1] [7])]"
  "load_row (rp_db (got i [write_op [1] [7]])) p = (if p = ''f'' then Some (op_row ''f'' (write_op [1] [7])) else None)"
  using receive_applies [of "replica_new plain_crates i" "write_op [1] [7]" plain_crates]
  by (simp_all add: got_def new_db has_applied_def written load_file_row load_row_def empty_db_def decide_def logs_new_def
     upsert_file_def merged_vv_def op_row_def bt_get_Cons merges)

lemma got_snoc: "got i (ops @ [op]) = replica_step plain_crates (Receive op) (got i ops)"
  by (simp add: got_def)

lemma got_both: "load_row (rp_db (got i [write_op [1] [7], write_op [2] [9]])) (copy_of [7]) \<noteq> None"
proof -
  let ?a = "write_op [1] [7]" and ?b = "write_op [2] [9]"
  let ?r = "got i [?a]"
  let ?cs = "[op_version plain_crates ?a, op_version plain_crates ?b]"
  have cs: "resolution_candidates plain_crates ''f'' (op_version plain_crates ?b) (op_row ''f'' ?a) (rp_db ?r) = ?cs"
    by (simp add: resolution_candidates_def ops_as_candidates_def got_first written write_versions op_row_def merges Let_def)
  have plan: "plan_candidates plain_crates ''f'' ?cs (row_lookup plain_crates (rp_db ?r)) =
      Inr (Some [winner_row ''f'' ?cs [op_version plain_crates ?b, op_version plain_crates ?a] (op_version plain_crates ?b),
        copy_row plain_crates (copy_of [7]) (op_version plain_crates ?a)])"
    using plan_one_loser [OF first_conflict, of "[7]" "row_lookup plain_crates (rp_db ?r)" plain_crates "''f''"]
    by (simp add: written row_lookup_def got_first copies_differ naming_hash_def version_key_def)
  have "t_files (rp_db (got i ([?a] @ [?b]))) = t_files (fold commit_planned
      [winner_row ''f'' ?cs [op_version plain_crates ?b, op_version plain_crates ?a] (op_version plain_crates ?b),
        copy_row plain_crates (copy_of [7]) (op_version plain_crates ?a)] (rp_db ?r))"
    unfolding got_snoc
    by (rule receive_resolves(1) [where l = "op_row ''f'' ?a"])
      (use op_ids plan cs in \<open>simp_all add: has_applied_def got_first written op_row_def merges\<close>)
  then show ?thesis by (simp add: load_row_def commit_planned_def upsert_file_def copy_row_def bt_get_insert)
qed

lemma got_later:
  "t_oplog (rp_db (got i [write_op [1] [7], later_write])) = [write_op [1] [7], later_write]"
  "t_applied (rp_db (got i [write_op [1] [7], later_write])) = [o_op_id (write_op [1] [7]), o_op_id later_write]"
  "load_row (rp_db (got i [write_op [1] [7], later_write])) p = (if p = ''f'' then Some (op_row ''f'' later_write) else None)"
proof -
  let ?a = "write_op [1] [7]"
  have "\<not> has_applied (rp_db (got i [?a])) (o_op_id later_write)" "o_op_id later_write \<notin> o_op_id ` set (t_oplog (rp_db (got i [?a])))"
    "o_op_type later_write = Write" "decide (load_file (rp_db (got i [?a])) (o_path later_write)) (o_vv later_write) = Apply"
    using op_ids by (auto simp: has_applied_def got_first written load_file_row decide_def op_row_def row_local_def merges)
  note r = receive_applies [OF this, of plain_crates, folded got_snoc]
  have rows: "load_row (rp_db (got i [?a])) p = (if p = ''f'' then Some (op_row ''f'' ?a) else None)" for p by (rule got_first)
  show "t_oplog (rp_db (got i [?a, later_write])) = [?a, later_write]"
    "t_applied (rp_db (got i [?a, later_write])) = [o_op_id ?a, o_op_id later_write]"
    using r(2) by (simp_all add: logs_new_def got_first)
  show "load_row (rp_db (got i [?a, later_write])) p = (if p = ''f'' then Some (op_row ''f'' later_write) else None)"
    using r(1) rows [of p] by (simp add: load_row_def upsert_file_def bt_get_insert written load_file_row rows merged_vv_def row_local_def op_row_def merges split: if_splits)
qed

lemma got_last: "load_row (rp_db (got i [write_op [1] [7], later_write, write_op [2] [9]])) (copy_of [7]) = None"
proof -
  let ?a = "write_op [1] [7]" and ?b = "write_op [2] [9]"
  let ?r = "got i [?a, later_write]"
  let ?cs = "[op_version plain_crates ?a, op_version plain_crates later_write, op_version plain_crates ?b]"
  have cs: "resolution_candidates plain_crates ''f'' (op_version plain_crates ?b) (op_row ''f'' later_write) (rp_db ?r) = ?cs"
    by (simp add: resolution_candidates_def ops_as_candidates_def got_later written write_versions op_row_def merges Let_def)
  have plan: "plan_candidates plain_crates ''f'' ?cs (row_lookup plain_crates (rp_db ?r)) =
      Inr (Some [winner_row ''f'' ?cs [op_version plain_crates ?b, op_version plain_crates later_write] (op_version plain_crates ?b),
        copy_row plain_crates (copy_of [8]) (op_version plain_crates later_write)])"
    using plan_one_loser [OF later_conflict, of "[8]" "row_lookup plain_crates (rp_db ?r)" plain_crates "''f''"]
    by (simp add: written row_lookup_def got_later copies_differ naming_hash_def version_key_def)
  have "t_files (rp_db (got i ([?a, later_write] @ [?b]))) = t_files (fold commit_planned
      [winner_row ''f'' ?cs [op_version plain_crates ?b, op_version plain_crates later_write] (op_version plain_crates ?b),
        copy_row plain_crates (copy_of [8]) (op_version plain_crates later_write)] (rp_db ?r))"
    unfolding got_snoc
    by (rule receive_resolves(1) [where l = "op_row ''f'' later_write"])
      (use op_ids plan cs in \<open>simp_all add: has_applied_def got_later written op_row_def merges\<close>)
  then show ?thesis using got_later(3) [of i "copy_of [7]"] copies_differ
    by (simp add: load_row_def commit_planned_def upsert_file_def copy_row_def winner_row_def bt_get_insert Let_def)
qed


definition three_writes :: network where
  "three_writes = two_writes([1] := replica_step plain_crates (LocalWrite ''f'' [8]) (two_writes [1]))"

lemma after_first:
  "two_writes [1] = replica_step plain_crates (LocalWrite ''f'' [7]) (replica_new plain_crates [1])"
  "node_log two_writes [1] = [write_op [1] [7]]" "rp_node (two_writes [1]) = [1]"
  "load_row (rp_db (two_writes [1])) p = (if p = ''f'' then Some (op_row ''f'' (write_op [1] [7])) else None)"
  by (simp_all add: two_writes_def first_write)
    (simp_all add: replica_step_def local_write_def replica_append_def store_writes new_db append_local_def append_commit_def
      Let_def insert_op_def write_op_def latest_origin_seq_def seqs_of_def list_max_def i64_add_def i64_wrap_def load_row_def upsert_file_def
      vv_increment_def vv_new_def plain_crates_def op_row_def bt_get_Cons split: option.splits)

lemma second_write: "node_log three_writes [1] = [write_op [1] [7], later_write]"
proof -
  have "o_origin_seq (write_op [1] [7]) = 1" "o_origin (write_op [1] [7]) = [1]" by (simp_all add: write_op_def)
  then have lat: "latest_origin_seq (rp_db (two_writes [1])) [1] = 1"
    by (simp add: latest_origin_seq_def seqs_of_def after_first(2) list_max_def)
  have "op_id plain_crates [1] 2 \<noteq> o_op_id (write_op [1] [7])" using op_ids(2) by (simp add: later_write_def)
  then show ?thesis
    unfolding three_writes_def fun_upd_same replica_step_def replica_event.case local_write_def replica_append_def store_writes append_local_def append_commit_def
    by (simp add: Let_def after_first(2-4) lat insert_op_def i64_add_def i64_wrap_def)
     (simp add: later_write_def op_row_def write_op_def vv_increment_def bt_get_Cons plain_crates_def upsert_file_def)
qed

lemma three_writes_ops: "net_ops three_writes = {write_op [1] [7], write_op [2] [9], later_write}"
proof -
  have "node_log two_writes i = (if i = [2] then [write_op [2] [9]] else if i = [1] then [write_op [1] [7]] else [])" for i
    by (simp add: two_writes_def first_write net_start_def new_db)
  then have "node_log three_writes i = (if i = [2] then [write_op [2] [9]] else if i = [1] then [write_op [1] [7], later_write] else [])" for i
    using second_write by (auto simp: three_writes_def)
  then have "net_ops three_writes = (\<Union>i::node_id. set (if i = [2] then [write_op [2] [9]] else if i = [1] then [write_op [1] [7], later_write] else []))"
    by (simp only: net_ops_def)
  also have "\<dots> = {write_op [1] [7], write_op [2] [9], later_write}"
    by (auto split: if_splits) (rule exI [of _ "[1]"], simp)+
  finally show ?thesis .
qed

lemma three_writes_reachable: "net_reachable plain_crates three_writes"
proof -
  have lat: "latest_origin_seq (rp_db (two_writes [1])) [1] = 1"
    by (simp add: latest_origin_seq_def seqs_of_def after_first(2) list_max_def write_op_def)
  have "net_step plain_crates two_writes (two_writes([1] := replica_step plain_crates (LocalWrite ''f'' [8]) (two_writes [1])))"
  proof (rule net_local)
    show "op_id plain_crates [1] (latest_origin_seq (rp_db (two_writes [1])) [1] + 1) \<notin> o_op_id ` net_ops two_writes"
      using op_ids(2,3) by (auto simp: lat two_writes_ops later_write_def)
    show "append_room plain_crates [1] (rp_db (two_writes [1]))"
      using op_ids(2) by (simp add: append_room_def counter_room_def lat is_i64_def after_first(2,4) later_write_def op_row_def written vv_get_def bt_get_Cons)
  qed (simp_all add: after_first(4) COPY_MARKER_def)
  from reach_step [OF two_writes_reachable this] show ?thesis by (simp add: three_writes_def)
qed

lemma deliver_grows:
  assumes "net_reachable X net" "op \<in> net_ops net"
  shows "grows (rp_db (net i)) (rp_db (deliver X i op net i))"
proof (cases "o_origin op = i")
  case False
  have inv: "causal_history X (net_ops net)" "node_inv X (net_ops net) i (net i)" using reachable_inv [OF assms(1)] by (auto simp: net_inv_def)
  have "plain_op op" using historyD(1) [OF inv(1) assms(2)] .
  with inv(2) False have "good_step (net i) (replica_step X (Receive op) (net i))"
    by (intro replica_step_good) (auto simp: node_inv_def event_ok_def plain_op_def)
  with False show ?thesis by (simp add: deliver_def good_step_def)
qed (simp add: deliver_def)

lemma deliver_all_fold:
  "\<forall>op \<in> set ops. o_origin op \<noteq> i \<Longrightarrow> deliver_all X i ops net i = fold (\<lambda>op. replica_step X (Receive op)) ops (net i)"
  by (induction ops arbitrary: net) (simp_all add: deliver_all_def deliver_def)

text \<open>
  Conflict copies depend on the order.  Two nodes that have received the same three writes of a
  path, in two orders, agree on the path itself; but the one that heard of the conflict before the
  later write keeps a copy of the earlier content, and the other never makes it.
\<close>

theorem conflict_copies_depend_on_order:
  "\<exists>net p. net_reachable plain_crates net \<and> set (node_log net [3]) = set (node_log net [4]) \<and> marked p
     \<and> load_row (rp_db (net [3])) p \<noteq> None \<and> load_row (rp_db (net [4])) p = None"
proof -
  let ?a = "write_op [1] [7]" and ?b = "write_op [2] [9]" and ?X = plain_crates
  let ?m = "deliver_all ?X [4] [?a, later_write, ?b] (deliver_all ?X [3] [?a, ?b] three_writes)"
  let ?n = "deliver ?X [3] later_write ?m"
  have ops: "set [?a, ?b] \<subseteq> net_ops three_writes" "set [?a, later_write, ?b] \<subseteq> net_ops three_writes" "later_write \<in> net_ops three_writes"
    by (simp_all add: three_writes_ops)
  note one = deliver_all_steps [OF three_writes_reachable ops(1), of "[3]"]
  note two = deliver_all_steps [of ?X "deliver_all ?X [3] [?a, ?b] three_writes" "[?a, later_write, ?b]" "[4]"]
  have m: "net_reachable ?X ?m" "net_ops ?m = net_ops three_writes" "set (node_log ?m [4]) = {?a, later_write, ?b} \<union> set (node_log three_writes [4])"
    "?m [3] = deliver_all ?X [3] [?a, ?b] three_writes [3]" "set (node_log ?m [3]) = {?a, ?b} \<union> set (node_log three_writes [3])"
    using one two ops by auto
  have start: "three_writes [3] = replica_new ?X [3]" "three_writes [4] = replica_new ?X [4]"
    by (simp_all add: three_writes_def two_writes_def net_start_def)
  have orig: "\<forall>op \<in> set [?a, later_write, ?b]. o_origin op \<noteq> [4]" "\<forall>op \<in> set [?a, ?b]. o_origin op \<noteq> [3]"
    by (simp_all add: write_op_def later_write_def)
  have nodes: "?m [3] = got [3] [?a, ?b]" "?m [4] = got [4] [?a, later_write, ?b]"
    using deliver_all_fold [OF orig(2), of ?X three_writes] m(4) start(1)
      deliver_all_fold [OF orig(1), of ?X "deliver_all ?X [3] [?a, ?b] three_writes"] one start(2)
    by (simp_all add: got_def)
  have fresh: "node_log three_writes [3] = []" "node_log three_writes [4] = []" by (simp_all add: start new_db)
  note step = deliver_step [OF m(1), of later_write "[3]", unfolded m(2), OF ops(3)]
  have other: "?n [4] = ?m [4]" by (simp add: deliver_def)
  have "net_reachable ?X ?n" by (rule step(1))
  moreover have "set (node_log ?n [3]) = set (node_log ?n [4])"
    unfolding step(3) other m(3,5) fresh by blast
  moreover have "marked (copy_of [7])" by (rule copy_path_marked)
  moreover have "load_row (rp_db (?n [3])) (copy_of [7]) \<noteq> None"
    using deliver_grows [OF m(1), of later_write "[3]", unfolded m(2), OF ops(3)] got_both [of "[3]"] unfolding grows_def nodes by blast
  moreover have "load_row (rp_db (?n [4])) (copy_of [7]) = None" unfolding other nodes by (rule got_last)
  ultimately show ?thesis by blast
qed

end
