(* ===== verification/Merkle.thy ===== *)
theory Merkle
  imports State
begin

text \<open>
  The Merkle tree of anti-entropy (\<open>src/merkle.rs\<close>): leaf hashes, the construction of
  the tree from the index rows, directory hashes and paging.  The two loops of \<open>build\<close>
  are \<open>add_ancestors\<close> (a path gets shorter) and \<open>hash_dirs\<close> (one directory per turn,
  in reverse order of the prefixes).
\<close>

text \<open>The bytes a leaf hashes.\<close>

definition leaf_bytes :: "crates \<Rightarrow> file_row \<Rightarrow> bytes" where
  "leaf_bytes X row =
     as_bytes (r_path row) @ [0] @ [if r_tombstone row then 1 else 0]
     @ unwrap_or (r_content_hash row) (zeros 32) @ unwrap_or (r_uuid row) (zeros 16)
     @ hash_of X (r_meta row) @ unwrap_or (bincode_vv X (r_vv row)) []"

definition leaf_hash :: "crates \<Rightarrow> file_row \<Rightarrow> hash32" where
  "leaf_hash X row = blake3 X (leaf_bytes X row)"

type_synonym children = "(string, hash32 \<times> bool) btree"

record merkle_tree =
  mt_dirs :: "(path, children) btree"
  mt_leaves :: "(path, file_row) btree"
  mt_root :: hash32

text \<open>\<open>rsplit_once('/')\<close>: the directory and the last component.\<close>

fun split_parent :: "path \<Rightarrow> path \<times> string" where
  "split_parent [] = ([], [])"
| "split_parent (c # cs) =
     (if CHR ''/'' \<in> set cs then let (d, n) = split_parent cs in (c # d, n)
      else if c = CHR ''/'' then ([], cs) else ([], c # cs))"

definition join_prefix :: "path \<Rightarrow> string \<Rightarrow> path" where
  "join_prefix prefix name = (if prefix = [] then name else prefix @ ''/'' @ name)"

lemma split_parent_shorter: "d = fst (split_parent p) \<Longrightarrow> p \<noteq> [] \<Longrightarrow> length d < length p"
proof (induction p arbitrary: d)
  case (Cons c cs)
  show ?case
  proof (cases "CHR ''/'' \<in> set cs")
    case True
    then have "cs \<noteq> []" by auto
    with Cons True show ?thesis by (auto simp: Let_def split: prod.splits)
  qed (use Cons in auto)
qed simp

text \<open>\<open>dirs.entry(dir).or_default().insert(name, v)\<close>\<close>

definition put_child :: "path \<Rightarrow> string \<Rightarrow> hash32 \<times> bool \<Rightarrow> (path, children) btree \<Rightarrow> (path, children) btree" where
  "put_child dir name v dirs = bt_insert dir (bt_insert name v (unwrap_or (bt_get dirs dir) [])) dirs"

text \<open>The placeholder of a directory in its parent: an existing entry keeps its hash and becomes a directory.\<close>

definition mark_dir :: "path \<Rightarrow> string \<Rightarrow> (path, children) btree \<Rightarrow> (path, children) btree" where
  "mark_dir up name dirs =
     (let cs = unwrap_or (bt_get dirs up) []; (h, _) = unwrap_or (bt_get cs name) (zeros 32, True)
      in put_child up name (h, True) dirs)"

function add_ancestors :: "path \<Rightarrow> (path, children) btree \<Rightarrow> (path, children) btree" where
  "add_ancestors dir dirs =
     (if dir = [] then dirs
      else add_ancestors (fst (split_parent dir)) (mark_dir (fst (split_parent dir)) (snd (split_parent dir)) dirs))"
  by pat_completeness auto
termination
  by (relation "measure (\<lambda>(dir, _). length dir)") (auto intro: split_parent_shorter)

declare add_ancestors.simps [simp del]

definition add_row :: "crates \<Rightarrow> (path, children) btree \<times> (path, file_row) btree \<Rightarrow> file_row
    \<Rightarrow> (path, children) btree \<times> (path, file_row) btree" where
  "add_row X acc row =
     (let (parent, name) = split_parent (r_path row)
      in (add_ancestors parent (put_child parent name (leaf_hash X row, False) (fst acc)),
          bt_insert (r_path row) row (snd acc)))"

definition hash_children :: "crates \<Rightarrow> children \<Rightarrow> hash32" where
  "hash_children X cs =
     blake3 X (concat (map (\<lambda>(name, h, is_dir). as_bytes name @ [1, if is_dir then 1 else 0] @ h) cs))"

text \<open>Set the hash of a directory in its parent's listing, if the entry is there.\<close>

definition set_dir_hash :: "path \<Rightarrow> hash32 \<Rightarrow> (path, children) btree \<Rightarrow> (path, children) btree" where
  "set_dir_hash prefix h dirs =
     (let (up, name) = split_parent prefix
      in case bt_get dirs up of
           None \<Rightarrow> dirs
         | Some cs \<Rightarrow> (case bt_get cs name of
                         None \<Rightarrow> dirs
                       | Some (_, is_dir) \<Rightarrow> bt_insert up (bt_insert name (h, is_dir) cs) dirs))"

text \<open>The bottom-up pass; it stops at the root, whose hash it returns.\<close>

fun hash_dirs :: "crates \<Rightarrow> path list \<Rightarrow> (path, children) btree \<Rightarrow> (path, children) btree \<times> hash32" where
  "hash_dirs X [] dirs = (dirs, hash_children X (unwrap_or (bt_get dirs []) []))"
| "hash_dirs X (prefix # prefixes) dirs =
     (let h = hash_children X (unwrap_or (bt_get dirs prefix) [])
      in if prefix = [] then (dirs, h) else hash_dirs X prefixes (set_dir_hash prefix h dirs))"

definition merkle_build :: "crates \<Rightarrow> file_row list \<Rightarrow> merkle_tree" where
  "merkle_build X rows =
     (let (dirs, leaves) = foldl (add_row X) (bt_insert [] [] [], []) rows;
          (dirs', root) = hash_dirs X (rev (bt_keys dirs)) dirs
      in \<lparr>mt_dirs = dirs', mt_leaves = leaves, mt_root = root\<rparr>)"

definition merkle_leaf :: "merkle_tree \<Rightarrow> path \<Rightarrow> file_row option" where
  "merkle_leaf t p = bt_get (mt_leaves t) p"

definition merkle_children :: "merkle_tree \<Rightarrow> path \<Rightarrow> children option" where
  "merkle_children t prefix = bt_get (mt_dirs t) prefix"

definition to_wire :: "string \<times> hash32 \<times> bool \<Rightarrow> wire_child" where
  "to_wire e = (case e of (name, h, is_dir) \<Rightarrow> \<lparr>wc_name = name, wc_hash = h, wc_is_dir = is_dir\<rparr>)"

definition children_page :: "merkle_tree \<Rightarrow> path \<Rightarrow> string \<Rightarrow> nat \<Rightarrow> wire_child list \<times> bool" where
  "children_page t prefix after_name limit =
     (case bt_get (mt_dirs t) prefix of
        None \<Rightarrow> ([], False)
      | Some cs \<Rightarrow>
          (let rest = filter (\<lambda>(name, _). after_name < name) cs
           in (map to_wire (take limit rest), limit < length rest)))"

subsection \<open>The tree is well formed\<close>

definition dirs_ok :: "(path, children) btree \<Rightarrow> bool" where
  "dirs_ok dirs \<longleftrightarrow> bt_ok dirs \<and> (\<forall>(p, cs) \<in> set dirs. bt_ok cs)"

lemma dirs_ok_get: "dirs_ok dirs \<Longrightarrow> bt_get dirs p = Some cs \<Longrightarrow> bt_ok cs"
  by (auto simp: dirs_ok_def dest!: bt_get_Some_mem)

lemma dirs_ok_insert: "dirs_ok dirs \<Longrightarrow> bt_ok cs \<Longrightarrow> dirs_ok (bt_insert p cs dirs)"
  by (auto simp: dirs_ok_def bt_ok_insert dest!: bt_insert_bound)

lemma dirs_ok_put_child: "dirs_ok dirs \<Longrightarrow> dirs_ok (put_child d n v dirs)"
  by (cases "bt_get dirs d") (auto simp: put_child_def bt_ok_Cons intro!: dirs_ok_insert bt_ok_insert dest: dirs_ok_get)

lemma dirs_ok_mark_dir: "dirs_ok dirs \<Longrightarrow> dirs_ok (mark_dir d n dirs)"
  by (simp add: mark_dir_def Let_def case_prod_unfold dirs_ok_put_child)

lemma dirs_ok_add_ancestors: "dirs_ok dirs \<Longrightarrow> dirs_ok (add_ancestors d dirs)"
proof (induction d dirs rule: add_ancestors.induct)
  case (1 d dirs)
  then show ?case by (subst add_ancestors.simps) (simp add: dirs_ok_mark_dir)
qed

lemma dirs_ok_add_row: "dirs_ok (fst acc) \<Longrightarrow> dirs_ok (fst (add_row X acc row))"
  by (simp add: add_row_def case_prod_unfold Let_def dirs_ok_add_ancestors dirs_ok_put_child)

lemma dirs_ok_rows: "dirs_ok (fst acc) \<Longrightarrow> dirs_ok (fst (foldl (add_row X) acc rows))"
  by (induction rows arbitrary: acc) (simp_all add: dirs_ok_add_row)

lemma dirs_ok_set_hash: "dirs_ok dirs \<Longrightarrow> dirs_ok (set_dir_hash p h dirs)"
  by (auto simp: set_dir_hash_def Let_def case_prod_unfold intro!: dirs_ok_insert bt_ok_insert
      dest: dirs_ok_get split: option.splits)

lemma dirs_ok_hash_dirs: "dirs_ok dirs \<Longrightarrow> dirs_ok (fst (hash_dirs X ps dirs))"
  by (induction ps arbitrary: dirs) (simp_all add: Let_def dirs_ok_set_hash)

lemma merkle_dirs_ok: "dirs_ok (mt_dirs (merkle_build X rows))"
proof -
  have "dirs_ok (bt_insert [] [] [])" by (simp add: dirs_ok_def bt_ok_Cons)
  then have "dirs_ok (fst (foldl (add_row X) (bt_insert [] [] [], []) rows))"
    by (intro dirs_ok_rows) simp
  then show ?thesis by (simp add: merkle_build_def case_prod_unfold Let_def dirs_ok_hash_dirs)
qed

text \<open>The leaves are the rows, the last of a path winning.\<close>

lemma add_rows_leaves:
  "snd (foldl (add_row X) acc rows) = foldl (\<lambda>t row. bt_insert (r_path row) row t) (snd acc) rows"
  by (induction rows arbitrary: acc) (simp_all add: add_row_def case_prod_unfold Let_def)

lemma merkle_leaf_rows:
  "merkle_leaf (merkle_build X rows) p = List.find (\<lambda>row. r_path row = p) (rev rows)"
proof -
  have "bt_get (foldl (\<lambda>t row. bt_insert (r_path row) row t) [] rows) p =
      List.find (\<lambda>row. r_path row = p) (rev rows)"
    by (induction rows rule: rev_induct) (auto simp: bt_get_insert)
  then show ?thesis
    by (simp add: merkle_leaf_def merkle_build_def case_prod_unfold Let_def add_rows_leaves)
qed

subsection \<open>Properties\<close>

text \<open>
  A row can hide from the tree: when a path is both a row of its own and a directory
  of another row, the directory's hash replaces the row's, so trees that differ in that
  row alone have the same root, whatever the hash function.
\<close>

theorem shadowed_leaf_is_invisible:
  assumes "r_path a = ''a''" "r_path a' = ''a''" "r_path b = ''a/b''"
  shows "mt_root (merkle_build X [a, b]) = mt_root (merkle_build X [a', b])"
  using assms
  by (simp add: merkle_build_def add_row_def put_child_def mark_dir_def add_ancestors.simps bt_get_Cons bt_keys_def
      set_dir_hash_def Let_def)

definition example_row :: "path \<Rightarrow> bool \<Rightarrow> file_row" where
  "example_row p dead = \<lparr>r_path = p, r_content_hash = None, r_mode = 0, r_size = 0, r_tombstone = dead, r_vv = [],
     r_uuid = None, r_meta = None\<rparr>"

theorem shadowed_leaf_is_invisible_witness:
  "mt_root (merkle_build plain_crates [example_row ''a'' True, example_row ''a/b'' False]) =
   mt_root (merkle_build plain_crates [example_row ''a'' False, example_row ''a/b'' False])"
  by (rule shadowed_leaf_is_invisible) (simp_all add: example_row_def)

text \<open>
  The leaf table answers for every row of the index: the leaf of a path is the last
  row with that path, and there is none for a path without a row.
\<close>

theorem merkle_leaf_is_the_row:
  "merkle_leaf (merkle_build X rows) p = List.find (\<lambda>row. r_path row = p) (rev rows)"
  by (rule merkle_leaf_rows)

end
