(* ===== verification/Suppress.thy ===== *)
theory Suppress
  imports BTree_Map
begin

text \<open>
  The apply-suppression set (\<open>src/suppress.rs\<close>).  The mutex-guarded hash map is a map
  from share-relative path to entry; the lock makes every method one atomic step.
  Time is the monotonic clock in nanoseconds, read once per call.
\<close>

datatype kind = KWrite hash32 | KDelete

record entry =
  e_kind :: kind
  e_at :: nat

type_synonym suppressor = "(path, entry) btree"

definition suppressor_new :: suppressor where "suppressor_new = []"

definition register_write :: "nat \<Rightarrow> path \<Rightarrow> hash32 \<Rightarrow> suppressor \<Rightarrow> suppressor" where
  "register_write now rel h s = bt_insert rel \<lparr>e_kind = KWrite h, e_at = now\<rparr> s"

definition register_delete :: "nat \<Rightarrow> path \<Rightarrow> suppressor \<Rightarrow> suppressor" where
  "register_delete now rel s = bt_insert rel \<lparr>e_kind = KDelete, e_at = now\<rparr> s"

definition check_write :: "path \<Rightarrow> hash32 \<Rightarrow> suppressor \<Rightarrow> suppressor \<times> bool" where
  "check_write rel h s =
     (case bt_get s rel of
        Some e \<Rightarrow> (case e_kind e of
                     KWrite expected \<Rightarrow> if expected = h then (bt_remove rel s, True) else (s, False)
                   | KDelete \<Rightarrow> (s, False))
      | None \<Rightarrow> (s, False))"

definition check_delete :: "path \<Rightarrow> suppressor \<Rightarrow> suppressor \<times> bool" where
  "check_delete rel s =
     (case bt_get s rel of
        Some e \<Rightarrow> (case e_kind e of KDelete \<Rightarrow> (bt_remove rel s, True) | KWrite _ \<Rightarrow> (s, False))
      | None \<Rightarrow> (s, False))"

text \<open>\<open>Instant::elapsed\<close> saturates at zero, as subtraction of naturals does.\<close>

definition sweep :: "nat \<Rightarrow> nat \<Rightarrow> suppressor \<Rightarrow> suppressor" where
  "sweep now ttl s = filter (\<lambda>(_, e). now - e_at e < ttl) s"

definition suppressor_len :: "suppressor \<Rightarrow> nat" where "suppressor_len s = length s"

definition suppressor_is_empty :: "suppressor \<Rightarrow> bool" where "suppressor_is_empty s \<longleftrightarrow> s = []"

subsection \<open>Single shot, exact match, swept\<close>

lemma bt_get_sweep:
  assumes "bt_ok s"
  shows "bt_get (sweep now ttl s) p =
           (case bt_get s p of Some e \<Rightarrow> if now - e_at e < ttl then Some e else None | None \<Rightarrow> None)"
  using assms
proof (induction s)
  case (Cons a s)
  obtain k e where a: "a = (k, e)" by fastforce
  have "bt_get s k = None" using Cons.prems a by (auto simp: bt_ok_Cons bt_get_None_iff)
  with Cons a show ?case by (auto simp: sweep_def bt_ok_Cons bt_get_Cons split: option.splits)
qed (simp add: sweep_def)

datatype suppress_op =
    RegisterWrite nat path hash32
  | RegisterDelete nat path
  | CheckWrite path hash32
  | CheckDelete path
  | Sweep nat nat

definition suppress_step :: "suppress_op \<Rightarrow> suppressor \<Rightarrow> suppressor" where
  "suppress_step c s = (case c of
      RegisterWrite now p h \<Rightarrow> register_write now p h s
    | RegisterDelete now p \<Rightarrow> register_delete now p s
    | CheckWrite p h \<Rightarrow> fst (check_write p h s)
    | CheckDelete p \<Rightarrow> fst (check_delete p s)
    | Sweep now ttl \<Rightarrow> sweep now ttl s)"

lemma bt_ok_suppress_step: "bt_ok s \<Longrightarrow> bt_ok (suppress_step c s)"
proof (cases c)
  case (Sweep now ttl)
  assume "bt_ok s"
  then show ?thesis by (simp add: Sweep suppress_step_def sweep_def bt_ok_filter)
qed (auto simp: suppress_step_def register_write_def register_delete_def check_write_def check_delete_def
      btree_laws split: option.splits kind.splits)

text \<open>Operations that leave the entry of \<open>p\<close> alone: all on other paths, and sweeps within its TTL.\<close>

definition spares :: "path \<Rightarrow> entry \<Rightarrow> suppress_op \<Rightarrow> bool" where
  "spares p e c \<longleftrightarrow> (case c of
      RegisterWrite _ q _ \<Rightarrow> q \<noteq> p | RegisterDelete _ q \<Rightarrow> q \<noteq> p
    | CheckWrite q h \<Rightarrow> q \<noteq> p \<or> e_kind e \<noteq> KWrite h | CheckDelete q \<Rightarrow> q \<noteq> p \<or> e_kind e \<noteq> KDelete
    | Sweep now ttl \<Rightarrow> now - e_at e < ttl)"

lemma spared_step: "bt_ok s \<Longrightarrow> bt_get s p = Some e \<Longrightarrow> spares p e c \<Longrightarrow> bt_get (suppress_step c s) p = Some e"
  by (auto simp: spares_def suppress_step_def register_write_def register_delete_def check_write_def
      check_delete_def bt_get_simps bt_get_sweep split: suppress_op.splits option.splits kind.splits if_splits)

lemma spared_run:
  "bt_ok s \<Longrightarrow> bt_get s p = Some e \<Longrightarrow> list_all (spares p e) cs \<Longrightarrow> bt_get (fold suppress_step cs s) p = Some e"
  by (induction cs arbitrary: s) (auto simp: spared_step bt_ok_suppress_step)

lemma bt_ok_suppress_run: "bt_ok s \<Longrightarrow> bt_ok (fold suppress_step cs s)"
  by (induction cs arbitrary: s) (auto simp: bt_ok_suppress_step)

subsection \<open>Properties\<close>

text \<open>
  The expected outcome of an apply is swallowed once: after a registration, and
  whatever happens on other paths, as long as no sweep outlives the entry, an observed
  write of the registered content is suppressed, a write of other content is not, and
  after the match the same observation is no longer suppressed.
\<close>

theorem registered_write_suppressed_once:
  assumes "bt_ok s" "list_all (spares p \<lparr>e_kind = KWrite h, e_at = now\<rparr>) cs"
  shows "let s' = fold suppress_step cs (register_write now p h s)
         in snd (check_write p h s')
            \<and> (k \<noteq> h \<longrightarrow> \<not> snd (check_write p k s')) \<and> \<not> snd (check_delete p s')
            \<and> \<not> snd (check_write p h (fst (check_write p h s')))"
proof -
  have ok: "bt_ok (register_write now p h s)" using assms(1) by (simp add: register_write_def bt_ok_insert)
  have "bt_get (register_write now p h s) p = Some \<lparr>e_kind = KWrite h, e_at = now\<rparr>"
    by (simp add: register_write_def bt_get_insert)
  from spared_run [OF ok this assms(2)] show ?thesis
    by (simp add: Let_def check_write_def check_delete_def bt_get_remove)
qed

theorem registered_write_suppressed_once_witness:
  "snd (check_write ''f'' [7] (fold suppress_step [RegisterDelete 5 ''g'', Sweep 9 10] (register_write 1 ''f'' [7] [])))"
  using registered_write_suppressed_once [of "[]" "''f''" "[7]" 1 "[RegisterDelete 5 ''g'', Sweep 9 10]"]
  by (simp add: spares_def Let_def)

end
