(* ===== verification/Disk.thy ===== *)
theory Disk
  imports Suppress Chunk
begin

text \<open>
  The file system as the apply engine uses it: \<open>std::fs\<close> and the calls of \<open>libc\<close> in
  \<open>src/metadata.rs\<close>.  A tree maps absolute paths, as lists of names, to nodes.  Every
  system call takes the next verdict of an oracle, so each of them may fail with any error
  number, and a write may report success and leave other bytes than it was given.  The
  state keeps the sequence of all trees the calls have produced, each with the suppression
  set at that moment: this is what a scanner or a reader running beside the daemon can
  see.  Names are looked up literally: a directory reached through a symbolic link is
  outside the model.
\<close>

type_synonym fpath = "string list"

datatype node_body =
    BFile bytes bool    \<comment> \<open>content, and whether it has been synced to disk\<close>
  | BLink bytes
  | BSpecial file_kind u64
  | BDir

record attr =
  a_mode :: u32
  a_uid :: u32
  a_gid :: u32
  a_mtime_s :: i64
  a_mtime_ns :: u32
  a_xattrs :: "(bytes, bytes) btree"

record fnode =
  n_body :: node_body
  n_attr :: attr

type_synonym fstree = "fpath \<rightharpoonup> fnode"

datatype errno = ENOENT | EPERM | EACCES | EEXIST | EISDIR | ENOTDIR | ENOTEMPTY | ENOTSUP | EOTHER
datatype io_error = OsError errno | InvalidInput | InvalidData

datatype verdict = VOk | VFail errno | VTorn bytes

record world =
  w_fs :: fstree
  w_sup :: suppressor
  w_cas :: cas
  w_seq :: u64
  w_owner_skips :: u64
  w_new_attr :: attr
  w_deref :: "fpath \<Rightarrow> io_error + bytes"
  w_verdicts :: "verdict list"
  w_trace :: "(fstree \<times> suppressor) list"

type_synonym 'a io = "world \<Rightarrow> world \<times> (io_error + 'a)"

definition next_verdict :: "world \<Rightarrow> verdict \<times> world" where
  "next_verdict w = (case w_verdicts w of [] \<Rightarrow> (VOk, w) | v # vs \<Rightarrow> (v, w\<lparr>w_verdicts := vs\<rparr>))"

definition failed :: "verdict \<Rightarrow> bool" where
  "failed v = (case v of VFail _ \<Rightarrow> True | _ \<Rightarrow> False)"

definition set_fs :: "fstree \<Rightarrow> world \<Rightarrow> world" where
  "set_fs fs w = w\<lparr>w_fs := fs, w_trace := w_trace w @ [(fs, w_sup w)]\<rparr>"

definition is_dir :: "fstree \<Rightarrow> fpath \<Rightarrow> bool" where
  "is_dir fs p \<longleftrightarrow> p = [] \<or> (case fs p of Some n \<Rightarrow> n_body n = BDir | None \<Rightarrow> False)"

definition parents :: "fpath \<Rightarrow> fpath list" where "parents p = map (\<lambda>k. take k p) [1..<length p]"

text \<open>The error of looking up a path: a NUL byte in it, or a parent that is missing or no directory.\<close>

definition path_error :: "fstree \<Rightarrow> fpath \<Rightarrow> io_error option" where
  "path_error fs p =
     (if \<exists>c \<in> set p. CHR 0x00 \<in> set c then Some InvalidInput
      else case find (\<lambda>q. \<not> is_dir fs q) (parents p) of
             None \<Rightarrow> None
           | Some q \<Rightarrow> Some (OsError (if fs q = None then ENOENT else ENOTDIR)))"

text \<open>A system call on a path: verdict and lookup first, then the effect on the tree.\<close>

definition syscall :: "fpath \<Rightarrow> (verdict \<Rightarrow> fstree \<Rightarrow> io_error + fstree) \<Rightarrow> unit io" where
  "syscall p effect w =
     (let (v, w1) = next_verdict w
      in case path_error (w_fs w1) p of
           Some e \<Rightarrow> (w1, Inl e)
         | None \<Rightarrow>
             (case v of
                VFail e \<Rightarrow> (w1, Inl (OsError e))
              | _ \<Rightarrow> (case effect v (w_fs w1) of
                        Inl e \<Rightarrow> (w1, Inl e)
                      | Inr fs \<Rightarrow> (set_fs fs w1, Inr ()))))"

definition fresh_node :: "node_body \<Rightarrow> attr \<Rightarrow> fnode" where
  "fresh_node b a = \<lparr>n_body = b, n_attr = a\<lparr>a_xattrs := []\<rparr>\<rparr>"

definition existing :: "fpath \<Rightarrow> (fnode \<Rightarrow> io_error + fnode) \<Rightarrow> verdict \<Rightarrow> fstree \<Rightarrow> io_error + fstree" where
  "existing p f v fs =
     (case fs p of
        None \<Rightarrow> Inl (OsError ENOENT)
      | Some n \<Rightarrow> (case f n of Inl e \<Rightarrow> Inl e | Inr n' \<Rightarrow> Inr (fs(p \<mapsto> n'))))"

text \<open>\<open>File::create\<close>: an existing regular file is truncated; creating over a link or a special node is outside the model.\<close>

definition sys_create :: "fpath \<Rightarrow> unit io" where
  "sys_create p w =
     syscall p (\<lambda>v fs. case fs p of
        None \<Rightarrow> Inr (fs(p \<mapsto> fresh_node (BFile [] False) (w_new_attr w)))
      | Some n \<Rightarrow> (case n_body n of
                     BFile _ _ \<Rightarrow> Inr (fs(p \<mapsto> n\<lparr>n_body := BFile [] False\<rparr>))
                   | BDir \<Rightarrow> Inl (OsError EISDIR)
                   | _ \<Rightarrow> Inl (OsError EOTHER))) w"

text \<open>\<open>write_all\<close> on a new file: a torn write lands other bytes.\<close>

definition sys_write_all :: "fpath \<Rightarrow> bytes \<Rightarrow> unit io" where
  "sys_write_all p data =
     syscall p (\<lambda>v. existing p (\<lambda>n. Inr (n\<lparr>n_body := BFile (case v of VTorn bs \<Rightarrow> bs | _ \<Rightarrow> data) False\<rparr>)) v)"

definition sys_sync_all :: "fpath \<Rightarrow> unit io" where
  "sys_sync_all p =
     syscall p (existing p (\<lambda>n. Inr (case n_body n of BFile bs _ \<Rightarrow> n\<lparr>n_body := BFile bs True\<rparr> | _ \<Rightarrow> n)))"

definition on_attr :: "(attr \<Rightarrow> attr) \<Rightarrow> fnode \<Rightarrow> io_error + fnode" where
  "on_attr f n = Inr (n\<lparr>n_attr := f (n_attr n)\<rparr>)"

text \<open>\<open>chmod\<close> follows links, so on a link nothing of this tree changes.\<close>

definition sys_chmod :: "fpath \<Rightarrow> u32 \<Rightarrow> unit io" where
  "sys_chmod p mode =
     syscall p (existing p (\<lambda>n. case n_body n of BLink _ \<Rightarrow> Inr n | _ \<Rightarrow> on_attr (a_mode_update (\<lambda>_. mode)) n))"

definition sys_lsetxattr :: "fpath \<Rightarrow> bytes \<Rightarrow> bytes \<Rightarrow> unit io" where
  "sys_lsetxattr p name value = syscall p (existing p (on_attr (a_xattrs_update (bt_insert name value))))"

text \<open>A change of owner clears the set-user-ID and set-group-ID bits of a regular file.\<close>

definition sys_lchown :: "fpath \<Rightarrow> u32 \<Rightarrow> u32 \<Rightarrow> unit io" where
  "sys_lchown p uid gid =
     syscall p (existing p (\<lambda>n. on_attr (\<lambda>a. a\<lparr>a_uid := uid, a_gid := gid,
        a_mode := (case n_body n of BFile _ _ \<Rightarrow> and (a_mode a) 0x3FF | _ \<Rightarrow> a_mode a)\<rparr>) n))"

definition sys_utimensat :: "fpath \<Rightarrow> i64 \<Rightarrow> u32 \<Rightarrow> unit io" where
  "sys_utimensat p s ns = syscall p (existing p (on_attr (\<lambda>a. a\<lparr>a_mtime_s := s, a_mtime_ns := ns\<rparr>)))"

definition sys_symlink :: "bytes \<Rightarrow> fpath \<Rightarrow> unit io" where
  "sys_symlink target p w =
     (if 0 \<in> set target then (w, Inl InvalidInput)
      else syscall p (\<lambda>v fs. if target = [] then Inl (OsError ENOENT)
                             else if fs p \<noteq> None then Inl (OsError EEXIST)
                             else Inr (fs(p \<mapsto> fresh_node (BLink target) (w_new_attr w)))) w)"

definition sys_mknod :: "fpath \<Rightarrow> file_kind \<Rightarrow> u32 \<Rightarrow> u64 \<Rightarrow> unit io" where
  "sys_mknod p kind mode rdev w =
     syscall p (\<lambda>v fs. if fs p \<noteq> None then Inl (OsError EEXIST)
                       else Inr (fs(p \<mapsto> fresh_node (BSpecial kind rdev) ((w_new_attr w)\<lparr>a_mode := mode\<rparr>)))) w"

text \<open>\<open>rename\<close> replaces the target atomically; only directories refuse a file.  Renaming a directory is not used.\<close>

definition sys_rename :: "fpath \<Rightarrow> fpath \<Rightarrow> unit io" where
  "sys_rename src dst =
     syscall src (\<lambda>v fs. case path_error fs dst of
        Some e \<Rightarrow> Inl e
      | None \<Rightarrow>
          (case fs src of
             None \<Rightarrow> Inl (OsError ENOENT)
           | Some n \<Rightarrow> if n_body n = BDir then Inl (OsError EOTHER)
                       else if is_dir fs dst then Inl (OsError EISDIR)
                       else Inr ((fs(src := None))(dst \<mapsto> n))))"

definition sys_remove_file :: "fpath \<Rightarrow> unit io" where
  "sys_remove_file p =
     syscall p (\<lambda>v fs. case fs p of
        None \<Rightarrow> Inl (OsError ENOENT)
      | Some n \<Rightarrow> if n_body n = BDir then Inl (OsError EISDIR) else Inr (fs(p := None)))"

text \<open>
  Opening and reading a whole file: opening follows a link, whose target may be anywhere
  (\<open>w_deref\<close>); a directory can be opened and not read.  Opening a FIFO, which waits for a
  writer, is outside the model.
\<close>

definition sys_open :: "fpath \<Rightarrow> unit io" where
  "sys_open p w =
     (let (v, w1) = next_verdict w
      in case path_error (w_fs w1) p of
           Some e \<Rightarrow> (w1, Inl e)
         | None \<Rightarrow>
             (case v of
                VFail e \<Rightarrow> (w1, Inl (OsError e))
              | _ \<Rightarrow> (w1, if w_fs w1 p = None then Inl (OsError ENOENT) else Inr ())))"

definition sys_read :: "fpath \<Rightarrow> bytes io" where
  "sys_read p w =
     (let (v, w1) = next_verdict w
      in case path_error (w_fs w1) p of
           Some e \<Rightarrow> (w1, Inl e)
         | None \<Rightarrow>
             (case v of
                VFail e \<Rightarrow> (w1, Inl (OsError e))
              | _ \<Rightarrow> (case w_fs w1 p of
                        None \<Rightarrow> (w1, Inl (OsError ENOENT))
                      | Some n \<Rightarrow> (case n_body n of
                                     BFile bs _ \<Rightarrow> (w1, Inr bs)
                                   | BLink _ \<Rightarrow> (w1, w_deref w1 p)
                                   | BSpecial _ _ \<Rightarrow> (w1, Inl (OsError EOTHER))
                                   | BDir \<Rightarrow> (w1, Inl (OsError EISDIR))))))"

text \<open>
  \<open>create_dir_all\<close>: the missing ones among the parents and the directory itself.  What is
  no directory is \<open>EEXIST\<close> at the end of the path and \<open>ENOTDIR\<close> before.
\<close>

fun mkdirs :: "fpath list \<Rightarrow> unit io" where
  "mkdirs [] w = (w, Inr ())"
| "mkdirs (q # qs) w =
     (if is_dir (w_fs w) q then mkdirs qs w
      else case syscall q (\<lambda>v fs. if fs q \<noteq> None then Inl (OsError (if qs = [] then EEXIST else ENOTDIR))
                                   else Inr (fs(q \<mapsto> fresh_node BDir (w_new_attr w)))) w of
             (w', Inl e) \<Rightarrow> (w', Inl e)
           | (w', Inr _) \<Rightarrow> mkdirs qs w')"

definition sys_create_dir_all :: "fpath \<Rightarrow> unit io" where
  "sys_create_dir_all p = mkdirs (parents p @ (if p = [] then [] else [p]))"

text \<open>Opening a directory and syncing it, errors ignored: a verdict each, no effect on the tree.\<close>

definition sync_dir :: "fpath \<Rightarrow> world \<Rightarrow> world" where
  "sync_dir p w =
     (let (v, w1) = next_verdict w
      in if is_dir (w_fs w1) p \<and> \<not> failed v then snd (next_verdict w1) else w1)"

end
