(* ===== verification/Apply.thy ===== *)
theory Apply
  imports Disk
begin

text \<open>
  Atomic, verified, suppressed apply (\<open>src/apply.rs\<close>) and the metadata calls it makes
  (\<open>apply_meta\<close>, \<open>create_special\<close> and \<open>can_chown\<close> of \<open>src/metadata.rs\<close>).  Every function
  stages a node under a temporary name beside the destination, renames it into place and
  removes the temporary name when a step failed.  Process id and time are arguments.
\<close>

datatype apply_error =
    HashMismatch path
  | UnsafePath path
  | Io string fpath io_error
  | Cas cas_error

record apply_ctx =
  ax_crates :: crates
  ax_root :: fpath
  ax_pid :: nat
  ax_now :: nat
  ax_policy :: owner_policy

definition TMP_SUFFIX :: string where "TMP_SUFFIX = ''.replicore-tmp''"

subsection \<open>Paths\<close>

datatype component = RootDir | CurDir | ParentDir | Normal string

fun split_slash :: "string \<Rightarrow> string list" where
  "split_slash [] = [[]]"
| "split_slash (c # cs) =
     (if c = CHR ''/'' then [] # split_slash cs
      else case split_slash cs of s # ss \<Rightarrow> (c # s) # ss | [] \<Rightarrow> [[c]])"

definition name_component :: "string \<Rightarrow> component list" where
  "name_component s =
     (if s = [] \<or> s = ''.'' then [] else if s = ''..'' then [ParentDir] else [Normal s])"

text \<open>\<open>Path::components\<close>: empty names and inner dots vanish, a leading dot stays.\<close>

definition path_components :: "string \<Rightarrow> component list" where
  "path_components rel =
     (if take 1 rel = ''/'' then [RootDir]
      else if hd (split_slash rel) = ''.'' then [CurDir] else [])
     @ concat (map name_component (split_slash rel))"

definition is_normal :: "component \<Rightarrow> bool" where
  "is_normal c = (case c of Normal _ \<Rightarrow> True | _ \<Rightarrow> False)"

definition safe_dest :: "fpath \<Rightarrow> path \<Rightarrow> apply_error + fpath" where
  "safe_dest root rel =
     (if rel = [] \<or> take 1 rel = ''/'' \<or> (\<exists>c \<in> set (path_components rel). \<not> is_normal c)
      then Inl (UnsafePath rel)
      else Inr (root @ concat (map (\<lambda>c. case c of Normal s \<Rightarrow> [s] | _ \<Rightarrow> []) (path_components rel))))"

fun show_nat_digits :: "nat \<Rightarrow> nat \<Rightarrow> string" where
  "show_nat_digits 0 n = []"
| "show_nat_digits (Suc k) n =
     (if n < 10 then [] else show_nat_digits k (n div 10)) @ [char_of (48 + n mod 10)]"

definition show_nat :: "nat \<Rightarrow> string" where "show_nat n = show_nat_digits (Suc n) n"

text \<open>The temporary name, and the counter it is numbered with.\<close>

definition tmp_name :: "apply_ctx \<Rightarrow> fpath \<Rightarrow> u64 \<Rightarrow> fpath" where
  "tmp_name c dest stage_seq =
     butlast dest @ [''.'' @ last dest @ TMP_SUFFIX @ ''.'' @ show_nat (ax_pid c) @ ''.'' @ show_nat (unat stage_seq)]"

definition next_stage :: "world \<Rightarrow> u64 \<times> world" where
  "next_stage w = (w_seq w, w\<lparr>w_seq := w_seq w + 1\<rparr>)"

definition with_ctx :: "string \<Rightarrow> fpath \<Rightarrow> world \<times> (io_error + 'a) \<Rightarrow> world \<times> (apply_error + 'a)" where
  "with_ctx ctx p r = (case r of (w, Inl e) \<Rightarrow> (w, Inl (Io ctx p e)) | (w, Inr x) \<Rightarrow> (w, Inr x))"

text \<open>Sequencing with the error returned early, the \<open>?\<close> of the source.\<close>

definition and_then :: "'s \<times> ('e + 'a) \<Rightarrow> ('a \<Rightarrow> 's \<Rightarrow> 's \<times> ('e + 'b)) \<Rightarrow> 's \<times> ('e + 'b)" where
  "and_then r k = (case r of (w, Inl e) \<Rightarrow> (w, Inl e) | (w, Inr x) \<Rightarrow> k x w)"

definition suppress_write :: "apply_ctx \<Rightarrow> path \<Rightarrow> hash32 \<Rightarrow> world \<Rightarrow> world" where
  "suppress_write c rel h w = w\<lparr>w_sup := register_write (ax_now c) rel h (w_sup w)\<rparr>"

definition suppress_delete :: "apply_ctx \<Rightarrow> path \<Rightarrow> world \<Rightarrow> world" where
  "suppress_delete c rel w = w\<lparr>w_sup := register_delete (ax_now c) rel (w_sup w)\<rparr>"

subsection \<open>Metadata\<close>

record meta_applied = owner_skipped :: bool

fun apply_xattrs :: "fpath \<Rightarrow> (bytes \<times> bytes) list \<Rightarrow> unit io" where
  "apply_xattrs p [] w = (w, Inr ())"
| "apply_xattrs p ((name, value) # xs) w =
     (if 0 \<in> set name then (w, Inl InvalidData)
      else case sys_lsetxattr p name value w of
             (w', Inl e) \<Rightarrow> if e = OsError ENOTSUP \<or> e = OsError EPERM then apply_xattrs p xs w' else (w', Inl e)
           | (w', Inr _) \<Rightarrow> apply_xattrs p xs w')"

definition note_owner_skip :: "world \<Rightarrow> world" where
  "note_owner_skip w = w\<lparr>w_owner_skips := w_owner_skips w + 1\<rparr>"

definition apply_owner :: "fpath \<Rightarrow> meta \<Rightarrow> owner_policy \<Rightarrow> meta_applied io" where
  "apply_owner p m policy w =
     (case policy of
        Skip \<Rightarrow> (note_owner_skip w, Inr \<lparr>owner_skipped = True\<rparr>)
      | Numeric \<Rightarrow>
          (case sys_lchown p (m_uid m) (m_gid m) w of
             (w', Inl e) \<Rightarrow> if e = OsError EPERM then (note_owner_skip w', Inr \<lparr>owner_skipped = True\<rparr>) else (w', Inl e)
           | (w', Inr _) \<Rightarrow> (w', Inr \<lparr>owner_skipped = False\<rparr>)))"

definition apply_meta :: "fpath \<Rightarrow> meta \<Rightarrow> owner_policy \<Rightarrow> meta_applied io" where
  "apply_meta p m policy w =
     (if \<exists>s \<in> set p. CHR 0x00 \<in> set s then (w, Inl InvalidInput)
      else and_then (apply_xattrs p (m_xattrs m) w) (\<lambda>_ w.
           and_then (apply_owner p m policy w) (\<lambda>applied w.
           and_then (if m_kind m \<noteq> Symlink then sys_chmod p (and (m_mode m) 0xFFF) w else (w, Inr ())) (\<lambda>_ w.
           and_then (sys_utimensat p (m_mtime_s m) (m_mtime_ns m) w) (\<lambda>_ w. (w, Inr applied))))))"

definition apply_meta_opt :: "fpath \<Rightarrow> meta option \<Rightarrow> owner_policy \<Rightarrow> world \<Rightarrow> world \<times> (apply_error + unit)" where
  "apply_meta_opt p mo policy w =
     (case mo of
        None \<Rightarrow> (w, Inr ())
      | Some m \<Rightarrow> and_then (with_ctx ''meta'' p (apply_meta p m policy w)) (\<lambda>_ w. (w, Inr ())))"

definition create_special :: "fpath \<Rightarrow> meta \<Rightarrow> unit io" where
  "create_special p m w =
     (if \<exists>s \<in> set p. CHR 0x00 \<in> set s then (w, Inl InvalidInput)
      else if m_kind m = Regular \<or> m_kind m = Symlink then (w, Inl InvalidInput)
      else case sys_mknod p (m_kind m) (and (m_mode m) 0xFFF) (if m_kind m = Fifo then 0 else m_rdev m) w of
             (w', Inl e) \<Rightarrow> if e = OsError EEXIST then (w', Inr ()) else (w', Inl e)
           | (w', Inr _) \<Rightarrow> (w', Inr ()))"

text \<open>The probe of \<open>can_chown\<close>: the effective user, then a file given to root.\<close>

definition can_chown :: "bool \<Rightarrow> nat \<Rightarrow> fpath \<Rightarrow> bool io" where
  "can_chown euid_is_root pid probe_dir w =
     (if euid_is_root then (w, Inr True)
      else let probe = probe_dir @ [''.replicore-chown-probe.'' @ show_nat pid]
           in and_then (sys_create_dir_all probe_dir w) (\<lambda>_ w.
              and_then (sys_create probe w) (\<lambda>_ w.
              and_then (sys_write_all probe [] w) (\<lambda>_ w.
                (case sys_lchown probe 0 0 w of
                   (w', Inr _) \<Rightarrow> (fst (sys_remove_file probe w'), Inr True)
                 | (w', Inl e) \<Rightarrow>
                     (fst (sys_remove_file probe w'), if e = OsError EPERM then Inr False else Inl e))))))"

subsection \<open>Staging and publishing\<close>

definition verify_on_disk :: "crates \<Rightarrow> fpath \<Rightarrow> hash32 \<Rightarrow> path \<Rightarrow> world \<Rightarrow> world \<times> (apply_error + unit)" where
  "verify_on_disk X p h rel w =
     and_then (with_ctx ''reopen'' p (sys_open p w)) (\<lambda>_ w.
     and_then (with_ctx ''readback'' p (sys_read p w)) (\<lambda>bs w.
       (w, if blake3 X bs \<noteq> h then Inl (HashMismatch rel) else Inr ())))"

definition stage_write ::
  "apply_ctx \<Rightarrow> path \<Rightarrow> u32 \<Rightarrow> hash32 \<Rightarrow> bytes \<Rightarrow> meta option \<Rightarrow> fpath \<Rightarrow> world \<Rightarrow> world \<times> (apply_error + unit)" where
  "stage_write c rel mode h data mo tmp w =
     and_then (with_ctx ''create'' tmp (sys_create tmp w)) (\<lambda>_ w.
     and_then (with_ctx ''write'' tmp (sys_write_all tmp data w)) (\<lambda>_ w.
     and_then (with_ctx ''fsync'' tmp (sys_sync_all tmp w)) (\<lambda>_ w.
     and_then (with_ctx ''chmod'' tmp (sys_chmod tmp (and mode 0xFFF) w)) (\<lambda>_ w.
     and_then (verify_on_disk (ax_crates c) tmp h rel w) (\<lambda>_ w.
       apply_meta_opt tmp mo (ax_policy c) w)))))"

text \<open>
  Assembly into the staged file: the chunks come from the store, a corrupt one leaves it;
  what lands in the file may be torn, and after an error it is whatever the verdict says.
\<close>

definition stage_chunks :: "apply_ctx \<Rightarrow> manifest \<Rightarrow> fpath \<Rightarrow> world \<Rightarrow> world \<times> (apply_error + hash32)" where
  "stage_chunks c man tmp w =
     (let (v, w1) = next_verdict w;
          (cas', res) = assemble_from_cas (ax_crates c) (\<not> failed v) man (w_cas w1);
          w2 = w1\<lparr>w_cas := cas'\<rparr>
      in case res of
           Inl e \<Rightarrow> (fst (sys_write_all tmp [] w2), Inl (Cas e))
         | Inr (out, written) \<Rightarrow>
             (case sys_write_all tmp out w2 of
                (w3, Inl e) \<Rightarrow> (w3, Inl (Cas CIo))
              | (w3, Inr _) \<Rightarrow> (w3, Inr written)))"

definition stage_assembled ::
  "apply_ctx \<Rightarrow> path \<Rightarrow> u32 \<Rightarrow> hash32 \<Rightarrow> manifest \<Rightarrow> meta option \<Rightarrow> fpath \<Rightarrow> world \<Rightarrow> world \<times> (apply_error + unit)" where
  "stage_assembled c rel mode whole_hash man mo tmp w =
     and_then (with_ctx ''create'' tmp (sys_create tmp w)) (\<lambda>_ w.
     and_then (stage_chunks c man tmp w) (\<lambda>written w.
     if written \<noteq> whole_hash then (w, Inl (HashMismatch rel))
     else and_then (with_ctx ''fsync'' tmp (sys_sync_all tmp w)) (\<lambda>_ w.
          and_then (with_ctx ''chmod'' tmp (sys_chmod tmp (and mode 0xFFF) w)) (\<lambda>_ w.
          and_then (verify_on_disk (ax_crates c) tmp whole_hash rel w) (\<lambda>_ w.
            apply_meta_opt tmp mo (ax_policy c) w)))))"

definition stage_symlink :: "apply_ctx \<Rightarrow> bytes \<Rightarrow> meta \<Rightarrow> fpath \<Rightarrow> world \<Rightarrow> world \<times> (apply_error + unit)" where
  "stage_symlink c target m tmp w =
     and_then (with_ctx ''symlink'' tmp (sys_symlink target tmp w)) (\<lambda>_ w. apply_meta_opt tmp (Some m) (ax_policy c) w)"

definition stage_special :: "apply_ctx \<Rightarrow> meta \<Rightarrow> fpath \<Rightarrow> world \<Rightarrow> world \<times> (apply_error + unit)" where
  "stage_special c m tmp w =
     and_then (with_ctx ''mknod'' tmp (create_special tmp m w)) (\<lambda>_ w. apply_meta_opt tmp (Some m) (ax_policy c) w)"

text \<open>The rename into place, the directory sync, and the removal of the staged node on failure.\<close>

definition publish :: "(world \<Rightarrow> world \<times> (apply_error + unit)) \<Rightarrow> fpath \<Rightarrow> fpath \<Rightarrow> world \<Rightarrow> world \<times> (apply_error + unit)" where
  "publish stage tmp dest w =
     (case and_then (stage w) (\<lambda>_ w. with_ctx ''rename'' dest (sys_rename tmp dest w)) of
        (w', Inl e) \<Rightarrow> (fst (sys_remove_file tmp w'), Inl e)
      | (w', Inr _) \<Rightarrow> (sync_dir (butlast dest) w', Inr ()))"

text \<open>What the four functions share: resolve, make the directory, register, take a number, publish.\<close>

definition staged_apply ::
  "apply_ctx \<Rightarrow> path \<Rightarrow> hash32 \<Rightarrow> (fpath \<Rightarrow> world \<Rightarrow> world \<times> (apply_error + unit)) \<Rightarrow> world \<Rightarrow> world \<times> (apply_error + unit)" where
  "staged_apply c rel h stage w =
     (case safe_dest (ax_root c) rel of
        Inl e \<Rightarrow> (w, Inl e)
      | Inr dest \<Rightarrow>
          and_then (with_ctx ''mkdir'' (butlast dest) (sys_create_dir_all (butlast dest) w)) (\<lambda>_ w.
            let (stage_seq, w) = next_stage (suppress_write c rel h w); tmp = tmp_name c dest stage_seq
            in publish (stage tmp) tmp dest w))"

definition apply_write ::
  "apply_ctx \<Rightarrow> path \<Rightarrow> u32 \<Rightarrow> hash32 \<Rightarrow> bytes \<Rightarrow> meta option \<Rightarrow> world \<Rightarrow> world \<times> (apply_error + unit)" where
  "apply_write c rel mode h data mo w =
     (if blake3 (ax_crates c) data \<noteq> h then (w, Inl (HashMismatch rel))
      else staged_apply c rel h (stage_write c rel mode h data mo) w)"

definition apply_assembled ::
  "apply_ctx \<Rightarrow> path \<Rightarrow> u32 \<Rightarrow> hash32 \<Rightarrow> manifest \<Rightarrow> meta option \<Rightarrow> world \<Rightarrow> world \<times> (apply_error + unit)" where
  "apply_assembled c rel mode whole_hash man mo w =
     (if mf_content_hash man \<noteq> whole_hash then (w, Inl (HashMismatch rel))
      else staged_apply c rel whole_hash (stage_assembled c rel mode whole_hash man mo) w)"

definition apply_symlink :: "apply_ctx \<Rightarrow> path \<Rightarrow> hash32 \<Rightarrow> meta \<Rightarrow> world \<Rightarrow> world \<times> (apply_error + unit)" where
  "apply_symlink c rel h m w =
     (case m_symlink_target m of
        None \<Rightarrow> (w, Inl (HashMismatch rel))
      | Some target \<Rightarrow>
          if blake3 (ax_crates c) target \<noteq> h then (w, Inl (HashMismatch rel))
          else staged_apply c rel h (stage_symlink c target m) w)"

definition apply_special :: "apply_ctx \<Rightarrow> path \<Rightarrow> meta \<Rightarrow> world \<Rightarrow> world \<times> (apply_error + unit)" where
  "apply_special c rel m = staged_apply c rel (zeros 32) (stage_special c m)"

definition apply_version ::
  "apply_ctx \<Rightarrow> path \<Rightarrow> u32 \<Rightarrow> hash32 option \<Rightarrow> manifest option \<Rightarrow> meta option \<Rightarrow> world \<Rightarrow> world \<times> (apply_error + unit)" where
  "apply_version c rel mode ho mano mo w =
     (case map_option m_kind mo of
        Some Symlink \<Rightarrow>
          (case (ho, mo) of (Some h, Some m) \<Rightarrow> apply_symlink c rel h m w | _ \<Rightarrow> (w, Inl (HashMismatch rel)))
      | Some Fifo \<Rightarrow> (case mo of Some m \<Rightarrow> apply_special c rel m w | None \<Rightarrow> (w, Inl (HashMismatch rel)))
      | Some CharDev \<Rightarrow> (case mo of Some m \<Rightarrow> apply_special c rel m w | None \<Rightarrow> (w, Inl (HashMismatch rel)))
      | Some BlockDev \<Rightarrow> (case mo of Some m \<Rightarrow> apply_special c rel m w | None \<Rightarrow> (w, Inl (HashMismatch rel)))
      | _ \<Rightarrow>
          (case (ho, mano) of
             (Some h, Some man) \<Rightarrow> apply_assembled c rel mode h man mo w
           | _ \<Rightarrow> (w, Inl (HashMismatch rel))))"

subsection \<open>Renames, metadata only, deletes\<close>

definition apply_rename ::
  "apply_ctx \<Rightarrow> path \<Rightarrow> path \<Rightarrow> u32 \<Rightarrow> hash32 \<Rightarrow> meta option \<Rightarrow> world \<Rightarrow> world \<times> (apply_error + bool)" where
  "apply_rename c old_rel new_rel mode h mo w =
     (case safe_dest (ax_root c) old_rel of
        Inl e \<Rightarrow> (w, Inl e)
      | Inr src \<Rightarrow>
     (case safe_dest (ax_root c) new_rel of
        Inl e \<Rightarrow> (w, Inl e)
      | Inr dest \<Rightarrow>
     (case verify_on_disk (ax_crates c) src h old_rel w of
        (w, Inl e) \<Rightarrow>
          (w, case e of
                Io _ _ (OsError ENOENT) \<Rightarrow> Inr False
              | HashMismatch _ \<Rightarrow> Inr False
              | _ \<Rightarrow> Inl e)
      | (w, Inr _) \<Rightarrow>
          and_then (with_ctx ''mkdir'' (butlast dest) (sys_create_dir_all (butlast dest) w)) (\<lambda>_ w.
          let w = suppress_write c new_rel h (suppress_delete c old_rel w)
          in and_then (with_ctx ''rename'' dest (sys_rename src dest w)) (\<lambda>_ w.
             and_then (with_ctx ''chmod'' dest (sys_chmod dest (and mode 0xFFF) w)) (\<lambda>_ w.
             and_then (apply_meta_opt dest mo (ax_policy c) w) (\<lambda>_ w.
               (sync_dir (butlast src) (sync_dir (butlast dest) w), Inr True))))))))"

definition apply_meta_only :: "apply_ctx \<Rightarrow> path \<Rightarrow> hash32 option \<Rightarrow> meta \<Rightarrow> world \<Rightarrow> world \<times> (apply_error + unit)" where
  "apply_meta_only c rel ho m w =
     (case safe_dest (ax_root c) rel of
        Inl e \<Rightarrow> (w, Inl e)
      | Inr dest \<Rightarrow> apply_meta_opt dest (Some m) (ax_policy c) (suppress_write c rel (unwrap_or ho (zeros 32)) w))"

definition apply_delete :: "apply_ctx \<Rightarrow> path \<Rightarrow> world \<Rightarrow> world \<times> (apply_error + unit)" where
  "apply_delete c rel w =
     (case safe_dest (ax_root c) rel of
        Inl e \<Rightarrow> (w, Inl e)
      | Inr dest \<Rightarrow>
          (case sys_remove_file dest (suppress_delete c rel w) of
             (w, Inl e) \<Rightarrow>
               if e = OsError ENOENT then (sync_dir (butlast dest) w, Inr ()) else (w, Inl (Io ''unlink'' dest e))
           | (w, Inr _) \<Rightarrow> (sync_dir (butlast dest) w, Inr ())))"

end
