(* ===== verification/Peer.thy ===== *)
theory Peer
  imports BTree_Map
begin

text \<open>
  The liveness registry, the connection pool and the reconnect backoff
  (\<open>src/peer.rs\<close>).  A \<open>quinn::Connection\<close> is represented by its \<open>stable_id\<close>, which
  identifies it; closing is recorded in the list of closed ids.  The hash maps are
  keyed maps; where the code iterates over one, the iteration order is a parameter.
\<close>

datatype peer_state = Disconnected | Dialing | Reconciling | Live | Backoff

definition peer_state_as_str :: "peer_state \<Rightarrow> string" where
  "peer_state_as_str s = (case s of
      Disconnected \<Rightarrow> ''disconnected'' | Dialing \<Rightarrow> ''dialing'' | Reconciling \<Rightarrow> ''reconciling''
    | Live \<Rightarrow> ''live'' | Backoff \<Rightarrow> ''backoff'')"

record peer_status =
  ps_state :: peer_state
  ps_last_reconcile_unix :: i64
  ps_last_reconcile_ok :: bool

definition peer_status_default :: peer_status where
  "peer_status_default = \<lparr>ps_state = Disconnected, ps_last_reconcile_unix = 0, ps_last_reconcile_ok = False\<rparr>"

type_synonym peer_registry = "(node_id, peer_status) btree"

text \<open>\<open>entry(peer).or_default()\<close> followed by an update of the entry.\<close>

definition entry_update :: "'v \<Rightarrow> ('v \<Rightarrow> 'v) \<Rightarrow> 'k::linorder \<Rightarrow> ('k, 'v) btree \<Rightarrow> ('k, 'v) btree" where
  "entry_update dflt f k m = bt_insert k (f (unwrap_or (bt_get m k) dflt)) m"

definition set_state :: "node_id \<Rightarrow> peer_state \<Rightarrow> peer_registry \<Rightarrow> peer_registry" where
  "set_state p s = entry_update peer_status_default (\<lambda>e. e\<lparr>ps_state := s\<rparr>) p"

definition note_reconcile :: "i64 \<Rightarrow> node_id \<Rightarrow> bool \<Rightarrow> peer_registry \<Rightarrow> peer_registry" where
  "note_reconcile unix p ok = entry_update peer_status_default
     (\<lambda>e. e\<lparr>ps_last_reconcile_unix := unix, ps_last_reconcile_ok := ok\<rparr>) p"

definition registry_get :: "peer_registry \<Rightarrow> node_id \<Rightarrow> peer_status" where
  "registry_get r p = unwrap_or (bt_get r p) peer_status_default"

definition registry_snapshot ::
  "((node_id \<times> peer_status) list \<Rightarrow> (node_id \<times> peer_status) list) \<Rightarrow> peer_registry \<Rightarrow> (node_id \<times> peer_status) list" where
  "registry_snapshot iter r = sort_key fst (iter r)"

subsection \<open>Connections\<close>

type_synonym conn = nat
type_synonym conn_registry = "(node_id, conn list) btree"

definition conn_insert :: "node_id \<Rightarrow> conn \<Rightarrow> conn_registry \<Rightarrow> conn_registry" where
  "conn_insert p c = entry_update [] (\<lambda>conns. if c \<in> set conns then conns else conns @ [c]) p"

definition remove_if_same :: "node_id \<Rightarrow> conn \<Rightarrow> conn_registry \<Rightarrow> conn_registry" where
  "remove_if_same p c r =
     (case bt_get r p of
        None \<Rightarrow> r
      | Some conns \<Rightarrow>
          (let kept = filter (\<lambda>d. d \<noteq> c) conns
           in if kept = [] then bt_remove p (bt_insert p kept r) else bt_insert p kept r))"

definition conn_get :: "conn_registry \<Rightarrow> node_id \<Rightarrow> conn option" where
  "conn_get r p = (case bt_get r p of Some (c # _) \<Rightarrow> Some c | _ \<Rightarrow> None)"

text \<open>\<open>close_all\<close>: the registry without the peer, and the connections closed.\<close>

definition close_all :: "node_id \<Rightarrow> conn_registry \<Rightarrow> conn_registry \<times> conn list" where
  "close_all p r = (case bt_get r p of None \<Rightarrow> (r, []) | Some conns \<Rightarrow> (bt_remove p r, conns))"

definition conn_all ::
  "((node_id \<times> conn list) list \<Rightarrow> (node_id \<times> conn list) list) \<Rightarrow> conn_registry \<Rightarrow> (node_id \<times> conn) list" where
  "conn_all iter r = List.map_filter (\<lambda>(k, v). case v of [] \<Rightarrow> None | c # _ \<Rightarrow> Some (k, c)) (iter r)"

definition candidates ::
  "((node_id \<times> conn list) list \<Rightarrow> (node_id \<times> conn list) list) \<Rightarrow> conn_registry \<Rightarrow> node_id \<Rightarrow> (node_id \<times> conn) list" where
  "candidates iter r origin_first =
     (case bt_get r origin_first of None \<Rightarrow> [] | Some conns \<Rightarrow> map (Pair origin_first) conns)
     @ concat (map (\<lambda>(k, conns). if k \<noteq> origin_first then map (Pair k) conns else []) (iter r))"

subsection \<open>Backoff\<close>

definition BACKOFF_FLOOR :: u64 where "BACKOFF_FLOOR = 250"
definition BACKOFF_CAP :: u64 where "BACKOFF_CAP = 15000"
definition BACKOFF_BASE_MS :: u64 where "BACKOFF_BASE_MS = 500"

definition saturating_mul :: "u64 \<Rightarrow> u64 \<Rightarrow> u64" where
  "saturating_mul a b = (if unat a * unat b < 2 ^ 64 then a * b else - 1)"

definition checked_shl :: "u64 \<Rightarrow> u32 \<Rightarrow> u64 option" where
  "checked_shl a n = (if unat n < 64 then Some (push_bit (unat n) a) else None)"

definition backoff_cap_ms :: "u32 \<Rightarrow> u64" where
  "backoff_cap_ms attempt =
     min (saturating_mul BACKOFF_BASE_MS (unwrap_or (checked_shl 1 (min attempt 20)) (- 1))) BACKOFF_CAP"

text \<open>\<open>draw\<close> is \<open>fastrand::u64(0..=cap)\<close>: some value of the closed range.\<close>

definition jittered_backoff :: "(u64 \<Rightarrow> u64) \<Rightarrow> u32 \<Rightarrow> u64" where
  "jittered_backoff draw attempt =
     (let jittered = draw (backoff_cap_ms attempt)
      in if jittered < BACKOFF_FLOOR then BACKOFF_FLOOR
         else if jittered > BACKOFF_CAP then BACKOFF_CAP else jittered)"

subsection \<open>What the pool holds\<close>

definition pool_ok :: "conn_registry \<Rightarrow> bool" where
  "pool_ok r \<longleftrightarrow> bt_ok r \<and> (\<forall>(p, conns) \<in> set r. conns \<noteq> [] \<and> distinct conns)"

definition links :: "conn_registry \<Rightarrow> (node_id \<times> conn) set" where
  "links r = {(p, c). \<exists>conns. bt_get r p = Some conns \<and> c \<in> set conns}"

lemma pool_get: "pool_ok r \<Longrightarrow> bt_get r p = Some conns \<Longrightarrow> conns \<noteq> [] \<and> distinct conns"
  by (auto simp: pool_ok_def dest!: bt_get_Some_mem)

lemma pool_ok_insert: "pool_ok r \<Longrightarrow> conns \<noteq> [] \<Longrightarrow> distinct conns \<Longrightarrow> pool_ok (bt_insert p conns r)"
  by (auto simp: pool_ok_def bt_ok_insert dest!: bt_insert_bound)

lemma pool_ok_remove: "pool_ok r \<Longrightarrow> pool_ok (bt_remove p r)"
  using bt_ok_remove [of r p] by (auto simp: pool_ok_def bt_remove_def)

lemma conn_insert_ok: "pool_ok r \<Longrightarrow> pool_ok (conn_insert p c r)"
  by (cases "bt_get r p") (auto simp: conn_insert_def entry_update_def intro!: pool_ok_insert dest: pool_get)

lemma remove_if_same_ok: "pool_ok r \<Longrightarrow> pool_ok (remove_if_same p c r)"
proof (cases "bt_get r p")
  case (Some conns)
  assume ok: "pool_ok r"
  show ?thesis
  proof (cases "filter (\<lambda>d. d \<noteq> c) conns = []")
    case True
    have "bt_remove p (bt_insert p [] r) = bt_remove p r"
      by (rule btree.canonical) (use ok in \<open>auto simp: pool_ok_def btree_laws\<close>)
    with True Some ok show ?thesis by (simp add: remove_if_same_def pool_ok_remove)
  next
    case False
    with Some ok pool_get [OF ok Some] show ?thesis by (simp add: remove_if_same_def Let_def pool_ok_insert)
  qed
qed (simp add: remove_if_same_def)

lemma links_insert: "links (conn_insert p c r) = insert (p, c) (links r)"
  by (auto simp: links_def conn_insert_def entry_update_def bt_get_insert split: if_splits option.splits)
    (auto simp: unwrap_or_def split: option.splits)

lemma links_remove: "links (remove_if_same p c r) = links r - {(p, c)}"
  by (auto simp: links_def remove_if_same_def Let_def bt_get_simps filter_empty_conv
      split: option.splits if_splits)

lemma links_close: "links (fst (close_all p r)) = {l \<in> links r. fst l \<noteq> p}"
  by (auto simp: links_def close_all_def bt_get_simps split: option.splits if_splits)

lemma closed_conns: "set (snd (close_all p r)) = {c. (p, c) \<in> links r}"
  by (auto simp: links_def close_all_def split: option.splits)

lemma candidates_set:
  assumes "bt_ok r" "mset (iter r) = mset r"
  shows "set (candidates iter r o1) = links r"
proof -
  have iter: "set (iter r) = set r" using assms(2) by (rule mset_eq_setD)
  have "(p, c) \<in> set (candidates iter r o1) \<longleftrightarrow> (p, c) \<in> links r" for p c
  proof (cases "p = o1")
    case True
    then show ?thesis by (cases "bt_get r o1") (auto simp: candidates_def links_def split: if_splits)
  next
    case False
    then have "(p, c) \<in> set (candidates iter r o1) \<longleftrightarrow> (\<exists>conns. (p, conns) \<in> set r \<and> c \<in> set conns)"
      by (cases "bt_get r o1") (force simp: candidates_def iter split: if_splits)+
    then show ?thesis by (simp add: links_def bt_get_mem_iff [OF assms(1)])
  qed
  then show ?thesis by auto
qed

lemma backoff_cap_value: "unat (backoff_cap_ms attempt) = min 15000 (500 * 2 ^ unat attempt)"
proof -
  define k where "k = unat (min attempt 20)"
  have k: "k = min (unat attempt) 20" "k \<le> 20"
    by (simp_all add: k_def min_def word_le_nat_alt)
  have shl: "checked_shl 1 (min attempt 20) = Some (push_bit k 1)"
    using k(2) by (simp add: checked_shl_def k_def [symmetric])
  have "k \<in> {0..20}" using k by auto
  then have "k \<in> set [0..<21]" by simp
  then have "unat (min (saturating_mul BACKOFF_BASE_MS (push_bit k 1)) BACKOFF_CAP) = min 15000 (500 * 2 ^ k)"
    unfolding saturating_mul_def BACKOFF_BASE_MS_def BACKOFF_CAP_def
    by (simp add: upt_rec) (elim disjE; simp add: min_def)
  moreover have "min 15000 (500 * 2 ^ k) = min 15000 (500 * 2 ^ unat attempt :: nat)"
  proof (cases "unat attempt \<le> 20")
    case False
    then have "(2::nat)^20 \<le> 2 ^ unat attempt" by (intro power_increasing) auto
    with False k show ?thesis by (simp add: min_def)
  qed (use k in simp)
  ultimately show ?thesis by (simp add: backoff_cap_ms_def shl)
qed

subsection \<open>Properties\<close>

text \<open>
  The connection pool holds exactly the links that were registered and not removed:
  registering adds one link (twice is once), removing a connection removes that link
  only, closing a peer closes all its connections and no other peer's, and the fetch
  candidates are all links, the origin's first.
\<close>

theorem connection_pool_laws:
  assumes "pool_ok r" "mset (iter r) = mset r"
  shows "links (conn_insert p c r) = insert (p, c) (links r)
    \<and> links (remove_if_same p c r) = links r - {(p, c)}
    \<and> links (fst (close_all p r)) = {l \<in> links r. fst l \<noteq> p} \<and> set (snd (close_all p r)) = {d. (p, d) \<in> links r}
    \<and> set (candidates iter r p) = links r
    \<and> (\<exists>own others. candidates iter r p = own @ others \<and> fst ` set own \<subseteq> {p} \<and> p \<notin> fst ` set others)
    \<and> pool_ok (conn_insert p c r) \<and> pool_ok (remove_if_same p c r)"
proof -
  have ok: "bt_ok r" using assms(1) by (simp add: pool_ok_def)
  have "\<exists>own others. candidates iter r p = own @ others \<and> fst ` set own \<subseteq> {p} \<and> p \<notin> fst ` set others"
    unfolding candidates_def by (intro exI conjI) (auto split: option.splits if_splits)
  with assms ok show ?thesis
    by (simp add: links_insert links_remove links_close closed_conns candidates_set conn_insert_ok remove_if_same_ok)
qed

theorem connection_pool_laws_witness: "links (conn_insert [1] 7 [([1], [7, 8])]) = insert ([1], 7) (links [([1], [7, 8])])"
  using connection_pool_laws [of "[([1], [7, 8])]" "\<lambda>xs. xs"] by (simp add: pool_ok_def bt_ok_def)

text \<open>
  Reconnect backoff is bounded and never overflows: for every attempt number the
  jitter range is \<open>[0, min(15000, 500 * 2^attempt)]\<close> milliseconds and the delay lies
  between the floor of 250 ms and the cap of 15 s; draws below the floor are raised to
  it, so half of the first range gives the floor itself.
\<close>

theorem backoff_bounded:
  assumes "draw (backoff_cap_ms attempt) \<le> backoff_cap_ms attempt"
  shows "unat (backoff_cap_ms attempt) = min 15000 (500 * 2 ^ unat attempt)
    \<and> 250 \<le> jittered_backoff draw attempt \<and> jittered_backoff draw attempt \<le> 15000
    \<and> (draw (backoff_cap_ms attempt) < 250 \<longrightarrow> jittered_backoff draw attempt = 250)"
proof -
  have "backoff_cap_ms attempt \<le> 15000" by (simp add: backoff_cap_ms_def BACKOFF_CAP_def)
  with assms backoff_cap_value [of attempt] show ?thesis
    by (auto simp: jittered_backoff_def Let_def BACKOFF_FLOOR_def BACKOFF_CAP_def)
qed

theorem backoff_bounded_witness: "unat (backoff_cap_ms 2) = 2000 \<and> jittered_backoff (\<lambda>_. 100) 2 = 250"
proof -
  have cap: "unat (backoff_cap_ms 2) = 2000" using backoff_cap_value [of 2] by simp
  have "(100 :: u64) \<le> backoff_cap_ms 2" by (simp add: word_le_nat_alt cap)
  from backoff_bounded [of "\<lambda>_. 100" 2, OF this] cap show ?thesis by simp
qed

end
