(* ===== verification/Node.thy ===== *)
theory Node
  imports Apply Store_Handle Peer
begin

text \<open>
  A running node: the store thread, the disk with the chunk store, and a clock that counts
  the points at which a task waits.  The tasks of the daemon interleave at these points:
  before the request of a task is answered, other tasks may have had turns of the store
  thread, chunks may have arrived or vanished, and programs may have changed files.  What
  happens there is a parameter (\<open>e_env\<close>), and so are the answers of peers, the connections
  that are live, the order in which a hash map is walked and the order in which parallel
  transfers complete.  \<open>engine\<close> holds these parameters with the configuration the receive
  paths read (\<open>Engine\<close> in \<open>src/net.rs\<close>).
\<close>

record manifest_req =
  mq_content_hash :: hash32
  mq_offset :: u32
  mq_count :: u32

record manifest_resp =
  ma_found :: bool
  ma_content_hash :: hash32
  ma_total :: u32
  ma_chunks :: "chunk_entry list"

record chunk_resp =
  ck_found :: bool
  ck_len :: u32

text \<open>What comes back on a stream: nothing usable, a page of a manifest, or a chunk header with the bytes after it.\<close>

datatype wire_request = AskManifest manifest_req | AskChunk hash32
datatype wire_reply = NoReply | ManifestReply manifest_resp | ChunkReply chunk_resp bytes

datatype env_event =
    StoreTurn store_cmd
  | FileChange fpath "fnode option"
  | ChunkPut bytes
  | ChunkGone hash32

record engine =
  e_node :: node_id
  e_apply :: apply_ctx
  e_max_file_bytes :: u64
  e_chunk_max_bytes :: u32
  e_registry :: "nat \<Rightarrow> conn_registry"
  e_iter :: "(node_id \<times> conn list) list \<Rightarrow> (node_id \<times> conn list) list"
  e_peers :: "nat \<Rightarrow> conn \<Rightarrow> wire_request \<Rightarrow> wire_reply"
  e_order :: "nat \<Rightarrow> chunk_entry list \<Rightarrow> chunk_entry list"
  e_env :: "nat \<Rightarrow> env_event list"

abbreviation e_crates :: "engine \<Rightarrow> crates" where "e_crates E \<equiv> ax_crates (e_apply E)"

record node =
  nd_store :: store
  nd_world :: world
  nd_time :: nat

text \<open>Other tasks send the store thread the commands it admits (\<open>cmd_ok\<close>).\<close>

fun env_step :: "engine \<Rightarrow> env_event \<Rightarrow> node \<Rightarrow> node" where
  "env_step E (StoreTurn cmd) n =
     (if cmd_ok (e_crates E) (e_node E) cmd (s_db (nd_store n))
      then n\<lparr>nd_store := fst (store_step (e_crates E) (e_node E) cmd (nd_store n))\<rparr> else n)"
| "env_step E (FileChange p x) n = n\<lparr>nd_world := set_fs ((w_fs (nd_world n))(p := x)) (nd_world n)\<rparr>"
| "env_step E (ChunkPut bs) n =
     n\<lparr>nd_world := (nd_world n)\<lparr>w_cas := fst (put_verified (e_crates E) True (w_cas (nd_world n)) (blake3 (e_crates E) bs) bs)\<rparr>\<rparr>"
| "env_step E (ChunkGone h) n = n\<lparr>nd_world := (nd_world n)\<lparr>w_cas := (w_cas (nd_world n))(h := None)\<rparr>\<rparr>"

definition await :: "engine \<Rightarrow> node \<Rightarrow> node" where
  "await E n = fold (env_step E) (e_env E (nd_time n)) (n\<lparr>nd_time := nd_time n + 1\<rparr>)"

text \<open>A call of the store handle, a blocking task on the disk, a question to a peer.\<close>

definition on_store :: "engine \<Rightarrow> (store \<Rightarrow> store \<times> 'a) \<Rightarrow> node \<Rightarrow> node \<times> 'a" where
  "on_store E f n = (let n = await E n; (s, r) = f (nd_store n) in (n\<lparr>nd_store := s\<rparr>, r))"

definition ask_store :: "engine \<Rightarrow> (store \<Rightarrow> 'a) \<Rightarrow> node \<Rightarrow> node \<times> ('e + 'a)" where
  "ask_store E f n = (let n = await E n in (n, Inr (f (nd_store n))))"

definition on_disk :: "(world \<Rightarrow> world \<times> 'a) \<Rightarrow> node \<Rightarrow> node \<times> 'a" where
  "on_disk f n = (let (w, r) = f (nd_world n) in (n\<lparr>nd_world := w\<rparr>, r))"

definition ask_peer :: "engine \<Rightarrow> conn \<Rightarrow> wire_request \<Rightarrow> node \<Rightarrow> node \<times> wire_reply" where
  "ask_peer E c req n = (await E n, e_peers E (nd_time n) c req)"

definition live_candidates :: "engine \<Rightarrow> node_id \<Rightarrow> node \<Rightarrow> (node_id \<times> conn) list" where
  "live_candidates E origin n = candidates (e_iter E) (e_registry E (nd_time n)) origin"

text \<open>The conversion of an error by \<open>?\<close>.\<close>

definition err_from :: "('e \<Rightarrow> 'f) \<Rightarrow> 's \<times> ('e + 'a) \<Rightarrow> 's \<times> ('f + 'a)" where
  "err_from f r = (fst r, case snd r of Inl e \<Rightarrow> Inl (f e) | Inr x \<Rightarrow> Inr x)"

end
