(* ===== verification/Fetch.thy ===== *)
theory Fetch
  imports Node
begin

text \<open>
  Missing-chunk fetch from several peers (\<open>src/fetch.rs\<close>) and the streams that serve it
  (\<open>serve_manifest\<close> and \<open>serve_chunk\<close> in \<open>src/net.rs\<close>).  Peers answer whatever they like.
  Parallel chunk transfers touch the chunk store once each, when they complete, so they
  are run in the order of their completion, which is a parameter.  Bandwidth limits only
  delay a transfer.  The running length of a manifest is kept unbounded; for a file-size
  cap below \<open>2 ^ 64 - 2 ^ 32\<close> the 64-bit sum of the code is the same number.
\<close>

text \<open>\<open>FJoin\<close> is the failure of a task that panics or is aborted, which tasks of the model do not do.\<close>

datatype fetch_error = Unavailable | NoUsablePeer | BadManifest string | FCas cas_error | FStore store_error | FJoin

definition fetch_is_permanent :: "fetch_error \<Rightarrow> bool" where
  "fetch_is_permanent e = (case e of Unavailable \<Rightarrow> True | BadManifest _ \<Rightarrow> True | _ \<Rightarrow> False)"

record fetch_limits =
  fl_max_chunk_bytes :: u32
  fl_max_file_bytes :: u64

definition engine_limits :: "engine \<Rightarrow> fetch_limits" where
  "engine_limits E = \<lparr>fl_max_chunk_bytes = e_chunk_max_bytes E, fl_max_file_bytes = e_max_file_bytes E\<rparr>"

definition max_manifest_chunks :: "fetch_limits \<Rightarrow> u64" where
  "max_manifest_chunks limits = fl_max_file_bytes limits div 4096 + 2"

subsection \<open>Manifests\<close>

fun charge_chunks :: "fetch_limits \<Rightarrow> chunk_entry list \<Rightarrow> nat \<Rightarrow> fetch_error + nat" where
  "charge_chunks limits [] running_len = Inr running_len"
| "charge_chunks limits (c # cs) running_len =
     (if ce_len c = 0 \<or> ce_len c > fl_max_chunk_bytes limits then Inl (BadManifest ''chunk length out of bounds'')
      else if running_len + unat (ce_len c) > unat (fl_max_file_bytes limits)
           then Inl (BadManifest ''total length exceeds max_file_bytes'')
           else charge_chunks limits cs (running_len + unat (ce_len c)))"

lemma charge_chunks_grows:
  "charge_chunks limits cs r = Inr r' \<Longrightarrow> r + length cs \<le> r' \<and> (cs \<noteq> [] \<longrightarrow> r' \<le> unat (fl_max_file_bytes limits))"
proof (induction cs arbitrary: r)
  case (Cons c cs)
  then have "1 \<le> unat (ce_len c)" by (auto simp: Suc_le_eq unat_gt_0 split: if_splits)
  with Cons.IH [of "r + unat (ce_len c)"] Cons.prems show ?case by (cases cs) (auto split: if_splits)
qed simp

text \<open>The checks on one page, with the chunks gathered so far.\<close>

definition check_page ::
  "fetch_limits \<Rightarrow> hash32 \<Rightarrow> manifest_resp \<Rightarrow> chunk_entry list \<Rightarrow> nat \<Rightarrow> fetch_error + (bool \<times> chunk_entry list \<times> nat)" where
  "check_page limits content_hash resp chunks running_len =
     (if ma_content_hash resp \<noteq> content_hash then Inl (BadManifest ''wrong content_hash'')
      else if ucast (ma_total resp) > max_manifest_chunks limits
           then Inl (BadManifest ''chunk count exceeds file-size cap'')
      else if (word_of_nat (length (ma_chunks resp)) :: u32) > word_of_nat MANIFEST_PAGE
           then Inl (BadManifest ''oversized page'')
      else case charge_chunks limits (ma_chunks resp) running_len of
             Inl e \<Rightarrow> Inl e
           | Inr running_len' \<Rightarrow>
               (let chunks' = chunks @ ma_chunks resp; have_len = (word_of_nat (length chunks') :: u32)
                in if have_len > ma_total resp then Inl (BadManifest ''more chunks than total'')
                   else if have_len = ma_total resp then Inr (True, chunks', running_len')
                   else if ma_chunks resp = [] then Inl (BadManifest ''empty page before total'')
                   else Inr (False, chunks', running_len')))"

lemma check_page_progress:
  assumes "check_page limits h resp chunks r = Inr (False, chunks', r')"
  shows "r < r' \<and> r' \<le> unat (fl_max_file_bytes limits)"
  using assms charge_chunks_grows [of limits "ma_chunks resp" r r']
  by (cases "ma_chunks resp") (auto simp: check_page_def Let_def split: if_splits sum.splits)

function manifest_pages ::
  "engine \<Rightarrow> conn \<Rightarrow> hash32 \<Rightarrow> fetch_limits \<Rightarrow> chunk_entry list \<Rightarrow> nat \<Rightarrow> node \<Rightarrow> node \<times> (fetch_error + manifest option)" where
  "manifest_pages E c content_hash limits chunks running_len n =
     (let (n, reply) = ask_peer E c (AskManifest \<lparr>mq_content_hash = content_hash,
                          mq_offset = word_of_nat (length chunks), mq_count = word_of_nat MANIFEST_PAGE\<rparr>) n
      in case reply of
           ManifestReply resp \<Rightarrow>
             if \<not> ma_found resp then (n, Inr None)
             else (case check_page limits content_hash resp chunks running_len of
                     Inl e \<Rightarrow> (n, Inl e)
                   | Inr (True, chunks', _) \<Rightarrow> (n, Inr (Some \<lparr>mf_content_hash = content_hash, mf_chunks = chunks'\<rparr>))
                   | Inr (False, chunks', running_len') \<Rightarrow>
                       manifest_pages E c content_hash limits chunks' running_len' n)
         | _ \<Rightarrow> (n, Inl NoUsablePeer))"
  by pat_completeness auto
termination
  by (relation "measure (\<lambda>(_, _, _, limits, _, running_len, _). unat (fl_max_file_bytes limits) - running_len)")
    (auto dest!: check_page_progress)

declare manifest_pages.simps [simp del]

definition manifest_from_peer ::
  "engine \<Rightarrow> conn \<Rightarrow> hash32 \<Rightarrow> fetch_limits \<Rightarrow> node \<Rightarrow> node \<times> (fetch_error + manifest option)" where
  "manifest_from_peer E c content_hash limits = manifest_pages E c content_hash limits [] 0"

text \<open>The verdict when no candidate had it.\<close>

definition give_up :: "bool \<Rightarrow> fetch_error" where
  "give_up any_not_found = (if any_not_found then Unavailable else NoUsablePeer)"

fun manifest_from_any ::
  "engine \<Rightarrow> hash32 \<Rightarrow> fetch_limits \<Rightarrow> (node_id \<times> conn) list \<Rightarrow> bool \<Rightarrow> node \<Rightarrow> node \<times> (fetch_error + manifest)" where
  "manifest_from_any E content_hash limits [] any_not_found n = (n, Inl (give_up any_not_found))"
| "manifest_from_any E content_hash limits ((peer, c) # cs) any_not_found n =
     (case manifest_from_peer E c content_hash limits n of
        (n, Inr (Some m)) \<Rightarrow>
          and_then (on_store E (\<lambda>s. (store_put_manifest (e_crates E) (e_node E) m s, Inr ())) n) (\<lambda>_ n. (n, Inr m))
      | (n, Inr None) \<Rightarrow> manifest_from_any E content_hash limits cs True n
      | (n, Inl e) \<Rightarrow> manifest_from_any E content_hash limits cs any_not_found n)"

definition obtain_manifest ::
  "engine \<Rightarrow> hash32 \<Rightarrow> node_id \<Rightarrow> fetch_limits \<Rightarrow> node \<Rightarrow> node \<times> (fetch_error + manifest)" where
  "obtain_manifest E content_hash origin limits n =
     and_then (ask_store E (store_manifest_for (e_crates E) (e_node E) content_hash) n) (\<lambda>held n.
       case held of
         Some m \<Rightarrow> (n, Inr m)
       | None \<Rightarrow>
           (let cands = live_candidates E origin n
            in if cands = [] then (n, Inl NoUsablePeer) else manifest_from_any E content_hash limits cands False n))"

subsection \<open>Chunks\<close>

definition chunk_from_peer ::
  "engine \<Rightarrow> conn \<Rightarrow> chunk_entry \<Rightarrow> node \<Rightarrow> node \<times> (fetch_error + bytes option)" where
  "chunk_from_peer E c entry n =
     (let (n, reply) = ask_peer E c (AskChunk (ce_hash entry)) n
      in (n, case reply of
               ChunkReply resp stream \<Rightarrow>
                 if \<not> ck_found resp then Inr None
                 else if ck_len resp \<noteq> ce_len entry then Inl NoUsablePeer
                 else if length stream < unat (ck_len resp) then Inl NoUsablePeer
                 else let bs = take (unat (ck_len resp)) stream
                      in if blake3 (e_crates E) bs \<noteq> ce_hash entry then Inl NoUsablePeer else Inr (Some bs)
             | _ \<Rightarrow> Inl NoUsablePeer))"

definition cas_put_task :: "engine \<Rightarrow> hash32 \<Rightarrow> bytes \<Rightarrow> node \<Rightarrow> node \<times> (cas_error + unit)" where
  "cas_put_task E h bs = on_disk (\<lambda>w.
     let (v, w) = next_verdict w; (cas', r) = put_verified (e_crates E) (\<not> failed v) (w_cas w) h bs
     in (w\<lparr>w_cas := cas'\<rparr>, r))"

fun chunk_from_any ::
  "engine \<Rightarrow> chunk_entry \<Rightarrow> (node_id \<times> conn) list \<Rightarrow> bool \<Rightarrow> node \<Rightarrow> node \<times> (fetch_error + unit)" where
  "chunk_from_any E entry [] any_not_found n = (n, Inl (give_up any_not_found))"
| "chunk_from_any E entry ((peer, c) # cs) any_not_found n =
     (case chunk_from_peer E c entry n of
        (n, Inr (Some bs)) \<Rightarrow> err_from FCas (cas_put_task E (ce_hash entry) bs n)
      | (n, Inr None) \<Rightarrow> chunk_from_any E entry cs True n
      | (n, Inl e) \<Rightarrow> chunk_from_any E entry cs any_not_found n)"

definition fetch_one_chunk ::
  "engine \<Rightarrow> node_id \<Rightarrow> fetch_limits \<Rightarrow> chunk_entry \<Rightarrow> node \<Rightarrow> node \<times> (fetch_error + unit)" where
  "fetch_one_chunk E origin limits entry n =
     (if ce_len entry > fl_max_chunk_bytes limits then (n, Inl (BadManifest ''chunk length out of bounds''))
      else let cands = live_candidates E origin n
           in if cands = [] then (n, Inl NoUsablePeer) else chunk_from_any E entry cands False n)"

fun missing_chunks :: "cas \<Rightarrow> hash32 set \<Rightarrow> chunk_entry list \<Rightarrow> chunk_entry list" where
  "missing_chunks cas seen [] = []"
| "missing_chunks cas seen (c # cs) =
     (if ce_hash c \<in> seen then missing_chunks cas seen cs
      else if cas_has cas (ce_hash c) then missing_chunks cas (insert (ce_hash c) seen) cs
      else c # missing_chunks cas (insert (ce_hash c) seen) cs)"

text \<open>A permanent error replaces a transient one that was seen first.\<close>

definition join_error :: "fetch_error option \<Rightarrow> fetch_error + unit \<Rightarrow> fetch_error option" where
  "join_error first_err r =
     (case r of
        Inr _ \<Rightarrow> first_err
      | Inl e \<Rightarrow>
          (case first_err of
             None \<Rightarrow> Some e
           | Some prev \<Rightarrow> if fetch_is_permanent e \<and> \<not> fetch_is_permanent prev then Some e else first_err))"

fun run_tasks ::
  "engine \<Rightarrow> node_id \<Rightarrow> fetch_limits \<Rightarrow> chunk_entry list \<Rightarrow> fetch_error option \<Rightarrow> node \<Rightarrow> node \<times> fetch_error option" where
  "run_tasks E origin limits [] first_err n = (n, first_err)"
| "run_tasks E origin limits (entry # es) first_err n =
     (let (n, r) = fetch_one_chunk E origin limits entry n
      in run_tasks E origin limits es (join_error first_err r) n)"

definition fetch_file_chunks ::
  "engine \<Rightarrow> manifest \<Rightarrow> node_id \<Rightarrow> fetch_limits \<Rightarrow> node \<Rightarrow> node \<times> (fetch_error + unit)" where
  "fetch_file_chunks E m origin limits n =
     (let todo = missing_chunks (w_cas (nd_world n)) {} (mf_chunks m)
      in if todo = [] then (n, Inr ())
         else case run_tasks E origin limits (e_order E (nd_time n) todo) None n of
                (n, None) \<Rightarrow> (n, Inr ())
              | (n, Some e) \<Rightarrow> (n, Inl e))"

subsection \<open>The serving side\<close>

definition serve_manifest :: "manifest option \<Rightarrow> manifest_req \<Rightarrow> manifest_resp" where
  "serve_manifest held req =
     (case held of
        Some m \<Rightarrow>
          (let start = min (unat (mq_offset req)) (length (mf_chunks m));
               count = min (unat (min (mq_count req) (word_of_nat MANIFEST_PAGE))) (length (mf_chunks m) - start)
           in \<lparr>ma_found = True, ma_content_hash = mq_content_hash req,
               ma_total = word_of_nat (length (mf_chunks m)), ma_chunks = take count (drop start (mf_chunks m))\<rparr>)
      | None \<Rightarrow> \<lparr>ma_found = False, ma_content_hash = mq_content_hash req, ma_total = 0, ma_chunks = []\<rparr>)"

text \<open>\<open>open_reader\<close> gives the file and its length; the bytes are streamed as they are on disk.\<close>

definition serve_chunk :: "u32 \<Rightarrow> cas \<Rightarrow> hash32 \<Rightarrow> chunk_resp \<times> bytes" where
  "serve_chunk chunk_max_bytes cas h =
     (case cas h of
        Some bs \<Rightarrow>
          if length bs \<le> unat chunk_max_bytes
          then (\<lparr>ck_found = True, ck_len = word_of_nat (length bs)\<rparr>, bs)
          else (\<lparr>ck_found = False, ck_len = 0\<rparr>, [])
      | None \<Rightarrow> (\<lparr>ck_found = False, ck_len = 0\<rparr>, []))"

end
