(* ===== verification/Reconcile.thy ===== *)
theory Reconcile
  imports Merkle Fetch
begin

text \<open>
  The reconcile session (\<open>src/net.rs\<close>: \<open>serve_reconcile\<close> and the transport
  \<open>QuicReconcile\<close>; frames of \<open>src/proto.rs\<close>).  The responder answers each frame from one
  snapshot.  The puller's listing of a remote directory is a loop over pages against an
  arbitrary responder: its \<open>n\<close>-th reply is a parameter, so a hostile peer may answer
  anything.  The loop is a total function because the byte budget shrinks.
\<close>

record remote_leaf =
  rl_tombstone :: bool
  rl_content_hash :: "hash32 option"
  rl_vv :: version_vector
  rl_mode :: u32
  rl_size :: u64
  rl_uuid :: "uuid16 option"
  rl_meta :: "meta option"

datatype reconcile_frame =
    Begin
  | RootIs hash32 "(node_id \<times> i64) list"
  | TreeReq path string nat
  | TreeResp "wire_child list" bool
  | LeafReq path
  | LeafResp bool remote_leaf
  | Done

datatype reconcile_error =
    RProto proto_error
  | RStore store_error
  | RApply apply_error
  | RFetch fetch_error
  | RViolation string
  | RClosed

definition leaf_of_row :: "file_row \<Rightarrow> remote_leaf" where
  "leaf_of_row r = \<lparr>rl_tombstone = r_tombstone r, rl_content_hash = r_content_hash r, rl_vv = r_vv r,
     rl_mode = r_mode r, rl_size = r_size r, rl_uuid = r_uuid r, rl_meta = r_meta r\<rparr>"

definition no_leaf :: remote_leaf where
  "no_leaf = \<lparr>rl_tombstone = False, rl_content_hash = None, rl_vv = vv_new, rl_mode = 0, rl_size = 0,
     rl_uuid = None, rl_meta = None\<rparr>"

text \<open>One turn of the responder: a reply, the end of the session, or a violation.\<close>

definition serve_reconcile ::
  "merkle_tree \<Rightarrow> (node_id \<times> i64) list \<Rightarrow> proto_error + reconcile_frame
     \<Rightarrow> reconcile_error + reconcile_frame option" where
  "serve_reconcile tree frontier msg =
     (case msg of
        Inr Begin \<Rightarrow> Inr (Some (RootIs (mt_root tree) frontier))
      | Inr (TreeReq prefix after_name limit) \<Rightarrow>
          (let (children, has_more) = children_page tree prefix after_name (min limit TREE_PAGE)
           in Inr (Some (TreeResp children has_more)))
      | Inr (LeafReq p) \<Rightarrow>
          Inr (Some (case merkle_leaf tree p of Some row \<Rightarrow> LeafResp True (leaf_of_row row)
                     | None \<Rightarrow> LeafResp False no_leaf))
      | Inr Done \<Rightarrow> Inr None
      | Inl PClosed \<Rightarrow> Inr None
      | Inr _ \<Rightarrow> Inl (RViolation ''unexpected reconcile frame'')
      | Inl e \<Rightarrow> Inl (RProto e))"

definition serve_snapshot :: "crates \<Rightarrow> db \<Rightarrow> merkle_tree \<times> (node_id \<times> i64) list" where
  "serve_snapshot X d =
     (let snap = snapshot_for_join d in (merkle_build X (js_rows snap), js_frontier snap))"

type_synonym rpc = "nat \<Rightarrow> reconcile_frame \<Rightarrow> reconcile_error + reconcile_frame"

definition pull_root :: "rpc \<Rightarrow> nat \<Rightarrow> reconcile_error + hash32 \<times> (node_id \<times> i64) list" where
  "pull_root rpc n =
     (case rpc n Begin of
        Inl e \<Rightarrow> Inl e
      | Inr (RootIs h frontier) \<Rightarrow> Inr (h, frontier)
      | Inr _ \<Rightarrow> Inl (RViolation ''expected RootIs''))"

definition pull_leaf :: "rpc \<Rightarrow> nat \<Rightarrow> path \<Rightarrow> reconcile_error + remote_leaf option" where
  "pull_leaf rpc n p =
     (case rpc n (LeafReq p) of
        Inl e \<Rightarrow> Inl e
      | Inr (LeafResp found l) \<Rightarrow> Inr (if found then Some l else None)
      | Inr _ \<Rightarrow> Inl (RViolation ''expected LeafResp''))"

definition LISTING_BUDGET :: nat where "LISTING_BUDGET = 32 * 1024 * 1024"

text \<open>The checks of one page: every name in bounds, every entry paid for.\<close>

fun charge_page :: "wire_child list \<Rightarrow> nat \<Rightarrow> reconcile_error + nat" where
  "charge_page [] budget = Inr budget"
| "charge_page (c # cs) budget =
     (if wc_name c = [] \<or> length (wc_name c) > 255 then Inl (RViolation ''child name out of bounds'')
      else if budget < length (wc_name c) + 33 then Inl (RViolation ''directory listing exceeds budget'')
      else charge_page cs (budget - (length (wc_name c) + 33)))"

lemma charge_page_less: "charge_page cs budget = Inr b \<Longrightarrow> cs \<noteq> [] \<Longrightarrow> b < budget"
proof (induction cs arbitrary: budget)
  case (Cons c cs)
  then have paid: "length (wc_name c) + 33 \<le> budget"
    and rest: "charge_page cs (budget - (length (wc_name c) + 33)) = Inr b"
    by (auto split: if_splits)
  show ?case
  proof (cases "cs = []")
    case True
    with rest paid show ?thesis by auto
  next
    case False
    from Cons.IH [OF rest False] show ?thesis by simp
  qed
qed simp

function pull_children ::
  "rpc \<Rightarrow> nat \<Rightarrow> path \<Rightarrow> string \<Rightarrow> nat \<Rightarrow> wire_child list \<Rightarrow> reconcile_error + wire_child list" where
  "pull_children rpc n prefix after budget out =
     (case rpc n (TreeReq prefix after TREE_PAGE) of
        Inl e \<Rightarrow> Inl e
      | Inr (TreeResp children has_more) \<Rightarrow>
          if length children > TREE_PAGE then Inl (RViolation ''oversized tree page'')
          else if has_more \<and> children = [] then Inl (RViolation ''empty page with more=true'')
          else (case charge_page children budget of
                  Inl e \<Rightarrow> Inl e
                | Inr budget' \<Rightarrow>
                    let after' = (if children = [] then after else wc_name (last children));
                        out' = out @ children
                    in if \<not> has_more then Inr out'
                       else pull_children rpc (Suc n) prefix after' budget' out')
      | Inr _ \<Rightarrow> Inl (RViolation ''expected TreeResp''))"
  by pat_completeness auto
termination
  by (relation "measure (\<lambda>(_, _, _, _, budget, _). budget)") (auto dest: charge_page_less)

declare pull_children.simps [simp del]

subsection \<open>Listing a directory\<close>

definition listing_cost :: "wire_child list \<Rightarrow> nat" where
  "listing_cost cs = sum_list (map (\<lambda>c. length (wc_name c) + 33) cs)"

lemma listing_cost_append [simp]: "listing_cost (xs @ ys) = listing_cost xs + listing_cost ys"
  by (simp add: listing_cost_def)

lemma charge_page_cost: "charge_page cs budget = Inr b \<Longrightarrow> b + listing_cost cs = budget"
proof (induction cs arbitrary: budget)
  case (Cons c cs)
  then have "length (wc_name c) + 33 \<le> budget" "charge_page cs (budget - (length (wc_name c) + 33)) = Inr b"
    by (auto split: if_splits)
  with Cons.IH [OF this(2)] show ?case by (simp add: listing_cost_def)
qed (simp add: listing_cost_def)

lemma charge_page_ok:
  "\<forall>c \<in> set cs. wc_name c \<noteq> [] \<and> length (wc_name c) \<le> 255 \<Longrightarrow> listing_cost cs \<le> budget \<Longrightarrow>
     charge_page cs budget = Inr (budget - listing_cost cs)"
  by (induction cs arbitrary: budget) (auto simp: listing_cost_def)

lemma pull_children_bounded:
  "pull_children rpc n prefix after budget out = Inr res \<Longrightarrow> listing_cost res \<le> listing_cost out + budget"
proof (induction rpc n prefix after budget out rule: pull_children.induct)
  case (1 rpc n prefix after budget out)
  from "1.prems" obtain cs has_more b where
    reply: "rpc n (TreeReq prefix after TREE_PAGE) = Inr (TreeResp cs has_more)"
    and ok: "\<not> length cs > TREE_PAGE" "\<not> (has_more \<and> cs = [])" "charge_page cs budget = Inr b"
    by (subst (asm) pull_children.simps) (auto split: sum.splits reconcile_frame.splits if_splits)
  have cost: "b + listing_cost cs = budget" using ok(3) by (rule charge_page_cost)
  show ?case
  proof (cases has_more)
    case False
    then have "res = out @ cs" using "1.prems" reply ok
      by (subst (asm) pull_children.simps) simp
    with cost show ?thesis by simp
  next
    case True
    let ?after = "if cs = [] then after else wc_name (last cs)"
    have step: "pull_children rpc (Suc n) prefix ?after b (out @ cs) = Inr res"
      using "1.prems" reply ok True by (subst (asm) pull_children.simps) (simp add: Let_def)
    from "1.IH" [OF reply refl ok refl refl _ step] True cost show ?thesis by simp
  qed
qed

subsection \<open>An honest responder is listed completely\<close>

definition honest :: "merkle_tree \<Rightarrow> (node_id \<times> i64) list \<Rightarrow> rpc" where
  "honest tree frontier n req =
     (case serve_reconcile tree frontier (Inr req) of
        Inr (Some r) \<Rightarrow> Inr r | Inr None \<Rightarrow> Inl RClosed | Inl e \<Rightarrow> Inl e)"

definition after :: "string \<Rightarrow> children \<Rightarrow> children" where
  "after a cs = filter (\<lambda>(name, _). a < name) cs"

lemma after_next_page:
  assumes "bt_ok cs" "0 < l" "l < length (after a cs)"
  shows "after (fst (last (take l (after a cs)))) cs = drop l (after a cs)"
proof -
  let ?rest = "after a cs" and ?b = "fst (last (take l (after a cs)))"
  have ok: "bt_ok ?rest" using assms(1) by (simp add: after_def bt_ok_filter)
  have ne: "take l ?rest \<noteq> []" using assms(2,3) by auto
  then have "last (take l ?rest) \<in> set (take l ?rest)" by (rule last_in_set)
  then have "last (take l ?rest) \<in> set ?rest" by (rule in_set_takeD)
  then have ab: "a < ?b" by (auto simp: after_def case_prod_unfold)
  have sorted: "sorted_wrt (<) (map fst ?rest)" using ok by (simp add: bt_ok_def)
  then have split: "sorted_wrt (<) (map fst (take l ?rest) @ map fst (drop l ?rest))"
    by (simp add: map_append [symmetric] del: map_append)
  have low: "fst e \<le> ?b" if "e \<in> set (take l ?rest)" for e
  proof -
    obtain xs where xs: "take l ?rest = xs @ [last (take l ?rest)]" using ne by (metis append_butlast_last_id)
    have "sorted_wrt (<) (map fst (take l ?rest))" using split by (simp only: sorted_wrt_append)
    then have "sorted_wrt (<) (map fst (xs @ [last (take l ?rest)]))" using xs by simp
    then have "\<forall>x \<in> set xs. fst x < ?b" by (simp add: sorted_wrt_append)
    moreover have "e \<in> set (xs @ [last (take l ?rest)])" using that xs by simp
    ultimately show ?thesis by (auto intro: less_imp_le)
  qed
  have high: "?b < fst e" if "e \<in> set (drop l ?rest)" for e
    using split that ne last_in_set [OF ne] by (auto simp: sorted_wrt_append)
  have "after ?b cs = after ?b ?rest"
    using ab unfolding after_def filter_filter by (intro filter_cong) auto
  also have "\<dots> = after ?b (take l ?rest) @ after ?b (drop l ?rest)"
    unfolding after_def by (metis append_take_drop_id filter_append)
  also have "after ?b (take l ?rest) = []"
    using low by (fastforce simp: after_def filter_empty_conv)
  also have "after ?b (drop l ?rest) = drop l ?rest"
    using high by (auto simp: after_def filter_id_conv)
  finally show ?thesis by simp
qed

lemma pull_children_honest:
  assumes cs: "bt_get (mt_dirs tree) prefix = Some cs" "bt_ok cs" "\<forall>(name, v) \<in> set cs. length name \<le> 255"
    and budget: "listing_cost (map to_wire (after a cs)) \<le> budget"
  shows "pull_children (honest tree frontier) n prefix a budget out = Inr (out @ map to_wire (after a cs))"
  using budget
proof (induction "length (after a cs)" arbitrary: a budget n out rule: less_induct)
  case less
  let ?rest = "after a cs" and ?page = "take TREE_PAGE (after a cs)"
  let ?more = "TREE_PAGE < length ?rest"
  have T: "0 < TREE_PAGE" by (simp add: TREE_PAGE_def)
  have reply: "honest tree frontier n (TreeReq prefix a TREE_PAGE) = Inr (TreeResp (map to_wire ?page) ?more)"
    by (simp add: honest_def serve_reconcile_def children_page_def cs(1) after_def Let_def)
  have names: "\<forall>c \<in> set (map to_wire ?page). wc_name c \<noteq> [] \<and> length (wc_name c) \<le> 255"
    using cs(3) by (fastforce simp: after_def to_wire_def dest: in_set_takeD)
  have split: "map to_wire ?rest = map to_wire ?page @ map to_wire (drop TREE_PAGE ?rest)"
    by (metis append_take_drop_id map_append)
  have cost: "listing_cost (map to_wire ?page) + listing_cost (map to_wire (drop TREE_PAGE ?rest)) \<le> budget"
    using less.prems unfolding split by simp
  have charge: "charge_page (map to_wire ?page) budget = Inr (budget - listing_cost (map to_wire ?page))"
    using names cost by (intro charge_page_ok) simp_all
  show ?case
  proof (cases ?more)
    case False
    then have "?page = ?rest" by simp
    with reply charge False show ?thesis
      by (subst pull_children.simps) (simp add: Let_def)
  next
    case True
    let ?b = "fst (last ?page)"
    have nxt: "after ?b cs = drop TREE_PAGE ?rest" using cs(2) T True by (rule after_next_page)
    have ne: "?page \<noteq> []" using T True by auto
    then have lst: "wc_name (last (map to_wire ?page)) = ?b"
      by (simp add: last_map to_wire_def case_prod_unfold)
    have "pull_children (honest tree frontier) (Suc n) prefix ?b (budget - listing_cost (map to_wire ?page)) (out @ map to_wire ?page)
        = Inr ((out @ map to_wire ?page) @ map to_wire (after ?b cs))"
      using True T cost by (intro less.hyps) (simp_all add: nxt)
    with reply charge True ne lst nxt split show ?thesis
      by (subst pull_children.simps) (simp add: Let_def)
  qed
qed

subsection \<open>Properties\<close>

text \<open>
  Listing a remote directory from an honest responder returns all its children, in
  order, across any number of pages, within the byte budget.
\<close>

theorem remote_listing_complete:
  assumes "merkle_children (merkle_build X rows) prefix = Some cs"
    and "\<forall>(name, v) \<in> set cs. name \<noteq> [] \<and> length name \<le> 255"
    and "listing_cost (map to_wire cs) \<le> LISTING_BUDGET"
  shows "pull_children (honest (merkle_build X rows) frontier) n prefix [] LISTING_BUDGET [] = Inr (map to_wire cs)"
proof -
  let ?t = "merkle_build X rows"
  have get: "bt_get (mt_dirs ?t) prefix = Some cs" using assms(1) by (simp add: merkle_children_def)
  then have ok: "bt_ok cs" using dirs_ok_get [OF merkle_dirs_ok] by blast
  have all: "after [] cs = cs" using assms(2) by (auto simp: after_def filter_id_conv neq_Nil_conv)
  show ?thesis
    using pull_children_honest [OF get ok, of "[]" LISTING_BUDGET frontier n "[]"] assms(2,3) all by fastforce
qed

theorem remote_listing_complete_witness:
  "pull_children (honest (merkle_build plain_crates [example_row ''f'' False]) []) 0 [] [] LISTING_BUDGET [] =
     Inr [\<lparr>wc_name = ''f'', wc_hash = leaf_hash plain_crates (example_row ''f'' False), wc_is_dir = False\<rparr>]"
proof -
  have "merkle_children (merkle_build plain_crates [example_row ''f'' False]) [] =
      Some [(''f'', leaf_hash plain_crates (example_row ''f'' False), False)]"
    by (simp add: merkle_children_def merkle_build_def add_row_def put_child_def add_ancestors.simps bt_get_Cons
        bt_keys_def Let_def example_row_def)
  from remote_listing_complete [OF this, of "[]" 0] show ?thesis
    by (simp add: listing_cost_def LISTING_BUDGET_def to_wire_def)
qed

text \<open>
  Listing a remote directory ends against every responder, and what it returns is
  bounded by the byte budget: the loop is a total function, and a successful result
  costs at most 32 MiB of names and fixed overhead.
\<close>

theorem remote_listing_bounded:
  assumes "pull_children rpc n prefix a LISTING_BUDGET [] = Inr res"
  shows "(\<Sum>c \<leftarrow> res. length (wc_name c) + 33) \<le> 32 * 1024 * 1024"
  using pull_children_bounded [OF assms] by (simp add: listing_cost_def LISTING_BUDGET_def)

theorem remote_listing_bounded_witness:
  "(\<Sum>c \<leftarrow> ([] :: wire_child list). length (wc_name c) + 33) \<le> 32 * 1024 * 1024"
  by (rule remote_listing_bounded [of "\<lambda>_ _. Inr (TreeResp [] False)" 0 "[]" "[]"])
    (simp add: pull_children.simps)

end
