(* ===== verification/Pull.thy ===== *)
theory Pull
  imports Reconcile
begin

text \<open>
  The pull driver of anti-entropy (\<open>src/merkle.rs\<close>, from \<open>ReconcileTransport\<close> on) and its
  QUIC transport (\<open>QuicReconcile\<close> and \<open>reconcile_with\<close> in \<open>src/net.rs\<close>).  The transport is a
  record of the trait's four functions.  The descent works a stack of directories; a peer
  may list ever new ones, so its loop takes fuel and returns nothing when it runs out.
  A task that panics (\<open>JoinError\<close>) is outside the model.
\<close>

record transport =
  tr_root :: "node \<Rightarrow> node \<times> (reconcile_error + hash32)"
  tr_children :: "path \<Rightarrow> node \<Rightarrow> node \<times> (reconcile_error + wire_child list)"
  tr_leaf :: "path \<Rightarrow> node \<Rightarrow> node \<times> (reconcile_error + remote_leaf option)"
  tr_ensure_content :: "hash32 \<Rightarrow> node \<Rightarrow> node \<times> (reconcile_error + manifest)"

text \<open>The counters of a session; they are unbounded, as no session meets \<open>2 ^ 64\<close> leaves.\<close>

record reconcile_report =
  rep_tree_reqs :: nat
  rep_leaves_compared :: nat
  rep_applied :: nat
  rep_resolved_conflicts :: nat
  rep_skipped_concurrent :: nat
  rep_skipped_damaged :: nat

definition report_default :: reconcile_report where
  "report_default = \<lparr>rep_tree_reqs = 0, rep_leaves_compared = 0, rep_applied = 0, rep_resolved_conflicts = 0,
     rep_skipped_concurrent = 0, rep_skipped_damaged = 0\<rparr>"

definition blocked_by_kind :: "io_error \<Rightarrow> bool" where
  "blocked_by_kind e \<longleftrightarrow> e = OsError EISDIR \<or> e = OsError ENOTDIR \<or> e = OsError ENOTEMPTY"

definition leaf_error_is_skippable :: "reconcile_error \<Rightarrow> bool" where
  "leaf_error_is_skippable e =
     (case e of
        RApply (UnsafePath _) \<Rightarrow> True
      | RApply (HashMismatch _) \<Rightarrow> True
      | RApply (Io _ _ source) \<Rightarrow> blocked_by_kind source
      | RFetch f \<Rightarrow> fetch_is_permanent f
      | RViolation _ \<Rightarrow> True
      | _ \<Rightarrow> False)"

definition meta_regular :: "meta option \<Rightarrow> bool" where
  "meta_regular mo = (case mo of Some m \<Rightarrow> m_kind m = Regular | None \<Rightarrow> True)"

subsection \<open>Restoring what the row says\<close>

definition restore_local_content :: "engine \<Rightarrow> path \<Rightarrow> node \<Rightarrow> node" where
  "restore_local_content E p n =
     (let n = await E n; row = store_load_row (e_crates E) (e_node E) p (nd_store n);
          ctx = (e_apply E)\<lparr>ax_policy := Numeric\<rparr>;
          publish_row = (\<lambda>l m n. fst (on_disk (apply_version ctx p (r_mode l) (r_content_hash l) m (r_meta l)) n))
      in case row of
           Some l \<Rightarrow>
             if r_tombstone l then fst (on_disk (apply_delete (e_apply E) p) n)
             else (case (r_content_hash l, meta_regular (r_meta l)) of
                     (Some h, True) \<Rightarrow>
                       (let n = await E n
                        in case store_manifest_for (e_crates E) (e_node E) h (nd_store n) of
                             None \<Rightarrow> n
                           | Some m \<Rightarrow> publish_row l (Some m) n)
                   | (None, True) \<Rightarrow> n
                   | _ \<Rightarrow> publish_row l None n)
         | None \<Rightarrow> fst (on_disk (apply_delete (e_apply E) p) n))"

fun restore_paths :: "engine \<Rightarrow> path list \<Rightarrow> node \<Rightarrow> node" where
  "restore_paths E [] n = n"
| "restore_paths E (p # ps) n = restore_paths E ps (restore_local_content E p n)"

subsection \<open>Staging a plan\<close>

definition row_is_current :: "crates \<Rightarrow> planned_row \<Rightarrow> file_row option \<Rightarrow> bool" where
  "row_is_current X row cur =
     (case cur of
        Some c \<Rightarrow> \<not> r_tombstone c \<and> r_content_hash c = p_content_hash row \<and> hash_of X (r_meta c) = hash_of X (p_meta row)
      | None \<Rightarrow> False)"

definition planned_manifest :: "engine \<Rightarrow> transport \<Rightarrow> planned_row \<Rightarrow> node \<Rightarrow> node \<times> (reconcile_error + manifest option)" where
  "planned_manifest E T row n =
     (case (p_content_hash row, meta_regular (p_meta row)) of
        (Some h, True) \<Rightarrow>
          and_then (ask_store E (store_manifest_for (e_crates E) (e_node E) h) n) (\<lambda>held n.
            case held of
              Some m \<Rightarrow> (n, Inr (Some m))
            | None \<Rightarrow>
                and_then (tr_ensure_content T h n) (\<lambda>m n.
                and_then (on_store E (\<lambda>s. (store_put_manifest (e_crates E) (e_node E) m s, Inr ())) n) (\<lambda>_ n.
                  (n, Inr (Some m)))))
      | _ \<Rightarrow> (n, Inr None))"

definition stage_planned_row :: "engine \<Rightarrow> transport \<Rightarrow> planned_row \<Rightarrow> node \<Rightarrow> node \<times> (reconcile_error + bool)" where
  "stage_planned_row E T row n =
     (if p_tombstone row
      then and_then (err_from RApply (on_disk (apply_delete (e_apply E) (p_path row)) n)) (\<lambda>_ n. (n, Inr True))
      else and_then (ask_store E (store_load_row (e_crates E) (e_node E) (p_path row)) n) (\<lambda>cur n.
           if row_is_current (e_crates E) row cur then (n, Inr False)
           else and_then (planned_manifest E T row n) (\<lambda>m n.
                and_then (err_from RApply (on_disk (apply_version (e_apply E) (p_path row) (p_mode row)
                            (p_content_hash row) m (p_meta row)) n)) (\<lambda>_ n. (n, Inr True)))))"

text \<open>The plan row by row: the paths touched so far, and the error that ended it.\<close>

fun stage_plan ::
  "engine \<Rightarrow> transport \<Rightarrow> planned_row list \<Rightarrow> path list \<Rightarrow> node \<Rightarrow> node \<times> path list \<times> reconcile_error option" where
  "stage_plan E T [] staged_paths n = (n, staged_paths, None)"
| "stage_plan E T (row # rows) staged_paths n =
     (case stage_planned_row E T row n of
        (n, Inr True) \<Rightarrow> stage_plan E T rows (staged_paths @ [p_path row]) n
      | (n, Inr False) \<Rightarrow> stage_plan E T rows staged_paths n
      | (n, Inl e) \<Rightarrow> (n, staged_paths, Some e))"

definition leaf_version :: "crates \<Rightarrow> remote_leaf \<Rightarrow> version" where
  "leaf_version X l = \<lparr>v_tombstone = rl_tombstone l, v_content_hash = rl_content_hash l, v_meta_hash = hash_of X (rl_meta l),
     v_meta = rl_meta l, v_mode = rl_mode l, v_size = rl_size l, v_vv = rl_vv l, v_uuid = rl_uuid l\<rparr>"

fun resolve_rounds ::
  "nat \<Rightarrow> engine \<Rightarrow> transport \<Rightarrow> path \<Rightarrow> version \<Rightarrow> planned_row list \<Rightarrow> path list \<Rightarrow> node \<Rightarrow> node \<times> (reconcile_error + bool)" where
  "resolve_rounds 0 E T p rv staged staged_paths n = (restore_paths E staged_paths n, Inr False)"
| "resolve_rounds (Suc k) E T p rv staged staged_paths n =
     and_then (err_from RStore (on_store E (store_resolve_rows (e_crates E) (e_node E) p rv staged) n)) (\<lambda>outcome n.
       case outcome of
         Resolved \<Rightarrow> (n, Inr True)
       | NotConcurrent _ \<Rightarrow> (restore_paths E staged_paths n, Inr False)
       | Unresolvable \<Rightarrow> (restore_paths E staged_paths n, Inr False)
       | Stale plan \<Rightarrow>
           (case stage_plan E T plan staged_paths n of
              (n, staged_paths, None) \<Rightarrow> resolve_rounds k E T p rv plan staged_paths n
            | (n, staged_paths, Some e) \<Rightarrow> (restore_paths E staged_paths n, Inl e)))"

definition resolve_concurrent_leaf ::
  "engine \<Rightarrow> transport \<Rightarrow> path \<Rightarrow> remote_leaf \<Rightarrow> node \<Rightarrow> node \<times> (reconcile_error + bool)" where
  "resolve_concurrent_leaf E T p l = resolve_rounds 4 E T p (leaf_version (e_crates E) l) [] []"

subsection \<open>Leaves\<close>

datatype leaf_outcome = LApplied | LResolved | LSkipped

definition leaf_row :: "path \<Rightarrow> remote_leaf \<Rightarrow> reconciled_row" where
  "leaf_row p l =
     (if rl_tombstone l
      then \<lparr>rr_path = p, rr_content_hash = None, rr_mode = rl_mode l, rr_size = 0, rr_vv = rl_vv l, rr_tombstone = True,
            rr_uuid = rl_uuid l, rr_meta = None\<rparr>
      else \<lparr>rr_path = p, rr_content_hash = rl_content_hash l, rr_mode = rl_mode l, rr_size = rl_size l, rr_vv = rl_vv l,
            rr_tombstone = False, rr_uuid = rl_uuid l, rr_meta = rl_meta l\<rparr>)"

definition leaf_to_disk :: "engine \<Rightarrow> transport \<Rightarrow> path \<Rightarrow> remote_leaf \<Rightarrow> node \<Rightarrow> node \<times> (reconcile_error + unit)" where
  "leaf_to_disk E T p l n =
     (if rl_tombstone l then err_from RApply (on_disk (apply_delete (e_apply E) p) n)
      else and_then
             (case (rl_content_hash l, meta_regular (rl_meta l)) of
                (Some h, True) \<Rightarrow> and_then (tr_ensure_content T h n) (\<lambda>m n. (n, Inr (Some m)))
              | (None, True) \<Rightarrow> (n, Inl (RViolation ''regular leaf without content hash''))
              | _ \<Rightarrow> (n, Inr None))
             (\<lambda>m n. err_from RApply (on_disk (apply_version (e_apply E) p (rl_mode l) (rl_content_hash l) m (rl_meta l)) n)))"

definition apply_remote_leaf ::
  "engine \<Rightarrow> transport \<Rightarrow> path \<Rightarrow> remote_leaf \<Rightarrow> node \<Rightarrow> node \<times> (reconcile_error + leaf_outcome)" where
  "apply_remote_leaf E T p l n =
     and_then (leaf_to_disk E T p l n) (\<lambda>_ n.
     and_then (err_from RStore (on_store E (store_reconcile_upsert (e_crates E) (e_node E) (leaf_row p l)) n)) (\<lambda>effective n.
       if effective = Apply then (n, Inr LApplied)
       else let n = restore_local_content E p n
            in if effective = DConcurrent
               then and_then (resolve_concurrent_leaf E T p l n) (\<lambda>settled n. (n, Inr (if settled then LResolved else LSkipped)))
               else (n, Inr LSkipped)))"

definition bump :: "reconcile_error + leaf_outcome \<Rightarrow> reconcile_report \<Rightarrow> reconcile_error + reconcile_report" where
  "bump res rep =
     (case res of
        Inr LApplied \<Rightarrow> Inr (rep\<lparr>rep_applied := rep_applied rep + 1\<rparr>)
      | Inr LResolved \<Rightarrow> Inr (rep\<lparr>rep_resolved_conflicts := rep_resolved_conflicts rep + 1\<rparr>)
      | Inr LSkipped \<Rightarrow> Inr (rep\<lparr>rep_skipped_concurrent := rep_skipped_concurrent rep + 1\<rparr>)
      | Inl e \<Rightarrow> if leaf_error_is_skippable e then Inr (rep\<lparr>rep_skipped_damaged := rep_skipped_damaged rep + 1\<rparr>) else Inl e)"

definition handle_leaf ::
  "engine \<Rightarrow> transport \<Rightarrow> path \<Rightarrow> reconcile_report \<Rightarrow> node \<Rightarrow> node \<times> (reconcile_error + reconcile_report)" where
  "handle_leaf E T p rep n =
     (let rep = rep\<lparr>rep_leaves_compared := rep_leaves_compared rep + 1\<rparr>
      in and_then (tr_leaf T p n) (\<lambda>found n.
         case found of
           None \<Rightarrow> (n, Inr rep)
         | Some l \<Rightarrow>
             and_then (ask_store E (store_load_file (e_crates E) (e_node E) p) n) (\<lambda>local_row n.
               case decide local_row (rl_vv l) of
                 DConcurrent \<Rightarrow>
                   (let (n, res) = resolve_concurrent_leaf E T p l n
                    in (n, bump (case res of Inl e \<Rightarrow> Inl e | Inr b \<Rightarrow> Inr (if b then LResolved else LSkipped)) rep))
               | Apply \<Rightarrow> (let (n, res) = apply_remote_leaf E T p l n in (n, bump res rep))
               | _ \<Rightarrow> (n, Inr rep))))"

subsection \<open>The descent\<close>

fun pull_level ::
  "engine \<Rightarrow> transport \<Rightarrow> path \<Rightarrow> children \<Rightarrow> wire_child list \<Rightarrow> path list \<Rightarrow> reconcile_report \<Rightarrow> node
     \<Rightarrow> node \<times> (reconcile_error + path list \<times> reconcile_report)" where
  "pull_level E T prefix local_children [] queue rep n = (n, Inr (queue, rep))"
| "pull_level E T prefix local_children (child # cs) queue rep n =
     (if (case bt_get local_children (wc_name child) of Some (h, _) \<Rightarrow> h = wc_hash child | None \<Rightarrow> False)
      then pull_level E T prefix local_children cs queue rep n
      else if wc_is_dir child
      then pull_level E T prefix local_children cs (join_prefix prefix (wc_name child) # queue) rep n
      else and_then (handle_leaf E T (join_prefix prefix (wc_name child)) rep n) (\<lambda>rep n.
             pull_level E T prefix local_children cs queue rep n))"

fun pull_descend ::
  "nat \<Rightarrow> engine \<Rightarrow> transport \<Rightarrow> merkle_tree \<Rightarrow> path list \<Rightarrow> reconcile_report \<Rightarrow> node
     \<Rightarrow> (node \<times> (reconcile_error + reconcile_report)) option" where
  "pull_descend fuel E T local_tree [] rep n = Some (n, Inr rep)"
| "pull_descend 0 E T local_tree (prefix # queue) rep n = None"
| "pull_descend (Suc fuel) E T local_tree (prefix # queue) rep n =
     (let rep = rep\<lparr>rep_tree_reqs := rep_tree_reqs rep + 1\<rparr>
      in case tr_children T prefix n of
           (n, Inl e) \<Rightarrow> Some (n, Inl e)
         | (n, Inr remote_children) \<Rightarrow>
             (case pull_level E T prefix (unwrap_or (merkle_children local_tree prefix) []) remote_children queue rep n of
                (n, Inl e) \<Rightarrow> Some (n, Inl e)
              | (n, Inr (queue, rep)) \<Rightarrow> pull_descend fuel E T local_tree queue rep n))"

definition reconcile_pull ::
  "nat \<Rightarrow> engine \<Rightarrow> transport \<Rightarrow> merkle_tree \<Rightarrow> node \<Rightarrow> (node \<times> (reconcile_error + reconcile_report)) option" where
  "reconcile_pull fuel E T local_tree n =
     (case tr_root T n of
        (n, Inl e) \<Rightarrow> Some (n, Inl e)
      | (n, Inr remote_root) \<Rightarrow>
          if remote_root = mt_root local_tree then Some (n, Inr report_default)
          else pull_descend fuel E T local_tree [[]] report_default n)"

subsection \<open>Over QUIC\<close>

text \<open>
  The session's answers are numbered by the moment a call starts and by the request within
  the call.  Content comes from every live peer, the session's peer first.
\<close>

definition session_call :: "engine \<Rightarrow> (rpc \<Rightarrow> reconcile_error + 'a) \<Rightarrow> (nat \<Rightarrow> rpc) \<Rightarrow> node \<Rightarrow> node \<times> (reconcile_error + 'a)" where
  "session_call E f session n = (await E n, f (session (nd_time n)))"

definition ensure_content :: "engine \<Rightarrow> node_id \<Rightarrow> hash32 \<Rightarrow> node \<Rightarrow> node \<times> (reconcile_error + manifest)" where
  "ensure_content E peer h n =
     and_then (err_from RFetch (obtain_manifest E h peer (engine_limits E) n)) (\<lambda>m n.
     and_then (err_from RFetch (fetch_file_chunks E m peer (engine_limits E) n)) (\<lambda>_ n. (n, Inr m)))"

definition quic_transport :: "engine \<Rightarrow> node_id \<Rightarrow> (nat \<Rightarrow> rpc) \<Rightarrow> transport" where
  "quic_transport E peer session =
     \<lparr>tr_root = session_call E (\<lambda>rpc. case pull_root rpc 0 of Inl e \<Rightarrow> Inl e | Inr (h, _) \<Rightarrow> Inr h) session,
      tr_children = (\<lambda>prefix. session_call E (\<lambda>rpc. pull_children rpc 0 prefix [] LISTING_BUDGET []) session),
      tr_leaf = (\<lambda>p. session_call E (\<lambda>rpc. pull_leaf rpc 0 p) session),
      tr_ensure_content = ensure_content E peer\<rparr>"

definition session_frontier :: "(nat \<Rightarrow> rpc) \<Rightarrow> nat \<Rightarrow> (node_id \<times> i64) list" where
  "session_frontier session t = (case pull_root (session t) 0 of Inr (_, frontier) \<Rightarrow> frontier | Inl _ \<Rightarrow> [])"

definition reconcile_with ::
  "nat \<Rightarrow> engine \<Rightarrow> node_id \<Rightarrow> (nat \<Rightarrow> rpc) \<Rightarrow> node
     \<Rightarrow> (node \<times> (reconcile_error + reconcile_report \<times> (node_id \<times> i64) list)) option" where
  "reconcile_with fuel E peer session n =
     (let n = await E n; local_tree = merkle_build (e_crates E) (store_all_files (e_crates E) (e_node E) (nd_store n))
      in case reconcile_pull fuel E (quic_transport E peer session) local_tree n of
           None \<Rightarrow> None
         | Some (n', Inl e) \<Rightarrow> Some (n', Inl e)
         | Some (n', Inr rep) \<Rightarrow> Some (n', Inr (rep, session_frontier session (nd_time n))))"

text \<open>
  The node after at most the given number of directories, whether the descent has ended by then,
  failed, or goes on: what holds of it holds of a pull that never ends.
\<close>

fun pull_reached ::
  "nat \<Rightarrow> engine \<Rightarrow> transport \<Rightarrow> merkle_tree \<Rightarrow> path list \<Rightarrow> reconcile_report \<Rightarrow> node \<Rightarrow> node" where
  "pull_reached fuel E T local_tree [] rep n = n"
| "pull_reached 0 E T local_tree (prefix # queue) rep n = n"
| "pull_reached (Suc fuel) E T local_tree (prefix # queue) rep n =
     (let rep = rep\<lparr>rep_tree_reqs := rep_tree_reqs rep + 1\<rparr>
      in case tr_children T prefix n of
           (n, Inl e) \<Rightarrow> n
         | (n, Inr remote_children) \<Rightarrow>
             (case pull_level E T prefix (unwrap_or (merkle_children local_tree prefix) []) remote_children queue rep n of
                (n, Inl e) \<Rightarrow> n
              | (n, Inr (queue, rep)) \<Rightarrow> pull_reached fuel E T local_tree queue rep n))"

definition reconcile_reached :: "nat \<Rightarrow> engine \<Rightarrow> node_id \<Rightarrow> (nat \<Rightarrow> rpc) \<Rightarrow> node \<Rightarrow> node" where
  "reconcile_reached fuel E peer session n =
     (let n = await E n; T = quic_transport E peer session;
          local_tree = merkle_build (e_crates E) (store_all_files (e_crates E) (e_node E) (nd_store n))
      in case tr_root T n of
           (n, Inl e) \<Rightarrow> n
         | (n, Inr remote_root) \<Rightarrow>
             if remote_root = mt_root local_tree then n else pull_reached fuel E T local_tree [[]] report_default n)"

end
