(* ===== verification/Apply_Laws.thy ===== *)
theory Apply_Laws
  imports Apply
begin

text \<open>
  What the apply engine guarantees against every schedule of failing and torn system
  calls: destinations stay below the root; the destination is at every moment the old
  node or the complete, verified and synced new one; a failure leaves it alone and the
  temporary name is gone; the suppression entry is there before anything is visible.
\<close>

subsection \<open>Destinations\<close>

lemma split_slash_nonempty: "split_slash s \<noteq> []"
  by (induction s) (auto split: list.splits)

lemma split_slash_names: "x \<in> set (split_slash s) \<Longrightarrow> CHR ''/'' \<notin> set x"
proof (induction s arbitrary: x)
  case (Cons c cs)
  then show ?case by (cases "split_slash cs") (auto split: if_splits)
qed simp

text \<open>A name below the root: not empty, no dot names, no slash.\<close>

definition plain_name :: "string \<Rightarrow> bool" where
  "plain_name s \<longleftrightarrow> s \<noteq> [] \<and> s \<noteq> ''.'' \<and> s \<noteq> ''..'' \<and> CHR ''/'' \<notin> set s"

definition dest_names :: "path \<Rightarrow> string list" where
  "dest_names rel = filter (\<lambda>s. s \<noteq> [] \<and> s \<noteq> ''.'') (split_slash rel)"

definition unsafe_rel :: "path \<Rightarrow> bool" where
  "unsafe_rel rel \<longleftrightarrow> rel = [] \<or> take 1 rel = ''/'' \<or> hd (split_slash rel) = ''.'' \<or> ''..'' \<in> set (split_slash rel)"

lemma name_components_unsafe:
  "(\<exists>c \<in> set (concat (map name_component ss)). \<not> is_normal c) \<longleftrightarrow> ''..'' \<in> set ss"
  by (induction ss) (auto simp: name_component_def is_normal_def)

lemma name_components_names:
  "''..'' \<notin> set ss \<Longrightarrow>
     concat (map (\<lambda>c. case c of Normal s \<Rightarrow> [s] | _ \<Rightarrow> []) (concat (map name_component ss))) =
     filter (\<lambda>s. s \<noteq> [] \<and> s \<noteq> ''.'') ss"
  by (induction ss) (auto simp: name_component_def)

lemma safe_dest_eq:
  "safe_dest root rel = (if unsafe_rel rel then Inl (UnsafePath rel) else Inr (root @ dest_names rel))"
proof (cases "unsafe_rel rel")
  case True
  then show ?thesis
    using name_components_unsafe [of "split_slash rel"]
    by (auto simp: safe_dest_def unsafe_rel_def path_components_def is_normal_def)
next
  case False
  then have "\<not> (\<exists>c \<in> set (path_components rel). \<not> is_normal c)"
    "path_components rel = concat (map name_component (split_slash rel))"
    using name_components_unsafe [of "split_slash rel"] by (auto simp: unsafe_rel_def path_components_def)
  moreover have "rel \<noteq> []" "take 1 rel \<noteq> ''/''" "''..'' \<notin> set (split_slash rel)" using False by (auto simp: unsafe_rel_def)
  ultimately show ?thesis
    using False name_components_names [of "split_slash rel"] by (simp add: safe_dest_def dest_names_def)
qed

lemma dest_names_plain:
  assumes "\<not> unsafe_rel rel"
  shows "dest_names rel \<noteq> []" "\<forall>s \<in> set (dest_names rel). plain_name s"
proof -
  obtain c cs where rel: "rel = c # cs" "c \<noteq> CHR ''/''" using assms by (cases rel) (auto simp: unsafe_rel_def)
  obtain s ss where s: "split_slash cs = s # ss" using split_slash_nonempty by (meson neq_Nil_conv)
  then have "split_slash rel = (c # s) # ss" using rel by simp
  then have "c # s \<in> set (dest_names rel)" using assms by (auto simp: dest_names_def unsafe_rel_def)
  then show "dest_names rel \<noteq> []" by auto
  show "\<forall>s \<in> set (dest_names rel). plain_name s"
    using assms split_slash_names by (auto simp: dest_names_def plain_name_def unsafe_rel_def)
qed

lemma safe_dest_Inr:
  assumes "safe_dest root rel = Inr dest"
  shows "dest \<noteq> []" "dest = root @ dest_names rel" "\<exists>p s. dest = p @ [s] \<and> plain_name s"
proof -
  from assms have u: "\<not> unsafe_rel rel" and d: "dest = root @ dest_names rel" by (auto simp: safe_dest_eq split: if_splits)
  show "dest = root @ dest_names rel" by (rule d)
  obtain p s where ps: "dest_names rel = p @ [s]" using dest_names_plain(1) [OF u] by (metis rev_exhaust)
  with dest_names_plain(2) [OF u] have "plain_name s" by simp
  with d ps show "\<exists>p s. dest = p @ [s] \<and> plain_name s" by (metis append_assoc)
  then show "dest \<noteq> []" by auto
qed

lemma tmp_name_neq: "dest \<noteq> [] \<Longrightarrow> tmp_name c dest n \<noteq> dest"
proof
  assume "dest \<noteq> []" "tmp_name c dest n = dest"
  then have "last (tmp_name c dest n) = last dest" by simp
  then show False by (auto simp: tmp_name_def TMP_SUFFIX_def dest: arg_cong [of _ _ length])
qed

subsection \<open>Steps that touch one name only\<close>

text \<open>
  From one world to a later one, every tree produced on the way, and the tree at the end,
  agrees with the first outside a set of paths, and the suppression set is unchanged.
\<close>

definition only_at :: "fpath set \<Rightarrow> world \<Rightarrow> world \<Rightarrow> bool" where
  "only_at Q w w' \<longleftrightarrow>
     (\<exists>ts. w_trace w' = w_trace w @ ts \<and> (\<forall>(fs, sup) \<in> set ts. sup = w_sup w \<and> (\<forall>q. q \<notin> Q \<longrightarrow> fs q = w_fs w q)))
     \<and> (\<forall>q. q \<notin> Q \<longrightarrow> w_fs w' q = w_fs w q) \<and> w_sup w' = w_sup w \<and> w_new_attr w' = w_new_attr w"

lemma only_at_refl [simp]: "only_at Q w w"
  by (simp add: only_at_def)

lemma only_at_trans:
  assumes "only_at Q a b" "only_at Q b c" shows "only_at Q a c"
proof -
  from assms obtain ts us where
    "w_trace b = w_trace a @ ts" "\<forall>(fs, sup) \<in> set ts. sup = w_sup a \<and> (\<forall>q. q \<notin> Q \<longrightarrow> fs q = w_fs a q)"
    "w_trace c = w_trace b @ us" "\<forall>(fs, sup) \<in> set us. sup = w_sup b \<and> (\<forall>q. q \<notin> Q \<longrightarrow> fs q = w_fs b q)"
    by (auto simp: only_at_def)
  with assms show ?thesis
    unfolding only_at_def by (intro conjI exI [of _ "ts @ us"]) (auto simp: only_at_def)
qed

lemma only_at_mono: "only_at Q w w' \<Longrightarrow> Q \<subseteq> R \<Longrightarrow> only_at R w w'"
  unfolding only_at_def by (fastforce split: prod.splits)

lemma only_at_untouched: "w_fs w' = w_fs w \<Longrightarrow> w_sup w' = w_sup w \<Longrightarrow> w_trace w' = w_trace w \<Longrightarrow>
    w_new_attr w' = w_new_attr w \<Longrightarrow> only_at Q w w'"
  by (simp add: only_at_def)

lemma next_verdict_frame [simp]:
  "w_fs (snd (next_verdict w)) = w_fs w" "w_sup (snd (next_verdict w)) = w_sup w"
  "w_trace (snd (next_verdict w)) = w_trace w" "w_new_attr (snd (next_verdict w)) = w_new_attr w"
  "w_deref (snd (next_verdict w)) = w_deref w" "w_cas (snd (next_verdict w)) = w_cas w" "w_seq (snd (next_verdict w)) = w_seq w"
  by (auto simp: next_verdict_def split: list.splits)

lemma syscall_cases:
  obtains (fail) e where "syscall p f w = (snd (next_verdict w), Inl e)"
  | (run) v fs where "syscall p f w = (set_fs fs (snd (next_verdict w)), Inr ())" "f v (w_fs w) = Inr fs"
      "path_error (w_fs w) p = None"
  unfolding syscall_def Let_def case_prod_unfold
  by (cases "path_error (w_fs (snd (next_verdict w))) p"; cases "fst (next_verdict w)";
      cases "f (fst (next_verdict w)) (w_fs (snd (next_verdict w)))") auto

lemma syscall_only:
  assumes "\<And>v fs q. f v (w_fs w) = Inr fs \<Longrightarrow> q \<notin> Q \<Longrightarrow> fs q = w_fs w q"
  shows "only_at Q w (fst (syscall p f w))"
  using assms by (cases rule: syscall_cases [of p f w]) (auto simp: only_at_def set_fs_def)

lemma existing_only: "existing p f v fs = Inr fs' \<Longrightarrow> q \<noteq> p \<Longrightarrow> fs' q = fs q"
  by (auto simp: existing_def split: option.splits sum.splits)

lemma sys_only [simp]:
  "only_at {p} w (fst (sys_create p w))" "only_at {p} w (fst (sys_write_all p data w))"
  "only_at {p} w (fst (sys_sync_all p w))" "only_at {p} w (fst (sys_chmod p mode w))"
  "only_at {p} w (fst (sys_lsetxattr p k x w))" "only_at {p} w (fst (sys_lchown p u g w))"
  "only_at {p} w (fst (sys_utimensat p s ns w))" "only_at {p} w (fst (sys_symlink t p w))"
  "only_at {p} w (fst (sys_mknod p kind mode rdev w))" "only_at {p} w (fst (sys_remove_file p w))"
  unfolding sys_create_def sys_write_all_def sys_sync_all_def sys_chmod_def sys_lsetxattr_def sys_lchown_def
    sys_utimensat_def sys_symlink_def sys_mknod_def sys_remove_file_def
  by (auto intro!: syscall_only dest: existing_only split: option.splits node_body.splits if_splits)

lemma sys_read_only [simp]: "only_at Q w (fst (sys_read p w))" "only_at Q w (fst (sys_open p w))"
  by (auto intro!: only_at_untouched simp: sys_read_def sys_open_def Let_def case_prod_unfold
      split: option.splits verdict.splits node_body.splits)

lemma sync_dir_only [simp]: "only_at Q w (sync_dir p w)"
  by (auto intro!: only_at_untouched simp: sync_dir_def Let_def case_prod_unfold)

lemma with_ctx_simps [simp]:
  "fst (with_ctx ctx p r) = fst r" "snd (with_ctx ctx p r) = Inr x \<longleftrightarrow> snd r = Inr x"
  by (auto simp: with_ctx_def split: prod.splits sum.splits)

lemma and_then_only:
  assumes "only_at Q w (fst r)" "\<And>x. snd r = Inr x \<Longrightarrow> only_at Q (fst r) (fst (k x (fst r)))"
  shows "only_at Q w (fst (and_then r k))"
proof (cases "snd r")
  case (Inl e)
  with assms(1) show ?thesis by (cases r) (simp add: and_then_def)
next
  case (Inr x)
  with assms(2) [OF Inr] assms(1) only_at_trans show ?thesis by (cases r) (auto simp: and_then_def)
qed

lemma and_then_Inr:
  "snd (and_then r k) = Inr y \<longleftrightarrow> (\<exists>x. snd r = Inr x \<and> snd (k x (fst r)) = Inr y)"
  "snd r = Inr x \<Longrightarrow> fst (and_then r k) = fst (k x (fst r))"
  by (cases r; auto simp: and_then_def split: sum.splits)+

lemma apply_xattrs_only: "only_at {p} w (fst (apply_xattrs p xs w))"
proof (induction p xs w rule: apply_xattrs.induct)
  case (2 p k x xs w)
  obtain w' res where r: "sys_lsetxattr p k x w = (w', res)" by fastforce
  have "only_at {p} w w'" using sys_only(5) [of p w k x] r by simp
  with 2 r show ?case by (auto split: sum.splits intro: only_at_trans)
qed simp

lemma note_owner_skip_only [simp]: "only_at Q w (note_owner_skip w)"
  by (simp add: only_at_untouched note_owner_skip_def)

lemma apply_owner_only: "only_at {p} w (fst (apply_owner p m policy w))"
proof -
  obtain w' res where r: "sys_lchown p (m_uid m) (m_gid m) w = (w', res)" by fastforce
  have "only_at {p} w w'" using sys_only(6) [of p w "m_uid m" "m_gid m"] r by simp
  with r show ?thesis
    by (auto simp: apply_owner_def split: owner_policy.splits sum.splits intro: only_at_trans)
qed

lemma apply_meta_only_at: "only_at {p} w (fst (apply_meta p m policy w))"
  unfolding apply_meta_def by (auto intro!: and_then_only apply_xattrs_only apply_owner_only)

lemma apply_meta_opt_only: "only_at {p} w (fst (apply_meta_opt p mo policy w))"
  unfolding apply_meta_opt_def by (auto intro!: and_then_only apply_meta_only_at split: option.splits)

lemma verify_only: "only_at Q w (fst (verify_on_disk X p h rel w))"
  unfolding verify_on_disk_def by (auto intro!: and_then_only)

subsection \<open>What a successful call leaves at its path\<close>

lemma syscall_Inr:
  assumes "snd (syscall p f w) = Inr u"
  shows "\<exists>v. f v (w_fs w) = Inr (w_fs (fst (syscall p f w)))" "path_error (w_fs w) p = None"
  using assms by (cases rule: syscall_cases [of p f w], auto simp: set_fs_def)+

lemma upd_at: "fs(p \<mapsto> n) = g \<Longrightarrow> g p = Some n" for g :: fstree
  by auto

lemma existing_Inr:
  assumes "snd (syscall p (existing p f) w) = Inr u"
  obtains n n' where "w_fs w p = Some n" "f n = Inr n'" "w_fs (fst (syscall p (existing p f) w)) p = Some n'"
  using syscall_Inr(1) [OF assms] that by (auto simp: existing_def dest!: upd_at split: option.splits sum.splits)

lemma sys_create_Inr:
  assumes "snd (sys_create p w) = Inr u"
  obtains n where "w_fs (fst (sys_create p w)) p = Some n" "n_body n = BFile [] False"
proof -
  let ?f = "\<lambda>v fs. case fs p of
      None \<Rightarrow> Inr (fs(p \<mapsto> fresh_node (BFile [] False) (w_new_attr w)))
    | Some n \<Rightarrow> (case n_body n of BFile _ _ \<Rightarrow> Inr (fs(p \<mapsto> n\<lparr>n_body := BFile [] False\<rparr>))
        | BDir \<Rightarrow> Inl (OsError EISDIR) | _ \<Rightarrow> Inl (OsError EOTHER))"
  have run: "sys_create p w = syscall p ?f w" by (simp add: sys_create_def)
  obtain v where "?f v (w_fs w) = Inr (w_fs (fst (sys_create p w)))"
    using syscall_Inr(1) [of p ?f w u] assms run by auto
  then show thesis
    using that by (auto simp: fresh_node_def dest!: upd_at split: option.splits node_body.splits)
qed

lemma sys_write_all_Inr:
  assumes "snd (sys_write_all p data w) = Inr u"
  obtains n bs where "w_fs (fst (sys_write_all p data w)) p = Some n" "n_body n = BFile bs False"
proof -
  let ?f = "\<lambda>v. existing p (\<lambda>n. Inr (n\<lparr>n_body := BFile (case v of VTorn bs \<Rightarrow> bs | _ \<Rightarrow> data) False\<rparr>)) v"
  have run: "sys_write_all p data w = syscall p ?f w" by (simp add: sys_write_all_def)
  obtain v where "?f v (w_fs w) = Inr (w_fs (fst (sys_write_all p data w)))"
    using syscall_Inr(1) [of p ?f w u] assms run by auto
  then show thesis using that by (auto simp: existing_def dest!: upd_at split: option.splits)
qed

lemma sys_sync_all_Inr:
  assumes "snd (sys_sync_all p w) = Inr u" "w_fs w p = Some n" "n_body n = BFile bs b"
  obtains n' where "w_fs (fst (sys_sync_all p w)) p = Some n'" "n_body n' = BFile bs True"
  using assms unfolding sys_sync_all_def by (auto elim!: existing_Inr)

lemma sys_attr_Inr:
  "snd (sys_chmod p mode w) = Inr u \<Longrightarrow> w_fs w p = Some n \<Longrightarrow> \<exists>n'. w_fs (fst (sys_chmod p mode w)) p = Some n' \<and>
     n_body n' = n_body n \<and> n_attr n' = (case n_body n of BLink _ \<Rightarrow> n_attr n | _ \<Rightarrow> (n_attr n)\<lparr>a_mode := mode\<rparr>)"
  "snd (sys_lsetxattr p k x w) = Inr u \<Longrightarrow> w_fs w p = Some n \<Longrightarrow> \<exists>n'. w_fs (fst (sys_lsetxattr p k x w)) p = Some n' \<and>
     n_body n' = n_body n \<and> n_attr n' = (n_attr n)\<lparr>a_xattrs := bt_insert k x (a_xattrs (n_attr n))\<rparr>"
  "snd (sys_lchown p a b w) = Inr u \<Longrightarrow> w_fs w p = Some n \<Longrightarrow> \<exists>n'. w_fs (fst (sys_lchown p a b w)) p = Some n' \<and>
     n_body n' = n_body n \<and> a_uid (n_attr n') = a \<and> a_gid (n_attr n') = b \<and> a_xattrs (n_attr n') = a_xattrs (n_attr n)"
  "snd (sys_utimensat p s ns w) = Inr u \<Longrightarrow> w_fs w p = Some n \<Longrightarrow> \<exists>n'. w_fs (fst (sys_utimensat p s ns w)) p = Some n' \<and>
     n_body n' = n_body n \<and> n_attr n' = (n_attr n)\<lparr>a_mtime_s := s, a_mtime_ns := ns\<rparr>"
  unfolding sys_chmod_def sys_lsetxattr_def sys_lchown_def sys_utimensat_def
  by (auto elim!: existing_Inr simp: on_attr_def split: node_body.splits)

lemma syscall_Inl: "syscall p f w = (w', Inl e) \<Longrightarrow> w' = snd (next_verdict w)"
  by (cases rule: syscall_cases [of p f w]) auto

lemma sys_Inl_same:
  "sys_lsetxattr p k x w = (w', Inl e) \<Longrightarrow> w_fs w' = w_fs w"
  "sys_lchown p a b w = (w', Inl e) \<Longrightarrow> w_fs w' = w_fs w"
  "sys_remove_file p w = (w', Inl e) \<Longrightarrow> w_fs w' = w_fs w"
  "sys_rename p q w = (w', Inl e) \<Longrightarrow>
     w_fs w' = w_fs w \<and> w_trace w' = w_trace w \<and> w_sup w' = w_sup w \<and> w_new_attr w' = w_new_attr w"
  "sys_mknod p kd md rd w = (w', Inl e) \<Longrightarrow> w_fs w' = w_fs w"
  unfolding sys_lsetxattr_def sys_lchown_def sys_remove_file_def sys_rename_def sys_mknod_def
  by (drule syscall_Inl, simp)+

lemma syscall_run:
  "syscall p f w = (w', Inr u) \<Longrightarrow> \<exists>v fs. f v (w_fs w) = Inr fs \<and> w' = set_fs fs (snd (next_verdict w))"
  by (cases rule: syscall_cases [of p f w]) auto

lemma sys_remove_Inr: "sys_remove_file p w = (w', Inr u) \<Longrightarrow> w_fs w' p = None"
  unfolding sys_remove_file_def by (drule syscall_run) (auto simp: set_fs_def split: option.splits if_splits)

lemma sys_rename_Inr:
  assumes "sys_rename src dst w = (w', Inr u)" "w_fs w src = Some n"
  shows "w_fs w' = ((w_fs w)(src := None))(dst \<mapsto> n)" "w_trace w' = w_trace w @ [(w_fs w', w_sup w)]"
    "w_sup w' = w_sup w" "w_new_attr w' = w_new_attr w"
  using syscall_run [OF assms(1) [unfolded sys_rename_def]] assms(2)
  by (auto simp: set_fs_def split: option.splits if_splits)

text \<open>
  One call sets one attribute, and its verdict says whether the file system refuses it with one
  of the two errors that are passed over.
\<close>

definition refused :: "verdict list \<Rightarrow> nat \<Rightarrow> bool" where
  "refused vs i \<longleftrightarrow> i < length vs \<and> vs ! i \<in> {VFail ENOTSUP, VFail EPERM}"

lemma refused_shift: "refused vs (Suc i) \<longleftrightarrow> refused (tl vs) i"
  by (cases vs) (auto simp: refused_def)

lemma lsetxattr_verdict:
  assumes "sys_lsetxattr p k x w = (w', res)" "w_fs w p = Some n"
  shows "w_verdicts w' = tl (w_verdicts w)"
    and "res = Inr u \<Longrightarrow> \<not> refused (w_verdicts w) 0"
    and "res = Inl (OsError ENOTSUP) \<or> res = Inl (OsError EPERM) \<Longrightarrow> refused (w_verdicts w) 0"
  using assms
  by (cases "w_verdicts w"; auto simp: sys_lsetxattr_def syscall_def next_verdict_def existing_def on_attr_def set_fs_def
      refused_def path_error_def Let_def split: verdict.splits option.splits if_splits)+

text \<open>
  Extended attributes change nothing else: those not named stay, and each one named has its new
  value, unless its call was refused, and then its old one.
\<close>

lemma apply_xattrs_Inr:
  assumes "snd (apply_xattrs p xs w) = Inr u" "w_fs w p = Some n"
  shows "\<exists>n' xt. w_fs (fst (apply_xattrs p xs w)) p = Some n' \<and> n_body n' = n_body n \<and>
    n_attr n' = (n_attr n)\<lparr>a_xattrs := xt\<rparr> \<and> (\<forall>k. k \<notin> fst ` set xs \<longrightarrow> bt_get xt k = bt_get (a_xattrs (n_attr n)) k)
    \<and> (distinct (map fst xs) \<longrightarrow> (\<forall>i < length xs. bt_get xt (fst (xs ! i)) =
         (if refused (w_verdicts w) i then bt_get (a_xattrs (n_attr n)) (fst (xs ! i)) else Some (snd (xs ! i)))))"
  using assms
proof (induction p xs w arbitrary: n rule: apply_xattrs.induct)
  case (1 p w)
  then show ?case by (auto intro: exI [of _ "a_xattrs (n_attr n)"])
next
  case (2 p k x xs w)
  obtain w' res where r: "sys_lsetxattr p k x w = (w', res)" by fastforce
  note v = lsetxattr_verdict [OF r 2(4)]
  have nul: "0 \<notin> set k" using 2(3) by (auto split: if_splits)
  show ?case
  proof (cases res)
    case (Inl e)
    with r nul 2(3) have e: "e = OsError ENOTSUP \<or> e = OsError EPERM" and s: "snd (apply_xattrs p xs w') = Inr u"
      by (auto split: if_splits)
    have "w_fs w' p = Some n" using sys_Inl_same(1) r Inl 2(4) by metis
    from 2(1) [OF nul r [symmetric] Inl e s this] obtain n' xt where
      "w_fs (fst (apply_xattrs p xs w')) p = Some n'" "n_body n' = n_body n" "n_attr n' = (n_attr n)\<lparr>a_xattrs := xt\<rparr>"
      and xt: "\<forall>k. k \<notin> fst ` set xs \<longrightarrow> bt_get xt k = bt_get (a_xattrs (n_attr n)) k"
        "distinct (map fst xs) \<longrightarrow> (\<forall>i < length xs. bt_get xt (fst (xs ! i)) =
         (if refused (w_verdicts w') i then bt_get (a_xattrs (n_attr n)) (fst (xs ! i)) else Some (snd (xs ! i))))" by blast
    moreover have "refused (w_verdicts w) 0" using v(3) Inl e by blast
    ultimately show ?thesis using r Inl e nul
      by (intro exI [of _ n'] exI [of _ xt]) (auto simp: less_Suc_eq_0_disj refused_shift v(1))
  next
    case (Inr y)
    with r nul 2(3) have s: "snd (apply_xattrs p xs w') = Inr u" by simp
    obtain n1 where n1: "w_fs w' p = Some n1" "n_body n1 = n_body n" "n_attr n1 = (n_attr n)\<lparr>a_xattrs := bt_insert k x (a_xattrs (n_attr n))\<rparr>"
      using sys_attr_Inr(2) [of p k x w y n] r Inr 2(4) by auto
    from 2(2) [OF nul r [symmetric] Inr s n1(1)] obtain n' xt where
      "w_fs (fst (apply_xattrs p xs w')) p = Some n'" "n_body n' = n_body n1" "n_attr n' = (n_attr n1)\<lparr>a_xattrs := xt\<rparr>"
      "\<forall>k. k \<notin> fst ` set xs \<longrightarrow> bt_get xt k = bt_get (a_xattrs (n_attr n1)) k"
      "distinct (map fst xs) \<longrightarrow> (\<forall>i < length xs. bt_get xt (fst (xs ! i)) =
         (if refused (w_verdicts w') i then bt_get (a_xattrs (n_attr n1)) (fst (xs ! i)) else Some (snd (xs ! i))))" by blast
    moreover have "\<not> refused (w_verdicts w) 0" using v(2) Inr by blast
    ultimately show ?thesis using r Inr nul n1
      by (intro exI [of _ n'] exI [of _ xt]) (auto simp: bt_get_simps less_Suc_eq_0_disj refused_shift v(1))
  qed
qed

definition meta_on :: "meta \<Rightarrow> fnode \<Rightarrow> bool" where
  "meta_on m n \<longleftrightarrow> a_mtime_s (n_attr n) = m_mtime_s m \<and> a_mtime_ns (n_attr n) = m_mtime_ns m
     \<and> (m_kind m \<noteq> Symlink \<longrightarrow> (\<forall>t. n_body n \<noteq> BLink t) \<longrightarrow> a_mode (n_attr n) = and (m_mode m) 0xFFF)"

lemma apply_owner_Inr:
  assumes "snd (apply_owner p m policy w) = Inr a" "w_fs w p = Some n"
  shows "\<exists>n'. w_fs (fst (apply_owner p m policy w)) p = Some n' \<and> n_body n' = n_body n \<and> a_xattrs (n_attr n') = a_xattrs (n_attr n)
    \<and> (if owner_skipped a then n_attr n' = n_attr n else a_uid (n_attr n') = m_uid m \<and> a_gid (n_attr n') = m_gid m)"
proof (cases policy)
  case Skip
  with assms show ?thesis by (auto simp: apply_owner_def note_owner_skip_def)
next
  case Numeric
  obtain w' res where r: "sys_lchown p (m_uid m) (m_gid m) w = (w', res)" by fastforce
  show ?thesis
  proof (cases res)
    case (Inl e)
    with r assms Numeric sys_Inl_same(2) [of p "m_uid m" "m_gid m" w w' e] show ?thesis
      by (auto simp: apply_owner_def note_owner_skip_def split: if_splits)
  next
    case (Inr y)
    with r assms(1) Numeric have a: "\<not> owner_skipped a" "fst (apply_owner p m policy w) = w'" by (auto simp: apply_owner_def)
    obtain n' where "w_fs w' p = Some n'" "n_body n' = n_body n" "a_uid (n_attr n') = m_uid m"
      "a_gid (n_attr n') = m_gid m" "a_xattrs (n_attr n') = a_xattrs (n_attr n)"
      using sys_attr_Inr(3) [of p "m_uid m" "m_gid m" w y n] r Inr assms(2) by auto
    with a show ?thesis by auto
  qed
qed

lemma apply_meta_Inr:
  assumes "snd (apply_meta p m policy w) = Inr a" "w_fs w p = Some n"
  shows "\<exists>n'. w_fs (fst (apply_meta p m policy w)) p = Some n' \<and> n_body n' = n_body n \<and> meta_on m n'
    \<and> (if owner_skipped a then a_uid (n_attr n') = a_uid (n_attr n) \<and> a_gid (n_attr n') = a_gid (n_attr n)
       else a_uid (n_attr n') = m_uid m \<and> a_gid (n_attr n') = m_gid m)
    \<and> (\<forall>k. k \<notin> fst ` set (m_xattrs m) \<longrightarrow> bt_get (a_xattrs (n_attr n')) k = bt_get (a_xattrs (n_attr n)) k)
    \<and> (distinct (map fst (m_xattrs m)) \<longrightarrow> (\<forall>i < length (m_xattrs m). bt_get (a_xattrs (n_attr n')) (fst (m_xattrs m ! i)) =
         (if refused (w_verdicts w) i then bt_get (a_xattrs (n_attr n)) (fst (m_xattrs m ! i)) else Some (snd (m_xattrs m ! i)))))"
proof -
  let ?x = "apply_xattrs p (m_xattrs m) w"
  let ?o = "apply_owner p m policy (fst ?x)"
  let ?c = "if m_kind m \<noteq> Symlink then sys_chmod p (and (m_mode m) 0xFFF) (fst ?o) else (fst ?o, Inr ())"
  let ?t = "sys_utimensat p (m_mtime_s m) (m_mtime_ns m) (fst ?c)"
  have s: "\<exists>u. snd ?x = Inr u" "snd ?o = Inr a" "snd ?c = Inr ()" "snd ?t = Inr ()"
    "fst (apply_meta p m policy w) = fst ?t"
    using assms(1) by (auto simp: apply_meta_def and_then_Inr split: if_splits)
  from s(1) obtain n1 xt where n1: "w_fs (fst ?x) p = Some n1" "n_body n1 = n_body n" "n_attr n1 = (n_attr n)\<lparr>a_xattrs := xt\<rparr>"
    "\<forall>k. k \<notin> fst ` set (m_xattrs m) \<longrightarrow> bt_get xt k = bt_get (a_xattrs (n_attr n)) k"
    "distinct (map fst (m_xattrs m)) \<longrightarrow> (\<forall>i < length (m_xattrs m). bt_get xt (fst (m_xattrs m ! i)) =
       (if refused (w_verdicts w) i then bt_get (a_xattrs (n_attr n)) (fst (m_xattrs m ! i)) else Some (snd (m_xattrs m ! i))))"
    using apply_xattrs_Inr assms(2) by blast
  obtain n2 where n2: "w_fs (fst ?o) p = Some n2" "n_body n2 = n_body n" "a_xattrs (n_attr n2) = xt"
    "if owner_skipped a then n_attr n2 = n_attr n1 else a_uid (n_attr n2) = m_uid m \<and> a_gid (n_attr n2) = m_gid m"
    using apply_owner_Inr [OF s(2) n1(1)] n1 by auto
  obtain n3 where n3: "w_fs (fst ?c) p = Some n3" "n_body n3 = n_body n" "a_xattrs (n_attr n3) = xt"
    "a_uid (n_attr n3) = a_uid (n_attr n2)" "a_gid (n_attr n3) = a_gid (n_attr n2)"
    "m_kind m \<noteq> Symlink \<longrightarrow> (\<forall>t. n_body n \<noteq> BLink t) \<longrightarrow> a_mode (n_attr n3) = and (m_mode m) 0xFFF"
  proof (cases "m_kind m = Symlink")
    case True
    with n2 that show thesis by simp
  next
    case False
    from sys_attr_Inr(1) [OF _ n2(1), of "and (m_mode m) 0xFFF" "()"] s(3) False obtain n' where
      "w_fs (fst ?c) p = Some n'" "n_body n' = n_body n2"
      "n_attr n' = (case n_body n2 of BLink _ \<Rightarrow> n_attr n2 | _ \<Rightarrow> (n_attr n2)\<lparr>a_mode := and (m_mode m) 0xFFF\<rparr>)" by auto
    with n2 False show thesis by (intro that [of n']) (auto split: node_body.splits)
  qed
  from sys_attr_Inr(4) [OF s(4) n3(1)] obtain n4 where "w_fs (fst ?t) p = Some n4" "n_body n4 = n_body n3"
    "n_attr n4 = (n_attr n3)\<lparr>a_mtime_s := m_mtime_s m, a_mtime_ns := m_mtime_ns m\<rparr>" by blast
  with n1 n2 n3 s(5) show ?thesis by (intro exI [of _ n4]) (auto simp: meta_on_def split: if_splits)
qed

lemma apply_meta_opt_Inr:
  assumes "snd (apply_meta_opt p mo policy w) = Inr u" "w_fs w p = Some n"
  shows "\<exists>n'. w_fs (fst (apply_meta_opt p mo policy w)) p = Some n' \<and> n_body n' = n_body n
    \<and> (case mo of None \<Rightarrow> n' = n | Some m \<Rightarrow> meta_on m n')"
proof (cases mo)
  case None
  with assms(2) show ?thesis by (simp add: apply_meta_opt_def)
next
  case (Some m)
  with assms(1) obtain a where a: "snd (apply_meta p m policy w) = Inr a"
    by (auto simp: apply_meta_opt_def and_then_Inr)
  then have "fst (apply_meta_opt p mo policy w) = fst (apply_meta p m policy w)"
    using Some by (cases "apply_meta p m policy w") (simp add: apply_meta_opt_def and_then_def with_ctx_def)
  with apply_meta_Inr [OF a assms(2)] Some show ?thesis by auto
qed

text \<open>On a missing path no attribute call succeeds, and none makes it appear.\<close>

lemma existing_absent:
  "syscall p (existing p f) w = (w', r) \<Longrightarrow> w_fs w p = None \<Longrightarrow> w_fs w' p = None \<and> (\<exists>e. r = Inl e)"
  by (cases rule: syscall_cases [of p "existing p f" w]) (auto simp: existing_def)

lemma xattrs_absent: "w_fs w p = None \<Longrightarrow> w_fs (fst (apply_xattrs p xs w)) p = None"
proof (induction p xs w rule: apply_xattrs.induct)
  case (2 p k x xs w)
  obtain w' r where r: "sys_lsetxattr p k x w = (w', r)" by fastforce
  with 2 existing_absent [OF r [unfolded sys_lsetxattr_def]] show ?case by auto
qed simp

lemma owner_absent: "w_fs w p = None \<Longrightarrow> w_fs (fst (apply_owner p m policy w)) p = None"
proof -
  assume a: "w_fs w p = None"
  obtain w' r where r: "sys_lchown p (m_uid m) (m_gid m) w = (w', r)" by fastforce
  from existing_absent [OF r [unfolded sys_lchown_def] a] r a show ?thesis
    by (auto simp: apply_owner_def note_owner_skip_def split: owner_policy.splits)
qed

lemma apply_meta_absent:
  assumes "w_fs w p = None" shows "snd (apply_meta_opt p (Some m) policy w) \<noteq> Inr u"
proof
  let ?x = "apply_xattrs p (m_xattrs m) w"
  let ?o = "apply_owner p m policy (fst ?x)"
  let ?c = "if m_kind m \<noteq> Symlink then sys_chmod p (and (m_mode m) 0xFFF) (fst ?o) else (fst ?o, Inr ())"
  have o: "w_fs (fst ?o) p = None" by (intro owner_absent xattrs_absent assms)
  have c: "w_fs (fst ?c) p = None"
  proof (cases "sys_chmod p (and (m_mode m) 0xFFF) (fst ?o)")
    case (Pair w' r)
    with existing_absent [OF Pair [unfolded sys_chmod_def] o] o show ?thesis by simp
  qed
  assume "snd (apply_meta_opt p (Some m) policy w) = Inr u"
  then have "snd (sys_utimensat p (m_mtime_s m) (m_mtime_ns m) (fst ?c)) = Inr ()"
    by (auto simp: apply_meta_opt_def apply_meta_def and_then_Inr split: if_splits)
  moreover obtain w' r where r: "sys_utimensat p (m_mtime_s m) (m_mtime_ns m) (fst ?c) = (w', r)" by fastforce
  ultimately show False using existing_absent [OF r [unfolded sys_utimensat_def] c] by simp
qed

lemma verify_Inr:
  assumes "snd (verify_on_disk X p h rel w) = Inr u" "w_fs w p = Some n" "n_body n = BFile bs b"
  shows "blake3 X bs = h" "w_fs (fst (verify_on_disk X p h rel w)) = w_fs w"
  using assms
  by (auto simp: verify_on_disk_def and_then_Inr sys_open_def sys_read_def and_then_def with_ctx_def Let_def case_prod_unfold
      split: option.splits verdict.splits if_splits sum.splits)

subsection \<open>Publishing\<close>

text \<open>Every tree between two worlds has the old destination, or a good one.\<close>

definition seen_good :: "(fnode \<Rightarrow> bool) \<Rightarrow> fpath \<Rightarrow> fnode option \<Rightarrow> suppressor \<Rightarrow> (fstree \<times> suppressor) list \<Rightarrow> bool" where
  "seen_good good dest old s ts \<longleftrightarrow>
     (\<forall>(fs, s') \<in> set ts. s' = s \<and> (fs dest = old \<or> (\<exists>n. fs dest = Some n \<and> good n)))"

text \<open>
  The contract of a staging step: it touches the temporary name only, and when it
  succeeds from a free name, what stands there is fit to be published.
\<close>

locale staging =
  fixes stage :: "fpath \<Rightarrow> world \<Rightarrow> world \<times> (apply_error + unit)"
    and good :: "fnode \<Rightarrow> bool"
  assumes stage_only: "only_at {tmp} w (fst (stage tmp w))"
    and stage_good: "w_fs w tmp = None \<Longrightarrow> snd (stage tmp w) = Inr u \<Longrightarrow>
      \<exists>n. w_fs (fst (stage tmp w)) tmp = Some n \<and> good n"
begin

lemma only_seen:
  assumes "only_at {tmp} w w'" "tmp \<noteq> dest"
  shows "\<exists>ts. w_trace w' = w_trace w @ ts \<and> seen_good good dest (w_fs w dest) (w_sup w) ts" "w_fs w' dest = w_fs w dest"
  using assms by (fastforce simp: only_at_def seen_good_def)+

lemma publish_atomic:
  assumes "tmp \<noteq> dest" "w_fs w tmp = None"
  defines "w' \<equiv> fst (publish (stage tmp) tmp dest w)" and "res \<equiv> snd (publish (stage tmp) tmp dest w)"
  shows "\<exists>ts. w_trace w' = w_trace w @ ts \<and> seen_good good dest (w_fs w dest) (w_sup w) ts"
    "res = Inr u \<Longrightarrow> \<exists>n. w_fs w' dest = Some n \<and> good n \<and> w_fs w' tmp = None"
    "res = Inl e \<Longrightarrow> w_fs w' dest = w_fs w dest"
    "q \<noteq> tmp \<Longrightarrow> q \<noteq> dest \<Longrightarrow> w_fs w' q = w_fs w q"
    "res = Inl e \<Longrightarrow> w_fs w' tmp \<noteq> None \<Longrightarrow> \<exists>w1 e1. sys_remove_file tmp w1 = (w', Inl e1)"
proof -
  obtain w1 r1 where st: "stage tmp w = (w1, r1)" by fastforce
  have on1: "only_at {tmp} w w1" using stage_only [of tmp w] st by simp
  obtain w2 r2 where rn: "sys_rename tmp dest w1 = (w2, r2)" by fastforce
  have removed: "w_fs (fst (sys_remove_file tmp v)) tmp \<noteq> None \<Longrightarrow> \<exists>e1. sys_remove_file tmp v = (fst (sys_remove_file tmp v), Inl e1)" for v
    using sys_remove_Inr [of tmp v] by (cases "sys_remove_file tmp v"; cases "snd (sys_remove_file tmp v)") auto
  have failing: "(\<exists>ts. w_trace w' = w_trace w @ ts \<and> seen_good good dest (w_fs w dest) (w_sup w) ts)
      \<and> w_fs w' dest = w_fs w dest \<and> (q \<noteq> tmp \<longrightarrow> w_fs w' q = w_fs w q)
      \<and> (w_fs w' tmp \<noteq> None \<longrightarrow> (\<exists>w1 e1. sys_remove_file tmp w1 = (w', Inl e1)))"
    if fail: "w' = fst (sys_remove_file tmp v)" "only_at {tmp} w v" for v
  proof -
    have "only_at {tmp} w w'" using fail only_at_trans sys_only(10) by blast
    with only_seen [OF this assms(1)] removed [of v] fail(1) show ?thesis by (auto simp: only_at_def)
  qed
  consider (stage_fail) e where "r1 = Inl e" | (rename_fail) x e where "r1 = Inr x" "r2 = Inl e" | (ok) x y where "r1 = Inr x" "r2 = Inr y"
    by (cases r1; cases r2) auto
  then have main: "(\<exists>ts. w_trace w' = w_trace w @ ts \<and> seen_good good dest (w_fs w dest) (w_sup w) ts)
      \<and> (res = Inr u \<longrightarrow> (\<exists>n. w_fs w' dest = Some n \<and> good n \<and> w_fs w' tmp = None))
      \<and> (res = Inl e \<longrightarrow> w_fs w' dest = w_fs w dest) \<and> (q \<noteq> tmp \<longrightarrow> q \<noteq> dest \<longrightarrow> w_fs w' q = w_fs w q)
      \<and> (res = Inl e \<longrightarrow> w_fs w' tmp \<noteq> None \<longrightarrow> (\<exists>w1 e1. sys_remove_file tmp w1 = (w', Inl e1)))"
  proof cases
    case stage_fail
    then have "w' = fst (sys_remove_file tmp w1)" "\<exists>e. res = Inl e"
      by (simp_all add: w'_def res_def publish_def st and_then_def)
    with failing [OF _ on1] show ?thesis by auto
  next
    case rename_fail
    then have "w' = fst (sys_remove_file tmp w2)" "\<exists>e. res = Inl e"
      using rn by (simp_all add: w'_def res_def publish_def st and_then_def with_ctx_def)
    moreover have "only_at {tmp} w1 w2"
      using sys_Inl_same(4) [of tmp dest w1 w2] rn rename_fail by (auto intro!: only_at_untouched)
    ultimately show ?thesis using failing [OF _ only_at_trans [OF on1]] by auto
  next
    case ok
    then have w': "w' = sync_dir (butlast dest) w2" and "\<exists>u. res = Inr u"
      using rn by (simp_all add: w'_def res_def publish_def st and_then_def with_ctx_def)
    obtain n where n: "w_fs w1 tmp = Some n" "good n" using stage_good [OF assms(2)] st ok by fastforce
    have "w_fs w2 = ((w_fs w1)(tmp := None))(dest \<mapsto> n) \<and> w_trace w2 = w_trace w1 @ [(w_fs w2, w_sup w1)] \<and> w_sup w2 = w_sup w1"
      using sys_rename_Inr [of tmp dest w1 w2] rn ok n by simp
    moreover have "w_fs w' = w_fs w2" "w_trace w' = w_trace w2"
      by (simp_all add: w' sync_dir_def Let_def case_prod_unfold)
    moreover obtain ts where "w_trace w1 = w_trace w @ ts" "seen_good good dest (w_fs w dest) (w_sup w) ts"
      using only_seen [OF on1 assms(1)] by blast
    moreover have "w_sup w1 = w_sup w" using on1 by (simp add: only_at_def)
    ultimately show ?thesis
      using n on1 \<open>\<exists>u. res = Inr u\<close> assms(1)
      by (auto simp: seen_good_def only_at_def intro!: exI [of _ "ts @ [(((w_fs w1)(tmp := None))(dest \<mapsto> n), w_sup w)]"])
  qed
  then show "\<exists>ts. w_trace w' = w_trace w @ ts \<and> seen_good good dest (w_fs w dest) (w_sup w) ts"
    "res = Inr u \<Longrightarrow> \<exists>n. w_fs w' dest = Some n \<and> good n \<and> w_fs w' tmp = None"
    "res = Inl e \<Longrightarrow> w_fs w' dest = w_fs w dest"
    "q \<noteq> tmp \<Longrightarrow> q \<noteq> dest \<Longrightarrow> w_fs w' q = w_fs w q"
    "res = Inl e \<Longrightarrow> w_fs w' tmp \<noteq> None \<Longrightarrow> \<exists>w1 e1. sys_remove_file tmp w1 = (w', Inl e1)" by blast+
qed

end

subsection \<open>The four staging steps\<close>

definition good_file :: "crates \<Rightarrow> u32 \<Rightarrow> hash32 \<Rightarrow> meta option \<Rightarrow> fnode \<Rightarrow> bool" where
  "good_file X mode h mo n \<longleftrightarrow> (\<exists>bs. n_body n = BFile bs True \<and> blake3 X bs = h)
     \<and> (case mo of None \<Rightarrow> a_mode (n_attr n) = and mode 0xFFF | Some m \<Rightarrow> meta_on m n)"

definition good_link :: "bytes \<Rightarrow> meta \<Rightarrow> fnode \<Rightarrow> bool" where
  "good_link target m n \<longleftrightarrow> n_body n = BLink target \<and> meta_on m n"

definition good_special :: "meta \<Rightarrow> fnode \<Rightarrow> bool" where
  "good_special m n \<longleftrightarrow> n_body n = BSpecial (m_kind m) (if m_kind m = Fifo then 0 else m_rdev m) \<and> meta_on m n"

text \<open>From a written file through sync, mode, readback and metadata.\<close>

lemma finish_file:
  assumes "w_fs w tmp = Some n" "n_body n = BFile bs b"
    and "snd (and_then (with_ctx ''fsync'' tmp (sys_sync_all tmp w)) (\<lambda>_ w.
           and_then (with_ctx ''chmod'' tmp (sys_chmod tmp (and mode 0xFFF) w)) (\<lambda>_ w.
           and_then (verify_on_disk X tmp h rel w) (\<lambda>_ w. apply_meta_opt tmp mo policy w)))) = Inr u"
  shows "\<exists>n. w_fs (fst (and_then (with_ctx ''fsync'' tmp (sys_sync_all tmp w)) (\<lambda>_ w.
           and_then (with_ctx ''chmod'' tmp (sys_chmod tmp (and mode 0xFFF) w)) (\<lambda>_ w.
           and_then (verify_on_disk X tmp h rel w) (\<lambda>_ w. apply_meta_opt tmp mo policy w))))) tmp = Some n
      \<and> good_file X mode h mo n"
proof -
  let ?s = "sys_sync_all tmp w"
  let ?c = "sys_chmod tmp (and mode 0xFFF) (fst ?s)"
  let ?v = "verify_on_disk X tmp h rel (fst ?c)"
  let ?m = "apply_meta_opt tmp mo policy (fst ?v)"
  have ok: "snd ?s = Inr ()" "snd ?c = Inr ()" "snd ?v = Inr ()" "snd ?m = Inr u"
    using assms(3) by (auto simp: and_then_Inr)
  have run: "fst (and_then (with_ctx ''fsync'' tmp ?s) (\<lambda>_ w.
           and_then (with_ctx ''chmod'' tmp (sys_chmod tmp (and mode 0xFFF) w)) (\<lambda>_ w.
           and_then (verify_on_disk X tmp h rel w) (\<lambda>_ w. apply_meta_opt tmp mo policy w)))) = fst ?m"
    using ok by (cases ?s; cases ?c; cases ?v) (simp add: and_then_def with_ctx_def)
  obtain n1 where n1: "w_fs (fst ?s) tmp = Some n1" "n_body n1 = BFile bs True" using sys_sync_all_Inr [OF ok(1) assms(1,2)] .
  obtain n2 where n2: "w_fs (fst ?c) tmp = Some n2" "n_body n2 = BFile bs True" "a_mode (n_attr n2) = and mode 0xFFF"
    using sys_attr_Inr(1) [OF ok(2) n1(1)] n1(2) by auto
  note v = verify_Inr [OF ok(3) n2(1,2)]
  obtain n3 where "w_fs (fst ?m) tmp = Some n3" "n_body n3 = n_body n2" "case mo of None \<Rightarrow> n3 = n2 | Some m \<Rightarrow> meta_on m n3"
    using apply_meta_opt_Inr [OF ok(4)] v(2) n2(1) by auto
  with n2 v(1) run show ?thesis by (auto simp: good_file_def split: option.splits)
qed

lemma stage_chunks_only: "only_at {tmp} w (fst (stage_chunks c man tmp w))"
proof -
  let ?w = "snd (next_verdict w)"
  have "only_at {tmp} w (?w\<lparr>w_cas := cas'\<rparr>)" for cas' by (simp add: only_at_untouched)
  then have "only_at {tmp} w (fst (sys_write_all tmp bs (?w\<lparr>w_cas := cas'\<rparr>)))" for bs cas'
    using only_at_trans sys_only(2) by blast
  then show ?thesis
    unfolding stage_chunks_def Let_def case_prod_unfold
    by (auto split: sum.splits)
qed

lemma stage_chunks_Inr:
  assumes "snd (stage_chunks c man tmp w) = Inr x"
  obtains n bs where "w_fs (fst (stage_chunks c man tmp w)) tmp = Some n" "n_body n = BFile bs False"
proof -
  obtain out w2 where "snd (sys_write_all tmp out w2) = Inr ()" "fst (stage_chunks c man tmp w) = fst (sys_write_all tmp out w2)"
    using assms unfolding stage_chunks_def Let_def case_prod_unfold by (auto split: sum.splits)
  with sys_write_all_Inr [of tmp out w2] that show thesis by metis
qed

interpretation write_stage: staging "stage_write c rel mode h data mo" "good_file (ax_crates c) mode h mo"
  for c rel mode h data mo
proof
  show "only_at {tmp} w (fst (stage_write c rel mode h data mo tmp w))" for tmp w
    unfolding stage_write_def by (auto intro!: and_then_only verify_only apply_meta_opt_only)
next
  fix tmp w u assume ok: "snd (stage_write c rel mode h data mo tmp w) = Inr u"
  let ?c = "sys_create tmp w"
  let ?w = "sys_write_all tmp data (fst ?c)"
  have s: "snd ?c = Inr ()" "snd ?w = Inr ()" using ok by (auto simp: stage_write_def and_then_Inr)
  obtain n bs where n: "w_fs (fst ?w) tmp = Some n" "n_body n = BFile bs False" using sys_write_all_Inr [OF s(2)] .
  have run: "stage_write c rel mode h data mo tmp w =
    and_then (with_ctx ''fsync'' tmp (sys_sync_all tmp (fst ?w))) (\<lambda>_ w.
      and_then (with_ctx ''chmod'' tmp (sys_chmod tmp (and mode 0xFFF) w)) (\<lambda>_ w.
      and_then (verify_on_disk (ax_crates c) tmp h rel w) (\<lambda>_ w. apply_meta_opt tmp mo (ax_policy c) w)))"
    using s by (cases ?c; cases ?w) (simp add: stage_write_def and_then_def with_ctx_def)
  show "\<exists>n. w_fs (fst (stage_write c rel mode h data mo tmp w)) tmp = Some n \<and> good_file (ax_crates c) mode h mo n"
    using finish_file [OF n] ok unfolding run by blast
qed

interpretation assembled_stage: staging "stage_assembled c rel mode h man mo" "good_file (ax_crates c) mode h mo"
  for c rel mode h man mo
proof
  show "only_at {tmp} w (fst (stage_assembled c rel mode h man mo tmp w))" for tmp w
    unfolding stage_assembled_def by (auto intro!: and_then_only verify_only apply_meta_opt_only stage_chunks_only)
next
  fix tmp w u assume ok: "snd (stage_assembled c rel mode h man mo tmp w) = Inr u"
  let ?c = "sys_create tmp w"
  let ?a = "stage_chunks c man tmp (fst ?c)"
  have s: "snd ?c = Inr ()" "snd ?a = Inr h" using ok by (auto simp: stage_assembled_def and_then_Inr split: if_splits)
  obtain n bs where n: "w_fs (fst ?a) tmp = Some n" "n_body n = BFile bs False" using stage_chunks_Inr [OF s(2)] .
  have run: "stage_assembled c rel mode h man mo tmp w =
    and_then (with_ctx ''fsync'' tmp (sys_sync_all tmp (fst ?a))) (\<lambda>_ w.
      and_then (with_ctx ''chmod'' tmp (sys_chmod tmp (and mode 0xFFF) w)) (\<lambda>_ w.
      and_then (verify_on_disk (ax_crates c) tmp h rel w) (\<lambda>_ w. apply_meta_opt tmp mo (ax_policy c) w)))"
    using s by (cases ?c; cases ?a) (simp add: stage_assembled_def and_then_def with_ctx_def)
  show "\<exists>n. w_fs (fst (stage_assembled c rel mode h man mo tmp w)) tmp = Some n \<and> good_file (ax_crates c) mode h mo n"
    using finish_file [OF n] ok unfolding run by blast
qed

lemma create_special_only: "only_at {tmp} w (fst (create_special tmp m w))"
  using sys_only(9) [of tmp w "m_kind m" "and (m_mode m) 0xFFF" "if m_kind m = Fifo then 0 else m_rdev m"]
  by (auto simp: create_special_def split: prod.splits sum.splits simp del: sys_only)

interpretation link_stage: staging "stage_symlink c target m" "good_link target m" for c target m
proof
  show "only_at {tmp} w (fst (stage_symlink c target m tmp w))" for tmp w
    unfolding stage_symlink_def by (auto intro!: and_then_only apply_meta_opt_only)
next
  fix tmp w u assume ok: "snd (stage_symlink c target m tmp w) = Inr u"
  let ?s = "sys_symlink target tmp w"
  have s: "snd ?s = Inr ()" "snd (apply_meta_opt tmp (Some m) (ax_policy c) (fst ?s)) = Inr u"
    using ok by (auto simp: stage_symlink_def and_then_Inr)
  obtain w1 where w1: "?s = (w1, Inr ())" using s(1) by (cases ?s) auto
  then have "\<exists>n. w_fs w1 tmp = Some n \<and> n_body n = BLink target"
    unfolding sys_symlink_def by (auto dest!: syscall_run simp: set_fs_def fresh_node_def split: if_splits)
  then obtain n where n: "w_fs w1 tmp = Some n" "n_body n = BLink target" by blast
  have "fst (stage_symlink c target m tmp w) = fst (apply_meta_opt tmp (Some m) (ax_policy c) w1)"
    using w1 by (simp add: stage_symlink_def and_then_def with_ctx_def)
  with apply_meta_opt_Inr [of tmp "Some m" "ax_policy c" w1 u n] s(2) w1 n
  show "\<exists>n. w_fs (fst (stage_symlink c target m tmp w)) tmp = Some n \<and> good_link target m n"
    by (auto simp: good_link_def)
qed

interpretation special_stage: staging "stage_special c m" "good_special m" for c m
proof
  show "only_at {tmp} w (fst (stage_special c m tmp w))" for tmp w
    unfolding stage_special_def by (auto intro!: and_then_only apply_meta_opt_only create_special_only)
next
  fix tmp w u assume free: "w_fs w tmp = None" and ok: "snd (stage_special c m tmp w) = Inr u"
  let ?rd = "if m_kind m = Fifo then 0 else m_rdev m"
  obtain w1 where w1: "create_special tmp m w = (w1, Inr ())"
    and meta: "snd (apply_meta_opt tmp (Some m) (ax_policy c) w1) = Inr u"
    using ok by (cases "create_special tmp m w") (auto simp: stage_special_def and_then_Inr)
  have run: "fst (stage_special c m tmp w) = fst (apply_meta_opt tmp (Some m) (ax_policy c) w1)"
    using w1 by (simp add: stage_special_def and_then_def with_ctx_def)
  obtain w2 r2 where mk: "sys_mknod tmp (m_kind m) (and (m_mode m) 0xFFF) ?rd w = (w2, r2)" by fastforce
  have w2: "w1 = w2" using w1 mk by (auto simp: create_special_def split: if_splits sum.splits)
  show "\<exists>n. w_fs (fst (stage_special c m tmp w)) tmp = Some n \<and> good_special m n"
  proof (cases r2)
    case (Inr x)
    then have "\<exists>n. w_fs w1 tmp = Some n \<and> n_body n = BSpecial (m_kind m) ?rd"
      using mk w2 unfolding sys_mknod_def by (auto dest!: syscall_run simp: set_fs_def fresh_node_def split: if_splits)
    with apply_meta_opt_Inr [OF meta] run show ?thesis by (auto simp: good_special_def)
  next
    case (Inl e)
    then have none: "w_fs w1 tmp = None" using sys_Inl_same(5) mk w2 free by metis
    with apply_meta_absent meta show ?thesis by blast
  qed
qed

subsection \<open>Resolve, make directories, register, publish\<close>

lemma mkdirs_only: "only_at (set qs) w (fst (mkdirs qs w)) \<and> w_seq (fst (mkdirs qs w)) = w_seq w"
proof (induction qs w rule: mkdirs.induct)
  case (2 q qs w)
  show ?case
  proof (cases "is_dir (w_fs w) q")
    case True
    with 2(1) show ?thesis by (auto intro: only_at_mono)
  next
    case False
    let ?f = "\<lambda>v fs. if fs q \<noteq> None then Inl (OsError (if qs = [] then EEXIST else ENOTDIR))
        else Inr (fs(q \<mapsto> fresh_node BDir (w_new_attr w)))"
    obtain w1 r1 where m: "syscall q ?f w = (w1, r1)" by fastforce
    have "only_at {q} w (fst (syscall q ?f w))" by (rule syscall_only) (auto split: if_splits)
    then have on: "only_at (set (q # qs)) w w1" using m by (auto intro: only_at_mono)
    have seq: "w_seq w1 = w_seq w"
      using m by (cases rule: syscall_cases [of q ?f w]) (auto simp: set_fs_def)
    show ?thesis
    proof (cases r1)
      case (Inl e)
      with False m on seq show ?thesis by simp
    next
      case (Inr u)
      have "only_at (set qs) w1 (fst (mkdirs qs w1)) \<and> w_seq (fst (mkdirs qs w1)) = w_seq w1"
        using 2(2) [OF False m [symmetric] Inr] .
      then have "only_at (set (q # qs)) w (fst (mkdirs qs w1)) \<and> w_seq (fst (mkdirs qs w1)) = w_seq w"
        using on seq only_at_trans only_at_mono by (metis list.set_intros(2) subsetI)
      with False m Inr show ?thesis by simp
    qed
  qed
qed simp

lemma parents_of_dir:
  assumes "dest \<noteq> []"
  shows "set (parents (butlast dest) @ (if butlast dest = [] then [] else [butlast dest])) \<subseteq> set (parents dest)"
    and "q \<in> set (parents dest) \<Longrightarrow> length q < length dest"
proof -
  have "take k (butlast dest) \<in> set (parents dest)" if "k \<in> {1..<length dest - 1}" for k
    using that by (auto simp: parents_def take_butlast intro!: image_eqI [of _ _ k])
  moreover have "butlast dest \<noteq> [] \<Longrightarrow> butlast dest \<in> set (parents dest)"
    using assms by (auto simp: parents_def butlast_conv_take intro!: image_eqI [of _ _ "length dest - 1"])
  ultimately show "set (parents (butlast dest) @ (if butlast dest = [] then [] else [butlast dest])) \<subseteq> set (parents dest)"
    by (auto simp: parents_def [of "butlast dest"])
  show "q \<in> set (parents dest) \<Longrightarrow> length q < length dest" by (auto simp: parents_def)
qed

definition write_entry :: "apply_ctx \<Rightarrow> hash32 \<Rightarrow> entry" where
  "write_entry c h = \<lparr>e_kind = KWrite h, e_at = ax_now c\<rparr>"

text \<open>
  The trees between two worlds: the destination is the old one or good, and whatever
  shows at the destination or the temporary name is covered by the suppression entry.
\<close>

definition guarded_trace ::
  "apply_ctx \<Rightarrow> path \<Rightarrow> hash32 \<Rightarrow> (fnode \<Rightarrow> bool) \<Rightarrow> fpath \<Rightarrow> fpath \<Rightarrow> fnode option \<Rightarrow> (fstree \<times> suppressor) list \<Rightarrow> bool" where
  "guarded_trace c rel h good tmp dest old ts \<longleftrightarrow>
     (\<forall>(fs, s) \<in> set ts. (fs dest = old \<or> (\<exists>n. fs dest = Some n \<and> good n))
        \<and> (fs dest \<noteq> old \<or> fs tmp \<noteq> None \<longrightarrow> bt_get s rel = Some (write_entry c h)))"

context staging
begin

lemma staged_atomic:
  fixes c :: apply_ctx and w :: world and dest :: fpath and rel :: path and h :: hash32
  assumes dest: "safe_dest (ax_root c) rel = Inr dest"
  defines "tmp \<equiv> tmp_name c dest (w_seq w)"
  assumes free: "w_fs w tmp = None"
  defines "w' \<equiv> fst (staged_apply c rel h stage w)" and "res \<equiv> snd (staged_apply c rel h stage w)"
  shows "\<exists>ts. w_trace w' = w_trace w @ ts \<and> guarded_trace c rel h good tmp dest (w_fs w dest) ts"
    "res = Inr u \<Longrightarrow> \<exists>n. w_fs w' dest = Some n \<and> good n \<and> w_fs w' tmp = None"
    "res = Inl e \<Longrightarrow> w_fs w' dest = w_fs w dest"
    "q \<noteq> tmp \<Longrightarrow> q \<noteq> dest \<Longrightarrow> q \<notin> set (parents dest) \<Longrightarrow> w_fs w' q = w_fs w q"
    "res = Inl e \<Longrightarrow> w_fs w' tmp \<noteq> None \<Longrightarrow> \<exists>w1 e1. sys_remove_file tmp w1 = (w', Inl e1)"
proof -
  have ne: "dest \<noteq> []" using safe_dest_Inr(1) [OF dest] .
  have td: "tmp \<noteq> dest" unfolding tmp_def by (rule tmp_name_neq [OF ne])
  have len: "length tmp = length dest" using ne by (simp add: tmp_def tmp_name_def)
  let ?qs = "parents (butlast dest) @ (if butlast dest = [] then [] else [butlast dest])"
  obtain w1 r1 where mk: "sys_create_dir_all (butlast dest) w = (w1, r1)" by fastforce
  have on: "only_at (set (parents dest)) w w1" and seq: "w_seq w1 = w_seq w"
    using mkdirs_only [of ?qs w] mk parents_of_dir(1) [OF ne] only_at_mono
    by (auto simp: sys_create_dir_all_def)
  have out: "dest \<notin> set (parents dest)" "tmp \<notin> set (parents dest)"
    using parents_of_dir(2) [OF ne] len by (metis less_irrefl)+
  have w1: "w_fs w1 dest = w_fs w dest" "w_fs w1 tmp = None" "q \<notin> set (parents dest) \<Longrightarrow> w_fs w1 q = w_fs w q"
    using on out free by (auto simp: only_at_def)
  obtain ts1 where ts1: "w_trace w1 = w_trace w @ ts1" "guarded_trace c rel h good tmp dest (w_fs w dest) ts1"
    using on out free unfolding only_at_def guarded_trace_def by fastforce
  have run: "staged_apply c rel h stage w = and_then (with_ctx ''mkdir'' (butlast dest) (w1, r1)) (\<lambda>_ w.
      let (stage_seq, w) = next_stage (suppress_write c rel h w); tmp = tmp_name c dest stage_seq
      in publish (stage tmp) tmp dest w)"
    by (simp add: staged_apply_def dest mk)
  have main: "(\<exists>ts. w_trace w' = w_trace w @ ts \<and> guarded_trace c rel h good tmp dest (w_fs w dest) ts)
    \<and> (res = Inr u \<longrightarrow> (\<exists>n. w_fs w' dest = Some n \<and> good n \<and> w_fs w' tmp = None))
    \<and> (res = Inl e \<longrightarrow> w_fs w' dest = w_fs w dest)
    \<and> (q \<noteq> tmp \<longrightarrow> q \<noteq> dest \<longrightarrow> q \<notin> set (parents dest) \<longrightarrow> w_fs w' q = w_fs w q)
    \<and> (res = Inl e \<longrightarrow> w_fs w' tmp \<noteq> None \<longrightarrow> (\<exists>w1 e1. sys_remove_file tmp w1 = (w', Inl e1)))"
  proof (cases r1)
    case (Inl e)
    with w1 ts1 show ?thesis by (auto simp: w'_def res_def run and_then_def with_ctx_def)
  next
    case (Inr x)
    let ?v = "(suppress_write c rel h w1)\<lparr>w_seq := w_seq w + 1\<rparr>"
    have pub: "staged_apply c rel h stage w = publish (stage tmp) tmp dest ?v"
      using Inr by (simp add: run and_then_def with_ctx_def next_stage_def suppress_write_def seq tmp_def Let_def)
    have v: "w_fs ?v = w_fs w1" "w_trace ?v = w_trace w1" "bt_get (w_sup ?v) rel = Some (write_entry c h)"
      by (simp_all add: suppress_write_def register_write_def write_entry_def bt_get_simps)
    note p = publish_atomic [OF td, of ?v, folded pub, folded w'_def res_def]
    obtain ts2 where "w_trace w' = w_trace ?v @ ts2" "seen_good good dest (w_fs ?v dest) (w_sup ?v) ts2"
      using p(1) v w1 by auto
    then have "w_trace w' = w_trace w @ (ts1 @ ts2)" "guarded_trace c rel h good tmp dest (w_fs w dest) (ts1 @ ts2)"
      using ts1 v w1 by (auto simp: guarded_trace_def seen_good_def)
    with p(2-5) v w1 show ?thesis by auto
  qed
  then show "\<exists>ts. w_trace w' = w_trace w @ ts \<and> guarded_trace c rel h good tmp dest (w_fs w dest) ts"
    "res = Inr u \<Longrightarrow> \<exists>n. w_fs w' dest = Some n \<and> good n \<and> w_fs w' tmp = None"
    "res = Inl e \<Longrightarrow> w_fs w' dest = w_fs w dest"
    "q \<noteq> tmp \<Longrightarrow> q \<noteq> dest \<Longrightarrow> q \<notin> set (parents dest) \<Longrightarrow> w_fs w' q = w_fs w q"
    "res = Inl e \<Longrightarrow> w_fs w' tmp \<noteq> None \<Longrightarrow> \<exists>w1 e1. sys_remove_file tmp w1 = (w', Inl e1)" by blast+
qed

end

subsection \<open>Properties\<close>

text \<open>What a version asks of the node that is published for it.\<close>

definition good_version :: "crates \<Rightarrow> u32 \<Rightarrow> hash32 option \<Rightarrow> meta option \<Rightarrow> fnode \<Rightarrow> bool" where
  "good_version X mode ho mo n =
     (case mo of
        None \<Rightarrow> (\<exists>h. ho = Some h \<and> good_file X mode h None n)
      | Some m \<Rightarrow>
          (case m_kind m of
             Regular \<Rightarrow> (\<exists>h. ho = Some h \<and> good_file X mode h (Some m) n)
           | Symlink \<Rightarrow> (\<exists>t. m_symlink_target m = Some t \<and> ho = Some (blake3 X t) \<and> good_link t m n)
           | _ \<Rightarrow> good_special m n))"

definition version_hash :: "hash32 option \<Rightarrow> meta option \<Rightarrow> hash32" where
  "version_hash ho mo =
     (if (\<exists>m. mo = Some m \<and> m_kind m \<in> {Fifo, CharDev, BlockDev}) then zeros 32 else unwrap_or ho (zeros 32))"

text \<open>Every apply of a version is refused untouched, or a staged apply with the right contract.\<close>

lemma apply_version_cases:
  obtains (refused) "apply_version c rel mode ho mano mo w = (w, Inl (HashMismatch rel))"
  | (staged) stage where "staging stage (good_version (ax_crates c) mode ho mo)"
      "apply_version c rel mode ho mano mo w = staged_apply c rel (version_hash ho mo) stage w"
proof -
  let ?run = "apply_version c rel mode ho mano mo w"
  have regular: thesis if "mo = None \<or> (\<exists>m. mo = Some m \<and> m_kind m = Regular)"
  proof (cases "\<exists>h man. ho = Some h \<and> mano = Some man \<and> mf_content_hash man = h")
    case True
    then obtain h man where h: "ho = Some h" "mano = Some man" "mf_content_hash man = h" by blast
    have "good_version (ax_crates c) mode ho mo = good_file (ax_crates c) mode h mo"
      using that h by (auto simp: good_version_def)
    then have "staging (stage_assembled c rel mode h man mo) (good_version (ax_crates c) mode ho mo)"
      using assembled_stage.staging_axioms [of c rel mode h man mo] by simp
    moreover have "?run = staged_apply c rel (version_hash ho mo) (stage_assembled c rel mode h man mo) w"
      using that h by (auto simp: apply_version_def apply_assembled_def version_hash_def)
    ultimately show thesis by (rule staged)
  next
    case False
    with that show thesis
      by (intro refused) (auto simp: apply_version_def apply_assembled_def split: option.splits)
  qed
  have link: thesis if m: "mo = Some m" "m_kind m = Symlink" for m
  proof (cases "\<exists>t. m_symlink_target m = Some t \<and> ho = Some (blake3 (ax_crates c) t)")
    case True
    then obtain t where t: "m_symlink_target m = Some t" "ho = Some (blake3 (ax_crates c) t)" by blast
    have "good_version (ax_crates c) mode ho mo = good_link t m"
      using m t by (auto simp: good_version_def)
    then have "staging (stage_symlink c t m) (good_version (ax_crates c) mode ho mo)"
      using link_stage.staging_axioms [of c t m] by simp
    moreover have "?run = staged_apply c rel (version_hash ho mo) (stage_symlink c t m) w"
      using m t by (simp add: apply_version_def apply_symlink_def version_hash_def)
    ultimately show thesis by (rule staged)
  next
    case False
    with m show thesis
      by (intro refused) (auto simp: apply_version_def apply_symlink_def split: option.splits)
  qed
  have special: thesis if m: "mo = Some m" "m_kind m \<in> {Fifo, CharDev, BlockDev}" for m
  proof -
    have "good_version (ax_crates c) mode ho mo = good_special m"
      using m by (auto simp: good_version_def)
    then have "staging (stage_special c m) (good_version (ax_crates c) mode ho mo)"
      using special_stage.staging_axioms [of c m] by simp
    moreover have "?run = staged_apply c rel (version_hash ho mo) (stage_special c m) w"
      using m by (auto simp: apply_version_def apply_special_def version_hash_def)
    ultimately show thesis by (rule staged)
  qed
  show thesis
  proof (cases mo)
    case (Some m)
    with regular link special show thesis by (cases "m_kind m") auto
  qed (use regular in auto)
qed

lemma apply_version_facts:
  assumes "safe_dest (ax_root c) rel = Inr dest" "w_fs w (tmp_name c dest (w_seq w)) = None"
    and "apply_version c rel mode ho mano mo w = (w', res)"
  shows "\<exists>ts. w_trace w' = w_trace w @ ts
      \<and> guarded_trace c rel (version_hash ho mo) (good_version (ax_crates c) mode ho mo)
          (tmp_name c dest (w_seq w)) dest (w_fs w dest) ts"
    and "res = Inr u \<Longrightarrow> \<exists>n. w_fs w' dest = Some n \<and> good_version (ax_crates c) mode ho mo n
      \<and> w_fs w' (tmp_name c dest (w_seq w)) = None"
    and "res = Inl e \<Longrightarrow> w_fs w' dest = w_fs w dest"
    and "q \<noteq> tmp_name c dest (w_seq w) \<Longrightarrow> q \<noteq> dest \<Longrightarrow> q \<notin> set (parents dest) \<Longrightarrow> w_fs w' q = w_fs w q"
proof -
  let ?tmp = "tmp_name c dest (w_seq w)"
  have "(\<exists>ts. w_trace w' = w_trace w @ ts
      \<and> guarded_trace c rel (version_hash ho mo) (good_version (ax_crates c) mode ho mo) ?tmp dest (w_fs w dest) ts)
    \<and> (res = Inr u \<longrightarrow> (\<exists>n. w_fs w' dest = Some n \<and> good_version (ax_crates c) mode ho mo n \<and> w_fs w' ?tmp = None))
    \<and> (res = Inl e \<longrightarrow> w_fs w' dest = w_fs w dest)
    \<and> (q \<noteq> ?tmp \<longrightarrow> q \<noteq> dest \<longrightarrow> q \<notin> set (parents dest) \<longrightarrow> w_fs w' q = w_fs w q)"
  proof (cases rule: apply_version_cases [of c rel mode ho mano mo w])
    case refused
    with assms(3) show ?thesis by (auto simp: guarded_trace_def)
  next
    case (staged stage)
    with assms(3) have run: "staged_apply c rel (version_hash ho mo) stage w = (w', res)" by simp
    note f = staging.staged_atomic(1-4) [where h = "version_hash ho mo", OF staged(1) assms(1,2), unfolded run fst_conv snd_conv]
    from f show ?thesis by blast
  qed
  then show "\<exists>ts. w_trace w' = w_trace w @ ts
      \<and> guarded_trace c rel (version_hash ho mo) (good_version (ax_crates c) mode ho mo) ?tmp dest (w_fs w dest) ts"
    "res = Inr u \<Longrightarrow> \<exists>n. w_fs w' dest = Some n \<and> good_version (ax_crates c) mode ho mo n \<and> w_fs w' ?tmp = None"
    "res = Inl e \<Longrightarrow> w_fs w' dest = w_fs w dest"
    "q \<noteq> ?tmp \<Longrightarrow> q \<noteq> dest \<Longrightarrow> q \<notin> set (parents dest) \<Longrightarrow> w_fs w' q = w_fs w q" by blast+
qed

text \<open>
  C4. Publication is atomic, whatever system calls fail or lie.  In every tree a reader or
  the scanner can see while a version is applied, the destination is what it was before or
  the complete new node: content with the right hash, read back and synced, with its
  metadata; and before anything shows at the destination or the temporary name the
  suppression entry is registered.  After an error the destination is what it was; after
  success it is the new node and the temporary name is gone.  No path but these two and
  the parent directories changes.
\<close>

theorem apply_version_atomic:
  assumes "safe_dest (ax_root c) rel = Inr dest" "w_fs w (tmp_name c dest (w_seq w)) = None"
    and "apply_version c rel mode ho mano mo w = (w', res)"
  shows "(\<exists>ts. w_trace w' = w_trace w @ ts
      \<and> guarded_trace c rel (version_hash ho mo) (good_version (ax_crates c) mode ho mo)
          (tmp_name c dest (w_seq w)) dest (w_fs w dest) ts)
    \<and> (case res of
         Inr _ \<Rightarrow> \<exists>n. w_fs w' dest = Some n \<and> good_version (ax_crates c) mode ho mo n
                    \<and> w_fs w' (tmp_name c dest (w_seq w)) = None
       | Inl _ \<Rightarrow> w_fs w' dest = w_fs w dest)
    \<and> (\<forall>q. q \<noteq> tmp_name c dest (w_seq w) \<longrightarrow> q \<noteq> dest \<longrightarrow> q \<notin> set (parents dest) \<longrightarrow> w_fs w' q = w_fs w q)"
  using apply_version_facts(1) [OF assms] apply_version_facts(2) [OF assms] apply_version_facts(3) [OF assms]
    apply_version_facts(4) [OF assms]
  by (cases res) auto

text \<open>A share with nothing in it, and a symbolic link to publish there.\<close>

definition example_ctx :: apply_ctx where
  "example_ctx = \<lparr>ax_crates = plain_crates, ax_root = [''r''], ax_pid = 1, ax_now = 0, ax_policy = Skip\<rparr>"

definition example_attr :: attr where
  "example_attr = \<lparr>a_mode = 420, a_uid = 0, a_gid = 0, a_mtime_s = 0, a_mtime_ns = 0, a_xattrs = []\<rparr>"

definition example_world :: "verdict list \<Rightarrow> world" where
  "example_world vs = \<lparr>w_fs = [[''r''] \<mapsto> \<lparr>n_body = BDir, n_attr = example_attr\<rparr>], w_sup = [], w_cas = Map.empty, w_seq = 0,
     w_owner_skips = 0, w_new_attr = example_attr, w_deref = (\<lambda>_. Inl InvalidData), w_verdicts = vs, w_trace = []\<rparr>"

definition example_link :: meta where
  "example_link = \<lparr>m_kind = Symlink, m_mode = 511, m_uid = 0, m_gid = 0, m_mtime_s = 5, m_mtime_ns = 6,
     m_symlink_target = Some [7], m_rdev = 0, m_xattrs = []\<rparr>"

lemma example_dest: "safe_dest (ax_root example_ctx) ''f'' = Inr [''r'', ''f'']"
  by (simp add: safe_dest_eq unsafe_rel_def dest_names_def example_ctx_def)

lemma digit_chars: "char_of (48 :: nat) = CHR ''0''" "char_of (49 :: nat) = CHR ''1''"
  by code_simp+

lemma example_run: "snd (apply_version example_ctx ''f'' 0 (Some [7]) None (Some example_link) (example_world [])) = Inr ()"
  unfolding apply_version_def apply_symlink_def staged_apply_def example_dest publish_def stage_symlink_def
  by (simp add: example_link_def example_ctx_def plain_crates_def example_world_def sys_create_dir_all_def parents_def is_dir_def
      with_ctx_def and_then_def next_stage_def suppress_write_def sys_symlink_def syscall_def next_verdict_def path_error_def
      tmp_name_def TMP_SUFFIX_def set_fs_def apply_meta_opt_def apply_meta_def apply_owner_def note_owner_skip_def
      sys_utimensat_def existing_def on_attr_def sys_rename_def show_nat_def fresh_node_def digit_chars Let_def)

theorem apply_version_atomic_witness:
  "\<exists>n. w_fs (fst (apply_version example_ctx ''f'' 0 (Some [7]) None (Some example_link) (example_world []))) [''r'', ''f''] = Some n
     \<and> n_body n = BLink [7]"
proof -
  obtain w' where run: "apply_version example_ctx ''f'' 0 (Some [7]) None (Some example_link) (example_world []) = (w', Inr ())"
    using example_run by (cases "apply_version example_ctx ''f'' 0 (Some [7]) None (Some example_link) (example_world [])") simp
  have "w_fs (example_world []) (tmp_name example_ctx [''r'', ''f''] (w_seq (example_world []))) = None"
    by (simp add: example_world_def tmp_name_def)
  from apply_version_atomic [OF example_dest this run] run show ?thesis
    by (auto simp: good_version_def good_link_def example_link_def)
qed

text \<open>
  C26. No destination outside the share: a relative path is refused exactly when it is empty
  or absolute, begins with a dot component, or has a parent component anywhere; otherwise
  the destination is the root followed by at least one name, and every name is free of
  slashes and is neither empty nor a dot name.
\<close>

theorem safe_dest_below_root:
  "safe_dest root rel =
     (if rel = [] \<or> take 1 rel = ''/'' \<or> hd (split_slash rel) = ''.'' \<or> ''..'' \<in> set (split_slash rel)
      then Inl (UnsafePath rel) else Inr (root @ dest_names rel))
   \<and> (\<forall>dest. safe_dest root rel = Inr dest \<longrightarrow>
        (\<exists>names. dest = root @ names \<and> names \<noteq> [] \<and> (\<forall>s \<in> set names. plain_name s)))"
  using dest_names_plain [of rel] by (auto simp: safe_dest_eq unsafe_rel_def)

theorem safe_dest_below_root_witness:
  "safe_dest [''r''] ''a/b'' = Inr [''r'', ''a'', ''b''] \<and> safe_dest [''r''] ''a/../b'' = Inl (UnsafePath ''a/../b'')"
  using safe_dest_below_root [of "[''r'']" "''a/b''"] safe_dest_below_root [of "[''r'']" "''a/../b''"]
  by (simp add: dest_names_def)


definition example_file :: "world" where
  "example_file = set_fs [[''f''] \<mapsto> \<lparr>n_body = BFile [1] True, n_attr = example_attr\<lparr>a_xattrs := [([9], [9])]\<rparr>\<rparr>] (example_world [])"

definition setuid_meta :: meta where
  "setuid_meta = \<lparr>m_kind = Regular, m_mode = 2541, m_uid = 7, m_gid = 8, m_mtime_s = 5, m_mtime_ns = 6,
     m_symlink_target = None, m_rdev = 0, m_xattrs = [([2], [1]), ([3], [4])]\<rparr>"


lemma sys_remove_cases:
  assumes "path_error (w_fs w) p = None" "\<forall>v \<in> set (w_verdicts w). v \<noteq> VFail ENOENT"
  obtains (gone) w' where "sys_remove_file p w = (w', Inr ())" "w_fs w' = (w_fs w)(p := None)" "w_sup w' = w_sup w"
  | (missing) w' where "sys_remove_file p w = (w', Inl (OsError ENOENT))" "w_fs w' = w_fs w" "w_fs w p = None" "w_sup w' = w_sup w"
  | (failed) w' e where "sys_remove_file p w = (w', Inl e)" "e \<noteq> OsError ENOENT" "w_fs w' = w_fs w" "w_sup w' = w_sup w"
proof -
  obtain v w1 where v: "next_verdict w = (v, w1)" by fastforce
  then have w1: "w_fs w1 = w_fs w" "w_sup w1 = w_sup w" using next_verdict_frame(1,2) [of w] by auto
  have ne: "v \<noteq> VFail ENOENT" using assms(2) v by (auto simp: next_verdict_def split: list.splits)
  have run: "sys_remove_file p w = (case v of VFail e \<Rightarrow> (w1, Inl (OsError e))
      | _ \<Rightarrow> (case w_fs w p of
                None \<Rightarrow> (w1, Inl (OsError ENOENT))
              | Some n \<Rightarrow> if n_body n = BDir then (w1, Inl (OsError EISDIR)) else (set_fs ((w_fs w)(p := None)) w1, Inr ())))"
    using assms(1) by (auto simp: sys_remove_file_def syscall_def v w1 Let_def split: verdict.splits option.splits)
  show thesis
  proof (cases "\<exists>e. v = VFail e")
    case True
    with run ne w1 show thesis by (auto intro: failed)
  next
    case False
    then have "sys_remove_file p w = (case w_fs w p of None \<Rightarrow> (w1, Inl (OsError ENOENT))
        | Some n \<Rightarrow> if n_body n = BDir then (w1, Inl (OsError EISDIR)) else (set_fs ((w_fs w)(p := None)) w1, Inr ()))"
      using run by (auto split: verdict.splits)
    with w1 show thesis
      by (cases "w_fs w p") (auto simp: set_fs_def intro: missing gone failed split: if_splits)
  qed
qed

lemma sync_dir_frame [simp]: "w_fs (sync_dir p w) = w_fs w" "w_sup (sync_dir p w) = w_sup w"
  by (simp_all add: sync_dir_def Let_def case_prod_unfold)

text \<open>
  Deletes are idempotent and precise.  As long as no call reports a file missing that
  is there, success means the path is gone and no other path changed, failure means the
  tree is as before and something is at the path; deleting a missing file fails only when
  the call itself fails.  Either way the deletion is registered with the suppressor.
\<close>

theorem apply_delete_idempotent:
  assumes "safe_dest (ax_root c) rel = Inr dest" "\<forall>v \<in> set (w_verdicts w). v \<noteq> VFail ENOENT"
    and "path_error (w_fs w) dest = None"
  shows "(case apply_delete c rel w of
      (w', Inr _) \<Rightarrow> w_fs w' = (w_fs w)(dest := None)
    | (w', Inl e) \<Rightarrow> w_fs w' = w_fs w \<and> (\<exists>io. e = Io ''unlink'' dest io \<and> io \<noteq> OsError ENOENT))
   \<and> (w_fs w dest = None \<and> w_verdicts w = [] \<longrightarrow> snd (apply_delete c rel w) = Inr ())
   \<and> bt_get (w_sup (fst (apply_delete c rel w))) rel = Some \<lparr>e_kind = KDelete, e_at = ax_now c\<rparr>"
proof -
  let ?w = "suppress_delete c rel w"
  have w: "w_fs ?w = w_fs w" "w_verdicts ?w = w_verdicts w"
    and sup: "bt_get (w_sup ?w) rel = Some \<lparr>e_kind = KDelete, e_at = ax_now c\<rparr>"
    by (simp_all add: suppress_delete_def register_delete_def bt_get_simps)
  have empty: "w_fs w dest = None \<Longrightarrow> w_verdicts w = [] \<Longrightarrow> snd (sys_remove_file dest ?w) = Inl (OsError ENOENT)"
    using assms(3) w by (simp add: sys_remove_file_def syscall_def next_verdict_def)
  have "path_error (w_fs ?w) dest = None" "\<forall>v \<in> set (w_verdicts ?w). v \<noteq> VFail ENOENT" using assms w by simp_all
  then show ?thesis
    by (cases rule: sys_remove_cases) (use assms(1) w sup empty in \<open>auto simp: apply_delete_def fun_upd_idem\<close>)
qed

theorem apply_delete_idempotent_witness:
  "snd (apply_delete example_ctx ''f'' (example_world [])) = Inr ()"
  using apply_delete_idempotent [OF example_dest, of "example_world []"]
  by (simp add: example_world_def path_error_def parents_def is_dir_def)

end
