(* ===== verification/Node_Laws.thy ===== *)
theory Node_Laws
  imports Node Apply_Laws
begin

text \<open>
  What every step of a running node keeps, whatever other tasks, peers and the disk do:
  the store stays well formed and only gains history, and every chunk in the chunk store
  hashes to its name.  The lemmas compose along the code: one for each way a task acts
  (\<open>on_store\<close>, \<open>ask_store\<close>, \<open>on_disk\<close>, \<open>ask_peer\<close>), one for sequencing.
\<close>

abbreviation nd_db :: "node \<Rightarrow> db" where "nd_db n \<equiv> s_db (nd_store n)"
abbreviation nd_cas :: "node \<Rightarrow> cas" where "nd_cas n \<equiv> w_cas (nd_world n)"

subsection \<open>The chunk store under the apply engine\<close>

definition cas_kept :: "crates \<Rightarrow> world \<Rightarrow> world \<Rightarrow> bool" where
  "cas_kept X w w' \<longleftrightarrow> (cas_ok X (w_cas w) \<longrightarrow> w_cas w' = w_cas w)"

lemma cas_kept_refl [simp]: "w_cas w' = w_cas w \<Longrightarrow> cas_kept X w w'"
  by (simp add: cas_kept_def)

lemma cas_kept_trans: "cas_kept X a b \<Longrightarrow> cas_kept X b c \<Longrightarrow> cas_kept X a c"
  by (auto simp: cas_kept_def)

lemma and_then_cas_kept:
  assumes "cas_kept X w (fst r)" "\<And>x. snd r = Inr x \<Longrightarrow> cas_kept X (fst r) (fst (k x (fst r)))"
  shows "cas_kept X w (fst (and_then r k))"
  using assms cas_kept_trans by (cases r; cases "snd r") (auto simp: and_then_def)

lemma syscall_cas [simp]: "w_cas (fst (syscall p f w)) = w_cas w"
  by (cases rule: syscall_cases [of p f w]) (simp_all add: set_fs_def)

lemma sys_cas [simp]:
  "w_cas (fst (sys_create p w)) = w_cas w" "w_cas (fst (sys_write_all p data w)) = w_cas w"
  "w_cas (fst (sys_sync_all p w)) = w_cas w" "w_cas (fst (sys_chmod p mode w)) = w_cas w"
  "w_cas (fst (sys_lsetxattr p k x w)) = w_cas w" "w_cas (fst (sys_lchown p u g w)) = w_cas w"
  "w_cas (fst (sys_utimensat p s ns w)) = w_cas w" "w_cas (fst (sys_symlink t p w)) = w_cas w"
  "w_cas (fst (sys_mknod p kind mode rdev w)) = w_cas w" "w_cas (fst (sys_remove_file p w)) = w_cas w"
  "w_cas (fst (sys_rename p q w)) = w_cas w" "w_cas (fst (sys_open p w)) = w_cas w" "w_cas (fst (sys_read p w)) = w_cas w"
  "w_cas (sync_dir p w) = w_cas w"
  by (simp_all add: sys_create_def sys_write_all_def sys_sync_all_def sys_chmod_def sys_lsetxattr_def sys_lchown_def
      sys_utimensat_def sys_symlink_def sys_mknod_def sys_remove_file_def sys_rename_def sys_open_def sys_read_def
      sync_dir_def Let_def case_prod_unfold split: option.splits verdict.splits node_body.splits)

lemma mkdirs_cas [simp]: "w_cas (fst (mkdirs qs w)) = w_cas w"
proof (induction qs w rule: mkdirs.induct)
  case (2 q qs w)
  let ?r = "syscall q (\<lambda>v fs. if fs q \<noteq> None then Inl (OsError (if qs = [] then EEXIST else ENOTDIR))
      else Inr (fs(q \<mapsto> fresh_node BDir (w_new_attr w)))) w"
  have "w_cas (fst ?r) = w_cas w" by simp
  with 2 show ?case by (cases ?r; cases "snd ?r") auto
qed simp

lemma create_dir_all_cas [simp]: "w_cas (fst (sys_create_dir_all p w)) = w_cas w"
  by (simp add: sys_create_dir_all_def)

lemma suppress_cas [simp]:
  "w_cas (suppress_write c rel h w) = w_cas w" "w_cas (suppress_delete c rel w) = w_cas w"
  "w_cas (snd (next_stage w)) = w_cas w" "w_cas (note_owner_skip w) = w_cas w"
  by (simp_all add: suppress_write_def suppress_delete_def next_stage_def note_owner_skip_def)

lemma apply_xattrs_cas [simp]: "w_cas (fst (apply_xattrs p xs w)) = w_cas w"
proof (induction p xs w rule: apply_xattrs.induct)
  case (2 p k x xs w)
  have "w_cas (fst (sys_lsetxattr p k x w)) = w_cas w" by simp
  with 2 show ?case by (cases "sys_lsetxattr p k x w"; cases "snd (sys_lsetxattr p k x w)") auto
qed simp

lemma apply_owner_cas [simp]: "w_cas (fst (apply_owner p m policy w)) = w_cas w"
  using sys_cas(6) [of p "m_uid m" "m_gid m" w]
  by (auto simp: apply_owner_def split: owner_policy.splits prod.splits sum.splits simp del: sys_cas)

lemma apply_meta_cas_kept [simp]: "cas_kept X w (fst (apply_meta p m policy w))"
  unfolding apply_meta_def by (auto intro!: and_then_cas_kept)

lemma apply_meta_opt_cas_kept [simp]: "cas_kept X w (fst (apply_meta_opt p mo policy w))"
  unfolding apply_meta_opt_def by (auto intro!: and_then_cas_kept split: option.splits)

lemma verify_cas_kept [simp]: "cas_kept X w (fst (verify_on_disk Y p h rel w))"
  unfolding verify_on_disk_def by (auto intro!: and_then_cas_kept)

lemma assemble_loop_kept: "cas_ok X cas \<Longrightarrow> fst (assemble_loop X ok cas es out pos whole) = cas"
proof (induction X ok cas es out pos whole rule: assemble_loop.induct)
  case (2 X ok cas e es out pos whole)
  have "fst (cas_read X ok cas (ce_hash e)) = cas"
    using 2(3) by (auto simp: cas_read_def cas_ok_def split: option.splits)
  with 2 show ?case by (auto split: prod.splits sum.splits)
qed simp

lemma assemble_kept: "cas_ok X cas \<Longrightarrow> fst (assemble_from_cas X ok m cas) = cas"
  using assemble_loop_kept [of X cas ok "mf_chunks m" "[]" 0 "[]"]
  by (auto simp: assemble_from_cas_def split: prod.splits sum.splits)

lemma stage_chunks_cas_kept [simp]: "cas_kept (ax_crates c) w (fst (stage_chunks c man tmp w))"
proof -
  let ?v = "fst (next_verdict w)" and ?w = "snd (next_verdict w)"
  obtain cas' res where a: "assemble_from_cas (ax_crates c) (\<not> failed ?v) man (w_cas ?w) = (cas', res)" by fastforce
  have "cas_ok (ax_crates c) (w_cas w) \<Longrightarrow> cas' = w_cas w" using assemble_kept [of "ax_crates c" "w_cas ?w" "\<not> failed ?v" man] a by simp
  moreover have "w_cas (fst (stage_chunks c man tmp w)) = cas'"
    using a sys_cas(2) [of tmp _ "?w\<lparr>w_cas := cas'\<rparr>"]
    by (auto simp: stage_chunks_def Let_def case_prod_unfold split: sum.splits simp del: sys_cas)
  ultimately show ?thesis by (simp add: cas_kept_def)
qed

lemma create_special_cas_kept [simp]: "cas_kept X w (fst (create_special p m w))"
proof -
  let ?r = "sys_mknod p (m_kind m) (and (m_mode m) 0xFFF) (if m_kind m = Fifo then 0 else m_rdev m) w"
  have "w_cas (fst ?r) = w_cas w" by simp
  then show ?thesis by (cases ?r; cases "snd ?r") (auto simp: create_special_def cas_kept_def)
qed

lemma stages_cas_kept [simp]:
  "cas_kept X w (fst (stage_write c rel mode h data mo tmp w))"
  "cas_kept (ax_crates c) w (fst (stage_assembled c rel mode h man mo tmp w))"
  "cas_kept X w (fst (stage_symlink c target m tmp w))" "cas_kept X w (fst (stage_special c m tmp w))"
  unfolding stage_write_def stage_assembled_def stage_symlink_def stage_special_def
  by (auto intro!: and_then_cas_kept)

lemma publish_cas_kept: "(\<And>w. cas_kept X w (fst (stage w))) \<Longrightarrow> cas_kept X w (fst (publish stage tmp dest w))"
proof -
  assume st: "\<And>w. cas_kept X w (fst (stage w))"
  let ?r = "and_then (stage w) (\<lambda>_ w. with_ctx ''rename'' dest (sys_rename tmp dest w))"
  have "cas_kept X w (fst ?r)" by (rule and_then_cas_kept) (simp_all add: st)
  then show ?thesis
    by (cases ?r; cases "snd ?r") (auto simp: publish_def cas_kept_def)
qed

lemma staged_apply_cas_kept:
  "(\<And>tmp w. cas_kept X w (fst (stage tmp w))) \<Longrightarrow> cas_kept X w (fst (staged_apply c rel h stage w))"
  unfolding staged_apply_def Let_def
  by (auto intro!: and_then_cas_kept simp: case_prod_unfold split: sum.splits
      intro: cas_kept_trans [OF cas_kept_refl publish_cas_kept])

lemma apply_version_cas_kept: "cas_kept (ax_crates c) w (fst (apply_version c rel mode ho mano mo w))"
  unfolding apply_version_def apply_assembled_def apply_symlink_def apply_special_def
  by (auto intro!: staged_apply_cas_kept split: option.splits file_kind.splits)

lemma apply_rename_cas_kept: "cas_kept X w (fst (apply_rename c old new mode h mo w))"
proof -
  have v: "cas_kept X w (fst (verify_on_disk (ax_crates c) src h old w))" for src by simp
  show ?thesis
  proof (cases "safe_dest (ax_root c) old")
    case (Inr src)
    obtain w1 r where run: "verify_on_disk (ax_crates c) src h old w = (w1, r)" by fastforce
    have k: "cas_kept X w w1" using v [of src] run by simp
    show ?thesis
    proof (cases "safe_dest (ax_root c) new")
      case new: (Inr dest)
      show ?thesis
      proof (cases r)
        case (Inr u)
        have "cas_kept X w1 (fst (apply_rename c old new mode h mo w))"
          by (simp add: apply_rename_def \<open>safe_dest (ax_root c) old = Inr src\<close> new run Inr Let_def)
            (auto intro!: and_then_cas_kept)
        with k show ?thesis by (rule cas_kept_trans)
      qed (simp add: apply_rename_def Inr new run k)
    qed (simp add: apply_rename_def Inr)
  qed (simp add: apply_rename_def)
qed

lemma apply_meta_only_cas_kept: "cas_kept X w (fst (apply_meta_only c rel ho m w))"
  by (auto simp: apply_meta_only_def split: sum.splits
      intro: cas_kept_trans [OF cas_kept_refl apply_meta_opt_cas_kept])

lemma apply_delete_cas_kept: "cas_kept X w (fst (apply_delete c rel w))"
proof (cases "safe_dest (ax_root c) rel")
  case (Inr dest)
  let ?r = "sys_remove_file dest (suppress_delete c rel w)"
  have "w_cas (fst ?r) = w_cas w" by simp
  with Inr show ?thesis by (cases ?r; cases "snd ?r") (auto simp: apply_delete_def cas_kept_def)
qed (simp add: apply_delete_def)

subsection \<open>Steps of a node\<close>

definition log_grows :: "db \<Rightarrow> db \<Rightarrow> bool" where
  "log_grows d d' \<longleftrightarrow> set (t_oplog d) \<subseteq> set (t_oplog d') \<and> set (t_applied d) \<subseteq> set (t_applied d')"

lemma log_grows_refl [simp]: "t_oplog d' = t_oplog d \<Longrightarrow> t_applied d' = t_applied d \<Longrightarrow> log_grows d d'"
  by (simp add: log_grows_def)

lemma log_grows_trans: "log_grows a b \<Longrightarrow> log_grows b c \<Longrightarrow> log_grows a c"
  by (auto simp: log_grows_def)

lemma insert_mark_grows: "log_grows d (insert_op op d)" "log_grows d (mark_applied i d)"
  by (auto simp: log_grows_def insert_op_def mark_applied_def)

definition evolves :: "engine \<Rightarrow> node \<Rightarrow> node \<Rightarrow> bool" where
  "evolves E n n' \<longleftrightarrow>
     (store_ok (e_node E) (nd_store n) \<longrightarrow>
        store_ok (e_node E) (nd_store n') \<and> grows (s_db (nd_store n)) (s_db (nd_store n'))
        \<and> log_grows (s_db (nd_store n)) (s_db (nd_store n')))
     \<and> (cas_ok (e_crates E) (w_cas (nd_world n)) \<longrightarrow> cas_ok (e_crates E) (w_cas (nd_world n')))"

lemma evolves_refl [simp]: "evolves E n n"
  by (simp add: evolves_def)

lemma evolves_trans: "evolves E a b \<Longrightarrow> evolves E b c \<Longrightarrow> evolves E a c"
  by (auto simp: evolves_def intro: grows_trans log_grows_trans)

lemma evolves_time [simp]: "evolves E n (n\<lparr>nd_time := t\<rparr>)" "evolves E (n\<lparr>nd_time := t\<rparr>) m \<longleftrightarrow> evolves E n m"
  by (simp_all add: evolves_def)

lemma append_log_grows:
  "log_grows d (fst (append_local X node c d))" "log_grows d (fst (append_local_rename X node old new d))"
  by (auto simp: append_local_def append_commit_def append_local_rename_def Let_def log_grows_def insert_op_def
      split: op_type.splits option.splits if_splits)

lemma remote_log_grows: "log_grows d (fst (apply_remote op dec d))"
  by (auto simp: apply_remote_cases log_grows_def insert_op_def mark_applied_def)

lemma state_plane_log:
  "t_oplog (fst (reconcile_upsert row d)) = t_oplog d" "t_applied (fst (reconcile_upsert row d)) = t_applied d"
  "t_oplog (fst (resolve_rows X p v staged d)) = t_oplog d" "t_applied (fst (resolve_rows X p v staged d)) = t_applied d"
  by (auto simp: reconcile_upsert_def resolve_rows_def Let_def split: option.splits sum.splits plan_fault.splits)

lemma store_step_log: "log_grows (s_db s) (s_db (fst (store_step X node cmd s)))"
  by (cases cmd)
    (use append_log_grows remote_log_grows state_plane_log in \<open>auto simp: Let_def case_prod_unfold set_meta_def\<close>)

lemma store_turn_evolves:
  "cmd_ok (e_crates E) (e_node E) cmd (s_db (nd_store n)) \<Longrightarrow>
   evolves E n (n\<lparr>nd_store := fst (store_step (e_crates E) (e_node E) cmd (nd_store n))\<rparr>)"
  using store_step_ok [of "e_node E" "nd_store n" "e_crates E" cmd] store_step_log
  by (auto simp: evolves_def)

lemma env_step_evolves: "evolves E n (env_step E ev n)"
proof (cases ev)
  case (StoreTurn cmd)
  then show ?thesis using store_turn_evolves by simp
next
  case (ChunkPut bs)
  then show ?thesis using put_verified_ok by (simp add: evolves_def)
next
  case (ChunkGone h)
  then show ?thesis by (simp add: evolves_def cas_ok_def)
qed (simp add: evolves_def set_fs_def)

lemma env_fold_evolves: "evolves E n (fold (env_step E) evs n)"
  by (induction evs arbitrary: n) (auto intro: evolves_trans env_step_evolves)

lemma await_evolves: "evolves E n (await E n)"
  using env_fold_evolves [of E "n\<lparr>nd_time := nd_time n + 1\<rparr>"] by (simp add: await_def)

text \<open>A call of the store handle that is one turn of the thread.\<close>

lemma on_store_evolves:
  assumes "\<And>s. fst (f s) = fst (store_step (e_crates E) (e_node E) cmd s)"
    and "\<And>d. cmd_ok (e_crates E) (e_node E) cmd d"
  shows "evolves E n (fst (on_store E f n))"
  using evolves_trans [OF await_evolves [of E n] store_turn_evolves [OF assms(2)]] assms(1)
  by (simp add: on_store_def Let_def case_prod_unfold)

lemma ask_store_evolves [simp]: "evolves E n (fst (ask_store E f n))" "snd (ask_store E f n) \<noteq> Inl e"
  by (simp_all add: ask_store_def await_evolves Let_def)

lemma ask_peer_evolves [simp]: "evolves E n (fst (ask_peer E c req n))"
  by (simp add: ask_peer_def await_evolves)

lemma on_disk_evolves:
  assumes "\<And>w. cas_kept (e_crates E) w (fst (f w))"
  shows "evolves E n (fst (on_disk f n))"
  using assms [of "nd_world n"] by (simp add: on_disk_def evolves_def cas_kept_def Let_def case_prod_unfold)

lemma and_then_evolves:
  assumes "evolves E n (fst r)" "\<And>x. snd r = Inr x \<Longrightarrow> evolves E (fst r) (fst (k x (fst r)))"
  shows "evolves E n (fst (and_then r k))"
  using assms evolves_trans by (cases r; cases "snd r") (auto simp: and_then_def)

lemma and_then_run: "snd r = Inr x \<Longrightarrow> and_then r k = k x (fst r)"
  by (cases r) (simp add: and_then_def)

lemma ask_store_run: "and_then (ask_store E f n) k = k (f (nd_store (await E n))) (await E n)"
  by (simp add: ask_store_def and_then_def Let_def)

lemma err_from_simps [simp]:
  "fst (err_from f r) = fst r" "snd (err_from f r) = Inr x \<longleftrightarrow> snd r = Inr x"
  "snd (err_from f r) = Inl e \<longleftrightarrow> (\<exists>e'. snd r = Inl e' \<and> e = f e')"
  by (auto simp: err_from_def split: sum.splits)

end
