(* ===== verification/Log_Laws.thy ===== *)
theory Log_Laws
  imports Store_Laws
begin

text \<open>
  Reading the store: log paging, the join snapshot, manifest storage and the
  migrations \<open>Store::open\<close> runs.
\<close>

subsection \<open>Paging the log\<close>

lemma ops_since_mem:
  "op \<in> set (ops_since d origin c l) \<Longrightarrow> op \<in> set (t_oplog d) \<and> o_origin op = origin \<and> o_origin_seq op > c"
  by (auto simp: ops_since_def dest!: in_set_takeD)

lemma ops_since_sorted: "sorted (map o_origin_seq (ops_since d origin c l))"
  by (simp add: ops_since_def take_map [symmetric] sorted_wrt_take)

lemma take_sorted_rest:
  assumes "sorted (map f xs)" "x \<in> set xs" "x \<notin> set (take n xs)" "y \<in> set (take n xs)"
  shows "f y \<le> f x"
proof -
  have "x \<in> set (drop n xs)" using assms(2,3) by (metis Un_iff append_take_drop_id set_append)
  moreover have "sorted (map f (take n xs) @ map f (drop n xs))"
    using assms(1) by (metis append_take_drop_id map_append)
  ultimately show ?thesis using assms(4) by (auto simp: sorted_append)
qed

lemma ops_since_rest:
  assumes "op \<in> set (t_oplog d)" "o_origin op = origin" "o_origin_seq op > c"
    and "op \<notin> set (ops_since d origin c l)" "b \<in> set (ops_since d origin c l)"
  shows "o_origin_seq b \<le> o_origin_seq op"
  using assms(4,5) unfolding ops_since_def
  by (rule take_sorted_rest [rotated 2]) (use assms(1-3) in auto)

lemma ops_since_empty:
  assumes "ops_since d origin c l = []" "0 < l" "op \<in> set (t_oplog d)" "o_origin op = origin"
  shows "o_origin_seq op \<le> c"
proof (rule ccontr)
  assume "\<not> o_origin_seq op \<le> c"
  then have "op \<in> set (filter (\<lambda>op. o_origin op = origin \<and> o_origin_seq op > c) (t_oplog d))"
    using assms(3,4) by simp
  then have "sort_key o_origin_seq (filter (\<lambda>op. o_origin op = origin \<and> o_origin_seq op > c) (t_oplog d)) \<noteq> []"
    by (metis empty_iff list.set(1) set_sort)
  with assms(1,2) show False by (simp add: ops_since_def)
qed

subsection \<open>The join snapshot\<close>

lemma latest_ge: "op \<in> set (t_oplog d) \<Longrightarrow> o_origin_seq op \<le> latest_origin_seq d (o_origin op)"
proof -
  assume "op \<in> set (t_oplog d)"
  then have "o_origin_seq op \<in> set (seqs_of (o_origin op) (t_oplog d))" by (auto simp: seqs_of_def)
  then show ?thesis by (auto simp: latest_origin_seq_def list_max_set intro: Max_ge)
qed

lemma frontier_mem:
  "(n, s) \<in> set (js_frontier (snapshot_for_join d)) \<longleftrightarrow> n \<in> o_origin ` set (t_oplog d) \<and> s = latest_origin_seq d n"
  by (auto simp: snapshot_for_join_def origins_of_def)

subsection \<open>Manifests\<close>

definition put_chunks :: "hash32 \<Rightarrow> (nat \<times> chunk_entry) list
    \<Rightarrow> (hash32 \<times> i64, chunk_entry) btree \<Rightarrow> (hash32 \<times> i64, chunk_entry) btree" where
  "put_chunks h cs t = foldl (\<lambda>t (idx, c). bt_insert_ignore (h, int idx) c t) t cs"

lemma put_chunks_ok: "bt_ok t \<Longrightarrow> bt_ok (put_chunks h cs t)"
  by (induction cs arbitrary: t) (auto simp: put_chunks_def bt_ok_insert_ignore)

lemma bt_get_put_chunks:
  assumes "distinct (map fst cs)"
  shows "bt_get (put_chunks h cs t) k =
     (case bt_get t k of Some c \<Rightarrow> Some c
      | None \<Rightarrow> if fst k = h \<and> snd k \<ge> 0 then map_of cs (nat (snd k)) else None)"
  using assms
proof (induction cs arbitrary: t)
  case Nil
  then show ?case by (simp add: put_chunks_def split: option.splits)
next
  case (Cons e cs)
  obtain i c where e: "e = (i, c)" by fastforce
  from Cons.prems e have i: "map_of cs i = None" by (simp add: map_of_eq_None_iff)
  have "put_chunks h (e # cs) t = put_chunks h cs (bt_insert_ignore (h, int i) c t)"
    by (simp add: put_chunks_def e)
  with Cons i show ?case
    by (cases k) (auto simp: e bt_get_insert_ignore split: option.splits)
qed

lemma enumerate_table:
  "bt_ok (map (\<lambda>(i, c). ((h, int i), c)) (enumerate n cs))"
  "bt_get (map (\<lambda>(i, c). ((h, int i), c)) (enumerate n cs)) k =
     (if fst k = h \<and> snd k \<ge> 0 then map_of (enumerate n cs) (nat (snd k)) else None)"
proof -
  show "bt_ok (map (\<lambda>(i, c). ((h, int i), c)) (enumerate n cs))"
    by (induction cs arbitrary: n) (auto simp: bt_ok_Cons in_set_enumerate_eq)
  show "bt_get (map (\<lambda>(i, c). ((h, int i), c)) (enumerate n cs)) k =
     (if fst k = h \<and> snd k \<ge> 0 then map_of (enumerate n cs) (nat (snd k)) else None)"
    by (induction cs arbitrary: n; cases k) (auto simp: bt_get_Cons)
qed

lemma distinct_enumerate_keys: "distinct (map fst (enumerate n cs))"
  by simp

lemma chunk_rows_put:
  assumes "bt_ok (t_manifest_chunks d)" "chunk_rows d (mf_content_hash m) = []"
  shows "chunk_rows (put_manifest m d) (mf_content_hash m) = mf_chunks m"
proof -
  let ?h = "mf_content_hash m"
  let ?t' = "put_chunks ?h (enumerate 0 (mf_chunks m)) (t_manifest_chunks d)"
  have none: "bt_get (t_manifest_chunks d) (?h, i) = None" for i
    using assms(2) bt_get_Some_mem [of "t_manifest_chunks d" "(?h, i)"]
    by (cases "bt_get (t_manifest_chunks d) (?h, i)") (auto simp: chunk_rows_def filter_empty_conv)
  have "filter (\<lambda>e. fst (fst e) = ?h) ?t' = map (\<lambda>(i, c). ((?h, int i), c)) (enumerate 0 (mf_chunks m))"
  proof (rule bt_canonical)
    fix k show "bt_get (filter (\<lambda>e. fst (fst e) = ?h) ?t') k =
        bt_get (map (\<lambda>(i, c). ((?h, int i), c)) (enumerate 0 (mf_chunks m))) k"
      using none [of "snd k"]
      by (cases k) (simp add: bt_get_filter [where P = "\<lambda>k. fst k = ?h"] enumerate_table(2)
          bt_get_put_chunks [OF distinct_enumerate_keys])
  qed (simp_all add: bt_ok_filter put_chunks_ok assms(1) enumerate_table(1))
  moreover have "t_manifest_chunks (put_manifest m d) = ?t'"
    by (simp add: put_manifest_def put_chunks_def)
  ultimately show ?thesis by (simp add: chunk_rows_def case_prod_unfold comp_def)
qed

lemma manifest_round_trip:
  assumes "bt_ok (t_manifest_chunks d)" "chunk_rows d (mf_content_hash m) = []"
    and "bt_get (t_manifests d) (mf_content_hash m) = None"
  shows "manifest_for (put_manifest m d) (mf_content_hash m) = Some m"
  using assms(3) chunk_rows_put [OF assms(1,2)]
  by (cases m) (simp add: manifest_for_def put_manifest_def bt_get_insert_ignore)

subsection \<open>Opening a database\<close>

lemma foldl_ignore_keeps:
  "bt_get t k = Some v \<Longrightarrow>
     bt_get (foldl (\<lambda>t e. if P e then bt_insert_ignore (f e) (g e) t else t) t es) k = Some v"
proof (induction es arbitrary: t)
  case (Cons a es)
  then have "bt_get (bt_insert_ignore (f a) (g a) t) k = Some v" by (auto simp: bt_get_insert_ignore)
  with Cons show ?case by simp
qed simp

lemma foldl_ignore_all:
  "e \<in> set es \<Longrightarrow> P e \<Longrightarrow>
     bt_get (foldl (\<lambda>t e. if P e then bt_insert_ignore (f e) (g e) t else t) t es) (f e) \<noteq> None"
proof (induction es arbitrary: t)
  case (Cons a es)
  show ?case
  proof (cases "e = a")
    case True
    obtain v where "bt_get (bt_insert_ignore (f e) (g e) t) (f e) = Some v"
      by (cases "bt_get t (f e)") (auto simp: bt_get_insert_ignore)
    from foldl_ignore_keeps [OF this, of P f g es] True Cons.prems(2) show ?thesis by simp
  next
    case False
    with Cons show ?thesis by simp
  qed
qed simp

lemma foldl_ignore_idle:
  "(\<And>e. e \<in> set es \<Longrightarrow> P e \<Longrightarrow> bt_get t (f e) \<noteq> None) \<Longrightarrow>
     foldl (\<lambda>t e. if P e then bt_insert_ignore (f e) (g e) t else t) t es = t"
proof (induction es)
  case (Cons a es)
  have "P a \<Longrightarrow> bt_insert_ignore (f a) (g a) t = t"
    using Cons.prems [of a] by (auto simp: bt_insert_ignore_def)
  with Cons show ?case by simp
qed simp

lemma backfill_cursors_keeps:
  "bt_get (t_peer_cursors d) k = Some c \<Longrightarrow> bt_get (t_peer_cursors (backfill_cursors node d)) k = Some c"
  unfolding backfill_cursors_def Let_def case_prod_unfold by (simp add: foldl_ignore_keeps)

lemma backfill_cursors_idem: "backfill_cursors node (backfill_cursors node d) = backfill_cursors node d"
proof -
  let ?P = "\<lambda>e :: node_id \<times> peer_row. pr_recv_cursor (snd e) > 0"
  let ?Q = "\<lambda>e :: node_id \<times> peer_row. pr_last_acked_seq (snd e) > 0 \<and> fst e \<noteq> node"
  let ?c = "t_peer_cursors (backfill_cursors node d)"
  have "bt_get ?c (fst e, fst e) \<noteq> None" if e: "e \<in> set (t_peers d)" "?P e" for e
  proof -
    obtain v where "bt_get (foldl (\<lambda>t e. if ?P e then bt_insert_ignore (fst e, fst e)
        \<lparr>cu_recv_cursor = pr_recv_cursor (snd e), cu_last_acked_seq = 0\<rparr> t else t) (t_peer_cursors d) (t_peers d))
        (fst e, fst e) = Some v"
      using foldl_ignore_all [where e = e and es = "t_peers d" and P = ?P and f = "\<lambda>e. (fst e, fst e)"
          and t = "t_peer_cursors d" and g = "\<lambda>e. \<lparr>cu_recv_cursor = pr_recv_cursor (snd e), cu_last_acked_seq = 0\<rparr>", OF e]
      by blast
    then show ?thesis
      unfolding backfill_cursors_def Let_def case_prod_unfold by (simp add: foldl_ignore_keeps)
  qed
  moreover have "bt_get ?c (fst e, node) \<noteq> None" if "e \<in> set (t_peers d)" "?Q e" for e
    unfolding backfill_cursors_def Let_def case_prod_unfold
    using foldl_ignore_all [of e "t_peers d" ?Q "\<lambda>e. (fst e, node)"] that by simp
  moreover have "t_peers (backfill_cursors node d) = t_peers d" by (simp add: backfill_cursors_def Let_def)
  ultimately show ?thesis
    unfolding backfill_cursors_def [of node "backfill_cursors node d"] Let_def case_prod_unfold
    by (simp add: foldl_ignore_idle)
qed

lemma backfill_uuids_idem: "backfill_uuids f (backfill_uuids f d) = backfill_uuids f d"
  by (simp add: backfill_uuids_def case_prod_unfold comp_def)

lemma backfill_commute: "backfill_uuids f (backfill_cursors n d) = backfill_cursors n (backfill_uuids f d)"
  by (simp add: backfill_uuids_def backfill_cursors_def Let_def)

lemma open_store_idem: "open_store X node (s_db (open_store X node d)) = open_store X node d"
  by (simp add: open_store_def Let_def migrate_uuids_def backfill_commute backfill_cursors_idem backfill_uuids_idem)

lemma open_store_uuids:
  "load_row (s_db (open_store X node d)) p =
     map_option (\<lambda>r. r\<lparr>r_uuid := Some (unwrap_or (r_uuid r) (migration_uuid X p))\<rparr>) (load_row d p)"
proof -
  have "bt_get (map (\<lambda>(p, r). (p, if r_uuid r = None then r\<lparr>r_uuid := Some (migration_uuid X p)\<rparr> else r)) t) p =
     map_option (\<lambda>r. r\<lparr>r_uuid := Some (unwrap_or (r_uuid r) (migration_uuid X p))\<rparr>) (bt_get t p)" for t
    by (induction t) (auto simp: bt_get_Cons)
  then show ?thesis
    by (simp add: open_store_def Let_def load_row_def migrate_uuids_def backfill_uuids_def backfill_cursors_def)
qed

subsection \<open>Properties\<close>

lemma seq_unique:
  assumes "distinct (seqs_of origin ops)" "a \<in> set ops" "b \<in> set ops" "o_origin a = origin" "o_origin b = origin"
    and "o_origin_seq a = o_origin_seq b"
  shows "a = b"
proof -
  have "inj_on o_origin_seq (set (filter (\<lambda>op. o_origin op = origin) ops))"
    using assms(1) by (simp add: seqs_of_def distinct_map)
  then show ?thesis by (rule inj_onD) (use assms in auto)
qed

text \<open>
  Paging the log loses nothing: a page holds operations of the origin past the
  cursor, in sequence order, and every such operation that is not in the page is
  strictly past the page's last one, so continuing from there reaches it; an empty
  page means there is none.
\<close>

theorem log_paging_complete:
  assumes "distinct (seqs_of origin (t_oplog d))" "0 < limit"
  shows "sorted (map o_origin_seq (ops_since d origin c limit))
    \<and> (\<forall>op \<in> set (ops_since d origin c limit). op \<in> set (t_oplog d) \<and> o_origin op = origin \<and> c < o_origin_seq op)
    \<and> (\<forall>op \<in> set (t_oplog d). o_origin op = origin \<longrightarrow> c < o_origin_seq op \<longrightarrow>
         op \<in> set (ops_since d origin c limit)
         \<or> (ops_since d origin c limit \<noteq> [] \<and> (\<forall>b \<in> set (ops_since d origin c limit). o_origin_seq b < o_origin_seq op)))"
proof (intro conjI ballI impI)
  show "sorted (map o_origin_seq (ops_since d origin c limit))" by (rule ops_since_sorted)
next
  fix op assume "op \<in> set (ops_since d origin c limit)"
  then show "op \<in> set (t_oplog d)" "o_origin op = origin" "c < o_origin_seq op"
    using ops_since_mem [of op d origin c limit] by auto
next
  fix op assume op: "op \<in> set (t_oplog d)" "o_origin op = origin" "c < o_origin_seq op"
  have ne: "ops_since d origin c limit \<noteq> []" using ops_since_empty [OF _ assms(2) op(1,2)] op(3) by fastforce
  have "o_origin_seq b < o_origin_seq op" if "op \<notin> set (ops_since d origin c limit)" "b \<in> set (ops_since d origin c limit)" for b
  proof -
    have b: "b \<in> set (t_oplog d)" "o_origin b = origin" using ops_since_mem [OF that(2)] by auto
    have "o_origin_seq b \<le> o_origin_seq op" using op that by (rule ops_since_rest)
    moreover have "o_origin_seq b \<noteq> o_origin_seq op"
      using seq_unique [OF assms(1) b(1) op(1) b(2) op(2)] that by auto
    ultimately show ?thesis by simp
  qed
  with ne show "op \<in> set (ops_since d origin c limit)
     \<or> (ops_since d origin c limit \<noteq> [] \<and> (\<forall>b \<in> set (ops_since d origin c limit). o_origin_seq b < o_origin_seq op))"
    by blast
qed

theorem log_paging_complete_witness:
  "sorted (map o_origin_seq (ops_since (empty_db\<lparr>t_oplog := [example_op [2] 2 ''f'' [7] [], example_op [2] 1 ''f'' [8] []]\<rparr>) [2] 0 1))"
  using log_paging_complete [of "[2]" "empty_db\<lparr>t_oplog := [example_op [2] 2 ''f'' [7] [], example_op [2] 1 ''f'' [8] []]\<rparr>" 1 0]
  by (simp add: seqs_of_def example_op_def)

text \<open>
  The join snapshot: the frontier has one entry per origin in the log, every logged
  operation is at or below it, and the rows are the whole index, so a joiner that takes
  the rows and resumes after the frontier misses nothing; the node's own next operation
  is past the frontier.
\<close>

theorem snapshot_frontier_covers:
  "(\<forall>op \<in> set (t_oplog d). \<exists>s. (o_origin op, s) \<in> set (js_frontier (snapshot_for_join d)) \<and> o_origin_seq op \<le> s)
   \<and> distinct (map fst (js_frontier (snapshot_for_join d)))
   \<and> (bt_ok (t_files d) \<longrightarrow> set (js_rows (snapshot_for_join d)) = {r. \<exists>p. load_row d p = Some r})
   \<and> (\<forall>op s. own_op X node op d \<longrightarrow> is_i64 (latest_origin_seq d node + 1) \<longrightarrow>
        (node, s) \<in> set (js_frontier (snapshot_for_join d)) \<longrightarrow> s < o_origin_seq op)"
proof (intro conjI)
  show "\<forall>op \<in> set (t_oplog d). \<exists>s. (o_origin op, s) \<in> set (js_frontier (snapshot_for_join d)) \<and> o_origin_seq op \<le> s"
    using latest_ge by (auto simp: frontier_mem)
  show "distinct (map fst (js_frontier (snapshot_for_join d)))"
    by (simp add: snapshot_for_join_def origins_of_def comp_def)
  show "bt_ok (t_files d) \<longrightarrow> set (js_rows (snapshot_for_join d)) = {r. \<exists>p. load_row d p = Some r}"
    by (auto simp: snapshot_for_join_def all_files_def bt_values_mem load_row_def)
  show "\<forall>op s. own_op X node op d \<longrightarrow> is_i64 (latest_origin_seq d node + 1) \<longrightarrow>
        (node, s) \<in> set (js_frontier (snapshot_for_join d)) \<longrightarrow> s < o_origin_seq op"
    by (auto simp: frontier_mem own_op_def i64_add_id)
qed

theorem snapshot_frontier_covers_witness:
  "\<exists>s. ([2], s) \<in> set (js_frontier (snapshot_for_join (empty_db\<lparr>t_oplog := [example_op [2] 5 ''f'' [7] []]\<rparr>))) \<and> 5 \<le> s"
  using snapshot_frontier_covers [of "empty_db\<lparr>t_oplog := [example_op [2] 5 ''f'' [7] []]\<rparr>"]
  by (simp add: example_op_def)

text \<open>
  A manifest that was stored is read back exactly, chunk order included.
\<close>

theorem manifest_put_get:
  assumes "bt_ok (t_manifest_chunks d)" "chunk_rows d (mf_content_hash m) = []"
    and "bt_get (t_manifests d) (mf_content_hash m) = None"
  shows "manifest_for (put_manifest m d) (mf_content_hash m) = Some m"
  using assms by (rule manifest_round_trip)

theorem manifest_put_get_witness:
  "manifest_for (put_manifest \<lparr>mf_content_hash = [9], mf_chunks = [\<lparr>ce_hash = [2], ce_len = 3\<rparr>, \<lparr>ce_hash = [1], ce_len = 4\<rparr>]\<rparr> empty_db) [9] =
   Some \<lparr>mf_content_hash = [9], mf_chunks = [\<lparr>ce_hash = [2], ce_len = 3\<rparr>, \<lparr>ce_hash = [1], ce_len = 4\<rparr>]\<rparr>"
  using manifest_put_get [of empty_db "\<lparr>mf_content_hash = [9], mf_chunks = [\<lparr>ce_hash = [2], ce_len = 3\<rparr>, \<lparr>ce_hash = [1], ce_len = 4\<rparr>]\<rparr>"]
  by (simp add: chunk_rows_def)

text \<open>
  Opening a database is idempotent, gives every row without an identity the one that
  is a function of its path alone, keeps every other identity, and never moves a cursor
  that is already there.
\<close>

theorem open_store_migrates_once:
  "open_store X node (s_db (open_store X node d)) = open_store X node d
   \<and> load_row (s_db (open_store X node d)) p =
       map_option (\<lambda>r. r\<lparr>r_uuid := Some (unwrap_or (r_uuid r) (migration_uuid X p))\<rparr>) (load_row d p)
   \<and> (\<forall>k c. bt_get (t_peer_cursors d) k = Some c \<longrightarrow> bt_get (t_peer_cursors (s_db (open_store X node d))) k = Some c)"
  using open_store_idem open_store_uuids backfill_cursors_keeps [of "migrate_uuids X d" _ _ node]
  by (simp add: open_store_def Let_def migrate_uuids_def backfill_uuids_def)

theorem open_store_migrates_once_witness:
  "load_row (s_db (open_store plain_crates [1] (example_db ''f'' [7] [([2], 1)]))) ''f'' =
     Some \<lparr>r_path = ''f'', r_content_hash = Some [7], r_mode = 420, r_size = 1, r_tombstone = False,
           r_vv = [([2], 1)], r_uuid = Some (migration_uuid plain_crates ''f''), r_meta = None\<rparr>"
  using open_store_migrates_once [of plain_crates "[1]" "example_db ''f'' [7] [([2], 1)]" "''f''"]
  by (simp add: example_db_def)

text \<open>
  Cursors only move forward: advancing sets the addressed cursor to the larger of its
  old value and the given one and touches no other cursor, for received and for
  acknowledged positions alike.
\<close>

theorem cursors_are_monotonic:
  "cursor_value cu_recv_cursor p q (advance_recv_cursor a b n d) =
     (if (p, q) = (a, b) then max (cursor_value cu_recv_cursor a b d) n else cursor_value cu_recv_cursor p q d)
   \<and> cursor_value cu_last_acked_seq p q (advance_recv_cursor a b n d) = cursor_value cu_last_acked_seq p q d
   \<and> cursor_value cu_last_acked_seq p q (advance_ack a b n d) =
     (if (p, q) = (a, b) then max (cursor_value cu_last_acked_seq a b d) n else cursor_value cu_last_acked_seq p q d)
   \<and> cursor_value cu_recv_cursor p q (advance_ack a b n d) = cursor_value cu_recv_cursor p q d"
  by (simp only: cursor_recv_value cursor_ack_value simp_thms)

end
