(* ===== verification/Fetch_Laws.thy ===== *)
theory Fetch_Laws
  imports Fetch Node_Laws Log_Laws
begin

text \<open>
  What fetching guarantees against arbitrary peers, and what one honest peer is enough for.
\<close>

subsection \<open>Manifests from any peer\<close>

definition entry_lens :: "chunk_entry list \<Rightarrow> nat" where
  "entry_lens cs = sum_list (map (unat \<circ> ce_len) cs)"

definition entries_in_bounds :: "fetch_limits \<Rightarrow> chunk_entry list \<Rightarrow> bool" where
  "entries_in_bounds limits cs \<longleftrightarrow> (\<forall>c \<in> set cs. 0 < ce_len c \<and> ce_len c \<le> fl_max_chunk_bytes limits)"

lemma entry_lens_simps [simp]:
  "entry_lens [] = 0" "entry_lens (c # cs) = unat (ce_len c) + entry_lens cs" "entry_lens (xs @ ys) = entry_lens xs + entry_lens ys"
  by (simp_all add: entry_lens_def)

lemma entry_lens_take: "entry_lens (take k cs) \<le> entry_lens cs"
  using entry_lens_simps(3) [of "take k cs" "drop k cs"] by simp

lemma charge_chunks_ok:
  "charge_chunks limits cs r = Inr r' \<Longrightarrow> entries_in_bounds limits cs \<and> r' = r + entry_lens cs"
proof (induction cs arbitrary: r)
  case (Cons c cs)
  from Cons.IH [of "r + unat (ce_len c)"] Cons.prems show ?case
    by (auto simp: entries_in_bounds_def word_neq_0_conv split: if_splits)
qed (simp add: entries_in_bounds_def)

lemma charge_chunks_honest:
  assumes "entries_in_bounds limits cs" "r + entry_lens cs \<le> unat (fl_max_file_bytes limits)"
  shows "charge_chunks limits cs r = Inr (r + entry_lens cs)"
  using assms by (induction cs arbitrary: r) (auto simp: entries_in_bounds_def)

lemma check_page_ok:
  assumes "check_page limits h resp chunks r = Inr (stop, chunks', r')" "r = entry_lens chunks"
    "r \<le> unat (fl_max_file_bytes limits)" "entries_in_bounds limits chunks"
  shows "r' = entry_lens chunks' \<and> r' \<le> unat (fl_max_file_bytes limits) \<and> entries_in_bounds limits chunks'"
  using assms charge_chunks_ok [of limits "ma_chunks resp" r] charge_chunks_grows [of limits "ma_chunks resp" r]
  by (cases "ma_chunks resp = []") (auto simp: check_page_def Let_def entries_in_bounds_def split: if_splits sum.splits)

abbreviation page_req :: "hash32 \<Rightarrow> chunk_entry list \<Rightarrow> wire_request" where
  "page_req h chunks \<equiv> AskManifest \<lparr>mq_content_hash = h, mq_offset = word_of_nat (length chunks), mq_count = word_of_nat MANIFEST_PAGE\<rparr>"

text \<open>Induction over the pages of one transfer.\<close>

lemma manifest_pages_rule:
  assumes "\<And>chunks r n. (\<And>n1 resp chunks' r'. ask_peer E c (page_req h chunks) n = (n1, ManifestReply resp) \<Longrightarrow> ma_found resp \<Longrightarrow>
      check_page limits h resp chunks r = Inr (False, chunks', r') \<Longrightarrow> P chunks' r' n1) \<Longrightarrow> P chunks r n"
  shows "P chunks r n"
proof (induction "unat (fl_max_file_bytes limits) - r" arbitrary: chunks r n rule: less_induct)
  case less
  show ?case
  proof (rule assms)
    fix n1 resp chunks' r'
    assume "check_page limits h resp chunks r = Inr (False, chunks', r')"
    then have "r < r' \<and> r' \<le> unat (fl_max_file_bytes limits)" by (rule check_page_progress)
    then show "P chunks' r' n1" by (intro less) auto
  qed
qed

lemma manifest_pages_cases:
  assumes "ask_peer E c (page_req h chunks) n = (n1, reply)"
  obtains (dead) "manifest_pages E c h limits chunks r n = (n1, Inl NoUsablePeer)"
  | (unknown) resp where "reply = ManifestReply resp" "\<not> ma_found resp" "manifest_pages E c h limits chunks r n = (n1, Inr None)"
  | (bad) resp e where "reply = ManifestReply resp" "ma_found resp" "check_page limits h resp chunks r = Inl e"
      "manifest_pages E c h limits chunks r n = (n1, Inl e)"
  | (whole) resp chunks' r' where "reply = ManifestReply resp" "ma_found resp" "check_page limits h resp chunks r = Inr (True, chunks', r')"
      "manifest_pages E c h limits chunks r n = (n1, Inr (Some \<lparr>mf_content_hash = h, mf_chunks = chunks'\<rparr>))"
  | (partial) resp chunks' r' where "reply = ManifestReply resp" "ma_found resp"
      "check_page limits h resp chunks r = Inr (False, chunks', r')"
      "manifest_pages E c h limits chunks r n = manifest_pages E c h limits chunks' r' n1"
proof -
  note run = manifest_pages.simps [of E c h limits chunks r n]
  show thesis
  proof (cases reply)
    case (ManifestReply resp)
    show thesis
    proof (cases "ma_found resp")
      case True
      show thesis
      proof (cases "check_page limits h resp chunks r")
        case (Inl e)
        with bad [OF ManifestReply True Inl] show thesis by (simp add: run assms ManifestReply True)
      next
        case (Inr b)
        then obtain stop chunks' r' where page: "check_page limits h resp chunks r = Inr (stop, chunks', r')" by (cases b) auto
        show thesis
          by (cases stop) (use page in \<open>auto simp: run assms ManifestReply True intro: whole [OF ManifestReply True] partial [OF ManifestReply True]\<close>)
      qed
    qed (use unknown [OF ManifestReply] in \<open>simp add: run assms ManifestReply\<close>)
  qed (use dead in \<open>simp_all add: run assms\<close>)
qed

lemma manifest_pages_bounded:
  "manifest_pages E c h limits chunks r n = (n', Inr (Some m)) \<Longrightarrow> r = entry_lens chunks \<Longrightarrow>
   r \<le> unat (fl_max_file_bytes limits) \<Longrightarrow> entries_in_bounds limits chunks \<Longrightarrow>
   mf_content_hash m = h \<and> entries_in_bounds limits (mf_chunks m) \<and> entry_lens (mf_chunks m) \<le> unat (fl_max_file_bytes limits)"
proof (induction chunks r n rule: manifest_pages_rule [of E c h limits])
  case (1 chunks r n)
  obtain n1 reply where ask: "ask_peer E c (page_req h chunks) n = (n1, reply)" by fastforce
  note ok = check_page_ok [OF _ 1(3,4,5)]
  show ?case
  proof (rule manifest_pages_cases [OF ask, of limits r])
    fix resp chunks' r'
    assume a: "reply = ManifestReply resp" "ma_found resp" "check_page limits h resp chunks r = Inr (False, chunks', r')"
      and run: "manifest_pages E c h limits chunks r n = manifest_pages E c h limits chunks' r' n1"
    have "manifest_pages E c h limits chunks' r' n1 = (n', Inr (Some m))" using run 1(2) by simp
    with 1(1) [OF ask [unfolded a(1)] a(2,3)] ok [OF a(3)] show ?thesis by blast
  next
    fix resp chunks' r'
    assume "check_page limits h resp chunks r = Inr (True, chunks', r')"
      "manifest_pages E c h limits chunks r n = (n1, Inr (Some \<lparr>mf_content_hash = h, mf_chunks = chunks'\<rparr>))"
    with 1(2) ok show ?thesis by auto
  qed (use 1(2) in simp_all)
qed

lemma env_fold_time [simp]: "nd_time (fold (env_step E) evs n) = nd_time n"
proof (induction evs arbitrary: n)
  case (Cons ev evs)
  have "nd_time (env_step E ev n) = nd_time n" by (cases ev) simp_all
  with Cons show ?case by simp
qed simp

lemma await_time [simp]: "nd_time (await E n) = nd_time n + 1"
  by (simp add: await_def)

text \<open>The number of requests one peer can make us send.\<close>

lemma manifest_pages_requests:
  "r \<le> unat (fl_max_file_bytes limits) \<Longrightarrow>
   nd_time (fst (manifest_pages E c h limits chunks r n)) \<le> nd_time n + (unat (fl_max_file_bytes limits) - r) + 1"
proof (induction chunks r n rule: manifest_pages_rule [of E c h limits])
  case (1 chunks r n)
  obtain n1 reply where ask: "ask_peer E c (page_req h chunks) n = (n1, reply)" by fastforce
  then have n1: "nd_time n1 = nd_time n + 1" by (auto simp: ask_peer_def)
  show ?case
  proof (rule manifest_pages_cases [OF ask, of limits r])
    fix resp chunks' r'
    assume a: "reply = ManifestReply resp" "ma_found resp" "check_page limits h resp chunks r = Inr (False, chunks', r')"
      and run: "manifest_pages E c h limits chunks r n = manifest_pages E c h limits chunks' r' n1"
    from check_page_progress [OF a(3)] 1(1) [OF ask [unfolded a(1)] a(2,3)] n1 run show ?thesis by simp linarith
  qed (use n1 in simp_all)
qed

subsection \<open>An honest peer\<close>

text \<open>A manifest within the limits, as chunking makes them: no chunk but the last is below the floor of 4096 bytes.\<close>

definition honest_manifest :: "fetch_limits \<Rightarrow> manifest \<Rightarrow> bool" where
  "honest_manifest limits m \<longleftrightarrow> entries_in_bounds limits (mf_chunks m)
     \<and> entry_lens (mf_chunks m) \<le> unat (fl_max_file_bytes limits)
     \<and> (\<forall>c \<in> set (butlast (mf_chunks m)). 4096 \<le> unat (ce_len c)) \<and> length (mf_chunks m) < 2 ^ 32"

lemma entry_lens_floor: "\<forall>c \<in> set cs. 4096 \<le> unat (ce_len c) \<Longrightarrow> 4096 * length cs \<le> entry_lens cs"
  by (induction cs) auto

lemma honest_count:
  assumes "honest_manifest limits m"
  shows "length (mf_chunks m) \<le> unat (max_manifest_chunks limits)"
proof -
  let ?cs = "mf_chunks m"
  have "4096 * (length ?cs - 1) \<le> entry_lens (butlast ?cs)"
    using entry_lens_floor [of "butlast ?cs"] assms by (simp add: honest_manifest_def)
  also have "entry_lens (butlast ?cs) \<le> entry_lens ?cs"
    by (cases ?cs rule: rev_cases) simp_all
  finally have "4096 * (length ?cs - 1) \<le> unat (fl_max_file_bytes limits)"
    using assms by (simp add: honest_manifest_def)
  then have "length ?cs - 1 \<le> unat (fl_max_file_bytes limits) div 4096" by linarith
  moreover have "unat (max_manifest_chunks limits) = unat (fl_max_file_bytes limits) div 4096 + 2"
  proof -
    have "unat (fl_max_file_bytes limits) < 18446744073709551616"
      using unsigned_less [of "fl_max_file_bytes limits"] by simp
    then have "unat (fl_max_file_bytes limits) div 4096 + 2 < 18446744073709551616" by linarith
    then show ?thesis by (simp add: max_manifest_chunks_def unat_word_ariths unat_div)
  qed
  ultimately show ?thesis by linarith
qed

lemma unat_of_len: "k < 2 ^ 32 \<Longrightarrow> unat (word_of_nat k :: u32) = k"
  by (simp add: unat_of_nat)

lemma serve_manifest_page:
  assumes "length cs < 2 ^ 32" "k \<le> length cs" "mf_chunks m = cs"
  shows "serve_manifest (Some m) \<lparr>mq_content_hash = h, mq_offset = word_of_nat k, mq_count = word_of_nat MANIFEST_PAGE\<rparr> =
    \<lparr>ma_found = True, ma_content_hash = h, ma_total = word_of_nat (length cs), ma_chunks = take 4096 (drop k cs)\<rparr>"
proof -
  have "unat (word_of_nat k :: u32) = k" using assms by (simp add: unat_of_len)
  moreover have "take (min 4096 (length cs - k)) (drop k cs) = take 4096 (drop k cs)" by (simp add: min_def)
  ultimately show ?thesis using assms by (simp add: serve_manifest_def Let_def MANIFEST_PAGE_def min_def)
qed

lemma check_page_honest:
  assumes "honest_manifest limits m" "k \<le> length (mf_chunks m)" "cs = mf_chunks m"
  shows "check_page limits h \<lparr>ma_found = True, ma_content_hash = h, ma_total = word_of_nat (length cs), ma_chunks = take 4096 (drop k cs)\<rparr>
      (take k cs) (entry_lens (take k cs)) =
    Inr (length cs \<le> k + 4096, take (k + 4096) cs, entry_lens (take (k + 4096) cs))"
proof -
  let ?page = "take 4096 (drop k cs)"
  have len: "length cs < 2 ^ 32" using assms by (simp add: honest_manifest_def)
  have split: "take (k + 4096) cs = take k cs @ ?page" by (simp add: take_add)
  have total: "unat (word_of_nat (length cs) :: u32) = length cs" using len by (simp add: unat_of_len)
  have cap: "\<not> max_manifest_chunks limits < (ucast (word_of_nat (length cs) :: u32) :: u64)"
  proof -
    have "unat (ucast (word_of_nat (length cs) :: u32) :: u64) = length cs"
      unfolding unsigned_ucast_eq total using len by (simp add: take_bit_nat_eq_self)
    then show ?thesis using honest_count [OF assms(1)] assms(3) by (simp add: word_less_nat_alt not_less)
  qed
  have pg: "\<not> (word_of_nat (length ?page) :: u32) > word_of_nat MANIFEST_PAGE"
    by (simp add: word_less_nat_alt unat_of_len MANIFEST_PAGE_def)
  have "entry_lens (take k cs) + entry_lens ?page \<le> entry_lens cs"
    using entry_lens_take [of "k + 4096" cs] split by simp
  then have charge: "charge_chunks limits ?page (entry_lens (take k cs)) = Inr (entry_lens (take k cs) + entry_lens ?page)"
    using assms by (intro charge_chunks_honest)
      (auto simp: honest_manifest_def entries_in_bounds_def dest!: in_set_takeD in_set_dropD)
  have have_len: "unat (word_of_nat (length (take k cs @ ?page)) :: u32) = min (k + 4096) (length cs)"
    using len assms by (subst unat_of_len) auto
  have "(word_of_nat (length (take k cs @ ?page)) :: u32) = word_of_nat (length cs) \<longleftrightarrow> length cs \<le> k + 4096"
    by (metis have_len total min.absorb_iff2 min.commute word_unat_eq_iff)
  moreover have "\<not> (word_of_nat (length (take k cs @ ?page)) :: u32) > word_of_nat (length cs)"
    by (simp only: word_less_nat_alt have_len total)
  moreover have "?page = [] \<Longrightarrow> length cs \<le> k + 4096" by simp
  ultimately show ?thesis
    unfolding check_page_def using cap pg charge split by (auto simp: Let_def simp del: length_append)
qed

lemma manifest_pages_honest:
  assumes honest: "honest_manifest limits m" "mf_content_hash m = h"
    and peer: "\<And>t req. mq_content_hash req = h \<Longrightarrow> e_peers E t c (AskManifest req) = ManifestReply (serve_manifest (Some m) req)"
  shows "chunks = take k (mf_chunks m) \<Longrightarrow> k \<le> length (mf_chunks m) \<Longrightarrow> r = entry_lens chunks \<Longrightarrow>
    snd (manifest_pages E c h limits chunks r n) = Inr (Some m)"
proof (induction chunks r n arbitrary: k rule: manifest_pages_rule [of E c h limits])
  case (1 chunks r n)
  let ?cs = "mf_chunks m"
  have len: "length ?cs < 2 ^ 32" using honest by (simp add: honest_manifest_def)
  have k: "length chunks = k" using 1 by simp
  have ask: "ask_peer E c (page_req h chunks) n = (await E n, ManifestReply (\<lparr>ma_found = True, ma_content_hash = h,
      ma_total = word_of_nat (length ?cs), ma_chunks = take 4096 (drop k ?cs)\<rparr>))"
    using peer serve_manifest_page [OF len 1(3) refl] by (simp add: ask_peer_def k)
  note page = check_page_honest [OF honest(1) 1(3) refl, of h]
  show ?case
  proof (cases "length ?cs \<le> k + 4096")
    case True
    have "snd (manifest_pages E c h limits chunks r n) = Inr (Some \<lparr>mf_content_hash = h, mf_chunks = ?cs\<rparr>)"
      unfolding manifest_pages.simps [of E c h limits chunks r n] ask using page True by (simp add: 1(2,4))
    then show ?thesis using honest(2) by simp
  next
    case False
    then have "manifest_pages E c h limits chunks r n =
        manifest_pages E c h limits (take (k + 4096) ?cs) (entry_lens (take (k + 4096) ?cs)) (await E n)"
      unfolding manifest_pages.simps [of E c h limits chunks r n] ask using page by (simp add: 1(2,4))
    with 1(1) [OF ask, of "take (k + 4096) ?cs" "entry_lens (take (k + 4096) ?cs)" "k + 4096"] page 1 False show ?thesis by simp
  qed
qed

subsection \<open>Chunks\<close>

text \<open>Nothing else removes chunks while a transfer runs.\<close>

definition keeps_chunks :: "engine \<Rightarrow> bool" where
  "keeps_chunks E \<longleftrightarrow> (\<forall>t h. ChunkGone h \<notin> set (e_env E t))"

lemma env_fold_cas:
  "\<forall>h. ChunkGone h \<notin> set evs \<Longrightarrow> nd_cas n \<subseteq>\<^sub>m nd_cas (fold (env_step E) evs n)"
proof (induction evs arbitrary: n)
  case (Cons ev evs)
  have "nd_cas n \<subseteq>\<^sub>m nd_cas (env_step E ev n)"
    using Cons.prems by (cases ev) (auto simp: map_le_def put_verified_keeps set_fs_def)
  also have "\<dots> \<subseteq>\<^sub>m nd_cas (fold (env_step E) evs (env_step E ev n))" using Cons by simp
  finally show ?case by simp
qed simp

lemma cas_has_mono: "a \<subseteq>\<^sub>m b \<Longrightarrow> cas_has a h \<Longrightarrow> cas_has b h"
  by (force simp: map_le_def cas_has_def)

lemma await_cas: "keeps_chunks E \<Longrightarrow> nd_cas n \<subseteq>\<^sub>m nd_cas (await E n)"
  using env_fold_cas [of "e_env E (nd_time n)" "n\<lparr>nd_time := nd_time n + 1\<rparr>" E]
  by (simp add: await_def keeps_chunks_def)

lemma ask_peer_cas: "keeps_chunks E \<Longrightarrow> nd_cas n \<subseteq>\<^sub>m nd_cas (fst (ask_peer E c req n))"
  by (simp add: ask_peer_def await_cas)

lemma chunk_from_peer_fst [simp]: "fst (chunk_from_peer E c entry n) = await E n"
  by (simp add: chunk_from_peer_def ask_peer_def Let_def)

lemma chunk_from_peer_verified:
  "snd (chunk_from_peer E c entry n) = Inr (Some bs) \<Longrightarrow> blake3 (e_crates E) bs = ce_hash entry \<and> length bs = unat (ce_len entry)"
  by (auto simp: chunk_from_peer_def Let_def split: prod.splits wire_reply.splits if_splits)

lemma cas_put_task_cas: "nd_cas n \<subseteq>\<^sub>m nd_cas (fst (cas_put_task E h bs n))"
  using put_verified_keeps
  by (auto simp: cas_put_task_def on_disk_def Let_def case_prod_unfold map_le_def)

lemma cas_put_task_Inr:
  "snd (cas_put_task E h bs n) = Inr u \<Longrightarrow> cas_has (nd_cas (fst (cas_put_task E h bs n))) h"
  using put_verified_Inr
  by (auto simp: cas_put_task_def on_disk_def Let_def case_prod_unfold) (metis prod.collapse)

lemma chunk_from_any_cas:
  assumes "keeps_chunks E"
  shows "nd_cas n \<subseteq>\<^sub>m nd_cas (fst (chunk_from_any E entry cands nf n))
    \<and> (snd (chunk_from_any E entry cands nf n) = Inr u \<longrightarrow> cas_has (nd_cas (fst (chunk_from_any E entry cands nf n))) (ce_hash entry))"
proof (induction cands arbitrary: nf n)
  case (Cons pc cands)
  obtain p c where pc: "pc = (p, c)" by (cases pc)
  obtain r where run: "chunk_from_peer E c entry n = (await E n, r)"
    using chunk_from_peer_fst [of E c entry n] by (metis prod.collapse)
  have le: "nd_cas n \<subseteq>\<^sub>m nd_cas (await E n)" using assms by (rule await_cas)
  show ?case
  proof (cases "\<exists>bs. r = Inr (Some bs)")
    case True
    then obtain bs where "r = Inr (Some bs)" by blast
    with run pc show ?thesis
      using map_le_trans [OF le cas_put_task_cas [of "await E n" E "ce_hash entry" bs]]
        cas_put_task_Inr [of E "ce_hash entry" bs "await E n"] by simp
  next
    case False
    with run pc have "\<exists>b. chunk_from_any E entry (pc # cands) nf n = chunk_from_any E entry cands b (await E n)"
      by (auto split: sum.splits option.splits)
    with Cons map_le_trans [OF le] show ?thesis by metis
  qed
qed simp

lemma fetch_one_cas:
  assumes "keeps_chunks E"
  shows "nd_cas n \<subseteq>\<^sub>m nd_cas (fst (fetch_one_chunk E origin limits entry n))
    \<and> (snd (fetch_one_chunk E origin limits entry n) = Inr u \<longrightarrow>
        cas_has (nd_cas (fst (fetch_one_chunk E origin limits entry n))) (ce_hash entry))"
  using chunk_from_any_cas [OF assms] by (auto simp: fetch_one_chunk_def Let_def)

lemma join_error_None: "join_error e r = None \<longleftrightarrow> e = None \<and> (\<exists>u. r = Inr u)"
  by (auto simp: join_error_def split: sum.splits option.splits)

lemma run_tasks_cas:
  assumes "keeps_chunks E"
  shows "nd_cas n \<subseteq>\<^sub>m nd_cas (fst (run_tasks E origin limits es err n))
    \<and> (snd (run_tasks E origin limits es err n) = None \<longrightarrow>
        err = None \<and> (\<forall>c \<in> set es. cas_has (nd_cas (fst (run_tasks E origin limits es err n))) (ce_hash c)))"
proof (induction es arbitrary: err n)
  case (Cons c es)
  obtain n1 r where one: "fetch_one_chunk E origin limits c n = (n1, r)" by fastforce
  note here = fetch_one_cas [OF assms, of n origin limits c] and rest = Cons [of n1 "join_error err r"]
  have "cas_has (nd_cas n1) (ce_hash c) \<Longrightarrow> cas_has (nd_cas (fst (run_tasks E origin limits es (join_error err r) n1))) (ce_hash c)"
    using rest cas_has_mono by blast
  with here rest one show ?case
    by (auto simp: join_error_None intro: map_le_trans)
qed simp

lemma missing_chunks_set:
  "c \<in> set cs \<Longrightarrow> ce_hash c \<in> seen \<or> cas_has cas (ce_hash c) \<or> (\<exists>c' \<in> set (missing_chunks cas seen cs). ce_hash c' = ce_hash c)"
  by (induction cas seen cs rule: missing_chunks.induct) auto

lemma missing_chunks_sub:
  "set (missing_chunks cas seen cs) \<subseteq> {c \<in> set cs. \<not> cas_has cas (ce_hash c)}"
  by (induction cs arbitrary: seen) auto

lemma missing_chunks_unseen: "c \<in> set (missing_chunks cas seen cs) \<Longrightarrow> ce_hash c \<notin> seen"
  by (induction cas seen cs rule: missing_chunks.induct) (auto split: if_splits)

lemma missing_chunks_distinct: "distinct (map ce_hash (missing_chunks cas seen cs))"
  by (induction cas seen cs rule: missing_chunks.induct) (auto dest: missing_chunks_unseen)

subsection \<open>Progress\<close>

text \<open>A live peer that serves the chunk from a chunk store of verified contents.\<close>

definition honest_holder :: "engine \<Rightarrow> node_id \<Rightarrow> chunk_entry \<Rightarrow> bool" where
  "honest_holder E origin entry \<longleftrightarrow>
     (\<exists>c cas bs. (\<forall>t. \<exists>p. (p, c) \<in> set (candidates (e_iter E) (e_registry E t) origin))
        \<and> cas_ok (e_crates E) cas \<and> cas (ce_hash entry) = Some bs \<and> length bs = unat (ce_len entry)
        \<and> (\<forall>t. e_peers E t c (AskChunk (ce_hash entry)) =
              (case serve_chunk (e_chunk_max_bytes E) cas (ce_hash entry) of (resp, stream) \<Rightarrow> ChunkReply resp stream)))"

lemma env_fold_verdicts [simp]: "w_verdicts (nd_world (fold (env_step E) evs n)) = w_verdicts (nd_world n)"
proof (induction evs arbitrary: n)
  case (Cons ev evs)
  have "w_verdicts (nd_world (env_step E ev n)) = w_verdicts (nd_world n)" by (cases ev) (simp_all add: set_fs_def)
  with Cons show ?case by simp
qed simp

lemma await_verdicts [simp]: "w_verdicts (nd_world (await E n)) = w_verdicts (nd_world n)"
  by (simp add: await_def)

lemma cas_put_task_ok:
  "w_verdicts (nd_world n) = [] \<Longrightarrow> blake3 (e_crates E) bs = h \<Longrightarrow>
   snd (cas_put_task E h bs n) = Inr () \<and> w_verdicts (nd_world (fst (cas_put_task E h bs n))) = []"
  by (simp add: cas_put_task_def on_disk_def next_verdict_def put_verified_def failed_def)

lemma chunk_from_any_ok:
  assumes "(p, c) \<in> set cands" "w_verdicts (nd_world n) = []"
    and "\<And>t. e_peers E t c (AskChunk (ce_hash entry)) = ChunkReply \<lparr>ck_found = True, ck_len = ce_len entry\<rparr> bs"
    and "length bs = unat (ce_len entry)" "blake3 (e_crates E) bs = ce_hash entry"
  shows "snd (chunk_from_any E entry cands nf n) = Inr () \<and> w_verdicts (nd_world (fst (chunk_from_any E entry cands nf n))) = []"
  using assms(1,2)
proof (induction cands arbitrary: nf n)
  case (Cons qd cands)
  obtain q d where qd: "qd = (q, d)" by (cases qd)
  obtain r where run: "chunk_from_peer E d entry n = (await E n, r)"
    using chunk_from_peer_fst [of E d entry n] by (metis prod.collapse)
  show ?case
  proof (cases "\<exists>bs'. r = Inr (Some bs')")
    case True
    then obtain bs' where r: "r = Inr (Some bs')" by blast
    then have "blake3 (e_crates E) bs' = ce_hash entry"
      using chunk_from_peer_verified [of E d entry n bs'] run by simp
    from cas_put_task_ok [of "await E n" E bs' "ce_hash entry", OF _ this] Cons.prems(2) show ?thesis
      by (auto simp: qd run r err_from_def)
  next
    case False
    then have "(q, d) \<noteq> (p, c)"
      using run assms(3-5) by (auto simp: chunk_from_peer_def ask_peer_def Let_def)
    with Cons.prems have "(p, c) \<in> set cands" by (auto simp: qd)
    moreover from False run have "\<exists>b. chunk_from_any E entry (qd # cands) nf n = chunk_from_any E entry cands b (await E n)"
      by (auto simp: qd split: sum.splits option.splits)
    ultimately show ?thesis using Cons.IH [of "await E n"] Cons.prems(2) by auto
  qed
qed simp

lemma fetch_one_ok:
  assumes "honest_holder E origin entry" "ce_len entry \<le> e_chunk_max_bytes E" "w_verdicts (nd_world n) = []"
    and "fl_max_chunk_bytes limits = e_chunk_max_bytes E"
  shows "snd (fetch_one_chunk E origin limits entry n) = Inr ()
    \<and> w_verdicts (nd_world (fst (fetch_one_chunk E origin limits entry n))) = []"
proof -
  from assms(1) obtain c cas bs where live: "\<And>t. \<exists>p. (p, c) \<in> set (candidates (e_iter E) (e_registry E t) origin)"
    and cas: "cas_ok (e_crates E) cas" "cas (ce_hash entry) = Some bs" "length bs = unat (ce_len entry)"
    and peer: "\<And>t. e_peers E t c (AskChunk (ce_hash entry)) =
        (case serve_chunk (e_chunk_max_bytes E) cas (ce_hash entry) of (resp, stream) \<Rightarrow> ChunkReply resp stream)"
    unfolding honest_holder_def by blast
  have "length bs \<le> unat (e_chunk_max_bytes E)" using assms(2) cas(3) by (simp add: word_le_nat_alt)
  then have reply: "e_peers E t c (AskChunk (ce_hash entry)) = ChunkReply \<lparr>ck_found = True, ck_len = ce_len entry\<rparr> bs" for t
    using peer [of t] cas(2,3) by (simp add: serve_chunk_def)
  have hash: "blake3 (e_crates E) bs = ce_hash entry" using cas(1,2) by (simp add: cas_ok_def)
  from live [of "nd_time n"] obtain p where p: "(p, c) \<in> set (live_candidates E origin n)" by (auto simp: live_candidates_def)
  then have "live_candidates E origin n \<noteq> []" by auto
  with chunk_from_any_ok [OF p assms(3) reply cas(3) hash] assms(2,4) show ?thesis
    by (simp add: fetch_one_chunk_def Let_def)
qed

lemma run_tasks_ok:
  assumes "\<And>c. c \<in> set es \<Longrightarrow> honest_holder E origin c \<and> ce_len c \<le> e_chunk_max_bytes E"
    and "w_verdicts (nd_world n) = []" "fl_max_chunk_bytes limits = e_chunk_max_bytes E"
  shows "snd (run_tasks E origin limits es None n) = None"
  using assms(1,2)
proof (induction es arbitrary: n)
  case (Cons c es)
  from fetch_one_ok [of E origin c n limits] Cons.prems assms(3) obtain n1 where
    "fetch_one_chunk E origin limits c n = (n1, Inr ())" "w_verdicts (nd_world n1) = []"
    by (metis list.set_intros(1) prod.collapse)
  with Cons show ?case by (simp add: join_error_def)
qed simp

subsection \<open>Fetching keeps what every step keeps\<close>

lemma manifest_pages_evolves: "evolves E n (fst (manifest_pages E c h limits chunks r n))"
proof (induction chunks r n rule: manifest_pages_rule [of E c h limits])
  case (1 chunks r n)
  obtain n1 reply where ask: "ask_peer E c (page_req h chunks) n = (n1, reply)" by fastforce
  have n1: "evolves E n n1" using ask_peer_evolves [of E n c "page_req h chunks"] ask by simp
  show ?case
  proof (rule manifest_pages_cases [OF ask, of limits r])
    fix resp chunks' r'
    assume a: "reply = ManifestReply resp" "ma_found resp" "check_page limits h resp chunks r = Inr (False, chunks', r')"
      and run: "manifest_pages E c h limits chunks r n = manifest_pages E c h limits chunks' r' n1"
    with evolves_trans [OF n1 1 [OF ask [unfolded a(1)] a(2,3)]] show ?thesis by simp
  qed (use n1 in simp_all)
qed

lemma put_manifest_evolves:
  "evolves E n (fst (on_store E (\<lambda>s. (store_put_manifest (e_crates E) (e_node E) m s, x)) n))"
  by (rule on_store_evolves [where cmd = "PutManifest m"]) (simp_all add: store_put_manifest_def)

lemma manifest_from_any_evolves: "evolves E n (fst (manifest_from_any E h limits cands nf n))"
proof (induction cands arbitrary: nf n)
  case (Cons pc cands)
  obtain p c where pc: "pc = (p, c)" by (cases pc)
  obtain n1 r where run: "manifest_from_peer E c h limits n = (n1, r)" by fastforce
  have n1: "evolves E n n1" using manifest_pages_evolves [of E n c h limits "[]" 0] run by (simp add: manifest_from_peer_def)
  show ?case
  proof (cases r)
    case (Inr o1)
    show ?thesis
    proof (cases o1)
      case (Some m)
      show ?thesis
        unfolding pc using run Inr Some evolves_trans [OF n1 put_manifest_evolves [of E n1 m "Inr ()"]]
        by (auto intro!: and_then_evolves simp del: store_advances)
    qed (use run pc Inr Cons evolves_trans [OF n1] in simp)
  qed (use run pc Cons evolves_trans [OF n1] in simp)
qed simp

lemma obtain_manifest_evolves: "evolves E n (fst (obtain_manifest E h origin limits n))"
  unfolding obtain_manifest_def Let_def
  by (rule and_then_evolves) (auto intro: manifest_from_any_evolves split: option.splits)

lemma cas_put_task_evolves: "evolves E n (fst (cas_put_task E h bs n))"
  using put_verified_ok
  by (auto simp: evolves_def cas_put_task_def on_disk_def Let_def case_prod_unfold)

lemma chunk_from_any_evolves: "evolves E n (fst (chunk_from_any E entry cands nf n))"
proof (induction cands arbitrary: nf n)
  case (Cons pc cands)
  obtain p c where pc: "pc = (p, c)" by (cases pc)
  obtain r where run: "chunk_from_peer E c entry n = (await E n, r)"
    using chunk_from_peer_fst [of E c entry n] by (metis prod.collapse)
  with pc Cons evolves_trans [OF await_evolves [of E n]] cas_put_task_evolves show ?case
    by (auto split: sum.splits option.splits)
qed simp

lemma fetch_one_evolves: "evolves E n (fst (fetch_one_chunk E origin limits entry n))"
  by (simp add: fetch_one_chunk_def Let_def chunk_from_any_evolves)

lemma run_tasks_evolves: "evolves E n (fst (run_tasks E origin limits es err n))"
proof (induction es arbitrary: err n)
  case (Cons c es)
  obtain n1 r where one: "fetch_one_chunk E origin limits c n = (n1, r)" by fastforce
  with fetch_one_evolves [of E n origin limits c] evolves_trans Cons show ?case by auto
qed simp

lemma fetch_file_chunks_evolves: "evolves E n (fst (fetch_file_chunks E m origin limits n))"
proof -
  let ?r = "run_tasks E origin limits (e_order E (nd_time n) (missing_chunks (nd_cas n) {} (mf_chunks m))) None n"
  have "evolves E n (fst ?r)" by (rule run_tasks_evolves)
  then show ?thesis by (cases ?r; cases "snd ?r") (auto simp: fetch_file_chunks_def Let_def)
qed

subsection \<open>Properties\<close>

text \<open>A peer that holds one file of one chunk, and an engine connected to it.\<close>

definition served_manifest :: manifest where
  "served_manifest = \<lparr>mf_content_hash = [7, 8], mf_chunks = [\<lparr>ce_hash = [7, 8], ce_len = 2\<rparr>]\<rparr>"

definition serving_engine :: engine where
  "serving_engine = \<lparr>e_node = [1], e_apply = example_ctx, e_max_file_bytes = 100, e_chunk_max_bytes = 10,
     e_registry = (\<lambda>_. [([2], [5])]), e_iter = (\<lambda>r. r),
     e_peers = (\<lambda>t c req. case req of
        AskManifest q \<Rightarrow> ManifestReply (serve_manifest (Some served_manifest) q)
      | AskChunk h \<Rightarrow> (case serve_chunk 10 [[7, 8] \<mapsto> [7, 8]] h of (resp, stream) \<Rightarrow> ChunkReply resp stream)),
     e_order = (\<lambda>_ es. es), e_env = (\<lambda>_. [])\<rparr>"

definition idle_node :: node where
  "idle_node = \<lparr>nd_store = \<lparr>s_db = empty_db, s_latest = 0\<rparr>, nd_world = example_world [], nd_time = 0\<rparr>"

lemma served_honest: "honest_manifest (engine_limits serving_engine) served_manifest"
  by (simp add: honest_manifest_def served_manifest_def serving_engine_def engine_limits_def entries_in_bounds_def)

text \<open>
  C15. No peer can make a node gather more than one file's worth of manifest: whatever it
  answers, the exchange ends after a number of requests bounded by the file-size cap, and
  a manifest that is accepted is for the requested content, has only non-empty chunks
  within the chunk cap, and describes no more bytes than the file-size cap.
\<close>

theorem manifest_fetch_bounded:
  assumes "manifest_from_peer E c h limits n = (n', res)"
  shows "nd_time n' \<le> nd_time n + unat (fl_max_file_bytes limits) + 1
    \<and> (\<forall>m. res = Inr (Some m) \<longrightarrow> mf_content_hash m = h \<and> entry_lens (mf_chunks m) \<le> unat (fl_max_file_bytes limits)
          \<and> (\<forall>e \<in> set (mf_chunks m). 0 < ce_len e \<and> ce_len e \<le> fl_max_chunk_bytes limits))"
  using assms manifest_pages_requests [of 0 limits E c h "[]" n] manifest_pages_bounded [of E c h limits "[]" 0 n]
  by (auto simp: manifest_from_peer_def entries_in_bounds_def)

text \<open>
  A manifest served page by page by an honest peer arrives unchanged, for every
  number of pages.
\<close>

theorem manifest_fetch_round_trip:
  assumes "honest_manifest limits m" "mf_content_hash m = h"
    and "\<And>t req. mq_content_hash req = h \<Longrightarrow> e_peers E t c (AskManifest req) = ManifestReply (serve_manifest (Some m) req)"
  shows "snd (manifest_from_peer E c h limits n) = Inr (Some m)"
  unfolding manifest_from_peer_def using assms by (rule manifest_pages_honest [where k = 0]) simp_all

theorem manifest_fetch_round_trip_witness:
  "snd (manifest_from_peer serving_engine 5 [7, 8] (engine_limits serving_engine) idle_node) = Inr (Some served_manifest)"
  by (rule manifest_fetch_round_trip [OF served_honest]) (simp_all add: served_manifest_def serving_engine_def)

theorem manifest_fetch_bounded_witness:
  "0 < length (mf_chunks served_manifest) \<and> entry_lens (mf_chunks served_manifest) \<le> 100"
proof -
  let ?r = "manifest_from_peer serving_engine 5 [7, 8] (engine_limits serving_engine) idle_node"
  have "snd ?r = Inr (Some served_manifest)"
    unfolding manifest_from_peer_def
    by (rule manifest_pages_honest [OF served_honest, where k = 0]) (simp_all add: served_manifest_def serving_engine_def)
  with manifest_fetch_bounded [of serving_engine 5 "[7, 8]" "engine_limits serving_engine" idle_node "fst ?r" "snd ?r"] show ?thesis
    by (simp add: serving_engine_def engine_limits_def served_manifest_def)
qed

text \<open>
  C13. Fetching is complete, verified and resumable.  When it reports success every chunk of
  the manifest is in the chunk store; whether it succeeds or not it removes no chunk and
  adds only verified ones, so a later attempt starts from what this one got; and when
  nothing is missing nobody is asked.
\<close>

theorem fetch_file_chunks_complete:
  assumes "keeps_chunks E" "\<And>t es. set (e_order E t es) = set es"
    and "fetch_file_chunks E m origin limits n = (n', res)"
  shows "nd_cas n \<subseteq>\<^sub>m nd_cas n'
    \<and> (res = Inr () \<longrightarrow> (\<forall>c \<in> set (mf_chunks m). cas_has (nd_cas n') (ce_hash c)))
    \<and> (cas_ok (e_crates E) (nd_cas n) \<longrightarrow> cas_ok (e_crates E) (nd_cas n'))
    \<and> ((\<forall>c \<in> set (mf_chunks m). cas_has (nd_cas n) (ce_hash c)) \<longrightarrow> n' = n \<and> res = Inr ())"
proof -
  let ?todo = "missing_chunks (nd_cas n) {} (mf_chunks m)"
  let ?r = "run_tasks E origin limits (e_order E (nd_time n) ?todo) None n"
  have run: "?todo \<noteq> [] \<Longrightarrow> n' = fst ?r \<and> (res = Inr () \<longleftrightarrow> snd ?r = None)"
    using assms(3) by (cases ?r; cases "snd ?r") (auto simp: fetch_file_chunks_def Let_def)
  have idle: "?todo = [] \<Longrightarrow> n' = n \<and> res = Inr ()" using assms(3) by (auto simp: fetch_file_chunks_def)
  have all: "(\<forall>c \<in> set (mf_chunks m). cas_has (nd_cas n) (ce_hash c)) \<longleftrightarrow> ?todo = []"
  proof
    assume "\<forall>c \<in> set (mf_chunks m). cas_has (nd_cas n) (ce_hash c)"
    then have "c \<notin> set ?todo" for c using missing_chunks_sub [of "nd_cas n" "{}" "mf_chunks m"] by blast
    then show "?todo = []" by (metis list.set_sel(1))
  qed (use missing_chunks_set [of _ "mf_chunks m" "{}" "nd_cas n"] in auto)
  have got: "\<forall>c \<in> set (mf_chunks m). cas_has (nd_cas n') (ce_hash c)" if "res = Inr ()" "?todo \<noteq> []"
  proof
    fix c assume "c \<in> set (mf_chunks m)"
    from missing_chunks_set [OF this, of "{}" "nd_cas n"]
    show "cas_has (nd_cas n') (ce_hash c)"
      using run_tasks_cas [OF assms(1), of n origin limits "e_order E (nd_time n) ?todo" None] run that cas_has_mono
      by (auto simp: assms(2))
  qed
  show ?thesis
    using run_tasks_cas [OF assms(1), of n origin limits "e_order E (nd_time n) ?todo" None] run idle all got
      run_tasks_evolves [of E n origin limits "e_order E (nd_time n) ?todo" None]
    by (cases "?todo = []") (auto simp: evolves_def)
qed

text \<open>
  C14. One honest holder per chunk is enough.  As long as every chunk of a manifest is held
  by some live peer that serves it from a chunk store of verified contents (different peers
  for different chunks, if need be), the fetch succeeds, whatever the other peers answer
  and in whatever order the transfers complete.
\<close>

theorem honest_holders_suffice:
  assumes "\<forall>c \<in> set (mf_chunks m). honest_holder E origin c \<and> ce_len c \<le> e_chunk_max_bytes E"
    and "\<And>t es. set (e_order E t es) = set es" "w_verdicts (nd_world n) = []"
  shows "snd (fetch_file_chunks E m origin (engine_limits E) n) = Inr ()"
proof -
  let ?todo = "missing_chunks (nd_cas n) {} (mf_chunks m)"
  have "set (e_order E (nd_time n) ?todo) \<subseteq> set (mf_chunks m)"
    using missing_chunks_sub [of "nd_cas n" "{}" "mf_chunks m"] assms(2) by auto
  then have "snd (run_tasks E origin (engine_limits E) (e_order E (nd_time n) ?todo) None n) = None"
    using assms(1,3) by (intro run_tasks_ok) (auto simp: engine_limits_def)
  then show ?thesis by (auto simp: fetch_file_chunks_def Let_def split: prod.splits)
qed

lemma served_holder: "honest_holder serving_engine [2] \<lparr>ce_hash = [7, 8], ce_len = 2\<rparr>"
  unfolding honest_holder_def
  by (rule exI [of _ 5], rule exI [of _ "[[7, 8] \<mapsto> [7, 8]]"])
    (simp add: serving_engine_def candidates_def bt_get_def cas_ok_def example_ctx_def plain_crates_def)

theorem honest_holders_suffice_witness:
  "snd (fetch_file_chunks serving_engine served_manifest [2] (engine_limits serving_engine) idle_node) = Inr ()"
  by (rule honest_holders_suffice)
    (use served_holder in \<open>simp_all add: served_manifest_def idle_node_def example_world_def\<close>,
      simp_all add: serving_engine_def)

theorem fetch_file_chunks_complete_witness:
  "cas_has (nd_cas (fst (fetch_file_chunks serving_engine served_manifest [2] (engine_limits serving_engine) idle_node))) [7, 8]"
proof -
  let ?r = "fetch_file_chunks serving_engine served_manifest [2] (engine_limits serving_engine) idle_node"
  have "run_tasks serving_engine [2] (engine_limits serving_engine) [\<lparr>ce_hash = [7, 8], ce_len = 2\<rparr>] None idle_node
      = (fst (run_tasks serving_engine [2] (engine_limits serving_engine) [\<lparr>ce_hash = [7, 8], ce_len = 2\<rparr>] None idle_node), None)"
    using run_tasks_ok [of "[\<lparr>ce_hash = [7, 8], ce_len = 2\<rparr>]" serving_engine "[2]" idle_node "engine_limits serving_engine"] served_holder
    by (simp add: prod_eq_iff engine_limits_def idle_node_def example_world_def) (simp add: serving_engine_def)
  then have "snd ?r = Inr ()"
    by (auto simp: fetch_file_chunks_def served_manifest_def idle_node_def example_world_def cas_has_def serving_engine_def Let_def
        split: prod.splits)
  with fetch_file_chunks_complete [of serving_engine served_manifest "[2]" "engine_limits serving_engine" idle_node "fst ?r" "snd ?r"]
  show ?thesis by (simp add: served_manifest_def keeps_chunks_def) (simp add: serving_engine_def)
qed

subsection \<open>Two manifests for one content\<close>

definition chunk_table :: "db \<Rightarrow> hash32 \<Rightarrow> chunk_entry list \<Rightarrow> bool" where
  "chunk_table d h cs \<longleftrightarrow> bt_ok (t_manifest_chunks d)
     \<and> (\<forall>i. bt_get (t_manifest_chunks d) (h, i) = (if 0 \<le> i \<and> nat i < length cs then Some (cs ! nat i) else None))"

lemma map_of_enumerate: "map_of (enumerate 0 cs) k = (if k < length cs then Some (cs ! k) else None)"
proof (cases "k < length cs")
  case True
  then have "(k, cs ! k) \<in> set (enumerate 0 cs)" by (simp add: in_set_enumerate_eq)
  with True show ?thesis by (simp add: map_of_eq_Some_iff)
next
  case False
  then show ?thesis by (auto simp: map_of_eq_None_iff in_set_enumerate_eq)
qed

lemma chunk_table_rows: assumes "chunk_table d h cs" shows "chunk_rows d h = cs"
proof -
  have "filter (\<lambda>e. fst (fst e) = h) (t_manifest_chunks d) = map (\<lambda>(i, c). ((h, int i), c)) (enumerate 0 cs)"
  proof (rule bt_canonical)
    fix k show "bt_get (filter (\<lambda>e. fst (fst e) = h) (t_manifest_chunks d)) k =
        bt_get (map (\<lambda>(i, c). ((h, int i), c)) (enumerate 0 cs)) k"
      using assms by (cases k) (simp add: chunk_table_def bt_get_filter [where P = "\<lambda>k. fst k = h"] enumerate_table(2) map_of_enumerate)
  qed (use assms in \<open>simp_all add: chunk_table_def bt_ok_filter enumerate_table(1)\<close>)
  then show ?thesis by (simp add: chunk_rows_def case_prod_unfold comp_def)
qed

lemma chunk_table_put:
  assumes "chunk_table d h cs" "mf_content_hash m = h"
  shows "chunk_table (put_manifest m d) h (cs @ drop (length cs) (mf_chunks m))"
proof -
  have t: "t_manifest_chunks (put_manifest m d) = put_chunks h (enumerate 0 (mf_chunks m)) (t_manifest_chunks d)"
    using assms(2) by (simp add: put_manifest_def put_chunks_def)
  show ?thesis
    using assms(1) unfolding chunk_table_def t
    by (auto simp: put_chunks_ok bt_get_put_chunks [OF distinct_enumerate_keys] map_of_enumerate nth_append)
qed

lemma manifest_count_put:
  "bt_get (t_manifests d) h = Some cnt \<Longrightarrow> bt_get (t_manifests (put_manifest m d)) h = Some cnt"
  by (auto simp: put_manifest_def bt_get_insert_ignore)

lemma overlong_stays_broken:
  assumes "chunk_table d h cs" "bt_get (t_manifests d) h = Some cnt" "cnt < int (length cs)"
    and "\<forall>m \<in> set ms. mf_content_hash m = h"
  shows "manifest_for (fold put_manifest ms d) h = None"
  using assms
proof (induction ms arbitrary: d cs)
  case Nil
  then show ?case by (simp add: manifest_for_def chunk_table_rows)
next
  case (Cons m ms)
  have "chunk_table (put_manifest m d) h (cs @ drop (length cs) (mf_chunks m))" using chunk_table_put Cons.prems by simp
  moreover have "bt_get (t_manifests (put_manifest m d)) h = Some cnt" using manifest_count_put Cons.prems(2) by simp
  ultimately show ?case using Cons.IH Cons.prems by simp
qed

text \<open>
  The table of manifests assumes that a content has one chunking.  The first manifest
  stored for a content stays, whatever is stored for it later, as long as no later one has
  more chunks.  A later one with more chunks (other chunk sizes, or a peer's invention)
  adds its surplus rows to the first and makes the manifest unreadable, and no manifest
  stored afterwards, the first one again included, repairs it.
\<close>

theorem longer_manifest_breaks_shorter:
  assumes "chunk_table d h []" "bt_get (t_manifests d) h = None" "mf_content_hash m = h" "mf_content_hash m' = h"
  shows "manifest_for (put_manifest m' (put_manifest m d)) h =
      (if length (mf_chunks m') \<le> length (mf_chunks m) then Some m else None)
    \<and> (length (mf_chunks m) < length (mf_chunks m') \<and> (\<forall>x \<in> set ms. mf_content_hash x = h) \<longrightarrow>
        manifest_for (fold put_manifest ms (put_manifest m' (put_manifest m d))) h = None)"
proof -
  let ?d = "put_manifest m' (put_manifest m d)"
  have "chunk_table (put_manifest m d) h (mf_chunks m)" using chunk_table_put [OF assms(1,3)] by simp
  note tab = chunk_table_put [OF this assms(4)]
  have "bt_get (t_manifests (put_manifest m d)) h = Some (int (length (mf_chunks m)))"
    using assms(2,3) by (simp add: put_manifest_def bt_get_insert_ignore)
  note cnt = manifest_count_put [OF this, of m']
  have "manifest_for ?d h = (if length (mf_chunks m') \<le> length (mf_chunks m) then Some m else None)"
    using cnt chunk_table_rows [OF tab] assms(3) by (cases m) (auto simp: manifest_for_def)
  moreover have "length (mf_chunks m) < length (mf_chunks m') \<and> (\<forall>x \<in> set ms. mf_content_hash x = h) \<Longrightarrow>
      manifest_for (fold put_manifest ms ?d) h = None"
    using overlong_stays_broken [OF tab cnt] by auto
  ultimately show ?thesis by blast
qed

lemma empty_chunk_table: "chunk_table empty_db h []" "bt_get (t_manifests empty_db) h = None"
  by (simp_all add: chunk_table_def empty_db_def)

theorem longer_manifest_breaks_shorter_witness:
  "let one = \<lparr>mf_content_hash = [9], mf_chunks = [\<lparr>ce_hash = [1], ce_len = 8\<rparr>]\<rparr>;
       two = \<lparr>mf_content_hash = [9], mf_chunks = [\<lparr>ce_hash = [2], ce_len = 4\<rparr>, \<lparr>ce_hash = [3], ce_len = 4\<rparr>]\<rparr>
   in manifest_for (put_manifest two (put_manifest one empty_db)) [9] = None
      \<and> manifest_for (put_manifest one (put_manifest two (put_manifest one empty_db))) [9] = None"
  using longer_manifest_breaks_shorter [OF empty_chunk_table, of
      "\<lparr>mf_content_hash = [9], mf_chunks = [\<lparr>ce_hash = [1], ce_len = 8\<rparr>]\<rparr>" "[9]"
      "\<lparr>mf_content_hash = [9], mf_chunks = [\<lparr>ce_hash = [2], ce_len = 4\<rparr>, \<lparr>ce_hash = [3], ce_len = 4\<rparr>]\<rparr>"
      "[\<lparr>mf_content_hash = [9], mf_chunks = [\<lparr>ce_hash = [1], ce_len = 8\<rparr>]\<rparr>]"]
  by simp

end
