(* ===== verification/Pull_Laws.thy ===== *)
theory Pull_Laws
  imports Pull Fetch_Laws
begin

text \<open>
  What a pull keeps, for every transport that keeps it, and the QUIC transport as one.
\<close>

subsection \<open>Steps on the disk\<close>

lemma apply_version_evolves [simp]:
  "ax_crates ctx = e_crates E \<Longrightarrow> evolves E n (fst (on_disk (apply_version ctx p mode ho mano mo) n))"
  using apply_version_cas_kept [of ctx] by (intro on_disk_evolves) simp

lemma apply_delete_evolves [simp]: "evolves E n (fst (on_disk (apply_delete ctx p) n))"
  by (intro on_disk_evolves apply_delete_cas_kept)

lemma apply_rename_evolves [simp]: "evolves E n (fst (on_disk (apply_rename ctx old new mode h mo) n))"
  by (intro on_disk_evolves apply_rename_cas_kept)

lemma apply_meta_only_evolves [simp]: "evolves E n (fst (on_disk (apply_meta_only ctx p ho m) n))"
  by (intro on_disk_evolves apply_meta_only_cas_kept)

lemma restore_evolves [simp]: "evolves E n (restore_local_content E p n)"
proof -
  have 1: "evolves E n (await E n)" by (rule await_evolves)
  have 2: "evolves E n (await E (await E n))" by (rule evolves_trans [OF 1 await_evolves])
  let ?ctx = "(e_apply E)\<lparr>ax_policy := Numeric\<rparr>"
  have v: "evolves E m (fst (on_disk (apply_version ?ctx p mode ho mano mo) m))" for m mode ho mano mo by simp
  note steps = 1 2 evolves_trans [OF 1 apply_delete_evolves] evolves_trans [OF 1 v] evolves_trans [OF 2 v]
  show ?thesis
    unfolding restore_local_content_def Let_def by (simp add: steps split: option.split bool.split)
qed

lemma restore_paths_evolves [simp]: "evolves E n (restore_paths E ps n)"
proof (induction ps arbitrary: n)
  case (Cons p ps)
  from evolves_trans [OF restore_evolves Cons] show ?case by simp
qed simp

subsection \<open>Commits\<close>

lemma resolve_rows_evolves:
  "vv_ok (v_vv rv) \<Longrightarrow> evolves E n (fst (on_store E (store_resolve_rows (e_crates E) (e_node E) p rv staged) n))"
  by (rule on_store_evolves [where cmd = "ResolveRows p rv staged"]) (simp_all add: handle_turns)

lemma reconcile_upsert_evolves:
  "vv_ok (rr_vv row) \<Longrightarrow> evolves E n (fst (on_store E (store_reconcile_upsert (e_crates E) (e_node E) row) n))"
  by (rule on_store_evolves [where cmd = "ReconcileUpsert row"]) (simp_all add: handle_turns)

lemma put_manifest_step [simp]:
  "evolves E n (fst (on_store E (\<lambda>s. (s\<lparr>s_db := put_manifest m (s_db s)\<rparr>, x)) n))"
  using put_manifest_evolves [of E n m x] by simp

text \<open>A pull that ends is where the descent has come to.\<close>

lemma descend_reached:
  "pull_descend fuel E T t queue rep n = Some (n', res) \<Longrightarrow> pull_reached fuel E T t queue rep n = n'"
  by (induction fuel E T t queue rep n rule: pull_descend.induct)
    (auto simp: Let_def split: prod.splits sum.splits)

lemma with_reached: "reconcile_with fuel E peer session n = Some (n', res) \<Longrightarrow> reconcile_reached fuel E peer session n = n'"
  by (auto simp: reconcile_with_def reconcile_pull_def reconcile_reached_def Let_def dest: descend_reached
      split: option.splits prod.splits sum.splits if_splits)

subsection \<open>The contract of a transport\<close>

locale reconcile_transport =
  fixes E :: engine and T :: transport and leaf_ok :: "remote_leaf \<Rightarrow> bool"
  assumes root_evolves: "evolves E n (fst (tr_root T n))"
    and children_evolves: "evolves E n (fst (tr_children T prefix n))"
    and leaf_evolves: "evolves E n (fst (tr_leaf T p n))"
    and leaf_delivers: "snd (tr_leaf T p n) = Inr (Some l) \<Longrightarrow> leaf_ok l"
    and ensure_evolves: "evolves E n (fst (tr_ensure_content T h n))"
begin

lemma planned_manifest_evolves: "evolves E n (fst (planned_manifest E T row n))"
  unfolding planned_manifest_def
  by (auto intro!: and_then_evolves ensure_evolves split: option.splits bool.splits)

lemma stage_planned_row_evolves: "evolves E n (fst (stage_planned_row E T row n))"
  unfolding stage_planned_row_def
  by (auto intro!: and_then_evolves planned_manifest_evolves)

lemma stage_plan_evolves: "evolves E n (fst (stage_plan E T rows ps n))"
proof (induction rows arbitrary: ps n)
  case (Cons row rows)
  obtain n1 r where one: "stage_planned_row E T row n = (n1, r)" by fastforce
  have "evolves E n n1" using stage_planned_row_evolves [of n row] one by simp
  with Cons one evolves_trans show ?case by (auto split: sum.splits bool.splits)
qed simp

lemma resolve_rounds_evolves: "vv_ok (v_vv rv) \<Longrightarrow> evolves E n (fst (resolve_rounds k E T p rv staged ps n))"
proof (induction k arbitrary: staged ps n)
  case (Suc k)
  let ?r = "err_from RStore (on_store E (store_resolve_rows (e_crates E) (e_node E) p rv staged) n)"
  have 1: "evolves E n (fst ?r)" using Suc.prems by (simp add: resolve_rows_evolves)
  have 2: "evolves E m (fst (case stage_plan E T plan ps m of
        (n, staged_paths, None) \<Rightarrow> resolve_rounds k E T p rv plan staged_paths n
      | (n, staged_paths, Some e) \<Rightarrow> (restore_paths E staged_paths n, Inl e)))" for plan m
  proof -
    obtain m1 ps' e where s: "stage_plan E T plan ps m = (m1, ps', e)" by (metis prod_cases3)
    have "evolves E m m1" using stage_plan_evolves [of m plan ps] s by simp
    with Suc s evolves_trans show ?thesis by (auto split: option.splits)
  qed
  from 1 show ?case by (auto intro!: and_then_evolves 2 split: resolve_outcome.splits)
qed simp

lemma resolve_leaf_evolves: "vv_ok (rl_vv l) \<Longrightarrow> evolves E n (fst (resolve_concurrent_leaf E T p l n))"
  unfolding resolve_concurrent_leaf_def by (rule resolve_rounds_evolves) (simp add: leaf_version_def)

lemma leaf_to_disk_evolves: "evolves E n (fst (leaf_to_disk E T p l n))"
  unfolding leaf_to_disk_def
  by (auto intro!: and_then_evolves ensure_evolves split: option.splits bool.splits)

lemma apply_remote_leaf_evolves: "vv_ok (rl_vv l) \<Longrightarrow> evolves E n (fst (apply_remote_leaf E T p l n))"
  unfolding apply_remote_leaf_def Let_def
  by (auto intro!: and_then_evolves leaf_to_disk_evolves reconcile_upsert_evolves
      evolves_trans [OF restore_evolves resolve_leaf_evolves] simp: leaf_row_def)

lemma handle_leaf_evolves:
  assumes "\<And>l. leaf_ok l \<Longrightarrow> vv_ok (rl_vv l)"
  shows "evolves E n (fst (handle_leaf E T p rep n))"
proof -
  have 1: "evolves E m (fst (and_then (ask_store E (store_load_file (e_crates E) (e_node E) p) m) (\<lambda>local_row n.
      case decide local_row (rl_vv l) of
        DConcurrent \<Rightarrow> (let (n, res) = resolve_concurrent_leaf E T p l n
           in (n, bump (case res of Inl e \<Rightarrow> Inl e | Inr b \<Rightarrow> Inr (if b then LResolved else LSkipped)) rep'))
      | Apply \<Rightarrow> (let (n, res) = apply_remote_leaf E T p l n in (n, bump res rep'))
      | _ \<Rightarrow> (n, Inr rep'))))" if "leaf_ok l" for m l rep'
    using resolve_leaf_evolves [OF assms [OF that]] apply_remote_leaf_evolves [OF assms [OF that]]
    by (auto intro!: and_then_evolves simp: Let_def case_prod_unfold split: decision.splits)
  show ?thesis
    unfolding handle_leaf_def Let_def [of "rep\<lparr>rep_leaves_compared := rep_leaves_compared rep + 1\<rparr>"]
    by (auto intro!: and_then_evolves [OF leaf_evolves] 1 dest: leaf_delivers split: option.splits)
qed

lemma pull_level_evolves:
  assumes "\<And>l. leaf_ok l \<Longrightarrow> vv_ok (rl_vv l)"
  shows "evolves E n (fst (pull_level E T prefix lc cs queue rep n))"
  by (induction cs arbitrary: queue rep n) (auto intro!: and_then_evolves handle_leaf_evolves assms)

lemma pull_reached_evolves:
  assumes "\<And>l. leaf_ok l \<Longrightarrow> vv_ok (rl_vv l)"
  shows "evolves E n (pull_reached fuel E T t queue rep n)"
proof (induction fuel arbitrary: queue rep n)
  case 0
  then show ?case by (cases queue) simp_all
next
  case (Suc fuel)
  show ?case
  proof (cases queue)
    case (Cons prefix rest)
    obtain n1 r where ch: "tr_children T prefix n = (n1, r)" by fastforce
    have 1: "evolves E n n1" using children_evolves [of n prefix] ch by simp
    show ?thesis
    proof (cases r)
      case (Inr cs)
      let ?l = "pull_level E T prefix (unwrap_or (merkle_children t prefix) []) cs rest (rep\<lparr>rep_tree_reqs := rep_tree_reqs rep + 1\<rparr>) n1"
      have "evolves E n (fst ?l)" by (rule evolves_trans [OF 1 pull_level_evolves [OF assms]])
      with Suc Cons ch Inr show ?thesis
        by (cases ?l; cases "snd ?l") (auto intro: evolves_trans)
    qed (use Cons ch 1 in simp)
  qed simp
qed

lemma pull_descend_evolves:
  assumes "\<And>l. leaf_ok l \<Longrightarrow> vv_ok (rl_vv l)" "pull_descend fuel E T t queue rep n = Some (n', res)"
  shows "evolves E n n'"
  using pull_reached_evolves [OF assms(1)] descend_reached [OF assms(2)] by metis

lemma pull_evolves:
  assumes "\<And>l. leaf_ok l \<Longrightarrow> vv_ok (rl_vv l)" "reconcile_pull fuel E T t n = Some (n', res)"
  shows "evolves E n n'"
proof -
  obtain n1 r where root: "tr_root T n = (n1, r)" by fastforce
  have "evolves E n n1" using root_evolves [of n] root by simp
  with assms(2) root pull_descend_evolves [OF assms(1)] evolves_trans show ?thesis
    by (auto simp: reconcile_pull_def split: sum.splits if_splits)
qed

end

subsection \<open>QUIC\<close>

text \<open>The leaves a session delivers.\<close>

definition session_leaf :: "(nat \<Rightarrow> rpc) \<Rightarrow> remote_leaf \<Rightarrow> bool" where
  "session_leaf session l \<longleftrightarrow> (\<exists>t k p. session t k (LeafReq p) = Inr (LeafResp True l))"

lemma session_call_evolves [simp]: "evolves E n (fst (session_call E f session n))"
  by (simp add: session_call_def await_evolves)

lemma ensure_content_evolves: "evolves E n (fst (ensure_content E peer h n))"
  unfolding ensure_content_def
  by (auto intro!: and_then_evolves obtain_manifest_evolves fetch_file_chunks_evolves)

interpretation quic: reconcile_transport E "quic_transport E peer session" "session_leaf session" for E peer session
  by unfold_locales
    (auto simp: quic_transport_def ensure_content_evolves session_call_def await_evolves pull_leaf_def session_leaf_def
      split: sum.splits reconcile_frame.splits if_splits)

lemma reconcile_reached_evolves:
  assumes "\<And>l. session_leaf session l \<Longrightarrow> vv_ok (rl_vv l)"
  shows "evolves E n (reconcile_reached fuel E peer session n)"
proof -
  let ?T = "quic_transport E peer session"
  obtain m r where root: "tr_root ?T (await E n) = (m, r)" by fastforce
  have m: "evolves E n m" using evolves_trans [OF await_evolves quic.root_evolves] root by (metis fst_conv)
  show ?thesis
    using m evolves_trans [OF m quic.pull_reached_evolves [OF assms]]
    by (cases r) (simp_all add: reconcile_reached_def Let_def root)
qed

end
