(* ===== verification/Merkle_Laws.thy ===== *)
theory Merkle_Laws
  imports Merkle
begin

text \<open>
  The tree that \<open>MerkleTree::build\<close> makes of sorted rows: every directory is listed in its
  parent with the hash of its own listing, every row is a leaf of its parent's listing
  unless a directory has its name, and nothing else is listed.
\<close>

subsection \<open>Paths\<close>

function tidy :: "path \<Rightarrow> bool" where
  "tidy p =
     (if p = [] then False
      else snd (split_parent p) \<noteq> [] \<and> join_prefix (fst (split_parent p)) (snd (split_parent p)) = p
           \<and> (fst (split_parent p) = [] \<or> tidy (fst (split_parent p))))"
  by pat_completeness auto
termination
  by (relation "measure length") (auto intro: split_parent_shorter)

declare tidy.simps [simp del]

lemma split_parent_plain: "CHR ''/'' \<notin> set (snd (split_parent p))"
  by (induction p rule: split_parent.induct) (auto simp: Let_def case_prod_unfold)

lemma split_parent_no_slash: "CHR ''/'' \<notin> set n \<Longrightarrow> split_parent n = ([], n)"
  by (induction n) auto

lemma split_parent_snoc: "CHR ''/'' \<notin> set n \<Longrightarrow> split_parent (d @ CHR ''/'' # n) = (d, n)"
  by (induction d) (auto simp: split_parent_no_slash)

lemma split_parent_join: "CHR ''/'' \<notin> set n \<Longrightarrow> split_parent (join_prefix d n) = (d, n)"
  by (simp add: join_prefix_def split_parent_no_slash split_parent_snoc)

lemma join_prefix_Nil: "join_prefix d n = [] \<longleftrightarrow> d = [] \<and> n = []"
  by (simp add: join_prefix_def)

abbreviation "par p \<equiv> fst (split_parent p)"
abbreviation "base p \<equiv> snd (split_parent p)"

lemma tidyD:
  assumes "tidy p"
  shows "p \<noteq> []" "base p \<noteq> []" "join_prefix (par p) (base p) = p" "par p = [] \<or> tidy (par p)"
  using assms by (simp_all add: tidy.simps [of p] split: if_splits)

lemma tidy_induct [consumes 1, case_names top below]:
  assumes "tidy p" "\<And>p. tidy p \<Longrightarrow> par p = [] \<Longrightarrow> P p" "\<And>p. tidy p \<Longrightarrow> tidy (par p) \<Longrightarrow> P (par p) \<Longrightarrow> P p"
  shows "P p"
  using assms(1)
proof (induction p rule: length_induct)
  case (1 p)
  with assms(2,3) tidyD [OF "1.prems"] split_parent_shorter [of "par p" p] show ?case by blast
qed

text \<open>A directory above a path.\<close>

definition dir_over :: "path \<Rightarrow> path \<Rightarrow> bool" where
  "dir_over d p \<longleftrightarrow> (\<exists>s. p = d @ CHR ''/'' # s)"

lemma less_append: "(xs :: string) < xs @ y # ys"
  by (induction xs) auto

lemma above_less: "dir_over d p \<Longrightarrow> d < p"
  by (auto simp: dir_over_def less_append)

lemma above_trans: "dir_over a b \<Longrightarrow> dir_over b c \<Longrightarrow> dir_over a c"
  by (auto simp: dir_over_def)

lemma par_above: "tidy p \<Longrightarrow> par p \<noteq> [] \<Longrightarrow> dir_over (par p) p"
  using tidyD(3) [of p] by (auto simp: dir_over_def join_prefix_def intro: exI [of _ "base p"])

lemma par_less: "tidy p \<Longrightarrow> par p < p"
  using par_above [of p] above_less tidyD(1) [of p] by (cases "par p = []") (auto simp: neq_Nil_conv)

lemma split_parent_inside: "CHR ''/'' \<in> set s \<Longrightarrow> split_parent (d @ CHR ''/'' # s) = (d @ CHR ''/'' # par s, base s)"
proof -
  assume "CHR ''/'' \<in> set s"
  then obtain e n where "s = e @ CHR ''/'' # n" "CHR ''/'' \<notin> set n" by (metis split_list_last)
  then show ?thesis using split_parent_snoc [of n e] split_parent_snoc [of n "d @ CHR ''/'' # e"] by simp
qed

lemma dir_over_parent: "dir_over d p \<Longrightarrow> par p = d \<or> dir_over d (par p)"
proof -
  assume "dir_over d p"
  then obtain s where "p = d @ CHR ''/'' # s" by (auto simp: dir_over_def)
  then show ?thesis by (cases "CHR ''/'' \<in> set s") (auto simp: dir_over_def split_parent_inside split_parent_snoc)
qed

subsection \<open>Directories and entries\<close>

definition isdir :: "(path, children) btree \<Rightarrow> path \<Rightarrow> bool" where
  "isdir dirs d \<longleftrightarrow> bt_get dirs d \<noteq> None"

definition listing :: "(path, children) btree \<Rightarrow> path \<Rightarrow> children" where
  "listing dirs d = unwrap_or (bt_get dirs d) []"

definition child_of :: "(path, children) btree \<Rightarrow> path \<Rightarrow> string \<Rightarrow> (hash32 \<times> bool) option" where
  "child_of dirs d n = bt_get (listing dirs d) n"

lemma entry_isdir: "child_of dirs d n = Some v \<Longrightarrow> isdir dirs d"
  by (cases "bt_get dirs d") (simp_all add: child_of_def isdir_def listing_def)

lemma put_child_effect:
  "isdir (put_child d n v dirs) d' \<longleftrightarrow> d' = d \<or> isdir dirs d'"
  "child_of (put_child d n v dirs) d' n' = (if d' = d \<and> n' = n then Some v else child_of dirs d' n')"
  by (auto simp: put_child_def isdir_def child_of_def listing_def bt_get_simps)

lemma mark_dir_put: "mark_dir d n dirs = put_child d n (fst (unwrap_or (child_of dirs d n) (zeros 32, True)), True) dirs"
  by (simp add: mark_dir_def Let_def case_prod_unfold child_of_def listing_def)

lemma mark_dir_effect:
  "isdir (mark_dir d n dirs) d' \<longleftrightarrow> d' = d \<or> isdir dirs d'"
  "child_of (mark_dir d n dirs) d' n' =
     (if d' = d \<and> n' = n then Some (fst (unwrap_or (child_of dirs d n) (zeros 32, True)), True) else child_of dirs d' n')"
  by (simp_all add: mark_dir_put put_child_effect)

lemma set_dir_hash_effect:
  "isdir (set_dir_hash p h dirs) d \<longleftrightarrow> isdir dirs d"
  "child_of (set_dir_hash p h dirs) d n =
     (if d = par p \<and> n = base p then map_option (\<lambda>v. (h, snd v)) (child_of dirs d n) else child_of dirs d n)"
  by (auto simp: set_dir_hash_def isdir_def child_of_def listing_def Let_def case_prod_unfold bt_get_simps
      split: option.splits)

subsection \<open>The tree before hashing\<close>

definition name_ok :: "string \<Rightarrow> bool" where
  "name_ok n \<longleftrightarrow> n \<noteq> [] \<and> CHR ''/'' \<notin> set n"

text \<open>The directory \<open>x\<close> is the one whose ancestors the inner loop still has to list.\<close>

definition tree_inv :: "crates \<Rightarrow> file_row list \<Rightarrow> path \<Rightarrow> (path, children) btree \<Rightarrow> bool" where
  "tree_inv X rows x dirs \<longleftrightarrow>
     isdir dirs []
     \<and> (\<forall>d. isdir dirs d \<longrightarrow> d \<noteq> [] \<longrightarrow> tidy d \<and> (\<exists>row \<in> set rows. dir_over d (r_path row))
          \<and> (d = x \<or> (\<exists>h. child_of dirs (par d) (base d) = Some (h, True))))
     \<and> (\<forall>d n h. child_of dirs d n = Some (h, True) \<longrightarrow> isdir dirs (join_prefix d n) \<and> name_ok n)
     \<and> (\<forall>d n h. child_of dirs d n = Some (h, False) \<longrightarrow>
          name_ok n \<and> (\<exists>row \<in> set rows. r_path row = join_prefix d n \<and> h = leaf_hash X row))
     \<and> (\<forall>row \<in> set rows. child_of dirs (par (r_path row)) (base (r_path row)) = Some (leaf_hash X row, False)
          \<or> (\<exists>h. child_of dirs (par (r_path row)) (base (r_path row)) = Some (h, True)))"

lemma tree_invD:
  assumes "tree_inv X rows x dirs"
  shows "isdir dirs []"
    and "isdir dirs d \<Longrightarrow> d \<noteq> [] \<Longrightarrow> tidy d"
    and "isdir dirs d \<Longrightarrow> d \<noteq> [] \<Longrightarrow> \<exists>row \<in> set rows. dir_over d (r_path row)"
    and "isdir dirs d \<Longrightarrow> d \<noteq> [] \<Longrightarrow> d \<noteq> x \<Longrightarrow> \<exists>h. child_of dirs (par d) (base d) = Some (h, True)"
    and "child_of dirs d n = Some (h, True) \<Longrightarrow> isdir dirs (join_prefix d n) \<and> name_ok n"
    and "child_of dirs d n = Some (h, False) \<Longrightarrow>
      name_ok n \<and> (\<exists>row \<in> set rows. r_path row = join_prefix d n \<and> h = leaf_hash X row)"
    and "row \<in> set rows \<Longrightarrow> child_of dirs (par (r_path row)) (base (r_path row)) = Some (leaf_hash X row, False)
      \<or> (\<exists>h. child_of dirs (par (r_path row)) (base (r_path row)) = Some (h, True))"
  using assms unfolding tree_inv_def by blast+

lemma name_ok_base: "tidy p \<Longrightarrow> name_ok (base p)"
  by (simp add: name_ok_def tidyD split_parent_plain)

lemma mark_dir_inv:
  assumes inv: "tree_inv X rows x dirs" and x: "isdir dirs x" "x \<noteq> []"
  shows "tree_inv X rows (par x) (mark_dir (par x) (base x) dirs)"
proof -
  note D = tree_invD [OF inv]
  have t: "tidy x" using D(2) x by blast
  have up: "par x \<noteq> [] \<Longrightarrow> tidy (par x) \<and> (\<exists>row \<in> set rows. dir_over (par x) (r_path row))"
    using tidyD(4) [OF t] par_above [OF t] D(3) [OF x] above_trans by blast
  have join: "join_prefix (par x) (base x) = x" using tidyD(3) [OF t] .
  show ?thesis
    unfolding tree_inv_def mark_dir_effect
  proof (intro conjI allI impI ballI)
    fix d assume "d = par x \<or> isdir dirs d" "d \<noteq> []"
    then show "tidy d" "\<exists>row \<in> set rows. dir_over d (r_path row)"
      "d = par x \<or> (\<exists>h. (if par d = par x \<and> base d = base x then Some (fst (unwrap_or (child_of dirs (par x) (base x)) (zeros 32, True)), True)
         else child_of dirs (par d) (base d)) = Some (h, True))"
      using up D(2-4) by auto
  qed (use D(1,5,6,7) x(1) join name_ok_base [OF t] in \<open>auto split: if_splits\<close>)
qed

lemma add_ancestors_inv:
  "tree_inv X rows x dirs \<Longrightarrow> isdir dirs x \<Longrightarrow> tree_inv X rows [] (add_ancestors x dirs)"
proof (induction x dirs rule: add_ancestors.induct)
  case (1 x dirs)
  then show ?case
    by (subst add_ancestors.simps) (auto simp: mark_dir_effect intro: mark_dir_inv)
qed

lemma put_leaf_inv:
  assumes inv: "tree_inv X rows [] dirs" and t: "tidy (r_path row)" "\<forall>r \<in> set rows. tidy (r_path r)"
    and later: "\<forall>r \<in> set rows. r_path r < r_path row"
  shows "tree_inv X (rows @ [row]) (par (r_path row)) (put_child (par (r_path row)) (base (r_path row)) (leaf_hash X row, False) dirs)"
proof -
  let ?p = "r_path row"
  note D = tree_invD [OF inv]
  have join: "join_prefix (par ?p) (base ?p) = ?p" using tidyD(3) [OF t(1)] .
  have "\<not> isdir dirs ?p" using D(3) [of ?p] tidyD(1) [OF t(1)] above_less later by fastforce
  then have fresh: "child_of dirs (par ?p) (base ?p) \<noteq> Some (h, True)" for h
    using D(5) [of "par ?p" "base ?p" h] join by auto
  have other: "\<not> (par (r_path r) = par ?p \<and> base (r_path r) = base ?p)" if "r \<in> set rows" for r
    using tidyD(3) [of "r_path r"] t(2) later that join by (metis less_irrefl)
  have up: "par ?p \<noteq> [] \<Longrightarrow> tidy (par ?p) \<and> dir_over (par ?p) ?p"
    using tidyD(4) [OF t(1)] par_above [OF t(1)] by blast
  show ?thesis
    unfolding tree_inv_def put_child_effect
  proof (intro conjI allI impI ballI)
    fix d assume d: "d = par ?p \<or> isdir dirs d" "d \<noteq> []"
    then show "tidy d" "\<exists>r \<in> set (rows @ [row]). dir_over d (r_path r)"
      using up D(2,3) by auto
    show "d = par ?p \<or> (\<exists>h. (if par d = par ?p \<and> base d = base ?p then Some (leaf_hash X row, False) else child_of dirs (par d) (base d)) = Some (h, True))"
      using d D(4) [of d] fresh by auto
  next
    fix r assume "r \<in> set (rows @ [row])"
    then show "(if par (r_path r) = par ?p \<and> base (r_path r) = base ?p then Some (leaf_hash X row, False) else child_of dirs (par (r_path r)) (base (r_path r))) = Some (leaf_hash X r, False)
        \<or> (\<exists>h. (if par (r_path r) = par ?p \<and> base (r_path r) = base ?p then Some (leaf_hash X row, False) else child_of dirs (par (r_path r)) (base (r_path r))) = Some (h, True))"
      using D(7) other by auto
  qed (use D(1,5,6) join name_ok_base [OF t(1)] in \<open>auto split: if_splits\<close>)
qed

lemma add_row_inv:
  assumes "tree_inv X rows [] (fst acc)" "tidy (r_path row)" "\<forall>r \<in> set rows. tidy (r_path r)" "\<forall>r \<in> set rows. r_path r < r_path row"
  shows "tree_inv X (rows @ [row]) [] (fst (add_row X acc row))"
  using add_ancestors_inv [OF put_leaf_inv [OF assms]]
  by (simp add: add_row_def case_prod_unfold Let_def put_child_effect)

definition rows_tidy :: "file_row list \<Rightarrow> bool" where
  "rows_tidy rows \<longleftrightarrow> sorted_wrt (<) (map r_path rows) \<and> (\<forall>row \<in> set rows. tidy (r_path row))"

lemma add_rows_inv:
  "rows_tidy rows \<Longrightarrow> tree_inv X rows [] (fst (foldl (add_row X) (bt_insert [] [] [], []) rows))"
proof (induction rows rule: rev_induct)
  case Nil
  show ?case by (auto simp: tree_inv_def isdir_def child_of_def listing_def bt_get_Cons split: if_splits)
next
  case (snoc row rows)
  then show ?case by (auto simp: rows_tidy_def sorted_wrt_append intro!: add_row_inv)
qed

subsection \<open>The bottom-up pass\<close>

text \<open>A directory is listed in its parent with the hash of its own listing.\<close>

definition hashed :: "crates \<Rightarrow> (path, children) btree \<Rightarrow> path \<Rightarrow> bool" where
  "hashed X dirs d \<longleftrightarrow> d = [] \<or> child_of dirs (par d) (base d) = Some (hash_children X (listing dirs d), True)"

text \<open>The pass changes hashes of directories only.\<close>

definition same_shape :: "(path, children) btree \<Rightarrow> (path, children) btree \<Rightarrow> bool" where
  "same_shape dirs dirs' \<longleftrightarrow>
     (\<forall>d. isdir dirs' d \<longleftrightarrow> isdir dirs d)
     \<and> (\<forall>d n. map_option snd (child_of dirs' d n) = map_option snd (child_of dirs d n))
     \<and> (\<forall>d n h. child_of dirs' d n = Some (h, False) \<longleftrightarrow> child_of dirs d n = Some (h, False))"

lemma same_shape_trans: "same_shape a b \<Longrightarrow> same_shape b c \<Longrightarrow> same_shape a c"
  by (simp add: same_shape_def)

lemma same_shape_dir: "same_shape a b \<Longrightarrow> (\<exists>h. child_of b d n = Some (h, True)) \<longleftrightarrow> (\<exists>h. child_of a d n = Some (h, True))"
proof -
  assume "same_shape a b"
  then have "map_option snd (child_of b d n) = map_option snd (child_of a d n)" by (simp add: same_shape_def)
  then show ?thesis by (cases "child_of a d n"; cases "child_of b d n") auto
qed

definition all_listed :: "(path, children) btree \<Rightarrow> bool" where
  "all_listed dirs \<longleftrightarrow> (\<forall>d. isdir dirs d \<longrightarrow> d \<noteq> [] \<longrightarrow> tidy d \<and> (\<exists>h. child_of dirs (par d) (base d) = Some (h, True)))"

lemma set_dir_hash_shape:
  assumes "child_of dirs (par p) (base p) = Some (g, True)"
  shows "same_shape dirs (set_dir_hash p h dirs)"
  using assms by (auto simp: same_shape_def set_dir_hash_effect)

lemma set_dir_hash_listing: "d \<noteq> par p \<Longrightarrow> listing (set_dir_hash p h dirs) d = listing dirs d"
  by (auto simp: set_dir_hash_def listing_def Let_def case_prod_unfold bt_get_simps split: option.splits)

lemma set_dir_hash_hashed:
  assumes p: "isdir dirs p" "p \<noteq> []" "all_listed dirs"
    and d: "d = p \<or> (isdir dirs d \<and> p < d \<and> hashed X dirs d)"
  shows "hashed X (set_dir_hash p (hash_children X (listing dirs p)) dirs) d"
proof -
  have tp: "tidy p" and td: "d \<noteq> [] \<Longrightarrow> tidy d" using p d by (auto simp: all_listed_def)
  have pd: "p \<le> d" using d by auto
  then have up: "par p < d" using par_less [OF tp] by simp
  have other: "d \<noteq> p \<Longrightarrow> d \<noteq> [] \<Longrightarrow> \<not> (par d = par p \<and> base d = base p)"
    using tidyD(3) [OF tp] tidyD(3) [OF td] by metis
  obtain g where "child_of dirs (par p) (base p) = Some (g, True)" using p by (auto simp: all_listed_def)
  with d other up show ?thesis
    by (auto simp: hashed_def set_dir_hash_effect set_dir_hash_listing)
qed

lemma hash_dirs_hashed:
  assumes "sorted_wrt (>) ps" "[] \<in> set ps" "all_listed dirs"
    and "\<forall>d. isdir dirs d \<longleftrightarrow> d \<in> fin \<union> set ps" "\<forall>d \<in> fin. \<forall>p \<in> set ps. p < d" "\<forall>d \<in> fin. hashed X dirs d"
    and "hash_dirs X ps dirs = (dirs', root)"
  shows "same_shape dirs dirs' \<and> (\<forall>d. isdir dirs' d \<longrightarrow> hashed X dirs' d) \<and> root = hash_children X (listing dirs' [])"
  using assms
proof (induction ps arbitrary: dirs fin)
  case (Cons p ps)
  show ?case
  proof (cases "p = []")
    case True
    have "ps = []" using Cons.prems(1) True by (cases ps) auto
    with Cons.prems True show ?thesis by (auto simp: same_shape_def listing_def hashed_def Let_def)
  next
    case False
    let ?dirs = "set_dir_hash p (hash_children X (listing dirs p)) dirs"
    have p: "isdir dirs p" using Cons.prems(4) by simp
    obtain g where "child_of dirs (par p) (base p) = Some (g, True)" using p False Cons.prems(3) by (auto simp: all_listed_def)
    note shape = set_dir_hash_shape [OF this, of "hash_children X (listing dirs p)"]
    have lst: "all_listed ?dirs"
      using Cons.prems(3) same_shape_dir [OF shape] by (simp add: all_listed_def set_dir_hash_effect(1))
    have fin: "\<forall>d \<in> insert p fin. hashed X ?dirs d"
      using Cons.prems(4-6) by (auto intro!: set_dir_hash_hashed [OF p False Cons.prems(3)])
    have "hash_dirs X ps ?dirs = (dirs', root)" using Cons.prems(7) False by (simp add: listing_def Let_def)
    with Cons.IH [OF _ _ lst _ _ fin] Cons.prems False shape show ?thesis
      by (auto simp: set_dir_hash_effect(1) intro: same_shape_trans)
  qed
qed simp

lemma tree_inv_shape:
  assumes shape: "same_shape dirs dirs'" and inv: "tree_inv X rows x dirs"
  shows "tree_inv X rows x dirs'"
proof -
  note D = tree_invD [OF inv] and dir = same_shape_dir [OF shape]
  have same: "isdir dirs' d \<longleftrightarrow> isdir dirs d" "child_of dirs' d n = Some (h, False) \<longleftrightarrow> child_of dirs d n = Some (h, False)" for d n h
    using shape by (simp_all add: same_shape_def)
  have sub: "isdir dirs (join_prefix d n) \<and> name_ok n" if "child_of dirs' d n = Some (h, True)" for d n h
    using dir [of d n] that D(5) by blast
  show ?thesis
    unfolding tree_inv_def same dir using D(1-4,6,7) sub by (simp, blast)
qed

subsection \<open>What \<open>build\<close> makes of tidy rows\<close>

lemma build_laws:
  assumes "rows_tidy rows"
  shows "tree_inv X rows [] (mt_dirs (merkle_build X rows))"
    and "mt_root (merkle_build X rows) = hash_children X (listing (mt_dirs (merkle_build X rows)) [])"
    and "isdir (mt_dirs (merkle_build X rows)) d \<Longrightarrow> hashed X (mt_dirs (merkle_build X rows)) d"
proof -
  let ?dirs = "fst (foldl (add_row X) (bt_insert [] [] [], []) rows)"
  obtain dirs' root where run: "hash_dirs X (rev (bt_keys ?dirs)) ?dirs = (dirs', root)" by fastforce
  have inv: "tree_inv X rows [] ?dirs" using assms by (rule add_rows_inv)
  have ok: "bt_ok ?dirs" using dirs_ok_rows [of "(bt_insert [] [] [], [])" X rows] by (simp add: dirs_ok_def bt_ok_Cons)
  have "sorted_wrt (>) (rev (bt_keys ?dirs))"
    using ok by (simp add: bt_ok_def bt_keys_def sorted_wrt_rev)
  moreover have "\<forall>d. isdir ?dirs d \<longleftrightarrow> d \<in> {} \<union> set (rev (bt_keys ?dirs))" by (simp add: isdir_def bt_keys_mem)
  moreover have "all_listed ?dirs" using tree_invD(2,4) [OF inv] by (auto simp: all_listed_def)
  moreover have "[] \<in> set (rev (bt_keys ?dirs))" using tree_invD(1) [OF inv] by (simp add: isdir_def bt_keys_mem)
  ultimately have *: "same_shape ?dirs dirs' \<and> (\<forall>d. isdir dirs' d \<longrightarrow> hashed X dirs' d) \<and> root = hash_children X (listing dirs' [])"
    using run by (intro hash_dirs_hashed [of _ _ "{}"]) simp_all
  have t: "mt_dirs (merkle_build X rows) = dirs'" "mt_root (merkle_build X rows) = root"
    using run by (simp_all add: merkle_build_def case_prod_unfold Let_def)
  show "tree_inv X rows [] (mt_dirs (merkle_build X rows))" using tree_inv_shape [OF _ inv] * t by simp
  show "mt_root (merkle_build X rows) = hash_children X (listing (mt_dirs (merkle_build X rows)) [])" using * t by simp
  show "isdir (mt_dirs (merkle_build X rows)) d \<Longrightarrow> hashed X (mt_dirs (merkle_build X rows)) d" using * t by simp
qed

subsection \<open>Hashes as names\<close>

definition listing_bytes :: "children \<Rightarrow> bytes" where
  "listing_bytes cs = concat (map (\<lambda>(name, h, is_dir). as_bytes name @ [1, if is_dir then 1 else 0] @ h) cs)"

lemma hash_children_bytes: "hash_children X cs = blake3 X (listing_bytes cs)"
  by (simp add: hash_children_def listing_bytes_def)

lemma listing_bytes_simps [simp]:
  "listing_bytes [] = []"
  "listing_bytes ((n, h, f) # cs) = as_bytes n @ 1 # (if f then 1 else 0) # h @ listing_bytes cs"
  by (simp_all add: listing_bytes_def)

text \<open>Names with a zero or a one byte can imitate the separators of the hashed bytes.\<close>

definition clean :: "string \<Rightarrow> bool" where
  "clean s \<longleftrightarrow> 0 \<notin> set (as_bytes s) \<and> 1 \<notin> set (as_bytes s)"

lemma clean_append [simp]: "clean (s @ t) \<longleftrightarrow> clean s \<and> clean t"
  by (auto simp: clean_def)

lemma clean_Cons: "clean (c # s) \<Longrightarrow> clean s"
  by (auto simp: clean_def as_bytes_def)

lemma clean_join: "clean (join_prefix d n) \<Longrightarrow> clean n"
  by (auto simp: join_prefix_def dest: clean_Cons split: if_splits)

lemma clean_over: "dir_over d p \<Longrightarrow> clean p \<Longrightarrow> clean d"
  by (auto simp: dir_over_def)

lemma separators_differ:
  "0 \<notin> set xs \<Longrightarrow> 1 \<notin> set xs \<Longrightarrow> 0 \<notin> set xs' \<Longrightarrow> 1 \<notin> set xs' \<Longrightarrow> xs @ (0 :: u8) # ys \<noteq> xs' @ 1 # ys'"
proof (induction xs arbitrary: xs')
  case Nil
  then show ?case by (cases xs') auto
next
  case (Cons x xs)
  then show ?case by (cases xs') auto
qed

lemma first_separator: "x \<notin> set xs \<Longrightarrow> x \<notin> set xs' \<Longrightarrow> xs @ x # ys = xs' @ x # ys' \<longleftrightarrow> xs = xs' \<and> ys = ys'"
proof (induction xs arbitrary: xs')
  case Nil
  then show ?case by (cases xs') auto
next
  case (Cons a xs)
  then show ?case by (cases xs') auto
qed

lemma listing_bytes_inj:
  "\<forall>(n, h, f) \<in> set cs. clean n \<and> length h = 32 \<Longrightarrow> \<forall>(n, h, f) \<in> set cs'. clean n \<and> length h = 32 \<Longrightarrow>
   listing_bytes cs = listing_bytes cs' \<Longrightarrow> cs = cs'"
proof (induction cs arbitrary: cs')
  case Nil
  then show ?case by (cases cs') auto
next
  case (Cons c cs)
  obtain n h f where c: "c = (n, h, f)" by (cases c)
  show ?case
  proof (cases cs')
    case (Cons c' cs'')
    obtain n' h' f' where c': "c' = (n', h', f')" by (cases c')
    have sep: "1 \<notin> set (as_bytes n)" "1 \<notin> set (as_bytes n')" and len: "length h = length h'"
      using Cons.prems Cons c c' by (auto simp: clean_def)
    have "n = n' \<and> (if f then 1 else 0) = (if f' then 1 else 0 :: u8) \<and> h = h' \<and> listing_bytes cs = listing_bytes cs''"
      using Cons.prems(3) first_separator [OF sep] len by (simp add: Cons c c')
    with Cons.IH [of cs''] Cons.prems(1,2) show ?thesis by (auto simp: Cons c c' split: if_splits)
  qed (use Cons.prems c in simp)
qed

lemma leaf_is_no_listing:
  assumes "clean (r_path row)" "\<forall>(n, h, f) \<in> set cs. clean n"
  shows "leaf_bytes X row \<noteq> listing_bytes cs"
proof (cases cs)
  case (Cons c cs')
  then show ?thesis
    using assms separators_differ [of "as_bytes (r_path row)" "as_bytes (fst c)"]
    by (cases c) (auto simp: leaf_bytes_def clean_def)
qed (simp add: leaf_bytes_def)

definition vv_bytes :: "crates \<Rightarrow> version_vector \<Rightarrow> bytes" where
  "vv_bytes X v = unwrap_or (bincode_vv X v) []"

definition row_sized :: "file_row \<Rightarrow> bool" where
  "row_sized row \<longleftrightarrow> (\<forall>h. r_content_hash row = Some h \<longrightarrow> length h = 32) \<and> (\<forall>u. r_uuid row = Some u \<longrightarrow> length u = 16)"

lemma leaf_bytes_fields:
  assumes "leaf_bytes X a = leaf_bytes X b" "r_path a = r_path b" "row_sized a" "row_sized b" "\<And>bs. length (blake3 X bs) = 32"
  shows "r_tombstone a = r_tombstone b" "unwrap_or (r_content_hash a) (zeros 32) = unwrap_or (r_content_hash b) (zeros 32)"
    "unwrap_or (r_uuid a) (zeros 16) = unwrap_or (r_uuid b) (zeros 16)" "hash_of X (r_meta a) = hash_of X (r_meta b)"
    "vv_bytes X (r_vv a) = vv_bytes X (r_vv b)"
proof -
  have len: "length (unwrap_or (r_content_hash r) (zeros 32)) = 32 \<and> length (unwrap_or (r_uuid r) (zeros 16)) = 16 \<and> length (hash_of X (r_meta r)) = 32"
    if "row_sized r" for r
    using that assms(5) by (auto simp: row_sized_def hash_of_def META_NONE_def split: option.splits) (metis unwrap_or_simps option.exhaust length_zeros)+
  show "r_tombstone a = r_tombstone b" "unwrap_or (r_content_hash a) (zeros 32) = unwrap_or (r_content_hash b) (zeros 32)"
    "unwrap_or (r_uuid a) (zeros 16) = unwrap_or (r_uuid b) (zeros 16)" "hash_of X (r_meta a) = hash_of X (r_meta b)"
    "vv_bytes X (r_vv a) = vv_bytes X (r_vv b)"
    using assms(1,2) len [OF assms(3)] len [OF assms(4)] by (simp_all add: leaf_bytes_def vv_bytes_def split: if_splits)
qed

subsection \<open>Two trees\<close>

definition hashed_inputs :: "crates \<Rightarrow> file_row list \<Rightarrow> bytes set" where
  "hashed_inputs X rows = leaf_bytes X ` set rows \<union> {listing_bytes (listing (mt_dirs (merkle_build X rows)) d) |d. isdir (mt_dirs (merkle_build X rows)) d}"

text \<open>
  The rows of two nodes for which equal hashes mean equal bytes: tidy paths without the
  separator bytes, fields of the sizes their types have, no collision among the hashed
  bytes, and an encoding of vectors that determines them.
\<close>

definition comparable :: "crates \<Rightarrow> file_row list \<Rightarrow> file_row list \<Rightarrow> bool" where
  "comparable X rows rows' \<longleftrightarrow>
     rows_tidy rows \<and> rows_tidy rows'
     \<and> (\<forall>row \<in> set rows \<union> set rows'. clean (r_path row) \<and> row_sized row)
     \<and> (\<forall>bs. length (blake3 X bs) = 32)
     \<and> inj_on (blake3 X) (hashed_inputs X rows \<union> hashed_inputs X rows')
     \<and> inj_on (vv_bytes X) (r_vv ` (set rows \<union> set rows'))"

lemma build_entry_clean:
  assumes "rows_tidy rows" "\<forall>row \<in> set rows. clean (r_path row)" "\<And>bs. length (blake3 X bs) = 32"
    and "(n, h, f) \<in> set (listing (mt_dirs (merkle_build X rows)) d)"
  shows "clean n \<and> length h = 32"
proof -
  let ?dirs = "mt_dirs (merkle_build X rows)"
  note inv = build_laws(1) [OF assms(1), of X]
  have "bt_ok (listing ?dirs d)"
    using dirs_ok_get [OF merkle_dirs_ok] by (cases "bt_get ?dirs d") (auto simp: listing_def)
  then have e: "child_of ?dirs d n = Some (h, f)" using assms(4) by (simp add: child_of_def bt_get_mem_iff)
  show ?thesis
  proof (cases f)
    case True
    then have dir: "isdir ?dirs (join_prefix d n)" and n: "name_ok n" using tree_invD(5) [OF inv] e by auto
    have ne: "join_prefix d n \<noteq> []" using n by (auto simp: join_prefix_def name_ok_def)
    obtain row where "row \<in> set rows" "dir_over (join_prefix d n) (r_path row)" using tree_invD(3) [OF inv dir ne] by blast
    then have "clean n" using assms(2) clean_over clean_join by blast
    moreover have "child_of ?dirs d n = Some (hash_children X (listing ?dirs (join_prefix d n)), True)"
      using build_laws(3) [OF assms(1) dir] ne n by (simp add: hashed_def split_parent_join name_ok_def)
    ultimately show ?thesis using e assms(3) by (simp add: hash_children_bytes)
  next
    case False
    then obtain row where "row \<in> set rows" "r_path row = join_prefix d n" "h = leaf_hash X row"
      using tree_invD(6) [OF inv, of d n h] e by auto
    then show ?thesis using assms(2,3) clean_join by (auto simp: leaf_hash_def)
  qed
qed

abbreviation tree_dirs :: "crates \<Rightarrow> file_row list \<Rightarrow> (path, children) btree" where
  "tree_dirs X rows \<equiv> mt_dirs (merkle_build X rows)"

lemma comparableD:
  assumes "comparable X rows rows'"
  shows "rows_tidy rows" "rows_tidy rows'" "\<And>bs. length (blake3 X bs) = 32"
    and "row \<in> set rows \<union> set rows' \<Longrightarrow> clean (r_path row) \<and> row_sized row"
    and "bs \<in> hashed_inputs X rows \<union> hashed_inputs X rows' \<Longrightarrow> bs' \<in> hashed_inputs X rows \<union> hashed_inputs X rows' \<Longrightarrow>
      blake3 X bs = blake3 X bs' \<Longrightarrow> bs = bs'"
    and "a \<in> set rows \<union> set rows' \<Longrightarrow> b \<in> set rows \<union> set rows' \<Longrightarrow> vv_bytes X (r_vv a) = vv_bytes X (r_vv b) \<Longrightarrow> r_vv a = r_vv b"
  using assms unfolding comparable_def inj_on_def by blast+

lemma listing_input: "isdir (tree_dirs X rows) d \<Longrightarrow> listing_bytes (listing (tree_dirs X rows) d) \<in> hashed_inputs X rows"
  by (auto simp: hashed_inputs_def)

lemma leaf_input: "row \<in> set rows \<Longrightarrow> leaf_bytes X row \<in> hashed_inputs X rows"
  by (simp add: hashed_inputs_def)

lemma same_hash_same_listing:
  assumes cmp: "comparable X rows rows'" and d: "isdir (tree_dirs X rows) d" "isdir (tree_dirs X rows') d"
    and "hash_children X (listing (tree_dirs X rows) d) = hash_children X (listing (tree_dirs X rows') d)"
  shows "listing (tree_dirs X rows) d = listing (tree_dirs X rows') d"
proof -
  note D = comparableD [OF cmp]
  have "listing_bytes (listing (tree_dirs X rows) d) = listing_bytes (listing (tree_dirs X rows') d)"
    using assms(4) D(5) listing_input [OF d(1)] listing_input [OF d(2)] by (simp add: hash_children_bytes)
  moreover have "\<forall>(n, h, f) \<in> set (listing (tree_dirs X rows) d). clean n \<and> length h = 32"
    using build_entry_clean [OF D(1) _ D(3)] D(4) by blast
  moreover have "\<forall>(n, h, f) \<in> set (listing (tree_dirs X rows') d). clean n \<and> length h = 32"
    using build_entry_clean [OF D(2) _ D(3)] D(4) by blast
  ultimately show ?thesis by (rule listing_bytes_inj [rotated 2])
qed

text \<open>The bytes behind an entry.\<close>

lemma entry_dir:
  assumes "rows_tidy rows" "child_of (tree_dirs X rows) d n = Some (h, True)"
  shows "isdir (tree_dirs X rows) (join_prefix d n)" "h = blake3 X (listing_bytes (listing (tree_dirs X rows) (join_prefix d n)))"
    "name_ok n" "join_prefix d n \<noteq> []"
proof -
  show dir: "isdir (tree_dirs X rows) (join_prefix d n)" and n: "name_ok n"
    using tree_invD(5) [OF build_laws(1) [OF assms(1)] assms(2)] by auto
  show ne: "join_prefix d n \<noteq> []" using n by (auto simp: join_prefix_def name_ok_def)
  show "h = blake3 X (listing_bytes (listing (tree_dirs X rows) (join_prefix d n)))"
    using build_laws(3) [OF assms(1) dir] assms(2) ne n
    by (simp add: hashed_def split_parent_join name_ok_def hash_children_bytes)
qed

lemma entry_leaf:
  assumes "rows_tidy rows" "child_of (tree_dirs X rows) d n = Some (h, False)"
  obtains row where "row \<in> set rows" "r_path row = join_prefix d n" "h = blake3 X (leaf_bytes X row)"
  using tree_invD(6) [OF build_laws(1) [OF assms(1)] assms(2)] by (auto simp: leaf_hash_def)

lemma leaf_listing_no_clash:
  assumes cmp: "comparable X rows rows'" "rs \<in> {rows, rows'}" "rs' \<in> {rows, rows'}"
    and "child_of (tree_dirs X rs) d n = Some (h, True)" "child_of (tree_dirs X rs') d n = Some (h, False)"
  shows False
proof -
  note D = comparableD [OF cmp(1)]
  have t: "rows_tidy rs" "rows_tidy rs'" using cmp D(1,2) by auto
  obtain row where row: "row \<in> set rs'" "h = blake3 X (leaf_bytes X row)" using entry_leaf [OF t(2) assms(5)] by metis
  note dir = entry_dir [OF t(1) assms(4)]
  have eq: "leaf_bytes X row = listing_bytes (listing (tree_dirs X rs) (join_prefix d n))"
    using D(5) [of "leaf_bytes X row" "listing_bytes (listing (tree_dirs X rs) (join_prefix d n))"]
      leaf_input [OF row(1), of X] listing_input [OF dir(1)] cmp(2,3) row(2) dir(2) by auto
  have cl: "\<forall>(n, h, f) \<in> set (listing (tree_dirs X rs) (join_prefix d n)). clean n"
    using build_entry_clean [OF t(1) _ D(3)] D(4) cmp(2) by fastforce
  from leaf_is_no_listing [OF _ cl, of row X] D(4) [of row] row(1) cmp(3) eq show False by auto
qed

lemma same_hash_same_entry:
  assumes cmp: "comparable X rows rows'"
    and e: "child_of (tree_dirs X rows) d n = Some (h, f)" "child_of (tree_dirs X rows') d n = Some (h, f')"
  shows "f = f'"
    and "f' \<Longrightarrow> isdir (tree_dirs X rows) (join_prefix d n) \<and> listing (tree_dirs X rows) (join_prefix d n) = listing (tree_dirs X rows') (join_prefix d n)"
    and "\<not> f' \<Longrightarrow> row' \<in> set rows' \<Longrightarrow> r_path row' = join_prefix d n \<Longrightarrow> h = leaf_hash X row' \<Longrightarrow>
      \<exists>row \<in> set rows. r_path row = r_path row' \<and> leaf_bytes X row = leaf_bytes X row' \<and> r_vv row = r_vv row'"
proof -
  note D = comparableD [OF cmp]
  show eq: "f = f'"
    using leaf_listing_no_clash [OF cmp, of rows rows'] leaf_listing_no_clash [OF cmp, of rows' rows] e
    by (cases f; cases f') auto
  show "isdir (tree_dirs X rows) (join_prefix d n) \<and> listing (tree_dirs X rows) (join_prefix d n) = listing (tree_dirs X rows') (join_prefix d n)" if f'
  proof -
    have d: "child_of (tree_dirs X rows) d n = Some (h, True)" "child_of (tree_dirs X rows') d n = Some (h, True)" using e eq that by simp_all
    note a = entry_dir [OF D(1) d(1)] and b = entry_dir [OF D(2) d(2)]
    show ?thesis using a(1) same_hash_same_listing [OF cmp a(1) b(1)] a(2) b(2) by (simp add: hash_children_bytes)
  qed
  show "\<exists>row \<in> set rows. r_path row = r_path row' \<and> leaf_bytes X row = leaf_bytes X row' \<and> r_vv row = r_vv row'"
    if "\<not> f'" and row': "row' \<in> set rows'" "r_path row' = join_prefix d n" "h = leaf_hash X row'"
  proof -
    have "child_of (tree_dirs X rows) d n = Some (h, False)" using e(1) eq that(1) by simp
    then obtain row where row: "row \<in> set rows" "r_path row = join_prefix d n" "h = blake3 X (leaf_bytes X row)"
      by (rule entry_leaf [OF D(1)])
    have lb: "leaf_bytes X row = leaf_bytes X row'"
      using D(5) [of "leaf_bytes X row" "leaf_bytes X row'"] leaf_input [OF row(1), of X] leaf_input [OF row'(1), of X] row(3) row'(3)
      by (auto simp: leaf_hash_def)
    with leaf_bytes_fields(5) [OF lb _ _ _ D(3)] D(4) [of row] D(4) [of row'] D(6) [of row row'] row row' show ?thesis by auto
  qed
qed

definition visible :: "file_row list \<Rightarrow> file_row \<Rightarrow> bool" where
  "visible rows row \<longleftrightarrow> row \<in> set rows \<and> (\<forall>r \<in> set rows. \<not> dir_over (r_path row) (r_path r))"

lemma visible_entry:
  assumes "rows_tidy rows" "visible rows row"
  shows "child_of (tree_dirs X rows) (par (r_path row)) (base (r_path row)) = Some (leaf_hash X row, False)"
proof -
  note inv = build_laws(1) [OF assms(1), of X]
  have row: "row \<in> set rows" and t: "tidy (r_path row)" using assms by (auto simp: visible_def rows_tidy_def)
  have "\<not> isdir (tree_dirs X rows) (r_path row)"
    using tree_invD(3) [OF inv, of "r_path row"] tidyD(1) [OF t] assms(2) by (auto simp: visible_def)
  then have "child_of (tree_dirs X rows) (par (r_path row)) (base (r_path row)) \<noteq> Some (h, True)" for h
    using tree_invD(5) [OF inv, of "par (r_path row)" "base (r_path row)" h] tidyD(3) [OF t] by auto
  with tree_invD(7) [OF inv row] show ?thesis by auto
qed

lemma parent_isdir:
  assumes "rows_tidy rows" "isdir (tree_dirs X rows) d" "d \<noteq> []"
  shows "isdir (tree_dirs X rows) (par d)" "child_of (tree_dirs X rows) (par d) (base d) = Some (hash_children X (listing (tree_dirs X rows) d), True)"
proof -
  show e: "child_of (tree_dirs X rows) (par d) (base d) = Some (hash_children X (listing (tree_dirs X rows) d), True)"
    using build_laws(3) [OF assms(1,2)] assms(3) by (simp add: hashed_def)
  show "isdir (tree_dirs X rows) (par d)" by (rule entry_isdir [OF e])
qed

lemma equal_parents_equal_listing:
  assumes cmp: "comparable X rows rows'" and d: "isdir (tree_dirs X rows') d" "d \<noteq> []"
    and "listing (tree_dirs X rows) (par d) = listing (tree_dirs X rows') (par d)"
  shows "isdir (tree_dirs X rows) d \<and> listing (tree_dirs X rows) d = listing (tree_dirs X rows') d"
proof -
  note D = comparableD [OF cmp]
  note e = parent_isdir(2) [OF D(2) d]
  have t: "tidy d" using tree_invD(2) [OF build_laws(1) [OF D(2)] d] .
  have "child_of (tree_dirs X rows) (par d) (base d) = Some (hash_children X (listing (tree_dirs X rows') d), True)"
    using e assms(4) by (simp add: child_of_def)
  from same_hash_same_entry(2) [OF cmp this e] show ?thesis unfolding tidyD(3) [OF t] by blast
qed

lemma equal_roots_equal_listings:
  assumes cmp: "comparable X rows rows'" and root: "mt_root (merkle_build X rows) = mt_root (merkle_build X rows')"
    and d: "isdir (tree_dirs X rows') d"
  shows "listing (tree_dirs X rows) d = listing (tree_dirs X rows') d"
proof -
  note D = comparableD [OF cmp]
  note D1 = build_laws [OF D(1), of X] and D2 = build_laws [OF D(2), of X]
  have top: "listing (tree_dirs X rows) [] = listing (tree_dirs X rows') []"
    using same_hash_same_listing [OF cmp tree_invD(1) [OF D1(1)] tree_invD(1) [OF D2(1)]] root D1(2) D2(2) by simp
  have "listing (tree_dirs X rows) d = listing (tree_dirs X rows') d" if "tidy d" "isdir (tree_dirs X rows') d" for d
    using that
  proof (induction d rule: tidy_induct)
    case (top p)
    from equal_parents_equal_listing [OF cmp top.prems tidyD(1) [OF top.hyps(1)]] top.hyps(2)
      \<open>listing (tree_dirs X rows) [] = listing (tree_dirs X rows') []\<close> show ?case by simp
  next
    case (below p)
    note ne = tidyD(1) [OF below.hyps(1)]
    from equal_parents_equal_listing [OF cmp below.prems ne] below.IH parent_isdir(1) [OF D(2) below.prems ne]
    show ?case by blast
  qed
  then show ?thesis using top tree_invD(2) [OF D2(1) d] d by (cases "d = []") auto
qed

subsection \<open>What a tree shows\<close>

lemma dir_over_isdir:
  assumes "rows_tidy rows" "tidy p" "isdir (tree_dirs X rows) (par p)" "dir_over d p"
  shows "isdir (tree_dirs X rows) d"
  using assms(2-)
proof (induction p rule: tidy_induct)
  case (top p)
  then show ?case using dir_over_parent [of d p] by (auto simp: dir_over_def)
next
  case (below p)
  then show ?case using dir_over_parent [of d p] parent_isdir(1) [OF assms(1) below.prems(1) tidyD(1) [OF below.hyps(2)]] by auto
qed

lemma row_dirs:
  assumes "rows_tidy rows" "row \<in> set rows" "dir_over d (r_path row)"
  shows "isdir (tree_dirs X rows) d"
proof (rule dir_over_isdir [OF assms(1) _ _ assms(3)])
  show "tidy (r_path row)" using assms(1,2) by (auto simp: rows_tidy_def)
  show "isdir (tree_dirs X rows) (par (r_path row))"
    using tree_invD(7) [OF build_laws(1) [OF assms(1), of X] assms(2)] entry_isdir by blast
qed

lemma leaf_entry_visible:
  assumes "rows_tidy rows" "row \<in> set rows"
    and "child_of (tree_dirs X rows) (par (r_path row)) (base (r_path row)) = Some (h, False)"
  shows "visible rows row"
proof (rule ccontr)
  assume "\<not> visible rows row"
  with assms(2) obtain r where "r \<in> set rows" "dir_over (r_path row) (r_path r)" by (auto simp: visible_def)
  then have "isdir (tree_dirs X rows) (r_path row)" by (rule row_dirs [OF assms(1)])
  moreover have "r_path row \<noteq> []" using assms(1,2) tidyD(1) by (auto simp: rows_tidy_def)
  ultimately show False using parent_isdir(2) [OF assms(1)] assms(3) by fastforce
qed

text \<open>
  What a tree shows: of every row that is not hidden behind a directory of its name, the fields
  that are hashed.  The mode and the size of a row are not among them, and a missing content hash
  or identity counts as zeros.
\<close>

definition shown_fields :: "crates \<Rightarrow> file_row \<Rightarrow> path \<times> bool \<times> bytes \<times> bytes \<times> bytes \<times> version_vector" where
  "shown_fields X r = (r_path r, r_tombstone r, unwrap_or (r_content_hash r) (zeros 32), unwrap_or (r_uuid r) (zeros 16), hash_of X (r_meta r), r_vv r)"

definition shown :: "crates \<Rightarrow> file_row list \<Rightarrow> (path \<times> bool \<times> bytes \<times> bytes \<times> bytes \<times> version_vector) set" where
  "shown X rows = shown_fields X ` {r. visible rows r}"

lemma shown_row_known:
  assumes "comparable X rows rows'" "mt_root (merkle_build X rows) = mt_root (merkle_build X rows')"
    and "visible rows' row'"
  obtains row where "visible rows row" "shown_fields X row = shown_fields X row'"
proof -
  let ?p = "r_path row'"
  note D = comparableD [OF assms(1)]
  have row': "row' \<in> set rows'" and t: "tidy ?p" using assms(3) D(2) by (auto simp: visible_def rows_tidy_def)
  note e = visible_entry [OF D(2) assms(3), of X]
  have e': "child_of (tree_dirs X rows) (par ?p) (base ?p) = Some (leaf_hash X row', False)"
    using equal_roots_equal_listings [OF assms(1,2) entry_isdir [OF e]] e by (simp add: child_of_def)
  obtain row where row: "row \<in> set rows" "r_path row = ?p" "leaf_bytes X row = leaf_bytes X row'" "r_vv row = r_vv row'"
    using same_hash_same_entry(3) [OF assms(1) e' e _ row'] tidyD(3) [OF t] by auto
  have "visible rows row" using leaf_entry_visible [OF D(1) row(1)] e' row(2) by simp
  moreover have "shown_fields X row = shown_fields X row'"
    using leaf_bytes_fields [OF row(3,2) _ _ D(3)] D(4) [of row] D(4) [of row'] row row' by (simp add: shown_fields_def)
  ultimately show thesis by (rule that)
qed

lemma root_shows:
  assumes "comparable X rows rows'" "mt_root (merkle_build X rows) = mt_root (merkle_build X rows')"
  shows "shown X rows' \<subseteq> shown X rows"
proof
  fix s assume "s \<in> shown X rows'"
  then obtain row' where "visible rows' row'" "s = shown_fields X row'" by (auto simp: shown_def)
  moreover from shown_row_known [OF assms this(1)] obtain row where "visible rows row" "shown_fields X row = shown_fields X row'" .
  ultimately show "s \<in> shown X rows" unfolding shown_def by (intro image_eqI [of _ _ row]) simp_all
qed

lemma comparable_sym: "comparable X rows rows' \<Longrightarrow> comparable X rows' rows"
  by (auto simp: comparable_def Un_commute)


subsection \<open>The tree is a function of what it shows\<close>

lemma leaf_hash_shown: "shown_fields X a = shown_fields X b \<Longrightarrow> leaf_hash X a = leaf_hash X b \<and> r_path a = r_path b"
  by (simp add: shown_fields_def leaf_hash_def leaf_bytes_def)

lemma shownD:
  assumes "shown X rows = shown X rows'" "visible rows row"
  obtains row' where "visible rows' row'" "r_path row' = r_path row" "leaf_hash X row' = leaf_hash X row"
proof -
  have "shown_fields X row \<in> shown X rows'" using assms by (auto simp: shown_def)
  then obtain row' where "visible rows' row'" "shown_fields X row' = shown_fields X row" by (auto simp: shown_def)
  with leaf_hash_shown that show thesis by blast
qed

text \<open>The longest path below a directory is shown.\<close>

lemma visible_below:
  assumes "row \<in> set rows" "dir_over d (r_path row)"
  obtains r where "visible rows r" "dir_over d (r_path r)"
proof -
  let ?S = "{r \<in> set rows. dir_over d (r_path r)}" and ?len = "\<lambda>r. length (r_path r)"
  have "Max (?len ` ?S) \<in> ?len ` ?S" using assms by (intro Max_in) auto
  then obtain r where r: "r \<in> ?S" "?len r = Max (?len ` ?S)" by auto
  have "\<not> dir_over (r_path r) (r_path r')" if r': "r' \<in> set rows" for r'
  proof
    assume below: "dir_over (r_path r) (r_path r')"
    then have "r' \<in> ?S" using r(1) r' by (auto simp: dir_over_def)
    then have "?len r' \<le> ?len r" unfolding r(2) by (intro Max_ge) auto
    with below show False by (auto simp: dir_over_def)
  qed
  with r(1) that show thesis by (auto simp: visible_def)
qed

lemma shown_dirs:
  assumes "rows_tidy rows" "rows_tidy rows'" "shown X rows = shown X rows'" "isdir (tree_dirs X rows) d"
  shows "isdir (tree_dirs X rows') d"
proof (cases "d = []")
  case True
  then show ?thesis using tree_invD(1) [OF build_laws(1) [OF assms(2)]] by simp
next
  case False
  then obtain row where "row \<in> set rows" "dir_over d (r_path row)"
    using tree_invD(3) [OF build_laws(1) [OF assms(1)] assms(4)] by blast
  then obtain r where "visible rows r" "dir_over d (r_path r)" by (rule visible_below)
  moreover from shownD [OF assms(3) this(1)] obtain r' where "visible rows' r'" "r_path r' = r_path r" .
  ultimately show ?thesis using row_dirs [OF assms(2)] by (auto simp: visible_def)
qed

lemma shown_entries:
  assumes "rows_tidy rows" "rows_tidy rows'" "shown X rows = shown X rows'" "child_of (tree_dirs X rows) d n = Some v"
    and below: "\<And>e. isdir (tree_dirs X rows) e \<Longrightarrow> length d < length e \<Longrightarrow> listing (tree_dirs X rows) e = listing (tree_dirs X rows') e"
  shows "child_of (tree_dirs X rows') d n = Some v"
proof (cases v)
  case (Pair h f)
  note inv = build_laws(1) [OF assms(1), of X]
  show ?thesis
  proof (cases f)
    case True
    with Pair assms(4) have e: "child_of (tree_dirs X rows) d n = Some (h, True)" by simp
    let ?e = "join_prefix d n"
    note dir = entry_dir [OF assms(1) e]
    have at: "par ?e = d" "base ?e = n" using dir(3) by (simp_all add: name_ok_def split_parent_join)
    have "length d < length ?e" using dir(3) by (auto simp: join_prefix_def name_ok_def)
    from below [OF dir(1) this] have h: "h = hash_children X (listing (tree_dirs X rows') ?e)" using dir(2) by (simp add: hash_children_bytes)
    show ?thesis using parent_isdir(2) [OF assms(2) shown_dirs [OF assms(1-3) dir(1)] dir(4)] Pair True h at by simp
  next
    case False
    with Pair assms(4) have e: "child_of (tree_dirs X rows) d n = Some (h, False)" by simp
    obtain row where row: "name_ok n" "row \<in> set rows" "r_path row = join_prefix d n" "h = leaf_hash X row"
      using tree_invD(6) [OF inv e] by blast
    have at: "par (r_path row) = d" "base (r_path row) = n" using row(1,3) by (simp_all add: name_ok_def split_parent_join)
    have "visible rows row" using leaf_entry_visible [OF assms(1) row(2)] e at by simp
    then obtain row' where "visible rows' row'" "r_path row' = r_path row" "leaf_hash X row' = leaf_hash X row"
      by (rule shownD [OF assms(3)])
    with visible_entry [OF assms(2), of row' X] Pair False row(4) at show ?thesis by simp
  qed
qed

lemma shown_listings:
  assumes "rows_tidy rows" "rows_tidy rows'" "shown X rows = shown X rows'" "isdir (tree_dirs X rows) d"
  shows "listing (tree_dirs X rows) d = listing (tree_dirs X rows') d"
proof -
  let ?B = "sum_list (map (\<lambda>r. length (r_path r)) rows)"
  have bound: "length e \<le> ?B" if e: "isdir (tree_dirs X rows) e" for e
  proof (cases "e = []")
    case False
    then obtain row where row: "row \<in> set rows" "dir_over e (r_path row)"
      using tree_invD(3) [OF build_laws(1) [OF assms(1)] e] by blast
    then have "length (r_path row) \<le> ?B" by (intro member_le_sum_list) auto
    with row(2) show ?thesis by (auto simp: dir_over_def)
  qed simp
  show ?thesis
    using assms(4)
  proof (induction "?B - length d" arbitrary: d rule: less_induct)
    case less
    have deeper: "listing (tree_dirs X rows) e = listing (tree_dirs X rows') e"
      if "isdir (tree_dirs X rows) e" "length d < length e" for e
      using less(1) [of e] that bound [of e] by simp
    have "child_of (tree_dirs X rows) d n = child_of (tree_dirs X rows') d n" for n
    proof -
      note there = shown_entries [OF assms(1-3), of d n] and other = shown_entries [OF assms(2,1) assms(3) [symmetric], of d n]
      have rev: "listing (tree_dirs X rows') e = listing (tree_dirs X rows) e"
        if "isdir (tree_dirs X rows') e" "length d < length e" for e
        using deeper [OF shown_dirs [OF assms(2,1) assms(3) [symmetric] that(1)] that(2)] by simp
      show ?thesis using there deeper other rev by (metis option.exhaust)
    qed
    moreover have "bt_ok (listing (tree_dirs X rs) d)" for rs
      using dirs_ok_get [OF merkle_dirs_ok] by (cases "bt_get (tree_dirs X rs) d") (auto simp: listing_def)
    ultimately show ?case by (intro bt_canonical) (simp_all add: child_of_def)
  qed
qed

subsection \<open>Properties\<close>

text \<open>
  C7. The root hash stands for what the tree shows.  For two indexes of sorted, distinct, tidy
  paths without the bytes 0 and 1, with hashes and identities of their sizes, when no two of the
  byte strings that the two trees hash collide and the encoding of version vectors determines
  them: the roots are equal exactly when the two indexes show the same rows, that is, the same
  set of path, deletion mark, content hash, identity, metadata hash and version vector over all
  rows that are not hidden behind a directory of the same name.  Hidden rows, modes and sizes
  may differ.
\<close>

theorem equal_roots_equal_rows:
  assumes "comparable X rows rows'"
  shows "mt_root (merkle_build X rows) = mt_root (merkle_build X rows') \<longleftrightarrow> shown X rows = shown X rows'"
proof
  assume root: "mt_root (merkle_build X rows) = mt_root (merkle_build X rows')"
  show "shown X rows = shown X rows'"
    using root_shows [OF assms root] root_shows [OF comparable_sym [OF assms] root [symmetric]] by (rule equalityI [rotated])
next
  assume same: "shown X rows = shown X rows'"
  note D = comparableD [OF assms]
  show "mt_root (merkle_build X rows) = mt_root (merkle_build X rows')"
    using build_laws(2) [OF D(1), of X] build_laws(2) [OF D(2), of X]
      shown_listings [OF D(1,2) same tree_invD(1) [OF build_laws(1) [OF D(1)]]] by simp
qed

definition short_crates :: crates where
  "short_crates = plain_crates\<lparr>blake3 := \<lambda>bs. take 32 (bs @ zeros 32)\<rparr>"

lemma one_row_dirs: "r_path row = ''f'' \<Longrightarrow> tree_dirs X [row] = [([], [(''f'', leaf_hash X row, False)])]"
  by (simp add: merkle_build_def add_row_def put_child_def add_ancestors.simps bt_get_Cons bt_keys_def Let_def)

lemma no_row_dirs: "tree_dirs X [] = [([], [])]"
  by (simp add: merkle_build_def bt_keys_def Let_def)

lemma one_row_inputs:
  assumes "r_path row = ''f''"
  shows "hashed_inputs X [row] = {leaf_bytes X row, 102 # 1 # 0 # leaf_hash X row}" "hashed_inputs X [] = {[]}"
  unfolding hashed_inputs_def one_row_dirs [OF assms] no_row_dirs
  by (auto simp: isdir_def listing_def bt_get_Cons as_bytes_def split: if_splits)

lemma word_102: "(102 :: u8) \<noteq> 0"
  by simp

lemma one_row_comparable:
  assumes "r_path row = ''f''" "row_sized row" "rows = [] \<or> rows = [row]"
  shows "comparable short_crates rows [row]"
proof -
  let ?hash = "\<lambda>bs. take 32 (bs @ zeros 32) :: bytes"
  obtain rest where leaf: "leaf_bytes short_crates row = 102 # 0 # rest"
    using assms(1) by (simp add: leaf_bytes_def as_bytes_def)
  have hash: "blake3 short_crates = ?hash" by (simp add: short_crates_def)
  have one: "blake3 short_crates (102 # 0 # xs) \<noteq> blake3 short_crates (102 # 1 # ys)" for xs ys
    by (simp add: hash zeros_def)
  have "hd (blake3 short_crates (102 # xs)) = 102" "hd (blake3 short_crates []) = 0" for xs by (simp_all add: hash zeros_def)
  then have none: "blake3 short_crates (102 # xs) \<noteq> blake3 short_crates []" for xs by (metis word_102)
  note clash = one one [symmetric] none none [symmetric]
  have "inj_on (blake3 short_crates) (hashed_inputs short_crates rows \<union> hashed_inputs short_crates [row])"
    using assms(3) clash by (auto simp: one_row_inputs [OF assms(1)] leaf inj_on_def)
  moreover have "tidy ''f''" "clean ''f''" by (simp_all add: tidy.simps join_prefix_def clean_def as_bytes_def)
  moreover have "length (blake3 short_crates bs) = 32" for bs by (simp add: hash)
  ultimately show ?thesis
    using assms by (auto simp: comparable_def rows_tidy_def)
qed

lemma f_rows_comparable:
  assumes "r_path a = ''f''" "r_path b = ''f''" "row_sized a" "row_sized b" "r_vv a = r_vv b"
    and "leaf_bytes short_crates a = leaf_bytes short_crates b \<or> r_tombstone a \<noteq> r_tombstone b"
  shows "comparable short_crates [a] [b]"
proof -
  have hash: "blake3 short_crates = (\<lambda>bs. take 32 (bs @ zeros 32))" by (simp add: short_crates_def)
  obtain ra rb where leaf: "leaf_bytes short_crates a = 102 # 0 # (if r_tombstone a then 1 else 0) # ra"
    "leaf_bytes short_crates b = 102 # 0 # (if r_tombstone b then 1 else 0) # rb"
    using assms(1,2) by (simp add: leaf_bytes_def as_bytes_def)
  have "inj_on (blake3 short_crates) (hashed_inputs short_crates [a] \<union> hashed_inputs short_crates [b])"
    using assms(6) by (auto simp: one_row_inputs(1) [OF assms(1)] one_row_inputs(1) [OF assms(2)] leaf leaf_hash_def inj_on_def hash split: if_splits)
  moreover have "tidy ''f''" "clean ''f''" by (simp_all add: tidy.simps join_prefix_def clean_def as_bytes_def)
  moreover have "length (blake3 short_crates bs) = 32" for bs by (simp add: hash)
  ultimately show ?thesis
    using assms by (auto simp: comparable_def rows_tidy_def)
qed

lemma one_shown: "r_path row = ''f'' \<Longrightarrow> shown X [row] = {shown_fields X row}"
  by (auto simp: shown_def visible_def dir_over_def)

text \<open>Rows that differ in a field that is not hashed, and rows that differ in one that is.\<close>

theorem equal_roots_equal_rows_witness:
  "mt_root (merkle_build short_crates [example_row ''f'' False]) = mt_root (merkle_build short_crates [(example_row ''f'' False)\<lparr>r_size := 5\<rparr>])
   \<and> mt_root (merkle_build short_crates [example_row ''f'' False]) \<noteq> mt_root (merkle_build short_crates [example_row ''f'' True])"
proof
  let ?a = "example_row ''f'' False"
  have 1: "comparable short_crates [?a] [?a\<lparr>r_size := 5\<rparr>]" and 2: "comparable short_crates [?a] [example_row ''f'' True]"
    by (rule f_rows_comparable; simp add: example_row_def row_sized_def leaf_bytes_def)+
  show "mt_root (merkle_build short_crates [?a]) = mt_root (merkle_build short_crates [?a\<lparr>r_size := 5\<rparr>])"
    using equal_roots_equal_rows [OF 1] by (simp add: one_shown example_row_def shown_fields_def)
  show "mt_root (merkle_build short_crates [?a]) \<noteq> mt_root (merkle_build short_crates [example_row ''f'' True])"
    using equal_roots_equal_rows [OF 2] by (simp add: one_shown example_row_def shown_fields_def)
qed

subsection \<open>Where the tree is ambiguous\<close>

text \<open>
  The hashed bytes of a listing do not delimit names: one file whose name holds the separator
  and another file's hash has the listing hash of two files, whatever the hash function.
\<close>

lemma listing_hash_ambiguous:
  "hash_children X [(a, as_bytes s, False), (b, h, f)] = hash_children X [(a @ [CHR 0x01, CHR 0x00] @ s @ b, h, f)]"
  by (simp add: hash_children_def as_bytes_def)

text \<open>The order of the rows matters when a path is a row and a directory.\<close>

lemma build_order_matters:
  "mt_root (merkle_build plain_crates [example_row ''a'' True, example_row ''a/b'' False]) \<noteq>
   mt_root (merkle_build plain_crates [example_row ''a/b'' False, example_row ''a'' True])"
  by (simp add: merkle_build_def add_row_def put_child_def mark_dir_def add_ancestors.simps bt_get_Cons bt_keys_def
      set_dir_hash_def Let_def example_row_def hash_children_def plain_crates_def as_bytes_def)

end
