(* ===== verification/Pull_Complete.thy ===== *)
theory Pull_Complete
  imports Pull_Laws Merkle_Laws
begin

text \<open>
  What a pull achieves: a leaf that is not skipped is covered afterwards, the descent
  visits every differing directory, and it ends when the remote tree is finite.
\<close>

definition covers :: "node \<Rightarrow> path \<Rightarrow> version_vector \<Rightarrow> bool" where
  "covers n p v \<longleftrightarrow> (\<exists>r. load_row (nd_db n) p = Some r \<and> vv_le v (r_vv r))"

lemma covers_decide: "decide (load_file (nd_db n) p) v = Ignore \<longleftrightarrow> covers n p v"
  by (cases "load_row (nd_db n) p") (auto simp: covers_def load_file_row decide_Some_cases row_local_def)

lemma covers_evolves: "covers n p v \<Longrightarrow> evolves E n n' \<Longrightarrow> store_ok (e_node E) (nd_store n) \<Longrightarrow> covers n' p v"
  unfolding covers_def evolves_def grows_def by (meson vv_le_trans)

lemma store_ok_evolves: "evolves E n n' \<Longrightarrow> store_ok (e_node E) (nd_store n) \<Longrightarrow> store_ok (e_node E) (nd_store n')"
  by (simp add: evolves_def)

lemma and_then_case:
  assumes "snd (and_then r k) = Inr y"
  obtains x where "snd r = Inr x" "and_then r k = k x (fst r)" "snd (k x (fst r)) = Inr y"
  using assms by (cases r; cases "snd r") (auto simp: and_then_def)

lemma resolve_commit_covers:
  assumes "store_ok (e_node E) (nd_store n)" "vv_ok (v_vv rv)"
    and "snd (on_store E (store_resolve_rows (e_crates E) (e_node E) p rv staged) n) = Inr Resolved"
  shows "covers (fst (on_store E (store_resolve_rows (e_crates E) (e_node E) p rv staged) n)) p (v_vv rv)"
proof -
  let ?m = "await E n"
  obtain d' r where run: "resolve_rows (e_crates E) p rv staged (nd_db ?m) = (d', r)" by fastforce
  have ok: "store_ok (e_node E) (nd_store ?m)" using store_ok_evolves [OF await_evolves assms(1)] .
  from assms(3) run have "r = Inr Resolved"
    by (auto simp: on_store_def store_writes Let_def resolve_fault_def split: sum.splits resolve_error.splits)
  with resolve_settles [of "nd_db ?m" rv "e_crates E" p staged d'] ok assms(2) run
  have "decide (load_file d' p) (v_vv rv) = Ignore" by (simp add: store_ok_def db_ok_def)
  moreover have "nd_db (fst (on_store E (store_resolve_rows (e_crates E) (e_node E) p rv staged) n)) = d'"
    by (simp add: on_store_def store_writes run Let_def)
  ultimately show ?thesis by (simp add: covers_decide [symmetric])
qed

lemma upsert_covers:
  assumes "store_ok (e_node E) (nd_store n)" "vv_ok (rr_vv row)"
    and "snd (on_store E (store_reconcile_upsert (e_crates E) (e_node E) row) n) = Inr Apply"
  shows "covers (fst (on_store E (store_reconcile_upsert (e_crates E) (e_node E) row) n)) (rr_path row) (rr_vv row)"
proof -
  let ?d = "nd_db (await E n)"
  have "files_ok (t_files ?d)" using store_ok_evolves [OF await_evolves assms(1)] by (simp add: store_ok_def db_ok_def)
  then have ok: "case load_file ?d (rr_path row) of Some l \<Rightarrow> vv_ok (lf_vv l) | None \<Rightarrow> True"
    by (auto simp: load_file_row row_local_def dest: files_ok_vv split: option.splits)
  have "vv_le (rr_vv row) (merged_vv (load_file ?d (rr_path row)) (rr_vv row))"
    using ok assms(2) by (auto simp: merged_vv_def intro!: vv_merge_ub2 split: option.splits)
  moreover have "snd (reconcile_upsert row ?d) = Apply"
    using assms(3) by (simp add: on_store_def store_writes Let_def case_prod_unfold)
  ultimately show ?thesis
    by (simp add: covers_def on_store_def store_writes Let_def case_prod_unfold reconcile_upsert_def split: if_splits)
qed

definition differs :: "children \<Rightarrow> wire_child \<Rightarrow> bool" where
  "differs lc child \<longleftrightarrow> (case bt_get lc (wc_name child) of Some (h, _) \<Rightarrow> h \<noteq> wc_hash child | None \<Rightarrow> True)"

definition skips :: "reconcile_report \<Rightarrow> nat" where
  "skips rep = rep_skipped_concurrent rep + rep_skipped_damaged rep"

lemma bump_skips:
  assumes "bump res rep = Inr rep'"
  shows "skips rep \<le> skips rep'" "skips rep' = skips rep \<Longrightarrow> res = Inr LApplied \<or> res = Inr LResolved"
  using assms by (auto simp: bump_def skips_def split: sum.splits leaf_outcome.splits if_splits)

context reconcile_transport begin

lemma resolve_rounds_covers:
  "store_ok (e_node E) (nd_store n) \<Longrightarrow> vv_ok (v_vv rv) \<Longrightarrow> snd (resolve_rounds k E T p rv staged ps n) = Inr True \<Longrightarrow>
   covers (fst (resolve_rounds k E T p rv staged ps n)) p (v_vv rv)"
proof (induction k arbitrary: staged ps n)
  case (Suc k)
  let ?c = "on_store E (store_resolve_rows (e_crates E) (e_node E) p rv staged) n"
  have ok: "store_ok (e_node E) (nd_store (fst ?c))"
    using store_ok_evolves [OF resolve_rows_evolves [OF Suc.prems(2)] Suc.prems(1)] .
  from Suc.prems(3) obtain outcome where out: "snd (err_from RStore ?c) = Inr outcome"
    by (auto elim!: and_then_case)
  note run = and_then_run [OF out]
  show ?case
  proof (cases outcome)
    case Resolved
    with out resolve_commit_covers [OF Suc.prems(1,2), of p staged] show ?thesis by (simp add: run)
  next
    case (Stale plan)
    obtain m ps' e where st: "stage_plan E T plan ps (fst ?c) = (m, ps', e)" by (metis prod_cases3)
    have m: "store_ok (e_node E) (nd_store m)"
      using store_ok_evolves [OF _ ok] stage_plan_evolves [of "fst ?c" plan ps] st by simp
    have "resolve_rounds (Suc k) E T p rv staged ps n = resolve_rounds k E T p rv plan ps' m"
      using Suc.prems(3) Stale st by (cases e) (simp_all add: run)
    with Suc.IH [OF m Suc.prems(2), of plan ps'] Suc.prems(3) show ?thesis by simp
  qed (use Suc.prems(3) in \<open>simp_all add: run\<close>)
qed simp

lemma resolve_leaf_covers:
  "store_ok (e_node E) (nd_store n) \<Longrightarrow> vv_ok (rl_vv l) \<Longrightarrow> snd (resolve_concurrent_leaf E T p l n) = Inr True \<Longrightarrow>
   covers (fst (resolve_concurrent_leaf E T p l n)) p (rl_vv l)"
  using resolve_rounds_covers [of n "leaf_version (e_crates E) l" 4 p "[]" "[]"]
  by (simp add: resolve_concurrent_leaf_def leaf_version_def)

lemma apply_leaf_covers:
  assumes "store_ok (e_node E) (nd_store n)" "vv_ok (rl_vv l)"
    and "snd (apply_remote_leaf E T p l n) = Inr out" "out \<noteq> LSkipped"
  shows "covers (fst (apply_remote_leaf E T p l n)) p (rl_vv l)"
proof -
  let ?d = "leaf_to_disk E T p l n"
  let ?u = "on_store E (store_reconcile_upsert (e_crates E) (e_node E) (leaf_row p l)) (fst ?d)"
  have row: "rr_vv (leaf_row p l) = rl_vv l" "rr_path (leaf_row p l) = p" by (simp_all add: leaf_row_def)
  have okd: "store_ok (e_node E) (nd_store (fst ?d))" using store_ok_evolves [OF leaf_to_disk_evolves assms(1)] .
  have oku: "store_ok (e_node E) (nd_store (fst ?u))"
    using store_ok_evolves [OF reconcile_upsert_evolves okd, of "leaf_row p l"] assms(2) row by simp
  from assms(3) obtain x where d: "snd ?d = Inr x" by (auto simp: apply_remote_leaf_def elim!: and_then_case)
  from assms(3) obtain eff where u: "snd (err_from RStore ?u) = Inr eff"
    by (auto simp: apply_remote_leaf_def and_then_run [OF d] elim!: and_then_case)
  note run = apply_remote_leaf_def and_then_run [OF d] and_then_run [OF u]
  show ?thesis
  proof (cases "eff = Apply")
    case True
    then have "snd ?u = Inr Apply" using u by simp
    from upsert_covers [OF okd _ this] assms(2) row True show ?thesis by (simp add: run)
  next
    case False
    let ?m = "restore_local_content E p (fst ?u)"
    have m: "store_ok (e_node E) (nd_store ?m)" using store_ok_evolves [OF restore_evolves oku] .
    have "eff = DConcurrent" using assms(3,4) False by (auto simp: run Let_def split: if_splits)
    with False have r: "apply_remote_leaf E T p l n =
        and_then (resolve_concurrent_leaf E T p l ?m) (\<lambda>settled n. (n, Inr (if settled then LResolved else LSkipped)))"
      by (simp add: run Let_def)
    with assms(3,4) have "snd (resolve_concurrent_leaf E T p l ?m) = Inr True"
      by (auto elim!: and_then_case split: if_splits)
    with resolve_leaf_covers [OF m assms(2), of p] r show ?thesis by (simp add: and_then_run)
  qed
qed

lemma handle_leaf_covers:
  assumes "store_ok (e_node E) (nd_store n)" "\<And>l. leaf_ok l \<Longrightarrow> vv_ok (rl_vv l)"
    and "handle_leaf E T p rep n = (n', Inr rep')"
  shows "skips rep \<le> skips rep'"
    and "skips rep' = skips rep \<Longrightarrow> snd (tr_leaf T p n) = Inr (Some l) \<Longrightarrow> covers n' p (rl_vv l)"
proof -
  let ?f = "tr_leaf T p n"
  define rep1 where "rep1 = rep\<lparr>rep_leaves_compared := Suc (rep_leaves_compared rep)\<rparr>"
  have s1: "skips rep1 = skips rep" by (simp add: rep1_def skips_def)
  have okf: "store_ok (e_node E) (nd_store (fst ?f))" using store_ok_evolves [OF leaf_evolves assms(1)] .
  from assms(3) obtain found where f: "snd ?f = Inr found"
    by (auto simp: handle_leaf_def Let_def dest!: arg_cong [of _ _ snd] elim!: and_then_case)
  have "skips rep \<le> skips rep' \<and> (skips rep' = skips rep \<longrightarrow> snd ?f = Inr (Some l) \<longrightarrow> covers n' p (rl_vv l))"
  proof (cases found)
    case None
    with assms(3) f have "rep' = rep1" by (auto simp: handle_leaf_def rep1_def and_then_run [OF f] Let_def)
    with None f s1 show ?thesis by simp
  next
    case (Some k)
    let ?m = "await E (fst ?f)"
    let ?dec = "decide (load_file (nd_db ?m) p) (rl_vv k)"
    have m: "store_ok (e_node E) (nd_store ?m)" using store_ok_evolves [OF await_evolves okf] .
    have vv: "vv_ok (rl_vv k)" using leaf_delivers f Some assms(2) by blast
    have run: "handle_leaf E T p rep n = (case ?dec of
        DConcurrent \<Rightarrow> (let (n, res) = resolve_concurrent_leaf E T p k ?m
           in (n, bump (case res of Inl e \<Rightarrow> Inl e | Inr b \<Rightarrow> Inr (if b then LResolved else LSkipped)) rep1))
      | Apply \<Rightarrow> (let (n, res) = apply_remote_leaf E T p k ?m in (n, bump res rep1))
      | _ \<Rightarrow> (?m, Inr rep1))"
      by (simp add: handle_leaf_def rep1_def [symmetric] and_then_run [OF f] Some ask_store_run Let_def)
    have eq: "snd ?f = Inr (Some l) \<Longrightarrow> k = l" using f Some by simp
    show ?thesis
    proof (cases ?dec)
      case Apply
      with assms(3) run have b: "bump (snd (apply_remote_leaf E T p k ?m)) rep1 = Inr rep'" "n' = fst (apply_remote_leaf E T p k ?m)"
        by (auto simp: Let_def case_prod_unfold)
      from bump_skips [OF b(1)] apply_leaf_covers [OF m vv, of p] b(2) s1 eq show ?thesis by auto
    next
      case Ignore
      with assms(3) run s1 eq covers_decide [of ?m p "rl_vv k"] show ?thesis by auto
    next
      case DConcurrent
      let ?r = "resolve_concurrent_leaf E T p k ?m"
      from DConcurrent assms(3) run have b: "bump (case snd ?r of Inl e \<Rightarrow> Inl e | Inr b \<Rightarrow> Inr (if b then LResolved else LSkipped)) rep1 = Inr rep'"
        "n' = fst ?r"
        by (auto simp: Let_def case_prod_unfold)
      from bump_skips [OF b(1)] resolve_leaf_covers [OF m vv, of p] b(2) s1 eq show ?thesis
        by (auto split: sum.splits if_splits)
    next
      case Quarantined
      then show ?thesis using decide_not_quarantined by blast
    qed
  qed
  then show "skips rep \<le> skips rep'" "skips rep' = skips rep \<Longrightarrow> snd (tr_leaf T p n) = Inr (Some l) \<Longrightarrow> covers n' p (rl_vv l)"
    by auto
qed

end

subsection \<open>The descent\<close>

abbreviation local_listing :: "merkle_tree \<Rightarrow> path \<Rightarrow> children" where
  "local_listing t d \<equiv> unwrap_or (merkle_children t d) []"

text \<open>The directories a pull visits from a directory in its queue.\<close>

inductive visits :: "merkle_tree \<Rightarrow> (path \<Rightarrow> wire_child list) \<Rightarrow> path \<Rightarrow> path \<Rightarrow> bool" for t L where
  visits_here: "visits t L d d"
| visits_down: "c \<in> set (L d) \<Longrightarrow> differs (local_listing t d) c \<Longrightarrow> wc_is_dir c \<Longrightarrow>
    visits t L (join_prefix d (wc_name c)) e \<Longrightarrow> visits t L d e"

lemma visits_snoc:
  "visits t L d e \<Longrightarrow> c \<in> set (L e) \<Longrightarrow> differs (local_listing t e) c \<Longrightarrow> wc_is_dir c \<Longrightarrow>
   visits t L d (join_prefix e (wc_name c))"
  by (induction rule: visits.induct) (auto intro: visits.intros)

text \<open>The subdirectories that one listing puts on the queue.\<close>

definition pushed :: "path \<Rightarrow> children \<Rightarrow> wire_child list \<Rightarrow> path list" where
  "pushed d lc cs = rev (map (\<lambda>c. join_prefix d (wc_name c)) (filter (\<lambda>c. differs lc c \<and> wc_is_dir c) cs))"

lemma pushed_simps [simp]:
  "pushed d lc [] = []"
  "pushed d lc (c # cs) = pushed d lc cs @ (if differs lc c \<and> wc_is_dir c then [join_prefix d (wc_name c)] else [])"
  by (simp_all add: pushed_def)

lemma pull_level_Cons:
  "pull_level E T d lc (c # cs) queue rep n =
     (if \<not> differs lc c then pull_level E T d lc cs queue rep n
      else if wc_is_dir c then pull_level E T d lc cs (join_prefix d (wc_name c) # queue) rep n
      else and_then (handle_leaf E T (join_prefix d (wc_name c)) rep n) (\<lambda>rep n. pull_level E T d lc cs queue rep n))"
  by (auto simp: differs_def split: option.splits)

definition listed :: "(path \<Rightarrow> reconcile_error + wire_child list) \<Rightarrow> path \<Rightarrow> wire_child list" where
  "listed answers d = (case answers d of Inr cs \<Rightarrow> cs | Inl _ \<Rightarrow> [])"

text \<open>A transport whose answers do not change during the pull.\<close>

locale snapshot_transport = reconcile_transport E T leaf_ok for E T leaf_ok +
  fixes answers :: "path \<Rightarrow> reconcile_error + wire_child list" and V :: "path \<Rightarrow> remote_leaf option"
  assumes children_answer: "snd (tr_children T d n) = answers d"
    and leaf_answer: "snd (tr_leaf T p n) = Inr (V p)"
begin

abbreviation L :: "path \<Rightarrow> wire_child list" where
  "L \<equiv> listed answers"

lemma level_queue:
  "pull_level E T d lc cs queue rep n = (n', Inr (queue', rep')) \<Longrightarrow> queue' = pushed d lc cs @ queue"
proof (induction cs arbitrary: queue rep n)
  case (Cons c cs)
  show ?case
  proof (cases "differs lc c \<and> \<not> wc_is_dir c")
    case True
    let ?h = "handle_leaf E T (join_prefix d (wc_name c)) rep n"
    from True Cons.prems obtain rep1 where "pull_level E T d lc cs queue rep1 (fst ?h) = (n', Inr (queue', rep'))"
      unfolding pull_level_Cons by (cases ?h; cases "snd ?h") (auto simp: and_then_def)
    with Cons.IH True show ?thesis by simp
  next
    case False
    with Cons show ?thesis unfolding pull_level_Cons by (auto split: if_splits)
  qed
qed simp

lemma level_covers:
  assumes leaves_ok: "\<And>l. leaf_ok l \<Longrightarrow> vv_ok (rl_vv l)"
  shows "store_ok (e_node E) (nd_store n) \<Longrightarrow> pull_level E T d lc cs queue rep n = (n', Inr (queue', rep')) \<Longrightarrow>
   skips rep \<le> skips rep' \<and> (skips rep' = skips rep \<longrightarrow> (\<forall>c \<in> set cs. differs lc c \<longrightarrow> \<not> wc_is_dir c \<longrightarrow>
     (\<forall>l. V (join_prefix d (wc_name c)) = Some l \<longrightarrow> covers n' (join_prefix d (wc_name c)) (rl_vv l))))"
proof (induction cs arbitrary: queue rep n)
  case (Cons c cs)
  let ?p = "join_prefix d (wc_name c)"
  show ?case
  proof (cases "differs lc c \<and> \<not> wc_is_dir c")
    case True
    obtain m r where h: "handle_leaf E T ?p rep n = (m, r)" by fastforce
    with True Cons.prems(2) obtain rep1 where r: "r = Inr rep1"
      and rest: "pull_level E T d lc cs queue rep1 m = (n', Inr (queue', rep'))"
      unfolding pull_level_Cons by (cases r) (auto simp: and_then_def)
    note one = handle_leaf_covers [OF Cons.prems(1) leaves_ok h [unfolded r]]
    have m: "store_ok (e_node E) (nd_store m)"
      using store_ok_evolves [OF handle_leaf_evolves [OF leaves_ok] Cons.prems(1), of ?p rep] h by simp
    have later: "evolves E m n'" using pull_level_evolves [OF leaves_ok, of m d lc cs queue rep1] rest by simp
    from one Cons.IH [OF m rest] covers_evolves [OF _ later m] show ?thesis by (fastforce simp: leaf_answer)
  next
    case False
    with Cons.prems(2) obtain queue1 where "pull_level E T d lc cs queue1 rep n = (n', Inr (queue', rep'))"
      unfolding pull_level_Cons by (auto split: if_splits)
    from Cons.IH [OF Cons.prems(1) this] False show ?thesis by auto
  qed
qed (simp add: skips_def)

lemma descend_Cons:
  assumes "pull_descend fuel E T t (d # queue) rep n = Some (n', Inr rep')"
  obtains k rep0 rep1 m where "fuel = Suc k" "skips rep0 = skips rep"
    "pull_level E T d (local_listing t d) (L d) queue rep0 (fst (tr_children T d n)) = (m, Inr (pushed d (local_listing t d) (L d) @ queue, rep1))"
    "pull_descend k E T t (pushed d (local_listing t d) (L d) @ queue) rep1 m = Some (n', Inr rep')"
proof -
  obtain k where k: "fuel = Suc k" using assms by (cases fuel) simp_all
  define rep0 where "rep0 = rep\<lparr>rep_tree_reqs := Suc (rep_tree_reqs rep)\<rparr>"
  obtain n1 a where n1: "tr_children T d n = (n1, a)" by fastforce
  have "a = Inr (L d)"
    using assms children_answer [of d n] n1 by (cases a) (auto simp: k listed_def split: sum.splits)
  note ch = n1 [unfolded this]
  obtain m r where l: "pull_level E T d (local_listing t d) (L d) queue rep0 n1 = (m, r)" by fastforce
  obtain q rep1 where r: "r = Inr (q, rep1)" and run: "pull_descend k E T t q rep1 m = Some (n', Inr rep')"
    using assms by (cases r) (auto simp: k ch l rep0_def [symmetric] split: prod.splits)
  from level_queue l r have q: "q = pushed d (local_listing t d) (L d) @ queue" by blast
  show thesis
  proof (rule that [OF k])
    show "skips rep0 = skips rep" by (simp add: rep0_def skips_def)
  qed (use l r q run ch in simp_all)
qed

lemma descend_covers:
  assumes leaves_ok: "\<And>l. leaf_ok l \<Longrightarrow> vv_ok (rl_vv l)"
    and "store_ok (e_node E) (nd_store n)" "pull_descend fuel E T t queue rep n = Some (n', Inr rep')"
  shows "skips rep \<le> skips rep' \<and> (skips rep' = skips rep \<longrightarrow> (\<forall>q \<in> set queue. \<forall>d c l. visits t L q d \<longrightarrow> c \<in> set (L d) \<longrightarrow>
     differs (local_listing t d) c \<longrightarrow> \<not> wc_is_dir c \<longrightarrow> V (join_prefix d (wc_name c)) = Some l \<longrightarrow>
     covers n' (join_prefix d (wc_name c)) (rl_vv l)))"
  using assms(2,3)
proof (induction fuel arbitrary: queue rep n)
  case 0
  then show ?case by (cases queue) simp_all
next
  case (Suc fuel)
  show ?case
  proof (cases queue)
    case Nil
    with Suc.prems show ?thesis by simp
  next
    case (Cons d0 rest)
    let ?cs = "pushed d0 (local_listing t d0) (L d0)" and ?n = "fst (tr_children T d0 n)"
    obtain rep0 rep1 m where s0: "skips rep0 = skips rep"
      and l: "pull_level E T d0 (local_listing t d0) (L d0) rest rep0 ?n = (m, Inr (?cs @ rest, rep1))"
      and run: "pull_descend fuel E T t (?cs @ rest) rep1 m = Some (n', Inr rep')"
      using descend_Cons [OF Suc.prems(2) [unfolded Cons]] by (metis nat.inject)
    have n: "store_ok (e_node E) (nd_store ?n)" using store_ok_evolves [OF children_evolves Suc.prems(1)] .
    have "evolves E ?n m" using pull_level_evolves [OF leaves_ok, of ?n d0 "local_listing t d0" "L d0" rest rep0] l by simp
    then have m: "store_ok (e_node E) (nd_store m)" using store_ok_evolves n by blast
    have later: "evolves E m n'" using pull_descend_evolves [OF leaves_ok run] .
    note here = level_covers [OF leaves_ok n l] and below = Suc.IH [OF m run]
    have "covers n' (join_prefix d (wc_name c)) (rl_vv v)"
      if all: "skips rep' = skips rep" and q: "q \<in> set queue" and way: "visits t L q d"
        and c: "c \<in> set (L d)" "differs (local_listing t d) c" "\<not> wc_is_dir c" "V (join_prefix d (wc_name c)) = Some v" for q d c v
    proof (cases "q \<in> set rest")
      case True
      with below here all s0 way c show ?thesis by auto
    next
      case False
      with q Cons have q0: "q = d0" by simp
      from way show ?thesis unfolding q0
      proof (cases rule: visits.cases)
        case visits_here
        with here below all s0 c covers_evolves [OF _ later m] show ?thesis by simp
      next
        case (visits_down c0)
        then have "join_prefix d0 (wc_name c0) \<in> set (?cs @ rest)" by (auto simp: pushed_def)
        with visits_down below here all s0 c show ?thesis by auto
      qed
    qed
    with here below s0 show ?thesis by auto
  qed
qed

text \<open>A finite remote tree is visited in at most as many turns as it has directories.\<close>

lemma descend_ends:
  assumes D: "finite D" "\<And>d c. d \<in> D \<Longrightarrow> c \<in> set (L d) \<Longrightarrow> wc_is_dir c \<Longrightarrow> join_prefix d (wc_name c) \<in> D \<and> name_ok (wc_name c)"
    "\<And>d. distinct (map wc_name (L d))"
    and "distinct queue" "set queue \<subseteq> D - seen" "\<forall>x \<in> set queue \<union> seen. x = [] \<or> par x \<in> seen" "card (D - seen) \<le> fuel"
  shows "pull_descend fuel E T t queue rep n \<noteq> None"
  using assms(4-)
proof (induction fuel arbitrary: queue seen rep n)
  case 0
  then have "D - seen = {}" using D(1) by simp
  with "0.prems"(2) show ?case by (cases queue) auto
next
  case (Suc fuel)
  show ?case
  proof (cases queue)
    case (Cons d rest)
    let ?cs = "pushed d (local_listing t d) (L d)"
    have d: "d \<in> D" "d \<notin> seen" using Suc.prems(2) Cons by auto
    have new: "x \<in> D \<and> x \<noteq> [] \<and> par x = d" if "x \<in> set ?cs" for x
      using that D(2) [OF d(1)] by (auto simp: pushed_def name_ok_def split_parent_join join_prefix_Nil)
    have "inj_on (\<lambda>c. join_prefix d (wc_name c)) (set (filter (\<lambda>c. differs (local_listing t d) c \<and> wc_is_dir c) (L d)))"
      using D(3) [of d] by (auto simp: inj_on_def join_prefix_def distinct_map split: if_splits)
    then have dist: "distinct ?cs"
      using D(3) [of d] by (simp add: pushed_def distinct_map)
    have fresh: "x \<notin> seen \<and> x \<notin> set queue" if "x \<in> set ?cs" for x
      using new [OF that] Suc.prems(3) d(2) by auto
    have q: "distinct (?cs @ rest)" "set (?cs @ rest) \<subseteq> D - insert d seen"
      "\<forall>x \<in> set (?cs @ rest) \<union> insert d seen. x = [] \<or> par x \<in> insert d seen"
      using dist Suc.prems(1-3) Cons new fresh by auto
    have "card (D - insert d seen) < card (D - seen)"
      using d D(1) by (intro psubset_card_mono) auto
    then have "card (D - insert d seen) \<le> fuel" using Suc.prems(4) by simp
    note rest = Suc.IH [OF q this]
    obtain n1 a where n1: "tr_children T d n = (n1, a)" by fastforce
    show ?thesis
    proof (cases a)
      case (Inr cs)
      then have L: "L d = cs" using children_answer [of d n] n1 by (auto simp: listed_def split: sum.splits)
      obtain m r where l: "pull_level E T d (local_listing t d) cs rest (rep\<lparr>rep_tree_reqs := Suc (rep_tree_reqs rep)\<rparr>) n1 = (m, r)" by fastforce
      show ?thesis
      proof (cases r)
        case (Inr p)
        then obtain q' rep1 where r: "r = Inr (q', rep1)" by (cases p) simp
        from level_queue l r L have "q' = ?cs @ rest" by blast
        with rest show ?thesis by (simp add: Cons n1 \<open>a = Inr cs\<close> l r)
      qed (simp add: Cons n1 Inr l)
    qed (simp add: Cons n1)
  qed simp
qed

end

end
