(* ===== verification/Anti_Entropy.thy ===== *)
theory Anti_Entropy
  imports Pull_Complete
begin

text \<open>
  A pull from an honest peer over QUIC: the session answers from one snapshot of the peer's
  index, the pull ends, and what it does not report as skipped is covered afterwards.
\<close>

subsection \<open>An honest session\<close>

abbreviation honest_session :: "merkle_tree \<Rightarrow> (node_id \<times> i64) list \<Rightarrow> nat \<Rightarrow> rpc" where
  "honest_session tree frontier \<equiv> \<lambda>_. honest tree frontier"

interpretation snap: snapshot_transport E "quic_transport E peer (honest_session tree frontier)"
    "session_leaf (honest_session tree frontier)"
    "\<lambda>d. pull_children (honest tree frontier) 0 d [] LISTING_BUDGET []"
    "\<lambda>p. map_option leaf_of_row (merkle_leaf tree p)"
    for E peer tree frontier
  by unfold_locales
    (auto simp: quic_transport_def session_call_def pull_leaf_def honest_def serve_reconcile_def split: option.split)

text \<open>What the bounds of a listing ask of the responder's tree.\<close>

definition listable :: "merkle_tree \<Rightarrow> bool" where
  "listable tree \<longleftrightarrow> (\<forall>(d, cs) \<in> set (mt_dirs tree).
     (\<forall>(name, v) \<in> set cs. length name \<le> 255) \<and> listing_cost (map to_wire cs) \<le> LISTING_BUDGET)"

lemma honest_listing:
  assumes "rows_tidy rows" "listable (merkle_build X rows)"
  shows "pull_children (honest (merkle_build X rows) frontier) 0 d [] LISTING_BUDGET [] =
    Inr (map to_wire (listing (tree_dirs X rows) d))"
proof (cases "bt_get (tree_dirs X rows) d")
  case None
  then show ?thesis
    by (subst pull_children.simps) (simp add: honest_def serve_reconcile_def children_page_def listing_def TREE_PAGE_def)
next
  case (Some cs)
  note inv = build_laws(1) [OF assms(1), of X]
  have ok: "bt_ok cs" using dirs_ok_get [OF merkle_dirs_ok Some] .
  have named: "name_ok name" if "(name, v) \<in> set cs" for name v
  proof -
    have "child_of (tree_dirs X rows) d name = Some v" using that ok Some by (simp add: child_of_def listing_def bt_get_mem_iff)
    then show ?thesis using tree_invD(5,6) [OF inv, of d name] by (cases v; cases "snd v") auto
  qed
  have "[] < name" if "(name, v) \<in> set cs" for name v using named [OF that] by (cases name) (auto simp: name_ok_def)
  then have all: "after [] cs = cs" by (auto simp: after_def filter_id_conv)
  have "(d, cs) \<in> set (tree_dirs X rows)" using Some by (rule bt_get_Some_mem)
  with assms(2) have "\<forall>(name, v) \<in> set cs. length name \<le> 255" "listing_cost (map to_wire cs) \<le> LISTING_BUDGET"
    by (auto simp: listable_def)
  with pull_children_honest [OF Some ok, of "[]" LISTING_BUDGET frontier 0 "[]"] all show ?thesis
    by (simp add: listing_def Some)
qed

abbreviation remote_listing :: "crates \<Rightarrow> file_row list \<Rightarrow> path \<Rightarrow> wire_child list" where
  "remote_listing X rows d \<equiv> map to_wire (listing (tree_dirs X rows) d)"

lemma honest_listed:
  assumes "rows_tidy rows" "listable (merkle_build X rows)"
  shows "listed (\<lambda>d. pull_children (honest (merkle_build X rows) frontier) 0 d [] LISTING_BUDGET []) = remote_listing X rows"
  using honest_listing [OF assms] by (simp add: listed_def fun_eq_iff)

lemma remote_child:
  "c \<in> set (remote_listing X rows d) \<longleftrightarrow> child_of (tree_dirs X rows) d (wc_name c) = Some (wc_hash c, wc_is_dir c)"
proof -
  have ok: "bt_ok (listing (tree_dirs X rows) d)"
    using dirs_ok_get [OF merkle_dirs_ok] by (cases "bt_get (tree_dirs X rows) d") (auto simp: listing_def)
  have "c \<in> set (remote_listing X rows d) \<longleftrightarrow> (wc_name c, wc_hash c, wc_is_dir c) \<in> set (listing (tree_dirs X rows) d)"
    by (cases c) (force simp: to_wire_def)
  with ok show ?thesis by (simp add: child_of_def bt_get_mem_iff)
qed

subsection \<open>The pull ends\<close>

lemma honest_pull_ends:
  assumes "rows_tidy rows" "listable (merkle_build X rows)"
  shows "reconcile_pull (length (tree_dirs X rows)) E (quic_transport E peer (honest_session (merkle_build X rows) frontier)) t n \<noteq> None"
proof -
  let ?T = "quic_transport E peer (honest_session (merkle_build X rows) frontier)"
  let ?D = "{d. isdir (tree_dirs X rows) d}"
  note inv = build_laws(1) [OF assms(1), of X]
  have D: "?D = set (map fst (tree_dirs X rows))" by (force simp: isdir_def bt_get_None_iff)
  then have fin: "finite ?D" "card ?D \<le> length (tree_dirs X rows)" by (simp, metis card_length length_map)
  have closed: "join_prefix d (wc_name c) \<in> ?D \<and> name_ok (wc_name c)"
    if "c \<in> set (remote_listing X rows d)" "wc_is_dir c" for d c
    using remote_child [THEN iffD1, OF that(1)] that(2) tree_invD(5) [OF inv] by simp
  have ok: "bt_ok (listing (tree_dirs X rows) d)" for d
    using dirs_ok_get [OF merkle_dirs_ok] by (cases "bt_get (tree_dirs X rows) d") (auto simp: listing_def)
  have "map wc_name (remote_listing X rows d) = map fst (listing (tree_dirs X rows) d)" for d
    by (simp add: to_wire_def case_prod_unfold)
  then have dist: "distinct (map wc_name (remote_listing X rows d))" for d using bt_ok_distinct [OF ok] by metis
  have "pull_descend (length (tree_dirs X rows)) E ?T t [[]] report_default m \<noteq> None" for m
    using closed dist fin tree_invD(1) [OF inv]
    by (intro snap.descend_ends [where D = ?D and seen = "{}"]) (auto simp: honest_listed [OF assms])
  then show ?thesis by (auto simp: reconcile_pull_def split: prod.splits sum.splits)
qed

subsection \<open>The pull misses nothing\<close>

lemma local_listing_build: "local_listing (merkle_build X rows) d = listing (tree_dirs X rows) d"
  by (simp add: merkle_children_def listing_def)

text \<open>Every directory of the peer is visited, or the local tree lists the same below it.\<close>

lemma visited_or_same:
  assumes cmp: "comparable X rows rows'"
  shows "isdir (tree_dirs X rows') d \<Longrightarrow>
    visits (merkle_build X rows) (remote_listing X rows') [] d \<or> listing (tree_dirs X rows) d = listing (tree_dirs X rows') d"
proof -
  let ?visits = "visits (merkle_build X rows) (remote_listing X rows') []"
  let ?same = "\<lambda>d. listing (tree_dirs X rows) d = listing (tree_dirs X rows') d"
  note D = comparableD [OF cmp] and inv = build_laws(1) [OF comparableD(2) [OF cmp], of X]
  have step: "?visits d \<or> ?same d" if d: "isdir (tree_dirs X rows') d" "tidy d" and up: "?visits (par d) \<or> ?same (par d)" for d
  proof (cases "?same (par d)")
    case True
    with equal_parents_equal_listing [OF cmp d(1) tidyD(1) [OF d(2)]] show ?thesis by blast
  next
    case False
    let ?h = "hash_children X (listing (tree_dirs X rows') d)"
    let ?c = "\<lparr>wc_name = base d, wc_hash = ?h, wc_is_dir = True\<rparr>"
    note e = parent_isdir(2) [OF D(2) d(1) tidyD(1) [OF d(2)]]
    have c: "?c \<in> set (remote_listing X rows' (par d))" using e by (subst remote_child) simp
    show ?thesis
    proof (cases "differs (local_listing (merkle_build X rows) (par d)) ?c")
      case True
      from visits_snoc [of "merkle_build X rows" "remote_listing X rows'" "[]" "par d", OF _ c True] False up tidyD(3) [OF d(2)]
      show ?thesis by simp
    next
      case False
      then obtain f where "child_of (tree_dirs X rows) (par d) (base d) = Some (?h, f)"
        by (auto simp: differs_def local_listing_build child_of_def split: option.splits)
      from same_hash_same_entry(2) [OF cmp this e] tidyD(3) [OF d(2)] show ?thesis by simp
    qed
  qed
  have "?visits d \<or> ?same d" if "tidy d" "isdir (tree_dirs X rows') d" for d
    using that
  proof (induction d rule: tidy_induct)
    case (top d)
    have "?visits (par d)" unfolding top.hyps(2) by (rule visits_here)
    with step [OF top.prems top.hyps(1)] show ?case by blast
  next
    case (below d)
    with step parent_isdir(1) [OF D(2) below.prems tidyD(1)] show ?case by blast
  qed
  then show "isdir (tree_dirs X rows') d \<Longrightarrow> ?visits d \<or> ?same d"
    using tree_invD(2) [OF inv, of d] visits_here by (cases "d = []") auto
qed

lemma find_unique: "inj_on f (set xs) \<Longrightarrow> x \<in> set xs \<Longrightarrow> List.find (\<lambda>y. f y = f x) xs = Some x"
  by (induction xs) (auto simp: inj_on_def)

lemma merkle_leaf_build:
  assumes "rows_tidy rows" "row \<in> set rows"
  shows "merkle_leaf (merkle_build X rows) (r_path row) = Some row"
proof -
  have "inj_on r_path (set (rev rows))"
    using assms(1) strict_sorted_iff [of "map r_path rows"] by (simp add: rows_tidy_def distinct_map)
  with assms(2) show ?thesis
    by (simp add: merkle_leaf_rows find_unique)
qed

text \<open>A visible row is handled by the pull, or the local index has it.\<close>

lemma visible_handled_or_known:
  assumes cmp: "comparable X rows rows'" and row': "visible rows' row'"
  shows "(\<exists>d c. visits (merkle_build X rows) (remote_listing X rows') [] d \<and> c \<in> set (remote_listing X rows' d)
      \<and> differs (local_listing (merkle_build X rows) d) c \<and> \<not> wc_is_dir c \<and> join_prefix d (wc_name c) = r_path row')
    \<or> (\<exists>row \<in> set rows. r_path row = r_path row' \<and> r_vv row = r_vv row')"
proof -
  let ?p = "r_path row'" and ?d = "par (r_path row')"
  let ?c = "\<lparr>wc_name = base ?p, wc_hash = leaf_hash X row', wc_is_dir = False\<rparr>"
  note t' = comparableD(2) [OF cmp]
  have mem: "row' \<in> set rows'" and t: "tidy ?p" using row' t' by (auto simp: visible_def rows_tidy_def)
  note e = visible_entry [OF t' row', of X]
  have c: "?c \<in> set (remote_listing X rows' ?d)" using e by (subst remote_child) simp
  have known: "\<exists>row \<in> set rows. r_path row = ?p \<and> r_vv row = r_vv row'"
    if "child_of (tree_dirs X rows) ?d (base ?p) = Some (leaf_hash X row', f)" for f
    using same_hash_same_entry(3) [OF cmp that e _ mem] tidyD(3) [OF t] by auto
  show ?thesis
  proof (cases "listing (tree_dirs X rows) ?d = listing (tree_dirs X rows') ?d")
    case True
    then have "child_of (tree_dirs X rows) ?d (base ?p) = Some (leaf_hash X row', False)" using e by (simp add: child_of_def)
    with known show ?thesis by blast
  next
    case False
    then have v: "visits (merkle_build X rows) (remote_listing X rows') [] ?d"
      using visited_or_same [OF cmp entry_isdir [OF e]] by blast
    show ?thesis
    proof (cases "differs (local_listing (merkle_build X rows) ?d) ?c")
      case True
      with v c tidyD(3) [OF t] show ?thesis by (intro disjI1 exI [of _ ?d] exI [of _ ?c]) simp
    next
      case False
      then obtain f where "child_of (tree_dirs X rows) ?d (base ?p) = Some (leaf_hash X row', f)"
        by (auto simp: differs_def local_listing_build child_of_def split: option.splits)
      with known show ?thesis by blast
    qed
  qed
qed

subsection \<open>Properties\<close>

lemma all_files_mem: "files_ok (t_files d) \<Longrightarrow> row \<in> set (all_files d) \<Longrightarrow> load_row d (r_path row) = Some row"
  by (auto simp: files_ok_def all_files_def bt_values_def load_row_def bt_get_mem_iff)

lemma honest_leaves_ok:
  assumes "files_ok (t_files d)" "session_leaf (honest_session (merkle_build X (all_files d)) frontier) l"
  shows "vv_ok (rl_vv l)"
proof -
  from assms(2) obtain p row where "merkle_leaf (merkle_build X (all_files d)) p = Some row" "l = leaf_of_row row"
    by (auto simp: session_leaf_def honest_def serve_reconcile_def split: option.splits)
  then have "row \<in> set (all_files d)" unfolding merkle_leaf_rows by (metis find_Some_iff nth_mem set_rev)
  with all_files_mem [OF assms(1)] files_ok_vv [OF assms(1)] \<open>l = leaf_of_row row\<close> show ?thesis
    by (auto simp: leaf_of_row_def)
qed

lemma honest_root: "tr_root (quic_transport E peer (honest_session tree frontier)) n = (await E n, Inr (mt_root tree))"
  by (simp add: quic_transport_def session_call_def pull_root_def honest_def serve_reconcile_def)

lemma honest_pull_covers:
  assumes ok: "store_ok (e_node E) (nd_store n)" "files_ok (t_files d)"
    and cmp: "comparable X (all_files (nd_db n)) (all_files d)" and lst: "listable (merkle_build X (all_files d))"
    and run: "reconcile_pull fuel E (quic_transport E peer (honest_session (merkle_build X (all_files d)) frontier))
        (merkle_build X (all_files (nd_db n))) n = Some (n', Inr rep)"
    and rep: "skips rep = 0" and row: "visible (all_files d) row"
  shows "covers n' (r_path row) (r_vv row)"
proof -
  let ?t = "merkle_build X (all_files (nd_db n))" and ?T = "quic_transport E peer (honest_session (merkle_build X (all_files d)) frontier)"
  have leaves: "\<And>l. session_leaf (honest_session (merkle_build X (all_files d)) frontier) l \<Longrightarrow> vv_ok (rl_vv l)"
    by (rule honest_leaves_ok [OF ok(2)])
  note tidy = comparableD(2) [OF cmp]
  have ev: "evolves E n n'" using quic.pull_evolves [OF leaves run] .
  have mem: "row \<in> set (all_files d)" using row by (simp add: visible_def)
  have known: "covers n' (r_path row) (r_vv row)"
    if "\<exists>r \<in> set (all_files (nd_db n)). r_path r = r_path row \<and> r_vv r = r_vv row"
  proof -
    have "files_ok (t_files (nd_db n))" using ok(1) by (simp add: store_ok_def db_ok_def)
    with that all_files_mem [of "nd_db n"] have "covers n (r_path row) (r_vv row)" by (fastforce simp: covers_def)
    then show ?thesis using covers_evolves ev ok(1) by blast
  qed
  show ?thesis
  proof (cases "mt_root (merkle_build X (all_files d)) = mt_root ?t")
    case True
    from shown_row_known [OF cmp this [symmetric] row] obtain r where
      "visible (all_files (nd_db n)) r" "shown_fields X r = shown_fields X row" .
    then show ?thesis by (intro known) (auto simp: visible_def shown_fields_def)
  next
    case False
    have n1: "store_ok (e_node E) (nd_store (await E n))" using store_ok_evolves [OF await_evolves ok(1)] .
    have desc: "pull_descend fuel E ?T ?t [[]] report_default (await E n) = Some (n', Inr rep)"
      using run False by (simp add: reconcile_pull_def honest_root)
    have s0: "skips report_default = 0" by (simp add: skips_def report_default_def)
    note all = snap.descend_covers [OF leaves n1 desc, unfolded honest_listed [OF tidy lst] s0 rep]
    from visible_handled_or_known [OF cmp row] show ?thesis
    proof (elim disjE exE conjE)
      fix e c
      assume e: "visits ?t (remote_listing X (all_files d)) [] e" "c \<in> set (remote_listing X (all_files d) e)"
        "differs (local_listing ?t e) c" "\<not> wc_is_dir c" "join_prefix e (wc_name c) = r_path row"
      have "map_option leaf_of_row (merkle_leaf (merkle_build X (all_files d)) (join_prefix e (wc_name c))) = Some (leaf_of_row row)"
        using merkle_leaf_build [OF tidy mem] e(5) by simp
      from all [THEN conjunct2, rule_format, OF _ refl _ e(1-4) this] e(5) show ?thesis by (simp add: leaf_of_row_def)
    qed (rule known)
  qed
qed

text \<open>
  C6. A pull from an honest peer ends and misses nothing.  The peer answers from one snapshot
  of its index.  Whatever the environment does meanwhile (local changes, other pulls, disk
  faults), the pull ends after at most as many listings as the peer has directories; it
  keeps the store's invariant; and if it succeeds without reporting a skipped leaf, every row
  the peer's tree shows is covered by a row of this node: the peer's version is known here,
  applied or resolved.  The hash function enters only through the absence of collisions among
  the byte strings the two trees hash.
\<close>

theorem anti_entropy_completes:
  assumes "store_ok (e_node E) (nd_store n)" "files_ok (t_files d)"
    and "comparable (e_crates E) (all_files (nd_db (await E n))) (all_files d)"
    and "serve_snapshot (e_crates E) d = (tree, frontier)" "listable tree"
  shows "\<exists>n' res. reconcile_with (length (mt_dirs tree)) E peer (\<lambda>_. honest tree frontier) n = Some (n', res)
    \<and> store_ok (e_node E) (nd_store n')
    \<and> (\<forall>rep f. res = Inr (rep, f) \<longrightarrow> f = frontier
        \<and> (rep_skipped_concurrent rep = 0 \<and> rep_skipped_damaged rep = 0 \<longrightarrow>
           (\<forall>row. visible (all_files d) row \<longrightarrow>
             (\<exists>r. load_row (nd_db n') (r_path row) = Some r \<and> vv_le (r_vv row) (r_vv r)))))"
proof -
  let ?m = "await E n" and ?T = "quic_transport E peer (\<lambda>_. honest tree frontier)"
  let ?t = "merkle_build (e_crates E) (all_files (nd_db ?m))"
  have tree: "tree = merkle_build (e_crates E) (all_files d)" using assms(4) by (simp add: serve_snapshot_def snapshot_for_join_def Let_def)
  have m: "store_ok (e_node E) (nd_store ?m)" using store_ok_evolves [OF await_evolves assms(1)] .
  have lf: "store_all_files (e_crates E) (e_node E) (nd_store ?m) = all_files (nd_db ?m)" by (simp add: store_reads)
  obtain n' r where run: "reconcile_pull (length (mt_dirs tree)) E ?T ?t ?m = Some (n', r)"
    using honest_pull_ends [OF comparableD(2) [OF assms(3)]] assms(5) unfolding tree by (metis not_None_eq surj_pair)
  have ok: "store_ok (e_node E) (nd_store n')"
    using store_ok_evolves [OF quic.pull_evolves [OF honest_leaves_ok [OF assms(2)] run [unfolded tree]] m] .
  have fr: "session_frontier (\<lambda>_. honest tree frontier) k = frontier" for k
    by (simp add: session_frontier_def pull_root_def honest_def serve_reconcile_def)
  have cov: "covers n' (r_path row) (r_vv row)" if "r = Inr rep" "skips rep = 0" "visible (all_files d) row" for rep row
    using honest_pull_covers [OF m assms(2,3)] assms(5) run that unfolding tree by blast
  show ?thesis
    using run ok fr cov by (cases r) (auto simp: reconcile_with_def lf Let_def covers_def skips_def)
qed

definition offered_row :: file_row where
  "offered_row = (example_row ''f'' True)\<lparr>r_vv := [([2], 1)]\<rparr>"

definition offered_db :: db where
  "offered_db = empty_db\<lparr>t_files := [(''f'', offered_row)]\<rparr>"

definition pulling_engine :: engine where
  "pulling_engine = serving_engine\<lparr>e_apply := example_ctx\<lparr>ax_crates := short_crates\<rparr>\<rparr>"

theorem anti_entropy_completes_witness:
  "\<exists>n' res. reconcile_with 1 pulling_engine [2] (\<lambda>_. honest (merkle_build short_crates [offered_row]) []) idle_node = Some (n', res)
     \<and> (\<forall>rep f. res = Inr (rep, f) \<and> rep_skipped_concurrent rep = 0 \<and> rep_skipped_damaged rep = 0 \<longrightarrow>
          (\<exists>r. load_row (nd_db n') ''f'' = Some r \<and> vv_le [([2], 1)] (r_vv r)))"
proof -
  have path: "r_path offered_row = ''f''" "row_sized offered_row" "r_vv offered_row = [([2], 1)]"
    by (simp_all add: offered_row_def example_row_def row_sized_def)
  have idle: "store_ok (e_node pulling_engine) (nd_store idle_node)"
    using empty_store_ok [of "[1]"] by (simp add: pulling_engine_def serving_engine_def idle_node_def)
  have rows: "all_files offered_db = [offered_row]" "all_files (nd_db (await pulling_engine idle_node)) = []"
    by (simp_all add: offered_db_def all_files_def bt_values_def await_def pulling_engine_def serving_engine_def idle_node_def empty_db_def)
  have files: "files_ok (t_files offered_db)"
    using path by (simp add: files_ok_def offered_db_def bt_ok_Cons vv_ok_def)
  have X: "e_crates pulling_engine = short_crates" by (simp add: pulling_engine_def)
  have cmp: "comparable (e_crates pulling_engine) (all_files (nd_db (await pulling_engine idle_node))) (all_files offered_db)"
    unfolding X rows using one_row_comparable [OF path(1,2)] by simp
  have snapshot: "serve_snapshot (e_crates pulling_engine) offered_db = (merkle_build short_crates [offered_row], [])"
    unfolding X by (simp add: serve_snapshot_def snapshot_for_join_def rows Let_def) (simp add: origins_of_def offered_db_def empty_db_def)
  have dirs: "mt_dirs (merkle_build short_crates [offered_row]) = [([], [(''f'', leaf_hash short_crates offered_row, False)])]"
    by (rule one_row_dirs [OF path(1)])
  have fits: "listable (merkle_build short_crates [offered_row])"
    by (simp add: listable_def dirs listing_cost_def to_wire_def LISTING_BUDGET_def)
  have vis: "visible (all_files offered_db) offered_row" by (simp add: visible_def rows path dir_over_def)
  obtain n' res where run: "reconcile_with 1 pulling_engine [2] (\<lambda>_. honest (merkle_build short_crates [offered_row]) []) idle_node = Some (n', res)"
    and all: "\<And>rep f. res = Inr (rep, f) \<Longrightarrow> rep_skipped_concurrent rep = 0 \<Longrightarrow> rep_skipped_damaged rep = 0 \<Longrightarrow>
      \<exists>r. load_row (nd_db n') (r_path offered_row) = Some r \<and> vv_le (r_vv offered_row) (r_vv r)"
    using anti_entropy_completes [OF idle files cmp snapshot fits, of "[2]"] vis by (auto simp: dirs)
  from run all show ?thesis unfolding path by blast
qed

subsection \<open>A peer that never ends\<close>

text \<open>
  A peer that lists one more directory in every directory keeps the pull descending: no
  number of turns is enough.
\<close>

definition deepening :: "hash32 \<Rightarrow> rpc" where
  "deepening h n req =
     (case req of
        Begin \<Rightarrow> Inr (RootIs h [])
      | TreeReq _ _ _ \<Rightarrow> Inr (TreeResp [\<lparr>wc_name = ''d'', wc_hash = h, wc_is_dir = True\<rparr>] False)
      | _ \<Rightarrow> Inl RClosed)"

lemma deepening_children:
  "tr_children (quic_transport E peer (\<lambda>_. deepening h)) d n = (await E n, Inr [\<lparr>wc_name = ''d'', wc_hash = h, wc_is_dir = True\<rparr>])"
  by (simp add: quic_transport_def session_call_def pull_children.simps deepening_def TREE_PAGE_def LISTING_BUDGET_def)

lemma deepening_root: "tr_root (quic_transport E peer (\<lambda>_. deepening h)) n = (await E n, Inr h)"
  by (simp add: quic_transport_def session_call_def pull_root_def deepening_def)

lemma deepening_descends:
  assumes "\<And>d f. bt_get (local_listing t d) ''d'' \<noteq> Some (h, f)"
  shows "pull_descend fuel E (quic_transport E peer (\<lambda>_. deepening h)) t (d # queue) rep n = None"
proof (induction fuel arbitrary: d queue rep n)
  case (Suc fuel)
  have "differs (local_listing t d) \<lparr>wc_name = ''d'', wc_hash = h, wc_is_dir = True\<rparr>"
    using assms [of d] by (auto simp: differs_def split: option.splits)
  with Suc show ?case by (simp add: deepening_children pull_level_Cons Let_def del: pull_level.simps(2))
qed simp

lemma deepening_never_ends:
  "reconcile_with fuel serving_engine [2] (\<lambda>_. deepening [1]) idle_node = None"
proof -
  let ?rows = "all_files (nd_db (await serving_engine idle_node))"
  have "?rows = []" by (simp add: await_def serving_engine_def idle_node_def all_files_def bt_values_def empty_db_def)
  then have t: "merkle_build plain_crates ?rows = \<lparr>mt_dirs = [([], [])], mt_leaves = [], mt_root = []\<rparr>"
    by (simp add: merkle_build_def bt_keys_def bt_get_Cons Let_def hash_children_def plain_crates_def)
  have E: "e_crates serving_engine = plain_crates" "e_node serving_engine = [1]" by (simp_all add: serving_engine_def example_ctx_def)
  have "bt_get (local_listing \<lparr>mt_dirs = [([], [])], mt_leaves = [], mt_root = []\<rparr> d) ''d'' \<noteq> Some ([1], f)" for d f
    by (simp add: merkle_children_def bt_get_Cons)
  then show ?thesis
    by (simp add: reconcile_with_def reconcile_pull_def Let_def E store_reads t deepening_root deepening_descends del: pull_descend.simps)
qed

text \<open>A node with a row in its index, pulling from the peer that never ends.\<close>

definition holding_node :: node where
  "holding_node = idle_node\<lparr>nd_store := \<lparr>s_db = offered_db, s_latest = 0\<rparr>\<rparr>"

lemma holding_ok: "store_ok [1] (nd_store holding_node)" "cas_ok X (nd_cas holding_node)"
  by (simp_all add: holding_node_def offered_db_def offered_row_def example_row_def store_ok_def db_ok_def files_ok_def bt_ok_Cons
      vv_ok_def log_vvs_ok_def gapfree_def seqs_of_def latest_origin_seq_def list_max_def empty_db_def idle_node_def
      example_world_def cas_ok_def)

lemma holding_never_ends: "reconcile_with fuel pulling_engine [2] (\<lambda>_. deepening [1]) holding_node = None"
proof -
  have E: "e_crates pulling_engine = short_crates" "e_node pulling_engine = [1]"
    by (simp_all add: pulling_engine_def serving_engine_def)
  have rows: "all_files (nd_db (await pulling_engine holding_node)) = [offered_row]"
    by (simp add: await_def pulling_engine_def serving_engine_def holding_node_def idle_node_def all_files_def bt_values_def offered_db_def)
  have dirs: "tree_dirs short_crates [offered_row] = [([], [(''f'', leaf_hash short_crates offered_row, False)])]"
    by (rule one_row_dirs) (simp add: offered_row_def example_row_def)
  have "rows_tidy [offered_row]"
    using one_row_comparable [of offered_row "[offered_row]"]
    by (simp add: comparable_def offered_row_def example_row_def row_sized_def)
  then have "length (mt_root (merkle_build short_crates [offered_row])) = 32"
    by (simp add: build_laws(2) hash_children_def short_crates_def)
  then have root: "mt_root (merkle_build short_crates [offered_row]) \<noteq> [1]" by auto
  have "bt_get (local_listing (merkle_build short_crates [offered_row]) d) ''d'' \<noteq> Some ([1], f)" for d f
    by (simp add: merkle_children_def dirs bt_get_Cons)
  then show ?thesis using root
    by (simp add: reconcile_with_def reconcile_pull_def Let_def E store_reads rows deepening_root deepening_descends del: pull_descend.simps)
qed

text \<open>
  C8. No peer can make a pull lose history.  Whatever a peer answers, in whatever order, however
  the session fails and even when the pull never ends, provided the version vectors in the leaves
  it sends are well formed: the node reached after any number of directories has kept the store's
  invariant and the integrity of the chunk store, and every row of the index it started with is
  still there with a vector that covers the one it had; and a pull that ends within that number
  leaves exactly that node.
\<close>

theorem pull_keeps_history:
  assumes "store_ok (e_node E) (nd_store n)" "cas_ok (e_crates E) (nd_cas n)"
    and "\<forall>l. session_leaf session l \<longrightarrow> vv_ok (rl_vv l)"
    and "reconcile_reached fuel E peer session n = n'"
  shows "store_ok (e_node E) (nd_store n') \<and> cas_ok (e_crates E) (nd_cas n')
    \<and> (\<forall>p r. load_row (nd_db n) p = Some r \<longrightarrow> (\<exists>r'. load_row (nd_db n') p = Some r' \<and> vv_le (r_vv r) (r_vv r')))
    \<and> (\<forall>m res. reconcile_with fuel E peer session n = Some (m, res) \<longrightarrow> m = n')"
  using reconcile_reached_evolves [of session E n fuel peer] assms with_reached [of fuel E peer session n]
  by (auto simp: evolves_def grows_def)

theorem pull_keeps_history_witness:
  "reconcile_with 3 pulling_engine [2] (\<lambda>_. deepening [1]) holding_node = None
     \<and> store_ok [1] (nd_store (reconcile_reached 3 pulling_engine [2] (\<lambda>_. deepening [1]) holding_node))
     \<and> (\<exists>r. load_row (nd_db (reconcile_reached 3 pulling_engine [2] (\<lambda>_. deepening [1]) holding_node)) ''f'' = Some r
          \<and> vv_le [([2], 1)] (r_vv r))"
proof -
  have node: "e_node pulling_engine = [1]" by (simp add: pulling_engine_def serving_engine_def)
  have leaves: "\<forall>l. session_leaf (\<lambda>_. deepening [1]) l \<longrightarrow> vv_ok (rl_vv l)" by (simp add: session_leaf_def deepening_def)
  have row: "load_row (nd_db holding_node) ''f'' = Some offered_row" "r_vv offered_row = [([2], 1)]"
    by (simp_all add: holding_node_def offered_db_def offered_row_def load_row_def bt_get_Cons)
  note kept = pull_keeps_history [OF holding_ok(1) [folded node] holding_ok(2) leaves refl, of 3 "[2]", unfolded node]
  obtain r where "load_row (nd_db (reconcile_reached 3 pulling_engine [2] (\<lambda>_. deepening [1]) holding_node)) ''f'' = Some r"
    "vv_le (r_vv offered_row) (r_vv r)" using kept row(1) by blast
  with kept holding_never_ends [of 3] row(2) show ?thesis by auto
qed

end
