(* ===== verification/Ingest.thy ===== *)
theory Ingest
  imports Node
begin

text \<open>
  The local-change pipeline (\<open>src/ingest.rs\<close>): events of the watcher and the scanner become
  operations.  A write is debounced per path, then the file is captured and chunked in one
  blocking task, checked against the suppression set, and handed to the store, whose filter
  drops it when nothing changed.  A handler returns the node it leaves; what it only logs
  has no other effect.  Other tasks run where the source awaits; one blocking task sees one
  state of the tree.  Instants are nanoseconds of the monotonic clock.  The iteration order
  of the pending table is an argument, as is the chunker \<open>fastcdc\<close>.
\<close>

subsection \<open>Paths\<close>

text \<open>\<open>OsStr::to_str\<close>: the names that are valid UTF-8.\<close>

definition utf8_cont :: "nat \<Rightarrow> bool" where
  "utf8_cont b \<longleftrightarrow> 0x80 \<le> b \<and> b \<le> 0xBF"

fun utf8_ok :: "nat list \<Rightarrow> bool" where
  "utf8_ok [] = True"
| "utf8_ok (b # bs) =
     (if b < 0x80 then utf8_ok bs
      else if 0xC2 \<le> b \<and> b \<le> 0xDF
      then (case bs of c # cs \<Rightarrow> utf8_cont c \<and> utf8_ok cs | _ \<Rightarrow> False)
      else if 0xE0 \<le> b \<and> b \<le> 0xEF
      then (case bs of c # d # cs \<Rightarrow>
              utf8_cont c \<and> utf8_cont d \<and> (b = 0xE0 \<longrightarrow> 0xA0 \<le> c) \<and> (b = 0xED \<longrightarrow> c \<le> 0x9F) \<and> utf8_ok cs
            | _ \<Rightarrow> False)
      else if 0xF0 \<le> b \<and> b \<le> 0xF4
      then (case bs of c # d # e # cs \<Rightarrow>
              utf8_cont c \<and> utf8_cont d \<and> utf8_cont e \<and> (b = 0xF0 \<longrightarrow> 0x90 \<le> c) \<and> (b = 0xF4 \<longrightarrow> c \<le> 0x8F) \<and> utf8_ok cs
            | _ \<Rightarrow> False)
      else False)"

definition to_str :: "string \<Rightarrow> string option" where
  "to_str s = (if utf8_ok (map of_char s) then Some s else None)"

fun join_names :: "fpath \<Rightarrow> string" where
  "join_names [] = []"
| "join_names [n] = n"
| "join_names (n # ns) = n @ ''/'' @ join_names ns"

definition strip_prefix :: "fpath \<Rightarrow> fpath \<Rightarrow> fpath option" where
  "strip_prefix root apath = (if take (length root) apath = root then Some (drop (length root) apath) else None)"

definition rel_str :: "fpath \<Rightarrow> fpath \<Rightarrow> path option" where
  "rel_str root apath = (case strip_prefix root apath of None \<Rightarrow> None | Some names \<Rightarrow> to_str (join_names names))"

definition relativize :: "fpath \<Rightarrow> fpath \<Rightarrow> path option" where
  "relativize root apath = (case rel_str root apath of Some s \<Rightarrow> if s \<noteq> [] then Some s else None | None \<Rightarrow> None)"

text \<open>\<open>share_dir.join(rel)\<close>; a name of two dots is looked up literally.\<close>

definition share_join :: "fpath \<Rightarrow> path \<Rightarrow> fpath" where
  "share_join root rel =
     (if take 1 rel = ''/'' then [] else root)
     @ concat (map (\<lambda>c. case c of Normal s \<Rightarrow> [s] | ParentDir \<Rightarrow> [''..''] | _ \<Rightarrow> []) (path_components rel))"

subsection \<open>Observing a path\<close>

definition sys_stat :: "fpath \<Rightarrow> fnode io" where
  "sys_stat p w =
     (let (v, w1) = next_verdict w
      in case path_error (w_fs w1) p of
           Some e \<Rightarrow> (w1, Inl e)
         | None \<Rightarrow>
             (case v of
                VFail e \<Rightarrow> (w1, Inl (OsError e))
              | _ \<Rightarrow> (w1, case w_fs w1 p of None \<Rightarrow> Inl (OsError ENOENT) | Some n \<Rightarrow> Inr n)))"

definition lstat_of :: "fnode \<Rightarrow> lstat" where
  "lstat_of n =
     \<lparr>st_type = (case n_body n of BFile _ _ \<Rightarrow> IsFile | BLink _ \<Rightarrow> IsSymlink
                 | BSpecial k _ \<Rightarrow> (case k of Fifo \<Rightarrow> IsFifo | CharDev \<Rightarrow> IsCharDev | BlockDev \<Rightarrow> IsBlockDev | _ \<Rightarrow> OtherType)
                 | BDir \<Rightarrow> OtherType),
      st_mode = a_mode (n_attr n), st_uid = a_uid (n_attr n), st_gid = a_gid (n_attr n),
      st_mtime = a_mtime_s (n_attr n), st_mtime_nsec = a_mtime_ns (n_attr n),
      st_rdev = (case n_body n of BSpecial _ r \<Rightarrow> r | _ \<Rightarrow> 0),
      st_link = (case n_body n of BLink t \<Rightarrow> t | _ \<Rightarrow> []), st_xattrs = a_xattrs (n_attr n)\<rparr>"

text \<open>\<open>Meta::capture\<close>: the status, the link's target, the extended attributes, each a call of its own.\<close>

definition sys_capture :: "fpath \<Rightarrow> owner_policy \<Rightarrow> meta option io" where
  "sys_capture p policy w =
     and_then (sys_stat p w) (\<lambda>n w.
       if st_type (lstat_of n) = OtherType then (w, Inr None)
       else and_then (if st_type (lstat_of n) = IsSymlink then sys_open p w else (w, Inr ())) (\<lambda>_ w.
            and_then (sys_open p w) (\<lambda>_ w. (w, Inr (capture (lstat_of n) policy)))))"

datatype observed =
    OFile manifest meta
  | OSymlink meta bytes
  | OSpecial meta
  | OTooBig nat

record ingest_cfg =
  ic_engine :: engine
  ic_cdc :: "chunk_params \<Rightarrow> bytes \<Rightarrow> bytes list"
  ic_params :: chunk_params
  ic_quiesce_ms :: u64
  ic_scan_interval_secs :: u64
  ic_order :: "(path \<times> fpath) list \<Rightarrow> (path \<times> fpath) list"

abbreviation ic_root :: "ingest_cfg \<Rightarrow> fpath" where "ic_root C \<equiv> ax_root (e_apply (ic_engine C))"
abbreviation ic_crates :: "ingest_cfg \<Rightarrow> crates" where "ic_crates C \<equiv> e_crates (ic_engine C)"

definition file_len :: "fnode \<Rightarrow> nat" where
  "file_len n = (case n_body n of BFile bs _ \<Rightarrow> length bs | _ \<Rightarrow> 0)"

text \<open>
  Opening and reading the file have their own verdict; this one is that of the insertions, or of a
  read that fails in the middle, after as many pieces as the torn part is long.
\<close>

definition chunk_task :: "ingest_cfg \<Rightarrow> bytes \<Rightarrow> world \<Rightarrow> world \<times> (cas_error + manifest)" where
  "chunk_task C data w =
     (let (v, w) = next_verdict w;
          (cas', r) = chunk_file_into_cas (ic_crates C) (ic_cdc C) (\<not> failed v) (case v of VTorn bs \<Rightarrow> Some (length bs) | _ \<Rightarrow> None)
            (ic_params C) data (w_cas w)
      in (w\<lparr>w_cas := cas'\<rparr>, r))"

definition observe :: "ingest_cfg \<Rightarrow> fpath \<Rightarrow> world \<Rightarrow> world \<times> (cas_error + observed option)" where
  "observe C apath w =
     and_then (err_from (\<lambda>_. CIo) (sys_capture apath (ax_policy (e_apply (ic_engine C))) w)) (\<lambda>captured w.
       case captured of
         None \<Rightarrow> (w, Inr None)
       | Some m \<Rightarrow>
           (case m_kind m of
              Regular \<Rightarrow>
                and_then (err_from (\<lambda>_. CIo) (sys_stat apath w)) (\<lambda>n w.
                  if file_len n > unat (e_max_file_bytes (ic_engine C)) then (w, Inr (Some (OTooBig (file_len n))))
                  else and_then (err_from (\<lambda>_. CIo) (sys_read apath w)) (\<lambda>data w.
                       and_then (chunk_task C data w) (\<lambda>man w. (w, Inr (Some (OFile man m))))))
            | Symlink \<Rightarrow>
                (w, case m_symlink_target m of None \<Rightarrow> Inl CIo | Some t \<Rightarrow> Inr (Some (OSymlink m t)))
            | _ \<Rightarrow> (w, Inr (Some (OSpecial m)))))"

subsection \<open>Handling events\<close>

definition write_change :: "path \<Rightarrow> hash32 option \<Rightarrow> u64 \<Rightarrow> manifest option \<Rightarrow> meta \<Rightarrow> local_change" where
  "write_change rel ch sz man m =
     \<lparr>lc_path = rel, lc_op_type = Write, lc_mode = m_mode m, lc_size = sz, lc_content_hash = ch,
      lc_meta = Some m, lc_manifest = man\<rparr>"

definition change_of :: "crates \<Rightarrow> path \<Rightarrow> observed \<Rightarrow> local_change option" where
  "change_of X rel ob =
     (case ob of
        OTooBig _ \<Rightarrow> None
      | OFile man m \<Rightarrow> Some (write_change rel (Some (mf_content_hash man)) (total_len man) (Some man) m)
      | OSymlink m target \<Rightarrow> Some (write_change rel (Some (blake3 X target)) (word_of_nat (length target)) None m)
      | OSpecial m \<Rightarrow> Some (write_change rel None 0 None m))"

definition delete_change :: "path \<Rightarrow> local_change" where
  "delete_change rel =
     \<lparr>lc_path = rel, lc_op_type = Delete, lc_mode = 0, lc_size = 0, lc_content_hash = None, lc_meta = None,
      lc_manifest = None\<rparr>"

definition on_sup :: "(suppressor \<Rightarrow> suppressor \<times> bool) \<Rightarrow> node \<Rightarrow> node \<times> bool" where
  "on_sup f n = (let (s, hit) = f (w_sup (nd_world n)) in (n\<lparr>nd_world := (nd_world n)\<lparr>w_sup := s\<rparr>\<rparr>, hit))"

definition append_change :: "engine \<Rightarrow> local_change \<Rightarrow> node \<Rightarrow> node" where
  "append_change E change n = fst (on_store E (store_append_local (e_crates E) (e_node E) change) n)"

definition handle_write :: "ingest_cfg \<Rightarrow> path \<Rightarrow> fpath \<Rightarrow> node \<Rightarrow> node" where
  "handle_write C rel apath n =
     (case on_disk (observe C apath) (await (ic_engine C) n) of
        (n, Inr (Some ob)) \<Rightarrow>
          (case change_of (ic_crates C) rel ob of
             None \<Rightarrow> n
           | Some change \<Rightarrow>
               (let (n, suppressed) = on_sup (check_write rel (unwrap_or (lc_content_hash change) (zeros 32))) n
                in if suppressed then n else append_change (ic_engine C) change n))
      | (n, _) \<Rightarrow> n)"

record ingest =
  in_pending :: "(path, fpath \<times> nat) btree"
  in_node :: node

definition handle_rename :: "ingest_cfg \<Rightarrow> path \<Rightarrow> fpath \<Rightarrow> ingest \<Rightarrow> ingest" where
  "handle_rename C old_rel to_abs s =
     (case relativize (ic_root C) to_abs of
        None \<Rightarrow> s
      | Some new_rel \<Rightarrow>
          (let s = s\<lparr>in_pending := bt_remove old_rel (in_pending s)\<rparr>; (n, suppressed) = on_sup (check_delete old_rel) (in_node s)
           in if suppressed then s\<lparr>in_node := n\<rparr>
              else s\<lparr>in_node := fst (on_store (ic_engine C)
                     (store_append_local_rename (ic_crates C) (e_node (ic_engine C)) old_rel new_rel) n)\<rparr>))"

definition handle_delete :: "ingest_cfg \<Rightarrow> path \<Rightarrow> ingest \<Rightarrow> ingest" where
  "handle_delete C rel s =
     (case on_disk (sys_stat (share_join (ic_root C) rel)) (await (ic_engine C) (in_node s)) of
        (n, Inr _) \<Rightarrow> s\<lparr>in_node := n\<rparr>
      | (n, Inl _) \<Rightarrow>
          (let s = s\<lparr>in_pending := bt_remove rel (in_pending s)\<rparr>; (n, suppressed) = on_sup (check_delete rel) n
           in s\<lparr>in_node := (if suppressed then n else append_change (ic_engine C) (delete_change rel) n)\<rparr>))"

definition ripe :: "nat \<Rightarrow> (path, fpath \<times> nat) btree \<Rightarrow> (path \<times> fpath) list" where
  "ripe now pending = map (\<lambda>(rel, apath, _). (rel, apath)) (filter (\<lambda>(_, _, deadline). deadline \<le> now) pending)"

definition flush_one :: "ingest_cfg \<Rightarrow> path \<times> fpath \<Rightarrow> ingest \<Rightarrow> ingest" where
  "flush_one C e s =
     s\<lparr>in_pending := bt_remove (fst e) (in_pending s), in_node := handle_write C (fst e) (snd e) (in_node s)\<rparr>"

definition flush_ripe :: "ingest_cfg \<Rightarrow> nat \<Rightarrow> ingest \<Rightarrow> ingest" where
  "flush_ripe C now s = fold (flush_one C) (ic_order C (ripe now (in_pending s))) s"

datatype local_event =
    EvWrite fpath
  | EvDelete path
  | EvRename path fpath

text \<open>The branches of the loop in \<open>run\<close>: an event or a tick, each at its instant.\<close>

definition quiesce :: "ingest_cfg \<Rightarrow> nat" where
  "quiesce C = unat (max (ic_quiesce_ms C) 1) * 10 ^ 6"

definition sweep_ttl :: "ingest_cfg \<Rightarrow> nat" where
  "sweep_ttl C = unat (max (ic_scan_interval_secs C) 1 * 2 + 30) * 10 ^ 9"

definition ingest_event :: "ingest_cfg \<Rightarrow> nat \<Rightarrow> local_event \<Rightarrow> ingest \<Rightarrow> ingest" where
  "ingest_event C now ev s =
     (case ev of
        EvWrite apath \<Rightarrow>
          (case relativize (ic_root C) apath of
             Some rel \<Rightarrow> s\<lparr>in_pending := bt_insert rel (apath, now + quiesce C) (in_pending s)\<rparr>
           | None \<Rightarrow> s)
      | EvDelete rel \<Rightarrow> handle_delete C rel s
      | EvRename old_rel to_abs \<Rightarrow> handle_rename C old_rel to_abs s)"

definition ingest_tick :: "ingest_cfg \<Rightarrow> nat \<Rightarrow> ingest \<Rightarrow> ingest" where
  "ingest_tick C now s =
     (let s = flush_ripe C now s
      in s\<lparr>in_node := fst (on_sup (\<lambda>sup. (sweep now (sweep_ttl C) sup, False)) (in_node s))\<rparr>)"

datatype turn = GotEvent local_event | Tick

definition ingest_turn :: "ingest_cfg \<Rightarrow> nat \<times> turn \<Rightarrow> ingest \<Rightarrow> ingest" where
  "ingest_turn C t s = (case snd t of GotEvent ev \<Rightarrow> ingest_event C (fst t) ev s | Tick \<Rightarrow> ingest_tick C (fst t) s)"

definition ingest_run :: "ingest_cfg \<Rightarrow> (nat \<times> turn) list \<Rightarrow> ingest \<Rightarrow> ingest" where
  "ingest_run C = fold (ingest_turn C)"

end
