(* ===== verification/Scanner.thy ===== *)
theory Scanner
  imports Ingest Replica
begin

text \<open>
  The baseline scan and the periodic rescan (\<open>src/scanner.rs\<close>).  The walk reads one
  directory after the other; other tasks run in between.  The order in which \<open>read_dir\<close>
  lists a directory is an argument, as is whether a send on the event channel succeeds.
  Reading an entry and its type may fail each.  Sockets are not in the model of the tree.
\<close>

datatype scan_error = SStore store_error | SWalk fpath io_error | SChannelClosed | SJoin

definition is_tmp :: "fpath \<Rightarrow> bool" where
  "is_tmp p = (p \<noteq> [] \<and> (case to_str (last p) of Some n \<Rightarrow> str_contains n TMP_SUFFIX | None \<Rightarrow> False))"

type_synonym dir_order = "fstree \<Rightarrow> fpath \<Rightarrow> string list"

definition sys_read_dir :: "dir_order \<Rightarrow> fpath \<Rightarrow> string list io" where
  "sys_read_dir ls d w =
     and_then (sys_stat d w) (\<lambda>n w. (w, if n_body n = BDir then Inr (ls (w_fs w) d) else Inl (OsError ENOTDIR)))"

text \<open>One call per entry and one for its type.\<close>

definition sys_entry :: "fpath \<Rightarrow> world \<Rightarrow> world \<times> (scan_error + node_body)" where
  "sys_entry p w =
     (let (v, w) = next_verdict w
      in case v of
           VFail e \<Rightarrow> (w, Inl (SWalk (butlast p) (OsError e)))
         | _ \<Rightarrow> (let (v, w) = next_verdict w
                 in case v of
                      VFail e \<Rightarrow> (w, Inl (SWalk p (OsError e)))
                    | _ \<Rightarrow> (w, case w_fs w p of Some n \<Rightarrow> Inr (n_body n) | None \<Rightarrow> Inl (SWalk p (OsError ENOENT)))))"

fun walk_entries :: "fpath \<Rightarrow> string list \<Rightarrow> fpath list \<Rightarrow> fpath list \<Rightarrow> world \<Rightarrow> world \<times> (scan_error + fpath list \<times> fpath list)" where
  "walk_entries d [] out stack w = (w, Inr (out, stack))"
| "walk_entries d (n # ns) out stack w =
     and_then (sys_entry (d @ [n]) w) (\<lambda>body w.
       if body = BDir then walk_entries d ns out ((d @ [n]) # stack) w
       else if is_tmp (d @ [n]) then walk_entries d ns out stack w
       else walk_entries d ns (out @ [d @ [n]]) stack w)"

definition walk_dir :: "dir_order \<Rightarrow> fpath \<Rightarrow> fpath list \<Rightarrow> fpath list \<Rightarrow> world \<Rightarrow> world \<times> (scan_error + fpath list \<times> fpath list)" where
  "walk_dir ls d out stack w =
     and_then (err_from (SWalk d) (sys_read_dir ls d w)) (\<lambda>names w. walk_entries d names out stack w)"

fun walk :: "nat \<Rightarrow> engine \<Rightarrow> dir_order \<Rightarrow> fpath list \<Rightarrow> fpath list \<Rightarrow> node \<Rightarrow> (node \<times> (scan_error + fpath list)) option" where
  "walk fuel E ls out [] n = Some (n, Inr out)"
| "walk 0 E ls out (d # stack) n = None"
| "walk (Suc fuel) E ls out (d # stack) n =
     (case on_disk (walk_dir ls d out stack) (await E n) of
        (n, Inl e) \<Rightarrow> Some (n, Inl e)
      | (n, Inr (out, stack)) \<Rightarrow> walk fuel E ls out stack n)"

subsection \<open>One pass\<close>

record scan_stats =
  ss_files_seen :: nat
  ss_deletes_emitted :: nat

text \<open>Sending until the channel is closed: what was sent, and whether all of it was.\<close>

fun send_all :: "(nat \<Rightarrow> bool) \<Rightarrow> nat \<Rightarrow> local_event list \<Rightarrow> local_event list \<times> bool" where
  "send_all accepts k [] = ([], True)"
| "send_all accepts k (e # es) =
     (if accepts k then (let (sent, ok) = send_all accepts (Suc k) es in (e # sent, ok)) else ([], False))"

definition disk_rels :: "fpath \<Rightarrow> fpath list \<Rightarrow> path list" where
  "disk_rels root found = List.map_filter (rel_str root) found"

definition scan_once ::
  "nat \<Rightarrow> engine \<Rightarrow> dir_order \<Rightarrow> (nat \<Rightarrow> bool) \<Rightarrow> node \<Rightarrow> (node \<times> local_event list \<times> (scan_error + scan_stats)) option" where
  "scan_once fuel E ls accepts n =
     (let root = ax_root (e_apply E)
      in case walk fuel E ls [] [root] n of
           None \<Rightarrow> None
         | Some (n, Inl e) \<Rightarrow> Some (n, [], Inl e)
         | Some (n, Inr found) \<Rightarrow>
             (case send_all accepts 0 (map EvWrite found) of
                (sent, False) \<Rightarrow> Some (n, sent, Inl SChannelClosed)
              | (sent, True) \<Rightarrow>
                  (let n = await E n;
                       gone = filter (\<lambda>row. lv_path row \<notin> set (disk_rels root found)) (store_live_files (e_crates E) (e_node E) (nd_store n));
                       (sent', ok) = send_all accepts (length found) (map (\<lambda>row. EvDelete (lv_path row)) gone)
                   in Some (n, sent @ sent',
                        if ok then Inr \<lparr>ss_files_seen = length found, ss_deletes_emitted = length gone\<rparr> else Inl SChannelClosed))))"

text \<open>The passes of \<open>run\<close>, each with its own order of directories and channel; a closed channel ends them.\<close>

fun scan_loop ::
  "engine \<Rightarrow> (nat \<times> dir_order \<times> (nat \<Rightarrow> bool)) list \<Rightarrow> node \<Rightarrow> (node \<times> local_event list \<times> bool) option" where
  "scan_loop E [] n = Some (n, [], True)"
| "scan_loop E ((fuel, ls, accepts) # passes) n =
     (case scan_once fuel E ls accepts n of
        None \<Rightarrow> None
      | Some (n, sent, Inl SChannelClosed) \<Rightarrow> Some (n, sent, False)
      | Some (n, sent, _) \<Rightarrow>
          (case scan_loop E passes n of
             None \<Rightarrow> None
           | Some (n, sent', alive) \<Rightarrow> Some (n, sent @ sent', alive)))"

subsection \<open>Staging orphans\<close>

fun sweep_entries :: "fpath \<Rightarrow> string list \<Rightarrow> nat \<Rightarrow> fpath list \<Rightarrow> world \<Rightarrow> world \<times> (scan_error + nat \<times> fpath list)" where
  "sweep_entries d [] removed stack w = (w, Inr (removed, stack))"
| "sweep_entries d (n # ns) removed stack w =
     and_then (sys_entry (d @ [n]) w) (\<lambda>body w.
       if body = BDir then sweep_entries d ns removed ((d @ [n]) # stack) w
       else case body of
              BFile _ _ \<Rightarrow>
                if is_tmp (d @ [n])
                then (let (w, r) = sys_remove_file (d @ [n]) w
                      in sweep_entries d ns (case r of Inr _ \<Rightarrow> Suc removed | Inl _ \<Rightarrow> removed) stack w)
                else sweep_entries d ns removed stack w
            | _ \<Rightarrow> sweep_entries d ns removed stack w)"

fun sweep_loop :: "nat \<Rightarrow> dir_order \<Rightarrow> nat \<Rightarrow> fpath list \<Rightarrow> world \<Rightarrow> (world \<times> (scan_error + nat)) option" where
  "sweep_loop fuel ls removed [] w = Some (w, Inr removed)"
| "sweep_loop 0 ls removed (d # stack) w = None"
| "sweep_loop (Suc fuel) ls removed (d # stack) w =
     (case and_then (err_from (SWalk d) (sys_read_dir ls d w)) (\<lambda>names w. sweep_entries d names removed stack w) of
        (w, Inl e) \<Rightarrow> Some (w, Inl e)
      | (w, Inr (removed, stack)) \<Rightarrow> sweep_loop fuel ls removed stack w)"

definition sweep_orphan_temps :: "nat \<Rightarrow> dir_order \<Rightarrow> fpath \<Rightarrow> world \<Rightarrow> (world \<times> (scan_error + nat)) option" where
  "sweep_orphan_temps fuel ls root w = sweep_loop fuel ls 0 [root] w"

end
