(* ===== verification/Local_Laws.thy ===== *)
theory Local_Laws
  imports Scanner Fetch_Laws
begin

text \<open>
  What a scan and the pipeline behind it do when nothing interferes: no other task runs, no
  system call fails, no suppression entry matches.  Then every call is a function of the
  tree, and a pass followed by one tick brings the index in line with the disk.
\<close>

subsection \<open>Without interference\<close>

definition quiet :: "engine \<Rightarrow> bool" where
  "quiet E \<longleftrightarrow> (\<forall>t. e_env E t = [])"

lemma await_quiet: "quiet E \<Longrightarrow> await E n = n\<lparr>nd_time := nd_time n + 1\<rparr>"
  by (simp add: quiet_def await_def)

lemma no_faults: "w_verdicts w = [] \<Longrightarrow> next_verdict w = (VOk, w)"
  by (simp add: next_verdict_def)

definition find_node :: "fstree \<Rightarrow> fpath \<Rightarrow> io_error + fnode" where
  "find_node fs p =
     (case path_error fs p of Some e \<Rightarrow> Inl e | None \<Rightarrow> (case fs p of None \<Rightarrow> Inl (OsError ENOENT) | Some n \<Rightarrow> Inr n))"

lemma stat_quiet: "w_verdicts w = [] \<Longrightarrow> sys_stat p w = (w, find_node (w_fs w) p)"
  by (simp add: sys_stat_def no_faults find_node_def split: option.split)

lemma open_quiet: "w_verdicts w = [] \<Longrightarrow> find_node (w_fs w) p = Inr n \<Longrightarrow> sys_open p w = (w, Inr ())"
  by (auto simp: sys_open_def no_faults find_node_def split: option.splits)

definition kind_of :: "node_body \<Rightarrow> bool" where
  "kind_of b = (case b of BDir \<Rightarrow> False | BSpecial k _ \<Rightarrow> k = Fifo \<or> k = CharDev \<or> k = BlockDev | _ \<Rightarrow> True)"

lemma capture_quiet:
  assumes "w_verdicts w = []" "find_node (w_fs w) p = Inr n"
  shows "sys_capture p policy w = (w, Inr (capture (lstat_of n) policy))"
  using assms
  by (auto simp: sys_capture_def stat_quiet open_quiet [OF assms] and_then_def lstat_of_def capture_def
      split: node_body.splits file_kind.splits)

subsection \<open>What an observation records\<close>

definition node_hash :: "crates \<Rightarrow> fnode \<Rightarrow> hash32 option" where
  "node_hash X n = (case n_body n of BFile bs _ \<Rightarrow> Some (blake3 X bs) | BLink t \<Rightarrow> Some (blake3 X t) | _ \<Rightarrow> None)"

abbreviation ic_policy :: "ingest_cfg \<Rightarrow> owner_policy" where "ic_policy C \<equiv> ax_policy (e_apply (ic_engine C))"
abbreviation ic_max :: "ingest_cfg \<Rightarrow> nat" where "ic_max C \<equiv> unat (e_max_file_bytes (ic_engine C))"

text \<open>The nodes the pipeline replicates: files within the size cap, links and special files.\<close>

definition replicable :: "ingest_cfg \<Rightarrow> fnode \<Rightarrow> bool" where
  "replicable C n \<longleftrightarrow> kind_of (n_body n) \<and> file_len n \<le> ic_max C"

lemma chunk_pieces_io: "\<exists>cas' es. chunk_pieces X True cas ps = (cas', Inr es)"
proof (induction ps arbitrary: cas)
  case (Cons p ps)
  have put: "put_verified X True cas (blake3 X p) p = (if cas_has cas (blake3 X p) then cas else cas(blake3 X p \<mapsto> p), Inr ())"
    by (simp add: put_verified_def)
  obtain cas' es where "chunk_pieces X True (if cas_has cas (blake3 X p) then cas else cas(blake3 X p \<mapsto> p)) ps = (cas', Inr es)"
    using Cons.IH by blast
  with put show ?case by (simp add: Let_def)
qed simp

lemma chunk_task_quiet:
  assumes "w_verdicts w = []" "concat (ic_cdc C (ic_params C) data) = data"
  obtains cas' man where "chunk_task C data w = (w\<lparr>w_cas := cas'\<rparr>, Inr man)" "mf_content_hash man = blake3 (ic_crates C) data"
proof -
  obtain cas' es where "chunk_pieces (ic_crates C) True (w_cas w) (ic_cdc C (ic_params C) data) = (cas', Inr es)"
    using chunk_pieces_io by blast
  then have "chunk_task C data w = (w\<lparr>w_cas := cas'\<rparr>, Inr \<lparr>mf_content_hash = blake3 (ic_crates C) data, mf_chunks = es\<rparr>)"
    using assms by (simp add: chunk_task_def no_faults failed_def chunk_file_into_cas_def)
  then show thesis using that by simp
qed

lemma read_quiet: "w_verdicts w = [] \<Longrightarrow> find_node (w_fs w) p = Inr n \<Longrightarrow> n_body n = BFile bs y \<Longrightarrow> sys_read p w = (w, Inr bs)"
  by (auto simp: sys_read_def no_faults find_node_def split: option.splits)

text \<open>A change that records a node.\<close>

definition records :: "ingest_cfg \<Rightarrow> path \<Rightarrow> fnode \<Rightarrow> local_change \<Rightarrow> bool" where
  "records C rel n c \<longleftrightarrow> lc_path c = rel \<and> lc_op_type c = Write \<and> lc_content_hash c = node_hash (ic_crates C) n
     \<and> lc_meta c = capture (lstat_of n) (ic_policy C)
     \<and> (\<forall>man. lc_manifest c = Some man \<longrightarrow> Some (mf_content_hash man) = lc_content_hash c)"

lemma observe_quiet:
  assumes w: "w_verdicts w = []" "find_node (w_fs w) p = Inr n" and rep: "replicable C n"
    and cdc: "\<And>data. concat (ic_cdc C (ic_params C) data) = data"
  obtains cas' ob c where "observe C p w = (w\<lparr>w_cas := cas'\<rparr>, Inr (Some ob))"
    "change_of (ic_crates C) rel ob = Some c" "records C rel n c"
proof -
  obtain m where cap: "capture (lstat_of n) (ic_policy C) = Some m" and kind: "m_kind m = (case n_body n of BFile _ _ \<Rightarrow> Regular | BLink _ \<Rightarrow> Symlink | BSpecial k _ \<Rightarrow> k)"
    and link: "m_symlink_target m = (case n_body n of BLink t \<Rightarrow> Some t | _ \<Rightarrow> None)"
    using rep by (auto simp: replicable_def kind_of_def capture_def lstat_of_def split: node_body.splits file_kind.splits)
  note run = observe_def capture_quiet [OF w] and_then_def err_from_def cap
  show thesis
  proof (cases "n_body n")
    case (BFile bs y)
    obtain cas' man where t: "chunk_task C bs w = (w\<lparr>w_cas := cas'\<rparr>, Inr man)" "mf_content_hash man = blake3 (ic_crates C) bs"
      using chunk_task_quiet [OF w(1) cdc] by blast
    have "observe C p w = (w\<lparr>w_cas := cas'\<rparr>, Inr (Some (OFile man m)))"
      using rep BFile kind t(1) by (simp add: run stat_quiet w read_quiet [OF w BFile] replicable_def)
    then show thesis
      by (rule that) (use t(2) cap BFile in \<open>auto simp: change_of_def records_def write_change_def node_hash_def\<close>)
  next
    case (BLink t)
    have "observe C p w = (w\<lparr>w_cas := w_cas w\<rparr>, Inr (Some (OSymlink m t)))" using BLink kind link by (simp add: run)
    then show thesis
      by (rule that) (use cap BLink in \<open>auto simp: change_of_def records_def write_change_def node_hash_def\<close>)
  next
    case (BSpecial k r)
    have "observe C p w = (w\<lparr>w_cas := w_cas w\<rparr>, Inr (Some (OSpecial m)))"
      using BSpecial kind rep by (auto simp: run replicable_def kind_of_def)
    then show thesis
      by (rule that) (use cap BSpecial in \<open>auto simp: change_of_def records_def write_change_def node_hash_def\<close>)
  qed (use rep in \<open>simp add: replicable_def kind_of_def\<close>)
qed

subsection \<open>The index after one event\<close>

text \<open>The index knows a node under a path; it has nothing live there.\<close>

definition index_has :: "ingest_cfg \<Rightarrow> db \<Rightarrow> path \<Rightarrow> fnode \<Rightarrow> bool" where
  "index_has C d rel n \<longleftrightarrow> (\<exists>r. load_row d rel = Some r \<and> \<not> r_tombstone r \<and> r_content_hash r = node_hash (ic_crates C) n
     \<and> hash_of (ic_crates C) (r_meta r) = hash_of (ic_crates C) (capture (lstat_of n) (ic_policy C)))"

definition no_live :: "db \<Rightarrow> path \<Rightarrow> bool" where
  "no_live d rel \<longleftrightarrow> (\<forall>r. load_row d rel = Some r \<longrightarrow> r_tombstone r)"

lemma append_records:
  assumes "records C rel n c"
  shows "index_has C (fst (append_local (ic_crates C) node c d)) rel n"
    "q \<noteq> rel \<Longrightarrow> load_row (fst (append_local (ic_crates C) node c d)) q = load_row d q"
  using assms
  by (auto simp: records_def index_has_def append_local_def append_commit_def Let_def split: option.splits)

lemma append_deletes:
  "no_live (fst (append_local X node (delete_change rel) d)) rel"
  "q \<noteq> rel \<Longrightarrow> load_row (fst (append_local X node (delete_change rel) d)) q = load_row d q"
  by (auto simp: delete_change_def no_live_def append_local_def append_commit_def Let_def split: option.splits)

definition still :: "node \<Rightarrow> node \<Rightarrow> bool" where
  "still n n' \<longleftrightarrow> w_fs (nd_world n') = w_fs (nd_world n) \<and> w_sup (nd_world n') = w_sup (nd_world n)
     \<and> w_verdicts (nd_world n') = w_verdicts (nd_world n)"

lemma still_refl [simp]: "still n n"
  by (simp add: still_def)

lemma still_trans: "still a b \<Longrightarrow> still b c \<Longrightarrow> still a c"
  by (simp add: still_def)

lemma append_change_quiet:
  assumes "quiet E"
  shows "still n (append_change E c n)" "nd_db (append_change E c n) = fst (append_local (e_crates E) (e_node E) c (nd_db n))"
  by (simp_all add: append_change_def on_store_def await_quiet [OF assms] store_writes Let_def case_prod_unfold still_def)

lemma on_sup_miss:
  assumes "bt_get (w_sup (nd_world n)) rel = None"
  shows "on_sup (check_write rel h) n = (n, False)" "on_sup (check_delete rel) n = (n, False)"
  using assms by (simp_all add: on_sup_def check_write_def check_delete_def)

lemma handle_write_quiet:
  assumes q: "quiet (ic_engine C)" "w_verdicts (nd_world n) = []" and at: "find_node (w_fs (nd_world n)) p = Inr x"
    and rep: "replicable C x" and cdc: "\<And>data. concat (ic_cdc C (ic_params C) data) = data"
    and sup: "bt_get (w_sup (nd_world n)) rel = None"
  shows "still n (handle_write C rel p n)" "index_has C (nd_db (handle_write C rel p n)) rel x"
    "r \<noteq> rel \<Longrightarrow> load_row (nd_db (handle_write C rel p n)) r = load_row (nd_db n) r"
proof -
  let ?n = "n\<lparr>nd_time := nd_time n + 1\<rparr>"
  obtain cas' ob c where ob: "observe C p (nd_world n) = ((nd_world n)\<lparr>w_cas := cas'\<rparr>, Inr (Some ob))"
    and c: "change_of (ic_crates C) rel ob = Some c" "records C rel x c"
    using observe_quiet [OF q(2) at rep cdc] by blast
  let ?m = "?n\<lparr>nd_world := (nd_world n)\<lparr>w_cas := cas'\<rparr>\<rparr>"
  have run: "handle_write C rel p n = append_change (ic_engine C) c ?m"
    using sup by (simp add: handle_write_def await_quiet [OF q(1)] on_disk_def ob c on_sup_miss)
  show "still n (handle_write C rel p n)"
    unfolding run using append_change_quiet(1) [OF q(1), of ?m c] by (simp add: still_def)
  show "index_has C (nd_db (handle_write C rel p n)) rel x"
    "r \<noteq> rel \<Longrightarrow> load_row (nd_db (handle_write C rel p n)) r = load_row (nd_db n) r"
    unfolding run append_change_quiet(2) [OF q(1)] using append_records [OF c(2)] by simp_all
qed

lemma handle_write_skips:
  assumes q: "quiet (ic_engine C)" "w_verdicts (nd_world n) = []" and at: "find_node (w_fs (nd_world n)) p = Inr x"
    and rep: "\<not> replicable C x"
  shows "still n (handle_write C rel p n)" "nd_store (handle_write C rel p n) = nd_store n"
proof -
  have "observe C p (nd_world n) = (nd_world n, Inr None) \<or> (\<exists>k. observe C p (nd_world n) = (nd_world n, Inr (Some (OTooBig k))))"
  proof (cases "capture (lstat_of x) (ic_policy C)")
    case None
    then show ?thesis by (simp add: observe_def capture_quiet [OF q(2) at] and_then_def err_from_def)
  next
    case (Some m)
    with rep have "m_kind m = Regular" "file_len x > ic_max C"
      by (auto simp: capture_def lstat_of_def replicable_def kind_of_def file_len_def split: node_body.splits file_kind.splits)
    with Some show ?thesis
      by (simp add: observe_def capture_quiet [OF q(2) at] and_then_def err_from_def stat_quiet [OF q(2)] at)
  qed
  then have "handle_write C rel p n = n\<lparr>nd_time := nd_time n + 1\<rparr>"
    by (auto simp: handle_write_def await_quiet [OF q(1)] on_disk_def change_of_def)
  then show "still n (handle_write C rel p n)" "nd_store (handle_write C rel p n) = nd_store n" by (simp_all add: still_def)
qed

lemma handle_delete_quiet:
  assumes q: "quiet (ic_engine C)" "w_verdicts (nd_world (in_node s)) = []"
    and sup: "bt_get (w_sup (nd_world (in_node s))) rel = None"
  shows "still (in_node s) (in_node (handle_delete C rel s))"
    and "find_node (w_fs (nd_world (in_node s))) (share_join (ic_root C) rel) = Inr x \<Longrightarrow>
      nd_db (in_node (handle_delete C rel s)) = nd_db (in_node s) \<and> in_pending (handle_delete C rel s) = in_pending s"
    and "find_node (w_fs (nd_world (in_node s))) (share_join (ic_root C) rel) = Inl e \<Longrightarrow>
      no_live (nd_db (in_node (handle_delete C rel s))) rel \<and> in_pending (handle_delete C rel s) = bt_remove rel (in_pending s)
      \<and> (\<forall>r. r \<noteq> rel \<longrightarrow> load_row (nd_db (in_node (handle_delete C rel s))) r = load_row (nd_db (in_node s)) r)"
proof -
  let ?n = "(in_node s)\<lparr>nd_time := nd_time (in_node s) + 1\<rparr>"
  have run: "handle_delete C rel s = (case find_node (w_fs (nd_world (in_node s))) (share_join (ic_root C) rel) of
       Inr _ \<Rightarrow> s\<lparr>in_node := ?n\<rparr>
     | Inl _ \<Rightarrow> s\<lparr>in_pending := bt_remove rel (in_pending s), in_node := append_change (ic_engine C) (delete_change rel) ?n\<rparr>)"
    using sup by (simp add: handle_delete_def await_quiet [OF q(1)] on_disk_def stat_quiet [OF q(2)] on_sup_miss Let_def split: sum.split)
  show "still (in_node s) (in_node (handle_delete C rel s))"
    unfolding run using append_change_quiet(1) [OF q(1), of ?n "delete_change rel"] by (simp add: still_def split: sum.split)
  show "find_node (w_fs (nd_world (in_node s))) (share_join (ic_root C) rel) = Inr x \<Longrightarrow>
      nd_db (in_node (handle_delete C rel s)) = nd_db (in_node s) \<and> in_pending (handle_delete C rel s) = in_pending s"
    unfolding run by simp
  show "find_node (w_fs (nd_world (in_node s))) (share_join (ic_root C) rel) = Inl e \<Longrightarrow>
      no_live (nd_db (in_node (handle_delete C rel s))) rel \<and> in_pending (handle_delete C rel s) = bt_remove rel (in_pending s)
      \<and> (\<forall>r. r \<noteq> rel \<longrightarrow> load_row (nd_db (in_node (handle_delete C rel s))) r = load_row (nd_db (in_node s)) r)"
    unfolding run by (simp add: append_change_quiet(2) [OF q(1)] append_deletes)
qed

subsection \<open>Names and paths\<close>

definition name_valid :: "string \<Rightarrow> bool" where
  "name_valid n \<longleftrightarrow> n \<noteq> [] \<and> CHR ''/'' \<notin> set n \<and> n \<noteq> ''.'' \<and> n \<noteq> ''..'' \<and> CHR 0x00 \<notin> set n"

definition rel_ok :: "fpath \<Rightarrow> bool" where
  "rel_ok s \<longleftrightarrow> s \<noteq> [] \<and> (\<forall>n \<in> set s. name_valid n) \<and> utf8_ok (map of_char (join_names s))"

lemma split_slash_name: "CHR ''/'' \<notin> set n \<Longrightarrow> split_slash n = [n]"
  by (induction n) auto

lemma split_slash_append: "CHR ''/'' \<notin> set n \<Longrightarrow> split_slash (n @ CHR ''/'' # t) = n # split_slash t"
  by (induction n) auto

lemma split_slash_join: "s \<noteq> [] \<Longrightarrow> \<forall>n \<in> set s. name_valid n \<Longrightarrow> split_slash (join_names s) = s"
  by (induction s rule: join_names.induct) (auto simp: name_valid_def split_slash_name split_slash_append)

lemma join_names_start:
  assumes "s \<noteq> []" "\<forall>n \<in> set s. name_valid n"
  shows "join_names s \<noteq> []" "take 1 (join_names s) \<noteq> ''/''"
proof -
  obtain c cs ns where s: "s = (c # cs) # ns" using assms by (cases s; cases "hd s") (auto simp: name_valid_def)
  then have "c \<noteq> CHR ''/''" using assms by (auto simp: name_valid_def)
  with s show "join_names s \<noteq> []" "take 1 (join_names s) \<noteq> ''/''" by (cases ns; simp)+
qed

lemma components_join:
  assumes "s \<noteq> []" "\<forall>n \<in> set s. name_valid n"
  shows "path_components (join_names s) = map Normal s"
proof -
  have "hd s \<noteq> ''.''" using assms by (cases s) (auto simp: name_valid_def)
  moreover have "concat (map name_component s) = map Normal s"
    using assms(2) by (induction s) (auto simp: name_component_def name_valid_def)
  ultimately show ?thesis
    using join_names_start(2) [OF assms] split_slash_join [OF assms] by (simp add: path_components_def)
qed

lemma share_join_rel: "rel_ok s \<Longrightarrow> share_join root (join_names s) = root @ s"
  using components_join [of s] join_names_start(2) [of s]
  by (simp add: rel_ok_def share_join_def comp_def)

lemma rel_str_rel: "rel_ok s \<Longrightarrow> rel_str root (root @ s) = Some (join_names s)"
  by (simp add: rel_ok_def rel_str_def strip_prefix_def to_str_def)

lemma relativize_rel: "rel_ok s \<Longrightarrow> relativize root (root @ s) = Some (join_names s)"
  using join_names_start(1) [of s] rel_str_rel [of s root] by (simp add: relativize_def rel_ok_def)

lemma join_names_inj: "rel_ok s \<Longrightarrow> rel_ok t \<Longrightarrow> join_names s = join_names t \<Longrightarrow> s = t"
  by (metis rel_ok_def split_slash_join)

subsection \<open>The tree\<close>

definition fs_ok :: "fstree \<Rightarrow> bool" where
  "fs_ok fs \<longleftrightarrow> finite (dom fs) \<and> (\<forall>p \<in> dom fs. (p \<noteq> [] \<longrightarrow> is_dir fs (butlast p)) \<and> (\<forall>c \<in> set p. CHR 0x00 \<notin> set c))"

lemma parents_are_dirs: "fs_ok fs \<Longrightarrow> fs p \<noteq> None \<Longrightarrow> k < length p \<Longrightarrow> is_dir fs (take k p)"
proof (induction p rule: rev_induct)
  case (snoc c p)
  then have "p @ [c] \<in> dom fs" by blast
  with snoc.prems(1) have "is_dir fs (butlast (p @ [c]))" unfolding fs_ok_def by blast
  then have d: "is_dir fs p" by simp
  show ?case
  proof (cases "k = length p")
    case False
    with snoc.prems d have "p \<noteq> []" "k < length p" by auto
    with d snoc.IH snoc.prems(1) False show ?thesis by (auto simp: is_dir_def split: option.splits)
  qed (use d in simp)
qed simp

lemma find_node_there: "fs_ok fs \<Longrightarrow> fs p = Some n \<Longrightarrow> find_node fs p = Inr n"
proof -
  assume ok: "fs_ok fs" and p: "fs p = Some n"
  have "\<forall>q \<in> set (parents p). is_dir fs q" using parents_are_dirs [OF ok] p by (auto simp: parents_def)
  moreover have "\<not> (\<exists>c \<in> set p. CHR 0x00 \<in> set c)" using ok p by (auto simp: fs_ok_def)
  moreover have "find (\<lambda>q. \<not> is_dir fs q) (parents p) = None" using calculation(1) by (simp add: find_None_iff)
  ultimately have "path_error fs p = None" by (simp add: path_error_def)
  with p show ?thesis by (simp add: find_node_def)
qed

lemma find_node_gone: "fs p = None \<Longrightarrow> \<exists>e. find_node fs p = Inl e"
  by (simp add: find_node_def split: option.splits)

definition files_under :: "fstree \<Rightarrow> fpath \<Rightarrow> fpath set" where
  "files_under fs d = {p. \<exists>s x. s \<noteq> [] \<and> p = d @ s \<and> fs p = Some x \<and> n_body x \<noteq> BDir \<and> \<not> is_tmp p}"

definition files_in :: "fstree \<Rightarrow> fpath \<Rightarrow> fpath set" where
  "files_in fs d = {p. \<exists>n x. p = d @ [n] \<and> fs p = Some x \<and> n_body x \<noteq> BDir \<and> \<not> is_tmp p}"

definition dirs_in :: "fstree \<Rightarrow> fpath \<Rightarrow> fpath set" where
  "dirs_in fs d = {p. \<exists>n x. p = d @ [n] \<and> fs p = Some x \<and> n_body x = BDir}"

lemma files_under_step:
  assumes "fs_ok fs"
  shows "files_under fs d = files_in fs d \<union> (\<Union>e \<in> dirs_in fs d. files_under fs e)"
proof (intro set_eqI iffI)
  fix p assume "p \<in> files_under fs d"
  then obtain s x where p: "s \<noteq> []" "p = d @ s" "fs p = Some x" "n_body x \<noteq> BDir" "\<not> is_tmp p" by (auto simp: files_under_def)
  obtain n t where s: "s = n # t" using p(1) by (cases s) auto
  show "p \<in> files_in fs d \<union> (\<Union>e \<in> dirs_in fs d. files_under fs e)"
  proof (cases "t = []")
    case True
    with p s show ?thesis by (auto simp: files_in_def)
  next
    case False
    then have "is_dir fs (d @ [n])" using parents_are_dirs [OF assms, of p "Suc (length d)"] p s by simp
    then have "d @ [n] \<in> dirs_in fs d" by (auto simp: dirs_in_def is_dir_def split: option.splits)
    moreover have "p \<in> files_under fs (d @ [n])" using p s False by (auto simp: files_under_def)
    ultimately show ?thesis by blast
  qed
qed (auto simp: files_under_def files_in_def dirs_in_def)

subsection \<open>The walk\<close>

definition lists_dirs :: "dir_order \<Rightarrow> fstree \<Rightarrow> bool" where
  "lists_dirs ls fs \<longleftrightarrow> (\<forall>d. set (ls fs d) = {n. fs (d @ [n]) \<noteq> None} \<and> distinct (ls fs d))"

lemma walk_entries_quiet:
  assumes "w_verdicts w = []"
  shows "\<forall>n \<in> set ns. w_fs w (d @ [n]) \<noteq> None \<Longrightarrow> \<exists>out' stack'. walk_entries d ns out stack w = (w, Inr (out', stack'))
    \<and> set out' = set out \<union> {p. \<exists>n \<in> set ns. \<exists>x. p = d @ [n] \<and> w_fs w p = Some x \<and> n_body x \<noteq> BDir \<and> \<not> is_tmp p}
    \<and> stack' = rev (map (\<lambda>n. d @ [n]) (filter (\<lambda>n. n_body (the (w_fs w (d @ [n]))) = BDir) ns)) @ stack"
proof (induction ns arbitrary: out stack)
  case (Cons n ns)
  then obtain x where x: "w_fs w (d @ [n]) = Some x" by auto
  have e: "sys_entry (d @ [n]) w = (w, Inr (n_body x))" using assms x by (simp add: sys_entry_def no_faults)
  have split: "{p. \<exists>m \<in> set (n # ns). \<exists>y. p = d @ [m] \<and> w_fs w p = Some y \<and> n_body y \<noteq> BDir \<and> \<not> is_tmp p} =
      (if n_body x \<noteq> BDir \<and> \<not> is_tmp (d @ [n]) then {d @ [n]} else {})
      \<union> {p. \<exists>m \<in> set ns. \<exists>y. p = d @ [m] \<and> w_fs w p = Some y \<and> n_body y \<noteq> BDir \<and> \<not> is_tmp p}"
    using x by auto
  have rest: "\<forall>m \<in> set ns. w_fs w (d @ [m]) \<noteq> None" using Cons.prems by simp
  show ?case
    unfolding split
    using Cons.IH [OF rest, of out "(d @ [n]) # stack"] Cons.IH [OF rest, of out stack] Cons.IH [OF rest, of "out @ [d @ [n]]" stack]
    by (cases "n_body x = BDir"; cases "is_tmp (d @ [n])") (auto simp: e and_then_def x)
qed simp

lemma walk_dir_quiet:
  assumes "w_verdicts w = []" "fs_ok (w_fs w)" "lists_dirs ls (w_fs w)" "w_fs w d = Some x" "n_body x = BDir"
  obtains out' stack' where "walk_dir ls d out stack w = (w, Inr (out', stack' @ stack))"
    "set out' = set out \<union> files_in (w_fs w) d" "set stack' = dirs_in (w_fs w) d" "distinct stack'"
proof -
  have ls: "set (ls (w_fs w) d) = {n. w_fs w (d @ [n]) \<noteq> None}" "distinct (ls (w_fs w) d)"
    using assms(3) by (simp_all add: lists_dirs_def)
  have rd: "sys_read_dir ls d w = (w, Inr (ls (w_fs w) d))"
    using assms find_node_there [OF assms(2,4)] by (simp add: sys_read_dir_def stat_quiet and_then_def)
  define stack' where "stack' = rev (map (\<lambda>n. d @ [n]) (filter (\<lambda>n. n_body (the (w_fs w (d @ [n]))) = BDir) (ls (w_fs w) d)))"
  obtain out' where e: "walk_entries d (ls (w_fs w) d) out stack w = (w, Inr (out', stack' @ stack))"
    and out: "set out' = set out \<union> {p. \<exists>n \<in> set (ls (w_fs w) d). \<exists>x. p = d @ [n] \<and> w_fs w p = Some x \<and> n_body x \<noteq> BDir \<and> \<not> is_tmp p}"
    using walk_entries_quiet [OF assms(1), of "ls (w_fs w) d" d out stack] ls(1) unfolding stack'_def by auto
  show thesis
  proof
    show "walk_dir ls d out stack w = (w, Inr (out', stack' @ stack))" by (simp add: walk_dir_def rd err_from_def and_then_def e)
    show "set out' = set out \<union> files_in (w_fs w) d" using out ls(1) by (auto simp: files_in_def)
    show "set stack' = dirs_in (w_fs w) d" using ls(1) by (auto simp: stack'_def dirs_in_def)
    show "distinct stack'" using ls(2) by (simp add: stack'_def distinct_map inj_on_def)
  qed
qed

lemma walk_quiet:
  assumes q: "quiet E" "w_verdicts (nd_world n) = []"
    and fs: "w_fs (nd_world n) = fs" "fs_ok fs" "lists_dirs ls fs"
    and st: "distinct stack" "set stack \<subseteq> {p. \<exists>x. fs p = Some x \<and> n_body x = BDir} - seen"
      "\<forall>p \<in> set stack \<union> seen. p = root \<or> (length root < length p \<and> butlast p \<in> seen)"
      "card ({p. \<exists>x. fs p = Some x \<and> n_body x = BDir} - seen) \<le> fuel"
  shows "\<exists>n' out'. walk fuel E ls out stack n = Some (n', Inr out') \<and> still n n' \<and> nd_store n' = nd_store n
    \<and> set out' = set out \<union> (\<Union>d \<in> set stack. files_under fs d)"
  using q(2) fs(1) st
proof (induction fuel arbitrary: n out stack seen)
  case 0
  let ?D = "{p. \<exists>x. fs p = Some x \<and> n_body x = BDir}"
  have "finite ?D" using fs(2) by (auto simp: fs_ok_def intro: finite_subset [of _ "dom fs"])
  then have none: "?D - seen = {}" using "0.prems"(6) by simp
  have "set stack = {}" using "0.prems"(4) unfolding none by simp
  then show ?case by simp
next
  case (Suc fuel)
  let ?D = "{p. \<exists>x. fs p = Some x \<and> n_body x = BDir}"
  show ?case
  proof (cases stack)
    case (Cons d rest)
    let ?w = "nd_world n"
    obtain x where x: "fs d = Some x" "n_body x = BDir" and d: "d \<in> ?D" "d \<notin> seen" using Suc.prems(4) Cons by auto
    obtain out1 new where one: "walk_dir ls d out rest ?w = (?w, Inr (out1, new @ rest))"
      and out1: "set out1 = set out \<union> files_in fs d" and new: "set new = dirs_in fs d" "distinct new"
      using walk_dir_quiet [of ?w ls d x out rest] Suc.prems(1,2) fs(2,3) x by metis
    let ?n = "n\<lparr>nd_time := nd_time n + 1\<rparr>"
    have run: "walk (Suc fuel) E ls out stack n = walk fuel E ls out1 (new @ rest) ?n"
      by (simp add: Cons await_quiet [OF q(1)] on_disk_def one)
    have kid: "e \<in> ?D \<and> butlast e = d \<and> length d < length e" if "e \<in> set new" for e using that new(1) by (auto simp: dirs_in_def)
    have droot: "d = root \<or> length root < length d" using Suc.prems(5) Cons by auto
    have fresh: "e \<notin> seen \<and> e \<notin> set stack" if "e \<in> set new" for e
    proof -
      have e: "butlast e = d" "length d < length e" using kid [OF that] by auto
      then have "e \<noteq> root" using droot by auto
      with Suc.prems(5) e(1) d(2) show ?thesis by blast
    qed
    have deep: "length root < length e" if "e \<in> set new" for e using kid [OF that] droot by auto
    have st': "distinct (new @ rest)" "set (new @ rest) \<subseteq> ?D - insert d seen"
      "\<forall>p \<in> set (new @ rest) \<union> insert d seen. p = root \<or> (length root < length p \<and> butlast p \<in> insert d seen)"
      using Suc.prems(3-5) new(2) Cons kid fresh deep by auto
    have "card (?D - insert d seen) < card (?D - seen)"
      using d fs(2) by (intro psubset_card_mono) (auto simp: fs_ok_def intro: finite_subset [of _ "dom fs"])
    then have "card (?D - insert d seen) \<le> fuel" using Suc.prems(6) by simp
    then obtain n' out' where "walk fuel E ls out1 (new @ rest) ?n = Some (n', Inr out')" "still ?n n'" "nd_store n' = nd_store ?n"
      "set out' = set out1 \<union> (\<Union>d \<in> set (new @ rest). files_under fs d)"
      using Suc.IH [of ?n "new @ rest" "insert d seen" out1] Suc.prems(1,2) st' by auto
    then show ?thesis
      using run out1 new(1) files_under_step [OF fs(2), of d] Cons by (auto simp: still_def)
  qed simp
qed

subsection \<open>The events of a pass\<close>

lemma send_all_open: "send_all (\<lambda>_. True) k es = (es, True)"
  by (induction es arbitrary: k) auto

lemma writes_pend:
  assumes "\<forall>p \<in> set found. \<exists>s. rel_ok s \<and> p = ic_root C @ s"
  shows "let s' = fold (ingest_event C t) (map EvWrite found) \<lparr>in_pending = [], in_node = n\<rparr>
    in in_node s' = n \<and> bt_ok (in_pending s')
      \<and> (\<forall>rel v. bt_get (in_pending s') rel = Some v \<longleftrightarrow>
           (\<exists>s. rel_ok s \<and> ic_root C @ s \<in> set found \<and> rel = join_names s \<and> v = (ic_root C @ s, t + quiesce C)))"
  using assms
proof (induction found rule: rev_induct)
  case (snoc p found)
  let ?s = "fold (ingest_event C t) (map EvWrite found) \<lparr>in_pending = [], in_node = n\<rparr>"
  obtain s where s: "rel_ok s" "p = ic_root C @ s" using snoc.prems by auto
  have "\<forall>p \<in> set found. \<exists>s. rel_ok s \<and> p = ic_root C @ s" using snoc.prems by simp
  note all = snoc.IH [OF this, unfolded Let_def]
  note IH = conjunct1 [OF all] conjunct1 [OF conjunct2 [OF all]] conjunct2 [OF conjunct2 [OF all], rule_format]
  have step: "ingest_event C t (EvWrite (ic_root C @ s)) ?s = ?s\<lparr>in_pending := bt_insert (join_names s) (ic_root C @ s, t + quiesce C) (in_pending ?s)\<rparr>"
    by (simp add: ingest_event_def s relativize_rel)
  show ?case
    unfolding Let_def fold_append map_append comp_def
    using IH(1,2) join_names_inj [OF _ s(1)] s
    by (auto simp: step bt_ok_insert bt_get_insert IH(3))
qed simp

lemma deletes_quiet:
  assumes q: "quiet (ic_engine C)"
  shows "w_verdicts (nd_world (in_node s)) = [] \<Longrightarrow> w_sup (nd_world (in_node s)) = [] \<Longrightarrow> \<forall>rel \<in> set rels. bt_get (in_pending s) rel = None \<Longrightarrow>
    bt_ok (in_pending s) \<Longrightarrow>
    let s' = fold (ingest_event C t) (map EvDelete rels) s; fs = w_fs (nd_world (in_node s))
    in still (in_node s) (in_node s') \<and> bt_ok (in_pending s') \<and> (\<forall>rel. bt_get (in_pending s') rel = bt_get (in_pending s) rel)
      \<and> (\<forall>rel \<in> set rels. (\<exists>e. find_node fs (share_join (ic_root C) rel) = Inl e) \<longrightarrow> no_live (nd_db (in_node s')) rel)
      \<and> (\<forall>rel. (rel \<in> set rels \<longrightarrow> (\<exists>x. find_node fs (share_join (ic_root C) rel) = Inr x)) \<longrightarrow>
           load_row (nd_db (in_node s')) rel = load_row (nd_db (in_node s)) rel)"
proof (induction rels arbitrary: s)
  case (Cons rel rels)
  let ?fs = "w_fs (nd_world (in_node s))"
  let ?s = "handle_delete C rel s"
  note del = handle_delete_quiet [OF q Cons.prems(1), of rel]
  have sup: "bt_get (w_sup (nd_world (in_node s))) rel = None" using Cons.prems(2) by simp
  have st: "still (in_node s) (in_node ?s)" using del(1) [OF sup] .
  have pend: "bt_ok (in_pending ?s) \<and> (\<forall>r. bt_get (in_pending ?s) r = bt_get (in_pending s) r)"
    using del(2,3) [OF sup] Cons.prems(3,4)
    by (cases "find_node ?fs (share_join (ic_root C) rel)") (auto simp: bt_ok_remove bt_get_remove)
  have rows: "(\<exists>e. find_node ?fs (share_join (ic_root C) rel) = Inl e) \<longrightarrow> no_live (nd_db (in_node ?s)) rel"
    "r \<noteq> rel \<or> (\<exists>x. find_node ?fs (share_join (ic_root C) rel) = Inr x) \<longrightarrow> load_row (nd_db (in_node ?s)) r = load_row (nd_db (in_node s)) r" for r
    using del(2,3) [OF sup] by (cases "find_node ?fs (share_join (ic_root C) rel)"; auto)+
  have eq: "w_fs (nd_world (in_node ?s)) = ?fs" "w_verdicts (nd_world (in_node ?s)) = []" "w_sup (nd_world (in_node ?s)) = []"
    using st Cons.prems(1,2) by (simp_all add: still_def)
  have rest: "\<forall>r \<in> set rels. bt_get (in_pending ?s) r = None" using Cons.prems(3) pend by simp
  note IH = Cons.IH [OF eq(2,3) rest conjunct1 [OF pend], unfolded Let_def eq(1)]
  let ?t = "fold (ingest_event C t) (map EvDelete rels) ?s"
  have run: "fold (ingest_event C t) (map EvDelete (rel # rels)) s = ?t" by (simp add: ingest_event_def)
  have gone: "no_live (nd_db (in_node ?t)) r"
    if "r \<in> set (rel # rels)" "\<exists>e. find_node ?fs (share_join (ic_root C) r) = Inl e" for r
  proof (cases "r \<in> set rels")
    case False
    then have "load_row (nd_db (in_node ?t)) r = load_row (nd_db (in_node ?s)) r" using IH by blast
    with False that rows(1) show ?thesis by (simp add: no_live_def)
  qed (use that IH in blast)
  have kept: "load_row (nd_db (in_node ?t)) r = load_row (nd_db (in_node s)) r"
    if "r \<in> set (rel # rels) \<longrightarrow> (\<exists>x. find_node ?fs (share_join (ic_root C) r) = Inr x)" for r
  proof -
    have "load_row (nd_db (in_node ?t)) r = load_row (nd_db (in_node ?s)) r" using IH that by simp
    with rows(2) [of r] that show ?thesis by auto
  qed
  show ?case
    unfolding Let_def run using IH st pend gone kept still_trans by auto
qed simp

lemma flush_quiet:
  assumes q: "quiet (ic_engine C)" and cdc: "\<And>data. concat (ic_cdc C (ic_params C) data) = data" and fs: "fs_ok fs"
  shows "w_verdicts (nd_world (in_node s)) = [] \<Longrightarrow> w_sup (nd_world (in_node s)) = [] \<Longrightarrow> w_fs (nd_world (in_node s)) = fs \<Longrightarrow>
    \<forall>e \<in> set es. \<exists>names x. rel_ok names \<and> e = (join_names names, ic_root C @ names) \<and> fs (ic_root C @ names) = Some x \<Longrightarrow>
    let s' = fold (flush_one C) es s
    in still (in_node s) (in_node s') \<and> (\<forall>rel. bt_get (in_pending s') rel = (if rel \<in> fst ` set es then None else bt_get (in_pending s) rel))
      \<and> (\<forall>e \<in> set es. \<forall>x. fs (snd e) = Some x \<longrightarrow> replicable C x \<longrightarrow> index_has C (nd_db (in_node s')) (fst e) x)
      \<and> (\<forall>rel. (\<forall>e \<in> set es. fst e = rel \<longrightarrow> \<not> replicable C (the (fs (snd e)))) \<longrightarrow>
           load_row (nd_db (in_node s')) rel = load_row (nd_db (in_node s)) rel)"
proof (induction es arbitrary: s)
  case (Cons e es)
  obtain names x where e: "rel_ok names" "e = (join_names names, ic_root C @ names)" "fs (ic_root C @ names) = Some x"
    using Cons.prems(4) by auto
  let ?n = "in_node s" and ?rel = "join_names names" and ?p = "ic_root C @ names"
  let ?s = "flush_one C e s"
  have at: "find_node (w_fs (nd_world ?n)) ?p = Inr x" using find_node_there [OF fs e(3)] Cons.prems(3) by simp
  have sup: "bt_get (w_sup (nd_world ?n)) ?rel = None" using Cons.prems(2) by simp
  note hw = handle_write_quiet [OF q Cons.prems(1) at _ cdc sup] and skip = handle_write_skips [OF q Cons.prems(1) at]
  have node: "in_node ?s = handle_write C ?rel ?p ?n" by (simp add: flush_one_def e(2))
  have st: "still ?n (in_node ?s)" unfolding node using hw(1) skip(1) by blast
  have has: "replicable C x \<Longrightarrow> index_has C (nd_db (in_node ?s)) ?rel x" unfolding node by (rule hw(2))
  have same: "r \<noteq> ?rel \<or> \<not> replicable C x \<Longrightarrow> load_row (nd_db (in_node ?s)) r = load_row (nd_db ?n) r" for r
    unfolding node using hw(3) [of r] skip(2) by (cases "replicable C x") auto
  have eq: "w_verdicts (nd_world (in_node ?s)) = []" "w_sup (nd_world (in_node ?s)) = []" "w_fs (nd_world (in_node ?s)) = fs"
    using st Cons.prems(1-3) by (simp_all add: still_def)
  have rest: "\<forall>e \<in> set es. \<exists>names x. rel_ok names \<and> e = (join_names names, ic_root C @ names) \<and> fs (ic_root C @ names) = Some x"
    using Cons.prems(4) by simp
  note IH = Cons.IH [OF eq rest, unfolded Let_def]
  let ?t = "fold (flush_one C) es ?s"
  have pend: "bt_get (in_pending ?t) r = (if r \<in> fst ` set (e # es) then None else bt_get (in_pending s) r)" for r
    using IH by (auto simp: flush_one_def bt_get_remove e(2))
  have all: "index_has C (nd_db (in_node ?t)) (fst f) y" if f: "f \<in> set (e # es)" "fs (snd f) = Some y" "replicable C y" for f y
  proof (cases "\<exists>g \<in> set es. fst g = fst f \<and> replicable C (the (fs (snd g)))")
    case True
    then obtain g where g: "g \<in> set es" "fst g = fst f" "replicable C (the (fs (snd g)))" by blast
    obtain a b where "rel_ok a" "g = (join_names a, ic_root C @ a)" "fs (snd g) = Some b" using rest g(1) by fastforce
    moreover obtain a' where "rel_ok a'" "f = (join_names a', ic_root C @ a')" using Cons.prems(4) f(1) by blast
    ultimately have "snd g = snd f" using g(2) join_names_inj by auto
    with IH g f show ?thesis by auto
  next
    case False
    then have "f = e" using f by (auto simp: image_iff)
    then have "load_row (nd_db (in_node ?t)) (fst f) = load_row (nd_db (in_node ?s)) (fst f)" using IH False by blast
    with has f e \<open>f = e\<close> show ?thesis by (simp add: index_has_def)
  qed
  have kept: "load_row (nd_db (in_node ?t)) r = load_row (nd_db ?n) r"
    if "\<forall>f \<in> set (e # es). fst f = r \<longrightarrow> \<not> replicable C (the (fs (snd f)))" for r
  proof -
    have "load_row (nd_db (in_node ?t)) r = load_row (nd_db (in_node ?s)) r" using IH that by simp
    with same [of r] that e show ?thesis by auto
  qed
  show ?case unfolding Let_def using IH st pend all kept still_trans by auto
qed simp

subsection \<open>Properties\<close>

lemma all_none_Nil: "(\<And>k. bt_get m k = None) \<Longrightarrow> m = []"
  by (cases m) (auto simp: bt_get_None_iff)

lemma live_files_paths:
  assumes "files_ok (t_files d)"
  shows "set (map lv_path (live_files d)) = {p. \<exists>r. load_row d p = Some r \<and> \<not> r_tombstone r}"
proof -
  have "(p, r) \<in> set (t_files d) \<longleftrightarrow> load_row d p = Some r" for p r
    using assms by (simp add: files_ok_def load_row_def bt_get_mem_iff)
  moreover have "(p, r) \<in> set (t_files d) \<Longrightarrow> r_path r = p" for p r using assms by (auto simp: files_ok_def)
  ultimately show ?thesis by (force simp: live_files_def bt_values_def)
qed

lemma disk_rels_iff: "rel \<in> set (disk_rels root found) \<longleftrightarrow> (\<exists>p \<in> set found. rel_str root p = Some rel)"
  by (induction found) (auto simp: disk_rels_def map_filter_simps split: option.splits)

lemma ingest_turn_event: "ingest_turn C (t, GotEvent e) = ingest_event C t e"
  by (rule ext) (simp add: ingest_turn_def)

text \<open>The tree under the share: a directory whose relative paths are valid names.\<close>

definition share_ok :: "ingest_cfg \<Rightarrow> fstree \<Rightarrow> bool" where
  "share_ok C fs \<longleftrightarrow> fs_ok fs \<and> (\<exists>x. fs (ic_root C) = Some x \<and> n_body x = BDir)
     \<and> (\<forall>s. s \<noteq> [] \<longrightarrow> fs (ic_root C @ s) \<noteq> None \<longrightarrow> rel_ok s)"

lemma scan_quiet:
  assumes q: "quiet (ic_engine C)" "w_verdicts (nd_world n) = []" and fs: "w_fs (nd_world n) = fs" "share_ok C fs" "lists_dirs ls fs"
    and fuel: "card (dom fs) \<le> fuel"
  obtains n1 found where "scan_once fuel (ic_engine C) ls (\<lambda>_. True) n =
      Some (n1, map EvWrite found @ map EvDelete (filter (\<lambda>p. p \<notin> set (disk_rels (ic_root C) found)) (map lv_path (live_files (nd_db n)))),
        Inr \<lparr>ss_files_seen = length found, ss_deletes_emitted = length (filter (\<lambda>p. p \<notin> set (disk_rels (ic_root C) found)) (map lv_path (live_files (nd_db n))))\<rparr>)"
    "still n n1" "nd_store n1 = nd_store n" "set found = files_under fs (ic_root C)"
proof -
  let ?D = "{p. \<exists>x. fs p = Some x \<and> n_body x = BDir}"
  have ok: "fs_ok fs" and root: "\<exists>x. fs (ic_root C) = Some x \<and> n_body x = BDir" using fs(2) by (simp_all add: share_ok_def)
  have "card (?D - {}) \<le> card (dom fs)" using ok by (intro card_mono) (auto simp: fs_ok_def)
  then have "\<exists>n' out'. walk fuel (ic_engine C) ls [] [ic_root C] n = Some (n', Inr out') \<and> still n n' \<and> nd_store n' = nd_store n
      \<and> set out' = set [] \<union> (\<Union>d \<in> set [ic_root C]. files_under fs d)"
    using root fuel by (intro walk_quiet [OF q fs(1) ok fs(3), where seen = "{}" and root = "ic_root C"]) auto
  then obtain n0 found where w: "walk fuel (ic_engine C) ls [] [ic_root C] n = Some (n0, Inr found)" "still n n0"
    "nd_store n0 = nd_store n" "set found = files_under fs (ic_root C)" by auto
  let ?n1 = "n0\<lparr>nd_time := nd_time n0 + 1\<rparr>"
  have gone: "map (\<lambda>row. EvDelete (lv_path row)) (filter (\<lambda>row. lv_path row \<notin> S) rows) = map EvDelete (filter (\<lambda>p. p \<notin> S) (map lv_path rows))"
    "length (filter (\<lambda>row. lv_path row \<notin> S) rows) = length (filter (\<lambda>p. p \<notin> S) (map lv_path rows))" for S rows
    by (simp_all add: filter_map comp_def)
  show thesis
  proof (rule that [of ?n1 found])
    show "still n ?n1" "nd_store ?n1 = nd_store n" "set found = files_under fs (ic_root C)"
      using w by (simp_all add: still_def)
  qed (use w(1,3) in \<open>simp add: scan_once_def send_all_open await_quiet [OF q(1)] store_reads Let_def gone\<close>)
qed

text \<open>
  The events of a scan, taken by the pipeline at one instant, and a tick after the
  quiescence window.
\<close>

lemma pipeline_quiet:
  assumes q: "quiet (ic_engine C)" "w_verdicts (nd_world n) = []" "w_sup (nd_world n) = []"
    and fs: "w_fs (nd_world n) = fs" "fs_ok fs"
    and cdc: "\<And>data. concat (ic_cdc C (ic_params C) data) = data" and order: "\<And>es. set (ic_order C es) = set es"
    and time: "t + quiesce C \<le> t'"
    and below: "\<And>p. p \<in> set found \<Longrightarrow> \<exists>s. rel_ok s \<and> p = ic_root C @ s \<and> fs p \<noteq> None"
    and apart: "\<And>s. rel_ok s \<Longrightarrow> join_names s \<in> set gone \<Longrightarrow> ic_root C @ s \<notin> set found"
  shows "let s' = ingest_run C (map (\<lambda>e. (t, GotEvent e)) (map EvWrite found @ map EvDelete gone) @ [(t', Tick)]) \<lparr>in_pending = [], in_node = n\<rparr>;
             d' = nd_db (in_node s')
         in in_pending s' = []
           \<and> (\<forall>s x. rel_ok s \<longrightarrow> ic_root C @ s \<in> set found \<longrightarrow> fs (ic_root C @ s) = Some x \<longrightarrow> replicable C x \<longrightarrow> index_has C d' (join_names s) x)
           \<and> (\<forall>s. rel_ok s \<longrightarrow> join_names s \<in> set gone \<longrightarrow> fs (ic_root C @ s) = None \<longrightarrow> no_live d' (join_names s))
           \<and> (\<forall>s. rel_ok s \<longrightarrow> (ic_root C @ s \<in> set found \<longrightarrow> \<not> replicable C (the (fs (ic_root C @ s)))) \<longrightarrow>
                (join_names s \<in> set gone \<longrightarrow> fs (ic_root C @ s) \<noteq> None) \<longrightarrow> load_row d' (join_names s) = load_row (nd_db n) (join_names s))"
proof -
  let ?root = "ic_root C"
  define s1 where "s1 = fold (ingest_event C t) (map EvWrite found) \<lparr>in_pending = [], in_node = n\<rparr>"
  define s2 where "s2 = fold (ingest_event C t) (map EvDelete gone) s1"
  define es where "es = ic_order C (ripe t' (in_pending s2))"
  define s3 where "s3 = fold (flush_one C) es s2"
  note w = writes_pend [of found C t n, folded s1_def, unfolded Let_def]
  have s1: "in_node s1 = n" "bt_ok (in_pending s1)"
    "\<And>rel v. bt_get (in_pending s1) rel = Some v \<longleftrightarrow> (\<exists>s. rel_ok s \<and> ?root @ s \<in> set found \<and> rel = join_names s \<and> v = (?root @ s, t + quiesce C))"
    using w below by blast+
  have none: "\<forall>rel \<in> set gone. bt_get (in_pending s1) rel = None"
  proof
    fix rel assume "rel \<in> set gone"
    then have "\<nexists>v. bt_get (in_pending s1) rel = Some v" unfolding s1(3) using apart by blast
    then show "bt_get (in_pending s1) rel = None" by (cases "bt_get (in_pending s1) rel") auto
  qed
  have w1: "w_verdicts (nd_world (in_node s1)) = []" "w_sup (nd_world (in_node s1)) = []" "w_fs (nd_world (in_node s1)) = fs"
    using s1(1) q fs(1) by simp_all
  note s2 = deletes_quiet [OF q(1) w1(1,2) none s1(2), of t, folded s2_def, unfolded Let_def w1(3)]
  have w2: "w_verdicts (nd_world (in_node s2)) = []" "w_sup (nd_world (in_node s2)) = []" "w_fs (nd_world (in_node s2)) = fs"
    using s2 w1 by (simp_all add: still_def)
  have mem: "(rel, v) \<in> set (in_pending s2) \<longleftrightarrow> (\<exists>s. rel_ok s \<and> ?root @ s \<in> set found \<and> rel = join_names s \<and> v = (?root @ s, t + quiesce C))" for rel v
    using s2 s1(3) bt_get_mem_iff [of "in_pending s2" rel v] by metis
  have es: "set es = {(join_names s, ?root @ s) |s. rel_ok s \<and> ?root @ s \<in> set found}"
    using mem time unfolding es_def order ripe_def by (fastforce simp: image_iff)
  have good: "\<forall>e \<in> set es. \<exists>names x. rel_ok names \<and> e = (join_names names, ?root @ names) \<and> fs (?root @ names) = Some x"
    using below unfolding es by blast
  note s3 = flush_quiet [OF q(1) cdc fs(2) w2 good, folded s3_def, unfolded Let_def]
  have pend: "bt_get (in_pending s3) rel = None" for rel
  proof (cases "bt_get (in_pending s1) rel")
    case (Some v)
    then have "rel \<in> fst ` set es" unfolding s1(3) es by force
    with s3 show ?thesis by simp
  qed (use s3 s2 in simp)
  have here: "e = (join_names s, ?root @ s)" if "e \<in> set es" "fst e = join_names s" "rel_ok s" for e s
    using that(1,2) join_names_inj [OF _ that(3)] unfolding es by auto
  have quiet3: "load_row (nd_db (in_node s3)) (join_names s) = load_row (nd_db (in_node s2)) (join_names s)"
    if "rel_ok s" "?root @ s \<in> set found \<longrightarrow> \<not> replicable C (the (fs (?root @ s)))" for s
  proof -
    have "\<not> replicable C (the (fs (snd e)))" if "e \<in> set es" "fst e = join_names s" for e
      using here [OF that \<open>rel_ok s\<close>] that(1) \<open>_ \<longrightarrow> _\<close> es join_names_inj [OF _ \<open>rel_ok s\<close>] by auto
    with s3 show ?thesis by blast
  qed
  have has: "index_has C (nd_db (in_node s3)) (join_names s) x"
    if "rel_ok s" "?root @ s \<in> set found" "fs (?root @ s) = Some x" "replicable C x" for s x
  proof -
    have "(join_names s, ?root @ s) \<in> set es" using that(1,2) unfolding es by blast
    with s3 that(3,4) show ?thesis by fastforce
  qed
  have gone: "no_live (nd_db (in_node s3)) (join_names s)" if "rel_ok s" "join_names s \<in> set gone" "fs (?root @ s) = None" for s
    using s2 find_node_gone [of fs, OF that(3)] share_join_rel [OF that(1)] that(2) apart [OF that(1,2)] quiet3 [OF that(1)]
    by (simp add: no_live_def)
  have kept: "load_row (nd_db (in_node s3)) (join_names s) = load_row (nd_db n) (join_names s)"
    if "rel_ok s" "?root @ s \<in> set found \<longrightarrow> \<not> replicable C (the (fs (?root @ s)))" "join_names s \<in> set gone \<longrightarrow> fs (?root @ s) \<noteq> None" for s
  proof -
    have "\<exists>x. find_node fs (share_join ?root (join_names s)) = Inr x" if "join_names s \<in> set gone"
      using that \<open>_ \<longrightarrow> fs _ \<noteq> None\<close> find_node_there [OF fs(2)] share_join_rel [OF \<open>rel_ok s\<close>] by auto
    with s2 quiet3 that(1,2) s1(1) show ?thesis by metis
  qed
  have run: "ingest_run C (map (\<lambda>e. (t, GotEvent e)) (map EvWrite found @ map EvDelete gone) @ [(t', Tick)]) \<lparr>in_pending = [], in_node = n\<rparr>
      = ingest_turn C (t', Tick) s2"
    by (simp add: ingest_run_def ingest_turn_event fold_map comp_def s1_def s2_def)
  have "in_pending (ingest_turn C (t', Tick) s2) = in_pending s3" "nd_db (in_node (ingest_turn C (t', Tick) s2)) = nd_db (in_node s3)"
    by (simp_all add: ingest_turn_def ingest_tick_def flush_ripe_def Let_def on_sup_def s3_def es_def)
  then show ?thesis unfolding run Let_def using all_none_Nil [OF pend] has gone kept by simp
qed

text \<open>A share with one file, which a fresh node has not indexed.\<close>

definition local_cfg :: ingest_cfg where
  "local_cfg = \<lparr>ic_engine = serving_engine, ic_cdc = (\<lambda>_ data. [data]), ic_params = \<lparr>cp_min = 1, cp_avg = 2, cp_max = 3\<rparr>,
     ic_quiesce_ms = 5, ic_scan_interval_secs = 60, ic_order = rev\<rparr>"

definition noticed_file :: fnode where
  "noticed_file = \<lparr>n_body = BFile [7, 8] True, n_attr = example_attr\<rparr>"

definition local_tree :: fstree where
  "local_tree = [[''r''] \<mapsto> \<lparr>n_body = BDir, n_attr = example_attr\<rparr>, [''r'', ''f''] \<mapsto> noticed_file]"

definition local_order :: dir_order where
  "local_order fs d = (if d = [''r''] then [''f''] else if d = [] then [''r''] else [])"

definition local_node :: node where
  "local_node = idle_node\<lparr>nd_world := set_fs local_tree (example_world [])\<rparr>"

lemma local_tree_iff:
  "local_tree p = Some x \<longleftrightarrow> p = [''r''] \<and> x = \<lparr>n_body = BDir, n_attr = example_attr\<rparr> \<or> p = [''r'', ''f''] \<and> x = noticed_file"
  by (auto simp: local_tree_def)

lemma local_share_ok: "share_ok local_cfg local_tree"
proof -
  have "dom local_tree = {[''r''], [''r'', ''f'']}" by (auto simp: local_tree_def)
  then have "fs_ok local_tree" by (auto simp: fs_ok_def is_dir_def local_tree_def)
  moreover have "local_tree [''r''] = Some \<lparr>n_body = BDir, n_attr = example_attr\<rparr>" by (simp add: local_tree_iff)
  moreover have "rel_ok s" if s: "s \<noteq> []" "local_tree (''r'' # s) \<noteq> None" for s
  proof -
    obtain x where "local_tree (''r'' # s) = Some x" using s(2) by auto
    with s(1) have "s = [''f'']" by (simp add: local_tree_iff)
    then show ?thesis by (simp add: rel_ok_def name_valid_def)
  qed
  ultimately show ?thesis by (simp add: share_ok_def local_cfg_def serving_engine_def example_ctx_def)
qed

lemma local_lists: "lists_dirs local_order local_tree"
  by (auto simp: lists_dirs_def local_order_def local_tree_def split: if_splits)



end
