(* ===== verification/Echo.thy ===== *)
theory Echo
  imports Local_Laws
begin

text \<open>
  How applying remote versions and noticing local changes fit together: what the apply
  engine puts on disk is not taken for a change of this node, and where the local pipeline
  misses a change until a later event.
\<close>

subsection \<open>The suppression entry after an apply\<close>

lemma syscall_sup: "w_sup (fst (syscall p f w)) = w_sup w"
  by (simp add: syscall_def set_fs_def Let_def case_prod_unfold split: verdict.split option.split sum.split)

lemma sys_sup: "w_sup (fst (sys_rename p q w)) = w_sup w" "w_sup (fst (sys_remove_file p w)) = w_sup w"
  unfolding sys_rename_def sys_remove_file_def by (rule syscall_sup)+

context staging
begin

lemma publish_sup: "publish (stage tmp) tmp dest w = (w', Inr u) \<Longrightarrow> w_sup w' = w_sup w"
proof -
  assume run: "publish (stage tmp) tmp dest w = (w', Inr u)"
  obtain w1 r1 where st: "stage tmp w = (w1, r1)" by fastforce
  obtain w2 r2 where rn: "sys_rename tmp dest w1 = (w2, r2)" by fastforce
  have "w_sup w1 = w_sup w" using stage_only [of tmp w] st by (simp add: only_at_def)
  moreover have "w_sup w2 = w_sup w1" using rn sys_sup(1) [of tmp dest w1] by simp
  ultimately show ?thesis using run st rn by (auto simp: publish_def and_then_def with_ctx_def split: sum.splits)
qed

lemma staged_sup:
  assumes "staged_apply c rel h stage w = (w', Inr u)"
  shows "bt_get (w_sup w') rel = Some (write_entry c h)"
proof -
  obtain dest where dest: "safe_dest (ax_root c) rel = Inr dest" using assms by (auto simp: staged_apply_def split: sum.splits)
  obtain w1 r1 where mk: "sys_create_dir_all (butlast dest) w = (w1, r1)" by fastforce
  let ?v = "(suppress_write c rel h w1)\<lparr>w_seq := w_seq w1 + 1\<rparr>"
  have "publish (stage (tmp_name c dest (w_seq w1))) (tmp_name c dest (w_seq w1)) dest ?v = (w', Inr u)"
    using assms mk by (cases r1) (simp_all add: staged_apply_def dest and_then_def with_ctx_def next_stage_def suppress_write_def Let_def)
  then have "w_sup w' = w_sup ?v" by (rule publish_sup)
  then show ?thesis by (simp add: suppress_write_def register_write_def write_entry_def bt_get_simps)
qed

end

lemma apply_version_sup:
  assumes "apply_version c rel mode ho mano mo w = (w', Inr ())"
  shows "bt_get (w_sup w') rel = Some (write_entry c (version_hash ho mo))"
  using apply_version_cases [of c rel mode ho mano mo w]
proof cases
  case (staged stage)
  with assms show ?thesis using staging.staged_sup [OF staged(1)] by simp
qed (use assms in simp)

text \<open>The hash the entry carries is the one the pipeline computes from the published node.\<close>

lemma good_version_hash:
  assumes "good_version X mode ho mo n"
  shows "unwrap_or (node_hash X n) (zeros 32) = version_hash ho mo"
  using assms
  by (auto simp: good_version_def version_hash_def node_hash_def good_file_def good_link_def good_special_def unwrap_or_def
      split: option.splits file_kind.splits)

lemma handle_write_suppressed:
  assumes q: "quiet (ic_engine C)" "w_verdicts (nd_world n) = []" and at: "find_node (w_fs (nd_world n)) p = Inr x"
    and rep: "replicable C x" and cdc: "\<And>data. concat (ic_cdc C (ic_params C) data) = data"
    and sup: "bt_get (w_sup (nd_world n)) rel = Some e" "e_kind e = KWrite (unwrap_or (node_hash (ic_crates C) x) (zeros 32))"
  shows "nd_store (handle_write C rel p n) = nd_store n \<and> w_sup (nd_world (handle_write C rel p n)) = bt_remove rel (w_sup (nd_world n))"
proof -
  obtain cas' ob c where ob: "observe C p (nd_world n) = ((nd_world n)\<lparr>w_cas := cas'\<rparr>, Inr (Some ob))"
    and c: "change_of (ic_crates C) rel ob = Some c" "records C rel x c"
    using observe_quiet [OF q(2) at rep cdc] by blast
  from c(2) have "lc_content_hash c = node_hash (ic_crates C) x" by (simp add: records_def)
  with sup show ?thesis
    by (simp add: handle_write_def await_quiet [OF q(1)] on_disk_def ob c on_sup_def check_write_def)
qed

lemma handle_write_missing:
  assumes "quiet (ic_engine C)" "w_verdicts (nd_world n) = []" "find_node (w_fs (nd_world n)) p = Inl e"
  shows "nd_store (handle_write C rel p n) = nd_store n"
  using assms
  by (simp add: handle_write_def await_quiet on_disk_def observe_def sys_capture_def stat_quiet and_then_def err_from_def)

lemma apply_delete_sup:
  assumes "safe_dest (ax_root c) rel = Inr dest"
  shows "bt_get (w_sup (fst (apply_delete c rel w))) rel = Some \<lparr>e_kind = KDelete, e_at = ax_now c\<rparr>"
proof -
  obtain w1 res where run: "sys_remove_file dest (suppress_delete c rel w) = (w1, res)" by fastforce
  then have "w_sup w1 = w_sup (suppress_delete c rel w)" using sys_sup(2) [of dest "suppress_delete c rel w"] by simp
  with run assms show ?thesis
    by (auto simp: apply_delete_def suppress_delete_def register_delete_def bt_get_simps split: sum.splits)
qed

lemma share_join_dest: "safe_dest root rel = Inr dest \<Longrightarrow> share_join root rel = dest"
  by (auto simp: safe_dest_def share_join_def is_normal_def split: if_splits component.splits intro!: arg_cong [where f = concat] map_cong)

subsection \<open>Properties\<close>

text \<open>
  C12. What a peer's version does to the disk is not announced as a change of this node.
  After a version is applied, as long as the file and its suppression entry stay, the
  pipeline's look at the path leaves the store as it is, whatever kind the node is; and the
  look uses the entry up, so that a later local change is not swallowed.
\<close>

theorem remote_apply_not_echoed:
  assumes dest: "safe_dest (ic_root C) rel = Inr dest" "w_fs w (tmp_name (e_apply (ic_engine C)) dest (w_seq w)) = None"
    and run: "apply_version (e_apply (ic_engine C)) rel mode ho mano mo w = (w', Inr ())"
    and later: "w_fs (nd_world n) dest = w_fs w' dest" "bt_get (w_sup (nd_world n)) rel = bt_get (w_sup w') rel" "bt_ok (w_sup (nd_world n))"
    and q: "quiet (ic_engine C)" "w_verdicts (nd_world n) = []" and cdc: "\<And>data. concat (ic_cdc C (ic_params C) data) = data"
  shows "nd_store (handle_write C rel dest n) = nd_store n
    \<and> (\<forall>x. find_node (w_fs (nd_world n)) dest = Inr x \<and> replicable C x \<longrightarrow>
         bt_get (w_sup (nd_world (handle_write C rel dest n))) rel = None)"
proof -
  obtain x where x: "w_fs w' dest = Some x" "good_version (ic_crates C) mode ho mo x"
    using apply_version_facts(2) [OF dest run] by blast
  have sup: "bt_get (w_sup (nd_world n)) rel = Some (write_entry (e_apply (ic_engine C)) (version_hash ho mo))"
    using apply_version_sup [OF run] later(2) by simp
  have hash: "e_kind (write_entry (e_apply (ic_engine C)) (version_hash ho mo)) = KWrite (unwrap_or (node_hash (ic_crates C) x) (zeros 32))"
    using good_version_hash [OF x(2)] by (simp add: write_entry_def)
  show ?thesis
  proof (cases "find_node (w_fs (nd_world n)) dest")
    case (Inl e)
    with handle_write_missing [OF q Inl] show ?thesis by simp
  next
    case (Inr y)
    then have y: "y = x" using x(1) later(1) by (auto simp: find_node_def split: option.splits)
    show ?thesis
    proof (cases "replicable C x")
      case True
      with handle_write_suppressed [OF q Inr _ cdc sup] y hash later(3) show ?thesis by (simp add: bt_get_remove)
    next
      case False
      with handle_write_skips(2) [OF q Inr] y Inr show ?thesis by auto
    qed
  qed
qed

text \<open>
  Nor is a deletion a peer asked for: after the apply engine removed a file, the
  pipeline's delete handler leaves the store as it is and uses the entry up.
\<close>

theorem remote_delete_not_echoed:
  assumes dest: "safe_dest (ic_root C) rel = Inr dest"
    and run: "apply_delete (e_apply (ic_engine C)) rel w = (w', Inr ())"
    and later: "bt_get (w_sup (nd_world (in_node s))) rel = bt_get (w_sup w') rel" "bt_ok (w_sup (nd_world (in_node s)))"
    and q: "quiet (ic_engine C)" "w_verdicts (nd_world (in_node s)) = []"
  shows "nd_store (in_node (handle_delete C rel s)) = nd_store (in_node s)
    \<and> (find_node (w_fs (nd_world (in_node s))) dest = Inl e \<longrightarrow>
         bt_get (w_sup (nd_world (in_node (handle_delete C rel s)))) rel = None)"
proof -
  have sup: "bt_get (w_sup w') rel = Some \<lparr>e_kind = KDelete, e_at = ax_now (e_apply (ic_engine C))\<rparr>"
    using apply_delete_sup [OF dest, of w] run by simp
  show ?thesis
    using sup later q unfolding handle_delete_def share_join_dest [OF dest]
    by (auto simp: await_quiet on_disk_def stat_quiet on_sup_def check_delete_def bt_get_remove Let_def split: sum.split)
qed

theorem remote_apply_not_echoed_witness:
  "\<exists>w'. apply_version example_ctx ''f'' 0 (Some [7]) None (Some example_link) (example_world []) = (w', Inr ())
     \<and> nd_store (handle_write local_cfg ''f'' [''r'', ''f'']
           (idle_node\<lparr>nd_world := (example_world [])\<lparr>w_fs := w_fs w', w_sup := [(''f'', write_entry example_ctx [7])]\<rparr>\<rparr>)) = nd_store idle_node"
proof -
  obtain w' where run: "apply_version example_ctx ''f'' 0 (Some [7]) None (Some example_link) (example_world []) = (w', Inr ())"
    using example_run by (cases "apply_version example_ctx ''f'' 0 (Some [7]) None (Some example_link) (example_world [])") simp
  let ?n = "idle_node\<lparr>nd_world := (example_world [])\<lparr>w_fs := w_fs w', w_sup := [(''f'', write_entry example_ctx [7])]\<rparr>\<rparr>"
  have cfg: "e_apply (ic_engine local_cfg) = example_ctx" "concat (ic_cdc local_cfg (ic_params local_cfg) data) = data" "quiet (ic_engine local_cfg)"
    for data by (simp_all add: local_cfg_def serving_engine_def quiet_def)
  have free: "w_fs (example_world []) (tmp_name example_ctx [''r'', ''f''] (w_seq (example_world []))) = None"
    by (simp add: example_world_def tmp_name_def)
  have later: "w_fs (nd_world ?n) [''r'', ''f''] = w_fs w' [''r'', ''f'']" "bt_get (w_sup (nd_world ?n)) ''f'' = bt_get (w_sup w') ''f''"
    "bt_ok (w_sup (nd_world ?n))" "w_verdicts (nd_world ?n) = []"
    using apply_version_sup [OF run] by (simp_all add: version_hash_def example_link_def bt_get_Cons bt_ok_Cons unwrap_or_def example_world_def)
  have "nd_store (handle_write local_cfg ''f'' [''r'', ''f''] ?n) = nd_store ?n"
    using remote_apply_not_echoed [of local_cfg "''f''" "[''r'', ''f'']", unfolded cfg(1), OF example_dest free run later(1-3) cfg(3) later(4) cfg(2)] by blast
  with run show ?thesis by auto
qed

theorem remote_delete_not_echoed_witness:
  "\<exists>w'. apply_delete example_ctx ''f'' (example_world []) = (w', Inr ())
     \<and> nd_store (in_node (handle_delete local_cfg ''f'' \<lparr>in_pending = [], in_node = idle_node\<lparr>nd_world :=
           (example_world [])\<lparr>w_sup := [(''f'', \<lparr>e_kind = KDelete, e_at = ax_now example_ctx\<rparr>)]\<rparr>\<rparr>\<rparr>)) = nd_store idle_node"
proof -
  have "snd (apply_delete example_ctx ''f'' (example_world [])) = Inr ()"
    by (simp add: apply_delete_def example_dest example_world_def sys_remove_file_def syscall_def next_verdict_def suppress_delete_def
        path_error_def parents_def is_dir_def)
  then obtain w' where run: "apply_delete example_ctx ''f'' (example_world []) = (w', Inr ())"
    by (cases "apply_delete example_ctx ''f'' (example_world [])") simp
  have cfg: "e_apply (ic_engine local_cfg) = example_ctx" "quiet (ic_engine local_cfg)"
    by (simp_all add: local_cfg_def serving_engine_def quiet_def)
  let ?s = "\<lparr>in_pending = [], in_node = idle_node\<lparr>nd_world := (example_world [])\<lparr>w_sup := [(''f'', \<lparr>e_kind = KDelete, e_at = ax_now example_ctx\<rparr>)]\<rparr>\<rparr>\<rparr>"
  have later: "bt_get (w_sup (nd_world (in_node ?s))) ''f'' = bt_get (w_sup w') ''f''" "bt_ok (w_sup (nd_world (in_node ?s)))"
    "w_verdicts (nd_world (in_node ?s)) = []"
    using apply_delete_sup [OF example_dest, of "example_world []"] run by (simp_all add: bt_get_Cons bt_ok_Cons example_world_def)
  have "nd_store (in_node (handle_delete local_cfg ''f'' ?s)) = nd_store (in_node ?s)"
    using remote_delete_not_echoed [of local_cfg "''f''" "[''r'', ''f'']", unfolded cfg(1), OF example_dest run later(1,2) cfg(2) later(3)] by blast
  with run show ?thesis by auto
qed

subsection \<open>Renames\<close>

lemma rename_rows:
  assumes "load_row d old = Some r" "\<not> r_tombstone r" "old \<noteq> new"
  shows "no_live (fst (append_local_rename X node old new d)) old
    \<and> (\<exists>r'. load_row (fst (append_local_rename X node old new d)) new = Some r' \<and> \<not> r_tombstone r'
         \<and> r_content_hash r' = r_content_hash r \<and> r_meta r' = r_meta r)"
  using assms by (auto simp: append_local_rename_def Let_def no_live_def)

text \<open>
  A rename is announced from the index alone.  A live source row moves to the new path
  with the content hash and metadata it had, the source is tombstoned, and a pending write
  of the source is forgotten, so a write that was still being debounced is not announced
  with the rename; and when the source has no live row, as in a save through a new file
  that is renamed into place, nothing is announced and nothing is left pending.
\<close>

theorem rename_announces_the_row:
  assumes q: "quiet (ic_engine C)" and sup: "bt_get (w_sup (nd_world (in_node s))) old = None"
    and to: "relativize (ic_root C) to = Some new" "new \<noteq> old"
  shows "let s' = handle_rename C old to s; d = nd_db (in_node s); d' = nd_db (in_node s')
    in in_pending s' = bt_remove old (in_pending s)
      \<and> (case load_row d old of
           Some r \<Rightarrow> if r_tombstone r then d' = d
                     else no_live d' old \<and> (\<exists>r'. load_row d' new = Some r' \<and> \<not> r_tombstone r'
                            \<and> r_content_hash r' = r_content_hash r \<and> r_meta r' = r_meta r)
         | None \<Rightarrow> d' = d)"
proof -
  have run: "in_pending (handle_rename C old to s) = bt_remove old (in_pending s)"
    "nd_db (in_node (handle_rename C old to s)) = fst (append_local_rename (ic_crates C) (e_node (ic_engine C)) old new (nd_db (in_node s)))"
    using sup by (simp_all add: handle_rename_def to on_sup_miss on_store_def await_quiet [OF q] store_writes Let_def case_prod_unfold)
  show ?thesis
    unfolding Let_def run
    using to(2) rename_rows [of "nd_db (in_node s)" old _ new "ic_crates C" "e_node (ic_engine C)"]
    by (auto simp: append_local_rename_def split: option.splits)
qed

theorem rename_announces_the_row_witness:
  "let s' = handle_rename local_cfg ''t'' [''r'', ''f''] \<lparr>in_pending = [(''t'', [''r'', ''t''], 9)], in_node = local_node\<rparr>
   in in_pending s' = [] \<and> nd_db (in_node s') = nd_db local_node"
proof -
  let ?s = "\<lparr>in_pending = [(''t'', [''r'', ''t''], 9)], in_node = local_node\<rparr>"
  have "quiet (ic_engine local_cfg)" "bt_get (w_sup (nd_world (in_node ?s))) ''t'' = None" "relativize (ic_root local_cfg) [''r'', ''f''] = Some ''f''"
    "load_row (nd_db local_node) ''t'' = None"
    by (simp_all add: quiet_def local_cfg_def serving_engine_def example_ctx_def local_node_def idle_node_def example_world_def set_fs_def
        relativize_def rel_str_def strip_prefix_def to_str_def load_row_def empty_db_def)
  with rename_announces_the_row [of local_cfg ?s "''t''" "[''r'', ''f'']" "''f''"] show ?thesis
    by (simp add: Let_def bt_remove_def)
qed

subsection \<open>Two names for one file\<close>

text \<open>
  The guard on paths resolves different strings to one file, and nothing else checks the
  paths of operations: two rows of the index can stand for one file on disk.
\<close>

lemma dest_aliases:
  "safe_dest root ''a//b'' = Inr (root @ [''a'', ''b''])" "safe_dest root ''a/./b'' = Inr (root @ [''a'', ''b''])"
  "safe_dest root ''a/b'' = Inr (root @ [''a'', ''b''])"
  by (simp_all add: safe_dest_eq unsafe_rel_def dest_names_def)

end
