(* ===== verification/Watch.thy ===== *)
theory Watch
  imports Scanner
begin

text \<open>
  The watcher (\<open>src/watch.rs\<close>): the buffers that \<open>fanotify\<close> fills are parsed into events
  with paths, and these become events of the local pipeline.  The parsing is unsafe code
  over raw bytes: every access is a checked one here, whose failure (a read outside the
  buffer, a subtraction below zero) is the value \<open>None\<close>.  The layout of the kernel's
  structures and the values of its constants are those of \<open>linux/fanotify.h\<close> on a
  little-endian machine.  The directory of a file handle (\<open>open_by_handle_at\<close> and
  \<open>/proc/self/fd\<close>) and the path of a descriptor are arguments, as is whether the receiver
  still takes the \<open>k\<close>-th event.  Setting up the marks is not modelled.
\<close>

subsection \<open>Raw bytes\<close>

definition slice :: "bytes \<Rightarrow> nat \<Rightarrow> nat \<Rightarrow> bytes option" where
  "slice buf off len = (if off + len \<le> length buf then Some (take len (drop off buf)) else None)"

fun le_num :: "bytes \<Rightarrow> nat" where
  "le_num [] = 0"
| "le_num (b # bs) = unat b + 256 * le_num bs"

definition read_num :: "bytes \<Rightarrow> nat \<Rightarrow> nat \<Rightarrow> nat option" where
  "read_num buf off len = map_option le_num (slice buf off len)"

definition checked_sub :: "nat \<Rightarrow> nat \<Rightarrow> nat option" where
  "checked_sub a b = (if b \<le> a then Some (a - b) else None)"

definition META_SZ :: nat where "META_SZ = 24"
definition HDR_SZ :: nat where "HDR_SZ = 4"
definition FID_SZ :: nat where "FID_SZ = 12"
definition FH_FIXED :: nat where "FH_FIXED = 8"

definition INFO_DFID_NAME :: nat where "INFO_DFID_NAME = 2"
definition INFO_OLD_DFID_NAME :: nat where "INFO_OLD_DFID_NAME = 10"
definition INFO_NEW_DFID_NAME :: nat where "INFO_NEW_DFID_NAME = 12"

definition FAN_ATTRIB :: u64 where "FAN_ATTRIB = 0x4"
definition FAN_CLOSE_WRITE :: u64 where "FAN_CLOSE_WRITE = 0x8"
definition FAN_MOVED_FROM :: u64 where "FAN_MOVED_FROM = 0x40"
definition FAN_MOVED_TO :: u64 where "FAN_MOVED_TO = 0x80"
definition FAN_CREATE :: u64 where "FAN_CREATE = 0x100"
definition FAN_DELETE :: u64 where "FAN_DELETE = 0x200"
definition FAN_Q_OVERFLOW :: u64 where "FAN_Q_OVERFLOW = 0x4000"
definition FAN_RENAME :: u64 where "FAN_RENAME = 0x10000000"

definition has_bits :: "u64 \<Rightarrow> u64 \<Rightarrow> bool" where
  "has_bits emask bits \<longleftrightarrow> and emask bits \<noteq> 0"

subsection \<open>One event\<close>

record event_paths =
  ep_path :: "fpath option"
  ep_old :: "fpath option"
  ep_new :: "fpath option"

definition no_paths :: event_paths where
  "no_paths = \<lparr>ep_path = None, ep_old = None, ep_new = None\<rparr>"

definition position_zero :: "bytes \<Rightarrow> nat option" where
  "position_zero bs = (let k = length (takeWhile (\<lambda>b. b \<noteq> 0) bs) in if k < length bs then Some k else None)"

text \<open>The parent's handle and the name of a record; the outer option is the checked access.\<close>

definition resolve_dfid_name :: "(bytes \<Rightarrow> fpath option) \<Rightarrow> bytes \<Rightarrow> fpath option option" where
  "resolve_dfid_name dir_of rec =
     (if length rec < FID_SZ + FH_FIXED then Some None
      else case read_num rec FID_SZ 4 of
        None \<Rightarrow> None
      | Some handle_bytes \<Rightarrow>
          (let name_off = FID_SZ + FH_FIXED + handle_bytes
           in if name_off \<ge> length rec then Some None
              else case position_zero (drop name_off rec) of
                None \<Rightarrow> Some None
              | Some name_end \<Rightarrow>
                  (let name = map (\<lambda>b. char_of (unat b)) (take name_end (drop name_off rec))
                   in case slice rec FID_SZ (FH_FIXED + handle_bytes) of
                        None \<Rightarrow> None
                      | Some handle \<Rightarrow>
                          (case dir_of handle of
                             None \<Rightarrow> Some None
                           | Some dir \<Rightarrow> Some (Some (if name = ''.'' then dir else share_join dir name))))))"

function parse_records :: "(bytes \<Rightarrow> fpath option) \<Rightarrow> bytes \<Rightarrow> nat \<Rightarrow> event_paths \<Rightarrow> event_paths option" where
  "parse_records dir_of event off out =
     (case checked_sub (length event) off of
        None \<Rightarrow> None
      | Some left \<Rightarrow>
          if left < HDR_SZ then Some out
          else (case (read_num event off 1, read_num event (off + 2) 2) of
                  (Some info_type, Some len) \<Rightarrow>
                    if len < HDR_SZ \<or> off + len > length event then Some out
                    else (case slice event off len of
                            None \<Rightarrow> None
                          | Some rec \<Rightarrow>
                              (case (if info_type = INFO_DFID_NAME
                                     then map_option (\<lambda>p. out\<lparr>ep_path := p\<rparr>) (resolve_dfid_name dir_of rec)
                                     else if info_type = INFO_OLD_DFID_NAME
                                     then map_option (\<lambda>p. out\<lparr>ep_old := p\<rparr>) (resolve_dfid_name dir_of rec)
                                     else if info_type = INFO_NEW_DFID_NAME
                                     then map_option (\<lambda>p. out\<lparr>ep_new := p\<rparr>) (resolve_dfid_name dir_of rec)
                                     else Some out) of
                                 None \<Rightarrow> None
                               | Some out \<Rightarrow> parse_records dir_of event (off + len) out))
                | _ \<Rightarrow> None))"
  by pat_completeness auto
termination
  by (relation "measure (\<lambda>(_, event, off, _). length event - off)") (auto simp: checked_sub_def HDR_SZ_def split: if_splits)

declare parse_records.simps [simp del]

definition parse_event :: "(bytes \<Rightarrow> fpath option) \<Rightarrow> bytes \<Rightarrow> event_paths option" where
  "parse_event dir_of event = parse_records dir_of event META_SZ no_paths"

subsection \<open>Events of the pipeline\<close>

definition inside :: "fpath \<Rightarrow> fpath \<Rightarrow> bool" where
  "inside share p \<longleftrightarrow> take (length share) p = share \<and> \<not> is_tmp p"

definition keep :: "('a \<Rightarrow> bool) \<Rightarrow> 'a option \<Rightarrow> 'a option" where
  "keep P x = (case x of Some y \<Rightarrow> if P y then Some y else None | None \<Rightarrow> None)"

definition deletes :: "fpath \<Rightarrow> fpath \<Rightarrow> local_event list" where
  "deletes share p = (case rel_str share p of Some rel \<Rightarrow> [EvDelete rel] | None \<Rightarrow> [])"

definition dispatch_rename :: "fpath \<Rightarrow> event_paths \<Rightarrow> local_event list" where
  "dispatch_rename share ev =
     (case (keep (inside share) (ep_old ev), keep (inside share) (ep_new ev)) of
        (Some old, Some new) \<Rightarrow>
          if is_tmp old then [EvWrite new]
          else (case rel_str share old of Some from \<Rightarrow> [EvRename from new] | None \<Rightarrow> [])
      | (Some old, None) \<Rightarrow> deletes share old
      | (None, Some new) \<Rightarrow> [EvWrite new]
      | (None, None) \<Rightarrow> [])"

definition dispatch :: "fpath \<Rightarrow> u64 \<Rightarrow> event_paths \<Rightarrow> local_event list" where
  "dispatch share emask ev =
     (if has_bits emask FAN_RENAME then dispatch_rename share ev
      else (if has_bits emask (or FAN_DELETE FAN_MOVED_FROM)
            then (case keep (inside share) (ep_path ev) of Some gone \<Rightarrow> deletes share gone | None \<Rightarrow> [])
            else [])
         @ (if has_bits emask (or FAN_CREATE (or FAN_CLOSE_WRITE (or FAN_ATTRIB FAN_MOVED_TO)))
            then (case keep (inside share) (ep_path ev) of Some p \<Rightarrow> [EvWrite p] | None \<Rightarrow> [])
            else []))"

subsection \<open>A buffer of events\<close>

record watch_out =
  wo_sent :: "local_event list"
  wo_rescans :: nat
  wo_closed :: "nat list"

definition note_overflow :: "u64 \<Rightarrow> watch_out \<Rightarrow> watch_out" where
  "note_overflow emask w = (if has_bits emask FAN_Q_OVERFLOW then w\<lparr>wo_rescans := wo_rescans w + 1\<rparr> else w)"

text \<open>\<open>blocking_send\<close> until the receiver is gone; the flag says that it is still there.\<close>

fun send_events :: "(nat \<Rightarrow> bool) \<Rightarrow> local_event list \<Rightarrow> watch_out \<Rightarrow> watch_out \<times> bool" where
  "send_events accepts [] w = (w, True)"
| "send_events accepts (e # es) w =
     (if accepts (length (wo_sent w)) then send_events accepts es (w\<lparr>wo_sent := wo_sent w @ [e]\<rparr>) else (w, False))"

function fid_events ::
  "(bytes \<Rightarrow> fpath option) \<Rightarrow> fpath \<Rightarrow> (nat \<Rightarrow> bool) \<Rightarrow> bytes \<Rightarrow> nat \<Rightarrow> watch_out \<Rightarrow> (watch_out \<times> bool) option" where
  "fid_events dir_of share accepts buf off w =
     (case checked_sub (length buf) off of
        None \<Rightarrow> None
      | Some left \<Rightarrow>
          if left < META_SZ then Some (w, True)
          else (case (read_num buf off 4, read_num buf (off + 8) 8) of
                  (Some ev_len, Some bits) \<Rightarrow>
                    if ev_len < META_SZ \<or> off + ev_len > length buf then Some (w, True)
                    else (case slice buf off ev_len of
                            None \<Rightarrow> None
                          | Some event \<Rightarrow>
                              (case parse_event dir_of event of
                                 None \<Rightarrow> None
                               | Some ev \<Rightarrow>
                                   (case send_events accepts (dispatch share (word_of_nat bits) ev) (note_overflow (word_of_nat bits) w) of
                                      (w, False) \<Rightarrow> Some (w, False)
                                    | (w, True) \<Rightarrow> fid_events dir_of share accepts buf (off + ev_len) w)))
                | _ \<Rightarrow> None))"
  by pat_completeness auto
termination
  by (relation "measure (\<lambda>(_, _, _, buf, off, _). length buf - off)") (auto simp: checked_sub_def META_SZ_def split: if_splits)

declare fid_events.simps [simp del]

text \<open>The fallback: only closed files, named by a descriptor that the watcher closes.\<close>

definition legacy_event :: "(nat \<Rightarrow> fpath option) \<Rightarrow> fpath \<Rightarrow> (nat \<Rightarrow> bool) \<Rightarrow> nat \<Rightarrow> watch_out \<Rightarrow> watch_out \<times> bool" where
  "legacy_event path_of dir accepts fd w =
     (if fd < 2 ^ 31
      then let (w, alive) = (case path_of fd of
                 Some p \<Rightarrow> if inside dir p then send_events accepts [EvWrite p] w else (w, True)
               | None \<Rightarrow> (w, True))
           in (w\<lparr>wo_closed := wo_closed w @ [fd]\<rparr>, alive)
      else (w, True))"

function legacy_events ::
  "(nat \<Rightarrow> fpath option) \<Rightarrow> fpath \<Rightarrow> (nat \<Rightarrow> bool) \<Rightarrow> bytes \<Rightarrow> nat \<Rightarrow> watch_out \<Rightarrow> (watch_out \<times> bool) option" where
  "legacy_events path_of dir accepts buf off w =
     (if int (length buf) - int off < int META_SZ then Some (w, True)
      else (case (read_num buf off 4, read_num buf (off + 8) 8, read_num buf (off + 16) 4) of
              (Some ev_len, Some bits, Some fd) \<Rightarrow>
                if ev_len < META_SZ then Some (w, True)
                else (case legacy_event path_of dir accepts fd (note_overflow (word_of_nat bits) w) of
                        (w, False) \<Rightarrow> Some (w, False)
                      | (w, True) \<Rightarrow> legacy_events path_of dir accepts buf (off + ev_len) w)
            | _ \<Rightarrow> None))"
  by pat_completeness auto
termination
  by (relation "measure (\<lambda>(_, _, _, buf, off, _). length buf - off)") (auto simp: META_SZ_def)

declare legacy_events.simps [simp del]

subsection \<open>Every access is in bounds\<close>

lemma slice_in: "off + len \<le> length buf \<Longrightarrow> \<exists>bs. slice buf off len = Some bs \<and> length bs = len"
  by (simp add: slice_def)

lemma read_in: "off + len \<le> length buf \<Longrightarrow> \<exists>n. read_num buf off len = Some n"
  by (simp add: read_num_def slice_def)

lemma resolve_in_bounds: "\<exists>p. resolve_dfid_name dir_of rec = Some p"
proof (cases "length rec < FID_SZ + FH_FIXED")
  case False
  then obtain h where h: "read_num rec FID_SZ 4 = Some h" using read_in [of FID_SZ 4 rec] by (auto simp: FID_SZ_def FH_FIXED_def)
  show ?thesis
  proof (cases "FID_SZ + FH_FIXED + h \<ge> length rec")
    case small: False
    then obtain bs where "slice rec FID_SZ (FH_FIXED + h) = Some bs" using slice_in [of FID_SZ "FH_FIXED + h" rec] by auto
    with False h small show ?thesis by (auto simp: resolve_dfid_name_def Let_def split: option.split)
  qed (use False h in \<open>simp add: resolve_dfid_name_def\<close>)
qed (simp add: resolve_dfid_name_def)

lemma parse_in_bounds: "off \<le> length event \<Longrightarrow> \<exists>ev. parse_records dir_of event off out = Some ev"
proof (induction "length event - off" arbitrary: off out rule: less_induct)
  case less
  show ?case
  proof (cases "length event - off < HDR_SZ")
    case True
    with less(2) show ?thesis by (simp add: parse_records.simps checked_sub_def)
  next
    case False
    then have "off + 1 \<le> length event" "off + 2 + 2 \<le> length event" by (simp_all add: HDR_SZ_def)
    then obtain t len where rd: "read_num event off 1 = Some t" "read_num event (off + 2) 2 = Some len" using read_in by meson
    show ?thesis
    proof (cases "len < HDR_SZ \<or> off + len > length event")
      case True
      with less(2) False rd show ?thesis by (simp add: parse_records.simps checked_sub_def)
    next
      case fits: False
      then obtain rec where sl: "slice event off len = Some rec" using slice_in [of off len event] by auto
      obtain p where p: "resolve_dfid_name dir_of rec = Some p" using resolve_in_bounds by blast
      let ?out = "if t = INFO_DFID_NAME then out\<lparr>ep_path := p\<rparr> else if t = INFO_OLD_DFID_NAME then out\<lparr>ep_old := p\<rparr>
        else if t = INFO_NEW_DFID_NAME then out\<lparr>ep_new := p\<rparr> else out"
      have "parse_records dir_of event off out = parse_records dir_of event (off + len) ?out"
        using less(2) False rd fits sl p by (subst parse_records.simps) (simp add: checked_sub_def)
      moreover have "\<exists>ev. parse_records dir_of event (off + len) ?out = Some ev"
        using less(2) False fits by (intro less(1)) (auto simp: HDR_SZ_def)
      ultimately show ?thesis by simp
    qed
  qed
qed

subsection \<open>What is sent\<close>

text \<open>An event of the pipeline that is about a path of the share other than a staging file.\<close>

definition about_share :: "fpath \<Rightarrow> local_event \<Rightarrow> bool" where
  "about_share share e =
     (case e of
        EvWrite p \<Rightarrow> inside share p
      | EvDelete rel \<Rightarrow> (\<exists>p. inside share p \<and> rel_str share p = Some rel)
      | EvRename from to \<Rightarrow> (\<exists>p. inside share p \<and> rel_str share p = Some from) \<and> inside share to)"

lemma dispatch_about: "list_all (about_share share) (dispatch share emask ev)"
  by (auto simp: dispatch_def dispatch_rename_def deletes_def keep_def about_share_def split: option.splits)

lemma send_about:
  "send_events accepts es w = (w', b) \<Longrightarrow> list_all (about_share share) es \<Longrightarrow> list_all (about_share share) (wo_sent w) \<Longrightarrow>
     list_all (about_share share) (wo_sent w')"
  by (induction es arbitrary: w) (auto split: if_splits)

lemma overflow_sent [simp]: "wo_sent (note_overflow emask w) = wo_sent w"
  by (simp add: note_overflow_def)

text \<open>The rename that publishes a staged file is seen as a write of the destination.\<close>

lemma publish_seen_as_write:
  "is_tmp old \<Longrightarrow> inside share new \<Longrightarrow> dispatch_rename share \<lparr>ep_path = p, ep_old = Some old, ep_new = Some new\<rparr> = [EvWrite new]"
  by (simp add: dispatch_rename_def keep_def inside_def)

lemma fid_in_bounds:
  "off \<le> length buf \<Longrightarrow> list_all (about_share share) (wo_sent w) \<Longrightarrow>
     \<exists>w' alive. fid_events dir_of share accepts buf off w = Some (w', alive) \<and> list_all (about_share share) (wo_sent w')"
proof (induction "length buf - off" arbitrary: off w rule: less_induct)
  case less
  show ?case
  proof (cases "length buf - off < META_SZ")
    case True
    with less(2,3) show ?thesis by (auto simp: fid_events.simps checked_sub_def)
  next
    case False
    then have "off + 4 \<le> length buf" "off + 8 + 8 \<le> length buf" by (simp_all add: META_SZ_def)
    then obtain len bits where rd: "read_num buf off 4 = Some len" "read_num buf (off + 8) 8 = Some bits" using read_in by meson
    show ?thesis
    proof (cases "len < META_SZ \<or> off + len > length buf")
      case True
      with less(2,3) False rd show ?thesis by (auto simp: fid_events.simps checked_sub_def)
    next
      case fits: False
      then obtain event where sl: "slice buf off len = Some event" "length event = len" using slice_in [of off len buf] by auto
      then obtain ev where ev: "parse_event dir_of event = Some ev"
        using parse_in_bounds [of META_SZ event] fits by (auto simp: parse_event_def)
      obtain w1 b where sd: "send_events accepts (dispatch share (word_of_nat bits) ev) (note_overflow (word_of_nat bits) w) = (w1, b)"
        by fastforce
      have w1: "list_all (about_share share) (wo_sent w1)" using send_about [OF sd dispatch_about] less(3) by simp
      have run: "fid_events dir_of share accepts buf off w = (if b then fid_events dir_of share accepts buf (off + len) w1 else Some (w1, False))"
        using less(2) False rd fits sl ev sd by (subst fid_events.simps) (simp add: checked_sub_def split: bool.split)
      show ?thesis
      proof (cases b)
        case True
        have "\<exists>w' alive. fid_events dir_of share accepts buf (off + len) w1 = Some (w', alive) \<and> list_all (about_share share) (wo_sent w')"
          using less(2) False fits w1 by (intro less(1)) (auto simp: META_SZ_def)
        with True run show ?thesis by simp
      qed (use run w1 in auto)
    qed
  qed
qed

lemma legacy_about:
  assumes "legacy_event path_of dir accepts fd w = (w', b)" "list_all (about_share dir) (wo_sent w)"
  shows "list_all (about_share dir) (wo_sent w')"
  using assms by (auto simp: legacy_event_def about_share_def Let_def split: if_splits option.splits prod.splits)

lemma legacy_in_bounds:
  "list_all (about_share dir) (wo_sent w) \<Longrightarrow>
     \<exists>w' alive. legacy_events path_of dir accepts buf off w = Some (w', alive) \<and> list_all (about_share dir) (wo_sent w')"
proof (induction "length buf - off" arbitrary: off w rule: less_induct)
  case less
  show ?case
  proof (cases "int (length buf) - int off < int META_SZ")
    case False
    then have "off + META_SZ \<le> length buf" by simp
    then have "off + 4 \<le> length buf" "off + 8 + 8 \<le> length buf" "off + 16 + 4 \<le> length buf" by (simp_all add: META_SZ_def)
    then obtain len bits fd where rd: "read_num buf off 4 = Some len" "read_num buf (off + 8) 8 = Some bits" "read_num buf (off + 16) 4 = Some fd"
      using read_in by meson
    obtain w1 b where le: "legacy_event path_of dir accepts fd (note_overflow (word_of_nat bits) w) = (w1, b)" by fastforce
    have w1: "list_all (about_share dir) (wo_sent w1)" using legacy_about [OF le] less(2) by simp
    show ?thesis
    proof (cases "len < META_SZ")
      case small: False
      have run: "legacy_events path_of dir accepts buf off w = (if b then legacy_events path_of dir accepts buf (off + len) w1 else Some (w1, False))"
        using False rd small le by (subst legacy_events.simps) (simp split: bool.split)
      show ?thesis
      proof (cases b)
        case True
        have "\<exists>w' alive. legacy_events path_of dir accepts buf (off + len) w1 = Some (w', alive) \<and> list_all (about_share dir) (wo_sent w')"
          using False small w1 by (intro less(1)) (auto simp: META_SZ_def)
        with True run show ?thesis by simp
      qed (use run w1 in auto)
    qed (use False rd less(2) in \<open>auto simp: legacy_events.simps\<close>)
  qed (use less(2) in \<open>auto simp: legacy_events.simps\<close>)
qed

subsection \<open>Properties\<close>

text \<open>
  C29. Parsing what the kernel wrote is memory safe and ends, for every content of the
  buffer: no access is outside the buffer and no subtraction goes below zero, in the loop
  over events, in the loop over their records and in the decoding of a handle and a name;
  and every event that is sent on is about a path of the share that is not a staging file,
  whatever the names in the buffer resolve to.
\<close>

theorem watcher_stays_in_bounds:
  fixes buf :: bytes
  defines "w \<equiv> \<lparr>wo_sent = [], wo_rescans = 0, wo_closed = []\<rparr>"
  shows "(\<exists>w' alive. fid_events dir_of share accepts buf 0 w = Some (w', alive) \<and> list_all (about_share share) (wo_sent w'))
    \<and> (\<exists>w' alive. legacy_events path_of share accepts buf 0 w = Some (w', alive) \<and> list_all (about_share share) (wo_sent w'))"
  using fid_in_bounds [of 0 buf share w] legacy_in_bounds [of share w] by (simp add: w_def)

end
