(* ===== verification/Receive.thy ===== *)
theory Receive
  imports Pull Replica
begin

text \<open>
  The receive path of the engine (\<open>src/net.rs\<close>): one pushed operation is decided, its
  effect is put on the disk, and the outcome is committed by one turn of the store thread;
  the caller acknowledges after that.  The pause gate, the transfer semaphore, the
  free-space guard and the bandwidth limits delay a transfer and decide nothing; the gate
  and the guard are in \<open>Pause\<close>.  Counters are not modelled.
\<close>

datatype net_error =
    NIdentity string | NTls | NRcgen
  | NStore store_error | NProto proto_error | NApply apply_error
  | NConnect | NConnection | NStreamWrite | NStreamRead | NIo | NJoin
  | NoPeerCert | UnknownPeer | PeerIdentityMismatch | NVersion nat
  | NViolation string | ContentUnavailable | TooBig
  | NFetch fetch_error | NReconcile reconcile_error

definition is_permanent :: "net_error \<Rightarrow> bool" where
  "is_permanent e =
     (case e of
        NViolation _ \<Rightarrow> True
      | ContentUnavailable \<Rightarrow> True
      | TooBig \<Rightarrow> True
      | NApply (UnsafePath _) \<Rightarrow> True
      | NApply (Io _ _ source) \<Rightarrow> blocked_by_kind source
      | NApply (HashMismatch _) \<Rightarrow> True
      | NFetch f \<Rightarrow> fetch_is_permanent f
      | _ \<Rightarrow> False)"

definition op_kind :: "meta option \<Rightarrow> file_kind" where
  "op_kind mo = (case mo of Some m \<Rightarrow> m_kind m | None \<Rightarrow> Regular)"

subsection \<open>Resolution\<close>

definition stage_planned_content ::
  "engine \<Rightarrow> planned_row \<Rightarrow> node_id \<Rightarrow> hash32 \<Rightarrow> node \<Rightarrow> node \<times> (net_error + unit)" where
  "stage_planned_content E row origin h n =
     and_then (ask_store E (store_manifest_for (e_crates E) (e_node E) h) n) (\<lambda>held n.
     and_then (case held of
                 Some m \<Rightarrow> (n, Inr m)
               | None \<Rightarrow> err_from NFetch (obtain_manifest E h origin (engine_limits E) n)) (\<lambda>m n.
     and_then (err_from NFetch (fetch_file_chunks E m origin (engine_limits E) n)) (\<lambda>_ n.
       err_from NApply (on_disk (apply_version (e_apply E) (p_path row) (p_mode row) (Some h) (Some m) (p_meta row)) n))))"

definition stage_planned_op_row :: "engine \<Rightarrow> node_id \<Rightarrow> planned_row \<Rightarrow> node \<Rightarrow> node \<times> (net_error + bool)" where
  "stage_planned_op_row E origin row n =
     (if p_tombstone row
      then and_then (err_from NApply (on_disk (apply_delete (e_apply E) (p_path row)) n)) (\<lambda>_ n. (n, Inr True))
      else and_then (ask_store E (store_load_row (e_crates E) (e_node E) (p_path row)) n) (\<lambda>cur n.
           if row_is_current (e_crates E) row cur then (n, Inr False)
           else if op_kind (p_meta row) \<noteq> Regular
           then and_then (err_from NApply (on_disk (apply_version (e_apply E) (p_path row) (p_mode row)
                            (p_content_hash row) None (p_meta row)) n)) (\<lambda>_ n. (n, Inr True))
           else case p_content_hash row of
                  None \<Rightarrow> (n, Inl (NViolation ''live planned row without hash''))
                | Some h \<Rightarrow>
                    if p_size row > e_max_file_bytes E then (n, Inl TooBig)
                    else and_then (stage_planned_content E row origin h n) (\<lambda>_ n. (n, Inr True))))"

fun stage_op_plan ::
  "engine \<Rightarrow> node_id \<Rightarrow> planned_row list \<Rightarrow> path list \<Rightarrow> node \<Rightarrow> node \<times> path list \<times> net_error option" where
  "stage_op_plan E origin [] staged_paths n = (n, staged_paths, None)"
| "stage_op_plan E origin (row # rows) staged_paths n =
     (case stage_planned_op_row E origin row n of
        (n, Inr True) \<Rightarrow> stage_op_plan E origin rows (staged_paths @ [p_path row]) n
      | (n, Inr False) \<Rightarrow> stage_op_plan E origin rows staged_paths n
      | (n, Inl e) \<Rightarrow> (n, staged_paths, Some e))"

fun resolve_at_rounds ::
  "nat \<Rightarrow> engine \<Rightarrow> path \<Rightarrow> version \<Rightarrow> node_id \<Rightarrow> planned_row list \<Rightarrow> path list \<Rightarrow> node \<Rightarrow> node \<times> (net_error + unit)" where
  "resolve_at_rounds 0 E p remote origin staged staged_paths n = (restore_paths E staged_paths n, Inr ())"
| "resolve_at_rounds (Suc k) E p remote origin staged staged_paths n =
     and_then (err_from NStore (on_store E (store_resolve_rows (e_crates E) (e_node E) p remote staged) n)) (\<lambda>outcome n.
       case outcome of
         Resolved \<Rightarrow> (n, Inr ())
       | NotConcurrent _ \<Rightarrow> (restore_paths E staged_paths n, Inr ())
       | Unresolvable \<Rightarrow> (restore_paths E staged_paths n, Inr ())
       | Stale plan \<Rightarrow>
           (case stage_op_plan E origin plan staged_paths n of
              (n, staged_paths, None) \<Rightarrow> resolve_at_rounds k E p remote origin plan staged_paths n
            | (n, staged_paths, Some e) \<Rightarrow> (restore_paths E staged_paths n, if is_permanent e then Inr () else Inl e)))"

definition resolve_concurrent_at :: "engine \<Rightarrow> path \<Rightarrow> version \<Rightarrow> node_id \<Rightarrow> node \<Rightarrow> node \<times> (net_error + unit)" where
  "resolve_concurrent_at E p remote origin = resolve_at_rounds 4 E p remote origin [] []"

definition resolve_concurrent_op :: "engine \<Rightarrow> op_record \<Rightarrow> node \<Rightarrow> node \<times> (net_error + unit)" where
  "resolve_concurrent_op E op = resolve_concurrent_at E (o_path op) (op_version (e_crates E) op) (o_origin op)"

subsection \<open>Materializing an operation\<close>

definition fetch_and_assemble :: "engine \<Rightarrow> op_record \<Rightarrow> hash32 \<Rightarrow> node \<Rightarrow> node \<times> (net_error + unit)" where
  "fetch_and_assemble E op h n =
     and_then (err_from NFetch (obtain_manifest E h (o_origin op) (engine_limits E) n)) (\<lambda>m n.
     and_then (err_from NFetch (fetch_file_chunks E m (o_origin op) (engine_limits E) n)) (\<lambda>_ n.
       err_from NApply (on_disk (apply_version (e_apply E) (o_path op) (o_mode op) (Some h) (Some m) (o_meta op)) n)))"

definition have_content :: "local_file option \<Rightarrow> hash32 \<Rightarrow> bool" where
  "have_content l h = (case l of Some x \<Rightarrow> \<not> lf_tombstone x \<and> lf_content_hash x = Some h | None \<Rightarrow> False)"

definition bounded_fetch :: "engine \<Rightarrow> op_record \<Rightarrow> hash32 \<Rightarrow> node \<Rightarrow> node \<times> (net_error + unit)" where
  "bounded_fetch E op h n =
     (if o_size op > e_max_file_bytes E then (n, Inl TooBig) else fetch_and_assemble E op h n)"

definition materialize_write :: "engine \<Rightarrow> op_record \<Rightarrow> local_file option \<Rightarrow> node \<Rightarrow> node \<times> (net_error + unit)" where
  "materialize_write E op loc n =
     (if op_kind (o_meta op) \<noteq> Regular
      then err_from NApply (on_disk (apply_version (e_apply E) (o_path op) (o_mode op) (o_content_hash op) None (o_meta op)) n)
      else case o_content_hash op of
             None \<Rightarrow> (n, Inl (NViolation ''write op without content hash''))
           | Some h \<Rightarrow>
               if \<not> have_content loc h then bounded_fetch E op h n
               else (case o_meta op of
                       Some m \<Rightarrow> err_from NApply (on_disk (apply_meta_only (e_apply E) (o_path op) (Some h) m) n)
                     | None \<Rightarrow> (n, Inr ())))"

text \<open>The target of a rename: the move when the source may go, else the content built at the target.\<close>

definition materialize_target ::
  "engine \<Rightarrow> op_record \<Rightarrow> path \<Rightarrow> hash32 \<Rightarrow> bool \<Rightarrow> node \<Rightarrow> node \<times> (net_error + unit)" where
  "materialize_target E op old_rel h old_dominated n =
     and_then (if old_dominated \<and> op_kind (o_meta op) = Regular
               then err_from NApply (on_disk (apply_rename (e_apply E) old_rel (o_path op) (o_mode op) h (o_meta op)) n)
               else (n, Inr False)) (\<lambda>moved n.
       if moved then (n, Inr ())
       else if op_kind (o_meta op) \<noteq> Regular
       then err_from NApply (on_disk (apply_version (e_apply E) (o_path op) (o_mode op) (Some h) None (o_meta op)) n)
       else bounded_fetch E op h n)"

definition materialize_rename :: "engine \<Rightarrow> op_record \<Rightarrow> local_file option \<Rightarrow> node \<Rightarrow> node \<times> (net_error + unit)" where
  "materialize_rename E op loc n =
     (case o_content_hash op of
        None \<Rightarrow> (n, Inl (NViolation ''rename op without content hash''))
      | Some h \<Rightarrow>
     (case o_path_old op of
        None \<Rightarrow> (n, Inl (NViolation ''rename op without path_old''))
      | Some old_rel \<Rightarrow>
          and_then (ask_store E (store_load_file (e_crates E) (e_node E) old_rel) n) (\<lambda>old_local n.
            let old_dominated = (decide old_local (o_vv op) = Apply)
            in and_then (if have_content loc h then (n, Inr ()) else materialize_target E op old_rel h old_dominated n) (\<lambda>_ n.
                 if old_dominated then err_from NApply (on_disk (apply_delete (e_apply E) old_rel) n) else (n, Inr ())))))"

definition materialize :: "engine \<Rightarrow> op_record \<Rightarrow> local_file option \<Rightarrow> node \<Rightarrow> node \<times> (net_error + unit)" where
  "materialize E op loc n =
     (case o_op_type op of
        Write \<Rightarrow> materialize_write E op loc n
      | Delete \<Rightarrow> err_from NApply (on_disk (apply_delete (e_apply E) (o_path op)) n)
      | Rename \<Rightarrow> materialize_rename E op loc n)"

subsection \<open>One pushed operation\<close>

text \<open>The decision after the effect is on the disk: a permanent failure quarantines the operation.\<close>

definition carry_out :: "engine \<Rightarrow> op_record \<Rightarrow> local_file option \<Rightarrow> decision \<Rightarrow> node \<Rightarrow> node \<times> (net_error + decision)" where
  "carry_out E op loc dec n =
     (if dec = Apply
      then (case materialize E op loc n of
              (n, Inr _) \<Rightarrow> (n, Inr Apply)
            | (n, Inl e) \<Rightarrow> if is_permanent e then (n, Inr Quarantined) else (n, Inl e))
      else (n, Inr dec))"

definition repair_stale_apply :: "engine \<Rightarrow> op_record \<Rightarrow> decision \<Rightarrow> decision \<Rightarrow> node \<Rightarrow> node \<times> (net_error + unit)" where
  "repair_stale_apply E op dec effective n =
     (if dec = Apply \<and> effective \<noteq> Apply
      then let n = restore_local_content E (o_path op) n
           in if effective = DConcurrent then resolve_concurrent_op E op n else (n, Inr ())
      else (n, Inr ()))"

definition settle_rename_source :: "engine \<Rightarrow> op_record \<Rightarrow> decision \<Rightarrow> node \<Rightarrow> node \<times> (net_error + unit)" where
  "settle_rename_source E op dec n =
     (case (o_op_type op, o_path_old op) of
        (Rename, Some old_rel) \<Rightarrow>
          if dec = Quarantined then (n, Inr ())
          else and_then (ask_store E (store_load_file (e_crates E) (e_node E) old_rel) n) (\<lambda>old_local n.
                 case decide old_local (o_vv op) of
                   DConcurrent \<Rightarrow>
                     resolve_concurrent_at E old_rel (rename_source_version op) (o_origin op) (restore_local_content E old_rel n)
                 | Quarantined \<Rightarrow> (n, Inr ())
                 | _ \<Rightarrow> (restore_local_content E old_rel n, Inr ()))
      | _ \<Rightarrow> (n, Inr ()))"

definition process_remote_op :: "engine \<Rightarrow> op_record \<Rightarrow> node \<Rightarrow> node \<times> (net_error + unit)" where
  "process_remote_op E op n =
     and_then (ask_store E (store_has_applied (e_crates E) (e_node E) (o_op_id op)) n) (\<lambda>applied n.
     if applied then (n, Inr ())
     else and_then (ask_store E (store_load_file (e_crates E) (e_node E) (o_path op)) n) (\<lambda>loc n.
          and_then (carry_out E op loc (decide loc (o_vv op)) n) (\<lambda>dec n.
          and_then (if dec = DConcurrent then resolve_concurrent_op E op n else (n, Inr ())) (\<lambda>_ n.
          and_then (err_from NStore (on_store E (store_apply_remote (e_crates E) (e_node E) op dec) n)) (\<lambda>effective n.
          and_then (repair_stale_apply E op dec effective n) (\<lambda>_ n.
            settle_rename_source E op dec n))))))"

end
