(* ===== verification/Admin.thy ===== *)
theory Admin
  imports Metadata
begin

text \<open>
  The membership trust anchor (\<open>src/admin.rs\<close>): the canonical bytes an admin signs
  and every node verifies.  A socket address is what \<open>std::net::SocketAddr\<close> holds;
  the flow label and scope of an IPv6 address are not part of the canonical bytes.
\<close>

definition DOMAIN_TAG :: bytes where
  "DOMAIN_TAG = as_bytes ''replicore-roster-v1'' @ [0]"

datatype entry_kind = Add | Remove

definition as_byte :: "entry_kind \<Rightarrow> u8" where
  "as_byte k = (case k of Add \<Rightarrow> 0 | Remove \<Rightarrow> 1)"

datatype socket_addr =
    V4 (ip: bytes) (port: u16)
  | V6 (ip: bytes) (port: u16) u32 u32

type_synonym admin_pubkey = bytes

definition canonical_entry_bytes ::
  "node_id \<Rightarrow> socket_addr \<Rightarrow> bytes \<Rightarrow> u64 \<Rightarrow> entry_kind \<Rightarrow> bytes" where
  "canonical_entry_bytes node addr fingerprint epoch kind =
     DOMAIN_TAG @ node
     @ (case addr of V4 octets _ \<Rightarrow> 4 # octets | V6 octets _ _ _ \<Rightarrow> 6 # octets)
     @ u16_be (port addr) @ fingerprint @ u64_be epoch @ [as_byte kind]"

definition sign_entry ::
  "(bytes \<Rightarrow> bytes) \<Rightarrow> node_id \<Rightarrow> socket_addr \<Rightarrow> bytes \<Rightarrow> u64 \<Rightarrow> entry_kind \<Rightarrow> bytes" where
  "sign_entry sign node addr fingerprint epoch kind =
     sign (canonical_entry_bytes node addr fingerprint epoch kind)"

definition verify_entry ::
  "crates \<Rightarrow> admin_pubkey \<Rightarrow> node_id \<Rightarrow> socket_addr \<Rightarrow> bytes \<Rightarrow> u64 \<Rightarrow> entry_kind \<Rightarrow> bytes \<Rightarrow> bool" where
  "verify_entry X pk node addr fingerprint epoch kind sig =
     ed25519_verify X pk (canonical_entry_bytes node addr fingerprint epoch kind) sig"

subsection \<open>The layout is unambiguous\<close>

fun addr_wf :: "socket_addr \<Rightarrow> bool" where
  "addr_wf (V4 octets p) = (length octets = 4)"
| "addr_wf (V6 octets p f s) = (length octets = 16)"

text \<open>The part of an address that is signed.\<close>

fun signed_addr :: "socket_addr \<Rightarrow> u8 \<times> bytes \<times> u16" where
  "signed_addr (V4 octets p) = (4, octets, p)"
| "signed_addr (V6 octets p f s) = (6, octets, p)"

lemma as_byte_inj [simp]: "as_byte a = as_byte b \<longleftrightarrow> a = b"
  by (cases a; cases b) (simp_all add: as_byte_def)

lemma canonical_inj:
  assumes "length n = length n'" "length f = length f'" "addr_wf a" "addr_wf a'"
    and "canonical_entry_bytes n a f e k = canonical_entry_bytes n' a' f' e' k'"
  shows "n = n' \<and> signed_addr a = signed_addr a' \<and> f = f' \<and> e = e' \<and> k = k'"
proof (cases a; cases a')
qed (use assms in \<open>auto simp: canonical_entry_bytes_def append_eq_append_conv\<close>)

subsection \<open>Properties\<close>

text \<open>
  The signed bytes identify the entry: two entries with fixed-width ids and
  fingerprints have the same canonical bytes only if they agree on node, address family,
  IP, port, fingerprint, epoch and kind, so a signature for one entry is never a
  signature for another one (up to the IPv6 flow label and scope, which are not signed).
\<close>

theorem canonical_bytes_identify_entry:
  assumes "length n = 16" "length n' = 16" "length f = 32" "length f' = 32" "addr_wf a" "addr_wf a'"
  shows "canonical_entry_bytes n a f e k = canonical_entry_bytes n' a' f' e' k' \<longleftrightarrow>
     n = n' \<and> signed_addr a = signed_addr a' \<and> f = f' \<and> e = e' \<and> k = k'"
proof
  assume "canonical_entry_bytes n a f e k = canonical_entry_bytes n' a' f' e' k'"
  with assms show "n = n' \<and> signed_addr a = signed_addr a' \<and> f = f' \<and> e = e' \<and> k = k'"
    by (intro canonical_inj) simp_all
next
  assume "n = n' \<and> signed_addr a = signed_addr a' \<and> f = f' \<and> e = e' \<and> k = k'"
  then show "canonical_entry_bytes n a f e k = canonical_entry_bytes n' a' f' e' k'"
    by (cases a; cases a') (simp_all add: canonical_entry_bytes_def)
qed

theorem canonical_bytes_identify_entry_witness:
  "canonical_entry_bytes (zeros 16) (V4 [127, 0, 0, 1] 80) (zeros 32) 1 Add
     \<noteq> canonical_entry_bytes (zeros 16) (V4 [127, 0, 0, 1] 80) (zeros 32) 1 Remove"
  using canonical_bytes_identify_entry [of "zeros 16" "zeros 16" "zeros 32" "zeros 32" "V4 [127, 0, 0, 1] 80"
      "V4 [127, 0, 0, 1] 80" 1 Add 1 Remove] by simp

end
