(* ===== verification/Membership.thy ===== *)
theory Membership
  imports Admin Replay
begin

text \<open>
  The roster and the membership handle (\<open>src/membership.rs\<close>).  The roster is an
  epoch-versioned register per node.  The handle's locked fields are one record; the
  roster file is a partial map from path to bytes, and \<open>mb_saves\<close> counts the calls of
  \<open>save\<close> so that a schedule of I/O outcomes can be given as a function of it.  The
  \<open>serde_json\<close> codec is a parameter.  \<open>effective\<close> is a hash map in the source: its
  contents are modelled, and where the code iterates over it the iteration order is a
  parameter.
\<close>

record signed_entry =
  se_node_id :: node_id
  se_addr :: socket_addr
  se_fingerprint :: bytes
  se_epoch :: u64
  se_kind :: entry_kind
  se_sig :: bytes

type_synonym roster = "(node_id, signed_entry) btree"
type_synonym entry_rank = "u64 \<times> u8 \<times> hash32"

definition canonical_bytes :: "signed_entry \<Rightarrow> bytes" where
  "canonical_bytes e =
     canonical_entry_bytes (se_node_id e) (se_addr e) (se_fingerprint e) (se_epoch e) (se_kind e)"

definition content_hash :: "crates \<Rightarrow> signed_entry \<Rightarrow> hash32" where
  "content_hash X e = blake3 X (canonical_bytes e)"

definition order_key :: "crates \<Rightarrow> signed_entry \<Rightarrow> entry_rank" where
  "order_key X e = (se_epoch e, (case se_kind e of Add \<Rightarrow> 0 | Remove \<Rightarrow> 1), content_hash X e)"

definition entry_verify :: "crates \<Rightarrow> admin_pubkey \<Rightarrow> signed_entry \<Rightarrow> bool" where
  "entry_verify X pk e =
     verify_entry X pk (se_node_id e) (se_addr e) (se_fingerprint e) (se_epoch e) (se_kind e) (se_sig e)"

datatype merge_outcome = Applied | Superseded | Rejected

definition roster_new :: roster where "roster_new = []"

definition merge_entry :: "crates \<Rightarrow> admin_pubkey \<Rightarrow> signed_entry \<Rightarrow> roster \<Rightarrow> roster \<times> merge_outcome" where
  "merge_entry X pk e r =
     (if \<not> entry_verify X pk e then (r, Rejected)
      else case bt_get r (se_node_id e) of
        Some cur \<Rightarrow> if order_key X cur \<ge> order_key X e then (r, Superseded)
                    else (bt_insert (se_node_id e) e r, Applied)
      | None \<Rightarrow> (bt_insert (se_node_id e) e r, Applied))"

definition effective_members :: "roster \<Rightarrow> signed_entry list" where
  "effective_members r = filter (\<lambda>e. se_kind e = Add) (bt_values r)"

definition all_entries :: "roster \<Rightarrow> signed_entry list" where "all_entries r = bt_values r"

definition next_epoch_for :: "roster \<Rightarrow> node_id \<Rightarrow> u64" where
  "next_epoch_for r n = unwrap_or (map_option (\<lambda>e. se_epoch e + 1) (bt_get r n)) 1"

definition digest :: "crates \<Rightarrow> roster \<Rightarrow> hash32" where
  "digest X r =
     blake3 X (as_bytes ''replicore-roster-digest-v1'' @ [0] @ concat (map canonical_bytes (bt_values r)))"

subsection \<open>The roster file\<close>

record codec =
  json_of :: "signed_entry list \<Rightarrow> bytes option"
  json_parse :: "bytes \<Rightarrow> signed_entry list option"

datatype file_read = NotFound | ReadError | Contents bytes

datatype roster_error = RIo string | RJson

text \<open>Where a \<open>save\<close> fails: a failing write never reaches the target; the directory sync comes after the rename.\<close>

datatype save_fault = FWrite | FRename | FSyncDir

definition load_step :: "crates \<Rightarrow> admin_pubkey \<Rightarrow> roster \<times> nat \<Rightarrow> signed_entry \<Rightarrow> roster \<times> nat" where
  "load_step X pk acc e =
     (let (r', outcome) = merge_entry X pk e (fst acc)
      in (r', if outcome = Rejected then snd acc + 1 else snd acc))"

definition roster_load :: "crates \<Rightarrow> codec \<Rightarrow> file_read \<Rightarrow> admin_pubkey \<Rightarrow> roster_error + roster \<times> nat" where
  "roster_load X J file pk =
     (case file of
        NotFound \<Rightarrow> Inr (roster_new, 0)
      | ReadError \<Rightarrow> Inl (RIo ''read roster'')
      | Contents bytes \<Rightarrow>
          (case json_parse J bytes of
             None \<Rightarrow> Inl RJson
           | Some disk \<Rightarrow> Inr (foldl (load_step X pk) (roster_new, 0) disk)))"

definition roster_save ::
  "codec \<Rightarrow> save_fault option \<Rightarrow> path \<Rightarrow> roster \<Rightarrow> (path \<Rightarrow> file_read) \<Rightarrow> (path \<Rightarrow> file_read) \<times> (roster_error + unit)" where
  "roster_save J fault p r disk =
     (case json_of J (bt_values r) of
        None \<Rightarrow> (disk, Inl RJson)
      | Some json \<Rightarrow>
          (case fault of
             Some FWrite \<Rightarrow> (disk, Inl (RIo ''write roster temp''))
           | Some FRename \<Rightarrow> (disk, Inl (RIo ''rename roster''))
           | Some FSyncDir \<Rightarrow> (disk(p := Contents json), Inl (RIo ''fsync roster dir''))
           | None \<Rightarrow> (disk(p := Contents json), Inr ())))"

subsection \<open>The handle\<close>

record peer =
  pe_node_id :: node_id
  pe_addr :: socket_addr
  pe_fingerprint :: bytes

record membership =
  mb_our_node_id :: node_id
  mb_admin_pubkey :: "admin_pubkey option"
  mb_roster_path :: path
  mb_seeds :: "peer list"
  mb_roster :: roster
  mb_effective :: "(node_id, peer) btree"
  mb_allowlist :: "bytes set"
  mb_changed :: u64
  mb_disk :: "path \<Rightarrow> file_read"
  mb_saves :: nat

record member_cfg =
  cfg_node_id :: node_id
  cfg_admin_pubkey :: "admin_pubkey option"
  cfg_roster_path :: path
  cfg_peers :: "peer list"

datatype membership_error = NoAdminKey | RosterErr roster_error

definition load_roster ::
  "crates \<Rightarrow> codec \<Rightarrow> member_cfg \<Rightarrow> (path \<Rightarrow> file_read) \<Rightarrow> membership_error + roster" where
  "load_roster X J cfg disk =
     (case cfg_admin_pubkey cfg of
        Some pk \<Rightarrow> (case roster_load X J (disk (cfg_roster_path cfg)) pk of
                      Inl e \<Rightarrow> Inl (RosterErr e) | Inr (r, _) \<Rightarrow> Inr r)
      | None \<Rightarrow> Inr roster_new)"

definition recompute_step :: "node_id \<Rightarrow> (node_id, peer) btree \<Rightarrow> signed_entry \<Rightarrow> (node_id, peer) btree" where
  "recompute_step our eff e =
     (if se_node_id e = our then eff
      else case se_kind e of
        Add \<Rightarrow> bt_insert (se_node_id e)
                 \<lparr>pe_node_id = se_node_id e, pe_addr = se_addr e, pe_fingerprint = se_fingerprint e\<rparr> eff
      | Remove \<Rightarrow> bt_remove (se_node_id e) eff)"

definition recompute :: "membership \<Rightarrow> membership" where
  "recompute m =
     (let eff0 = foldl (\<lambda>t p. bt_insert (pe_node_id p) p t) [] (mb_seeds m);
          eff = foldl (recompute_step (mb_our_node_id m)) eff0 (all_entries (mb_roster m))
      in m\<lparr>mb_effective := eff, mb_allowlist := set (map pe_fingerprint (bt_values eff))\<rparr>)"

definition membership_load ::
  "crates \<Rightarrow> codec \<Rightarrow> member_cfg \<Rightarrow> (path \<Rightarrow> file_read) \<Rightarrow> membership_error + membership" where
  "membership_load X J cfg disk =
     (case load_roster X J cfg disk of
        Inl e \<Rightarrow> Inl e
      | Inr r \<Rightarrow> Inr (recompute
          \<lparr>mb_our_node_id = cfg_node_id cfg, mb_admin_pubkey = cfg_admin_pubkey cfg,
           mb_roster_path = cfg_roster_path cfg, mb_seeds = cfg_peers cfg, mb_roster = r,
           mb_effective = [], mb_allowlist = {}, mb_changed = 0, mb_disk = disk, mb_saves = 0\<rparr>))"

definition merge_signed ::
  "crates \<Rightarrow> codec \<Rightarrow> (nat \<Rightarrow> save_fault option) \<Rightarrow> signed_entry \<Rightarrow> membership
     \<Rightarrow> membership \<times> (membership_error + merge_outcome)" where
  "merge_signed X J io e m =
     (case mb_admin_pubkey m of
        None \<Rightarrow> (m, Inl NoAdminKey)
      | Some pk \<Rightarrow>
          let (staged, outcome) = merge_entry X pk e (mb_roster m)
          in if outcome = Applied
             then (let (disk, res) = roster_save J (io (mb_saves m)) (mb_roster_path m) staged (mb_disk m);
                       m1 = m\<lparr>mb_disk := disk, mb_saves := mb_saves m + 1\<rparr>
                   in case res of
                        Inl err \<Rightarrow> (m1, Inl (RosterErr err))
                      | Inr _ \<Rightarrow>
                          (let m2 = recompute (m1\<lparr>mb_roster := staged\<rparr>)
                           in (m2\<lparr>mb_changed := mb_changed m2 + 1\<rparr>, Inr outcome)))
             else (m, Inr outcome))"

definition apply_reload :: "crates \<Rightarrow> codec \<Rightarrow> member_cfg \<Rightarrow> membership \<Rightarrow> membership \<times> (membership_error + unit)" where
  "apply_reload X J cfg m =
     (case load_roster X J cfg (mb_disk m) of
        Inl e \<Rightarrow> (m, Inl e)
      | Inr r \<Rightarrow>
          (let m1 = recompute (m\<lparr>mb_admin_pubkey := cfg_admin_pubkey cfg, mb_roster_path := cfg_roster_path cfg,
                                mb_seeds := cfg_peers cfg, mb_roster := r\<rparr>)
           in (m1\<lparr>mb_changed := mb_changed m1 + 1\<rparr>, Inr ())))"

definition effective_peers :: "(peer list \<Rightarrow> peer list) \<Rightarrow> membership \<Rightarrow> peer list" where
  "effective_peers iter m = iter (bt_values (mb_effective m))"

definition peer_by_fingerprint :: "(peer list \<Rightarrow> peer list) \<Rightarrow> membership \<Rightarrow> bytes \<Rightarrow> peer option" where
  "peer_by_fingerprint iter m fp = List.find (\<lambda>p. pe_fingerprint p = fp) (iter (bt_values (mb_effective m)))"

definition roster_snapshot :: "membership \<Rightarrow> signed_entry list" where
  "roster_snapshot m = all_entries (mb_roster m)"

definition roster_digest :: "crates \<Rightarrow> membership \<Rightarrow> hash32" where
  "roster_digest X m = digest X (mb_roster m)"

definition has_admin_key :: "membership \<Rightarrow> bool" where
  "has_admin_key m \<longleftrightarrow> mb_admin_pubkey m \<noteq> None"

subsection \<open>The roster as a register of order keys\<close>

definition roster_ok :: "crates \<Rightarrow> admin_pubkey \<Rightarrow> roster \<Rightarrow> bool" where
  "roster_ok X pk r \<longleftrightarrow> bt_ok r \<and> (\<forall>(n, e) \<in> set r. se_node_id e = n \<and> entry_verify X pk e)"

definition merge_key :: "entry_rank option \<Rightarrow> entry_rank \<Rightarrow> entry_rank option" where
  "merge_key cur k = (case cur of None \<Rightarrow> Some k | Some c \<Rightarrow> Some (max c k))"

definition roster_key :: "crates \<Rightarrow> roster \<Rightarrow> node_id \<Rightarrow> entry_rank option" where
  "roster_key X r n = map_option (order_key X) (bt_get r n)"

definition register_merge ::
  "crates \<Rightarrow> admin_pubkey \<Rightarrow> (node_id \<Rightarrow> entry_rank option) \<Rightarrow> signed_entry \<Rightarrow> (node_id \<Rightarrow> entry_rank option)" where
  "register_merge X pk s e =
     (if entry_verify X pk e then s(se_node_id e := merge_key (s (se_node_id e)) (order_key X e)) else s)"

lemma merge_entry_refines: "roster_key X (fst (merge_entry X pk e r)) = register_merge X pk (roster_key X r) e"
  by (auto simp: fun_eq_iff merge_entry_def register_merge_def roster_key_def merge_key_def bt_get_insert max_def
      split: option.splits)

interpretation reg: absorbing_merge "register_merge X pk" "\<lambda>_. True" "\<lambda>_. True" for X pk
proof unfold_locales
  show "register_merge X pk (register_merge X pk s a) b = register_merge X pk (register_merge X pk s b) a" for s a b
    by (auto simp: register_merge_def merge_key_def fun_eq_iff max.assoc max.commute max.left_commute split: option.splits)
  show "register_merge X pk (register_merge X pk s a) a = register_merge X pk s a" for s a
    by (auto simp: register_merge_def merge_key_def fun_eq_iff split: option.splits)
qed simp_all

definition merge_all :: "crates \<Rightarrow> admin_pubkey \<Rightarrow> roster \<Rightarrow> signed_entry list \<Rightarrow> roster" where
  "merge_all X pk r es = foldl (\<lambda>r e. fst (merge_entry X pk e r)) r es"

lemma merge_all_refines: "roster_key X (merge_all X pk r es) = foldl (register_merge X pk) (roster_key X r) es"
  by (induction es arbitrary: r) (simp_all add: merge_all_def merge_entry_refines)

lemma merge_all_set: "set es = set es' \<Longrightarrow> roster_key X (merge_all X pk r es) = roster_key X (merge_all X pk r es')"
  unfolding merge_all_refines by (rule reg.order_insensitive) (auto simp: list_all_iff)

lemma roster_ok_new [simp]: "roster_ok X pk []"
  by (simp add: roster_ok_def)

lemma roster_ok_merge: "roster_ok X pk r \<Longrightarrow> roster_ok X pk (fst (merge_entry X pk e r))"
  by (auto simp: roster_ok_def merge_entry_def bt_ok_insert dest!: bt_insert_bound split: option.splits)

lemma roster_ok_merge_all: "roster_ok X pk r \<Longrightarrow> roster_ok X pk (merge_all X pk r es)"
  by (induction es arbitrary: r) (simp_all add: merge_all_def roster_ok_merge)

lemma roster_ok_get: "roster_ok X pk r \<Longrightarrow> bt_get r n = Some e \<Longrightarrow> se_node_id e = n \<and> entry_verify X pk e"
  by (auto simp: roster_ok_def dest!: bt_get_Some_mem)

lemma merge_entry_from: "bt_get (fst (merge_entry X pk e r)) n = Some e' \<Longrightarrow> e' = e \<or> bt_get r n = Some e'"
  by (auto simp: merge_entry_def bt_get_insert split: option.splits if_splits)

lemma merge_all_from: "bt_get (merge_all X pk r es) n = Some e \<Longrightarrow> e \<in> set es \<or> bt_get r n = Some e"
proof (induction es arbitrary: r)
  case (Cons a es)
  then show ?case using merge_entry_from by (fastforce simp: merge_all_def)
qed (simp add: merge_all_def)

text \<open>Entries whose order keys tell them apart: the same content carries the same signature.\<close>

definition keys_separate :: "crates \<Rightarrow> signed_entry set \<Rightarrow> bool" where
  "keys_separate X S \<longleftrightarrow> (\<forall>a \<in> S. \<forall>b \<in> S. se_node_id a = se_node_id b \<longrightarrow> order_key X a = order_key X b \<longrightarrow> a = b)"

lemma rosters_equal:
  assumes "roster_ok X pk r" "roster_ok X pk s" "roster_key X r = roster_key X s"
    and "keys_separate X (set (bt_values r) \<union> set (bt_values s))"
  shows "r = s"
proof (rule bt_canonical)
  show ok: "bt_ok r" "bt_ok s" using assms by (simp_all add: roster_ok_def)
  fix n
  have key: "map_option (order_key X) (bt_get r n) = map_option (order_key X) (bt_get s n)"
    using assms(3) by (simp add: roster_key_def fun_eq_iff)
  show "bt_get r n = bt_get s n"
  proof (cases "bt_get r n")
    case None
    with key show ?thesis by simp
  next
    case (Some a)
    with key obtain b where b: "bt_get s n = Some b" "order_key X a = order_key X b" by (cases "bt_get s n") auto
    have "a \<in> set (bt_values r)" "b \<in> set (bt_values s)" using ok Some b by (auto simp: bt_values_mem)
    moreover have "se_node_id a = se_node_id b" using roster_ok_get assms(1,2) Some b(1) by metis
    ultimately have "a = b" using assms(4) b(2) by (auto simp: keys_separate_def)
    with Some b show ?thesis by simp
  qed
qed

end
