(* ===== verification/Gossip.thy ===== *)
theory Gossip
  imports Membership
begin

text \<open>
  Roster dissemination (\<open>src/gossip.rs\<close>) and the laws of the membership handle it
  relies on.  An exchange is split at its message boundaries: what the initiator
  sends, what the responder answers, and what each side does with the entries it
  receives.  \<open>gossip_exchange\<close> composes them over a transport that delivers.
\<close>

datatype gossip_frame = GDigest hash32 | InSync | Entries "signed_entry list"

definition merge_batch_step ::
  "crates \<Rightarrow> codec \<Rightarrow> (nat \<Rightarrow> save_fault option) \<Rightarrow> membership \<times> nat \<Rightarrow> signed_entry \<Rightarrow> membership \<times> nat" where
  "merge_batch_step X J io acc e =
     (let (m', res) = merge_signed X J io e (fst acc)
      in (m', if res = Inr Applied then snd acc + 1 else snd acc))"

definition merge_batch ::
  "crates \<Rightarrow> codec \<Rightarrow> (nat \<Rightarrow> save_fault option) \<Rightarrow> membership \<Rightarrow> signed_entry list \<Rightarrow> membership \<times> nat" where
  "merge_batch X J io m es = foldl (merge_batch_step X J io) (m, 0) es"

text \<open>\<open>gossip_once\<close>: the frame it opens with, and its reaction to the answer.\<close>

definition gossip_open :: "crates \<Rightarrow> membership \<Rightarrow> gossip_frame option" where
  "gossip_open X m = (if has_admin_key m then Some (GDigest (roster_digest X m)) else None)"

definition gossip_answer ::
  "crates \<Rightarrow> codec \<Rightarrow> (nat \<Rightarrow> save_fault option) \<Rightarrow> gossip_frame \<Rightarrow> membership
     \<Rightarrow> membership \<times> gossip_frame option \<times> nat" where
  "gossip_answer X J io f m =
     (case f of
        InSync \<Rightarrow> (m, None, 0)
      | Entries theirs \<Rightarrow>
          (let (m', applied) = merge_batch X J io m theirs in (m', Some (Entries (roster_snapshot m')), applied))
      | GDigest _ \<Rightarrow> (m, None, 0))"

text \<open>\<open>serve_roster\<close>: the answer to the first frame (the flag: a second frame is awaited), and the second frame.\<close>

definition serve_roster :: "crates \<Rightarrow> gossip_frame \<Rightarrow> membership \<Rightarrow> gossip_frame option \<times> bool" where
  "serve_roster X f m =
     (case f of
        GDigest d \<Rightarrow> if d = roster_digest X m then (Some InSync, False)
                     else (Some (Entries (roster_snapshot m)), True)
      | _ \<Rightarrow> (None, False))"

definition serve_entries ::
  "crates \<Rightarrow> codec \<Rightarrow> (nat \<Rightarrow> save_fault option) \<Rightarrow> gossip_frame \<Rightarrow> membership \<Rightarrow> membership" where
  "serve_entries X J io f m = (case f of Entries theirs \<Rightarrow> fst (merge_batch X J io m theirs) | _ \<Rightarrow> m)"

definition gossip_exchange ::
  "crates \<Rightarrow> codec \<Rightarrow> (nat \<Rightarrow> save_fault option) \<Rightarrow> (nat \<Rightarrow> save_fault option)
     \<Rightarrow> membership \<Rightarrow> membership \<Rightarrow> membership \<times> membership" where
  "gossip_exchange X J io io' a b =
     (case gossip_open X a of
        None \<Rightarrow> (a, b)
      | Some f \<Rightarrow>
          (case serve_roster X f b of
             (None, _) \<Rightarrow> (a, b)
           | (Some g, awaits) \<Rightarrow>
               (let (a', out, _) = gossip_answer X J io g a
                in case out of
                     None \<Rightarrow> (a', b)
                   | Some h \<Rightarrow> (a', if awaits then serve_entries X J io' h b else b))))"

subsection \<open>The derived views\<close>

lemma recompute_frame [simp]:
  "mb_roster (recompute m) = mb_roster m" "mb_admin_pubkey (recompute m) = mb_admin_pubkey m"
  "mb_roster_path (recompute m) = mb_roster_path m" "mb_seeds (recompute m) = mb_seeds m"
  "mb_our_node_id (recompute m) = mb_our_node_id m" "mb_disk (recompute m) = mb_disk m"
  "mb_saves (recompute m) = mb_saves m" "mb_changed (recompute m) = mb_changed m"
  by (simp_all add: recompute_def Let_def)

text \<open>The views are what the seeds and the roster say.\<close>

definition views_ok :: "membership \<Rightarrow> bool" where
  "views_ok m \<longleftrightarrow> mb_effective (recompute m) = mb_effective m \<and> mb_allowlist (recompute m) = mb_allowlist m"

lemma views_ok_recompute [simp]: "views_ok (recompute m)" "views_ok (recompute m\<lparr>mb_changed := c\<rparr>)"
  by (simp_all add: views_ok_def recompute_def Let_def)

lemma recompute_side [simp]:
  "mb_effective (recompute (m\<lparr>mb_disk := d, mb_saves := n\<rparr>)) = mb_effective (recompute m)"
  "mb_allowlist (recompute (m\<lparr>mb_disk := d, mb_saves := n\<rparr>)) = mb_allowlist (recompute m)"
  by (simp_all add: recompute_def Let_def)

lemma views_ok_frame: "views_ok m \<Longrightarrow> views_ok (m\<lparr>mb_disk := d, mb_saves := n\<rparr>)"
  by (simp add: views_ok_def)

definition seed_of :: "peer list \<Rightarrow> node_id \<Rightarrow> peer option" where
  "seed_of seeds n = List.find (\<lambda>p. pe_node_id p = n) (rev seeds)"

lemma seeds_get:
  "bt_get (foldl (\<lambda>t p. bt_insert (pe_node_id p) p t) t seeds) n =
     (case seed_of seeds n of Some p \<Rightarrow> Some p | None \<Rightarrow> bt_get t n)"
  by (induction seeds arbitrary: t rule: rev_induct)
    (auto simp: seed_of_def bt_get_insert split: option.splits)

definition entry_peer :: "signed_entry \<Rightarrow> peer" where
  "entry_peer e = \<lparr>pe_node_id = se_node_id e, pe_addr = se_addr e, pe_fingerprint = se_fingerprint e\<rparr>"

lemma recompute_fold_get:
  assumes "distinct (map se_node_id es)"
  shows "bt_get (foldl (recompute_step our) t es) n =
     (case List.find (\<lambda>e. se_node_id e = n) es of
        Some e \<Rightarrow> if n = our then bt_get t n else (case se_kind e of Add \<Rightarrow> Some (entry_peer e) | Remove \<Rightarrow> None)
      | None \<Rightarrow> bt_get t n)"
  using assms
proof (induction es arbitrary: t)
  case (Cons e es)
  then have none: "List.find (\<lambda>x. se_node_id x = se_node_id e) es = None"
    by (auto simp: find_None_iff image_iff)
  have "bt_get (recompute_step our t e) n =
      (if se_node_id e = n \<and> n \<noteq> our then (case se_kind e of Add \<Rightarrow> Some (entry_peer e) | Remove \<Rightarrow> None)
       else bt_get t n)"
    by (auto simp: recompute_step_def bt_get_simps entry_peer_def split: entry_kind.splits)
  with Cons none show ?case by (auto split: option.splits)
qed simp

lemma roster_ids: "roster_ok X pk r \<Longrightarrow> map se_node_id (bt_values r) = map fst r"
  by (auto simp: roster_ok_def bt_values_def)

lemma roster_find:
  assumes "roster_ok X pk r"
  shows "List.find (\<lambda>e. se_node_id e = n) (bt_values r) = bt_get r n"
proof -
  have "\<forall>(k, e) \<in> set r. se_node_id e = k" using assms by (auto simp: roster_ok_def)
  then show ?thesis by (induction r) (auto simp: bt_values_def bt_get_Cons)
qed

lemma effective_get:
  assumes "roster_ok X pk (mb_roster m)"
  shows "bt_get (mb_effective (recompute m)) n =
     (case bt_get (mb_roster m) n of
        Some e \<Rightarrow> if n = mb_our_node_id m then seed_of (mb_seeds m) n
                  else (case se_kind e of Add \<Rightarrow> Some (entry_peer e) | Remove \<Rightarrow> None)
      | None \<Rightarrow> seed_of (mb_seeds m) n)"
proof -
  have "distinct (map se_node_id (bt_values (mb_roster m)))"
    unfolding roster_ids [OF assms] using assms by (intro bt_ok_distinct) (simp add: roster_ok_def)
  then show ?thesis
    by (simp add: recompute_def Let_def all_entries_def recompute_fold_get roster_find [OF assms] seeds_get
        split: option.splits)
qed

lemma effective_ok: "bt_ok (mb_effective (recompute m))"
proof -
  have "bt_ok (foldl (\<lambda>t p. bt_insert (pe_node_id p) p t) t ps)" if "bt_ok t" for t :: "(node_id, peer) btree" and ps
    using that by (induction ps arbitrary: t) (simp_all add: btree_laws)
  moreover have "bt_ok (foldl (recompute_step our) t es)" if "bt_ok t" for our es and t :: "(node_id, peer) btree"
    using that by (induction es arbitrary: t) (auto simp: recompute_step_def btree_laws split: entry_kind.splits)
  ultimately show ?thesis by (simp add: recompute_def Let_def)
qed

lemma allowlist_mem:
  "fp \<in> mb_allowlist (recompute m) \<longleftrightarrow> (\<exists>n p. bt_get (mb_effective (recompute m)) n = Some p \<and> pe_fingerprint p = fp)"
proof -
  have "mb_allowlist (recompute m) = pe_fingerprint ` set (bt_values (mb_effective (recompute m)))"
    by (simp add: recompute_def Let_def)
  then show ?thesis by (auto simp: image_iff Bex_def bt_values_mem [OF effective_ok])
qed

subsection \<open>Merging through the handle\<close>

lemma merge_signed_cases:
  "merge_signed X J io e m =
     (case mb_admin_pubkey m of
        None \<Rightarrow> (m, Inl NoAdminKey)
      | Some pk \<Rightarrow>
          if snd (merge_entry X pk e (mb_roster m)) \<noteq> Applied then (m, Inr (snd (merge_entry X pk e (mb_roster m))))
          else case roster_save J (io (mb_saves m)) (mb_roster_path m) (fst (merge_entry X pk e (mb_roster m))) (mb_disk m) of
            (disk, Inl err) \<Rightarrow> (m\<lparr>mb_disk := disk, mb_saves := mb_saves m + 1\<rparr>, Inl (RosterErr err))
          | (disk, Inr _) \<Rightarrow>
              (let m2 = recompute (m\<lparr>mb_disk := disk, mb_saves := mb_saves m + 1,
                                   mb_roster := fst (merge_entry X pk e (mb_roster m))\<rparr>)
               in (m2\<lparr>mb_changed := mb_changed m2 + 1\<rparr>, Inr Applied)))"
  by (auto simp: merge_signed_def Let_def case_prod_unfold split: option.splits sum.splits)

lemma merge_entry_idle: "snd (merge_entry X pk e r) \<noteq> Applied \<Longrightarrow> fst (merge_entry X pk e r) = r"
  by (auto simp: merge_entry_def split: option.splits if_splits)

definition saves :: "codec \<Rightarrow> (nat \<Rightarrow> save_fault option) \<Rightarrow> bool" where
  "saves J io \<longleftrightarrow> (\<forall>n. io n = None) \<and> (\<forall>es. json_of J es \<noteq> None)"

lemma merge_signed_roster:
  assumes "saves J io" "mb_admin_pubkey m = Some pk"
  shows "mb_roster (fst (merge_signed X J io e m)) = fst (merge_entry X pk e (mb_roster m))"
    "mb_admin_pubkey (fst (merge_signed X J io e m)) = Some pk"
proof -
  obtain json where "json_of J (bt_values (fst (merge_entry X pk e (mb_roster m)))) = Some json"
    using assms(1) by (fastforce simp: saves_def)
  then show "mb_roster (fst (merge_signed X J io e m)) = fst (merge_entry X pk e (mb_roster m))"
    "mb_admin_pubkey (fst (merge_signed X J io e m)) = Some pk"
    using assms merge_entry_idle [of X pk e "mb_roster m"]
    by (auto simp: merge_signed_cases roster_save_def saves_def Let_def)
qed

lemma merge_batch_roster:
  assumes "saves J io" "mb_admin_pubkey m = Some pk"
  shows "mb_roster (fst (merge_batch X J io m es)) = merge_all X pk (mb_roster m) es"
    "mb_admin_pubkey (fst (merge_batch X J io m es)) = Some pk"
proof -
  have "mb_roster (fst (foldl (merge_batch_step X J io) (m, k) es)) = merge_all X pk (mb_roster m) es
    \<and> mb_admin_pubkey (fst (foldl (merge_batch_step X J io) (m, k) es)) = Some pk" for k
    using assms(2)
  proof (induction es arbitrary: m k)
    case (Cons e es)
    obtain m' k' where s: "merge_batch_step X J io (m, k) e = (m', k')" by fastforce
    then have m': "m' = fst (merge_signed X J io e m)" by (auto simp: merge_batch_step_def case_prod_unfold Let_def)
    with merge_signed_roster [OF assms(1) Cons.prems, of X e] Cons.IH [of m' k'] s show ?case
      by (simp add: merge_all_def)
  qed (simp add: merge_all_def)
  then show "mb_roster (fst (merge_batch X J io m es)) = merge_all X pk (mb_roster m) es"
    "mb_admin_pubkey (fst (merge_batch X J io m es)) = Some pk" by (simp_all add: merge_batch_def)
qed

subsection \<open>One exchange joins both rosters\<close>

definition join_key :: "entry_rank option \<Rightarrow> entry_rank option \<Rightarrow> entry_rank option" where
  "join_key a b = (case b of None \<Rightarrow> a | Some k \<Rightarrow> merge_key a k)"

lemma join_key_laws:
  "join_key a b = join_key b a" "join_key a a = a" "join_key a (join_key a b) = join_key a b"
  by (auto simp: join_key_def merge_key_def max.commute split: option.splits)

lemma register_fold_roster:
  assumes "roster_ok X pk r"
  shows "foldl (register_merge X pk) s (bt_values r) n = join_key (s n) (roster_key X r n)"
  using assms
proof (induction r arbitrary: s)
  case (Cons a r)
  obtain k e where a: "a = (k, e)" by fastforce
  have rest: "roster_ok X pk r" and e: "se_node_id e = k" "entry_verify X pk e"
    using Cons.prems a by (auto simp: roster_ok_def bt_ok_Cons)
  have k: "bt_get r k = None" using Cons.prems a by (auto simp: roster_ok_def bt_ok_Cons bt_get_None_iff)
  have s1: "register_merge X pk s e n = (if n = k then merge_key (s k) (order_key X e) else s n)"
    using e by (simp add: register_merge_def)
  have "foldl (register_merge X pk) s (bt_values (a # r)) n = join_key (register_merge X pk s e n) (roster_key X r n)"
    using Cons.IH [OF rest] by (simp add: a bt_values_def)
  with k show ?case
    unfolding s1 by (simp add: a roster_key_def bt_get_Cons join_key_def)
qed (simp add: bt_values_def roster_key_def join_key_def)

definition anchored :: "crates \<Rightarrow> admin_pubkey \<Rightarrow> membership \<Rightarrow> bool" where
  "anchored X pk m \<longleftrightarrow> mb_admin_pubkey m = Some pk \<and> roster_ok X pk (mb_roster m)"

lemma batch_joins:
  assumes "saves J io" "anchored X pk m" "roster_ok X pk r"
  shows "roster_key X (mb_roster (fst (merge_batch X J io m (bt_values r)))) n =
           join_key (roster_key X (mb_roster m) n) (roster_key X r n)"
    "anchored X pk (fst (merge_batch X J io m (bt_values r)))"
proof -
  have pk: "mb_admin_pubkey m = Some pk" and ok: "roster_ok X pk (mb_roster m)"
    using assms(2) by (simp_all add: anchored_def)
  note mb = merge_batch_roster [OF assms(1) pk, of X "bt_values r"]
  show "roster_key X (mb_roster (fst (merge_batch X J io m (bt_values r)))) n =
           join_key (roster_key X (mb_roster m) n) (roster_key X r n)"
    unfolding mb(1) merge_all_refines by (rule register_fold_roster [OF assms(3)])
  show "anchored X pk (fst (merge_batch X J io m (bt_values r)))"
    using mb ok by (simp add: anchored_def roster_ok_merge_all)
qed

lemma exchange_unfold:
  assumes "has_admin_key a"
  shows "gossip_exchange X J io io' a b =
     (if roster_digest X a = roster_digest X b then (a, b)
      else let a' = fst (merge_batch X J io a (roster_snapshot b))
           in (a', fst (merge_batch X J io' b (roster_snapshot a'))))"
  using assms
  by (auto simp: gossip_exchange_def gossip_open_def serve_roster_def gossip_answer_def serve_entries_def
      case_prod_unfold Let_def)

lemma exchange_joins:
  assumes "saves J io" "saves J io'" "anchored X pk a" "anchored X pk b"
    and "roster_digest X a \<noteq> roster_digest X b" "gossip_exchange X J io io' a b = (a', b')"
  shows "roster_key X (mb_roster a') n = join_key (roster_key X (mb_roster a) n) (roster_key X (mb_roster b) n)"
    "roster_key X (mb_roster b') n = join_key (roster_key X (mb_roster a) n) (roster_key X (mb_roster b) n)"
    "anchored X pk a'" "anchored X pk b'"
proof -
  have "has_admin_key a" using assms(3) by (simp add: anchored_def has_admin_key_def)
  then have a': "a' = fst (merge_batch X J io a (bt_values (mb_roster b)))"
    and b': "b' = fst (merge_batch X J io' b (bt_values (mb_roster a')))"
    using assms(5,6) by (auto simp: exchange_unfold Let_def roster_snapshot_def all_entries_def)
  have rb: "roster_ok X pk (mb_roster b)" using assms(4) by (simp add: anchored_def)
  note ja = batch_joins [OF assms(1,3) rb, folded a']
  show "anchored X pk a'" by (rule ja)
  then have ra: "roster_ok X pk (mb_roster a')" by (simp add: anchored_def)
  note jb = batch_joins [OF assms(2,4) ra, folded b']
  show "anchored X pk b'" by (rule jb)
  show "roster_key X (mb_roster a') n = join_key (roster_key X (mb_roster a) n) (roster_key X (mb_roster b) n)"
    by (rule ja)
  show "roster_key X (mb_roster b') n = join_key (roster_key X (mb_roster a) n) (roster_key X (mb_roster b) n)"
    unfolding jb ja by (metis join_key_laws)
qed

subsection \<open>The file holds what was committed\<close>

lemma roster_save_fails:
  assumes "\<nexists>json. json_of J (bt_values r) = Some json \<and> fault = None"
  shows "\<exists>dsk err. roster_save J fault p r disk = (dsk, Inl err)"
proof (cases fault)
  case None
  with assms show ?thesis by (cases "json_of J (bt_values r)") (simp_all add: roster_save_def)
next
  case (Some f)
  then show ?thesis by (cases "json_of J (bt_values r)"; cases f) (simp_all add: roster_save_def)
qed

lemma load_step_fold:
  "fst (foldl (load_step X pk) (r, k) es) = merge_all X pk r es"
  "list_all (entry_verify X pk) es \<Longrightarrow> snd (foldl (load_step X pk) (r, k) es) = k"
proof -
  show "fst (foldl (load_step X pk) (r, k) es) = merge_all X pk r es"
    by (induction es arbitrary: r k) (simp_all add: merge_all_def load_step_def case_prod_unfold Let_def)
  show "list_all (entry_verify X pk) es \<Longrightarrow> snd (foldl (load_step X pk) (r, k) es) = k"
  proof (induction es arbitrary: r k)
    case (Cons e es)
    then have "snd (merge_entry X pk e r) \<noteq> Rejected"
      by (auto simp: merge_entry_def split: option.splits)
    with Cons show ?case by (simp add: load_step_def case_prod_unfold Let_def)
  qed simp
qed

lemma merge_all_own_values:
  assumes "roster_ok X pk r"
  shows "merge_all X pk [] (bt_values r) = r"
proof (rule rosters_equal [where X = X and pk = pk])
  show ok: "roster_ok X pk (merge_all X pk [] (bt_values r))" by (simp add: roster_ok_merge_all)
  show "roster_key X (merge_all X pk [] (bt_values r)) = roster_key X r"
    by (rule ext) (simp add: merge_all_refines register_fold_roster [OF assms],
        simp add: roster_key_def join_key_def merge_key_def split: option.splits)
  have sub: "set (bt_values (merge_all X pk [] (bt_values r))) \<subseteq> set (bt_values r)"
    using ok merge_all_from [of X pk "[]" "bt_values r"]
    by (auto simp: roster_ok_def bt_values_mem)
  have "a = b" if "a \<in> set (bt_values r)" "b \<in> set (bt_values r)" "se_node_id a = se_node_id b" for a b
    using that assms roster_ok_get [OF assms] by (auto simp: roster_ok_def bt_values_mem)
  with sub show "keys_separate X (set (bt_values (merge_all X pk [] (bt_values r))) \<union> set (bt_values r))"
    unfolding keys_separate_def by blast
qed (rule assms)

lemma roster_load_saved:
  assumes "roster_ok X pk r" "json_of J (bt_values r) = Some json" "json_parse J json = Some (bt_values r)"
  shows "roster_load X J (Contents json) pk = Inr (r, 0)"
proof -
  have "list_all (entry_verify X pk) (bt_values r)"
    using assms(1) by (auto simp: roster_ok_def list_all_iff bt_values_def)
  then show ?thesis
    using assms(3) load_step_fold(2) [of X pk "bt_values r" "[]" 0] merge_all_own_values [OF assms(1)]
      load_step_fold(1) [of X pk "[]" 0 "bt_values r"]
    by (auto simp: roster_load_def roster_new_def prod_eq_iff)
qed

subsection \<open>Properties\<close>

definition example_entry :: "node_id \<Rightarrow> u64 \<Rightarrow> entry_kind \<Rightarrow> signed_entry" where
  "example_entry n ep k = \<lparr>se_node_id = n, se_addr = V4 [10, 0, 0, 1] 7, se_fingerprint = n, se_epoch = ep, se_kind = k,
     se_sig = [1] @ canonical_entry_bytes n (V4 [10, 0, 0, 1] 7) n ep k\<rparr>"

definition example_member :: "roster \<Rightarrow> membership" where
  "example_member r = \<lparr>mb_our_node_id = [9], mb_admin_pubkey = Some [1], mb_roster_path = ''r.json'', mb_seeds = [],
     mb_roster = r, mb_effective = [], mb_allowlist = {}, mb_changed = 0, mb_disk = (\<lambda>_. NotFound), mb_saves = 0\<rparr>"

definition plain_codec :: codec where
  "plain_codec = \<lparr>json_of = (\<lambda>_. Some []), json_parse = (\<lambda>_. Some [])\<rparr>"

lemma example_verifies: "entry_verify plain_crates [1] (example_entry n ep k)"
  by (simp add: entry_verify_def verify_entry_def example_entry_def plain_crates_def)

lemma example_roster_ok: "roster_ok plain_crates [1] [(n, example_entry n ep k)]"
  using example_verifies by (simp add: roster_ok_def bt_ok_def) (simp add: example_entry_def)



text \<open>
  The choke point: an entry whose signature does not verify leaves the roster as it
  is; a verified one is stored exactly when its key is above the current winner's.  So
  a removed node stays removed until an \<open>Add\<close> of a strictly higher epoch, and the epoch
  \<open>next_epoch_for\<close> proposes makes any entry win as long as the counter does not wrap.
\<close>

theorem merge_entry_choke_point:
  "(\<not> entry_verify X pk e \<longrightarrow> merge_entry X pk e r = (r, Rejected))
   \<and> (entry_verify X pk e \<longrightarrow> bt_get r (se_node_id e) = Some cur \<longrightarrow>
        (if order_key X cur < order_key X e then merge_entry X pk e r = (bt_insert (se_node_id e) e r, Applied)
         else merge_entry X pk e r = (r, Superseded)))
   \<and> (bt_get r (se_node_id e) = Some cur \<longrightarrow> se_kind cur = Remove \<longrightarrow> se_kind e = Add \<longrightarrow> se_epoch e \<le> se_epoch cur \<longrightarrow>
        fst (merge_entry X pk e r) = r)
   \<and> (entry_verify X pk e \<longrightarrow> bt_get r (se_node_id e) = Some cur \<longrightarrow> se_epoch cur \<noteq> - 1 \<longrightarrow>
        se_epoch e = next_epoch_for r (se_node_id e) \<longrightarrow> snd (merge_entry X pk e r) = Applied)"
proof (intro conjI impI)
  assume "bt_get r (se_node_id e) = Some cur" "se_kind cur = Remove" "se_kind e = Add" "se_epoch e \<le> se_epoch cur"
  then have "order_key X e \<le> order_key X cur" by (auto simp: order_key_def less_eq_prod_def)
  then show "fst (merge_entry X pk e r) = r"
    using \<open>bt_get r (se_node_id e) = Some cur\<close> by (simp add: merge_entry_def)
next
  assume a: "entry_verify X pk e" "bt_get r (se_node_id e) = Some cur" "se_epoch cur \<noteq> - 1"
    "se_epoch e = next_epoch_for r (se_node_id e)"
  then have "se_epoch cur < se_epoch e" by (simp add: next_epoch_for_def u64_succ_less)
  then have "order_key X cur < order_key X e" by (simp add: order_key_def less_prod_def)
  with a show "snd (merge_entry X pk e r) = Applied" by (simp add: merge_entry_def)
qed (auto simp: merge_entry_def)

theorem merge_entry_choke_point_witness:
  "fst (merge_entry plain_crates [1] (example_entry [2] 3 Add) [([2], example_entry [2] 3 Remove)]) =
     [([2], example_entry [2] 3 Remove)]"
  using merge_entry_choke_point [of plain_crates "[1]" "example_entry [2] 3 Add" "[([2], example_entry [2] 3 Remove)]"
      "example_entry [2] 3 Remove"]
  by (simp add: bt_get_def) (simp add: example_entry_def)



text \<open>
  C25. Disk is the commit point: if persisting the merged roster fails, the live roster,
  the effective peers, the allowlist and the change counter are what they were; if it
  succeeds, the file holds exactly the new roster, loading it back gives that roster
  with nothing dropped, and the derived views follow it.
\<close>

theorem merge_signed_commits_via_disk:
  assumes "merge_signed X J io e m = (m', res)" "anchored X pk m" "views_ok m"
    and "\<And>es json. json_of J es = Some json \<Longrightarrow> json_parse J json = Some es"
  shows "(res \<noteq> Inr Applied \<longrightarrow> mb_roster m' = mb_roster m \<and> mb_effective m' = mb_effective m
             \<and> mb_allowlist m' = mb_allowlist m \<and> mb_changed m' = mb_changed m)
    \<and> (res = Inr Applied \<longrightarrow> roster_load X J (mb_disk m' (mb_roster_path m')) pk = Inr (mb_roster m', 0)
             \<and> bt_get (mb_roster m') (se_node_id e) = Some e \<and> mb_changed m' = mb_changed m + 1)
    \<and> anchored X pk m' \<and> views_ok m'"
proof -
  have pk: "mb_admin_pubkey m = Some pk" and ok: "roster_ok X pk (mb_roster m)"
    using assms(2) by (simp_all add: anchored_def)
  let ?r = "fst (merge_entry X pk e (mb_roster m))"
  have ok': "roster_ok X pk ?r" using ok by (rule roster_ok_merge)
  have idle: "snd (merge_entry X pk e (mb_roster m)) \<noteq> Applied \<Longrightarrow> m' = m \<and> res \<noteq> Inr Applied"
    using assms(1) pk by (auto simp: merge_signed_cases)
  show ?thesis
  proof (cases "snd (merge_entry X pk e (mb_roster m)) = Applied")
    case False
    with idle assms(2,3) show ?thesis by auto
  next
    case True
    then have e: "bt_get ?r (se_node_id e) = Some e"
      by (auto simp: merge_entry_def bt_get_insert split: option.splits if_splits)
    show ?thesis
    proof (cases "\<exists>json. json_of J (bt_values ?r) = Some json \<and> io (mb_saves m) = None")
      case ok_save: True
      then obtain json where j: "json_of J (bt_values ?r) = Some json" "io (mb_saves m) = None" by blast
      with assms(1) pk True have m': "m' = recompute (m\<lparr>mb_disk := (mb_disk m)(mb_roster_path m := Contents json),
           mb_saves := mb_saves m + 1, mb_roster := ?r\<rparr>)\<lparr>mb_changed := mb_changed m + 1\<rparr>" "res = Inr Applied"
        by (simp_all add: merge_signed_cases roster_save_def Let_def)
      with e ok' pk roster_load_saved [OF ok' j(1) assms(4) [OF j(1)]] show ?thesis
        by (simp add: anchored_def)
    next
      case False
      then obtain dsk err where "roster_save J (io (mb_saves m)) (mb_roster_path m) ?r (mb_disk m) = (dsk, Inl err)"
        using roster_save_fails by blast
      with assms(1) pk True have "m' = m\<lparr>mb_disk := dsk, mb_saves := mb_saves m + 1\<rparr>" "res = Inl (RosterErr err)"
        by (simp_all add: merge_signed_cases)
      with assms(2,3) show ?thesis by (simp add: anchored_def views_ok_frame)
    qed
  qed
qed

definition one_entry_codec :: codec where
  "one_entry_codec = \<lparr>json_of = (\<lambda>es. if es = [example_entry [2] 3 Add] then Some [1] else None),
     json_parse = (\<lambda>_. Some [example_entry [2] 3 Add])\<rparr>"

theorem merge_signed_commits_via_disk_witness:
  "\<exists>m'. merge_signed plain_crates one_entry_codec (\<lambda>_. None) (example_entry [2] 3 Add) (recompute (example_member [])) = (m', Inr Applied)
     \<and> roster_load plain_crates one_entry_codec (mb_disk m' (mb_roster_path m')) [1] = Inr (mb_roster m', 0)"
proof -
  have id: "se_node_id (example_entry [2] 3 Add) = [2]" by (simp add: example_entry_def)
  have "merge_entry plain_crates [1] (example_entry [2] 3 Add) [] = ([([2], example_entry [2] 3 Add)], Applied)"
    using example_verifies by (simp add: merge_entry_def id)
  then obtain m' where r: "merge_signed plain_crates one_entry_codec (\<lambda>_. None) (example_entry [2] 3 Add)
      (recompute (example_member [])) = (m', Inr Applied)"
    by (simp add: merge_signed_cases roster_save_def example_member_def one_entry_codec_def bt_values_def Let_def)
  have "anchored plain_crates [1] (recompute (example_member []))" by (simp add: anchored_def example_member_def)
  moreover have "json_of one_entry_codec es = Some json \<Longrightarrow> json_parse one_entry_codec json = Some es" for es json
    by (simp add: one_entry_codec_def split: if_splits)
  ultimately show ?thesis
    using merge_signed_commits_via_disk [OF r _ views_ok_recompute(1)] r by blast
qed

text \<open>
  The allowlist follows the signed roster: a fingerprint is accepted exactly if some
  member has it whose winning entry is an \<open>Add\<close>, or who has no entry (or is this node
  itself) and is a configured seed; in particular a removed member's fingerprint is
  refused unless another member carries the same one.
\<close>

theorem allowlist_is_effective_membership:
  assumes "roster_ok X pk (mb_roster m)"
  shows "fp \<in> mb_allowlist (recompute m) \<longleftrightarrow>
    (\<exists>n. (\<exists>e. n \<noteq> mb_our_node_id m \<and> bt_get (mb_roster m) n = Some e \<and> se_kind e = Add \<and> se_fingerprint e = fp)
       \<or> (\<exists>p. (n = mb_our_node_id m \<or> bt_get (mb_roster m) n = None) \<and> seed_of (mb_seeds m) n = Some p \<and> pe_fingerprint p = fp))"
proof -
  have "(\<exists>p. bt_get (mb_effective (recompute m)) n = Some p \<and> pe_fingerprint p = fp) \<longleftrightarrow>
      (\<exists>e. n \<noteq> mb_our_node_id m \<and> bt_get (mb_roster m) n = Some e \<and> se_kind e = Add \<and> se_fingerprint e = fp)
       \<or> (\<exists>p. (n = mb_our_node_id m \<or> bt_get (mb_roster m) n = None) \<and> seed_of (mb_seeds m) n = Some p \<and> pe_fingerprint p = fp)"
    for n unfolding effective_get [OF assms]
    by (cases "bt_get (mb_roster m) n") (auto simp: entry_peer_def split: entry_kind.splits)
  then show ?thesis by (simp add: allowlist_mem)
qed

theorem allowlist_is_effective_membership_witness:
  "[2] \<notin> mb_allowlist (recompute (example_member [([2], example_entry [2] 3 Remove)]))"
  using allowlist_is_effective_membership [of plain_crates "[1]" "example_member [([2], example_entry [2] 3 Remove)]" "[2]"]
    example_roster_ok [of "[2]" 3 Remove]
  by (auto simp: example_member_def seed_of_def bt_get_def split: if_splits) (simp add: example_entry_def)

end
