(* ===== verification/Join.thy ===== *)
theory Join
  imports Prelude
begin

text \<open>
  The node join lifecycle (\<open>src/join.rs\<close>).  Each method takes the tracker's lock,
  updates the gate sets, recomputes the lifecycle and releases the lock; persisting a
  change to the store's \<open>meta\<close> table comes after the release.  The sequential methods
  run the two parts back to back; the relation \<open>tracker_step\<close> interleaves them, a
  persist that has not reached the store yet being an element of \<open>j_pending\<close>.
\<close>

datatype lifecycle = Joining | Syncing | Active

definition lifecycle_as_str :: "lifecycle \<Rightarrow> string" where
  "lifecycle_as_str l = (case l of Joining \<Rightarrow> ''joining'' | Syncing \<Rightarrow> ''syncing'' | Active \<Rightarrow> ''active'')"

definition lifecycle_from_str :: "string \<Rightarrow> lifecycle option" where
  "lifecycle_from_str s =
     (if s = ''joining'' then Some Joining else if s = ''syncing'' then Some Syncing
      else if s = ''active'' then Some Active else None)"

record tracker =
  j_expected :: "node_id set"
  j_completed :: "node_id set"
  j_unreachable :: "node_id set"
  j_lifecycle :: lifecycle
  j_published :: lifecycle
  j_meta :: "string option"
  j_pending :: "lifecycle list"

definition all_settled :: "tracker \<Rightarrow> bool" where
  "all_settled t \<longleftrightarrow> (\<forall>p \<in> j_expected t. p \<in> j_completed t \<or> p \<in> j_unreachable t)"

definition recompute_lifecycle :: "tracker \<Rightarrow> tracker \<times> lifecycle option" where
  "recompute_lifecycle t =
     (if j_lifecycle t = Active then (t, None)
      else let next = (if j_expected t = {} \<or> all_settled t then Active
                       else if j_completed t \<noteq> {} \<or> j_unreachable t \<noteq> {} then Syncing else Joining)
           in if next \<noteq> j_lifecycle t then (t\<lparr>j_lifecycle := next, j_published := next\<rparr>, Some next)
              else (t, None))"

definition tracker_new :: "string option \<Rightarrow> node_id set \<Rightarrow> tracker" where
  "tracker_new stored expected =
     (let initial = (if expected = {} then Active else Joining)
      in \<lparr>j_expected = expected, j_completed = {}, j_unreachable = {}, j_lifecycle = initial,
          j_published = initial, j_meta = stored, j_pending = []\<rparr>)"

definition restore :: "tracker \<Rightarrow> tracker" where
  "restore t =
     (case j_meta t of
        Some s \<Rightarrow> if lifecycle_from_str s = Some Active
                  then t\<lparr>j_lifecycle := Active, j_published := Active\<rparr> else t
      | None \<Rightarrow> t)"

definition persist :: "lifecycle option \<Rightarrow> tracker \<Rightarrow> tracker" where
  "persist changed t = (case changed of None \<Rightarrow> t | Some l \<Rightarrow> t\<lparr>j_meta := Some (lifecycle_as_str l)\<rparr>)"

text \<open>The locked parts of the three methods.\<close>

definition gate_complete_locked :: "node_id \<Rightarrow> tracker \<Rightarrow> tracker \<times> lifecycle option" where
  "gate_complete_locked p t =
     recompute_lifecycle (t\<lparr>j_unreachable := j_unreachable t - {p}, j_completed := insert p (j_completed t)\<rparr>)"

definition unreachable_locked :: "node_id \<Rightarrow> tracker \<Rightarrow> tracker \<times> lifecycle option" where
  "unreachable_locked p t =
     (if p \<in> j_completed t then (t, None)
      else recompute_lifecycle (t\<lparr>j_unreachable := insert p (j_unreachable t)\<rparr>))"

definition set_expected_locked :: "node_id set \<Rightarrow> tracker \<Rightarrow> tracker \<times> lifecycle option" where
  "set_expected_locked expected t = recompute_lifecycle (t\<lparr>j_expected := expected\<rparr>)"

definition note_gate_complete :: "node_id \<Rightarrow> tracker \<Rightarrow> tracker" where
  "note_gate_complete p t = (let (t', changed) = gate_complete_locked p t in persist changed t')"

definition note_unreachable :: "node_id \<Rightarrow> tracker \<Rightarrow> tracker" where
  "note_unreachable p t = (let (t', changed) = unreachable_locked p t in persist changed t')"

definition set_expected :: "node_id set \<Rightarrow> tracker \<Rightarrow> tracker" where
  "set_expected expected t = (let (t', changed) = set_expected_locked expected t in persist changed t')"

datatype tracker_event = GateComplete node_id | Unreachable node_id | SetExpected "node_id set"

definition tracker_locked :: "tracker_event \<Rightarrow> tracker \<Rightarrow> tracker \<times> lifecycle option" where
  "tracker_locked e t = (case e of
      GateComplete p \<Rightarrow> gate_complete_locked p t
    | Unreachable p \<Rightarrow> unreachable_locked p t
    | SetExpected s \<Rightarrow> set_expected_locked s t)"

definition tracker_run :: "tracker_event list \<Rightarrow> tracker \<Rightarrow> tracker" where
  "tracker_run es t = fold (\<lambda>e t. let (t', changed) = tracker_locked e t in persist changed t') es t"

text \<open>Concurrent callers: the locked part of a call, and one of the pending persists reaching the store or failing.\<close>

inductive tracker_step :: "tracker \<Rightarrow> tracker \<Rightarrow> bool" where
  locked: "tracker_locked e t = (t', changed) \<Longrightarrow>
     tracker_step t (t'\<lparr>j_pending := j_pending t' @ (case changed of None \<Rightarrow> [] | Some l \<Rightarrow> [l])\<rparr>)"
| persisted: "j_pending t = xs @ l # ys \<Longrightarrow>
     tracker_step t ((persist (Some l) t)\<lparr>j_pending := xs @ ys\<rparr>)"
| persist_failed: "j_pending t = xs @ l # ys \<Longrightarrow> tracker_step t (t\<lparr>j_pending := xs @ ys\<rparr>)"

inductive_cases tracker_stepE: "tracker_step t t'"

subsection \<open>Promotion\<close>

lemma recompute_cases:
  "j_lifecycle (fst (recompute_lifecycle t)) =
     (if j_lifecycle t = Active \<or> all_settled t then Active
      else if j_completed t \<noteq> {} \<or> j_unreachable t \<noteq> {} then Syncing else Joining)"
  by (auto simp: recompute_lifecycle_def Let_def all_settled_def)

lemma recompute_lifecycle_frame [simp]:
  "j_expected (fst (recompute_lifecycle t)) = j_expected t" "j_completed (fst (recompute_lifecycle t)) = j_completed t"
  "j_unreachable (fst (recompute_lifecycle t)) = j_unreachable t" "j_meta (fst (recompute_lifecycle t)) = j_meta t"
  "j_pending (fst (recompute_lifecycle t)) = j_pending t"
  by (simp_all add: recompute_lifecycle_def Let_def)

lemma recompute_published:
  "j_published t = j_lifecycle t \<Longrightarrow> j_published (fst (recompute_lifecycle t)) = j_lifecycle (fst (recompute_lifecycle t))"
  by (auto simp: recompute_lifecycle_def Let_def)

lemma recompute_changed:
  "snd (recompute_lifecycle t) =
     (if j_lifecycle (fst (recompute_lifecycle t)) = j_lifecycle t then None
      else Some (j_lifecycle (fst (recompute_lifecycle t))))"
  by (auto simp: recompute_lifecycle_def Let_def)

lemma persist_frame [simp]:
  "j_expected (persist c t) = j_expected t" "j_completed (persist c t) = j_completed t"
  "j_unreachable (persist c t) = j_unreachable t" "j_lifecycle (persist c t) = j_lifecycle t"
  "j_published (persist c t) = j_published t" "j_pending (persist c t) = j_pending t"
  by (simp_all add: persist_def split: option.splits)

lemma persist_None [simp]: "persist None t = t"
  by (simp add: persist_def)

text \<open>The tracker's consistency: the watch channel shows the lifecycle, and a peer is not both gated and unreachable.\<close>

definition tracker_ok :: "tracker \<Rightarrow> bool" where
  "tracker_ok t \<longleftrightarrow> j_published t = j_lifecycle t \<and> j_completed t \<inter> j_unreachable t = {}"

lemma tracker_locked_ok: "tracker_ok t \<Longrightarrow> tracker_ok (fst (tracker_locked e t))"
  by (auto simp: tracker_ok_def tracker_locked_def gate_complete_locked_def unreachable_locked_def
      set_expected_locked_def recompute_published split: tracker_event.splits)

lemma tracker_locked_active: "j_lifecycle t = Active \<Longrightarrow> j_lifecycle (fst (tracker_locked e t)) = Active"
  by (auto simp: tracker_locked_def gate_complete_locked_def unreachable_locked_def
      set_expected_locked_def recompute_cases split: tracker_event.splits)

lemma tracker_step_active: "tracker_step t t' \<Longrightarrow> j_lifecycle t = Active \<Longrightarrow> j_lifecycle t' = Active"
proof (erule tracker_stepE)
  fix e t1 changed
  assume "j_lifecycle t = Active" "tracker_locked e t = (t1, changed)"
    and "t' = t1\<lparr>j_pending := j_pending t1 @ (case changed of None \<Rightarrow> [] | Some l \<Rightarrow> [l])\<rparr>"
  then show "j_lifecycle t' = Active" using tracker_locked_active [of t e] by simp
qed simp_all

subsection \<open>Properties\<close>

text \<open>
  Promotion is the reachable-only rule, in all three methods: a call leaves the node
  active exactly if it was active or, after the call, every expected peer has completed
  its gate or is marked unreachable; marking a peer that completed its gate before
  unreachable changes nothing.
\<close>

theorem join_promotion_rule:
  "(j_lifecycle (note_gate_complete p t) = Active \<longleftrightarrow>
      j_lifecycle t = Active \<or> (\<forall>q \<in> j_expected t. q = p \<or> q \<in> j_completed t \<or> q \<in> j_unreachable t))
   \<and> (j_lifecycle (note_unreachable p t) = Active \<longleftrightarrow>
      j_lifecycle t = Active \<or>
        (p \<notin> j_completed t \<and> (\<forall>q \<in> j_expected t. q = p \<or> q \<in> j_completed t \<or> q \<in> j_unreachable t)))
   \<and> (p \<in> j_completed t \<longrightarrow> note_unreachable p t = t)
   \<and> (j_lifecycle (set_expected S t) = Active \<longleftrightarrow>
      j_lifecycle t = Active \<or> (\<forall>q \<in> S. q \<in> j_completed t \<or> q \<in> j_unreachable t))"
  by (intro conjI)
     (auto simp: note_gate_complete_def gate_complete_locked_def note_unreachable_def unreachable_locked_def
      set_expected_def set_expected_locked_def case_prod_unfold Let_def recompute_cases all_settled_def)

theorem join_promotion_rule_witness:
  "j_lifecycle (note_gate_complete [1] (tracker_new None {[1]})) = Active
   \<and> note_unreachable [1] ((tracker_new None {[1]})\<lparr>j_completed := {[1]}\<rparr>) = (tracker_new None {[1]})\<lparr>j_completed := {[1]}\<rparr>"
  using join_promotion_rule [of "[1]" "tracker_new None {[1]}"]
    join_promotion_rule [of "[1]" "(tracker_new None {[1]})\<lparr>j_completed := {[1]}\<rparr>"]
  by (simp add: tracker_new_def)

text \<open>
  Activation is permanent under every interleaving of concurrent callers and their
  delayed persists.
\<close>

theorem join_active_is_stable:
  assumes "tracker_step\<^sup>*\<^sup>* t t'" "j_lifecycle t = Active"
  shows "j_lifecycle t' = Active"
  using assms by (induction rule: rtranclp_induct) (auto intro: tracker_step_active)

theorem join_active_is_stable_witness:
  "j_lifecycle (fst (tracker_locked (SetExpected {[2]}) (tracker_new None {}))) = Active"
proof -
  let ?t = "tracker_new None {}"
  obtain t' c where l: "tracker_locked (SetExpected {[2]}) ?t = (t', c)" by fastforce
  have "tracker_step\<^sup>*\<^sup>* ?t (t'\<lparr>j_pending := j_pending t' @ (case c of None \<Rightarrow> [] | Some l \<Rightarrow> [l])\<rparr>)"
    using l by (intro r_into_rtranclp tracker_step.locked)
  from join_active_is_stable [OF this] l show ?thesis by (simp add: tracker_new_def)
qed

text \<open>
  The persisted lifecycle can lag for good: two callers can release the lock in one
  order and persist in the other, leaving an active node whose stored state says
  \<open>syncing\<close> with no persist pending, so a restart does not come back active.
\<close>

theorem join_persist_can_regress:
  "\<exists>t. tracker_step\<^sup>*\<^sup>* (tracker_new None {[1], [2]}) t \<and> j_lifecycle t = Active \<and> j_pending t = []
     \<and> j_meta t = Some ''syncing'' \<and> j_lifecycle (restore (tracker_new (j_meta t) {[1], [2]})) = Joining"
proof -
  let ?t0 = "tracker_new None {[1], [2]}"
  let ?s1 = "?t0\<lparr>j_completed := {[1]}, j_lifecycle := Syncing, j_published := Syncing\<rparr>"
  let ?t1 = "?s1\<lparr>j_pending := [Syncing]\<rparr>"
  let ?s2 = "?t1\<lparr>j_completed := {[2], [1]}, j_lifecycle := Active, j_published := Active\<rparr>"
  let ?t2 = "?s2\<lparr>j_pending := [Syncing, Active]\<rparr>"
  let ?t3 = "(persist (Some Active) ?t2)\<lparr>j_pending := [Syncing] @ []\<rparr>"
  let ?t4 = "(persist (Some Syncing) ?t3)\<lparr>j_pending := [] @ []\<rparr>"
  have l1: "tracker_locked (GateComplete [1]) ?t0 = (?s1, Some Syncing)"
    by (auto simp: tracker_locked_def gate_complete_locked_def recompute_lifecycle_def tracker_new_def all_settled_def Let_def)
  have l2: "tracker_locked (GateComplete [2]) ?t1 = (?s2, Some Active)"
    by (auto simp: tracker_locked_def gate_complete_locked_def recompute_lifecycle_def tracker_new_def all_settled_def Let_def)
  have "tracker_step ?t0 ?t1" using tracker_step.locked [OF l1] by (simp add: tracker_new_def)
  moreover have "tracker_step ?t1 ?t2" using tracker_step.locked [OF l2] by simp
  moreover have "tracker_step ?t2 ?t3" by (rule tracker_step.persisted) simp
  moreover have "tracker_step ?t3 ?t4" by (rule tracker_step.persisted) simp
  ultimately have "tracker_step\<^sup>*\<^sup>* ?t0 ?t4" by (meson rtranclp.rtrancl_into_rtrancl rtranclp.rtrancl_refl)
  moreover have "j_meta ?t4 = Some ''syncing''" "j_lifecycle ?t4 = Active" "j_pending ?t4 = []"
    by (simp_all add: persist_def lifecycle_as_str_def)
  ultimately show ?thesis
    by (intro exI [of _ ?t4]) (simp add: restore_def lifecycle_from_str_def tracker_new_def)
qed

end
