(* ===== verification/Session.thy ===== *)
theory Session
  imports Receive Gossip Join
begin

text \<open>
  The two ends of a subscription (\<open>src/net.rs\<close>, frames of \<open>src/proto.rs\<close>).  The responder
  is a state machine: \<open>inbound_io\<close> reads a greeting and a subscription, then pushes its log
  and absorbs acknowledgements in one task, so that a turn of one of the two loops, from an
  await to the next, is a step.  The dialer is a function of what it reads: a list of
  messages or read errors, whose end means that it is still waiting.  Whether a write
  succeeds is an argument.  The wall clock and the answers of the peer on other streams are
  arguments too.  The pause gate delays the push loop and decides nothing.
\<close>

datatype frame =
    Hello u16 node_id "(node_id \<times> i64) list"
  | HelloAck u16 node_id
  | OplogPush op_record
  | OplogAck node_id i64
  | SubscribeOps "(node_id \<times> i64) list"
  | Ping u64
  | Pong u64

type_synonym message = "proto_error + frame"

definition PUSH_BATCH :: nat where "PUSH_BATCH = 64"

definition resume_entry :: "node_id \<Rightarrow> (node_id \<times> i64) list \<Rightarrow> i64" where
  "resume_entry origin resume = (case List.find (\<lambda>(o', _). o' = origin) resume of Some (_, c) \<Rightarrow> c | None \<Rightarrow> 0)"

subsection \<open>The responder\<close>

datatype phase = AwaitHello | AwaitSubscribe | Streaming | Ended "net_error + unit"

record responder =
  rs_phase :: phase
  rs_store :: store
  rs_resume :: i64
  rs_cursor :: i64
  rs_frontier :: i64
  rs_batch :: "op_record list"
  rs_out :: "frame list"

definition responder_new :: "store \<Rightarrow> responder" where
  "responder_new s =
     \<lparr>rs_phase = AwaitHello, rs_store = s, rs_resume = 0, rs_cursor = 0, rs_frontier = 0, rs_batch = [], rs_out = []\<rparr>"

definition finish :: "net_error + unit \<Rightarrow> responder \<Rightarrow> responder" where
  "finish r s = s\<lparr>rs_phase := Ended r\<rparr>"

definition inbound_hello :: "node_id \<Rightarrow> node_id \<Rightarrow> bool \<Rightarrow> message \<Rightarrow> responder \<Rightarrow> responder" where
  "inbound_hello ours peer writes msg s =
     (case msg of
        Inr (Hello v nid _) \<Rightarrow>
          if v \<noteq> PROTO_VERSION then finish (Inl (NVersion (unat v))) s
          else if nid \<noteq> peer then finish (Inl PeerIdentityMismatch) s
          else if \<not> writes then finish (Inl (NProto PIo)) s
          else s\<lparr>rs_phase := AwaitSubscribe, rs_out := rs_out s @ [HelloAck PROTO_VERSION ours]\<rparr>
      | Inr _ \<Rightarrow> finish (Inl (NViolation ''expected Hello'')) s
      | Inl e \<Rightarrow> finish (Inl (NProto e)) s)"

text \<open>The gate: nothing is pushed before \<open>SubscribeOps\<close>, which names where the stream resumes.\<close>

definition inbound_gate :: "node_id \<Rightarrow> message \<Rightarrow> responder \<Rightarrow> responder" where
  "inbound_gate ours msg s =
     (case msg of
        Inr (SubscribeOps resume) \<Rightarrow>
          let resume_from = resume_entry ours resume
          in s\<lparr>rs_phase := Streaming, rs_resume := resume_from, rs_cursor := resume_from, rs_frontier := resume_from\<rparr>
      | Inr (Ping _) \<Rightarrow> s
      | Inr _ \<Rightarrow> finish (Inl (NViolation ''control frame before SubscribeOps'')) s
      | Inl PClosed \<Rightarrow> finish (Inl (NViolation ''closed before SubscribeOps'')) s
      | Inl e \<Rightarrow> finish (Inl (NProto e)) s)"

definition absorb_acks :: "crates \<Rightarrow> node_id \<Rightarrow> node_id \<Rightarrow> message \<Rightarrow> responder \<Rightarrow> responder" where
  "absorb_acks X ours peer msg s =
     (case msg of
        Inr (OplogAck origin up_to_seq) \<Rightarrow>
          if origin \<noteq> ours then finish (Inl (NViolation ''ack for an origin we did not push'')) s
          else if up_to_seq > rs_frontier s then finish (Inl (NViolation ''ack beyond the pushed frontier'')) s
          else s\<lparr>rs_store := store_advance_ack X ours peer up_to_seq (rs_store s)\<rparr>
      | Inr (Ping _) \<Rightarrow> s
      | Inr _ \<Rightarrow> finish (Inl (NViolation ''unexpected frame on ack path'')) s
      | Inl PClosed \<Rightarrow> finish (Inr ()) s
      | Inl e \<Rightarrow> finish (Inl (NProto e)) s)"

text \<open>A turn of the push loop: poll for a batch, or write its next operation and publish the frontier.\<close>

definition push_ops :: "crates \<Rightarrow> node_id \<Rightarrow> bool \<Rightarrow> responder \<Rightarrow> responder" where
  "push_ops X ours writes s =
     (case rs_batch s of
        [] \<Rightarrow> s\<lparr>rs_batch := store_ops_since X ours ours (rs_cursor s) PUSH_BATCH (rs_store s)\<rparr>
      | op # ops \<Rightarrow>
          let s = s\<lparr>rs_cursor := o_origin_seq op\<rparr>
          in if writes
             then s\<lparr>rs_out := rs_out s @ [OplogPush op], rs_frontier := rs_cursor s, rs_batch := ops\<rparr>
             else finish (Inl (NProto PIo)) s)"

definition inbound_message :: "crates \<Rightarrow> node_id \<Rightarrow> node_id \<Rightarrow> bool \<Rightarrow> message \<Rightarrow> responder \<Rightarrow> responder" where
  "inbound_message X ours peer writes msg s =
     (case rs_phase s of
        AwaitHello \<Rightarrow> inbound_hello ours peer writes msg s
      | AwaitSubscribe \<Rightarrow> inbound_gate ours msg s
      | Streaming \<Rightarrow> absorb_acks X ours peer msg s
      | Ended _ \<Rightarrow> s)"

text \<open>The connection as it runs: messages, turns of the push loop, its loss, and commands of other tasks to the store.\<close>

inductive inbound_step :: "crates \<Rightarrow> node_id \<Rightarrow> node_id \<Rightarrow> responder \<Rightarrow> responder \<Rightarrow> bool"
  for X ours peer where
  message: "inbound_step X ours peer s (inbound_message X ours peer writes msg s)"
| push: "rs_phase s = Streaming \<Longrightarrow> inbound_step X ours peer s (push_ops X ours writes s)"
| lost: "inbound_step X ours peer s (finish (Inl NConnection) s)"
| other: "cmd_ok X ours cmd (s_db (rs_store s)) \<Longrightarrow>
    inbound_step X ours peer s (s\<lparr>rs_store := fst (store_step X ours cmd (rs_store s))\<rparr>)"

inductive inbound_run :: "crates \<Rightarrow> node_id \<Rightarrow> node_id \<Rightarrow> responder \<Rightarrow> responder \<Rightarrow> bool"
  for X ours peer where
  start: "inbound_run X ours peer s s"
| step: "inbound_run X ours peer s t \<Longrightarrow> inbound_step X ours peer t u \<Longrightarrow> inbound_run X ours peer s u"

subsection \<open>Registering a connection\<close>

definition register_authenticated :: "node_id \<Rightarrow> conn \<Rightarrow> membership \<Rightarrow> conn_registry \<Rightarrow> conn_registry \<times> (net_error + unit)" where
  "register_authenticated peer_id c m r =
     (let r = conn_insert peer_id c r
      in if \<not> (\<exists>p \<in> set (effective_peers id m). pe_node_id p = peer_id)
         then (remove_if_same peer_id c r, Inl UnknownPeer)
         else (r, Inr ()))"

subsection \<open>The dialer\<close>

record dialer =
  dl_node :: node
  dl_reg :: peer_registry
  dl_join :: tracker
  dl_members :: membership
  dl_conns :: conn_registry
  dl_attempt :: u32
  dl_out :: "frame list"

record dial_env =
  de_engine :: engine
  de_fuel :: nat
  de_codec :: codec
  de_save_io :: "nat \<Rightarrow> save_fault option"
  de_now :: "nat \<Rightarrow> i64"
  de_session :: "nat \<Rightarrow> rpc"
  de_gossip :: "gossip_frame \<Rightarrow> gossip_frame option"
  de_writes :: "nat \<Rightarrow> bool"

definition dial_node :: "(node \<Rightarrow> node \<times> (net_error + 'a)) \<Rightarrow> dialer \<Rightarrow> dialer \<times> (net_error + 'a)" where
  "dial_node f s = (let (n, r) = f (dl_node s) in (s\<lparr>dl_node := n\<rparr>, r))"

definition write_frame :: "dial_env \<Rightarrow> frame \<Rightarrow> dialer \<Rightarrow> dialer \<times> (net_error + unit)" where
  "write_frame V f s =
     (if de_writes V (length (dl_out s)) then (s\<lparr>dl_out := dl_out s @ [f]\<rparr>, Inr ()) else (s, Inl (NProto PIo)))"

definition check_hello_ack :: "node_id \<Rightarrow> message \<Rightarrow> net_error + unit" where
  "check_hello_ack peer msg =
     (case msg of
        Inr (HelloAck v nid) \<Rightarrow>
          if v \<noteq> PROTO_VERSION then Inl (NVersion (unat v))
          else if nid \<noteq> peer then Inl PeerIdentityMismatch else Inr ()
      | Inr _ \<Rightarrow> Inl (NViolation ''expected HelloAck'')
      | Inl e \<Rightarrow> Inl (NProto e))"

definition note_state :: "node_id \<Rightarrow> peer_state \<Rightarrow> dialer \<Rightarrow> dialer" where
  "note_state peer st s = s\<lparr>dl_reg := set_state peer st (dl_reg s)\<rparr>"

definition note_pass :: "dial_env \<Rightarrow> node_id \<Rightarrow> bool \<Rightarrow> dialer \<Rightarrow> dialer" where
  "note_pass V peer ok s = s\<lparr>dl_reg := note_reconcile (de_now V (nd_time (dl_node s))) peer ok (dl_reg s)\<rparr>"

definition gossip_once :: "dial_env \<Rightarrow> dialer \<Rightarrow> dialer" where
  "gossip_once V s =
     (case gossip_open (e_crates (de_engine V)) (dl_members s) of
        None \<Rightarrow> s
      | Some f \<Rightarrow>
          (case de_gossip V f of
             None \<Rightarrow> s
           | Some g \<Rightarrow>
               s\<lparr>dl_members := fst (gossip_answer (e_crates (de_engine V)) (de_codec V) (de_save_io V) g (dl_members s))\<rparr>))"

text \<open>The op stream: every operation is handled, then acknowledged.\<close>

fun op_stream :: "dial_env \<Rightarrow> node_id \<Rightarrow> message list \<Rightarrow> dialer \<Rightarrow> dialer \<times> (net_error + unit) option" where
  "op_stream V peer [] s = (s, None)"
| "op_stream V peer (msg # msgs) s =
     (case msg of
        Inr (OplogPush op) \<Rightarrow>
          if o_origin op \<noteq> peer then (s, Some (Inl (NViolation ''op origin is not the pushing peer'')))
          else (case dial_node (process_remote_op (de_engine V) op) s of
                  (s, Inl e) \<Rightarrow> (s, Some (Inl e))
                | (s, Inr _) \<Rightarrow>
                    (case write_frame V (OplogAck peer (o_origin_seq op)) s of
                       (s, Inl e) \<Rightarrow> (s, Some (Inl e))
                     | (s, Inr _) \<Rightarrow> op_stream V peer msgs s))
      | Inr (Ping nonce) \<Rightarrow>
          (case write_frame V (Pong nonce) s of
             (s, Inl e) \<Rightarrow> (s, Some (Inl e))
           | (s, Inr _) \<Rightarrow> op_stream V peer msgs s)
      | Inr _ \<Rightarrow> (s, Some (Inl (NViolation ''unexpected frame on op stream'')))
      | Inl PClosed \<Rightarrow> (s, Some (Inr ()))
      | Inl e \<Rightarrow> (s, Some (Inl (NProto e))))"

text \<open>The gating anti-entropy pass; no value stands for a pass that does not end.\<close>

definition reconcile_gate ::
  "dial_env \<Rightarrow> node_id \<Rightarrow> dialer \<Rightarrow> (dialer \<times> (net_error + (node_id \<times> i64) list)) option" where
  "reconcile_gate V peer s =
     (let s = note_state peer Reconciling s
      in case reconcile_with (de_fuel V) (de_engine V) peer (de_session V) (dl_node s) of
           None \<Rightarrow> None
         | Some (n, Inl e) \<Rightarrow> Some (note_pass V peer False (s\<lparr>dl_node := n\<rparr>), Inl (NReconcile e))
         | Some (n, Inr (_, frontier)) \<Rightarrow> Some (note_pass V peer True (s\<lparr>dl_node := n\<rparr>), Inr frontier))"

text \<open>The handoff: the cursor is advanced to the peer's frontier and the subscription resumes there.\<close>

definition handoff :: "dial_env \<Rightarrow> node_id \<Rightarrow> i64 \<Rightarrow> (node_id \<times> i64) list \<Rightarrow> dialer \<Rightarrow> dialer \<times> (net_error + unit)" where
  "handoff V peer resume_from frontier s =
     (let E = de_engine V; new_cursor = max (resume_entry peer frontier) resume_from;
          s = (if new_cursor > resume_from
               then fst (dial_node (\<lambda>n. (fst (on_store E (\<lambda>st. (store_advance_recv_cursor (e_crates E) (e_node E) peer peer new_cursor st, ())) n), Inr ())) s)
               else s)
      in and_then (write_frame V (SubscribeOps [(peer, new_cursor)]) s) (\<lambda>_ s.
           (gossip_once V ((note_state peer Live s)\<lparr>dl_join := note_gate_complete peer (dl_join s)\<rparr>), Inr ())))"

definition subscription_io :: "dial_env \<Rightarrow> node_id \<Rightarrow> message list \<Rightarrow> dialer \<Rightarrow> dialer \<times> (net_error + unit) option" where
  "subscription_io V peer msgs s =
     (let E = de_engine V; n = await E (dl_node s); s = s\<lparr>dl_node := n\<rparr>;
          resume_from = store_recv_cursor (e_crates E) (e_node E) peer (nd_store n)
      in case write_frame V (Hello PROTO_VERSION (e_node E) [(peer, resume_from)]) s of
           (s, Inl e) \<Rightarrow> (s, Some (Inl e))
         | (s, Inr _) \<Rightarrow>
             (case msgs of
                [] \<Rightarrow> (s, None)
              | msg # msgs \<Rightarrow>
                  (case check_hello_ack peer msg of
                     Inl e \<Rightarrow> (s, Some (Inl e))
                   | Inr _ \<Rightarrow>
                       (case reconcile_gate V peer (s\<lparr>dl_attempt := 0\<rparr>) of
                          None \<Rightarrow> (s\<lparr>dl_attempt := 0\<rparr>, None)
                        | Some (s, Inl e) \<Rightarrow> (s, Some (Inl e))
                        | Some (s, Inr frontier) \<Rightarrow>
                            (case handoff V peer resume_from frontier s of
                               (s, Inl e) \<Rightarrow> (s, Some (Inl e))
                             | (s, Inr _) \<Rightarrow> op_stream V peer msgs s)))))"

text \<open>
  One session: connecting gives an error or the fingerprint of the certificate at the other
  end.  A session that has not ended has not unregistered its connection.
\<close>

definition subscribe_once ::
  "dial_env \<Rightarrow> net_error + bytes \<Rightarrow> conn \<Rightarrow> peer \<Rightarrow> message list \<Rightarrow> dialer \<Rightarrow> dialer \<times> (net_error + unit) option" where
  "subscribe_once V connect c peer msgs s =
     (case connect of
        Inl e \<Rightarrow> (s, Some (Inl e))
      | Inr fp \<Rightarrow>
          if fp \<noteq> pe_fingerprint peer then (s, Some (Inl PeerIdentityMismatch))
          else (case register_authenticated (pe_node_id peer) c (dl_members s) (dl_conns s) of
                  (r, Inl e) \<Rightarrow> (s\<lparr>dl_conns := r\<rparr>, Some (Inl e))
                | (r, Inr _) \<Rightarrow>
                    (case subscription_io V (pe_node_id peer) msgs (s\<lparr>dl_conns := r\<rparr>) of
                       (s, None) \<Rightarrow> (s, None)
                     | (s, Some res) \<Rightarrow>
                         (note_state (pe_node_id peer) Disconnected (s\<lparr>dl_conns := remove_if_same (pe_node_id peer) c (dl_conns s)\<rparr>),
                          Some res))))"

text \<open>One round of the dial loop, up to the pause before the next.\<close>

definition saturating_add_one :: "u32 \<Rightarrow> u32" where
  "saturating_add_one a = (if a = - 1 then a else a + 1)"

definition dial_round :: "dial_env \<Rightarrow> net_error + bytes \<Rightarrow> conn \<Rightarrow> peer \<Rightarrow> message list \<Rightarrow> dialer \<Rightarrow> dialer" where
  "dial_round V connect c peer msgs s =
     (case subscribe_once V connect c peer msgs (note_state (pe_node_id peer) Dialing s) of
        (s, None) \<Rightarrow> s
      | (s, Some res) \<Rightarrow>
          let s = (case res of Inr _ \<Rightarrow> s | Inl _ \<Rightarrow> s\<lparr>dl_join := note_unreachable (pe_node_id peer) (dl_join s)\<rparr>);
              s = note_state (pe_node_id peer) Backoff s
          in s\<lparr>dl_attempt := saturating_add_one (dl_attempt s)\<rparr>)"

end
