(* ===== verification/Receive_Laws.thy ===== *)
theory Receive_Laws
  imports Receive Pull_Laws
begin

text \<open>
  What the receive path guarantees: the store keeps its invariant, an acknowledged
  operation is recorded, a failure that cannot be cured by retrying never surfaces.
\<close>

subsection \<open>Every step keeps the store\<close>

lemma stage_planned_content_evolves: "evolves E n (fst (stage_planned_content E row origin h n))"
  unfolding stage_planned_content_def
  by (auto intro!: and_then_evolves obtain_manifest_evolves fetch_file_chunks_evolves split: option.splits)

lemma stage_op_row_evolves: "evolves E n (fst (stage_planned_op_row E origin row n))"
  unfolding stage_planned_op_row_def
  by (auto intro!: and_then_evolves stage_planned_content_evolves split: option.splits)

lemma stage_op_plan_evolves: "evolves E n (fst (stage_op_plan E origin rows ps n))"
proof (induction rows arbitrary: ps n)
  case (Cons row rows)
  obtain n1 r where one: "stage_planned_op_row E origin row n = (n1, r)" by fastforce
  have "evolves E n n1" using stage_op_row_evolves [of E n origin row] one by simp
  with Cons one evolves_trans show ?case by (auto split: sum.splits bool.splits)
qed simp

lemma resolve_at_evolves: "vv_ok (v_vv rv) \<Longrightarrow> evolves E n (fst (resolve_at_rounds k E p rv origin staged ps n))"
proof (induction k arbitrary: staged ps n)
  case (Suc k)
  let ?r = "err_from NStore (on_store E (store_resolve_rows (e_crates E) (e_node E) p rv staged) n)"
  have 1: "evolves E n (fst ?r)" using Suc.prems by (simp add: resolve_rows_evolves)
  have 2: "evolves E m (fst (case stage_op_plan E origin plan ps m of
        (n, staged_paths, None) \<Rightarrow> resolve_at_rounds k E p rv origin plan staged_paths n
      | (n, staged_paths, Some e) \<Rightarrow> (restore_paths E staged_paths n, if is_permanent e then Inr () else Inl e)))" for plan m
  proof -
    obtain m1 ps' e where s: "stage_op_plan E origin plan ps m = (m1, ps', e)" by (metis prod_cases3)
    have "evolves E m m1" using stage_op_plan_evolves [of E m origin plan ps] s by simp
    with Suc s evolves_trans show ?thesis by (auto split: option.splits)
  qed
  from 1 show ?case by (auto intro!: and_then_evolves 2 split: resolve_outcome.splits)
qed simp

lemma resolve_concurrent_evolves:
  "vv_ok (v_vv rv) \<Longrightarrow> evolves E n (fst (resolve_concurrent_at E p rv origin n))"
  "vv_ok (o_vv op) \<Longrightarrow> evolves E n (fst (resolve_concurrent_op E op n))"
  by (simp_all add: resolve_concurrent_op_def resolve_concurrent_at_def resolve_at_evolves op_version_def)

lemma bounded_fetch_evolves: "evolves E n (fst (bounded_fetch E op h n))"
  unfolding bounded_fetch_def fetch_and_assemble_def
  by (auto intro!: and_then_evolves obtain_manifest_evolves fetch_file_chunks_evolves)

lemma materialize_evolves: "evolves E n (fst (materialize E op loc n))"
proof -
  have t: "evolves E m (fst (materialize_target E op old h dom m))" for m old h dom
    unfolding materialize_target_def by (auto intro!: and_then_evolves bounded_fetch_evolves)
  have "evolves E n (fst (materialize_rename E op loc n))"
    unfolding materialize_rename_def Let_def by (auto intro!: and_then_evolves t split: option.splits)
  moreover have "evolves E n (fst (materialize_write E op loc n))"
    unfolding materialize_write_def by (auto intro!: bounded_fetch_evolves split: option.splits)
  ultimately show ?thesis by (auto simp: materialize_def split: op_type.splits)
qed

lemma carry_out_evolves: "evolves E n (fst (carry_out E op loc dec n))"
  using materialize_evolves [of E n op loc] by (auto simp: carry_out_def split: prod.splits sum.splits)

lemma apply_remote_evolves:
  "vv_ok (o_vv op) \<Longrightarrow> o_origin op \<noteq> e_node E \<Longrightarrow>
   evolves E n (fst (on_store E (store_apply_remote (e_crates E) (e_node E) op dec) n))"
  by (rule on_store_evolves [where cmd = "ApplyRemote op dec"]) (simp_all add: handle_turns)

lemma repair_evolves: "vv_ok (o_vv op) \<Longrightarrow> evolves E n (fst (repair_stale_apply E op dec eff n))"
  by (auto simp: repair_stale_apply_def Let_def intro: evolves_trans [OF restore_evolves resolve_concurrent_evolves(2)])

lemma settle_source_evolves: "vv_ok (o_vv op) \<Longrightarrow> evolves E n (fst (settle_rename_source E op dec n))"
  unfolding settle_rename_source_def
  by (auto intro!: and_then_evolves evolves_trans [OF restore_evolves resolve_concurrent_evolves(1)]
      simp: rename_source_version_def split: op_type.splits option.splits decision.splits)

lemma process_evolves:
  assumes "vv_ok (o_vv op)" "o_origin op \<noteq> e_node E"
  shows "evolves E n (fst (process_remote_op E op n))"
  unfolding process_remote_op_def
  by (auto intro!: and_then_evolves carry_out_evolves resolve_concurrent_evolves apply_remote_evolves repair_evolves
      settle_source_evolves assms)

subsection \<open>Recorded before it is acknowledged\<close>

lemma evolves_store_ok: "evolves E n n' \<Longrightarrow> store_ok (e_node E) (nd_store n) \<Longrightarrow> store_ok (e_node E) (nd_store n')"
  by (simp add: evolves_def)

lemma evolves_applied:
  "evolves E n n' \<Longrightarrow> store_ok (e_node E) (nd_store n) \<Longrightarrow> has_applied (nd_db n) i \<Longrightarrow> has_applied (nd_db n') i"
  by (auto simp: evolves_def log_grows_def has_applied_def)

lemma apply_remote_recorded: "apply_remote op dec d = (d', Inr eff) \<Longrightarrow> has_applied d' (o_op_id op)"
  by (auto simp: apply_remote_cases has_applied_def split: if_splits)

lemma commit_recorded:
  assumes "snd (on_store E (store_apply_remote X node op dec) n) = Inr eff"
  shows "has_applied (nd_db (fst (on_store E (store_apply_remote X node op dec) n))) (o_op_id op)"
proof -
  obtain d' r where a: "apply_remote op dec (nd_db (await E n)) = (d', r)" by fastforce
  with assms apply_remote_recorded [of op dec "nd_db (await E n)" d'] show ?thesis
    by (auto simp: on_store_def store_writes Let_def)
qed

text \<open>What follows the decision, up to the acknowledgement.\<close>

definition process_decided :: "engine \<Rightarrow> op_record \<Rightarrow> decision \<Rightarrow> node \<Rightarrow> node \<times> (net_error + unit)" where
  "process_decided E op dec n =
     and_then (if dec = DConcurrent then resolve_concurrent_op E op n else (n, Inr ())) (\<lambda>_ n.
     and_then (err_from NStore (on_store E (store_apply_remote (e_crates E) (e_node E) op dec) n)) (\<lambda>effective n.
     and_then (repair_stale_apply E op dec effective n) (\<lambda>_ n.
       settle_rename_source E op dec n)))"

lemma process_unfold:
  "process_remote_op E op n =
     and_then (ask_store E (store_has_applied (e_crates E) (e_node E) (o_op_id op)) n) (\<lambda>applied n.
     if applied then (n, Inr ())
     else and_then (ask_store E (store_load_file (e_crates E) (e_node E) (o_path op)) n) (\<lambda>loc n.
          and_then (carry_out E op loc (decide loc (o_vv op)) n) (\<lambda>dec n. process_decided E op dec n)))"
  unfolding process_remote_op_def process_decided_def ..

lemma decided_recorded:
  assumes "vv_ok (o_vv op)" "o_origin op \<noteq> e_node E" "store_ok (e_node E) (nd_store n)"
    and "snd (process_decided E op dec n) = Inr ()"
  shows "has_applied (nd_db (fst (process_decided E op dec n))) (o_op_id op)"
proof -
  let ?r1 = "if dec = DConcurrent then resolve_concurrent_op E op n else (n, Inr ())"
  let ?r2 = "err_from NStore (on_store E (store_apply_remote (e_crates E) (e_node E) op dec) (fst ?r1))"
  have 1: "evolves E n (fst ?r1)" using assms(1) by (simp add: resolve_concurrent_evolves)
  have 2: "evolves E (fst ?r1) (fst ?r2)" using assms(1,2) by (simp add: apply_remote_evolves)
  from assms(4) obtain u where u: "snd ?r1 = Inr u" by (auto simp: process_decided_def and_then_Inr)
  let ?k = "\<lambda>effective n. and_then (repair_stale_apply E op dec effective n) (\<lambda>_ n. settle_rename_source E op dec n)"
  have run: "process_decided E op dec n = and_then ?r2 ?k"
    using u by (cases ?r1) (simp add: process_decided_def and_then_def)
  from assms(4) obtain eff where eff: "snd ?r2 = Inr eff" by (auto simp: run and_then_Inr)
  have 3: "evolves E (fst ?r2) (fst (and_then ?r2 ?k))"
    unfolding and_then_Inr(2) [OF eff] by (intro and_then_evolves repair_evolves settle_source_evolves assms(1))
  have "has_applied (nd_db (fst ?r2)) (o_op_id op)" using commit_recorded eff by simp
  with evolves_applied [OF 3 evolves_store_ok [OF evolves_trans [OF 1 2] assms(3)]] run show ?thesis by simp
qed

lemma process_recorded:
  assumes "vv_ok (o_vv op)" "o_origin op \<noteq> e_node E" "store_ok (e_node E) (nd_store n)"
    and "snd (process_remote_op E op n) = Inr ()"
  shows "has_applied (nd_db (fst (process_remote_op E op n))) (o_op_id op)"
proof (cases "has_applied (nd_db (await E n)) (o_op_id op)")
  case True
  then show ?thesis by (simp add: process_unfold ask_store_run)
next
  case False
  let ?m = "await E (await E n)" and ?loc = "load_file (nd_db (await E (await E n))) (o_path op)"
  let ?c = "carry_out E op ?loc (decide ?loc (o_vv op)) ?m"
  have run: "process_remote_op E op n = and_then ?c (\<lambda>dec n. process_decided E op dec n)"
    using False by (simp add: process_unfold ask_store_run)
  with assms(4) obtain dec where dec: "snd ?c = Inr dec" "snd (process_decided E op dec (fst ?c)) = Inr ()"
    by (auto simp: and_then_Inr)
  have "evolves E n (fst ?c)"
    by (rule evolves_trans [OF evolves_trans [OF await_evolves await_evolves] carry_out_evolves])
  from decided_recorded [OF assms(1,2) evolves_store_ok [OF this assms(3)] dec(2)] show ?thesis
    unfolding run and_then_Inr(2) [OF dec(1)] .
qed

subsection \<open>Failures that retrying cannot cure\<close>

lemma resolve_at_transient: "snd (resolve_at_rounds k E p rv origin staged ps n) = Inl e \<Longrightarrow> \<not> is_permanent e"
proof (induction k arbitrary: staged ps n)
  case (Suc k)
  let ?r = "err_from NStore (on_store E (store_resolve_rows (e_crates E) (e_node E) p rv staged) n)"
  show ?case
  proof (cases "snd ?r")
    case (Inl x)
    then have "\<exists>y. e = NStore y" using Suc.prems by (cases ?r) (auto simp: and_then_def err_from_def split: sum.splits)
    then show ?thesis by (auto simp: is_permanent_def)
  next
    case (Inr outcome)
    have "resolve_at_rounds (Suc k) E p rv origin staged ps n = (\<lambda>outcome n. case outcome of
         Resolved \<Rightarrow> (n, Inr ())
       | NotConcurrent _ \<Rightarrow> (restore_paths E ps n, Inr ())
       | Unresolvable \<Rightarrow> (restore_paths E ps n, Inr ())
       | Stale plan \<Rightarrow>
           (case stage_op_plan E origin plan ps n of
              (n, staged_paths, None) \<Rightarrow> resolve_at_rounds k E p rv origin plan staged_paths n
            | (n, staged_paths, Some e) \<Rightarrow> (restore_paths E staged_paths n, if is_permanent e then Inr () else Inl e)))
        outcome (fst ?r)"
      by (simp only: resolve_at_rounds.simps and_then_run [OF Inr])
    with Suc show ?thesis
      by (auto split: resolve_outcome.splits prod.splits option.splits if_splits)
  qed
qed simp

lemma resolve_op_transient:
  "snd (resolve_concurrent_at E p rv origin n) = Inl e \<Longrightarrow> \<not> is_permanent e"
  "snd (resolve_concurrent_op E op n) = Inl e \<Longrightarrow> \<not> is_permanent e"
  using resolve_at_transient by (auto simp: resolve_concurrent_op_def resolve_concurrent_at_def)

lemma and_then_Inl: "snd (and_then r k) = Inl e \<longleftrightarrow> snd r = Inl e \<or> (\<exists>x. snd r = Inr x \<and> snd (k x (fst r)) = Inl e)"
  by (cases r; cases "snd r") (auto simp: and_then_def)

lemma carry_out_transient: "snd (carry_out E op loc dec n) = Inl e \<Longrightarrow> \<not> is_permanent e"
  by (auto simp: carry_out_def split: if_splits prod.splits sum.splits)

lemma decided_transient: "snd (process_decided E op dec n) = Inl e \<Longrightarrow> \<not> is_permanent e"
  unfolding process_decided_def repair_stale_apply_def settle_rename_source_def Let_def
  by (auto simp: and_then_Inl ask_store_run split: if_splits op_type.splits option.splits decision.splits
      dest: resolve_op_transient) (auto simp: is_permanent_def)

lemma process_transient: "snd (process_remote_op E op n) = Inl e \<Longrightarrow> \<not> is_permanent e"
  by (auto simp: process_unfold ask_store_run and_then_Inl dest: carry_out_transient decided_transient split: if_splits)

subsection \<open>Runs without interference\<close>

lemma quiet_await: "e_env E = (\<lambda>_. []) \<Longrightarrow> await E n = n\<lparr>nd_time := nd_time n + 1\<rparr>"
  by (simp add: await_def)

lemma quiet_commit:
  assumes "e_env E = (\<lambda>_. [])" "apply_remote op dec (nd_db n) = (d', Inr eff)"
  shows "on_store E (store_apply_remote (e_crates E) (e_node E) op dec) n =
    (n\<lparr>nd_time := nd_time n + 1, nd_store := (nd_store n)\<lparr>s_db := d'\<rparr>\<rparr>, Inr eff)"
  using assms by (simp add: on_store_def quiet_await store_writes Let_def)

lemma quiet_process:
  assumes "e_env E = (\<lambda>_. [])" "\<not> has_applied (nd_db n) (o_op_id op)"
  shows "process_remote_op E op n =
    and_then (carry_out E op (load_file (nd_db n) (o_path op)) (decide (load_file (nd_db n) (o_path op)) (o_vv op))
        (n\<lparr>nd_time := nd_time n + 2\<rparr>)) (\<lambda>dec n. process_decided E op dec n)"
  using assms by (simp add: process_unfold ask_store_run quiet_await)

lemma apply_rename_False: "apply_rename c old new mode h mo w = (w', Inr False) \<Longrightarrow> w_fs w' = w_fs w"
proof -
  have v: "w_fs (fst (verify_on_disk X p h rel w)) = w_fs w" for X p rel
    using verify_only [of "{}" w X p h rel] by (auto simp: only_at_def)
  assume run: "apply_rename c old new mode h mo w = (w', Inr False)"
  then obtain src dest where paths: "safe_dest (ax_root c) old = Inr src" "safe_dest (ax_root c) new = Inr dest"
    by (auto simp: apply_rename_def split: sum.splits)
  obtain w1 r where vr: "verify_on_disk (ax_crates c) src h old w = (w1, r)" by fastforce
  have "w_fs w1 = w_fs w" using v [of "ax_crates c" src old] vr by simp
  moreover have "w' = w1"
  proof (cases r)
    case (Inr u)
    have "snd (apply_rename c old new mode h mo w) \<noteq> Inr False"
      by (simp add: apply_rename_def paths vr Inr Let_def and_then_Inr)
    with run show ?thesis by simp
  qed (use run paths vr in \<open>simp add: apply_rename_def\<close>)
  ultimately show ?thesis by simp
qed

lemma quarantine_rename_rows:
  assumes "o_op_type op = Rename" "o_path_old op = Some old" "o_path op \<noteq> old" "\<not> has_applied d (o_op_id op)"
    and "decide (load_file d old) (o_vv op) = Apply"
  shows "\<exists>d' r. apply_remote op Quarantined d = (d', Inr Quarantined) \<and> load_row d' old = Some r \<and> r_tombstone r
    \<and> load_row d' (o_path op) = load_row d (o_path op)"
  using assms
  by (simp add: apply_remote_cases remote_files_def apply_target_def apply_source_def Let_def load_file_def load_row_upsert
      load_row_def [symmetric])

lemma decided_quarantined:
  assumes "e_env E = (\<lambda>_. [])" "apply_remote op Quarantined (nd_db n) = (d', Inr Quarantined)"
  shows "snd (process_decided E op Quarantined n) = Inr () \<and> nd_db (fst (process_decided E op Quarantined n)) = d'
    \<and> nd_world (fst (process_decided E op Quarantined n)) = nd_world n"
  by (simp add: process_decided_def quiet_commit [OF assms] and_then_def err_from_def repair_stale_apply_def settle_rename_source_def
      split: op_type.splits option.splits)

lemma materialize_rename_too_big:
  assumes "e_env E = (\<lambda>_. [])" "o_op_type op = Rename" "o_path_old op = Some old" "o_content_hash op = Some h"
    and "op_kind (o_meta op) = Regular" "\<not> have_content loc h" "e_max_file_bytes E < o_size op"
    and "decide (load_file (nd_db n) old) (o_vv op) = Apply"
    and "apply_rename (e_apply E) old (o_path op) (o_mode op) h (o_meta op) (nd_world n) = (w', Inr False)"
  shows "materialize E op loc n = (n\<lparr>nd_time := nd_time n + 1, nd_world := w'\<rparr>, Inl TooBig)"
  using assms
  by (simp add: materialize_def materialize_rename_def ask_store_def quiet_await materialize_target_def on_disk_def err_from_def
      bounded_fetch_def and_then_def Let_def)

subsection \<open>Properties\<close>


lemma idle_ok: "store_ok [1] (nd_store idle_node)" "cas_ok X (nd_cas idle_node)"
  using empty_store_ok [of "[1]"] by (simp_all add: idle_node_def example_world_def cas_ok_def)

definition pushed_delete :: op_record where
  "pushed_delete = \<lparr>o_op_id = [5], o_origin = [2], o_origin_seq = 1, o_op_type = Delete, o_path = ''f'', o_path_old = None,
     o_uuid = None, o_mode = 0, o_size = 0, o_content_hash = None, o_meta = None, o_vv = [([2], 1)]\<rparr>"

lemma serving_quiet: "e_env serving_engine = (\<lambda>_. [])" "e_node serving_engine = [1]" "e_apply serving_engine = example_ctx"
  "e_max_file_bytes serving_engine = 100"
  by (simp_all add: serving_engine_def)

lemma pushed_delete_runs: "snd (process_remote_op serving_engine pushed_delete idle_node) = Inr ()"
proof -
  let ?n = "idle_node\<lparr>nd_time := 2\<rparr>"
  have load: "load_file (nd_db idle_node) ''f'' = None" "has_applied (nd_db idle_node) [5] = False"
    by (simp_all add: idle_node_def empty_db_def load_file_def has_applied_def)
  have del: "snd (apply_delete example_ctx ''f'' (nd_world idle_node)) = Inr ()"
    unfolding apply_delete_def example_dest
    by (simp add: idle_node_def example_world_def sys_remove_file_def syscall_def next_verdict_def suppress_delete_def path_error_def
        parents_def is_dir_def)
  have c: "snd (carry_out serving_engine pushed_delete None Apply ?n) = Inr Apply"
    using del by (auto simp: carry_out_def materialize_def pushed_delete_def on_disk_def err_from_def serving_quiet idle_node_def
        Let_def split: prod.splits sum.splits)
  have db: "nd_db (fst (carry_out serving_engine pushed_delete None Apply ?n)) = empty_db"
    by (auto simp: carry_out_def materialize_def pushed_delete_def on_disk_def err_from_def idle_node_def Let_def
        split: prod.splits sum.splits)
  let ?m = "fst (carry_out serving_engine pushed_delete None Apply ?n)"
  have "\<exists>d'. apply_remote pushed_delete Apply (nd_db ?m) = (d', Inr Apply)"
    by (simp add: db apply_remote_cases apply_target_def) (simp add: pushed_delete_def empty_db_def has_applied_def load_file_def)
  then obtain d' where "apply_remote pushed_delete Apply (nd_db ?m) = (d', Inr Apply)" ..
  note com = quiet_commit [OF serving_quiet(1) this]
  have dec: "snd (process_decided serving_engine pushed_delete Apply ?m) = Inr ()"
    by (simp add: process_decided_def com and_then_def err_from_def repair_stale_apply_def settle_rename_source_def)
      (simp add: pushed_delete_def)
  have "process_remote_op serving_engine pushed_delete idle_node =
      and_then (carry_out serving_engine pushed_delete None Apply ?n) (\<lambda>dec n. process_decided serving_engine pushed_delete dec n)"
    using quiet_process [OF serving_quiet(1), of idle_node pushed_delete] load
    by (simp add: pushed_delete_def idle_node_def numeral_2_eq_2)
  with dec show ?thesis by (simp only: and_then_run [OF c])
qed


text \<open>
  A quarantined rename is half applied.  When the content of a rename's target cannot
  be had (here: it exceeds the file-size cap and the source on disk holds other bytes), the
  operation is recorded as handled without effect on the target, and no file is touched;
  but the same transaction marks the source as deleted, so the index says the source is
  gone while its file is still there.
\<close>

theorem quarantined_rename_tombstones_source:
  assumes "e_env E = (\<lambda>_. [])" "\<not> has_applied (nd_db n) (o_op_id op)"
    and "o_op_type op = Rename" "o_path_old op = Some old" "o_path op \<noteq> old" "o_content_hash op = Some h"
    and "op_kind (o_meta op) = Regular" "e_max_file_bytes E < o_size op"
    and "decide (load_file (nd_db n) (o_path op)) (o_vv op) = Apply" "\<not> have_content (load_file (nd_db n) (o_path op)) h"
    and "decide (load_file (nd_db n) old) (o_vv op) = Apply"
    and "apply_rename (e_apply E) old (o_path op) (o_mode op) h (o_meta op) (nd_world n) = (w', Inr False)"
  shows "\<exists>n' r. process_remote_op E op n = (n', Inr ())
    \<and> load_row (nd_db n') old = Some r \<and> r_tombstone r
    \<and> load_row (nd_db n') (o_path op) = load_row (nd_db n) (o_path op)
    \<and> w_fs (nd_world n') = w_fs (nd_world n)"
proof -
  let ?n2 = "n\<lparr>nd_time := nd_time n + 2\<rparr>"
  let ?n3 = "n\<lparr>nd_time := nd_time n + 3, nd_world := w'\<rparr>"
  have "materialize E op (load_file (nd_db n) (o_path op)) ?n2 = (?n3, Inl TooBig)"
    using materialize_rename_too_big [OF assms(1,3,4,6,7,10,8), of ?n2 w'] assms(11,12) by (simp add: eval_nat_numeral)
  then have c: "carry_out E op (load_file (nd_db n) (o_path op)) Apply ?n2 = (?n3, Inr Quarantined)"
    by (simp add: carry_out_def is_permanent_def)
  obtain d' r where q: "apply_remote op Quarantined (nd_db n) = (d', Inr Quarantined)" "load_row d' old = Some r" "r_tombstone r"
    "load_row d' (o_path op) = load_row (nd_db n) (o_path op)"
    using quarantine_rename_rows [OF assms(3,4,5,2,11)] by blast
  have "process_remote_op E op n = process_decided E op Quarantined ?n3"
    by (simp only: quiet_process [OF assms(1,2)] assms(9) c) (simp add: and_then_def)
  with decided_quarantined [OF assms(1), of op ?n3 d'] q apply_rename_False [OF assms(12)]
  show ?thesis by (intro exI [of _ "fst (process_remote_op E op n)"]) (auto simp: prod_eq_iff)
qed

text \<open>A node whose file \<open>f\<close> has been changed on disk, and the rename of a version of it that is too big here.\<close>

definition stale_source :: node where
  "stale_source = idle_node\<lparr>
     nd_store := \<lparr>s_db = upsert_file ''f'' (Some [7]) 0 1 [([2], 1)] False None None empty_db, s_latest = 0\<rparr>,
     nd_world := set_fs ((w_fs (example_world []))([''r'', ''f''] \<mapsto> \<lparr>n_body = BFile [1] True, n_attr = example_attr\<rparr>)) (example_world [])\<rparr>"

definition big_rename :: op_record where
  "big_rename = pushed_delete\<lparr>o_op_type := Rename, o_path := ''g'', o_path_old := Some ''f'', o_size := 200,
     o_content_hash := Some [9], o_vv := [([2], 2)]\<rparr>"

lemma example_dest_g: "safe_dest (ax_root example_ctx) ''g'' = Inr [''r'', ''g'']"
  by (simp add: safe_dest_eq unsafe_rel_def dest_names_def example_ctx_def)

lemma stale_source_not_moved:
  "\<exists>w'. apply_rename example_ctx ''f'' ''g'' 0 [9] None (nd_world stale_source) = (w', Inr False)"
  unfolding apply_rename_def example_dest example_dest_g
  by (simp add: stale_source_def example_world_def set_fs_def verify_on_disk_def sys_open_def sys_read_def next_verdict_def path_error_def
      parents_def is_dir_def and_then_def with_ctx_def example_ctx_def plain_crates_def)

lemma stale_source_rows:
  "load_row (nd_db stale_source) ''g'' = None" "load_row (nd_db stale_source) ''f'' \<noteq> None"
  "decide (load_file (nd_db stale_source) ''f'') [([2], 2)] = Apply" "load_file (nd_db stale_source) ''g'' = None"
  "has_applied (nd_db stale_source) [5] = False"
  by (simp_all add: stale_source_def load_file_row has_applied_def decide_def vv_compare_def vv_get_def bt_get_Cons bt_keys_def
      row_local_def)

theorem quarantined_rename_tombstones_source_witness:
  "\<exists>n' r. process_remote_op serving_engine big_rename stale_source = (n', Inr ())
     \<and> load_row (nd_db n') ''f'' = Some r \<and> r_tombstone r \<and> load_row (nd_db n') ''g'' = None
     \<and> w_fs (nd_world n') [''r'', ''f''] = Some \<lparr>n_body = BFile [1] True, n_attr = example_attr\<rparr>"
proof -
  have op: "o_path big_rename = ''g''" "o_path_old big_rename = Some ''f''" "o_op_type big_rename = Rename" "o_vv big_rename = [([2], 2)]"
    "o_content_hash big_rename = Some [9]" "o_meta big_rename = None" "o_size big_rename = 200" "o_op_id big_rename = [5]" "o_mode big_rename = 0"
    by (simp_all add: big_rename_def pushed_delete_def)
  obtain w' where w': "apply_rename example_ctx ''f'' ''g'' 0 [9] None (nd_world stale_source) = (w', Inr False)"
    using stale_source_not_moved by blast
  have fs: "w_fs (nd_world stale_source) [''r'', ''f''] = Some \<lparr>n_body = BFile [1] True, n_attr = example_attr\<rparr>"
    by (simp add: stale_source_def set_fs_def)
  have "\<exists>n' r. process_remote_op serving_engine big_rename stale_source = (n', Inr ())
    \<and> load_row (nd_db n') ''f'' = Some r \<and> r_tombstone r
    \<and> load_row (nd_db n') (o_path big_rename) = load_row (nd_db stale_source) (o_path big_rename)
    \<and> w_fs (nd_world n') = w_fs (nd_world stale_source)"
    by (rule quarantined_rename_tombstones_source [where h = "[9]" and w' = w'])
      (simp_all add: op serving_quiet stale_source_rows w' op_kind_def have_content_def decide_None)
  with fs stale_source_rows(1) op(1) show ?thesis by auto
qed

subsection \<open>A file where a directory is needed\<close>

lemma mkdirs_dirs: "\<forall>q \<in> set qs. is_dir (w_fs w) q \<Longrightarrow> mkdirs (qs @ rs) w = mkdirs rs w"
  by (induction qs) simp_all

lemma squatted_mkdir:
  assumes "w_verdicts w = []" "p \<noteq> []" "\<forall>q \<in> set (parents p). is_dir (w_fs w) q" "\<forall>c \<in> set p. CHR 0x00 \<notin> set c"
    and "w_fs w p = Some nd" "n_body nd \<noteq> BDir"
  shows "sys_create_dir_all p w = (w, Inl (OsError EEXIST))"
proof -
  have "find (\<lambda>q. \<not> is_dir (w_fs w) q) (parents p) = None" using assms(3) by (simp add: find_None_iff)
  then have "path_error (w_fs w) p = None" using assms(4) by (auto simp: path_error_def)
  moreover have "\<not> is_dir (w_fs w) p" using assms(2,5,6) by (simp add: is_dir_def)
  ultimately show ?thesis
    using assms by (simp add: sys_create_dir_all_def mkdirs_dirs syscall_def next_verdict_def)
qed

text \<open>
  A regular file in the place of a parent directory stalls the stream.  The operation
  fails with \<open>EEXIST\<close> from creating the directory, which is not among the errors treated
  as permanent (they cover the same obstacle one level higher): the handler returns the
  error without recording the operation, so it is redelivered and fails again as long as
  the file is there, and a reconcile session that meets it is aborted.
\<close>

theorem squatted_parent_is_retried:
  assumes "e_env E = (\<lambda>_. [])" "\<not> has_applied (nd_db n) (o_op_id op)"
    and "o_op_type op = Write" "o_meta op = Some m" "m_kind m = Symlink" "m_symlink_target m = Some t"
    and "o_content_hash op = Some (blake3 (e_crates E) t)" "decide (load_file (nd_db n) (o_path op)) (o_vv op) = Apply"
    and "safe_dest (ax_root (e_apply E)) (o_path op) = Inr dest" "w_verdicts (nd_world n) = []" "butlast dest \<noteq> []"
    and "\<forall>q \<in> set (parents (butlast dest)). is_dir (w_fs (nd_world n)) q" "\<forall>c \<in> set (butlast dest). CHR 0x00 \<notin> set c"
    and "w_fs (nd_world n) (butlast dest) = Some nd" "n_body nd \<noteq> BDir"
  shows "\<exists>n'. process_remote_op E op n = (n', Inl (NApply (Io ''mkdir'' (butlast dest) (OsError EEXIST))))
      \<and> \<not> has_applied (nd_db n') (o_op_id op)
    \<and> \<not> leaf_error_is_skippable (RApply (Io ''mkdir'' (butlast dest) (OsError EEXIST)))"
proof -
  let ?e = "Io ''mkdir'' (butlast dest) (OsError EEXIST)" and ?n2 = "n\<lparr>nd_time := nd_time n + 2\<rparr>"
  have "apply_version (e_apply E) (o_path op) (o_mode op) (Some (blake3 (e_crates E) t)) None (Some m) (nd_world n) = (nd_world n, Inl ?e)"
    using squatted_mkdir [OF assms(10-15)] assms(5,6,9)
    by (simp add: apply_version_def apply_symlink_def staged_apply_def with_ctx_def and_then_def)
  then have "materialize E op (load_file (nd_db n) (o_path op)) ?n2 = (?n2, Inl (NApply ?e))"
    using assms by (simp add: materialize_def materialize_write_def op_kind_def on_disk_def err_from_def)
  then have "carry_out E op (load_file (nd_db n) (o_path op)) Apply ?n2 = (?n2, Inl (NApply ?e))"
    by (simp add: carry_out_def is_permanent_def blocked_by_kind_def)
  then have "process_remote_op E op n = (?n2, Inl (NApply ?e))"
    by (simp add: quiet_process [OF assms(1,2)] assms(8) and_then_def)
  with assms(2) show ?thesis by (simp add: leaf_error_is_skippable_def blocked_by_kind_def)
qed

text \<open>A file \<open>f\<close>, and a symbolic link pushed to \<open>f/g\<close>.\<close>

definition pushed_link :: op_record where
  "pushed_link = pushed_delete\<lparr>o_op_type := Write, o_path := ''f/g'', o_content_hash := Some [7], o_meta := Some example_link\<rparr>"

theorem squatted_parent_is_retried_witness:
  "\<exists>n'. process_remote_op serving_engine pushed_link stale_source = (n', Inl (NApply (Io ''mkdir'' [''r'', ''f''] (OsError EEXIST))))"
proof -
  have dest: "safe_dest (ax_root (e_apply serving_engine)) ''f/g'' = Inr [''r'', ''f'', ''g'']"
    by (simp add: serving_quiet safe_dest_eq unsafe_rel_def dest_names_def example_ctx_def)
  have row: "load_file (nd_db stale_source) ''f/g'' = None"
    by (simp add: stale_source_def load_file_def upsert_file_def empty_db_def bt_get_Cons)
  have world: "w_verdicts (nd_world stale_source) = []" "w_fs (nd_world stale_source) [''r''] = Some \<lparr>n_body = BDir, n_attr = example_attr\<rparr>"
    "w_fs (nd_world stale_source) [''r'', ''f''] = Some \<lparr>n_body = BFile [1] True, n_attr = example_attr\<rparr>"
    by (simp_all add: stale_source_def set_fs_def example_world_def)
  have hash: "blake3 (e_crates serving_engine) [7] = [7]" by (simp add: serving_quiet example_ctx_def plain_crates_def)
  have op: "o_path pushed_link = ''f/g''" "o_op_type pushed_link = Write" "o_meta pushed_link = Some example_link"
    "o_content_hash pushed_link = Some [7]" "o_op_id pushed_link = [5]"
    by (simp_all add: pushed_link_def pushed_delete_def)
  have "\<exists>n'. process_remote_op serving_engine pushed_link stale_source =
        (n', Inl (NApply (Io ''mkdir'' (butlast [''r'', ''f'', ''g'']) (OsError EEXIST))))
      \<and> \<not> has_applied (nd_db n') (o_op_id pushed_link)
    \<and> \<not> leaf_error_is_skippable (RApply (Io ''mkdir'' (butlast [''r'', ''f'', ''g'']) (OsError EEXIST)))"
    by (rule squatted_parent_is_retried [where m = example_link and t = "[7]" and nd = "\<lparr>n_body = BFile [1] True, n_attr = example_attr\<rparr>"])
      (simp_all add: op serving_quiet(1) stale_source_rows row dest decide_None world parents_def is_dir_def hash, simp_all add: example_link_def)
  then show ?thesis by auto
qed

end
