(* ===== verification/Session_Laws.thy ===== *)
theory Session_Laws
  imports Session Receive_Laws Log_Laws
begin

text \<open>
  What a subscription guarantees: the responder streams its log, in order and without a
  gap, from the point the subscriber named, and the subscriber acknowledges only what it
  has recorded.
\<close>

subsection \<open>The log of a node\<close>

definition own_after :: "db \<Rightarrow> node_id \<Rightarrow> i64 \<Rightarrow> op_record list" where
  "own_after d node c = filter (\<lambda>op. o_origin op = node \<and> c < o_origin_seq op) (t_oplog d)"

lemma own_sorted: "gapfree node d \<Longrightarrow> sorted_wrt (\<lambda>a b. o_origin_seq a < o_origin_seq b) (own_after d node c)"
proof -
  assume "gapfree node d"
  then have seqs: "map o_origin_seq (filter (\<lambda>op. o_origin op = node) (t_oplog d)) = map int [1..<Suc (length (seqs_of node (t_oplog d)))]"
    unfolding gapfree_def seqs_of_def .
  have "sorted_wrt (<) (map int [1..<m])" for m by (simp add: sorted_wrt_map)
  then have "sorted_wrt (<) (map o_origin_seq (filter (\<lambda>op. o_origin op = node) (t_oplog d)))" unfolding seqs .
  then have "sorted_wrt (\<lambda>a b. o_origin_seq a < o_origin_seq b) (filter (\<lambda>op. c < o_origin_seq op) (filter (\<lambda>op. o_origin op = node) (t_oplog d)))"
    by (simp only: sorted_wrt_map sorted_wrt_filter)
  then show ?thesis by (simp add: own_after_def conj_commute)
qed

lemma ops_since_own: "gapfree node d \<Longrightarrow> ops_since d node c l = take l (own_after d node c)"
proof -
  assume "gapfree node d"
  then have "sorted_wrt (\<lambda>a b. o_origin_seq a < o_origin_seq b) (own_after d node c)" by (rule own_sorted)
  then have "sorted (map o_origin_seq (own_after d node c))"
    by (auto simp: sorted_wrt_map intro: sorted_wrt_mono_rel [rotated])
  then show ?thesis unfolding ops_since_def own_after_def by (simp add: sort_key_id_if_sorted)
qed

lemma insert_op_prefix: "\<exists>new. t_oplog (insert_op op d) = t_oplog d @ new"
  by (simp add: insert_op_def)

lemma step_log_prefix: "\<exists>new. t_oplog (s_db (fst (store_step X node cmd s))) = t_oplog (s_db s) @ new"
proof (cases cmd)
  case (AppendLocal c)
  obtain d' r where e: "append_local X node c (s_db s) = (d', r)" by fastforce
  have "\<exists>new. t_oplog d' = t_oplog (s_db s) @ new"
  proof (cases "\<exists>op. r = Inr (Some op)")
    case True
    then obtain op where "append_local X node c (s_db s) = (d', Inr (Some op))" using e by blast
    from append_commit_ok(2) [OF append_local_ok(1) [OF this]] insert_op_prefix show ?thesis by metis
  qed (use append_local_idle [OF e] in auto)
  then show ?thesis by (simp add: AppendLocal e)
next
  case (AppendLocalRename old new)
  obtain d' r where e: "append_local_rename X node old new (s_db s) = (d', r)" by fastforce
  have "\<exists>new. t_oplog d' = t_oplog (s_db s) @ new"
  proof (cases "\<exists>op. r = Inr (Some op)")
    case True
    then obtain op where "append_local_rename X node old new (s_db s) = (d', Inr (Some op))" using e by blast
    then have "t_oplog d' = t_oplog (insert_op op (s_db s))" by (rule append_rename_ok)
    with insert_op_prefix show ?thesis by metis
  qed (use append_rename_idle [OF e] in auto)
  then show ?thesis by (simp add: AppendLocalRename e)
next
  case (ApplyRemote op dec)
  then show ?thesis by (auto simp: apply_remote_cases insert_op_def case_prod_unfold Let_def)
next
  case (ReconcileUpsert row)
  then show ?thesis by (simp add: reconcile_upsert_def case_prod_unfold Let_def)
next
  case (ResolveRows p remote staged)
  have "t_oplog (fst (resolve_rows X p remote staged (s_db s))) = t_oplog (s_db s)"
    by (auto simp: resolve_rows_def Let_def split: option.splits sum.splits plan_fault.splits)
  then show ?thesis by (simp add: ResolveRows case_prod_unfold Let_def)
qed (simp_all add: set_meta_def)

lemma own_after_step:
  "\<exists>new. own_after (s_db (fst (store_step X node cmd s))) ours c = own_after (s_db s) ours c @ new"
  using step_log_prefix [of X node cmd s] by (auto simp: own_after_def)

lemma own_after_ack: "own_after (advance_ack a b k d) ours c = own_after d ours c"
  by (simp add: own_after_def)

subsection \<open>The responder\<close>

definition pushes :: "frame list \<Rightarrow> op_record list" where
  "pushes fs = concat (map (\<lambda>f. case f of OplogPush op \<Rightarrow> [op] | _ \<Rightarrow> []) fs)"

lemma pushes_simps [simp]:
  "pushes [] = []" "pushes (fs @ gs) = pushes fs @ pushes gs" "pushes [OplogPush op] = [op]" "pushes [HelloAck v n] = []"
  by (simp_all add: pushes_def)

abbreviation rs_db :: "responder \<Rightarrow> db" where "rs_db s \<equiv> s_db (rs_store s)"

text \<open>What has been pushed and what is about to be is the beginning of the log past the resume point.\<close>

definition last_seq :: "i64 \<Rightarrow> op_record list \<Rightarrow> i64" where
  "last_seq c ops = (if ops = [] then c else o_origin_seq (last ops))"

definition inbound_inv :: "node_id \<Rightarrow> responder \<Rightarrow> bool" where
  "inbound_inv ours s \<longleftrightarrow> store_ok ours (rs_store s)
     \<and> (\<exists>rest. own_after (rs_db s) ours (rs_resume s) = pushes (rs_out s) @ rest)
     \<and> (rs_phase s = AwaitHello \<or> rs_phase s = AwaitSubscribe \<longrightarrow> pushes (rs_out s) = [] \<and> rs_batch s = [])
     \<and> (rs_phase s = Streaming \<longrightarrow> rs_cursor s = rs_frontier s \<and> rs_frontier s = last_seq (rs_resume s) (pushes (rs_out s))
          \<and> (\<exists>rest. own_after (rs_db s) ours (rs_resume s) = pushes (rs_out s) @ rs_batch s @ rest))"

lemma own_after_tail:
  assumes "gapfree node d" "own_after d node c = xs @ ys"
  shows "own_after d node (last_seq c xs) = ys"
proof -
  have "own_after d node (last_seq c xs) = filter (\<lambda>op. last_seq c xs < o_origin_seq op) (own_after d node c)" if "c \<le> last_seq c xs"
    using that by (auto simp: own_after_def intro: filter_cong)
  moreover have "sorted_wrt (\<lambda>a b. o_origin_seq a < o_origin_seq b) (xs @ ys)" using own_sorted [OF assms(1)] assms(2) by metis
  then have "\<forall>a \<in> set xs. \<forall>b \<in> set ys. o_origin_seq a < o_origin_seq b" "sorted_wrt (\<lambda>a b. o_origin_seq a < o_origin_seq b) xs"
    by (simp_all add: sorted_wrt_append)
  moreover have "\<forall>op \<in> set (xs @ ys). c < o_origin_seq op" unfolding assms(2) [symmetric] by (simp add: own_after_def)
  moreover have "\<forall>a \<in> set xs. o_origin_seq a \<le> o_origin_seq (last xs)" if "xs \<noteq> []"
    using that calculation(3) by (induction xs) (auto intro: less_imp_le)
  moreover have "c \<le> last_seq c xs" using calculation(4) by (auto simp: last_seq_def less_imp_le)
  ultimately show ?thesis
    by (cases "xs = []") (auto simp: last_seq_def assms(2) filter_empty_conv filter_id_conv not_less)
qed

lemma inbound_start: "store_ok ours st \<Longrightarrow> inbound_inv ours (responder_new st)"
  by (simp add: inbound_inv_def responder_new_def)

lemma store_gapfree: "store_ok node s \<Longrightarrow> gapfree node (s_db s)"
  by (simp add: store_ok_def db_ok_def)

lemma advance_ack_ok: "store_ok ours st \<Longrightarrow> store_ok ours (st\<lparr>s_db := advance_ack peer ours k (s_db st)\<rparr>)"
  using store_step_ok [of ours st undefined "AdvanceAck peer k"] by simp

lemma message_inv: "inbound_inv ours s \<Longrightarrow> inbound_inv ours (inbound_message X ours peer writes msg s)"
proof -
  assume inv: "inbound_inv ours s"
  show ?thesis
  proof (cases "rs_phase s")
    case AwaitHello
    with inv show ?thesis
      by (auto simp: inbound_message_def inbound_hello_def finish_def inbound_inv_def split: sum.split frame.split)
  next
    case AwaitSubscribe
    with inv show ?thesis
      by (auto simp: inbound_message_def inbound_gate_def finish_def inbound_inv_def last_seq_def Let_def split: sum.split frame.split proto_error.split)
  next
    case Streaming
    with inv show ?thesis
      by (auto simp: inbound_message_def absorb_acks_def finish_def inbound_inv_def advance_ack_ok store_writes own_after_ack
          split: sum.split frame.split proto_error.split)
  next
    case (Ended r)
    with inv show ?thesis by (simp add: inbound_message_def)
  qed
qed

lemma push_inv:
  assumes inv: "inbound_inv ours s" and st: "rs_phase s = Streaming"
  shows "inbound_inv ours (push_ops X ours writes s)"
proof (cases "rs_batch s")
  case Nil
  obtain rest where rest: "own_after (rs_db s) ours (rs_resume s) = pushes (rs_out s) @ rest"
    using inv by (auto simp: inbound_inv_def)
  have gf: "gapfree ours (rs_db s)" using inv by (simp add: inbound_inv_def store_gapfree)
  have "ops_since (rs_db s) ours (rs_cursor s) PUSH_BATCH = take PUSH_BATCH rest"
    using own_after_tail [OF gf rest] ops_since_own [OF gf] inv st by (simp add: inbound_inv_def)
  with inv st rest Nil show ?thesis
    by (auto simp: push_ops_def inbound_inv_def store_reads intro: exI [of _ "drop PUSH_BATCH rest"])
next
  case (Cons op ops)
  with inv st show ?thesis
    by (auto simp: push_ops_def inbound_inv_def finish_def last_seq_def Let_def)
qed

lemma other_inv:
  assumes inv: "inbound_inv ours s" and cmd: "cmd_ok X ours cmd (rs_db s)"
  shows "inbound_inv ours (s\<lparr>rs_store := fst (store_step X ours cmd (rs_store s))\<rparr>)"
proof -
  obtain new where "own_after (s_db (fst (store_step X ours cmd (rs_store s)))) ours (rs_resume s) = own_after (rs_db s) ours (rs_resume s) @ new"
    using own_after_step by blast
  with inv cmd store_step_ok show ?thesis by (auto simp: inbound_inv_def)
qed

lemma lost_inv: "inbound_inv ours s \<Longrightarrow> inbound_inv ours (finish r s)"
  by (simp add: inbound_inv_def finish_def)

lemma inbound_run_inv: "inbound_run X ours peer s t \<Longrightarrow> inbound_inv ours s \<Longrightarrow> inbound_inv ours t"
proof (induction rule: inbound_run.induct)
  case (step s t u)
  from step.hyps(2) step.IH [OF step.prems] show ?case
    by cases (simp_all add: message_inv push_inv other_inv lost_inv)
qed simp

lemma own_after_head:
  assumes "gapfree node d" "own_after d node c = xs @ ys"
  shows "xs = filter (\<lambda>op. o_origin_seq op \<le> last_seq c xs) (own_after d node c)"
proof -
  have "\<forall>op \<in> set ys. \<not> o_origin_seq op \<le> last_seq c xs"
    using own_after_tail [OF assms] by (auto simp: own_after_def)
  moreover have "sorted_wrt (\<lambda>a b. o_origin_seq a < o_origin_seq b) xs"
    using own_sorted [OF assms(1), of c] assms(2) by (simp add: sorted_wrt_append)
  then have "\<forall>op \<in> set xs. o_origin_seq op \<le> last_seq c xs"
    by (induction xs) (auto simp: last_seq_def intro: less_imp_le)
  ultimately show ?thesis unfolding assms(2) by (simp add: filter_empty_conv filter_id_conv)
qed

lemma own_seqs_between:
  assumes "gapfree node d" "b \<le> int (length (seqs_of node (t_oplog d))) \<or> b = a"
  shows "map o_origin_seq (filter (\<lambda>op. o_origin_seq op \<le> b) (own_after d node a)) = [max 0 a + 1..b]"
proof -
  let ?n = "length (seqs_of node (t_oplog d))"
  let ?xs = "filter (\<lambda>op. o_origin_seq op \<le> b) (own_after d node a)"
  have "sorted_wrt (\<lambda>a b. o_origin_seq a < o_origin_seq b) ?xs" using own_sorted [OF assms(1)] by (rule sorted_wrt_filter)
  then have "sorted_wrt (<) (map o_origin_seq ?xs)" by (simp add: sorted_wrt_map)
  moreover have "set (map o_origin_seq ?xs) = set [max 0 a + 1..b]"
  proof -
    have "o_origin_seq ` {op \<in> set (t_oplog d). o_origin op = node} = set (seqs_of node (t_oplog d))" by (auto simp: seqs_of_def)
    also have "\<dots> = int ` {1..?n}" using assms(1) unfolding gapfree_def by (metis atLeastLessThanSuc_atLeastAtMost set_map set_upt)
    also have "\<dots> = {1..int ?n}" by (simp add: image_int_atLeastAtMost)
    finally have own: "o_origin_seq ` {op \<in> set (t_oplog d). o_origin op = node} = {1..int ?n}" .
    have "set (map o_origin_seq ?xs) = {q \<in> o_origin_seq ` {op \<in> set (t_oplog d). o_origin op = node}. a < q \<and> q \<le> b}"
      by (auto simp: own_after_def)
    also have "\<dots> = set [max 0 a + 1..b]" unfolding own using assms(2) by auto
    finally show ?thesis .
  qed
  ultimately show ?thesis by (intro strict_sorted_equal) (simp_all add: sorted_wrt_upto)
qed

subsection \<open>Catching up\<close>

definition unsent :: "node_id \<Rightarrow> responder \<Rightarrow> nat" where
  "unsent ours s = 2 * (length (own_after (rs_db s) ours (rs_resume s)) - length (pushes (rs_out s)) - length (rs_batch s)) + length (rs_batch s)"

lemma push_progress:
  assumes inv: "inbound_inv ours s" and st: "rs_phase s = Streaming"
  shows "rs_phase (push_ops X ours True s) = Streaming" "rs_store (push_ops X ours True s) = rs_store s"
    "rs_resume (push_ops X ours True s) = rs_resume s" "unsent ours (push_ops X ours True s) \<le> unsent ours s - 1"
proof -
  show "rs_phase (push_ops X ours True s) = Streaming" "rs_store (push_ops X ours True s) = rs_store s"
    "rs_resume (push_ops X ours True s) = rs_resume s"
    using st by (simp_all add: push_ops_def Let_def split: list.split)
  obtain rest where rest: "own_after (rs_db s) ours (rs_resume s) = pushes (rs_out s) @ rs_batch s @ rest"
    using inv st by (auto simp: inbound_inv_def)
  show "unsent ours (push_ops X ours True s) \<le> unsent ours s - 1"
  proof (cases "rs_batch s")
    case Nil
    have gf: "gapfree ours (rs_db s)" using inv by (simp add: inbound_inv_def store_gapfree)
    have "ops_since (rs_db s) ours (rs_cursor s) PUSH_BATCH = take PUSH_BATCH rest"
      using own_after_tail [OF gf, of "rs_resume s" "pushes (rs_out s)"] ops_since_own [OF gf] inv st rest Nil by (simp add: inbound_inv_def)
    with Nil rest show ?thesis by (auto simp: push_ops_def unsent_def store_reads PUSH_BATCH_def min_def)
  qed (use rest in \<open>simp add: push_ops_def unsent_def Let_def\<close>)
qed

lemma push_turns:
  "inbound_inv ours s \<Longrightarrow> rs_phase s = Streaming \<Longrightarrow> unsent ours s \<le> k \<Longrightarrow>
     pushes (rs_out ((push_ops X ours True ^^ k) s)) = own_after (rs_db s) ours (rs_resume s)"
proof (induction k arbitrary: s)
  case 0
  then obtain rest where rest: "own_after (rs_db s) ours (rs_resume s) = pushes (rs_out s) @ rs_batch s @ rest"
    by (auto simp: inbound_inv_def)
  with 0(3) show ?case by (simp add: unsent_def)
next
  case (Suc k)
  let ?s = "push_ops X ours True s"
  note p = push_progress [OF Suc.prems(1,2), of X]
  have "pushes (rs_out ((push_ops X ours True ^^ k) ?s)) = own_after (rs_db ?s) ours (rs_resume ?s)"
    using Suc.prems p by (intro Suc.IH push_inv) auto
  with p show ?case by (simp add: funpow_swap1)
qed

subsection \<open>Properties of the responder\<close>

text \<open>
  C10. A subscriber is streamed the log.  However messages, turns of the push loop and
  other tasks' commands to the store interleave: before the subscription nothing is
  pushed; while the connection streams, what has been pushed is exactly the node's own
  operations past the point the subscriber named and up to the frontier, in order, each
  once and none left out.
\<close>

theorem responder_streams_log:
  assumes "inbound_run X ours peer (responder_new st) s" "store_ok ours st"
  shows "(rs_phase s = AwaitHello \<or> rs_phase s = AwaitSubscribe \<longrightarrow> pushes (rs_out s) = [])
    \<and> (rs_phase s = Streaming \<longrightarrow>
         pushes (rs_out s) = filter (\<lambda>op. o_origin op = ours \<and> rs_resume s < o_origin_seq op \<and> o_origin_seq op \<le> rs_frontier s) (t_oplog (rs_db s))
         \<and> map o_origin_seq (pushes (rs_out s)) = [max 0 (rs_resume s) + 1..rs_frontier s])"
proof -
  have inv: "inbound_inv ours s" using inbound_run_inv [OF assms(1)] inbound_start [OF assms(2)] by simp
  then have gf: "gapfree ours (rs_db s)" by (simp add: inbound_inv_def store_gapfree)
  let ?p = "pushes (rs_out s)" and ?o = "own_after (rs_db s) ours (rs_resume s)"
  have stream: "?p = filter (\<lambda>op. o_origin_seq op \<le> rs_frontier s) ?o \<and> map o_origin_seq ?p = [max 0 (rs_resume s) + 1..rs_frontier s]"
    if st: "rs_phase s = Streaming"
  proof -
    obtain rest where rest: "?o = ?p @ rest" using inv by (auto simp: inbound_inv_def)
    have fr: "rs_frontier s = last_seq (rs_resume s) ?p" using inv st by (simp add: inbound_inv_def)
    have "rs_frontier s \<le> int (length (seqs_of ours (t_oplog (rs_db s)))) \<or> rs_frontier s = rs_resume s"
    proof (cases "?p = []")
      case False
      then have "last ?p \<in> set ?o" unfolding rest by simp
      then have "o_origin_seq (last ?p) \<le> latest_origin_seq (rs_db s) ours" using latest_ge by (auto simp: own_after_def)
      with False fr gapfree_latest [OF gf] show ?thesis by (simp add: last_seq_def)
    qed (use fr in \<open>simp add: last_seq_def\<close>)
    from own_seqs_between [OF gf this] own_after_head [OF gf rest] fr show ?thesis by metis
  qed
  then show ?thesis using inv unfolding own_after_def by (auto simp: inbound_inv_def conj_assoc)
qed

text \<open>
  A streaming responder catches up: with no new operations, at most twice as many
  turns of the push loop as there are operations past the resume point push all of them,
  and further turns push nothing more.
\<close>

theorem stream_catches_up:
  assumes "inbound_run X ours peer (responder_new st) s" "store_ok ours st" "rs_phase s = Streaming"
    and "2 * length (filter (\<lambda>op. o_origin op = ours \<and> rs_resume s < o_origin_seq op) (t_oplog (rs_db s))) \<le> k"
  shows "pushes (rs_out ((push_ops X ours True ^^ k) s))
    = filter (\<lambda>op. o_origin op = ours \<and> rs_resume s < o_origin_seq op) (t_oplog (rs_db s))"
proof -
  have inv: "inbound_inv ours s" using inbound_run_inv [OF assms(1)] inbound_start [OF assms(2)] by simp
  then obtain rest where "own_after (rs_db s) ours (rs_resume s) = pushes (rs_out s) @ rs_batch s @ rest"
    using assms(3) by (auto simp: inbound_inv_def)
  then have "unsent ours s \<le> k" using assms(4) unfolding own_after_def [symmetric] by (simp add: unsent_def)
  from push_turns [OF inv assms(3) this] show ?thesis by (simp add: own_after_def)
qed

text \<open>A node with one operation in its log, and a subscriber that has greeted it and subscribed from a sequence number on.\<close>

definition one_op_store :: store where
  "one_op_store = \<lparr>s_db = empty_db\<lparr>t_oplog := [example_op [1] 1 ''f'' [7] [([1], 1)]]\<rparr>, s_latest = 1\<rparr>"

lemma one_op_store_ok: "store_ok [1] one_op_store"
  by (simp add: store_ok_def db_ok_def one_op_store_def log_vvs_ok_def gapfree_def seqs_of_def latest_origin_seq_def list_max_def
      example_op_def vv_ok_def bt_ok_Cons files_ok_def unwrap_or_def)

definition subscribed :: "store \<Rightarrow> node_id \<Rightarrow> node_id \<Rightarrow> i64 \<Rightarrow> responder" where
  "subscribed st ours peer c = \<lparr>rs_phase = Streaming, rs_store = st, rs_resume = c, rs_cursor = c, rs_frontier = c, rs_batch = [],
     rs_out = [HelloAck PROTO_VERSION ours]\<rparr>"

lemma subscribed_run: "inbound_run X ours peer (responder_new st) (subscribed st ours peer c)"
proof -
  let ?h = "inbound_message X ours peer True (Inr (Hello PROTO_VERSION peer [])) (responder_new st)"
  have "inbound_run X ours peer (responder_new st) ?h" by (rule inbound_run.step [OF inbound_run.start inbound_step.message])
  then have "inbound_run X ours peer (responder_new st) (inbound_message X ours peer True (Inr (SubscribeOps [(ours, c)])) ?h)"
    by (rule inbound_run.step) (rule inbound_step.message)
  also have "inbound_message X ours peer True (Inr (SubscribeOps [(ours, c)])) ?h = subscribed st ours peer c"
    by (simp add: inbound_message_def inbound_hello_def inbound_gate_def responder_new_def subscribed_def resume_entry_def Let_def)
  finally show ?thesis .
qed

theorem responder_streams_log_witness:
  "\<exists>s. inbound_run plain_crates [1] [2] (responder_new one_op_store) s \<and> rs_phase s = Streaming
     \<and> rs_frontier s = 1 \<and> map o_origin_seq (pushes (rs_out s)) = [1]"
proof -
  let ?s = "push_ops plain_crates [1] True (push_ops plain_crates [1] True (subscribed one_op_store [1] [2] 0))"
  have st: "rs_phase (push_ops plain_crates [1] True (subscribed one_op_store [1] [2] 0)) = Streaming"
    by (simp add: push_ops_def subscribed_def)
  have run: "inbound_run plain_crates [1] [2] (responder_new one_op_store) ?s"
    by (rule inbound_run.step [OF inbound_run.step [OF subscribed_run inbound_step.push] inbound_step.push]) (simp add: subscribed_def, rule st)
  have s: "rs_phase ?s = Streaming" "rs_frontier ?s = 1" "rs_resume ?s = 0"
    by (simp_all add: push_ops_def subscribed_def store_reads one_op_store_def ops_since_def example_op_def PUSH_BATCH_def Let_def)
  have "map o_origin_seq (pushes (rs_out ?s)) = [max 0 (rs_resume ?s) + 1..rs_frontier ?s]"
    using responder_streams_log [OF run one_op_store_ok] s(1) by blast
  then have "map o_origin_seq (pushes (rs_out ?s)) = [1]" unfolding s(2,3) by simp
  with run s show ?thesis by (intro exI conjI)
qed

theorem stream_catches_up_witness:
  "length (pushes (rs_out ((push_ops plain_crates [1] True ^^ 2) (subscribed one_op_store [1] [2] 0)))) = 1"
proof -
  have "length (filter (\<lambda>op. o_origin op = [1] \<and> rs_resume (subscribed one_op_store [1] [2] 0) < o_origin_seq op)
      (t_oplog (rs_db (subscribed one_op_store [1] [2] 0)))) = 1"
    by (simp add: subscribed_def one_op_store_def example_op_def)
  with stream_catches_up [OF subscribed_run [of plain_crates "[1]" "[2]" one_op_store 0] one_op_store_ok, of 2] show ?thesis
    by (simp add: subscribed_def)
qed

text \<open>
  The bound on acknowledgements starts at a number the peer chooses.  An
  acknowledgement is accepted up to the frontier, which is the resume point until
  something is pushed; a peer that names a resume point of its own making is believed
  to have acknowledged everything up to it although nothing was pushed to it.
\<close>

theorem unsent_ops_can_be_acked:
  "\<exists>s. inbound_run X ours peer (responder_new st) s \<and> rs_phase s = Streaming \<and> pushes (rs_out s) = []
     \<and> cursor_value cu_last_acked_seq peer ours (rs_db s) = max (cursor_value cu_last_acked_seq peer ours (s_db st)) k"
proof -
  let ?s = "inbound_message X ours peer True (Inr (OplogAck ours k)) (subscribed st ours peer k)"
  have "inbound_run X ours peer (responder_new st) ?s" using subscribed_run by (rule inbound_run.step) (rule inbound_step.message)
  moreover have "rs_phase ?s = Streaming" "pushes (rs_out ?s) = []" "rs_db ?s = advance_ack peer ours k (s_db st)"
    by (simp_all add: inbound_message_def absorb_acks_def subscribed_def store_writes)
  ultimately show ?thesis by (metis cursor_ack_value(1))
qed

subsection \<open>The handoff\<close>

lemma run_log_prefix: "\<exists>new. t_oplog (s_db (fst (run_store X node cmds s))) = t_oplog (s_db s) @ new"
proof (induction cmds arbitrary: s)
  case (Cons c cmds)
  let ?s = "fst (store_step X node c s)"
  obtain new where "t_oplog (s_db ?s) = t_oplog (s_db s) @ new" using step_log_prefix by blast
  moreover obtain new' where "t_oplog (s_db (fst (run_store X node cmds ?s))) = t_oplog (s_db ?s) @ new'" using Cons.IH by blast
  ultimately show ?case unfolding run_store_fold fold_Cons comp_def by simp
qed simp

lemma find_entry: "(k, v) \<in> set xs \<Longrightarrow> distinct (map fst xs) \<Longrightarrow> List.find (\<lambda>(k', _). k' = k) xs = Some (k, v)"
  by (induction xs) (auto simp: image_iff)

lemma resume_entry_frontier:
  assumes "gapfree node d"
  shows "resume_entry node (js_frontier (snapshot_for_join d)) = int (length (seqs_of node (t_oplog d)))"
proof (cases "\<exists>op \<in> set (t_oplog d). o_origin op = node")
  case True
  then have "(node, latest_origin_seq d node) \<in> set (js_frontier (snapshot_for_join d))" by (auto simp: frontier_mem)
  moreover have "distinct (map fst (js_frontier (snapshot_for_join d)))" by (simp add: snapshot_for_join_def origins_of_def comp_def)
  ultimately have "List.find (\<lambda>(o', _). o' = node) (js_frontier (snapshot_for_join d)) = Some (node, latest_origin_seq d node)"
    by (rule find_entry)
  then show ?thesis using gapfree_latest [OF assms] by (simp add: resume_entry_def)
next
  case False
  then have "List.find (\<lambda>(o', _). o' = node) (js_frontier (snapshot_for_join d)) = None"
    by (auto simp: find_None_iff frontier_mem)
  moreover have "seqs_of node (t_oplog d) = []" using False by (auto simp: seqs_of_def filter_empty_conv)
  ultimately show ?thesis by (simp add: resume_entry_def)
qed

text \<open>
  The handoff from the snapshot to the stream leaves no gap and no overlap.  Let a
  responder answer a pull from a snapshot and go on with any commands to its store: the
  operations past the frontier it sent with the snapshot, which are what the subscriber
  is streamed when it resumes there, are exactly the operations it made after the
  snapshot.
\<close>

theorem stream_resumes_at_snapshot:
  assumes "store_ok node st" "cmds_ok X node cmds st"
  shows "let d = s_db st; d' = s_db (fst (run_store X node cmds st)); c = resume_entry node (js_frontier (snapshot_for_join d))
    in filter (\<lambda>op. o_origin op = node \<and> c < o_origin_seq op) (t_oplog d')
         = filter (\<lambda>op. o_origin op = node) (drop (length (t_oplog d)) (t_oplog d'))
      \<and> (\<forall>op \<in> set (t_oplog d). o_origin op = node \<longrightarrow> o_origin_seq op \<le> c)"
proof -
  let ?d = "s_db st" and ?d' = "s_db (fst (run_store X node cmds st))"
  let ?n = "length (seqs_of node (t_oplog ?d))"
  obtain new where log: "t_oplog ?d' = t_oplog ?d @ new" using run_log_prefix by blast
  have gf: "gapfree node ?d" "gapfree node ?d'" using run_store_ok [OF assms] assms(1) by (simp_all add: store_gapfree)
  note c = resume_entry_frontier [OF gf(1)]
  have old: "o_origin_seq op \<le> int ?n" if "op \<in> set (t_oplog ?d)" "o_origin op = node" for op
    using latest_ge [OF that(1)] gapfree_latest [OF gf(1)] that(2) by simp
  have "seqs_of node (t_oplog ?d') = seqs_of node (t_oplog ?d) @ seqs_of node new" unfolding log by (simp add: seqs_of_def)
  then have "seqs_of node (t_oplog ?d) @ seqs_of node new = map int [1..<Suc (?n + length (seqs_of node new))]"
    using gf(2) by (simp add: gapfree_def)
  then have "seqs_of node new = drop ?n (map int [1..<Suc (?n + length (seqs_of node new))])" by (metis append_eq_conv_conj)
  then have "seqs_of node new = map int [Suc ?n..<Suc (?n + length (seqs_of node new))]" by (simp add: drop_map del: upt_Suc)
  then have "set (seqs_of node new) = int ` {Suc ?n..<Suc (?n + length (seqs_of node new))}" by (metis set_map set_upt)
  then have fresh: "int ?n < o_origin_seq op" if "op \<in> set new" "o_origin op = node" for op
  proof -
    have "o_origin_seq op \<in> set (seqs_of node new)" using that by (auto simp: seqs_of_def)
    with \<open>set (seqs_of node new) = _\<close> show ?thesis by auto
  qed
  have "filter (\<lambda>op. o_origin op = node \<and> int ?n < o_origin_seq op) (t_oplog ?d) = []" using old by (force simp: filter_empty_conv)
  moreover have "filter (\<lambda>op. o_origin op = node \<and> int ?n < o_origin_seq op) new = filter (\<lambda>op. o_origin op = node) new"
    using fresh by (auto intro: filter_cong)
  ultimately show ?thesis using old unfolding Let_def c log by simp
qed

theorem stream_resumes_at_snapshot_witness:
  "let d' = s_db (fst (run_store plain_crates [1] [AdvanceAck [2] 0] one_op_store))
   in filter (\<lambda>op. o_origin op = [1] \<and> 1 < o_origin_seq op) (t_oplog d') = filter (\<lambda>op. o_origin op = [1]) (drop 1 (t_oplog d'))"
proof -
  have "resume_entry [1] (js_frontier (snapshot_for_join (s_db one_op_store))) = 1" "length (t_oplog (s_db one_op_store)) = 1"
    using resume_entry_frontier [OF store_gapfree [OF one_op_store_ok]] by (simp_all add: one_op_store_def seqs_of_def example_op_def)
  with stream_resumes_at_snapshot [OF one_op_store_ok, of plain_crates "[AdvanceAck [2] 0]"] show ?thesis by (simp add: Let_def)
qed

subsection \<open>The dialer\<close>

definition acks :: "frame list \<Rightarrow> (node_id \<times> i64) list" where
  "acks fs = concat (map (\<lambda>f. case f of OplogAck p q \<Rightarrow> [(p, q)] | _ \<Rightarrow> []) fs)"

definition ops_in :: "message list \<Rightarrow> op_record list" where
  "ops_in msgs = concat (map (\<lambda>m. case m of Inr (OplogPush op) \<Rightarrow> [op] | _ \<Rightarrow> []) msgs)"

lemma acks_simps [simp]:
  "acks [] = []" "acks (fs @ gs) = acks fs @ acks gs" "acks [OplogAck p q] = [(p, q)]" "acks [Pong k] = []"
  by (simp_all add: acks_def)

lemma ops_in_simps [simp]:
  "ops_in [] = []" "ops_in (Inr (OplogPush op) # msgs) = op # ops_in msgs" "ops_in (Inr (Ping k) # msgs) = ops_in msgs"
  by (simp_all add: ops_in_def)

abbreviation dl_db :: "dialer \<Rightarrow> db" where "dl_db s \<equiv> nd_db (dl_node s)"

lemma write_frame_cases:
  obtains (sent) s' where "write_frame V f s = (s', Inr ())" "dl_node s' = dl_node s" "dl_out s' = dl_out s @ [f]"
  | (failed) "write_frame V f s = (s, Inl (NProto PIo))"
  by (cases "de_writes V (length (dl_out s))") (auto simp: write_frame_def)

lemma op_stream_run:
  assumes peer: "peer \<noteq> e_node (de_engine V)"
  shows "op_stream V peer msgs s = (s', r) \<Longrightarrow> \<forall>op \<in> set (ops_in msgs). vv_ok (o_vv op) \<Longrightarrow> store_ok (e_node (de_engine V)) (nd_store (dl_node s)) \<Longrightarrow>
    evolves (de_engine V) (dl_node s) (dl_node s')
    \<and> (\<exists>k. acks (dl_out s') = acks (dl_out s) @ map (\<lambda>op. (peer, o_origin_seq op)) (take k (ops_in msgs))
         \<and> (\<forall>op \<in> set (take k (ops_in msgs)). has_applied (dl_db s') (o_op_id op)) \<and> (r = None \<longrightarrow> k = length (ops_in msgs)))"
proof (induction msgs arbitrary: s)
  case (Cons msg msgs)
  let ?E = "de_engine V"
  have stop: ?case if "s' = s" "r \<noteq> None"
    using that by (auto intro!: exI [of _ 0])
  consider (push) op where "msg = Inr (OplogPush op)" "o_origin op = peer" | (ping) k where "msg = Inr (Ping k)"
    | (other) "s' = s" "r \<noteq> None"
    using Cons.prems(1) by (auto split: sum.splits frame.splits proto_error.splits if_splits)
  then show ?case
  proof cases
    case (push op)
    obtain n1 res where p: "process_remote_op ?E op (dl_node s) = (n1, res)" by fastforce
    let ?s1 = "s\<lparr>dl_node := n1\<rparr>"
    have vv: "vv_ok (o_vv op)" "\<forall>op \<in> set (ops_in msgs). vv_ok (o_vv op)" using Cons.prems(2) push by auto
    have ev: "evolves ?E (dl_node s) n1" using process_evolves [of op ?E "dl_node s"] vv push peer p by auto
    have ok: "store_ok (e_node ?E) (nd_store n1)" using evolves_store_ok [OF ev Cons.prems(3)] .
    show ?thesis
    proof (cases res)
      case (Inl e)
      with Cons.prems(1) push p have "s' = ?s1" "r \<noteq> None" by (auto simp: dial_node_def)
      with ev show ?thesis by (auto intro!: exI [of _ 0])
    next
      case (Inr u)
      have rec: "has_applied (nd_db n1) (o_op_id op)"
        using process_recorded [of op ?E "dl_node s"] vv push peer p Inr Cons.prems(3) by auto
      show ?thesis
      proof (cases rule: write_frame_cases [of V "OplogAck peer (o_origin_seq op)" ?s1])
        case (sent s2)
        then have "op_stream V peer msgs s2 = (s', r)" using Cons.prems(1) push p Inr by (simp add: dial_node_def)
        from Cons.IH [OF this vv(2)] sent ok obtain k where IH: "evolves ?E n1 (dl_node s')"
          "acks (dl_out s') = acks (dl_out s2) @ map (\<lambda>op. (peer, o_origin_seq op)) (take k (ops_in msgs))"
          "\<forall>op \<in> set (take k (ops_in msgs)). has_applied (dl_db s') (o_op_id op)" "r = None \<longrightarrow> k = length (ops_in msgs)" by auto
        have "has_applied (dl_db s') (o_op_id op)" using evolves_applied [OF IH(1) ok rec] .
        with IH sent push show ?thesis using evolves_trans [OF ev IH(1)] by (auto intro!: exI [of _ "Suc k"])
      next
        case failed
        then have "s' = ?s1" "r \<noteq> None" using Cons.prems(1) push p Inr by (auto simp: dial_node_def)
        with ev show ?thesis by (auto intro!: exI [of _ 0])
      qed
    qed
  next
    case (ping k)
    show ?thesis
    proof (cases rule: write_frame_cases [of V "Pong k" s])
      case (sent s2)
      then have "op_stream V peer msgs s2 = (s', r)" using Cons.prems(1) ping by simp
      from Cons.IH [OF this] Cons.prems(2,3) sent ping show ?thesis by simp
    next
      case failed
      with Cons.prems(1) ping show ?thesis by (intro stop) auto
    qed
  next
    case other
    then show ?thesis by (rule stop)
  qed
qed (auto simp: ops_in_def)

text \<open>
  C11. A subscriber acknowledges what it has recorded, in order.  Whatever arrives on the
  op stream and whenever it ends: the acknowledgements sent are for an initial segment of
  the operations received, one each in the order they came, every acknowledged operation
  is recorded as applied in the store, and while the stream is open every operation
  received has been acknowledged.
\<close>

theorem subscriber_acks_recorded:
  assumes "op_stream V peer msgs s = (s', r)" "store_ok (e_node (de_engine V)) (nd_store (dl_node s))"
    and "peer \<noteq> e_node (de_engine V)" "\<forall>op \<in> set (ops_in msgs). vv_ok (o_vv op)"
  shows "store_ok (e_node (de_engine V)) (nd_store (dl_node s'))
    \<and> (\<exists>k. acks (dl_out s') = acks (dl_out s) @ map (\<lambda>op. (peer, o_origin_seq op)) (take k (ops_in msgs))
         \<and> (\<forall>op \<in> set (take k (ops_in msgs)). has_applied (dl_db s') (o_op_id op))
         \<and> (r = None \<longrightarrow> k = length (ops_in msgs)))"
  using op_stream_run [OF assms(3,1,4,2)] evolves_store_ok [OF _ assms(2)] by blast

definition example_env :: dial_env where
  "example_env = \<lparr>de_engine = serving_engine, de_fuel = 1, de_codec = plain_codec, de_save_io = (\<lambda>_. None), de_now = (\<lambda>_. 0),
     de_session = (\<lambda>_ _ _. Inl RClosed), de_gossip = (\<lambda>_. None), de_writes = (\<lambda>_. True)\<rparr>"

definition example_dialer :: dialer where
  "example_dialer = \<lparr>dl_node = idle_node, dl_reg = [], dl_join = tracker_new None {[2]}, dl_members = example_member [], dl_conns = [],
     dl_attempt = 0, dl_out = []\<rparr>"

theorem subscriber_acks_recorded_witness:
  "let s' = fst (op_stream example_env [2] [Inr (OplogPush pushed_delete)] example_dialer)
   in acks (dl_out s') = [([2], 1)] \<and> has_applied (dl_db s') [5]"
proof -
  let ?run = "op_stream example_env [2] [Inr (OplogPush pushed_delete)] example_dialer"
  have op: "o_origin pushed_delete = [2]" "o_origin_seq pushed_delete = 1" "o_op_id pushed_delete = [5]" "vv_ok (o_vv pushed_delete)"
    by (simp_all add: pushed_delete_def vv_ok_def bt_ok_Cons)
  have V: "de_engine example_env = serving_engine" "dl_node example_dialer = idle_node" "dl_out example_dialer = []"
    by (simp_all add: example_env_def example_dialer_def)
  have "snd ?run = None"
    using pushed_delete_runs
    by (cases "process_remote_op serving_engine pushed_delete idle_node")
      (simp add: dial_node_def V op write_frame_def, simp add: example_env_def)
  then have run: "?run = (fst ?run, None)" by (metis prod.collapse)
  have "store_ok (e_node (de_engine example_env)) (nd_store (dl_node example_dialer))" "[2] \<noteq> e_node (de_engine example_env)"
    using idle_ok(1) by (simp_all add: V serving_quiet)
  from subscriber_acks_recorded [OF run this] op show ?thesis unfolding V by (auto simp: Let_def)
qed

end
