(* ===== verification/Supervise.thy ===== *)
theory Supervise
  imports Gossip Peer Join
begin

text \<open>
  The supervisor of the dial loops (\<open>src/net.rs\<close>): after every change of the membership
  one pass makes the running dial loops those of the effective members.  A dial loop is
  the peer it was started for; whether its task has ended is an argument, as is the order
  in which the hash maps are traversed.  Aborting a task drops it where it waits, so what
  would follow there does not happen.
\<close>

record supervisor =
  sv_tasks :: "(node_id, peer) btree"
  sv_conns :: conn_registry
  sv_reg :: peer_registry
  sv_join :: tracker
  sv_closed :: "conn list"

definition desired_peers :: "membership \<Rightarrow> (node_id, peer) btree" where
  "desired_peers m = fold (\<lambda>p. bt_insert (pe_node_id p) p) (effective_peers id m) []"

definition needs_spawn :: "(node_id \<Rightarrow> bool) \<Rightarrow> supervisor \<Rightarrow> node_id \<Rightarrow> peer \<Rightarrow> bool" where
  "needs_spawn finished s i p =
     (case bt_get (sv_tasks s) i of
        Some existing \<Rightarrow> finished i \<or> pe_addr existing \<noteq> pe_addr p \<or> pe_fingerprint existing \<noteq> pe_fingerprint p
      | None \<Rightarrow> True)"

definition spawn_member :: "(node_id \<Rightarrow> bool) \<Rightarrow> node_id \<times> peer \<Rightarrow> supervisor \<Rightarrow> supervisor" where
  "spawn_member finished e s =
     (if needs_spawn finished s (fst e) (snd e)
      then s\<lparr>sv_tasks := bt_insert (fst e) (snd e) (bt_remove (fst e) (sv_tasks s))\<rparr> else s)"

definition remove_member :: "node_id \<Rightarrow> supervisor \<Rightarrow> supervisor" where
  "remove_member i s =
     (let (conns, closed) = close_all i (sv_conns s)
      in s\<lparr>sv_tasks := bt_remove i (sv_tasks s), sv_conns := conns, sv_closed := sv_closed s @ closed,
           sv_reg := set_state i Disconnected (sv_reg s)\<rparr>)"

definition supervise ::
  "((node_id \<times> peer) list \<Rightarrow> (node_id \<times> peer) list) \<Rightarrow> (node_id \<Rightarrow> bool) \<Rightarrow> membership \<Rightarrow> supervisor \<Rightarrow> supervisor" where
  "supervise iter finished m s =
     (let desired = desired_peers m;
          s = fold (spawn_member finished) (iter desired) s;
          removed = filter (\<lambda>i. bt_get desired i = None) (map fst (iter (sv_tasks s)));
          s = fold remove_member removed s
      in s\<lparr>sv_join := set_expected (set (map fst desired)) (sv_join s)\<rparr>)"

subsection \<open>One pass\<close>

text \<open>A table whose entries are filed under their own node id.\<close>

definition filed :: "(node_id, peer) btree \<Rightarrow> bool" where
  "filed t \<longleftrightarrow> bt_ok t \<and> (\<forall>i p. bt_get t i = Some p \<longrightarrow> pe_node_id p = i)"

lemma filed_insert: "filed t \<Longrightarrow> filed (bt_insert (pe_node_id p) p t)"
  by (auto simp: filed_def bt_ok_insert bt_get_insert)

lemma desired_filed: "filed (desired_peers m)"
proof -
  have "filed t \<Longrightarrow> filed (fold (\<lambda>p. bt_insert (pe_node_id p) p) ps t)" for ps t
    by (induction ps arbitrary: t) (simp_all add: filed_insert)
  moreover have "filed []" by (simp add: filed_def)
  ultimately show ?thesis unfolding desired_peers_def by blast
qed

lemma peer_eqI: "pe_node_id p = pe_node_id q \<Longrightarrow> pe_addr p = pe_addr q \<Longrightarrow> pe_fingerprint p = pe_fingerprint q \<Longrightarrow> (p :: peer) = q"
  by simp

lemma spawn_tasks:
  assumes "filed (sv_tasks s)" "pe_node_id p = i"
  shows "filed (sv_tasks (spawn_member f (i, p) s))"
    "bt_get (sv_tasks (spawn_member f (i, p) s)) j = (if j = i then Some p else bt_get (sv_tasks s) j)"
    "sv_conns (spawn_member f (i, p) s) = sv_conns s" "sv_closed (spawn_member f (i, p) s) = sv_closed s"
  using assms
  by (auto simp: spawn_member_def needs_spawn_def filed_def bt_ok_insert bt_ok_remove bt_get_insert bt_get_remove
      intro!: peer_eqI split: option.splits if_splits)

lemma spawn_all:
  "filed (sv_tasks s) \<Longrightarrow> \<forall>(i, p) \<in> set es. pe_node_id p = i \<and> bt_get d i = Some p \<Longrightarrow>
     filed (sv_tasks (fold (spawn_member f) es s))
     \<and> (\<forall>j. bt_get (sv_tasks (fold (spawn_member f) es s)) j = (if j \<in> fst ` set es then bt_get d j else bt_get (sv_tasks s) j))
     \<and> sv_conns (fold (spawn_member f) es s) = sv_conns s \<and> sv_closed (fold (spawn_member f) es s) = sv_closed s"
proof (induction es arbitrary: s)
  case (Cons e es)
  obtain i p where e: "e = (i, p)" "pe_node_id p = i" "bt_get d i = Some p" using Cons.prems(2) by (cases e) auto
  note sp = spawn_tasks [OF Cons.prems(1) e(2), of f]
  from Cons.IH [of "spawn_member f e s"] sp Cons.prems(2) e show ?case by auto
qed simp

lemma remove_one:
  assumes "filed (sv_tasks s)" "bt_ok (sv_conns s)"
  shows "filed (sv_tasks (remove_member i s))" "bt_ok (sv_conns (remove_member i s))"
    "bt_get (sv_tasks (remove_member i s)) j = (if j = i then None else bt_get (sv_tasks s) j)"
    "bt_get (sv_conns (remove_member i s)) j = (if j = i then None else bt_get (sv_conns s) j)"
    "set (sv_closed (remove_member i s)) = set (sv_closed s) \<union> (case bt_get (sv_conns s) i of Some cs \<Rightarrow> set cs | None \<Rightarrow> {})"
  using assms by (auto simp: remove_member_def close_all_def filed_def bt_ok_remove bt_get_remove split: option.splits)

lemma remove_all:
  "filed (sv_tasks s) \<Longrightarrow> bt_ok (sv_conns s) \<Longrightarrow>
     (\<forall>j. bt_get (sv_tasks (fold remove_member is s)) j = (if j \<in> set is then None else bt_get (sv_tasks s) j))
     \<and> (\<forall>j. bt_get (sv_conns (fold remove_member is s)) j = (if j \<in> set is then None else bt_get (sv_conns s) j))
     \<and> set (sv_closed s) \<union> {c. \<exists>i \<in> set is. \<exists>cs. bt_get (sv_conns s) i = Some cs \<and> c \<in> set cs} = set (sv_closed (fold remove_member is s))"
proof (induction "is" arbitrary: s)
  case (Cons i "is")
  note r = remove_one [OF Cons.prems, of i]
  note IH = Cons.IH [OF r(1,2)]
  have "set (sv_closed (fold remove_member (i # is) s))
      = set (sv_closed (remove_member i s)) \<union> {c. \<exists>k \<in> set is. \<exists>cs. bt_get (sv_conns (remove_member i s)) k = Some cs \<and> c \<in> set cs}"
    using IH by simp
  also have "\<dots> = set (sv_closed s) \<union> {c. \<exists>k \<in> set (i # is). \<exists>cs. bt_get (sv_conns s) k = Some cs \<and> c \<in> set cs}"
  proof -
    have "c \<in> set (sv_closed (remove_member i s)) \<union> {c. \<exists>k \<in> set is. \<exists>cs. bt_get (sv_conns (remove_member i s)) k = Some cs \<and> c \<in> set cs}
        \<longleftrightarrow> c \<in> set (sv_closed s) \<union> {c. \<exists>k \<in> set (i # is). \<exists>cs. bt_get (sv_conns s) k = Some cs \<and> c \<in> set cs}" for c
      unfolding r(4,5) by (cases "bt_get (sv_conns s) i") force+
    then show ?thesis by blast
  qed
  finally show ?case using IH r by auto
qed simp

lemma supervise_outcome:
  assumes "filed (sv_tasks s)" "bt_ok (sv_conns s)" "\<And>es. set (iter es) = set es"
  shows "let s' = supervise iter finished m s; desired = desired_peers m
    in (\<forall>i. bt_get (sv_tasks s') i = bt_get desired i)
      \<and> (\<forall>i. bt_get (sv_conns s') i = (if bt_get desired i = None \<and> bt_get (sv_tasks s) i \<noteq> None then None else bt_get (sv_conns s) i))
      \<and> (\<forall>i cs c. bt_get desired i = None \<longrightarrow> bt_get (sv_tasks s) i \<noteq> None \<longrightarrow> bt_get (sv_conns s) i = Some cs \<longrightarrow> c \<in> set cs \<longrightarrow>
           c \<in> set (sv_closed s'))
      \<and> j_expected (sv_join s') = {i. bt_get desired i \<noteq> None}"
proof -
  let ?d = "desired_peers m"
  define s1 where "s1 = fold (spawn_member finished) (iter ?d) s"
  define gone where "gone = filter (\<lambda>i. bt_get ?d i = None) (map fst (iter (sv_tasks s1)))"
  define s2 where "s2 = fold remove_member gone s1"
  have ok: "bt_ok ?d" and d: "bt_get ?d i = Some p \<Longrightarrow> pe_node_id p = i" for i p using desired_filed by (auto simp: filed_def)
  have mem: "(i, p) \<in> set ?d \<longleftrightarrow> bt_get ?d i = Some p" for i p using ok by (simp add: bt_get_mem_iff)
  have keys: "i \<in> fst ` set ?d \<longleftrightarrow> bt_get ?d i \<noteq> None" for i using mem by force
  have "\<forall>(i, p) \<in> set (iter ?d). pe_node_id p = i \<and> bt_get ?d i = Some p" using d mem assms(3) by auto
  note sp = spawn_all [OF assms(1) this, of finished, folded s1_def, unfolded assms(3)]
  have tasks1: "bt_get (sv_tasks s1) i = (if bt_get ?d i \<noteq> None then bt_get ?d i else bt_get (sv_tasks s) i)" for i
    using sp keys [of i] by simp
  have s1: "filed (sv_tasks s1)" "bt_ok (sv_conns s1)" using sp assms(2) by simp_all
  have gone: "i \<in> set gone \<longleftrightarrow> bt_get ?d i = None \<and> bt_get (sv_tasks s) i \<noteq> None" for i
  proof -
    have "i \<in> fst ` set (sv_tasks s1) \<longleftrightarrow> bt_get (sv_tasks s1) i \<noteq> None"
      using s1(1) by (force simp: filed_def bt_get_mem_iff)
    then show ?thesis using tasks1 [of i] by (auto simp: gone_def assms(3))
  qed
  note rm = remove_all [OF s1, of gone, folded s2_def]
  have run: "supervise iter finished m s = s2\<lparr>sv_join := set_expected (set (map fst ?d)) (sv_join s2)\<rparr>"
    by (simp add: supervise_def s2_def gone_def s1_def Let_def)
  have exp: "j_expected (set_expected X t) = X" for X t
    by (simp add: set_expected_def set_expected_locked_def recompute_lifecycle_def persist_def Let_def split: option.split)
  have closed: "c \<in> set (sv_closed s2)" if "bt_get ?d i = None" "bt_get (sv_tasks s) i \<noteq> None" "bt_get (sv_conns s) i = Some cs" "c \<in> set cs" for i cs c
  proof -
    have "c \<in> {c. \<exists>i \<in> set gone. \<exists>cs. bt_get (sv_conns s1) i = Some cs \<and> c \<in> set cs}" using that gone sp by auto
    with rm show ?thesis by blast
  qed
  show ?thesis
    unfolding Let_def run using rm gone tasks1 sp closed keys by (simp add: exp set_eq_iff)
qed



end
