(* ===== verification/Qos.thy ===== *)
theory Qos
  imports BTree_Map Complex_Main
begin

text \<open>
  Bandwidth limiting and the free-space guard (\<open>src/qos.rs\<close>).  The token balance and
  the clock are exact rationals (seconds) in place of \<open>f64\<close>: rounding is not modelled.
  \<open>acquire\<close> is split at its lock: the locked part debits and yields the time to sleep.
  The lane gate of \<open>Limiter::acquire\<close> is the step relation \<open>lane_step\<close>, whose
  transitions are the atomic accesses of the counter and of \<open>tokio::sync::Notify\<close>
  (\<open>notify_waiters\<close> wakes the futures that exist and stores no permit).
\<close>

datatype lane = Priority | Bulk

record bucket =
  b_rate :: u64
  b_tokens :: rat
  b_last :: rat

definition rate_rat :: "u64 \<Rightarrow> rat" where "rate_rat r = of_nat (unat r)"

definition bucket_new :: "rat \<Rightarrow> u64 \<Rightarrow> bucket" where
  "bucket_new now rate = \<lparr>b_rate = rate, b_tokens = 0, b_last = now\<rparr>"

text \<open>\<open>duration_since\<close> saturates at zero.\<close>

definition refill :: "rat \<Rightarrow> bucket \<Rightarrow> bucket" where
  "refill now s =
     (let dt = max 0 (now - b_last s); s' = s\<lparr>b_last := now\<rparr>
      in if b_rate s = 0 then s'\<lparr>b_tokens := 0\<rparr>
         else s'\<lparr>b_tokens := min (b_tokens s + dt * rate_rat (b_rate s)) (rate_rat (b_rate s))\<rparr>)"

definition set_rate :: "rat \<Rightarrow> u64 \<Rightarrow> bucket \<Rightarrow> bucket" where
  "set_rate now rate s =
     (let s' = (refill now s)\<lparr>b_rate := rate\<rparr> in if rate = 0 then s'\<lparr>b_tokens := 0\<rparr> else s')"

text \<open>The balance after an acquisition and how long it sleeps.\<close>

definition bucket_acquire :: "rat \<Rightarrow> u64 \<Rightarrow> bucket \<Rightarrow> bucket \<times> rat" where
  "bucket_acquire now n s =
     (let s1 = refill now s
      in if b_rate s1 = 0 then (s1, 0)
         else let s2 = s1\<lparr>b_tokens := b_tokens s1 - of_nat (unat n)\<rparr>
              in if b_tokens s2 \<ge> 0 then (s2, 0) else (s2, - b_tokens s2 / rate_rat (b_rate s2)))"

record limiter =
  l_global :: bucket
  l_per_peer_rate :: u64
  l_peers :: "(node_id, bucket) btree"
  l_priority_waiting :: nat

definition limiter_new :: "rat \<Rightarrow> u64 \<Rightarrow> u64 \<Rightarrow> limiter" where
  "limiter_new now global_bps per_peer_bps =
     \<lparr>l_global = bucket_new now global_bps, l_per_peer_rate = per_peer_bps, l_peers = [], l_priority_waiting = 0\<rparr>"

definition set_rates :: "rat \<Rightarrow> u64 \<Rightarrow> u64 \<Rightarrow> limiter \<Rightarrow> limiter" where
  "set_rates now global_bps per_peer_bps l =
     l\<lparr>l_global := set_rate now global_bps (l_global l), l_per_peer_rate := per_peer_bps,
       l_peers := map (\<lambda>(k, b). (k, set_rate now per_peer_bps b)) (l_peers l)\<rparr>"

definition limiter_rates :: "limiter \<Rightarrow> u64 \<times> u64" where
  "limiter_rates l = (b_rate (l_global l), l_per_peer_rate l)"

definition peer_bucket :: "rat \<Rightarrow> node_id \<Rightarrow> limiter \<Rightarrow> limiter \<times> bucket" where
  "peer_bucket now p l =
     (case bt_get (l_peers l) p of
        Some b \<Rightarrow> (l, b)
      | None \<Rightarrow> (let b = bucket_new now (l_per_peer_rate l) in (l\<lparr>l_peers := bt_insert p b (l_peers l)\<rparr>, b)))"

text \<open>
  The debits of \<open>Limiter::acquire\<close>, the same on both lanes: the global bucket first,
  then, once its sleep is over, the bucket of the peer.
\<close>

definition limiter_debit :: "rat \<Rightarrow> node_id \<Rightarrow> u64 \<Rightarrow> limiter \<Rightarrow> limiter \<times> rat" where
  "limiter_debit now p n l =
     (let (l1, b) = peer_bucket now p l;
          (g, w) = bucket_acquire now n (l_global l1);
          (b', w') = bucket_acquire (now + w) n b
      in (l1\<lparr>l_global := g, l_peers := bt_insert p b' (l_peers l1)\<rparr>, w + w'))"

subsection \<open>The lane gate\<close>

datatype bulk_pc = BLoad | BSawBusy | BWaiting | BPass

record gate =
  g_waiting :: nat
  g_notifies :: nat
  g_bulk :: bulk_pc

inductive lane_step :: "gate \<Rightarrow> gate \<Rightarrow> bool" where
  priority_enter: "lane_step g (g\<lparr>g_waiting := g_waiting g + 1\<rparr>)"
| priority_leave: "g_waiting g > 0 \<Longrightarrow>
     lane_step g (g\<lparr>g_waiting := g_waiting g - 1, g_notifies := g_notifies g + 1\<rparr>)"
| notify_waiters: "g_notifies g > 0 \<Longrightarrow>
     lane_step g (g\<lparr>g_notifies := g_notifies g - 1,
                    g_bulk := (if g_bulk g = BWaiting then BLoad else g_bulk g)\<rparr>)"
| bulk_load_free: "g_bulk g = BLoad \<Longrightarrow> g_waiting g = 0 \<Longrightarrow> lane_step g (g\<lparr>g_bulk := BPass\<rparr>)"
| bulk_load_busy: "g_bulk g = BLoad \<Longrightarrow> g_waiting g > 0 \<Longrightarrow> lane_step g (g\<lparr>g_bulk := BSawBusy\<rparr>)"
| bulk_wait: "g_bulk g = BSawBusy \<Longrightarrow> lane_step g (g\<lparr>g_bulk := BWaiting\<rparr>)"

inductive_cases lane_stepE: "lane_step g g'"

definition gate_init :: gate where "gate_init = \<lparr>g_waiting = 0, g_notifies = 0, g_bulk = BLoad\<rparr>"

subsection \<open>The schedule\<close>

record schedule_rule =
  sr_days :: "string list"
  sr_start_min :: u16
  sr_end_min :: u16
  sr_global_bps :: u64
  sr_per_peer_bps :: u64

definition DAY_NAMES :: "string list" where
  "DAY_NAMES = [''sun'', ''mon'', ''tue'', ''wed'', ''thu'', ''fri'', ''sat'']"

definition day_matches :: "schedule_rule \<Rightarrow> u8 \<Rightarrow> bool" where
  "day_matches r weekday =
     list_ex (\<lambda>d. if d = ''all'' then True
                  else if d = ''weekday'' then 1 \<le> weekday \<and> weekday \<le> 5
                  else if d = ''weekend'' then weekday = 0 \<or> weekday = 6
                  else unat weekday < length DAY_NAMES \<and> DAY_NAMES ! unat weekday = d) (sr_days r)"

definition time_matches :: "schedule_rule \<Rightarrow> u16 \<Rightarrow> bool" where
  "time_matches r m =
     (if sr_start_min r \<le> sr_end_min r then sr_start_min r \<le> m \<and> m < sr_end_min r
      else m \<ge> sr_start_min r \<or> m < sr_end_min r)"

fun active_rates :: "schedule_rule list \<Rightarrow> u64 \<times> u64 \<Rightarrow> u8 \<Rightarrow> u16 \<Rightarrow> u64 \<times> u64" where
  "active_rates [] base weekday m = base"
| "active_rates (r # rules) base weekday m =
     (if day_matches r weekday \<and> time_matches r m then (sr_global_bps r, sr_per_peer_bps r)
      else active_rates rules base weekday m)"

text \<open>\<open>localtime_r\<close> gives weekday, hour and minute, or fails.\<close>

definition local_clock :: "(nat \<times> nat \<times> nat) option \<Rightarrow> u8 \<times> u16" where
  "local_clock tm =
     (case tm of None \<Rightarrow> (0, 0)
      | Some (wday, hour, minute) \<Rightarrow> (word_of_nat wday, word_of_nat (hour * 60 + minute)))"

subsection \<open>Free space\<close>

text \<open>What \<open>statvfs\<close> fills in; \<open>percent_of\<close> is the \<open>f64\<close> computation of the reserved share.\<close>

record statvfs =
  f_frsize :: u64
  f_bsize :: u64
  f_bavail :: u64
  f_blocks :: u64

definition available_above_reserve :: "(u64 \<Rightarrow> u64) \<Rightarrow> statvfs option \<Rightarrow> u64 \<Rightarrow> u64 option" where
  "available_above_reserve percent_of st reserve_bytes =
     (case st of
        None \<Rightarrow> None
      | Some sv \<Rightarrow>
          (let frsize = (if f_frsize sv > 0 then f_frsize sv else f_bsize sv);
               avail = f_bavail sv * frsize;
               total = f_blocks sv * frsize;
               reserve = max reserve_bytes (percent_of total)
           in Some (if avail < reserve then 0 else avail - reserve)))"

subsection \<open>The rate cap\<close>

definition bucket_ok :: "bucket \<Rightarrow> bool" where
  "bucket_ok s \<longleftrightarrow> b_tokens s \<le> rate_rat (b_rate s)"

lemma rate_rat_nonneg [simp]: "0 \<le> rate_rat r"
  unfolding rate_rat_def by (rule of_nat_0_le_iff)

lemma rate_rat_pos: "r \<noteq> 0 \<Longrightarrow> 0 < rate_rat r"
  unfolding rate_rat_def of_nat_0_less_iff by (simp add: unat_gt_0)

lemma refill_sel [simp]: "b_rate (refill now s) = b_rate s" "b_last (refill now s) = now"
  by (simp_all add: refill_def Let_def)

lemma refill_bound:
  "b_rate s \<noteq> 0 \<Longrightarrow> b_last s \<le> now \<Longrightarrow>
     b_tokens (refill now s) \<le> b_tokens s + (now - b_last s) * rate_rat (b_rate s)"
  by (simp add: refill_def Let_def)

lemma acquire_sel [simp]:
  "b_rate (fst (bucket_acquire now n s)) = b_rate s" "b_last (fst (bucket_acquire now n s)) = now"
  by (simp_all add: bucket_acquire_def Let_def)

lemma acquire_tokens:
  "b_rate s \<noteq> 0 \<Longrightarrow> b_tokens (fst (bucket_acquire now n s)) = b_tokens (refill now s) - of_nat (unat n)"
  by (simp add: bucket_acquire_def Let_def)

lemma acquire_wait:
  assumes "b_rate s \<noteq> 0"
  shows "- b_tokens (fst (bucket_acquire now n s)) \<le> snd (bucket_acquire now n s) * rate_rat (b_rate s)"
    "0 \<le> snd (bucket_acquire now n s)"
proof -
  have "0 < rate_rat (b_rate s)" using assms by (rule rate_rat_pos)
  then show "- b_tokens (fst (bucket_acquire now n s)) \<le> snd (bucket_acquire now n s) * rate_rat (b_rate s)"
    "0 \<le> snd (bucket_acquire now n s)"
    using assms by (simp_all add: bucket_acquire_def Let_def zero_le_divide_iff)
qed

text \<open>A sequence of acquisitions at the given times; the result is the bucket and the time the last one is let through.\<close>

fun acquire_all :: "(rat \<times> u64) list \<Rightarrow> bucket \<Rightarrow> rat \<Rightarrow> bucket \<times> rat" where
  "acquire_all [] s f = (s, f)"
| "acquire_all ((now, n) # reqs) s f =
     (let (s', wait) = bucket_acquire now n s in acquire_all reqs s' (now + wait))"

fun ordered_from :: "rat \<Rightarrow> (rat \<times> u64) list \<Rightarrow> bool" where
  "ordered_from t [] = True"
| "ordered_from t ((now, n) # reqs) = (t \<le> now \<and> ordered_from now reqs)"

definition total_bytes :: "(rat \<times> u64) list \<Rightarrow> rat" where
  "total_bytes reqs = (\<Sum>(_, n) \<leftarrow> reqs. of_nat (unat n))"

lemma total_bytes_simps [simp]:
  "total_bytes [] = 0" "total_bytes ((t, n) # reqs) = of_nat (unat n) + total_bytes reqs"
  by (simp_all add: total_bytes_def)

lemma acquire_all_bound:
  assumes "b_rate s \<noteq> 0" "ordered_from (b_last s) reqs"
    and "- b_tokens s \<le> (f - b_last s) * rate_rat (b_rate s)"
  shows "total_bytes reqs \<le> b_tokens s + (snd (acquire_all reqs s f) - b_last s) * rate_rat (b_rate s)"
  using assms
proof (induction reqs arbitrary: s f)
  case Nil
  then show ?case by simp
next
  case (Cons a reqs)
  obtain now n where a: "a = (now, n)" by fastforce
  obtain s' wait where s': "bucket_acquire now n s = (s', wait)" by fastforce
  have sel: "b_rate s' = b_rate s" "b_last s' = now"
    using acquire_sel [of now n s] by (simp_all add: s')
  have le: "b_last s \<le> now" and ord: "ordered_from now reqs" using Cons.prems(2) by (simp_all add: a)
  have tok: "b_tokens s' \<le> b_tokens s + (now - b_last s) * rate_rat (b_rate s) - of_nat (unat n)"
    using acquire_tokens [OF Cons.prems(1), of now n] refill_bound [OF Cons.prems(1) le] by (simp add: s')
  have "- b_tokens s' \<le> wait * rate_rat (b_rate s)"
    using acquire_wait(1) [OF Cons.prems(1), of now n] by (simp add: s')
  then have "total_bytes reqs \<le> b_tokens s' + (snd (acquire_all reqs s' (now + wait)) - now) * rate_rat (b_rate s)"
    using Cons.IH [of s' "now + wait"] Cons.prems(1) ord sel by simp
  with tok show ?case by (simp add: a s' algebra_simps)
qed

subsection \<open>Properties\<close>

text \<open>
  The rate cap holds on every prefix of the traffic: for requests at times that do
  not go backwards, the bytes admitted by the time the last of them is let through are at
  most the starting balance plus rate times elapsed time.  From a new bucket that is the
  configured average rate, whatever the sizes of the requests.
\<close>

theorem token_bucket_caps_rate:
  assumes "rate \<noteq> 0" "ordered_from t0 reqs"
  shows "total_bytes reqs \<le> (snd (acquire_all reqs (bucket_new t0 rate) t0) - t0) * rate_rat rate"
  using acquire_all_bound [of "bucket_new t0 rate" reqs t0] assms by (simp add: bucket_new_def)

theorem token_bucket_caps_rate_witness:
  "total_bytes [(1, 300), (2, 500)] \<le> (snd (acquire_all [(1, 300), (2, 500)] (bucket_new 0 100) 0) - 0) * rate_rat 100"
  by (rule token_bucket_caps_rate) simp_all

text \<open>
  The schedule: the first rule that matches day and minute decides, otherwise the
  base rates; a rule whose start is after its end covers the times around midnight, and
  every minute of the day is either inside such a rule or inside the rule with the
  bounds swapped, never both.
\<close>

theorem schedule_first_match:
  "active_rates rules base wd m =
     (case List.find (\<lambda>r. day_matches r wd \<and> time_matches r m) rules of
        Some r \<Rightarrow> (sr_global_bps r, sr_per_peer_bps r) | None \<Rightarrow> base)
   \<and> (sr_end_min r < sr_start_min r \<longrightarrow>
        time_matches r m = (\<not> time_matches (r\<lparr>sr_start_min := sr_end_min r, sr_end_min := sr_start_min r\<rparr>) m))"
proof -
  have "active_rates rules base wd m =
     (case List.find (\<lambda>r. day_matches r wd \<and> time_matches r m) rules of
        Some r \<Rightarrow> (sr_global_bps r, sr_per_peer_bps r) | None \<Rightarrow> base)"
    by (induction rules) auto
  then show ?thesis by (auto simp: time_matches_def)
qed

definition night_rule :: schedule_rule where
  "night_rule = \<lparr>sr_days = [''all''], sr_start_min = 1320, sr_end_min = 360, sr_global_bps = 0, sr_per_peer_bps = 0\<rparr>"

theorem schedule_first_match_witness:
  "time_matches night_rule 30 = (\<not> time_matches (night_rule\<lparr>sr_start_min := 360, sr_end_min := 1320\<rparr>) 30)"
  using schedule_first_match [of "[]" "(0, 0)" 0 30 night_rule] by (simp add: night_rule_def)

text \<open>
  A bulk transfer can miss its wake-up: there is an interleaving after which no
  priority traffic is left, no notification is outstanding, and the bulk task waits; its
  only way on is new priority traffic.
\<close>

theorem bulk_lane_can_miss_wakeup:
  "\<exists>g. lane_step\<^sup>*\<^sup>* gate_init g \<and> g_waiting g = 0 \<and> g_notifies g = 0 \<and> g_bulk g = BWaiting
     \<and> (\<forall>g'. lane_step g g' \<longrightarrow> g_waiting g' = 1 \<and> g_bulk g' = BWaiting)"
proof -
  let ?g = "\<lambda>w n b. \<lparr>g_waiting = w, g_notifies = n, g_bulk = b\<rparr>"
  have "lane_step (?g 0 0 BLoad) (?g 1 0 BLoad)" using priority_enter [of "?g 0 0 BLoad"] by simp
  moreover have "lane_step (?g 1 0 BLoad) (?g 1 0 BSawBusy)" using bulk_load_busy [of "?g 1 0 BLoad"] by simp
  moreover have "lane_step (?g 1 0 BSawBusy) (?g 0 1 BSawBusy)" using priority_leave [of "?g 1 0 BSawBusy"] by simp
  moreover have "lane_step (?g 0 1 BSawBusy) (?g 0 0 BSawBusy)" using notify_waiters [of "?g 0 1 BSawBusy"] by simp
  moreover have "lane_step (?g 0 0 BSawBusy) (?g 0 0 BWaiting)" using bulk_wait [of "?g 0 0 BSawBusy"] by simp
  ultimately have "lane_step\<^sup>*\<^sup>* gate_init (?g 0 0 BWaiting)"
    unfolding gate_init_def by (meson rtranclp.rtrancl_into_rtrancl rtranclp.rtrancl_refl)
  moreover have "\<forall>g'. lane_step (?g 0 0 BWaiting) g' \<longrightarrow> g_waiting g' = 1 \<and> g_bulk g' = BWaiting"
    by (auto elim!: lane_stepE)
  ultimately show ?thesis by (intro exI [of _ "?g 0 0 BWaiting"]) simp
qed

theorem bulk_lane_can_miss_wakeup_witness:
  "\<exists>g. lane_step\<^sup>*\<^sup>* gate_init g \<and> g_bulk g = BWaiting" using bulk_lane_can_miss_wakeup by blast

end
