(* ===== verification/Config.thy ===== *)
theory Config
  imports Supervise Qos Apply "HOL-Library.Sublist"
begin

text \<open>
  The node configuration (\<open>src/config.rs\<close>) and its live reload
  (\<open>src/net.rs\<close>, \<open>Engine::reload\<close>).  The TOML parser and \<open>hex::decode\<close> are
  arguments; a key that carries a serde default is an option of \<open>raw_config\<close> and the
  default is filled in here.  A path is the string of the file;
  \<open>starts_with\<close> and \<open>with_extension\<close> are those of \<open>std::path\<close>.  A finite \<open>f64\<close> is the
  rational it denotes.  The rendering of addresses, numbers and of the bandwidth policy
  into text, which \<open>diff\<close> compares, is the record \<open>render\<close>.
\<close>

subsection \<open>Fallible steps\<close>

definition and_ok :: "'e + 'a \<Rightarrow> ('a \<Rightarrow> 'e + 'b) \<Rightarrow> 'e + 'b" where
  "and_ok r f = (case r of Inl e \<Rightarrow> Inl e | Inr a \<Rightarrow> f a)"

definition ok_or :: "'e \<Rightarrow> 'a option \<Rightarrow> 'e + 'a" where
  "ok_or e r = (case r of None \<Rightarrow> Inl e | Some a \<Rightarrow> Inr a)"

lemma and_ok_simps [simp]: "and_ok (Inl e) f = Inl e" "and_ok (Inr a) f = f a"
  by (simp_all add: and_ok_def)

named_theorems returns_iff \<open>when a chain of fallible steps returns a value\<close>

lemma and_ok_Inr [returns_iff]: "and_ok r f = Inr b \<longleftrightarrow> (\<exists>a. r = Inr a \<and> f a = Inr b)"
  by (cases r) simp_all

lemma ok_or_simps [simp]: "ok_or e None = Inl e" "ok_or e (Some a) = Inr a"
  by (simp_all add: ok_or_def)

lemma ok_or_Inr [returns_iff]: "ok_or e r = Inr a \<longleftrightarrow> r = Some a"
  by (cases r) simp_all

subsection \<open>Paths\<close>

fun join_with :: "string \<Rightarrow> string list \<Rightarrow> string" where
  "join_with sep [] = []"
| "join_with sep [w] = w"
| "join_with sep (w # ws) = w @ sep @ join_with sep ws"

definition starts_with :: "path \<Rightarrow> path \<Rightarrow> bool" where
  "starts_with p base = prefix (path_components base) (path_components p)"

text \<open>The part of a file name before its last dot; a name whose only dot is its first
  character, or without a dot, is all stem.\<close>

definition file_stem :: "string \<Rightarrow> string" where
  "file_stem f =
     (let stem = rev (tl (dropWhile (\<lambda>c. c \<noteq> CHR ''.'') (rev f)))
      in if CHR ''.'' \<in> set f \<and> stem \<noteq> '''' then stem else f)"

definition with_extension :: "string \<Rightarrow> path \<Rightarrow> path" where
  "with_extension ext p =
     (case dropWhile (\<lambda>w. w = '''' \<or> w = ''.'') (rev (split_slash p)) of
        [] \<Rightarrow> p
      | f # dirs \<Rightarrow> if f = ''..'' then p else join_with ''/'' (rev ((file_stem f @ ''.'' @ ext) # dirs)))"

subsection \<open>Data\<close>

datatype f64 = Finite rat | PosInf | NegInf | NaN

datatype invalid = UnknownDay string | BadStart string | BadEnd string | ReservePercent f64 | OwnerPolicy string

datatype config_error =
    CIo path
  | CToml
  | BadNodeId string
  | BadFingerprint string string
  | DuplicateNode string
  | BadShareDir path
  | PathInsideShare string path
  | BadChunkSizes u32 u32 u32
  | BadAdminPubkey string
  | PeersAndSeedPeers
  | Invalid invalid

record bandwidth_cfg =
  bw_global_bps :: u64
  bw_per_peer_bps :: u64
  bw_small_asset_bytes :: u64
  bw_schedule :: "schedule_rule list"

record config =
  cf_node_id :: node_id
  cf_listen :: socket_addr
  cf_share_dir :: path
  cf_db_path :: path
  cf_cas_dir :: path
  cf_cert_path :: path
  cf_key_path :: path
  cf_health_listen :: "socket_addr option"
  cf_admin_pubkey :: "admin_pubkey option"
  cf_roster_path :: path
  cf_control_socket :: path
  cf_peers :: "peer list"
  cf_quiesce_ms :: u64
  cf_scan_interval_secs :: u64
  cf_reconcile_interval_secs :: u64
  cf_max_file_bytes :: u64
  cf_chunk_min_bytes :: u32
  cf_chunk_avg_bytes :: u32
  cf_chunk_max_bytes :: u32
  cf_per_file_chunk_concurrency :: u64
  cf_max_concurrent_transfers :: u64
  cf_serve_concurrency :: u64
  cf_owner_policy :: owner_policy
  cf_bandwidth :: bandwidth_cfg
  cf_reserve_bytes :: u64
  cf_reserve_percent :: f64

record raw_peer =
  rp_node_id :: string
  rp_addr :: socket_addr
  rp_fingerprint :: string

record raw_schedule_rule =
  rr_days :: "string list"
  rr_start :: string
  rr_end :: string
  rr_global_bps :: "u64 option"
  rr_per_peer_bps :: "u64 option"

record raw_bandwidth =
  rb_global_bps :: "u64 option"
  rb_per_peer_bps :: "u64 option"
  rb_small_asset_bytes :: "u64 option"
  rb_schedule :: "raw_schedule_rule list option"

record raw_config =
  rc_node_id :: string
  rc_listen :: socket_addr
  rc_share_dir :: path
  rc_db_path :: path
  rc_cas_dir :: "path option"
  rc_cert_path :: path
  rc_key_path :: path
  rc_health_listen :: "socket_addr option"
  rc_trust :: "string option"
  rc_roster_path :: "path option"
  rc_control_socket :: "path option"
  rc_peers :: "raw_peer list option"
  rc_seed_peers :: "raw_peer list option"
  rc_quiesce_ms :: "u64 option"
  rc_scan_interval_secs :: "u64 option"
  rc_reconcile_interval_secs :: "u64 option"
  rc_max_file_bytes :: "u64 option"
  rc_chunk_min_bytes :: "u32 option"
  rc_chunk_avg_bytes :: "u32 option"
  rc_chunk_max_bytes :: "u32 option"
  rc_per_file_chunk_concurrency :: "u64 option"
  rc_max_concurrent_transfers :: "u64 option"
  rc_serve_concurrency :: "u64 option"
  rc_owner_policy :: "string option"
  rc_bandwidth :: "raw_bandwidth option"
  rc_reserve_bytes :: "u64 option"
  rc_reserve_percent :: "f64 option"

definition raw_bandwidth_default :: raw_bandwidth where
  "raw_bandwidth_default =
     \<lparr>rb_global_bps = None, rb_per_peer_bps = None, rb_small_asset_bytes = None, rb_schedule = None\<rparr>"

subsection \<open>Validation\<close>

definition is_digit :: "char \<Rightarrow> bool" where
  "is_digit c \<longleftrightarrow> 48 \<le> (of_char c :: nat) \<and> (of_char c :: nat) \<le> 57"

text \<open>\<open>str::parse\<close> at an unsigned type: an optional plus sign, then at least one digit, below the bound.\<close>

definition parse_unsigned :: "nat \<Rightarrow> string \<Rightarrow> nat option" where
  "parse_unsigned bound s =
     (let ds = (if take 1 s = ''+'' then tl s else s);
          n = foldl (\<lambda>n c. 10 * n + ((of_char c :: nat) - 48)) 0 ds
      in if ds \<noteq> [] \<and> list_all is_digit ds \<and> n < bound then Some n else None)"

definition parse_u16 :: "string \<Rightarrow> u16 option" where
  "parse_u16 s = map_option word_of_nat (parse_unsigned (2 ^ 16) s)"

definition split_once :: "char \<Rightarrow> string \<Rightarrow> (string \<times> string) option" where
  "split_once c s =
     (case dropWhile (\<lambda>x. x \<noteq> c) s of [] \<Rightarrow> None | _ # rest \<Rightarrow> Some (takeWhile (\<lambda>x. x \<noteq> c) s, rest))"

definition parse_hhmm :: "string \<Rightarrow> u16 option" where
  "parse_hhmm s =
     (case split_once CHR '':'' s of
        None \<Rightarrow> None
      | Some (h, m) \<Rightarrow>
          (case (parse_u16 h, parse_u16 m) of
             (Some h, Some m) \<Rightarrow> if h < 24 \<and> m < 60 then Some (h * 60 + m) else None
           | _ \<Rightarrow> None))"

definition SCHEDULE_DAYS :: "string list" where
  "SCHEDULE_DAYS = [''all'', ''weekday'', ''weekend'', ''sun'', ''mon'', ''tue'', ''wed'', ''thu'', ''fri'', ''sat'']"

definition validate_rule :: "raw_schedule_rule \<Rightarrow> config_error + schedule_rule" where
  "validate_rule r =
     (case List.find (\<lambda>d. d \<notin> set SCHEDULE_DAYS) (rr_days r) of
        Some d \<Rightarrow> Inl (Invalid (UnknownDay d))
      | None \<Rightarrow>
          and_ok (ok_or (Invalid (BadStart (rr_start r))) (parse_hhmm (rr_start r))) (\<lambda>start_min.
          and_ok (ok_or (Invalid (BadEnd (rr_end r))) (parse_hhmm (rr_end r))) (\<lambda>end_min.
          Inr \<lparr>sr_days = rr_days r, sr_start_min = start_min, sr_end_min = end_min,
               sr_global_bps = unwrap_or (rr_global_bps r) 0, sr_per_peer_bps = unwrap_or (rr_per_peer_bps r) 0\<rparr>)))"

fun validate_schedule :: "raw_schedule_rule list \<Rightarrow> config_error + schedule_rule list" where
  "validate_schedule [] = Inr []"
| "validate_schedule (r # raw) =
     and_ok (validate_rule r) (\<lambda>rule. and_ok (validate_schedule raw) (\<lambda>out. Inr (rule # out)))"

text \<open>\<open>hex::decode\<close> and the conversion into an array of \<open>n\<close> bytes.\<close>

definition decode_array :: "(string \<Rightarrow> bytes option) \<Rightarrow> nat \<Rightarrow> string \<Rightarrow> bytes option" where
  "decode_array hex_decode n s =
     (case hex_decode s of Some bs \<Rightarrow> if length bs = n then Some bs else None | None \<Rightarrow> None)"

definition parse_node_id :: "(string \<Rightarrow> bytes option) \<Rightarrow> string \<Rightarrow> config_error + node_id" where
  "parse_node_id hex_decode s = ok_or (BadNodeId s) (decode_array hex_decode 16 s)"

definition parse_fingerprint :: "(string \<Rightarrow> bytes option) \<Rightarrow> string \<Rightarrow> string \<Rightarrow> config_error + bytes" where
  "parse_fingerprint hex_decode p s = ok_or (BadFingerprint p s) (decode_array hex_decode 32 s)"

text \<open>\<open>AdminPubKey::from_hex\<close>; the two reasons it gives for a failure are dropped by the caller.\<close>

definition admin_pubkey_from_hex :: "(string \<Rightarrow> bytes option) \<Rightarrow> string \<Rightarrow> admin_pubkey option" where
  "admin_pubkey_from_hex hex_decode s = decode_array hex_decode 32 s"

fun validate_peers :: "(string \<Rightarrow> bytes option) \<Rightarrow> node_id list \<Rightarrow> raw_peer list \<Rightarrow> config_error + peer list" where
  "validate_peers hex_decode seen [] = Inr []"
| "validate_peers hex_decode seen (rp # raw) =
     and_ok (parse_node_id hex_decode (rp_node_id rp)) (\<lambda>pid.
     if pid \<in> set seen then Inl (DuplicateNode (rp_node_id rp))
     else and_ok (parse_fingerprint hex_decode (rp_node_id rp) (rp_fingerprint rp)) (\<lambda>fp.
          and_ok (validate_peers hex_decode (seen @ [pid]) raw) (\<lambda>peers.
          Inr (\<lparr>pe_node_id = pid, pe_addr = rp_addr rp, pe_fingerprint = fp\<rparr> # peers))))"

definition merge_aliases :: "raw_peer list option \<Rightarrow> raw_peer list option \<Rightarrow> config_error + raw_peer list" where
  "merge_aliases peers seed_peers =
     (case (peers, seed_peers) of
        (Some _, Some _) \<Rightarrow> Inl PeersAndSeedPeers
      | (Some p, None) \<Rightarrow> Inr p
      | (None, Some p) \<Rightarrow> Inr p
      | (None, None) \<Rightarrow> Inr [])"

definition check_chunk_sizes :: "u32 \<Rightarrow> u32 \<Rightarrow> u32 \<Rightarrow> config_error + unit" where
  "check_chunk_sizes mn avg mx =
     (if mn < 4096 \<or> mn > avg \<or> avg > mx \<or> mx > 64 * 1024 * 1024 then Inl (BadChunkSizes mn avg mx) else Inr ())"

definition check_reserve_percent :: "f64 \<Rightarrow> config_error + f64" where
  "check_reserve_percent x =
     (case x of Finite r \<Rightarrow> if 0 \<le> r \<and> r \<le> 95 then Inr x else Inl (Invalid (ReservePercent x))
      | _ \<Rightarrow> Inl (Invalid (ReservePercent x)))"

definition parse_owner_policy :: "string \<Rightarrow> config_error + owner_policy" where
  "parse_owner_policy s =
     (if s = ''numeric'' then Inr Numeric else if s = ''skip'' then Inr Skip else Inl (Invalid (OwnerPolicy s)))"

definition parse_trust :: "(string \<Rightarrow> bytes option) \<Rightarrow> string option \<Rightarrow> config_error + admin_pubkey option" where
  "parse_trust hex_decode t =
     (case t of None \<Rightarrow> Inr None
      | Some k \<Rightarrow> and_ok (ok_or (BadAdminPubkey k) (admin_pubkey_from_hex hex_decode k)) (\<lambda>pk. Inr (Some pk)))"

definition from_raw :: "(string \<Rightarrow> bytes option) \<Rightarrow> raw_config \<Rightarrow> config_error + config" where
  "from_raw hex_decode raw =
     and_ok (parse_node_id hex_decode (rc_node_id raw)) (\<lambda>node_id.
     and_ok (merge_aliases (rc_peers raw) (rc_seed_peers raw)) (\<lambda>raw_peers.
     and_ok (validate_peers hex_decode [node_id] raw_peers) (\<lambda>peers.
     let mn = unwrap_or (rc_chunk_min_bytes raw) (256 * 1024);
         avg = unwrap_or (rc_chunk_avg_bytes raw) (1024 * 1024);
         mx = unwrap_or (rc_chunk_max_bytes raw) (4 * 1024 * 1024);
         db = rc_db_path raw;
         bw = unwrap_or (rc_bandwidth raw) raw_bandwidth_default
     in and_ok (check_chunk_sizes mn avg mx) (\<lambda>_.
        and_ok (parse_trust hex_decode (rc_trust raw)) (\<lambda>admin.
        and_ok (validate_schedule (unwrap_or (rb_schedule bw) [])) (\<lambda>schedule.
        and_ok (check_reserve_percent (unwrap_or (rc_reserve_percent raw) (Finite 0))) (\<lambda>reserve_percent.
        and_ok (parse_owner_policy (unwrap_or (rc_owner_policy raw) ''numeric'')) (\<lambda>owner.
        Inr \<lparr>cf_node_id = node_id, cf_listen = rc_listen raw, cf_share_dir = rc_share_dir raw, cf_db_path = db,
             cf_cas_dir = unwrap_or (rc_cas_dir raw) (with_extension ''cas'' db),
             cf_cert_path = rc_cert_path raw, cf_key_path = rc_key_path raw,
             cf_health_listen = rc_health_listen raw, cf_admin_pubkey = admin,
             cf_roster_path = unwrap_or (rc_roster_path raw) (with_extension ''roster.json'' db),
             cf_control_socket = unwrap_or (rc_control_socket raw) (with_extension ''sock'' db),
             cf_peers = peers,
             cf_quiesce_ms = unwrap_or (rc_quiesce_ms raw) 300,
             cf_scan_interval_secs = unwrap_or (rc_scan_interval_secs raw) 5,
             cf_reconcile_interval_secs = unwrap_or (rc_reconcile_interval_secs raw) 300,
             cf_max_file_bytes = unwrap_or (rc_max_file_bytes raw) (64 * 1024 * 1024),
             cf_chunk_min_bytes = mn, cf_chunk_avg_bytes = avg, cf_chunk_max_bytes = mx,
             cf_per_file_chunk_concurrency = unwrap_or (rc_per_file_chunk_concurrency raw) 6,
             cf_max_concurrent_transfers = unwrap_or (rc_max_concurrent_transfers raw) 8,
             cf_serve_concurrency = unwrap_or (rc_serve_concurrency raw) 16,
             cf_owner_policy = owner,
             cf_bandwidth = \<lparr>bw_global_bps = unwrap_or (rb_global_bps bw) 0,
                             bw_per_peer_bps = unwrap_or (rb_per_peer_bps bw) 0,
                             bw_small_asset_bytes = unwrap_or (rb_small_asset_bytes bw) (256 * 1024),
                             bw_schedule = schedule\<rparr>,
             cf_reserve_bytes = unwrap_or (rc_reserve_bytes raw) (256 * 1024 * 1024),
             cf_reserve_percent = reserve_percent\<rparr>))))))))"

definition from_toml_str ::
  "(string \<Rightarrow> raw_config option) \<Rightarrow> (string \<Rightarrow> bytes option) \<Rightarrow> string \<Rightarrow> config_error + config" where
  "from_toml_str toml hex_decode text = and_ok (ok_or CToml (toml text)) (from_raw hex_decode)"

text \<open>What \<open>load\<close> asks of the filesystem at the moment it runs.\<close>

record host =
  h_read :: "path \<Rightarrow> string option"
  h_is_dir :: "path \<Rightarrow> bool"
  h_canonicalize :: "path \<Rightarrow> path option"

definition state_paths :: "config \<Rightarrow> (string \<times> path) list" where
  "state_paths cfg =
     [(''db_path'', cf_db_path cfg), (''cas_dir'', cf_cas_dir cfg), (''cert_path'', cf_cert_path cfg),
      (''key_path'', cf_key_path cfg), (''roster_path'', cf_roster_path cfg), (''control_socket'', cf_control_socket cfg)]"

definition effective_path :: "host \<Rightarrow> path \<Rightarrow> path" where
  "effective_path h p = unwrap_or (h_canonicalize h p) p"

definition config_load ::
  "(string \<Rightarrow> raw_config option) \<Rightarrow> (string \<Rightarrow> bytes option) \<Rightarrow> host \<Rightarrow> path \<Rightarrow> config_error + config" where
  "config_load toml hex_decode h p =
     and_ok (ok_or (CIo p) (h_read h p)) (\<lambda>text.
     and_ok (from_toml_str toml hex_decode text) (\<lambda>cfg.
     if \<not> h_is_dir h (cf_share_dir cfg) then Inl (BadShareDir (cf_share_dir cfg))
     else and_ok (ok_or (CIo (cf_share_dir cfg)) (h_canonicalize h (cf_share_dir cfg))) (\<lambda>root.
          case List.find (\<lambda>(what, q). starts_with (effective_path h q) root) (state_paths cfg) of
            Some hit \<Rightarrow> Inl (PathInsideShare (fst hit) (snd hit))
          | None \<Rightarrow> Inr (cfg\<lparr>cf_share_dir := root\<rparr>))))"

definition pinned_fingerprints :: "config \<Rightarrow> bytes list" where
  "pinned_fingerprints cfg = map pe_fingerprint (cf_peers cfg)"

definition cfg_peer_by_fingerprint :: "config \<Rightarrow> bytes \<Rightarrow> peer option" where
  "cfg_peer_by_fingerprint cfg fp = List.find (\<lambda>p. pe_fingerprint p = fp) (cf_peers cfg)"

definition peer_by_node_id :: "config \<Rightarrow> node_id \<Rightarrow> peer option" where
  "peer_by_node_id cfg i = List.find (\<lambda>p. pe_node_id p = i) (cf_peers cfg)"

subsection \<open>Differences and reload\<close>

record config_change =
  cc_field :: string
  cc_hot :: bool
  cc_old :: string
  cc_new :: string

record render =
  rn_addr :: "socket_addr \<Rightarrow> string"
  rn_u64 :: "u64 \<Rightarrow> string"
  rn_f64 :: "f64 \<Rightarrow> string"
  rn_bandwidth :: "bandwidth_cfg \<Rightarrow> string"

definition note_change :: "string \<Rightarrow> bool \<Rightarrow> (config \<Rightarrow> string) \<Rightarrow> config \<Rightarrow> config \<Rightarrow> config_change list" where
  "note_change field hot f cur cand =
     (if f cur \<noteq> f cand then [\<lparr>cc_field = field, cc_hot = hot, cc_old = f cur, cc_new = f cand\<rparr>] else [])"

definition fmt_peer :: "crates \<Rightarrow> render \<Rightarrow> peer \<Rightarrow> string" where
  "fmt_peer X R p = hex_encode X (pe_node_id p) @ ''@'' @ rn_addr R (pe_addr p) @ ''#'' @ hex_encode X (pe_fingerprint p)"

definition fmt_peers :: "crates \<Rightarrow> render \<Rightarrow> peer list \<Rightarrow> string" where
  "fmt_peers X R peers = join_with '','' (sort (map (fmt_peer X R) peers))"

definition diff_fields :: "crates \<Rightarrow> render \<Rightarrow> (string \<times> bool \<times> (config \<Rightarrow> string)) list" where
  "diff_fields X R =
     [(''admin_pubkey'', True, \<lambda>c. case cf_admin_pubkey c of Some k \<Rightarrow> hex_encode X k | None \<Rightarrow> ''''),
      (''peers'', True, \<lambda>c. fmt_peers X R (cf_peers c)),
      (''bandwidth'', True, \<lambda>c. rn_bandwidth R (cf_bandwidth c)),
      (''reserve'', True, \<lambda>c. rn_u64 R (cf_reserve_bytes c) @ ''B/'' @ rn_f64 R (cf_reserve_percent c) @ ''%''),
      (''node_id'', False, \<lambda>c. hex_encode X (cf_node_id c)),
      (''listen'', False, \<lambda>c. rn_addr R (cf_listen c)),
      (''share_dir'', False, cf_share_dir),
      (''db_path'', False, cf_db_path),
      (''cas_dir'', False, cf_cas_dir),
      (''cert_path'', False, cf_cert_path),
      (''key_path'', False, cf_key_path),
      (''roster_path'', False, cf_roster_path),
      (''control_socket'', False, cf_control_socket),
      (''health_listen'', False, \<lambda>c. case cf_health_listen c of Some a \<Rightarrow> rn_addr R a | None \<Rightarrow> '''')]"

definition config_diff :: "crates \<Rightarrow> render \<Rightarrow> config \<Rightarrow> config \<Rightarrow> config_change list" where
  "config_diff X R cur cand = concat (map (\<lambda>(field, hot, f). note_change field hot f cur cand) (diff_fields X R))"

text \<open>What the membership handle reads of a configuration.\<close>

definition member_part :: "config \<Rightarrow> member_cfg" where
  "member_part cfg = \<lparr>cfg_node_id = cf_node_id cfg, cfg_admin_pubkey = cf_admin_pubkey cfg,
     cfg_roster_path = cf_roster_path cfg, cfg_peers = cf_peers cfg\<rparr>"

text \<open>
  The parts of the engine a reload reaches.  \<open>pct_bp\<close> is the \<open>f64\<close> computation
  \<open>(reserve_percent * 100.0) as u64\<close>.
\<close>

record live =
  li_cfg :: config
  li_membership :: membership
  li_policy :: bandwidth_cfg
  li_limiter :: limiter
  li_reserve_bytes :: u64
  li_reserve_pct_bp :: u64

definition live_new :: "(f64 \<Rightarrow> u64) \<Rightarrow> rat \<Rightarrow> config \<Rightarrow> membership \<Rightarrow> live" where
  "live_new pct_bp now cfg m =
     \<lparr>li_cfg = cfg, li_membership = m, li_policy = cf_bandwidth cfg,
      li_limiter = limiter_new now (bw_global_bps (cf_bandwidth cfg)) (bw_per_peer_bps (cf_bandwidth cfg)),
      li_reserve_bytes = cf_reserve_bytes cfg, li_reserve_pct_bp = pct_bp (cf_reserve_percent cfg)\<rparr>"

definition reload ::
  "crates \<Rightarrow> codec \<Rightarrow> render \<Rightarrow> (f64 \<Rightarrow> u64) \<Rightarrow> rat \<Rightarrow> config \<Rightarrow> live
     \<Rightarrow> live \<times> (membership_error + config_change list)" where
  "reload X J R pct_bp now cand e =
     (let changes = config_diff X R (li_cfg e) cand;
          (m, res) = apply_reload X J (member_part cand) (li_membership e)
      in case res of
           Inl err \<Rightarrow> (e\<lparr>li_membership := m\<rparr>, Inl err)
         | Inr _ \<Rightarrow>
             (e\<lparr>li_membership := m, li_policy := cf_bandwidth cand,
                li_limiter := set_rates now (bw_global_bps (cf_bandwidth cand)) (bw_per_peer_bps (cf_bandwidth cand)) (li_limiter e),
                li_reserve_bytes := cf_reserve_bytes cand, li_reserve_pct_bp := pct_bp (cf_reserve_percent cand)\<rparr>,
              Inr changes))"

subsection \<open>What a validated configuration satisfies\<close>

definition rule_ok :: "schedule_rule \<Rightarrow> bool" where
  "rule_ok r \<longleftrightarrow> set (sr_days r) \<subseteq> set SCHEDULE_DAYS \<and> sr_start_min r < 1440 \<and> sr_end_min r < 1440"

definition peer_ok :: "peer \<Rightarrow> bool" where
  "peer_ok p \<longleftrightarrow> length (pe_node_id p) = 16 \<and> length (pe_fingerprint p) = 32"

definition percent_ok :: "f64 \<Rightarrow> bool" where
  "percent_ok x \<longleftrightarrow> (case x of Finite r \<Rightarrow> 0 \<le> r \<and> r \<le> 95 | _ \<Rightarrow> False)"

definition config_ok :: "config \<Rightarrow> bool" where
  "config_ok cfg \<longleftrightarrow>
     length (cf_node_id cfg) = 16 \<and> distinct (cf_node_id cfg # map pe_node_id (cf_peers cfg))
     \<and> list_all peer_ok (cf_peers cfg)
     \<and> 4096 \<le> cf_chunk_min_bytes cfg \<and> cf_chunk_min_bytes cfg \<le> cf_chunk_avg_bytes cfg
     \<and> cf_chunk_avg_bytes cfg \<le> cf_chunk_max_bytes cfg \<and> cf_chunk_max_bytes cfg \<le> 64 * 1024 * 1024
     \<and> pred_option (\<lambda>k. length k = 32) (cf_admin_pubkey cfg)
     \<and> list_all rule_ok (bw_schedule (cf_bandwidth cfg)) \<and> percent_ok (cf_reserve_percent cfg)"

lemma parse_hhmm_minute: "parse_hhmm s = Some t \<Longrightarrow> t < 1440"
proof -
  assume "parse_hhmm s = Some t"
  then obtain h m :: u16 where t: "t = h * 60 + m" and "h < 24" "m < 60"
    by (auto simp: parse_hhmm_def split: option.splits if_splits)
  then have "unat h < 24" "unat m < 60" by (simp_all add: word_less_nat_alt)
  then have "unat t = unat h * 60 + unat m" by (simp add: t unat_word_ariths)
  with \<open>unat h < 24\<close> \<open>unat m < 60\<close> show "t < 1440" by (simp add: word_less_nat_alt)
qed

lemma validate_rule_ok: "validate_rule r = Inr rule \<Longrightarrow> rule_ok rule"
  by (auto simp: validate_rule_def returns_iff rule_ok_def find_None_iff parse_hhmm_minute split: option.splits)

lemma validate_schedule_ok: "validate_schedule raw = Inr out \<Longrightarrow> list_all rule_ok out \<and> length out = length raw"
  by (induction raw arbitrary: out) (auto simp: returns_iff validate_rule_ok)

lemma decode_array_length: "decode_array f n s = Some bs \<Longrightarrow> length bs = n"
  by (auto simp: decode_array_def split: option.splits if_splits)

lemma parse_array_length:
  "parse_node_id f s = Inr i \<Longrightarrow> length i = 16"
  "parse_fingerprint f p s = Inr fp \<Longrightarrow> length fp = 32"
  "parse_trust f t = Inr k \<Longrightarrow> pred_option (\<lambda>k. length k = 32) k"
  by (auto simp: parse_node_id_def parse_fingerprint_def parse_trust_def admin_pubkey_from_hex_def returns_iff
      decode_array_length split: option.splits)

lemma validate_peers_ok:
  "validate_peers f seen raw = Inr ps \<Longrightarrow> distinct seen \<Longrightarrow>
     list_all peer_ok ps \<and> distinct (seen @ map pe_node_id ps)"
proof (induction raw arbitrary: seen ps)
  case (Cons rp raw)
  then obtain i fp qs where i: "parse_node_id f (rp_node_id rp) = Inr i" "i \<notin> set seen"
    and fp: "parse_fingerprint f (rp_node_id rp) (rp_fingerprint rp) = Inr fp"
    and qs: "validate_peers f (seen @ [i]) raw = Inr qs"
    and ps: "ps = \<lparr>pe_node_id = i, pe_addr = rp_addr rp, pe_fingerprint = fp\<rparr> # qs"
    by (auto simp: returns_iff split: if_splits)
  have "list_all peer_ok qs \<and> distinct ((seen @ [i]) @ map pe_node_id qs)"
    using Cons.IH [OF qs] Cons.prems i by simp
  moreover have "peer_ok \<lparr>pe_node_id = i, pe_addr = rp_addr rp, pe_fingerprint = fp\<rparr>"
    using i fp by (simp add: peer_ok_def parse_array_length)
  ultimately show ?case by (auto simp: ps)
qed simp

lemma from_raw_ok: "from_raw f raw = Inr cfg \<Longrightarrow> config_ok cfg"
  by (auto simp: from_raw_def returns_iff Let_def config_ok_def check_chunk_sizes_def check_reserve_percent_def percent_ok_def
      not_less parse_array_length validate_schedule_ok dest!: validate_peers_ok split: if_splits f64.splits)

lemma from_toml_ok: "from_toml_str toml f text = Inr cfg \<Longrightarrow> config_ok cfg"
  by (auto simp: from_toml_str_def returns_iff from_raw_ok)

lemma find_by_key: "distinct (map k xs) \<Longrightarrow> x \<in> set xs \<Longrightarrow> List.find (\<lambda>y. k y = k x) xs = Some x"
  by (induction xs) auto

lemma find_case_Inr [returns_iff]:
  "(case List.find P xs of Some w \<Rightarrow> Inl (f w) | None \<Rightarrow> Inr c) = Inr d \<longleftrightarrow> (\<forall>x \<in> set xs. \<not> P x) \<and> c = d"
  by (induction xs) auto

subsection \<open>Reload\<close>

lemma diff_same [simp]: "config_diff X R c c = []"
  by (simp add: config_diff_def diff_fields_def note_change_def)

lemma fmt_peers_order: "mset ps = mset qs \<Longrightarrow> fmt_peers X R ps = fmt_peers X R qs"
  by (simp add: fmt_peers_def flip: sorted_list_of_multiset_mset)

lemma diff_has_roster_path:
  "cf_roster_path cand \<noteq> cf_roster_path cur \<Longrightarrow>
     \<lparr>cc_field = ''roster_path'', cc_hot = False, cc_old = cf_roster_path cur, cc_new = cf_roster_path cand\<rparr>
       \<in> set (config_diff X R cur cand)"
  unfolding config_diff_def set_concat set_map UN_iff image_image
  by (rule bexI [of _ "(''roster_path'', False, cf_roster_path)"]) (simp_all add: note_change_def diff_fields_def)

lemma diff_reads:
  assumes "cf_admin_pubkey c = cf_admin_pubkey d" "fmt_peers X R (cf_peers c) = fmt_peers X R (cf_peers d)"
    "cf_bandwidth c = cf_bandwidth d" "cf_reserve_bytes c = cf_reserve_bytes d" "cf_reserve_percent c = cf_reserve_percent d"
    "cf_node_id c = cf_node_id d" "cf_listen c = cf_listen d" "cf_health_listen c = cf_health_listen d"
    "cf_share_dir c = cf_share_dir d" "state_paths c = state_paths d"
  shows "config_diff X R cur c = config_diff X R cur d"
  using assms(10)
  by (simp only: config_diff_def diff_fields_def note_change_def assms list.map prod.case state_paths_def list.inject prod.inject)

lemma apply_reload_cases:
  "apply_reload X J cfg m = (m', r) \<Longrightarrow>
     (case r of
        Inl e \<Rightarrow> m' = m
      | Inr _ \<Rightarrow> (\<exists>roster. load_roster X J cfg (mb_disk m) = Inr roster \<and> mb_roster m' = roster)
                \<and> mb_admin_pubkey m' = cfg_admin_pubkey cfg \<and> mb_roster_path m' = cfg_roster_path cfg
                \<and> mb_seeds m' = cfg_peers cfg \<and> mb_our_node_id m' = mb_our_node_id m \<and> mb_disk m' = mb_disk m)"
  by (auto simp: apply_reload_def recompute_def Let_def split: sum.splits)

lemma member_part_simps [simp]:
  "cfg_admin_pubkey (member_part cfg) = cf_admin_pubkey cfg" "cfg_roster_path (member_part cfg) = cf_roster_path cfg"
  "cfg_peers (member_part cfg) = cf_peers cfg" "cfg_node_id (member_part cfg) = cf_node_id cfg"
  by (simp_all add: member_part_def)

lemma rates_after_set [simp]: "limiter_rates (set_rates now g p l) = (g, p)"
  by (simp add: limiter_rates_def set_rates_def set_rate_def Let_def)

subsection \<open>Examples\<close>

text \<open>A reading of hexadecimal text for examples, the inverse of the one of \<open>plain_crates\<close>.\<close>

lemma length_as_bytes [simp]: "length (as_bytes s) = length s"
  by (simp add: as_bytes_def)

definition plain_hex :: "string \<Rightarrow> bytes option" where
  "plain_hex s = Some (as_bytes s)"

definition sample_addr :: socket_addr where "sample_addr = V4 [10, 0, 0, 1] 7000"

definition sample_peer :: raw_peer where
  "sample_peer = \<lparr>rp_node_id = ''node-b----------'', rp_addr = sample_addr, rp_fingerprint = replicate 32 CHR ''f''\<rparr>"

definition sample_raw :: "path \<Rightarrow> path \<Rightarrow> raw_config" where
  "sample_raw share db =
     \<lparr>rc_node_id = ''node-a----------'', rc_listen = sample_addr, rc_share_dir = share, rc_db_path = db,
      rc_cas_dir = None, rc_cert_path = ''/etc/a.pem'', rc_key_path = ''/etc/a.key'', rc_health_listen = None,
      rc_trust = None, rc_roster_path = None, rc_control_socket = None, rc_peers = Some [sample_peer], rc_seed_peers = None,
      rc_quiesce_ms = None, rc_scan_interval_secs = None, rc_reconcile_interval_secs = None, rc_max_file_bytes = None,
      rc_chunk_min_bytes = None, rc_chunk_avg_bytes = None, rc_chunk_max_bytes = None,
      rc_per_file_chunk_concurrency = None, rc_max_concurrent_transfers = None, rc_serve_concurrency = None,
      rc_owner_policy = None,
      rc_bandwidth = Some \<lparr>rb_global_bps = None, rb_per_peer_bps = None, rb_small_asset_bytes = None,
        rb_schedule = Some [\<lparr>rr_days = [''weekday''], rr_start = ''09:00'', rr_end = ''17:30'',
                             rr_global_bps = Some 1000, rr_per_peer_bps = None\<rparr>]\<rparr>,
      rc_reserve_bytes = None, rc_reserve_percent = None\<rparr>"

definition sample_toml :: "string \<Rightarrow> raw_config option" where
  "sample_toml text = (if text = ''good'' then Some (sample_raw ''/data'' ''/data/state.db'') else None)"

text \<open>A host on which \<open>/data\<close> is a symbolic link to \<open>/srv/a\<close> and the state files do not exist yet.\<close>

definition linked_host :: host where
  "linked_host = \<lparr>h_read = (\<lambda>_. Some ''good''), h_is_dir = (\<lambda>p. p = ''/data'' \<or> p = ''/srv/a''),
     h_canonicalize = (\<lambda>p. if p = ''/data'' \<or> p = ''/srv/a'' then Some ''/srv/a'' else None)\<rparr>"

definition plain_render :: render where
  "plain_render = \<lparr>rn_addr = (\<lambda>a. map (\<lambda>b. char_of (unat b)) (ip a)), rn_u64 = (\<lambda>n. map (\<lambda>b. char_of (unat b)) (u64_be n)),
     rn_f64 = (\<lambda>_. ''0''), rn_bandwidth = (\<lambda>b. map (\<lambda>b. char_of (unat b)) (u64_be (bw_global_bps b)))\<rparr>"

text \<open>The configuration the example file of \<open>sample_toml\<close> denotes.\<close>

definition sample_config :: config where
  "sample_config = (case from_toml_str sample_toml plain_hex ''good'' of Inr c \<Rightarrow> c)"

lemma sample_minutes: "parse_hhmm ''09:00'' = Some 540" "parse_hhmm ''17:30'' = Some 1050"
  by (simp_all add: parse_hhmm_def split_once_def parse_u16_def parse_unsigned_def is_digit_def word_less_nat_alt)

lemma sample_extensions:
  "with_extension ''cas'' ''/data/state.db'' = ''/data/state.cas''"
  "with_extension ''roster.json'' ''/data/state.db'' = ''/data/state.roster.json''"
  "with_extension ''sock'' ''/data/state.db'' = ''/data/state.sock''"
  by (simp_all add: with_extension_def file_stem_def)

lemmas sample_pieces = sample_minutes sample_extensions

lemma sample_accepted:
  "\<exists>c. from_toml_str sample_toml plain_hex ''good'' = Inr c \<and> cf_node_id c = as_bytes ''node-a----------''
     \<and> cf_share_dir c = ''/data'' \<and> state_paths c =
     [(''db_path'', ''/data/state.db''), (''cas_dir'', ''/data/state.cas''), (''cert_path'', ''/etc/a.pem''),
      (''key_path'', ''/etc/a.key''), (''roster_path'', ''/data/state.roster.json''), (''control_socket'', ''/data/state.sock'')]"
  by (simp add: from_toml_str_def sample_toml_def from_raw_def sample_raw_def sample_peer_def parse_node_id_def
      parse_fingerprint_def decode_array_def plain_hex_def
      merge_aliases_def parse_trust_def check_chunk_sizes_def
      validate_rule_def sample_pieces SCHEDULE_DAYS_def check_reserve_percent_def parse_owner_policy_def state_paths_def Let_def)

lemma sample_evaluates: "from_toml_str sample_toml plain_hex ''good'' = Inr sample_config"
  "cf_node_id sample_config = as_bytes ''node-a----------''" "cf_share_dir sample_config = ''/data''"
  "state_paths sample_config =
     [(''db_path'', ''/data/state.db''), (''cas_dir'', ''/data/state.cas''), (''cert_path'', ''/etc/a.pem''),
      (''key_path'', ''/etc/a.key''), (''roster_path'', ''/data/state.roster.json''), (''control_socket'', ''/data/state.sock'')]"
  using sample_accepted by (auto simp: sample_config_def)

lemma sample_loads:
  "config_load sample_toml plain_hex linked_host ''/etc/a.toml'' = Inr (sample_config\<lparr>cf_share_dir := ''/srv/a''\<rparr>)"
  by (simp add: config_load_def linked_host_def sample_evaluates effective_path_def starts_with_def path_components_def name_component_def)

definition sample_member :: membership where
  "sample_member = \<lparr>mb_our_node_id = [9], mb_admin_pubkey = None, mb_roster_path = ''/data/state.roster.json'', mb_seeds = [],
     mb_roster = [], mb_effective = [], mb_allowlist = {}, mb_changed = 0, mb_disk = (\<lambda>_. NotFound), mb_saves = 0\<rparr>"

text \<open>An engine started with the sample, and a candidate with another roster path.\<close>

definition sample_live :: live where
  "sample_live = live_new (\<lambda>_. 0) 0 sample_config sample_member"

definition sample_candidate :: config where
  "sample_candidate = sample_config\<lparr>cf_roster_path := ''/data/other.json'', cf_admin_pubkey := None\<rparr>"

lemma sample_reload:
  "\<exists>e' changes. reload plain_crates plain_codec plain_render (\<lambda>_. 0) 0 sample_candidate sample_live = (e', Inr changes)"
  by (simp add: reload_def apply_reload_def load_roster_def member_part_def sample_candidate_def Let_def)

lemma sample_roster_path: "cf_roster_path sample_config = ''/data/state.roster.json''"
  using sample_evaluates(4) by (simp add: state_paths_def)

subsection \<open>Properties\<close>

text \<open>
  C35. A configuration that passes validation is well formed: the node id has 16 bytes and
  differs from those of the peers, which are pairwise different; fingerprints and the
  admin key have 32 bytes; the chunk bounds are ordered and within 4 KiB and 64 MiB;
  every schedule rule names known days and minutes of a day; the reserved share is a
  number between 0 and 95.  So looking a configured peer up by its node id finds it.
\<close>

theorem validated_config_is_well_formed:
  assumes "from_toml_str toml hex_decode text = Inr cfg"
  shows "config_ok cfg \<and> (\<forall>p. p \<in> set (cf_peers cfg) \<longrightarrow> peer_by_node_id cfg (pe_node_id p) = Some p)
       \<and> peer_by_node_id cfg (cf_node_id cfg) = None"
proof -
  have ok: "config_ok cfg" by (rule from_toml_ok [OF assms])
  then have d: "distinct (map pe_node_id (cf_peers cfg))" "cf_node_id cfg \<notin> pe_node_id ` set (cf_peers cfg)"
    by (simp_all add: config_ok_def)
  have "peer_by_node_id cfg (pe_node_id p) = Some p" if "p \<in> set (cf_peers cfg)" for p
    using find_by_key [OF d(1) that] by (simp add: peer_by_node_id_def)
  moreover have "peer_by_node_id cfg (cf_node_id cfg) = None"
    using d(2) unfolding peer_by_node_id_def find_None_iff by (metis imageI)
  ultimately show ?thesis using ok by blast
qed

theorem validated_config_is_well_formed_witness:
  "config_ok sample_config \<and> peer_by_node_id sample_config (as_bytes ''node-a----------'') = None"
  using validated_config_is_well_formed [OF sample_evaluates(1)] by (simp add: sample_evaluates)



text \<open>
  A state path that does not exist yet is compared as it is written: it passes whenever
  its text does not begin with the canonical share, although the directory it is going
  to be created in may be the share itself, reached through a symbolic link or a
  relative path.
\<close>

theorem load_compares_missing_paths_as_text:
  assumes "h_read h p = Some text" and "from_toml_str toml hex_decode text = Inr cfg"
    and "h_is_dir h (cf_share_dir cfg)" and "h_canonicalize h (cf_share_dir cfg) = Some canon"
    and "\<forall>(what, q) \<in> set (state_paths cfg). h_canonicalize h q = None \<and> \<not> starts_with q canon"
  shows "config_load toml hex_decode h p = Inr (cfg\<lparr>cf_share_dir := canon\<rparr>)"
proof -
  have "List.find (\<lambda>(what, q). starts_with (effective_path h q) canon) (state_paths cfg) = None"
    using assms(5) by (auto simp: find_None_iff effective_path_def)
  then show ?thesis using assms(1-4) by (simp add: config_load_def)
qed

theorem load_compares_missing_paths_as_text_witness:
  "config_load sample_toml plain_hex linked_host ''/etc/a.toml'' = Inr (sample_config\<lparr>cf_share_dir := ''/srv/a''\<rparr>)
   \<and> cf_db_path sample_config = ''/data/state.db'' \<and> h_canonicalize linked_host ''/data'' = Some ''/srv/a''"
proof -
  have "config_load sample_toml plain_hex linked_host ''/etc/a.toml'' = Inr (sample_config\<lparr>cf_share_dir := ''/srv/a''\<rparr>)"
    by (rule load_compares_missing_paths_as_text [of _ _ "''good''"])
      (simp_all add: linked_host_def sample_evaluates starts_with_def path_components_def name_component_def)
  then show ?thesis using sample_evaluates(4) by (simp add: linked_host_def state_paths_def)
qed

text \<open>
  C37. A reload is all or nothing.  When it fails the engine is unchanged; when it succeeds the
  admin key, the seeds, the bandwidth policy, the live rates and the reserve are those of
  the candidate, the identity of the node stays, and the changes it reports are those
  against the configuration the daemon was started with, which is never replaced.
\<close>

theorem reload_all_or_nothing:
  assumes "reload X J R pct_bp now cand e = (e', r)"
  shows "case r of
      Inl _ \<Rightarrow> e' = e
    | Inr changes \<Rightarrow>
        changes = config_diff X R (li_cfg e) cand \<and> li_cfg e' = li_cfg e
        \<and> mb_admin_pubkey (li_membership e') = cf_admin_pubkey cand \<and> mb_seeds (li_membership e') = cf_peers cand
        \<and> mb_our_node_id (li_membership e') = mb_our_node_id (li_membership e)
        \<and> li_policy e' = cf_bandwidth cand
        \<and> limiter_rates (li_limiter e') = (bw_global_bps (cf_bandwidth cand), bw_per_peer_bps (cf_bandwidth cand))
        \<and> li_reserve_bytes e' = cf_reserve_bytes cand \<and> li_reserve_pct_bp e' = pct_bp (cf_reserve_percent cand)"
proof -
  obtain m res where m: "apply_reload X J (member_part cand) (li_membership e) = (m, res)" by fastforce
  show ?thesis using assms apply_reload_cases [OF m]
    by (auto simp: reload_def m Let_def split: sum.splits)
qed

theorem reload_all_or_nothing_witness:
  "\<exists>e' changes. reload plain_crates plain_codec plain_render (\<lambda>_. 0) 0 sample_candidate sample_live = (e', Inr changes)
     \<and> li_cfg e' = sample_config \<and> mb_seeds (li_membership e') = cf_peers sample_candidate"
proof -
  obtain e' changes where run: "reload plain_crates plain_codec plain_render (\<lambda>_. 0) 0 sample_candidate sample_live = (e', Inr changes)"
    using sample_reload by blast
  show ?thesis using run reload_all_or_nothing [OF run] by (simp add: sample_live_def live_new_def)
qed

text \<open>
  A changed roster path is reported as requiring a restart, and yet a successful reload
  moves the roster there: the path is replaced and the roster is the one read from it.
\<close>

theorem reload_moves_the_roster:
  assumes "reload X J R pct_bp now cand e = (e', Inr changes)"
    and "cf_roster_path cand \<noteq> cf_roster_path (li_cfg e)"
  shows "\<lparr>cc_field = ''roster_path'', cc_hot = False, cc_old = cf_roster_path (li_cfg e), cc_new = cf_roster_path cand\<rparr> \<in> set changes
       \<and> mb_roster_path (li_membership e') = cf_roster_path cand
       \<and> load_roster X J (member_part cand) (mb_disk (li_membership e)) = Inr (mb_roster (li_membership e'))"
proof -
  obtain m res where m: "apply_reload X J (member_part cand) (li_membership e) = (m, res)" by fastforce
  show ?thesis using assms apply_reload_cases [OF m]
    by (auto simp: reload_def m Let_def diff_has_roster_path split: sum.splits)
qed

theorem reload_moves_the_roster_witness:
  "\<exists>e' changes. reload plain_crates plain_codec plain_render (\<lambda>_. 0) 0 sample_candidate sample_live = (e', Inr changes)
     \<and> (\<exists>c \<in> set changes. cc_field c = ''roster_path'' \<and> \<not> cc_hot c) \<and> mb_roster_path (li_membership e') = ''/data/other.json''"
proof -
  obtain e' changes where run: "reload plain_crates plain_codec plain_render (\<lambda>_. 0) 0 sample_candidate sample_live = (e', Inr changes)"
    using sample_reload by blast
  have "cf_roster_path sample_candidate \<noteq> cf_roster_path (li_cfg sample_live)"
    by (simp add: sample_candidate_def sample_live_def live_new_def sample_roster_path)
  from reload_moves_the_roster [OF run this] show ?thesis using run by (force simp: sample_candidate_def)
qed

text \<open>
  The difference looks at fourteen fields only: intervals, size bounds, chunk bounds,
  concurrency limits and the owner policy of the candidate can be anything without being
  reported, although they take effect at a restart only.  Reordering the peers is not a
  difference.
\<close>

theorem diff_is_silent_about_tuning:
  assumes "mset peers = mset (cf_peers cand)"
  shows "config_diff X R cur (cand\<lparr>cf_peers := peers, cf_quiesce_ms := q, cf_scan_interval_secs := s, cf_reconcile_interval_secs := r,
      cf_max_file_bytes := b, cf_chunk_min_bytes := mn, cf_chunk_avg_bytes := av, cf_chunk_max_bytes := mx,
      cf_per_file_chunk_concurrency := pc, cf_max_concurrent_transfers := mt, cf_serve_concurrency := sc, cf_owner_policy := po\<rparr>)
    = config_diff X R cur cand"
  by (rule diff_reads) (simp_all add: fmt_peers_order [OF assms] state_paths_def)

theorem diff_is_silent_about_tuning_witness:
  "config_diff plain_crates plain_render sample_config
     (sample_config\<lparr>cf_peers := rev (cf_peers sample_config), cf_quiesce_ms := 1, cf_scan_interval_secs := 2,
        cf_reconcile_interval_secs := 3, cf_max_file_bytes := 4, cf_chunk_min_bytes := 5, cf_chunk_avg_bytes := 6, cf_chunk_max_bytes := 7,
        cf_per_file_chunk_concurrency := 8, cf_max_concurrent_transfers := 9, cf_serve_concurrency := 10, cf_owner_policy := Skip\<rparr>)
   = []"
  using diff_is_silent_about_tuning [of "rev (cf_peers sample_config)" sample_config plain_crates plain_render sample_config]
  by simp

end
