(* ===== verification/Pause.thy ===== *)
theory Pause
  imports Qos
begin

text \<open>
  The pause gate and the free-space guard of the engine (\<open>src/net.rs\<close>): the flag an
  operator sets, the flag of the guard, and one transfer that passes \<open>guard_free_space\<close>
  and \<open>await_unpaused\<close>.  A turn of the transfer goes from one access of shared state to the
  next; \<open>resume_notify\<close> is a \<open>tokio::sync::Notify\<close>, whose \<open>notify_waiters\<close> wakes the
  futures that exist and stores no permit.  Whether there is room is an argument of a turn.
\<close>

datatype transfer =
    AtCheck      \<comment> \<open>about to look at the free space\<close>
  | AtLoad       \<comment> \<open>about to load the flag in \<open>await_unpaused\<close>\<close>
  | SawPaused    \<comment> \<open>saw it set, about to create the \<open>Notified\<close> future\<close>
  | Parked       \<comment> \<open>waits for a notification\<close>
  | Through

record pause_gate =
  pg_paused :: bool
  pg_guard :: bool
  pg_trips :: u64
  pg_task :: transfer

definition pause :: "pause_gate \<Rightarrow> pause_gate" where
  "pause g = g\<lparr>pg_paused := True\<rparr>"

definition resume :: "pause_gate \<Rightarrow> pause_gate" where
  "resume g = g\<lparr>pg_paused := False, pg_task := (if pg_task g = Parked then AtLoad else pg_task g)\<rparr>"

definition is_paused :: "pause_gate \<Rightarrow> bool" where "is_paused g = pg_paused g"

definition free_space_ok :: "(u64 \<Rightarrow> u64) \<Rightarrow> u64 \<Rightarrow> statvfs option list \<Rightarrow> u64 \<Rightarrow> bool" where
  "free_space_ok percent_of reserve filesystems incoming =
     list_all (\<lambda>st. case available_above_reserve percent_of st reserve of Some avail \<Rightarrow> avail \<ge> incoming | None \<Rightarrow> False) filesystems"

definition guard_trip :: "pause_gate \<Rightarrow> pause_gate" where
  "guard_trip g =
     (let first = \<not> pg_guard g; g = g\<lparr>pg_guard := True\<rparr>
      in if first \<and> \<not> is_paused g then pause (g\<lparr>pg_trips := pg_trips g + 1\<rparr>) else g)"

definition guard_free_space :: "bool \<Rightarrow> pause_gate \<Rightarrow> pause_gate" where
  "guard_free_space room g = (if room then g\<lparr>pg_task := Through\<rparr> else (guard_trip g)\<lparr>pg_task := AtLoad\<rparr>)"

definition await_unpaused :: "pause_gate \<Rightarrow> pause_gate" where
  "await_unpaused g =
     (case pg_task g of
        AtLoad \<Rightarrow> g\<lparr>pg_task := (if pg_paused g then SawPaused else AtCheck)\<rparr>
      | SawPaused \<Rightarrow> g\<lparr>pg_task := Parked\<rparr>
      | _ \<Rightarrow> g)"

text \<open>The part of \<open>spawn_policy_tasks\<close> that lifts a pause, with the answer of its probe.\<close>

definition guard_probe :: "bool \<Rightarrow> pause_gate \<Rightarrow> pause_gate" where
  "guard_probe room g = (if pg_guard g \<and> room then resume (g\<lparr>pg_guard := False\<rparr>) else g)"

datatype gate_event = OpPause | OpResume | Probe bool | Turn bool

definition gate_step :: "gate_event \<Rightarrow> pause_gate \<Rightarrow> pause_gate" where
  "gate_step ev g =
     (case ev of
        OpPause \<Rightarrow> pause g
      | OpResume \<Rightarrow> resume g
      | Probe room \<Rightarrow> guard_probe room g
      | Turn room \<Rightarrow> if pg_task g = AtCheck then guard_free_space room g else await_unpaused g)"

definition gate_new :: pause_gate where
  "gate_new = \<lparr>pg_paused = False, pg_guard = False, pg_trips = 0, pg_task = AtCheck\<rparr>"

lemmas gate_defs = gate_step_def pause_def resume_def is_paused_def guard_trip_def guard_free_space_def await_unpaused_def
  guard_probe_def Let_def

subsection \<open>Failing closed\<close>

text \<open>A transfer passes only by a look that finds room; a file system that cannot be asked has none.\<close>

lemma passes_with_room:
  "pg_task (gate_step ev g) = Through \<Longrightarrow> pg_task g \<noteq> Through \<Longrightarrow> ev = Turn True \<and> pg_task g = AtCheck"
  by (auto simp: gate_defs split: gate_event.splits transfer.splits if_splits)

lemma unreadable_has_no_room: "None \<in> set filesystems \<Longrightarrow> \<not> free_space_ok percent_of reserve filesystems incoming"
  by (auto simp: free_space_ok_def list_all_iff available_above_reserve_def intro: bexI [of _ None])

text \<open>With no operator the two flags agree.\<close>

definition by_guard :: "gate_event \<Rightarrow> bool" where
  "by_guard ev \<longleftrightarrow> ev \<noteq> OpPause \<and> ev \<noteq> OpResume"

lemma flags_agree: "list_all by_guard evs \<Longrightarrow> pg_paused g = pg_guard g \<Longrightarrow> pg_paused (fold gate_step evs g) = pg_guard (fold gate_step evs g)"
  by (induction evs arbitrary: g)
    (auto simp: by_guard_def gate_defs split: gate_event.splits transfer.splits if_splits)

subsection \<open>What the guard does to the operator\<close>

text \<open>
  The guard lifts a pause it did not set.  Whatever the state, when the operator
  pauses, a transfer finds no room and the probe later finds room, the engine runs again
  although the operator never resumed it; and when the operator resumes while the guard is
  tripped and room is still missing, the transfer goes round its loop without stopping at
  the gate, any number of times.
\<close>

theorem guard_overrides_operator:
  assumes "pg_task g = AtCheck"
  shows "\<not> pg_paused (fold gate_step [OpPause, Turn False, Probe True] g)
    \<and> (pg_guard g \<longrightarrow> ((gate_step (Turn False) \<circ> gate_step (Turn False)) ^^ k) (gate_step OpResume g) = gate_step OpResume g)"
proof -
  have "((gate_step (Turn False) \<circ> gate_step (Turn False)) ^^ k) h = h" if "pg_task h = AtCheck" "pg_guard h" "\<not> pg_paused h" for h
    using that by (induction k) (auto simp: gate_defs)
  with assms show ?thesis by (auto simp: gate_defs)
qed

theorem guard_overrides_operator_witness: "\<not> pg_paused (fold gate_step [OpPause, Turn False, Probe True] gate_new)"
  using guard_overrides_operator [of gate_new 0] by (simp add: gate_new_def)

text \<open>
  A transfer can miss the end of a pause: the flag is cleared and the waiters are notified
  between its look at the flag and the creation of its future.  It then waits, with nothing
  paused, through every further turn and every probe that has nothing to lift.
\<close>

lemma wakeup_can_be_lost:
  "let g = fold gate_step [Turn False, Turn False, Probe True, Turn False] gate_new
   in \<not> pg_paused g \<and> \<not> pg_guard g \<and> (\<forall>evs. list_all by_guard evs \<longrightarrow> fold gate_step evs g = g)"
proof -
  let ?g = "fold gate_step [Turn False, Turn False, Probe True, Turn False] gate_new"
  have g: "pg_task ?g = Parked" "\<not> pg_paused ?g" "\<not> pg_guard ?g" by (simp_all add: gate_defs gate_new_def)
  have "fold gate_step evs h = h" if "list_all by_guard evs" "pg_task h = Parked" "\<not> pg_guard h" for evs h
    using that by (induction evs) (auto simp: by_guard_def gate_defs split: gate_event.splits)
  with g show ?thesis unfolding Let_def by blast
qed

end
