(* ===== verification/Control.thy ===== *)
theory Control
  imports Config Session Pause
begin

text \<open>
  The operator control plane: the requests of \<open>src/control.rs\<close> and what they do to the
  engine (the accessors of \<open>src/net.rs\<close>), the policy task that retunes the bandwidth, and
  the command line client \<open>src/bin/replicorectl.rs\<close>.  One request is served as one step
  of the daemon, since every handler but \<open>resync\<close> runs without awaiting; the answers of peers
  and the counters other tasks keep are arguments.  The texts of replies are constructors:
  what they say is kept, how it is worded is not.
\<close>

subsection \<open>The daemon as the control plane sees it\<close>

record stats =
  st_chunks_fetched :: u64
  st_chunks_served :: u64
  st_bytes_in :: u64
  st_bytes_out :: u64
  st_manifests_fetched :: u64
  st_reconcile_runs :: u64
  st_inflight_transfers :: i64
  st_conflicts :: u64
  st_chunks_cache_hits :: u64
  st_freespace_trips :: u64
  st_apply_errors :: u64

text \<open>\<open>Stats::default()\<close>.\<close>

definition idle_stats :: stats where
  "idle_stats = \<lparr>st_chunks_fetched = 0, st_chunks_served = 0, st_bytes_in = 0, st_bytes_out = 0, st_manifests_fetched = 0,
     st_reconcile_runs = 0, st_inflight_transfers = 0, st_conflicts = 0, st_chunks_cache_hits = 0, st_freespace_trips = 0,
     st_apply_errors = 0\<rparr>"

definition stat_add :: "u64 \<Rightarrow> u64 \<Rightarrow> u64" where "stat_add counter n = counter + n"

definition gauge_inc :: "i64 \<Rightarrow> i64" where "gauge_inc g = i64_add g 1"

definition gauge_dec :: "i64 \<Rightarrow> i64" where "gauge_dec g = i64_add g (- 1)"

record daemon =
  dm_live :: live
  dm_gate :: pause_gate
  dm_node :: node
  dm_conns :: conn_registry
  dm_reg :: peer_registry
  dm_join :: tracker

text \<open>
  What a request reads from outside: the counters, the wall clock, the host, the traversal
  order of the hash maps, the status a connected peer reports within three seconds, and its
  side of an anti-entropy session.
\<close>

record ctl_env =
  ce_codec :: codec
  ce_save_io :: "nat \<Rightarrow> save_fault option"
  ce_render :: render
  ce_toml :: "string \<Rightarrow> raw_config option"
  ce_hex_decode :: "string \<Rightarrow> bytes option"
  ce_host :: host
  ce_pct_bp :: "f64 \<Rightarrow> u64"
  ce_now :: rat
  ce_stats :: stats
  ce_engine :: engine
  ce_fuel :: nat
  ce_session :: "conn \<Rightarrow> nat \<Rightarrow> rpc"
  ce_pkg_version :: string
  ce_iter_peers :: "peer list \<Rightarrow> peer list"
  ce_iter_reg :: "(node_id \<times> peer_status) list \<Rightarrow> (node_id \<times> peer_status) list"

record node_status =
  ns_node_id :: string
  ns_lifecycle :: string
  ns_effective_members :: nat
  ns_live_peers :: nat
  ns_conflicts :: u64
  ns_inflight_transfers :: i64
  ns_paused :: bool
  ns_roster_digest :: string
  ns_proto_version :: u16

record peer_status_entry =
  pse_node_id :: string
  pse_reachable :: bool
  pse_status :: "node_status option"

record member_view =
  mv_node_id :: string
  mv_addr :: string
  mv_fingerprint :: string
  mv_epoch :: u64
  mv_kind :: string

record lag_view =
  lv_node_id :: string
  lv_recv_cursor :: i64
  lv_last_acked :: i64
  lv_our_latest :: i64

datatype ctl_request =
    ReqStatus bool
  | ReqMembers
  | ReqPeers
  | ReqLag
  | ReqConflicts
  | ReqTransfers
  | ReqVersion
  | ReqConfigValidate path
  | ReqConfigDiff path
  | ReqConfigReload path
  | ReqPrepareEntry node_id
  | ReqMemberAdd signed_entry
  | ReqMemberRemove signed_entry
  | ReqResync "node_id option"
  | ReqPause
  | ReqResume
  | ReqBandwidth "(u64 \<times> u64) option"

datatype ctl_note =
    FileValid path
  | Reloaded (applied_hot: "string list") (restart_required: "string list")
  | MemberApplied
  | MemberSuperseded
  | Resynced nat
  | ReplicationPaused
  | ReplicationResumed

datatype ctl_failure =
    FileInvalid path config_error
  | ReloadFailed membership_error
  | SignatureRejected
  | NoTrustAnchor
  | MemberFailed membership_error

datatype ctl_response =
    RStatus node_status "peer_status_entry list"
  | RMembers "member_view list"
  | RPeers "(string \<times> string \<times> bool) list"
  | RLag "lag_view list"
  | RConflicts u64
  | RTransfers i64 u64 u64 u64 u64
  | RVersion string u16 string
  | RDiff "config_change list"
  | RPrepared u64 "string option" "string option"
  | ROk ctl_note
  | RError ctl_failure
  | RBandwidth u64 u64

subsection \<open>Views\<close>

abbreviation ce_crates :: "ctl_env \<Rightarrow> crates" where "ce_crates V \<equiv> e_crates (ce_engine V)"
abbreviation dm_members :: "daemon \<Rightarrow> membership" where "dm_members d \<equiv> li_membership (dm_live d)"
abbreviation dm_cfg :: "daemon \<Rightarrow> config" where "dm_cfg d \<equiv> li_cfg (dm_live d)"

definition all_conns :: "ctl_env \<Rightarrow> daemon \<Rightarrow> (node_id \<times> conn) list" where
  "all_conns V d = conn_all (e_iter (ce_engine V)) (dm_conns d)"

definition local_status :: "ctl_env \<Rightarrow> daemon \<Rightarrow> node_status" where
  "local_status V d =
     \<lparr>ns_node_id = hex_encode (ce_crates V) (cf_node_id (dm_cfg d)),
      ns_lifecycle = lifecycle_as_str (j_published (dm_join d)),
      ns_effective_members = length (effective_peers (ce_iter_peers V) (dm_members d)),
      ns_live_peers = length (dm_conns d),
      ns_conflicts = st_conflicts (ce_stats V), ns_inflight_transfers = st_inflight_transfers (ce_stats V),
      ns_paused = is_paused (dm_gate d),
      ns_roster_digest = hex_encode (ce_crates V) (roster_digest (ce_crates V) (dm_members d)),
      ns_proto_version = PROTO_VERSION\<rparr>"

text \<open>\<open>query\<close> is what \<open>query_peer_status\<close> returns for a connection: a dead or slow peer gives \<open>None\<close>.\<close>

definition status_report :: "ctl_env \<Rightarrow> (conn \<Rightarrow> node_status option) \<Rightarrow> bool \<Rightarrow> daemon \<Rightarrow> node_status \<times> peer_status_entry list" where
  "status_report V query all d =
     (local_status V d,
      if all then map (\<lambda>(i, c). \<lparr>pse_node_id = hex_encode (ce_crates V) i, pse_reachable = query c \<noteq> None, pse_status = query c\<rparr>)
                      (all_conns V d)
      else [])"

definition member_views :: "ctl_env \<Rightarrow> daemon \<Rightarrow> member_view list" where
  "member_views V d =
     map (\<lambda>e. \<lparr>mv_node_id = hex_encode (ce_crates V) (se_node_id e), mv_addr = rn_addr (ce_render V) (se_addr e),
               mv_fingerprint = hex_encode (ce_crates V) (se_fingerprint e), mv_epoch = se_epoch e,
               mv_kind = (case se_kind e of Add \<Rightarrow> ''add'' | Remove \<Rightarrow> ''remove'')\<rparr>)
         (roster_snapshot (dm_members d))"

definition member_addr_fp :: "ctl_env \<Rightarrow> node_id \<Rightarrow> daemon \<Rightarrow> string option \<times> string option" where
  "member_addr_fp V i d =
     (case List.find (\<lambda>p. pe_node_id p = i) (effective_peers (ce_iter_peers V) (dm_members d)) of
        Some p \<Rightarrow> (Some (rn_addr (ce_render V) (pe_addr p)), Some (hex_encode (ce_crates V) (pe_fingerprint p)))
      | None \<Rightarrow> (None, None))"

definition peer_views :: "ctl_env \<Rightarrow> daemon \<Rightarrow> (string \<times> string \<times> bool) list" where
  "peer_views V d =
     (let connected = set (map fst (all_conns V d))
      in map (\<lambda>(i, st). (hex_encode (ce_crates V) i, peer_state_as_str (ps_state st), i \<in> connected))
             (registry_snapshot (ce_iter_reg V) (dm_reg d)))"

definition lag_views :: "ctl_env \<Rightarrow> daemon \<Rightarrow> lag_view list" where
  "lag_views V d =
     map (\<lambda>p. \<lparr>lv_node_id = hex_encode (ce_crates V) (pe_node_id p),
               lv_recv_cursor = store_recv_cursor (ce_crates V) (e_node (ce_engine V)) (pe_node_id p) (nd_store (dm_node d)),
               lv_last_acked = store_last_acked (ce_crates V) (e_node (ce_engine V)) (pe_node_id p) (nd_store (dm_node d)),
               lv_our_latest = s_latest (nd_store (dm_node d))\<rparr>)
         (effective_peers (ce_iter_peers V) (dm_members d))"

subsection \<open>Commands\<close>

definition load_candidate :: "ctl_env \<Rightarrow> path \<Rightarrow> config_error + config" where
  "load_candidate V p = config_load (ce_toml V) (ce_hex_decode V) (ce_host V) p"

definition reload_request :: "ctl_env \<Rightarrow> path \<Rightarrow> daemon \<Rightarrow> daemon \<times> ctl_response" where
  "reload_request V p d =
     (case load_candidate V p of
        Inl e \<Rightarrow> (d, RError (FileInvalid p e))
      | Inr cand \<Rightarrow>
          (case reload (ce_crates V) (ce_codec V) (ce_render V) (ce_pct_bp V) (ce_now V) cand (dm_live d) of
             (l, Inl e) \<Rightarrow> (d\<lparr>dm_live := l\<rparr>, RError (ReloadFailed e))
           | (l, Inr changes) \<Rightarrow>
               (d\<lparr>dm_live := l\<rparr>, ROk (Reloaded (map cc_field (filter cc_hot changes))
                                           (map cc_field (filter (\<lambda>c. \<not> cc_hot c) changes))))))"

definition member_request :: "ctl_env \<Rightarrow> signed_entry \<Rightarrow> daemon \<Rightarrow> daemon \<times> ctl_response" where
  "member_request V e d =
     (let (m, res) = merge_signed (ce_crates V) (ce_codec V) (ce_save_io V) e (dm_members d);
          d = d\<lparr>dm_live := (dm_live d)\<lparr>li_membership := m\<rparr>\<rparr>
      in (d, case res of
               Inr Applied \<Rightarrow> ROk MemberApplied
             | Inr Superseded \<Rightarrow> ROk MemberSuperseded
             | Inr Rejected \<Rightarrow> RError SignatureRejected
             | Inl NoAdminKey \<Rightarrow> RError NoTrustAnchor
             | Inl err \<Rightarrow> RError (MemberFailed err)))"

text \<open>
  \<open>resync\<close>: the effective peers are read once, then every link of a wanted effective peer is
  reconciled in turn.  \<open>None\<close> stands for a session that never ends.
\<close>

fun resync_links :: "ctl_env \<Rightarrow> (node_id, peer) btree \<Rightarrow> node_id option \<Rightarrow> (node_id \<times> conn) list \<Rightarrow> node \<Rightarrow> nat \<Rightarrow> (node \<times> nat) option" where
  "resync_links V eff wanted [] n okay = Some (n, okay)"
| "resync_links V eff wanted ((i, c) # todo) n okay =
     (if (case wanted of Some w \<Rightarrow> w \<noteq> i | None \<Rightarrow> False) \<or> bt_get eff i = None
      then resync_links V eff wanted todo n okay
      else case reconcile_with (ce_fuel V) (ce_engine V) i (ce_session V c) n of
             None \<Rightarrow> None
           | Some (n, Inl _) \<Rightarrow> resync_links V eff wanted todo n okay
           | Some (n, Inr _) \<Rightarrow> resync_links V eff wanted todo n (okay + 1))"

definition resync :: "ctl_env \<Rightarrow> node_id option \<Rightarrow> daemon \<Rightarrow> (daemon \<times> nat) option" where
  "resync V wanted d =
     map_option (\<lambda>(n, okay). (d\<lparr>dm_node := n\<rparr>, okay))
       (resync_links V (fold (\<lambda>p. bt_insert (pe_node_id p) p) (effective_peers (ce_iter_peers V) (dm_members d)) [])
          wanted (all_conns V d) (dm_node d) 0)"

definition set_bandwidth :: "ctl_env \<Rightarrow> u64 \<Rightarrow> u64 \<Rightarrow> daemon \<Rightarrow> daemon" where
  "set_bandwidth V g p d = d\<lparr>dm_live := (dm_live d)\<lparr>li_limiter := set_rates (ce_now V) g p (li_limiter (dm_live d))\<rparr>\<rparr>"

definition bandwidth_rates :: "daemon \<Rightarrow> u64 \<times> u64" where
  "bandwidth_rates d = limiter_rates (li_limiter (dm_live d))"

definition ctl_dispatch ::
  "ctl_env \<Rightarrow> (conn \<Rightarrow> node_status option) \<Rightarrow> ctl_request \<Rightarrow> daemon \<Rightarrow> (daemon \<times> ctl_response) option" where
  "ctl_dispatch V query req d =
     (case req of
        ReqStatus all \<Rightarrow> Some (d, case status_report V query all d of (l, ps) \<Rightarrow> RStatus l ps)
      | ReqMembers \<Rightarrow> Some (d, RMembers (member_views V d))
      | ReqPeers \<Rightarrow> Some (d, RPeers (peer_views V d))
      | ReqLag \<Rightarrow> Some (d, RLag (lag_views V d))
      | ReqConflicts \<Rightarrow> Some (d, RConflicts (st_conflicts (ce_stats V)))
      | ReqTransfers \<Rightarrow>
          Some (d, RTransfers (st_inflight_transfers (ce_stats V)) (st_chunks_fetched (ce_stats V)) (st_chunks_served (ce_stats V))
                     (st_bytes_in (ce_stats V)) (st_bytes_out (ce_stats V)))
      | ReqVersion \<Rightarrow> Some (d, RVersion (hex_encode (ce_crates V) (cf_node_id (dm_cfg d))) PROTO_VERSION (ce_pkg_version V))
      | ReqConfigValidate p \<Rightarrow>
          Some (d, case load_candidate V p of Inr _ \<Rightarrow> ROk (FileValid p) | Inl e \<Rightarrow> RError (FileInvalid p e))
      | ReqConfigDiff p \<Rightarrow>
          Some (d, case load_candidate V p of
                     Inr cand \<Rightarrow> RDiff (config_diff (ce_crates V) (ce_render V) (dm_cfg d) cand)
                   | Inl e \<Rightarrow> RError (FileInvalid p e))
      | ReqConfigReload p \<Rightarrow> Some (reload_request V p d)
      | ReqPrepareEntry i \<Rightarrow>
          Some (d, case member_addr_fp V i d of (addr, fp) \<Rightarrow> RPrepared (next_epoch_for (mb_roster (dm_members d)) i) addr fp)
      | ReqMemberAdd e \<Rightarrow> Some (member_request V e d)
      | ReqMemberRemove e \<Rightarrow> Some (member_request V e d)
      | ReqResync wanted \<Rightarrow> map_option (\<lambda>(d, n). (d, ROk (Resynced n))) (resync V wanted d)
      | ReqPause \<Rightarrow> Some (d\<lparr>dm_gate := pause (dm_gate d)\<rparr>, ROk ReplicationPaused)
      | ReqResume \<Rightarrow> Some (d\<lparr>dm_gate := resume (dm_gate d)\<rparr>, ROk ReplicationResumed)
      | ReqBandwidth set_to \<Rightarrow>
          (let d = (case set_to of Some (g, p) \<Rightarrow> set_bandwidth V g p d | None \<Rightarrow> d)
           in Some (d, case bandwidth_rates d of (g, p) \<Rightarrow> RBandwidth g p)))"

text \<open>
  One accepted connection: \<open>cred\<close> is the user id \<open>SO_PEERCRED\<close> reports, or its failure, and
  \<open>req\<close> what is read from the stream.  A connection that is refused is answered nothing.
\<close>

definition serve_conn ::
  "ctl_env \<Rightarrow> (conn \<Rightarrow> node_status option) \<Rightarrow> u32 \<Rightarrow> u32 option \<Rightarrow> ctl_request option \<Rightarrow> daemon
     \<Rightarrow> (daemon \<times> ctl_response option) option" where
  "serve_conn V query our_uid cred req d =
     (case cred of
        Some uid \<Rightarrow>
          if uid = our_uid \<or> uid = 0
          then (case req of
                  None \<Rightarrow> Some (d, None)
                | Some r \<Rightarrow> map_option (\<lambda>(d, resp). (d, Some resp)) (ctl_dispatch V query r d))
          else Some (d, None)
      | None \<Rightarrow> Some (d, None))"

subsection \<open>The policy task\<close>

definition schedule_tick :: "rat \<Rightarrow> (nat \<times> nat \<times> nat) option \<Rightarrow> live \<Rightarrow> live" where
  "schedule_tick now tm l =
     (let policy = li_policy l
      in if bw_schedule policy = [] then l
         else let (wd, minute) = local_clock tm;
                  (g, p) = active_rates (bw_schedule policy) (bw_global_bps policy, bw_per_peer_bps policy) wd minute
              in if (g, p) \<noteq> limiter_rates (li_limiter l) then l\<lparr>li_limiter := set_rates now g p (li_limiter l)\<rparr> else l)"

definition policy_tick :: "rat \<Rightarrow> (nat \<times> nat \<times> nat) option \<Rightarrow> bool \<Rightarrow> daemon \<Rightarrow> daemon" where
  "policy_tick now tm room d =
     d\<lparr>dm_live := schedule_tick now tm (dm_live d), dm_gate := guard_probe room (dm_gate d)\<rparr>"

subsection \<open>The command line client\<close>

datatype cli_error =
    Usage
  | NotARate string
  | ConfigNeeds
  | UnknownConfigCommand string
  | NoSocket
  | SocketConfig config_error
  | CliBadNodeId string
  | CliBadFingerprint string
  | MemberNeeds string
  | UnknownMember
  | BadAddr
  | AdminKeyError
  | UnexpectedReply ctl_response
  | NoReply

definition take_flag :: "string \<Rightarrow> string list \<Rightarrow> bool \<times> string list" where
  "take_flag name args = (if name \<in> set args then (True, remove1 name args) else (False, args))"

text \<open>The value after the first occurrence of a flag; a flag that is last is left where it is.\<close>

fun take_value :: "string \<Rightarrow> string list \<Rightarrow> string option \<times> string list" where
  "take_value name [] = (None, [])"
| "take_value name (a # args) =
     (if a = name then (case args of v # rest \<Rightarrow> (Some v, rest) | [] \<Rightarrow> (None, [a]))
      else (case take_value name args of (v, rest) \<Rightarrow> (v, a # rest)))"

definition resolve_socket :: "ctl_env \<Rightarrow> string list \<Rightarrow> cli_error + path \<times> string list" where
  "resolve_socket V args =
     (case take_value ''--socket'' args of
        (Some s, args) \<Rightarrow> Inr (s, args)
      | (None, args) \<Rightarrow>
          (case take_value ''--config'' args of
             (Some c, args) \<Rightarrow>
               (case load_candidate V c of
                  Inl e \<Rightarrow> Inl (SocketConfig e)
                | Inr cfg \<Rightarrow> Inr (cf_control_socket cfg, args))
           | (None, _) \<Rightarrow> Inl NoSocket))"

definition to_lower :: "char \<Rightarrow> char" where
  "to_lower c = (if 65 \<le> (of_char c :: nat) \<and> (of_char c :: nat) \<le> 90 then char_of ((of_char c :: nat) + 32) else c)"

definition suffix_of :: "string \<Rightarrow> char option" where
  "suffix_of v = (if v = [] then None else Some (last v))"

definition parse_bps :: "string \<Rightarrow> cli_error + u64" where
  "parse_bps s =
     (let v = map to_lower s;
          (digits, mult) =
            (if suffix_of v = Some CHR ''k'' then (butlast v, 1000)
             else if suffix_of v = Some CHR ''m'' then (butlast v, 1000000)
             else if suffix_of v = Some CHR ''g'' then (butlast v, 1000000000)
             else (v, 1))
      in case parse_unsigned (2 ^ 64) digits of
           Some n \<Rightarrow> Inr (word_of_nat n * mult)
         | None \<Rightarrow> Inl (NotARate s))"

definition cli_node_id :: "ctl_env \<Rightarrow> string \<Rightarrow> cli_error + node_id" where
  "cli_node_id V s = ok_or (CliBadNodeId s) (decode_array (ce_hex_decode V) 16 s)"

definition cli_fingerprint :: "ctl_env \<Rightarrow> string \<Rightarrow> cli_error + bytes" where
  "cli_fingerprint V s = ok_or (CliBadFingerprint s) (decode_array (ce_hex_decode V) 32 s)"

definition config_request :: "string list \<Rightarrow> cli_error + ctl_request" where
  "config_request r =
     (case r of
        sub # f # _ \<Rightarrow>
          if sub = ''validate'' then Inr (ReqConfigValidate f)
          else if sub = ''diff'' then Inr (ReqConfigDiff f)
          else if sub = ''reload'' then Inr (ReqConfigReload f)
          else Inl (UnknownConfigCommand sub)
      | _ \<Rightarrow> Inl ConfigNeeds)"

text \<open>The request of a command that issues a single one, if it is such a command.\<close>

definition single_request :: "ctl_env \<Rightarrow> string \<Rightarrow> string list \<Rightarrow> cli_error + ctl_request option" where
  "single_request V cmd rest =
     (if cmd = ''status'' then Inr (Some (ReqStatus (''--all'' \<in> set rest)))
      else if cmd = ''members'' then Inr (Some ReqMembers)
      else if cmd = ''peers'' then Inr (Some ReqPeers)
      else if cmd = ''lag'' then Inr (Some ReqLag)
      else if cmd = ''conflicts'' then Inr (Some ReqConflicts)
      else if cmd = ''transfers'' then Inr (Some ReqTransfers)
      else if cmd = ''version'' then Inr (Some ReqVersion)
      else if cmd = ''pause'' then Inr (Some ReqPause)
      else if cmd = ''resume'' then Inr (Some ReqResume)
      else if cmd = ''bandwidth'' \<and> rest = [] then Inr (Some (ReqBandwidth None))
      else if cmd = ''bandwidth'' \<and> length rest = 3 \<and> rest ! 0 = ''set''
      then and_ok (parse_bps (rest ! 1)) (\<lambda>g. and_ok (parse_bps (rest ! 2)) (\<lambda>p. Inr (Some (ReqBandwidth (Some (g, p))))))
      else if cmd = ''resync''
      then (case rest of
              [] \<Rightarrow> Inr (Some (ReqResync None))
            | s # _ \<Rightarrow> and_ok (cli_node_id V s) (\<lambda>i. Inr (Some (ReqResync (Some i)))))
      else if cmd = ''config'' then and_ok (config_request rest) (\<lambda>r. Inr (Some r))
      else Inr None)"

text \<open>
  One request over the socket, answered by the daemon; \<open>None\<close> is a daemon that never answers.
\<close>

type_synonym 'a talk = "(daemon \<times> (cli_error + 'a)) option"

definition talk_then :: "'a talk \<Rightarrow> ('a \<Rightarrow> daemon \<Rightarrow> 'b talk) \<Rightarrow> 'b talk" where
  "talk_then r f = (case r of None \<Rightarrow> None | Some (d, Inl e) \<Rightarrow> Some (d, Inl e) | Some (d, Inr a) \<Rightarrow> f a d)"

definition roundtrip ::
  "ctl_env \<Rightarrow> (conn \<Rightarrow> node_status option) \<Rightarrow> u32 \<Rightarrow> u32 \<Rightarrow> ctl_request \<Rightarrow> daemon \<Rightarrow> ctl_response talk" where
  "roundtrip V query our_uid uid req d =
     map_option (\<lambda>(d, resp). (d, case resp of Some x \<Rightarrow> Inr x | None \<Rightarrow> Inl NoReply)) (serve_conn V query our_uid (Some uid) (Some req) d)"

record admin_env =
  ae_secret :: "path \<Rightarrow> (bytes \<Rightarrow> bytes) option"
  ae_parse_addr :: "string \<Rightarrow> socket_addr option"

text \<open>Address, fingerprint and kind of the entry to sign, from the arguments or from what the daemon prepared.\<close>

definition entry_fields ::
  "ctl_env \<Rightarrow> admin_env \<Rightarrow> string \<Rightarrow> string list \<Rightarrow> string option \<Rightarrow> string option
     \<Rightarrow> cli_error + socket_addr \<times> bytes \<times> entry_kind" where
  "entry_fields V A sub rest addr fp =
     (if sub = ''add''
      then (case drop 1 rest of
              [] \<Rightarrow> Inl (MemberNeeds ''<addr>'')
            | a # fs \<Rightarrow>
                and_ok (ok_or BadAddr (ae_parse_addr A a)) (\<lambda>addr.
                (case fs of
                   [] \<Rightarrow> Inl (MemberNeeds ''<fingerprint>'')
                 | f # _ \<Rightarrow> and_ok (cli_fingerprint V f) (\<lambda>fp. Inr (addr, fp, Add)))))
      else if sub = ''remove''
      then and_ok (ok_or UnknownMember addr) (\<lambda>a.
           and_ok (ok_or BadAddr (ae_parse_addr A a)) (\<lambda>addr.
           and_ok (ok_or UnknownMember fp) (\<lambda>f.
           and_ok (cli_fingerprint V f) (\<lambda>fp. Inr (addr, fp, Remove)))))
      else Inl (MemberNeeds sub))"

definition signed :: "(bytes \<Rightarrow> bytes) \<Rightarrow> node_id \<Rightarrow> socket_addr \<Rightarrow> bytes \<Rightarrow> u64 \<Rightarrow> entry_kind \<Rightarrow> signed_entry" where
  "signed sk i addr fp epoch kind =
     \<lparr>se_node_id = i, se_addr = addr, se_fingerprint = fp, se_epoch = epoch, se_kind = kind,
      se_sig = sign_entry sk i addr fp epoch kind\<rparr>"

definition member_command ::
  "ctl_env \<Rightarrow> admin_env \<Rightarrow> (ctl_request \<Rightarrow> daemon \<Rightarrow> ctl_response talk) \<Rightarrow> string list \<Rightarrow> daemon \<Rightarrow> ctl_response talk" where
  "member_command V A ask args d =
     (case args of
        [] \<Rightarrow> Some (d, Inl (MemberNeeds ''add|remove''))
      | sub # rest \<Rightarrow>
          (case take_value ''--admin-key'' rest of
             (None, _) \<Rightarrow> Some (d, Inl (MemberNeeds ''--admin-key''))
           | (Some key, rest) \<Rightarrow>
               (case ae_secret A key of
                  None \<Rightarrow> Some (d, Inl AdminKeyError)
                | Some sk \<Rightarrow>
                    (case and_ok (ok_or (MemberNeeds ''<node_id>'') (case rest of [] \<Rightarrow> None | s # _ \<Rightarrow> Some s)) (cli_node_id V) of
                       Inl e \<Rightarrow> Some (d, Inl e)
                     | Inr i \<Rightarrow>
                         talk_then (ask (ReqPrepareEntry i) d) (\<lambda>prepared d.
                           case prepared of
                             RPrepared epoch addr fp \<Rightarrow>
                               (case entry_fields V A sub rest addr fp of
                                  Inl e \<Rightarrow> Some (d, Inl e)
                                | Inr (addr, fp, kind) \<Rightarrow>
                                    ask (if kind = Add then ReqMemberAdd (signed sk i addr fp epoch kind)
                                         else ReqMemberRemove (signed sk i addr fp epoch kind)) d)
                           | other \<Rightarrow> Some (d, Inl (UnexpectedReply other)))))))"

definition exit_success :: "ctl_response \<Rightarrow> bool" where
  "exit_success resp = (case resp of RError _ \<Rightarrow> False | _ \<Rightarrow> True)"

definition cli_run ::
  "ctl_env \<Rightarrow> admin_env \<Rightarrow> (path \<Rightarrow> ctl_request \<Rightarrow> daemon \<Rightarrow> ctl_response talk) \<Rightarrow> string list \<Rightarrow> daemon \<Rightarrow> ctl_response talk" where
  "cli_run V A connect args d =
     (let args = snd (take_flag ''--json'' args)
      in case resolve_socket V args of
           Inl e \<Rightarrow> Some (d, Inl e)
         | Inr (socket, []) \<Rightarrow> Some (d, Inl Usage)
         | Inr (socket, cmd # rest) \<Rightarrow>
             (case single_request V cmd rest of
                Inl e \<Rightarrow> Some (d, Inl e)
              | Inr (Some req) \<Rightarrow> connect socket req d
              | Inr None \<Rightarrow>
                  if cmd = ''member'' then member_command V A (connect socket) rest d else Some (d, Inl Usage)))"

end
