(* ===== verification/Control_Laws.thy ===== *)
theory Control_Laws
  imports Control Fetch_Laws
begin

text \<open>
  What the control plane guarantees: a refused or failed request leaves the daemon as it
  was, a request changes only what it names, and a membership change signed by the client
  takes effect.
\<close>

subsection \<open>Frames\<close>

text \<open>Two daemons that differ at most in the roster file and the number of saves.\<close>

definition same_but_file :: "daemon \<Rightarrow> daemon \<Rightarrow> bool" where
  "same_but_file d d' \<longleftrightarrow>
     (\<exists>disk n. d' = d\<lparr>dm_live := (dm_live d)\<lparr>li_membership := (dm_members d)\<lparr>mb_disk := disk, mb_saves := n\<rparr>\<rparr>\<rparr>)"

lemma same_but_file_refl [simp]: "same_but_file d d"
  unfolding same_but_file_def by (rule exI [of _ "mb_disk (dm_members d)"], rule exI [of _ "mb_saves (dm_members d)"]) simp

lemma reload_error: "reload X J R pct now cand e = (e', Inl err) \<Longrightarrow> e' = e"
proof -
  assume r: "reload X J R pct now cand e = (e', Inl err)"
  obtain m res where m: "apply_reload X J (member_part cand) (li_membership e) = (m, res)" by fastforce
  show "e' = e" using r apply_reload_cases [OF m] by (auto simp: reload_def m Let_def split: sum.splits)
qed

lemma reload_request_error:
  assumes "reload_request V p d = (d', RError f)"
  shows "d' = d"
  using assms by (auto simp: reload_request_def split: sum.splits prod.splits dest!: reload_error)

lemma merge_signed_quiet:
  assumes "merge_signed X J io e m = (m', r)" "r \<noteq> Inr Applied"
  shows "\<exists>disk n. m' = m\<lparr>mb_disk := disk, mb_saves := n\<rparr>"
proof -
  have self: "\<exists>disk n. m = m\<lparr>mb_disk := disk, mb_saves := n\<rparr>"
    by (rule exI [of _ "mb_disk m"], rule exI [of _ "mb_saves m"]) simp
  with assms show ?thesis
    by (auto simp: merge_signed_cases Let_def split: option.splits if_splits prod.splits sum.splits)
qed

lemma member_request_quiet:
  assumes "member_request V e d = (d', resp)" "resp \<noteq> ROk MemberApplied"
  shows "same_but_file d d'"
proof -
  obtain m r where m: "merge_signed (ce_crates V) (ce_codec V) (ce_save_io V) e (dm_members d) = (m, r)" by fastforce
  with assms have "r \<noteq> Inr Applied" by (auto simp: member_request_def)
  from merge_signed_quiet [OF m this] show ?thesis
    using assms(1) by (auto simp: member_request_def m same_but_file_def)
qed

lemma member_request_kept:
  assumes "member_request V e d = (d', RError f)" "\<forall>err. f \<noteq> MemberFailed err"
  shows "d' = d"
proof -
  obtain m r where m: "merge_signed (ce_crates V) (ce_codec V) (ce_save_io V) e (dm_members d) = (m, r)" by fastforce
  have "r = Inr Rejected \<or> r = Inl NoAdminKey"
    using assms by (auto simp: member_request_def m split: sum.splits merge_outcome.splits membership_error.splits)
  then have "m = dm_members d"
    using m by (auto simp: merge_signed_cases Let_def split: option.splits if_splits prod.splits sum.splits)
  then show ?thesis using assms(1) by (simp add: member_request_def m)
qed

lemma failed_dispatch:
  assumes "ctl_dispatch V query q d = Some (d', RError f)"
  shows "same_but_file d d' \<and> ((\<forall>e. f \<noteq> MemberFailed e) \<longrightarrow> d' = d)"
proof (cases q)
  case (ReqConfigReload p)
  with assms show ?thesis using reload_request_error [of V p d d' f] by (simp add: ctl_dispatch_def)
next
  case (ReqMemberAdd e)
  with assms show ?thesis using member_request_quiet [of V e d d'] member_request_kept [of V e d d' f] by (simp add: ctl_dispatch_def)
next
  case (ReqMemberRemove e)
  with assms show ?thesis using member_request_quiet [of V e d d'] member_request_kept [of V e d d' f] by (simp add: ctl_dispatch_def)
qed (use assms in \<open>auto simp: ctl_dispatch_def Let_def split: sum.splits prod.splits option.splits\<close>)

subsection \<open>Membership changes\<close>

text \<open>A key pair: what the secret signs, the trust anchor accepts.\<close>

definition key_pair :: "crates \<Rightarrow> admin_pubkey \<Rightarrow> (bytes \<Rightarrow> bytes) \<Rightarrow> bool" where
  "key_pair X pk sk \<longleftrightarrow> (\<forall>msg. ed25519_verify X pk msg (sk msg))"

lemma signed_verifies: "key_pair X pk sk \<Longrightarrow> entry_verify X pk (signed sk i addr fp ep k)"
  by (simp add: key_pair_def entry_verify_def verify_entry_def signed_def sign_entry_def)

lemma next_epoch_wins:
  assumes "entry_verify X pk e" "se_epoch e = next_epoch_for r (se_node_id e)"
    and "\<forall>cur. bt_get r (se_node_id e) = Some cur \<longrightarrow> se_epoch cur \<noteq> - 1"
  shows "merge_entry X pk e r = (bt_insert (se_node_id e) e r, Applied)"
proof (cases "bt_get r (se_node_id e)")
  case (Some cur)
  with assms have "se_epoch cur < se_epoch e" by (simp add: next_epoch_for_def u64_succ_less)
  then have "order_key X cur < order_key X e" by (simp add: order_key_def less_prod_def)
  with assms(1) Some show ?thesis by (simp add: merge_entry_def)
qed (simp add: merge_entry_def assms)

lemma merge_signed_applied:
  assumes "saves J io" "anchored X pk m" "merge_entry X pk e (mb_roster m) = (bt_insert (se_node_id e) e (mb_roster m), Applied)"
    and "se_node_id e \<noteq> mb_our_node_id m"
  shows "\<exists>m'. merge_signed X J io e m = (m', Inr Applied)
    \<and> bt_get (mb_effective m') (se_node_id e) = (case se_kind e of Add \<Rightarrow> Some (entry_peer e) | Remove \<Rightarrow> None)
    \<and> (\<forall>fp. fp \<in> mb_allowlist m' \<longleftrightarrow> (\<exists>n p. bt_get (mb_effective m') n = Some p \<and> pe_fingerprint p = fp))"
proof -
  obtain json where json: "json_of J (bt_values (bt_insert (se_node_id e) e (mb_roster m))) = Some json"
    using assms(1) by (fastforce simp: saves_def)
  define m0 where "m0 = m\<lparr>mb_disk := (mb_disk m)(mb_roster_path m := Contents json), mb_saves := mb_saves m + 1,
    mb_roster := bt_insert (se_node_id e) e (mb_roster m)\<rparr>"
  define m' where "m' = (recompute m0)\<lparr>mb_changed := mb_changed m + 1\<rparr>"
  have "merge_signed X J io e m = (m', Inr Applied)"
    using assms json by (simp add: merge_signed_cases anchored_def roster_save_def saves_def m0_def m'_def Let_def)
  moreover have ok: "roster_ok X pk (mb_roster m0)"
    using roster_ok_merge [of X pk "mb_roster m" e] assms(2,3) by (simp add: anchored_def m0_def)
  have "bt_get (mb_effective m') (se_node_id e) = (case se_kind e of Add \<Rightarrow> Some (entry_peer e) | Remove \<Rightarrow> None)"
    using assms(4) by (simp add: m'_def effective_get [OF ok]) (simp add: m0_def bt_get_insert)
  moreover have "fp \<in> mb_allowlist m' \<longleftrightarrow> (\<exists>n p. bt_get (mb_effective m') n = Some p \<and> pe_fingerprint p = fp)" for fp
    by (simp add: m'_def allowlist_mem)
  ultimately show ?thesis by blast
qed

lemma effective_filed:
  assumes "roster_ok X pk (mb_roster m)" "bt_get (mb_effective (recompute m)) n = Some p"
  shows "pe_node_id p = n"
  using assms roster_ok_get [OF assms(1)]
  by (auto simp: effective_get [OF assms(1)] seed_of_def find_Some_iff entry_peer_def split: option.splits if_splits entry_kind.splits)

lemma member_found:
  assumes "roster_ok X pk (mb_roster m)" "views_ok m" "bt_get (mb_effective m) n = Some p" "\<And>xs. set (iter xs) = set xs"
  shows "List.find (\<lambda>q. pe_node_id q = n) (effective_peers iter m) = Some p"
proof -
  have eff: "mb_effective m = mb_effective (recompute m)" using assms(2) by (simp add: views_ok_def)
  have mem: "q \<in> set (effective_peers iter m) \<longleftrightarrow> (\<exists>k. bt_get (mb_effective m) k = Some q)" for q
    by (simp add: effective_peers_def assms(4) eff bt_values_mem [OF effective_ok])
  have filed: "bt_get (mb_effective m) k = Some q \<Longrightarrow> pe_node_id q = k" for k q
    using effective_filed [OF assms(1)] by (simp add: eff)
  have "p \<in> set (effective_peers iter m)" "pe_node_id p = n" using assms(3) mem filed by auto
  then obtain q where q: "List.find (\<lambda>q. pe_node_id q = n) (effective_peers iter m) = Some q"
    by (metis (mono_tags, lifting) find_None_iff not_Some_eq)
  then have "q \<in> set (effective_peers iter m)" "pe_node_id q = n" by (auto simp: find_Some_iff)
  with mem filed assms(3) have "q = p" by fastforce
  with q show ?thesis by simp
qed

lemma roundtrip_authorised:
  "uid = our_uid \<or> uid = 0 \<Longrightarrow> ctl_dispatch V query req d = Some (d', resp) \<Longrightarrow>
     roundtrip V query our_uid uid req d = Some (d', Inr resp)"
  by (auto simp: roundtrip_def serve_conn_def)

text \<open>Preparing, signing and submitting, when the fields of the entry are settled.\<close>

lemma member_command_submits:
  assumes "uid = our_uid \<or> uid = 0" "take_value ''--admin-key'' rest = (Some key, s # rest')" "ae_secret A key = Some sk"
    and "decode_array (ce_hex_decode V) 16 s = Some i"
    and "member_addr_fp V i d = (a0, f0)" "entry_fields V A sub (s # rest') a0 f0 = Inr (addr, fp, kind)"
  shows "member_command V A (roundtrip V query our_uid uid) (sub # rest) d =
    Some (case member_request V (signed sk i addr fp (next_epoch_for (mb_roster (dm_members d)) i) kind) d of (d, resp) \<Rightarrow> (d, Inr resp))"
proof -
  have "roundtrip V query our_uid uid (ReqPrepareEntry i) d =
      Some (d, Inr (RPrepared (next_epoch_for (mb_roster (dm_members d)) i) a0 f0))"
    by (rule roundtrip_authorised [OF assms(1)]) (simp add: ctl_dispatch_def assms(5))
  moreover have "roundtrip V query our_uid uid (if kind = Add then ReqMemberAdd e else ReqMemberRemove e) d =
      Some (case member_request V e d of (d, resp) \<Rightarrow> (d, Inr resp))" for e
    by (cases "member_request V e d") (auto intro!: roundtrip_authorised [OF assms(1)] simp: ctl_dispatch_def)
  ultimately show ?thesis
    using assms(2-4,6) by (simp add: member_command_def cli_node_id_def talk_then_def)
qed

lemma member_request_applied:
  assumes "merge_signed (ce_crates V) (ce_codec V) (ce_save_io V) e (dm_members d) = (m', Inr Applied)"
  shows "member_request V e d = (d\<lparr>dm_live := (dm_live d)\<lparr>li_membership := m'\<rparr>\<rparr>, ROk MemberApplied)"
  by (simp add: member_request_def assms)

subsection \<open>Examples\<close>

definition sample_env :: ctl_env where
  "sample_env = \<lparr>ce_codec = plain_codec, ce_save_io = (\<lambda>_. None), ce_render = plain_render, ce_toml = sample_toml,
     ce_hex_decode = plain_hex, ce_host = linked_host, ce_pct_bp = (\<lambda>_. 0), ce_now = 0, ce_stats = idle_stats,
     ce_engine = serving_engine\<lparr>e_apply := example_ctx\<lparr>ax_crates := plain_crates\<rparr>\<rparr>, ce_fuel = 0,
     ce_session = (\<lambda>_ _ _ _. Inl RClosed), ce_pkg_version = ''0'', ce_iter_peers = id, ce_iter_reg = id\<rparr>"

definition sample_admin :: admin_env where
  "sample_admin = \<lparr>ae_secret = (\<lambda>_. Some (\<lambda>msg. [1] @ msg)), ae_parse_addr = (\<lambda>_. Some sample_addr)\<rparr>"

definition sample_id :: node_id where "sample_id = as_bytes ''node-b----------''"

definition sample_fp :: bytes where "sample_fp = as_bytes (replicate 32 CHR ''f'')"

definition sample_daemon :: "roster \<Rightarrow> daemon" where
  "sample_daemon r = \<lparr>dm_live = sample_live\<lparr>li_membership := recompute (example_member r)\<rparr>, dm_gate = gate_new, dm_node = idle_node,
     dm_conns = [], dm_reg = [], dm_join = tracker_new None {}\<rparr>"

definition sample_entry :: signed_entry where
  "sample_entry = signed (\<lambda>msg. [1] @ msg) sample_id sample_addr sample_fp 1 Add"

lemma sample_env_simps [simp]:
  "ce_crates sample_env = plain_crates" "ce_codec sample_env = plain_codec" "ce_save_io sample_env = (\<lambda>_. None)"
  "ce_render sample_env = plain_render" "ce_hex_decode sample_env = plain_hex" "ce_iter_peers sample_env = id"
  by (simp_all add: sample_env_def)

lemma sample_daemon_simps [simp]: "dm_members (sample_daemon r) = recompute (example_member r)"
  by (simp add: sample_daemon_def)

lemma example_roster: "mb_roster (example_member r) = r" "mb_our_node_id (example_member r) = [9]"
  by (simp_all add: example_member_def)

lemma sample_key_pair: "key_pair plain_crates [1] (\<lambda>msg. [1] @ msg)"
  by (simp add: key_pair_def plain_crates_def)

lemma sample_saves: "saves plain_codec (\<lambda>_. None)"
  by (simp add: saves_def plain_codec_def)

lemma sample_anchored: "roster_ok plain_crates [1] r \<Longrightarrow> anchored plain_crates [1] (recompute (example_member r))"
  by (simp add: anchored_def example_member_def)

lemma sample_entry_ok: "roster_ok plain_crates [1] [(sample_id, sample_entry)]"
  using signed_verifies [OF sample_key_pair] by (simp add: roster_ok_def bt_ok_def sample_entry_def) (simp add: signed_def)

lemma sample_decodes:
  "decode_array plain_hex 16 ''node-b----------'' = Some sample_id"
  "decode_array plain_hex 32 (hex_encode plain_crates sample_fp) = Some sample_fp"
  "decode_array plain_hex 32 (replicate 32 CHR ''f'') = Some sample_fp"
  by (simp_all add: decode_array_def plain_hex_def sample_id_def sample_fp_def plain_crates_def as_bytes_def unat_of_nat)

lemma sample_not_ours: "sample_id \<noteq> [9]"
  by (simp add: sample_id_def as_bytes_def)

subsection \<open>Properties\<close>

text \<open>
  C34. The control plane acts for the daemon's own user and root only, and a request that is
  answered with an error changes nothing: not the configuration, the membership, the rates,
  the pause gate or the store.  The one thing a failed membership change may leave behind is
  the roster file its persist had already written.
\<close>

theorem refused_requests_change_nothing:
  assumes "serve_conn V query our_uid cred req d = Some (d', resp)"
  shows "(cred \<notin> {Some our_uid, Some 0} \<longrightarrow> d' = d \<and> resp = None)
       \<and> (resp = None \<longrightarrow> d' = d)
       \<and> (\<forall>f. resp = Some (RError f) \<longrightarrow> same_but_file d d' \<and> ((\<forall>e. f \<noteq> MemberFailed e) \<longrightarrow> d' = d))"
proof -
  have "same_but_file d d' \<and> ((\<forall>e. f \<noteq> MemberFailed e) \<longrightarrow> d' = d)" if r: "resp = Some (RError f)" for f
  proof -
    obtain q where q: "ctl_dispatch V query q d = Some (d', RError f)"
      using assms r by (auto simp: serve_conn_def split: option.splits if_splits)
    then show ?thesis by (rule failed_dispatch)
  qed
  moreover have "d' = d \<and> resp = None" if "cred \<notin> {Some our_uid, Some 0}"
    using assms that by (auto simp: serve_conn_def split: option.splits if_splits)
  moreover have "d' = d" if "resp = None"
    using assms that by (auto simp: serve_conn_def split: option.splits if_splits)
  ultimately show ?thesis by blast
qed

theorem refused_requests_change_nothing_witness:
  "serve_conn sample_env (\<lambda>_. None) 1000 (Some 7) (Some ReqPause) (sample_daemon []) = Some (sample_daemon [], None)"
proof -
  obtain d' resp where r: "serve_conn sample_env (\<lambda>_. None) 1000 (Some 7) (Some ReqPause) (sample_daemon []) = Some (d', resp)"
    by (simp add: serve_conn_def)
  show ?thesis using r refused_requests_change_nothing [OF r] by simp
qed

text \<open>
  C32. Adding a member from the command line takes effect: with the admin secret of the daemon's
  trust anchor and a working disk, the daemon applies the entry the client prepared and
  signed, the node is an effective peer under the given address and fingerprint, and the
  fingerprint is pinned.
\<close>

theorem member_add_takes_effect:
  assumes "uid = our_uid \<or> uid = 0" "ae_secret A key = Some sk" "key_pair (ce_crates V) pk sk"
    and "anchored (ce_crates V) pk (dm_members d)" "saves (ce_codec V) (ce_save_io V)"
    and "decode_array (ce_hex_decode V) 16 s = Some i" "ae_parse_addr A a = Some addr" "decode_array (ce_hex_decode V) 32 f = Some fp"
    and "''--admin-key'' \<notin> set [s, a, f]" "i \<noteq> mb_our_node_id (dm_members d)"
    and "\<forall>cur. bt_get (mb_roster (dm_members d)) i = Some cur \<longrightarrow> se_epoch cur \<noteq> - 1"
  shows "\<exists>d'. member_command V A (roundtrip V query our_uid uid) [''add'', s, a, f, ''--admin-key'', key] d = Some (d', Inr (ROk MemberApplied))
    \<and> bt_get (mb_effective (dm_members d')) i = Some \<lparr>pe_node_id = i, pe_addr = addr, pe_fingerprint = fp\<rparr>
    \<and> fp \<in> mb_allowlist (dm_members d')"
proof -
  define e where "e = signed sk i addr fp (next_epoch_for (mb_roster (dm_members d)) i) Add"
  have e: "se_node_id e = i" "se_kind e = Add" "entry_peer e = \<lparr>pe_node_id = i, pe_addr = addr, pe_fingerprint = fp\<rparr>"
    by (simp_all add: e_def signed_def entry_peer_def)
  have "merge_entry (ce_crates V) pk e (mb_roster (dm_members d)) = (bt_insert (se_node_id e) e (mb_roster (dm_members d)), Applied)"
    using assms(3,11) by (intro next_epoch_wins) (simp_all add: e_def signed_verifies, simp_all add: signed_def)
  from merge_signed_applied [OF assms(5,4) this] assms(10) obtain m' where
    m': "merge_signed (ce_crates V) (ce_codec V) (ce_save_io V) e (dm_members d) = (m', Inr Applied)"
      "bt_get (mb_effective m') i = Some \<lparr>pe_node_id = i, pe_addr = addr, pe_fingerprint = fp\<rparr>"
      "fp \<in> mb_allowlist m' \<longleftrightarrow> (\<exists>n p. bt_get (mb_effective m') n = Some p \<and> pe_fingerprint p = fp)"
    by (auto simp: e)
  obtain a0 f0 where af: "member_addr_fp V i d = (a0, f0)" by fastforce
  have "member_command V A (roundtrip V query our_uid uid) (''add'' # [s, a, f, ''--admin-key'', key]) d =
      Some (case member_request V e d of (d, resp) \<Rightarrow> (d, Inr resp))"
    unfolding e_def using assms(1,2,6-9) af
    by (intro member_command_submits [of _ _ _ key s "[a, f]" _ _ _ _ _ a0 f0]) (auto simp: entry_fields_def cli_fingerprint_def)
  moreover have "fp \<in> mb_allowlist m'"
    unfolding m'(3) by (rule exI [of _ i], rule exI [of _ "\<lparr>pe_node_id = i, pe_addr = addr, pe_fingerprint = fp\<rparr>"]) (simp add: m'(2))
  ultimately show ?thesis using m'(2) by (simp add: member_request_applied [OF m'(1)])
qed

theorem member_add_takes_effect_witness:
  "\<exists>d'. member_command sample_env sample_admin (roundtrip sample_env (\<lambda>_. None) 1000 0)
       [''add'', ''node-b----------'', ''10.0.0.1:7000'', replicate 32 CHR ''f'', ''--admin-key'', ''admin.key''] (sample_daemon []) =
       Some (d', Inr (ROk MemberApplied)) \<and> sample_fp \<in> mb_allowlist (dm_members d')"
proof -
  have "ae_secret sample_admin k = Some (\<lambda>msg. [1] @ msg)" "ae_parse_addr sample_admin a = Some sample_addr" for k a
    by (simp_all add: sample_admin_def)
  moreover have "anchored plain_crates [1] (dm_members (sample_daemon []))" using sample_anchored by simp
  moreover have "sample_id \<noteq> mb_our_node_id (dm_members (sample_daemon []))" using sample_not_ours by (simp add: example_member_def)
  moreover have "\<forall>cur. bt_get (mb_roster (dm_members (sample_daemon []))) sample_id = Some cur \<longrightarrow> se_epoch cur \<noteq> - 1"
    by (simp add: example_member_def)
  moreover have "''--admin-key'' \<noteq> replicate 32 CHR ''f''" by (rule notI, drule arg_cong [of _ _ length]) simp
  ultimately show ?thesis
    using member_add_takes_effect [of 0 1000 sample_admin "''admin.key''" _ sample_env "[1]" "sample_daemon []" "''node-b----------''"
        sample_id "''10.0.0.1:7000''" sample_addr "replicate 32 CHR ''f''" sample_fp "\<lambda>_. None"]
      sample_key_pair sample_saves sample_decodes by auto
qed

text \<open>
  C33. Removing a member from the command line takes effect: the daemon supplies the address and
  fingerprint of the effective member, the client signs a tombstone over them, and when the
  daemon has applied it the node is not a peer any more and its fingerprint is pinned only if
  another peer has the same one.
\<close>

theorem member_remove_takes_effect:
  assumes "uid = our_uid \<or> uid = 0" "ae_secret A key = Some sk" "key_pair (ce_crates V) pk sk"
    and "anchored (ce_crates V) pk (dm_members d)" "views_ok (dm_members d)" "saves (ce_codec V) (ce_save_io V)"
    and "decode_array (ce_hex_decode V) 16 s = Some i" "s \<noteq> ''--admin-key''" "\<And>ps. set (ce_iter_peers V ps) = set ps"
    and "bt_get (mb_effective (dm_members d)) i = Some p" "i \<noteq> mb_our_node_id (dm_members d)"
    and "ae_parse_addr A (rn_addr (ce_render V) (pe_addr p)) = Some (pe_addr p)"
    and "decode_array (ce_hex_decode V) 32 (hex_encode (ce_crates V) (pe_fingerprint p)) = Some (pe_fingerprint p)"
    and "\<forall>cur. bt_get (mb_roster (dm_members d)) i = Some cur \<longrightarrow> se_epoch cur \<noteq> - 1"
  shows "\<exists>d'. member_command V A (roundtrip V query our_uid uid) [''remove'', s, ''--admin-key'', key] d = Some (d', Inr (ROk MemberApplied))
    \<and> bt_get (mb_effective (dm_members d')) i = None
    \<and> (pe_fingerprint p \<in> mb_allowlist (dm_members d') \<longrightarrow>
         (\<exists>j q. j \<noteq> i \<and> bt_get (mb_effective (dm_members d')) j = Some q \<and> pe_fingerprint q = pe_fingerprint p))"
proof -
  define e where "e = signed sk i (pe_addr p) (pe_fingerprint p) (next_epoch_for (mb_roster (dm_members d)) i) Remove"
  have e: "se_node_id e = i" "se_kind e = Remove" by (simp_all add: e_def signed_def)
  have "merge_entry (ce_crates V) pk e (mb_roster (dm_members d)) = (bt_insert (se_node_id e) e (mb_roster (dm_members d)), Applied)"
    using assms(3,14) by (intro next_epoch_wins) (simp_all add: e_def signed_verifies, simp_all add: signed_def)
  from merge_signed_applied [OF assms(6,4) this] assms(11) obtain m' where
    m': "merge_signed (ce_crates V) (ce_codec V) (ce_save_io V) e (dm_members d) = (m', Inr Applied)"
      "bt_get (mb_effective m') i = None"
      "pe_fingerprint p \<in> mb_allowlist m' \<longleftrightarrow> (\<exists>n q. bt_get (mb_effective m') n = Some q \<and> pe_fingerprint q = pe_fingerprint p)"
    by (auto simp: e)
  have "List.find (\<lambda>q. pe_node_id q = i) (effective_peers (ce_iter_peers V) (dm_members d)) = Some p"
    using assms(4,5,9,10) by (intro member_found) (auto simp: anchored_def)
  then have af: "member_addr_fp V i d = (Some (rn_addr (ce_render V) (pe_addr p)), Some (hex_encode (ce_crates V) (pe_fingerprint p)))"
    by (simp add: member_addr_fp_def)
  have "member_command V A (roundtrip V query our_uid uid) (''remove'' # [s, ''--admin-key'', key]) d =
      Some (case member_request V e d of (d, resp) \<Rightarrow> (d, Inr resp))"
    unfolding e_def using assms(1,2,7,8,12,13)
    by (intro member_command_submits [OF _ _ _ _ af, of _ _ _ key s "[]"]) (auto simp: entry_fields_def cli_fingerprint_def)
  moreover have "n \<noteq> i" if "bt_get (mb_effective m') n = Some q" for n q using that m'(2) by auto
  ultimately show ?thesis using m' by (auto simp: member_request_applied [OF m'(1)])
qed

lemma sample_member_there:
  "bt_get (mb_effective (dm_members (sample_daemon [(sample_id, sample_entry)]))) sample_id =
     Some \<lparr>pe_node_id = sample_id, pe_addr = sample_addr, pe_fingerprint = sample_fp\<rparr>"
proof -
  have "roster_ok plain_crates [1] (mb_roster (example_member [(sample_id, sample_entry)]))"
    using sample_entry_ok by (simp add: example_roster)
  from effective_get [OF this, of sample_id] show ?thesis
    using sample_not_ours by (simp add: example_roster bt_get_def) (simp add: sample_entry_def signed_def entry_peer_def)
qed

theorem member_remove_takes_effect_witness:
  "\<exists>d'. member_command sample_env sample_admin (roundtrip sample_env (\<lambda>_. None) 1000 1000)
       [''remove'', ''node-b----------'', ''--admin-key'', ''admin.key''] (sample_daemon [(sample_id, sample_entry)]) =
       Some (d', Inr (ROk MemberApplied)) \<and> bt_get (mb_effective (dm_members d')) sample_id = None"
proof -
  let ?d = "sample_daemon [(sample_id, sample_entry)]"
  have "ae_secret sample_admin k = Some (\<lambda>msg. [1] @ msg)" "ae_parse_addr sample_admin a = Some sample_addr" for k a
    by (simp_all add: sample_admin_def)
  moreover have "anchored plain_crates [1] (dm_members ?d)" using sample_anchored [OF sample_entry_ok] by simp
  moreover have "sample_id \<noteq> mb_our_node_id (dm_members ?d)" using sample_not_ours by (simp add: example_member_def)
  moreover have "\<forall>cur. bt_get (mb_roster (dm_members ?d)) sample_id = Some cur \<longrightarrow> se_epoch cur \<noteq> - 1"
    by (simp add: example_roster bt_get_def sample_entry_def signed_def)
  ultimately show ?thesis
    using member_remove_takes_effect [of 1000 1000 sample_admin "''admin.key''" _ sample_env "[1]" ?d "''node-b----------''"
        sample_id _ "\<lambda>_. None", OF _ _ _ _ _ _ _ _ _ sample_member_there]
      sample_key_pair sample_saves sample_decodes by auto
qed

text \<open>
  A runtime override of the rates holds until the next tick of the policy task when there is
  a schedule, which then decides by day and minute; without a schedule no tick ever undoes
  it, only the next reload does.
\<close>

theorem override_lasts_until_scheduled_tick:
  "bandwidth_rates (set_bandwidth V g p d) = (g, p)
   \<and> bandwidth_rates (policy_tick now tm room (set_bandwidth V g p d)) =
       (let policy = li_policy (dm_live d); (wd, minute) = local_clock tm
        in if bw_schedule policy = [] then (g, p)
           else active_rates (bw_schedule policy) (bw_global_bps policy, bw_per_peer_bps policy) wd minute)"
  by (auto simp: bandwidth_rates_def set_bandwidth_def policy_tick_def schedule_tick_def Let_def split: prod.splits)

text \<open>
  A rate on the command line is the decimal number times the suffix, modulo the width of the
  counter: a product that does not fit is not refused, it wraps around.
\<close>

theorem rate_suffix_wraps:
  assumes "parse_bps s = Inr r"
  shows "\<exists>digits n mult. parse_unsigned (2 ^ 64) digits = Some n \<and> n < 2 ^ 64 \<and> mult \<in> {1, 10 ^ 3, 10 ^ 6, 10 ^ 9}
    \<and> (map to_lower s = digits \<or> map to_lower s = digits @ [last (map to_lower s)]) \<and> unat r = n * mult mod 2 ^ 64"
proof -
  define v where "v = map to_lower s"
  have range: "n < 2 ^ 64" if "parse_unsigned (2 ^ 64) digits = Some n" for n digits
    using that by (auto simp: parse_unsigned_def Let_def split: if_splits)
  have mult: "unat (word_of_nat n * word_of_nat k :: u64) = n * k mod 2 ^ 64" for n k :: nat
    by (simp add: unat_of_nat flip: of_nat_mult)
  have ends: "v = butlast v @ [last v]" if "suffix_of v = Some c" for c
  proof -
    have "v \<noteq> []" using that by (simp add: suffix_of_def split: if_splits)
    then show ?thesis by simp
  qed
  consider (k) n where "suffix_of v = Some CHR ''k''" "parse_unsigned (2 ^ 64) (butlast v) = Some n" "r = word_of_nat n * word_of_nat (10 ^ 3)"
    | (m) n where "suffix_of v = Some CHR ''m''" "parse_unsigned (2 ^ 64) (butlast v) = Some n" "r = word_of_nat n * word_of_nat (10 ^ 6)"
    | (g) n where "suffix_of v = Some CHR ''g''" "parse_unsigned (2 ^ 64) (butlast v) = Some n" "r = word_of_nat n * word_of_nat (10 ^ 9)"
    | (plain) n where "parse_unsigned (2 ^ 64) v = Some n" "r = word_of_nat n * word_of_nat 1"
    using assms by (auto simp: parse_bps_def v_def [symmetric] Let_def split: if_splits option.splits)
  then obtain digits n k where "parse_unsigned (2 ^ 64) digits = Some n" "k \<in> {1, 10 ^ 3, 10 ^ 6, 10 ^ 9}"
      "v = digits \<or> v = digits @ [last v]" "r = word_of_nat n * word_of_nat k"
    by cases (blast dest: ends)+
  then show ?thesis using range mult unfolding v_def [symmetric] by blast
qed

theorem rate_suffix_wraps_witness:
  "parse_bps ''18446744073709552k'' = Inr 384"
proof -
  have eval: "parse_bps ''18446744073709552k'' = Inr (word_of_nat 18446744073709552 * 1000)"
    by (simp add: parse_bps_def to_lower_def suffix_of_def parse_unsigned_def is_digit_def)
  from rate_suffix_wraps [OF eval] eval show ?thesis by simp
qed

end
