(* ===== verification/Health.thy ===== *)
theory Health
  imports Control
begin

text \<open>
  The health and metrics endpoint (\<open>src/health.rs\<close>).  A connection is the list of what its
  reads deliver: bytes, an empty read for the end of the stream, or an error; a list that is
  used up is a peer that sends nothing more.  A read takes at most the room left in the
  buffer, and what it leaves is never looked at, since a full buffer ends the loop.  The text
  of a request is kept as its bytes: the lossy decoding of the source replaces bytes that are
  no UTF-8 and leaves line ends, white space and the paths it is compared with alone.
  The Prometheus encoder is an argument.
\<close>

definition MAX_REQUEST :: nat where "MAX_REQUEST = 8 * 1024"

definition CRLF2 :: bytes where "CRLF2 = [13, 10, 13, 10]"

fun contains_seq :: "bytes \<Rightarrow> bytes \<Rightarrow> bool" where
  "contains_seq pat [] = (pat = [])"
| "contains_seq pat (b # bs) = (take (length pat) (b # bs) = pat \<or> contains_seq pat bs)"

datatype read_outcome = TooLarge | PeerGone | ReadFailed | StillReading | Complete bytes

fun read_request :: "bytes \<Rightarrow> bytes option list \<Rightarrow> read_outcome" where
  "read_request buf reads =
     (if length buf = MAX_REQUEST then TooLarge
      else case reads of
             [] \<Rightarrow> StillReading
           | None # _ \<Rightarrow> ReadFailed
           | Some c # rest \<Rightarrow>
               if c = [] then PeerGone
               else let buf = buf @ take (MAX_REQUEST - length buf) c
                    in if contains_seq CRLF2 buf then Complete buf else read_request buf rest)"

declare read_request.simps [simp del]

text \<open>The bytes of one white-space character at the front, as UTF-8 encodes it; 0 when there is none.\<close>

definition space_width :: "bytes \<Rightarrow> nat" where
  "space_width bs =
     (if bs \<noteq> [] \<and> hd bs \<in> {9, 10, 11, 12, 13, 32} then 1
      else if take 2 bs \<in> {[0xC2, 0x85], [0xC2, 0xA0]} then 2
      else if take 3 bs \<in> {[0xE1, 0x9A, 0x80], [0xE2, 0x80, 0xA8], [0xE2, 0x80, 0xA9], [0xE2, 0x80, 0xAF], [0xE2, 0x81, 0x9F], [0xE3, 0x80, 0x80]}
      then 3
      else if take 2 bs = [0xE2, 0x80] \<and> length bs \<ge> 3 \<and> 0x80 \<le> bs ! 2 \<and> bs ! 2 \<le> 0x8A then 3
      else 0)"

function split_whitespace :: "bytes \<Rightarrow> bytes \<Rightarrow> bytes list" where
  "split_whitespace word [] = (if word = [] then [] else [word])"
| "split_whitespace word (b # bs) =
     (if space_width (b # bs) = 0 then split_whitespace (word @ [b]) bs
      else (if word = [] then [] else [word]) @ split_whitespace [] (drop (space_width (b # bs)) (b # bs)))"
  by pat_completeness auto
termination by (relation "measure (\<lambda>(_, bs). length bs)") auto

definition first_line :: "bytes \<Rightarrow> bytes" where
  "first_line bs =
     (let l = takeWhile (\<lambda>b. b \<noteq> 10) bs
      in if l \<noteq> [] \<and> last l = 13 \<and> length l < length bs then butlast l else l)"

definition request_path :: "bytes \<Rightarrow> bytes" where
  "request_path line = (case split_whitespace [] line of _ # p # _ \<Rightarrow> p | _ \<Rightarrow> [])"

datatype route = Healthz | Metrics | NotThere

definition route_of :: "bytes \<Rightarrow> route" where
  "route_of head =
     (let line = first_line head; p = request_path line
      in if take 4 line \<noteq> as_bytes ''GET '' then NotThere
         else if p = as_bytes ''/healthz'' then Healthz
         else if p = as_bytes ''/metrics'' then Metrics
         else NotThere)"

subsection \<open>Bodies\<close>

record health_ctx =
  hc_node_id :: node_id
  hc_stats :: stats
  hc_peers :: peer_registry
  hc_conns :: conn_registry
  hc_store :: store
  hc_cas_stats :: "nat \<times> nat"
  hc_configured_peers :: "node_id list"
  hc_events_queued :: nat
  hc_owner_skips :: u64

definition show_int :: "int \<Rightarrow> string" where
  "show_int i = (if i < 0 then ''-'' @ show_nat (nat (- i)) else show_nat (nat i))"

definition show_u64 :: "u64 \<Rightarrow> string" where "show_u64 w = show_nat (unat w)"

definition show_bool :: "bool \<Rightarrow> string" where "show_bool b = (if b then ''true'' else ''false'')"

definition quoted :: "string \<Rightarrow> string" where "quoted s = [CHR 0x22] @ s @ [CHR 0x22]"

definition json_member :: "string \<Rightarrow> string \<Rightarrow> string" where "json_member k v = quoted k @ '':'' @ v"

definition json_object :: "(string \<times> string) list \<Rightarrow> string" where
  "json_object kvs = ''{'' @ join_with '','' (map (\<lambda>(k, v). json_member k v) kvs) @ ''}''"

definition render_peer :: "crates \<Rightarrow> health_ctx \<Rightarrow> node_id \<Rightarrow> string" where
  "render_peer X c p =
     (let status = registry_get (hc_peers c) p
      in json_object
           [(''node_id'', quoted (hex_encode X p)), (''state'', quoted (peer_state_as_str (ps_state status))),
            (''connected'', show_bool (conn_get (hc_conns c) p \<noteq> None)),
            (''last_reconcile_unix'', show_int (ps_last_reconcile_unix status)),
            (''last_reconcile_ok'', show_bool (ps_last_reconcile_ok status)),
            (''recv_cursor'', show_int (store_recv_cursor X (hc_node_id c) p (hc_store c))),
            (''last_acked_seq'', show_int (store_last_acked X (hc_node_id c) p (hc_store c)))])"

definition render_health :: "crates \<Rightarrow> health_ctx \<Rightarrow> string" where
  "render_health X c =
     (let s = hc_stats c
      in json_object
           [(''node_id'', quoted (hex_encode X (hc_node_id c))),
            (''peers'', ''['' @ join_with '','' (map (render_peer X c) (hc_configured_peers c)) @ '']''),
            (''counters'', json_object
               [(''chunks_fetched'', show_u64 (st_chunks_fetched s)), (''chunks_served'', show_u64 (st_chunks_served s)),
                (''bytes_in'', show_u64 (st_bytes_in s)), (''bytes_out'', show_u64 (st_bytes_out s)),
                (''manifests_fetched'', show_u64 (st_manifests_fetched s)), (''reconcile_runs'', show_u64 (st_reconcile_runs s)),
                (''inflight_transfers'', show_int (st_inflight_transfers s))]),
            (''cas'', json_object [(''chunks'', show_nat (fst (hc_cas_stats c))), (''bytes'', show_nat (snd (hc_cas_stats c)))]),
            (''queues'', json_object [(''events_queued'', show_nat (hc_events_queued c)), (''live_conns'', show_nat (length (hc_conns c)))]),
            (''oplog_rows'', show_int (store_op_count X (hc_node_id c) (hc_store c)))])"

text \<open>What is registered with the Prometheus registry: counters, gauges and gauges labelled by peer.\<close>

datatype metric = Counter string u64 | Gauge string i64 | PeerGauge string "(string \<times> i64) list"

definition metrics_of :: "crates \<Rightarrow> health_ctx \<Rightarrow> metric list" where
  "metrics_of X c =
     (let s = hc_stats c
      in [Counter ''replicore_chunks_fetched_total'' (st_chunks_fetched s),
          Counter ''replicore_chunks_cache_hits_total'' (st_chunks_cache_hits s),
          Counter ''replicore_chunks_served_total'' (st_chunks_served s),
          Counter ''replicore_bytes_in_total'' (st_bytes_in s),
          Counter ''replicore_bytes_out_total'' (st_bytes_out s),
          Counter ''replicore_manifests_fetched_total'' (st_manifests_fetched s),
          Counter ''replicore_reconcile_runs_total'' (st_reconcile_runs s),
          Counter ''replicore_conflicts_total'' (st_conflicts s),
          Counter ''replicore_freespace_guard_trips_total'' (st_freespace_trips s),
          Counter ''replicore_apply_errors_total'' (st_apply_errors s),
          Counter ''replicore_meta_owner_skips_total'' (hc_owner_skips c),
          Gauge ''replicore_inflight_transfers'' (st_inflight_transfers s),
          Gauge ''replicore_events_queued'' (int (hc_events_queued c)),
          Gauge ''replicore_live_connections'' (int (length (hc_conns c))),
          Gauge ''replicore_oplog_rows'' (store_op_count X (hc_node_id c) (hc_store c)),
          PeerGauge ''replicore_peer_recv_cursor''
            (map (\<lambda>p. (hex_encode X p, store_recv_cursor X (hc_node_id c) p (hc_store c))) (hc_configured_peers c)),
          PeerGauge ''replicore_peer_acked_seq''
            (map (\<lambda>p. (hex_encode X p, store_last_acked X (hc_node_id c) p (hc_store c))) (hc_configured_peers c))])"

definition respond :: "string \<Rightarrow> string \<Rightarrow> string \<Rightarrow> string" where
  "respond status content_type body =
     (let nl = [CHR 0x0D, CHR 0x0A]
      in ''HTTP/1.1 '' @ status @ nl @ ''Content-Type: '' @ content_type @ nl @ ''Content-Length: '' @ show_nat (length body) @ nl
         @ ''Connection: close'' @ nl @ nl @ body)"

definition route_answer :: "crates \<Rightarrow> (metric list \<Rightarrow> string) \<Rightarrow> health_ctx \<Rightarrow> route \<Rightarrow> string" where
  "route_answer X encode c r =
     (case r of
        Healthz \<Rightarrow> respond ''200 OK'' ''application/json'' (render_health X c)
      | Metrics \<Rightarrow> respond ''200 OK'' ''text/plain; version=0.0.4; charset=utf-8'' (encode (metrics_of X c))
      | NotThere \<Rightarrow> respond ''404 Not Found'' ''application/json'' (''{'' @ json_member ''error'' (quoted ''not found'') @ ''}''))"

definition too_large_answer :: string where
  "too_large_answer = respond ''431 Request Header Fields Too Large'' ''application/json'' ''{}''"

text \<open>What a connection is sent: \<open>None\<close> when nothing is.\<close>

definition health_handle :: "crates \<Rightarrow> (metric list \<Rightarrow> string) \<Rightarrow> health_ctx \<Rightarrow> bytes option list \<Rightarrow> string option" where
  "health_handle X encode c reads =
     (case read_request [] reads of
        TooLarge \<Rightarrow> Some too_large_answer
      | Complete head \<Rightarrow> Some (route_answer X encode c (route_of head))
      | _ \<Rightarrow> None)"

subsection \<open>Reading\<close>

lemma contains_seq_iff: "contains_seq pat bs \<longleftrightarrow> (\<exists>xs ys. bs = xs @ pat @ ys)"
proof (induction bs)
  case (Cons b bs)
  have "take (length pat) (b # bs) = pat \<longleftrightarrow> (\<exists>ys. b # bs = pat @ ys)"
    by (metis append_eq_conv_conj append_take_drop_id)
  moreover have "(\<exists>xs ys. b # bs = xs @ pat @ ys) \<longleftrightarrow> (\<exists>ys. b # bs = pat @ ys) \<or> (\<exists>xs ys. bs = xs @ pat @ ys)"
    by (metis append_Cons append_Nil list.inject neq_Nil_conv)
  ultimately show ?case using Cons by simp
qed simp

lemma contains_seq_append: "contains_seq pat bs \<Longrightarrow> contains_seq pat (bs @ cs)"
  unfolding contains_seq_iff by (metis append.assoc)

text \<open>
  What reading comes to, for a stream delivered in any pieces: the first 8192 bytes decide.
\<close>

lemma read_request_pieces:
  assumes "length buf \<le> MAX_REQUEST" "\<not> contains_seq CRLF2 buf" "[] \<notin> set pieces"
  shows "if contains_seq CRLF2 (take MAX_REQUEST (buf @ concat pieces))
         then \<exists>head rest. read_request buf (map Some pieces) = Complete head \<and> contains_seq CRLF2 head
                \<and> take MAX_REQUEST (buf @ concat pieces) = head @ rest
         else read_request buf (map Some pieces) = (if length (buf @ concat pieces) \<ge> MAX_REQUEST then TooLarge else StillReading)"
  using assms
proof (induction pieces arbitrary: buf)
  case Nil
  then show ?case by (auto simp: read_request.simps)
next
  case (Cons c pieces)
  show ?case
  proof (cases "length buf = MAX_REQUEST")
    case True
    then show ?thesis using Cons.prems by (auto simp: read_request.simps)
  next
    case room: False
    define buf' where "buf' = buf @ take (MAX_REQUEST - length buf) c"
    have len: "length buf' \<le> MAX_REQUEST" using Cons.prems(1) by (simp add: buf'_def)
    have step: "read_request buf (map Some (c # pieces)) = (if contains_seq CRLF2 buf' then Complete buf' else read_request buf' (map Some pieces))"
      using room Cons.prems(3) by (subst read_request.simps) (auto simp: buf'_def Let_def)
    have all: "take MAX_REQUEST (buf @ concat (c # pieces)) = take MAX_REQUEST (buf' @ concat pieces)"
      and full: "length (buf @ concat (c # pieces)) \<ge> MAX_REQUEST \<longleftrightarrow> length (buf' @ concat pieces) \<ge> MAX_REQUEST"
      using Cons.prems(1) by (auto simp: buf'_def min_def)
    show ?thesis
    proof (cases "contains_seq CRLF2 buf'")
      case True
      then show ?thesis using len step contains_seq_append [OF True] unfolding all by auto
    next
      case False
      have "[] \<notin> set pieces" using Cons.prems(3) by simp
      from Cons.IH [OF len False this] show ?thesis unfolding step all full if_not_P [OF False] by blast
    qed
  qed
qed

lemma first_line_append: "10 \<in> set head \<Longrightarrow> first_line (head @ rest) = first_line head"
proof -
  assume "10 \<in> set head"
  then have "takeWhile (\<lambda>b. b \<noteq> 10) (head @ rest) = takeWhile (\<lambda>b. b \<noteq> 10) head"
    by (auto intro: takeWhile_append1)
  moreover have "length (takeWhile (\<lambda>b. b \<noteq> 10) head) < length head"
    using \<open>10 \<in> set head\<close> by (induction head) auto
  ultimately show ?thesis by (simp add: first_line_def Let_def)
qed

lemma crlf2_has_newline: "contains_seq CRLF2 head \<Longrightarrow> 10 \<in> set head"
  by (auto simp: contains_seq_iff CRLF2_def)

subsection \<open>Properties\<close>

text \<open>
  C39. The answer of the health endpoint does not depend on how the network cuts the request into
  pieces: only the first 8192 bytes count.  When they hold an empty line, the answer is the
  one of their request line; when they do not and there are that many, it is 431; otherwise
  nothing is sent yet.
\<close>

theorem health_answer_ignores_segmentation:
  assumes "[] \<notin> set pieces"
  shows "health_handle X encode c (map Some pieces) =
    (let seen = take MAX_REQUEST (concat pieces)
     in if contains_seq CRLF2 seen then Some (route_answer X encode c (route_of seen))
        else if length (concat pieces) \<ge> MAX_REQUEST then Some too_large_answer else None)"
proof (cases "contains_seq CRLF2 (take MAX_REQUEST (concat pieces))")
  case True
  with read_request_pieces [of "[]" pieces] assms obtain head rest where
    head: "read_request [] (map Some pieces) = Complete head" "contains_seq CRLF2 head" "take MAX_REQUEST (concat pieces) = head @ rest"
    by (auto simp: CRLF2_def)
  have "route_of (head @ rest) = route_of head"
    by (simp add: route_of_def first_line_append [OF crlf2_has_newline [OF head(2)]])
  with True head show ?thesis by (simp add: health_handle_def)
next
  case False
  with read_request_pieces [of "[]" pieces] assms show ?thesis by (simp add: health_handle_def CRLF2_def)
qed

definition sample_health :: health_ctx where
  "sample_health = \<lparr>hc_node_id = [1], hc_stats = idle_stats, hc_peers = [], hc_conns = [], hc_store = \<lparr>s_db = empty_db, s_latest = 0\<rparr>,
     hc_cas_stats = (0, 0), hc_configured_peers = [[2]], hc_events_queued = 0, hc_owner_skips = 0\<rparr>"

theorem health_answer_ignores_segmentation_witness:
  "health_handle plain_crates (\<lambda>_. []) sample_health [Some (as_bytes ''GET /hea''), Some (as_bytes ''lthz x'' @ CRLF2)] =
     Some (route_answer plain_crates (\<lambda>_. []) sample_health Healthz)"
proof -
  have "contains_seq CRLF2 (as_bytes ''GET /healthz x'' @ CRLF2)"
    unfolding contains_seq_iff by (metis append_Nil2)
  moreover have "route_of (as_bytes ''GET /healthz x'' @ CRLF2) = Healthz"
    by (simp add: route_of_def first_line_def request_path_def as_bytes_def CRLF2_def space_width_def)
  moreover have "as_bytes ''GET /hea'' @ as_bytes ''lthz x'' @ CRLF2 = as_bytes ''GET /healthz x'' @ CRLF2"
    by (simp flip: as_bytes_append)
  ultimately show ?thesis
    using health_answer_ignores_segmentation [of "[as_bytes ''GET /hea'', as_bytes ''lthz x'' @ CRLF2]" plain_crates "\<lambda>_. []" sample_health]
    by (simp add: MAX_REQUEST_def CRLF2_def as_bytes_def)
qed

end
