(* ===== verification/Pinning.thy ===== *)
theory Pinning
  imports Session Supervise
begin

text \<open>
  Who may connect (\<open>src/net.rs\<close>): certificates are pinned by fingerprint, on both sides of
  the handshake and without any certificate authority; an accepted connection is bound to the
  effective peer that has the fingerprint, registered, and served.  The hash and the proof
  of possession that TLS makes are arguments.  Membership changes while a connection is being
  set up, so each step reads the membership of its own moment; the race between registering
  and removing is the step relation \<open>race_step\<close>.
\<close>

definition cert_fingerprint :: "(bytes \<Rightarrow> bytes) \<Rightarrow> bytes \<Rightarrow> bytes" where
  "cert_fingerprint sha256 der = sha256 der"

definition pin_ok :: "(bytes \<Rightarrow> bytes) \<Rightarrow> membership \<Rightarrow> bytes \<Rightarrow> bool" where
  "pin_ok sha256 m der \<longleftrightarrow> cert_fingerprint sha256 der \<in> mb_allowlist m"

definition client_auth_mandatory :: bool where "client_auth_mandatory = True"

text \<open>
  The handshake as the listener sees it: the chain the client offers, the first certificate
  being the end entity, and whether it proved to have the key.
\<close>

definition verify_client ::
  "(bytes \<Rightarrow> bytes) \<Rightarrow> (bytes \<Rightarrow> bool) \<Rightarrow> membership \<Rightarrow> bytes list \<Rightarrow> bool" where
  "verify_client sha256 possesses m certs =
     (case certs of [] \<Rightarrow> \<not> client_auth_mandatory | der # _ \<Rightarrow> pin_ok sha256 m der \<and> possesses der)"

definition peer_fingerprint :: "(bytes \<Rightarrow> bytes) \<Rightarrow> bytes list \<Rightarrow> net_error + bytes" where
  "peer_fingerprint sha256 certs = (case certs of [] \<Rightarrow> Inl NoPeerCert | der # _ \<Rightarrow> Inr (cert_fingerprint sha256 der))"

definition identify ::
  "(bytes \<Rightarrow> bytes) \<Rightarrow> (peer list \<Rightarrow> peer list) \<Rightarrow> membership \<Rightarrow> bytes list \<Rightarrow> net_error + peer" where
  "identify sha256 iter m certs =
     (case peer_fingerprint sha256 certs of
        Inl e \<Rightarrow> Inl e
      | Inr fp \<Rightarrow> (case peer_by_fingerprint iter m fp of Some p \<Rightarrow> Inr p | None \<Rightarrow> Inl UnknownPeer))"

text \<open>
  An inbound connection: the memberships at the handshake, when it is identified and when it
  is registered; \<open>io\<close> is the exchange, which ends with the registry as it then is.  The
  result names the peer the exchange was run with, if it was.
\<close>

definition handle_inbound ::
  "(bytes \<Rightarrow> bytes) \<Rightarrow> (bytes \<Rightarrow> bool) \<Rightarrow> (peer list \<Rightarrow> peer list) \<Rightarrow> membership \<Rightarrow> membership \<Rightarrow> membership
     \<Rightarrow> (peer \<Rightarrow> conn_registry \<Rightarrow> conn_registry \<times> (net_error + unit)) \<Rightarrow> conn \<Rightarrow> bytes list \<Rightarrow> conn_registry
     \<Rightarrow> conn_registry \<times> peer option \<times> (net_error + unit)" where
  "handle_inbound sha256 possesses iter m_tls m_id m_reg io c certs r =
     (if \<not> verify_client sha256 possesses m_tls certs then (r, None, Inl NConnection)
      else case identify sha256 iter m_id certs of
             Inl e \<Rightarrow> (r, None, Inl e)
           | Inr p \<Rightarrow>
               (case register_authenticated (pe_node_id p) c m_reg r of
                  (r, Inl e) \<Rightarrow> (r, None, Inl e)
                | (r, Inr _) \<Rightarrow>
                    (let (r, res) = io p r in (remove_if_same (pe_node_id p) c r, Some p, res))))"

text \<open>The node a connection is registered under, for the accounting of served bytes.\<close>

definition peer_of :: "((node_id \<times> conn list) list \<Rightarrow> (node_id \<times> conn list) list) \<Rightarrow> conn_registry \<Rightarrow> conn \<Rightarrow> node_id" where
  "peer_of iter r c = (case List.find (\<lambda>(_, d). d = c) (conn_all iter r) of Some (i, _) \<Rightarrow> i | None \<Rightarrow> zeros 16)"

text \<open>An ephemeral stream is served by its leading byte.\<close>

datatype stream_kind = ServeChunk | ServeManifest | ServeReconcile | ServeRoster | ServeCtlQuery

definition serve_one_stream :: "u8 \<Rightarrow> net_error + stream_kind" where
  "serve_one_stream tag =
     (if tag = 1 then Inr ServeChunk else if tag = 2 then Inr ServeManifest else if tag = 3 then Inr ServeReconcile
      else if tag = 4 then Inr ServeRoster else if tag = 5 then Inr ServeCtlQuery
      else Inl (NViolation ''unknown stream tag''))"

subsection \<open>The gossip driver\<close>

text \<open>
  The driver looks for an admin key once, when it starts; afterwards a tick gossips with one
  connection picked at random and a change with all of them.  \<open>answers\<close> is what a peer
  answers on a connection.
\<close>

datatype driver_event = Tick nat | Changed

definition pick_random :: "nat \<Rightarrow> 'a list \<Rightarrow> 'a option" where
  "pick_random draw xs = (if xs = [] then None else Some (xs ! (draw mod length xs)))"

definition gossip_on ::
  "crates \<Rightarrow> codec \<Rightarrow> (nat \<Rightarrow> save_fault option) \<Rightarrow> (conn \<Rightarrow> gossip_frame \<Rightarrow> gossip_frame option) \<Rightarrow> conn \<Rightarrow> membership \<Rightarrow> membership" where
  "gossip_on X J io answers c m =
     (case gossip_open X m of
        None \<Rightarrow> m
      | Some f \<Rightarrow> (case answers c f of None \<Rightarrow> m | Some g \<Rightarrow> fst (gossip_answer X J io g m)))"

definition driver_running :: "membership \<Rightarrow> bool" where
  "driver_running at_start = has_admin_key at_start"

definition gossip_driver ::
  "crates \<Rightarrow> codec \<Rightarrow> (nat \<Rightarrow> save_fault option) \<Rightarrow> (conn \<Rightarrow> gossip_frame \<Rightarrow> gossip_frame option) \<Rightarrow> bool
     \<Rightarrow> (node_id \<times> conn) list \<Rightarrow> driver_event \<Rightarrow> membership \<Rightarrow> membership" where
  "gossip_driver X J io answers running conns ev m =
     (if \<not> running then m
      else case ev of
             Tick draw \<Rightarrow> (case pick_random draw conns of None \<Rightarrow> m | Some (_, c) \<Rightarrow> gossip_on X J io answers c m)
           | Changed \<Rightarrow> fold (\<lambda>(_, c). gossip_on X J io answers c) conns m)"

subsection \<open>Registering against removing\<close>

datatype reg_pc = Arrived | Inserted | Registered | Severed

datatype sup_pc = Idle | Swapped | Swept

record race =
  ra_members :: membership
  ra_sup :: supervisor
  ra_reg :: reg_pc
  ra_pc :: sup_pc

text \<open>
  The connection \<open>c\<close> of node \<open>i\<close> is inserted and then checked against the membership of that
  moment; a removal first replaces the membership by \<open>gone\<close> and then wakes the supervisor.
  Each of the four is atomic.
\<close>

inductive race_step ::
  "((node_id \<times> peer) list \<Rightarrow> (node_id \<times> peer) list) \<Rightarrow> membership \<Rightarrow> node_id \<Rightarrow> conn \<Rightarrow> race \<Rightarrow> race \<Rightarrow> bool"
  for iter gone i c where
  insert: "ra_reg s = Arrived \<Longrightarrow>
    race_step iter gone i c s (s\<lparr>ra_reg := Inserted, ra_sup := (ra_sup s)\<lparr>sv_conns := conn_insert i c (sv_conns (ra_sup s))\<rparr>\<rparr>)"
| passed: "ra_reg s = Inserted \<Longrightarrow> \<exists>p \<in> set (effective_peers id (ra_members s)). pe_node_id p = i \<Longrightarrow>
    race_step iter gone i c s (s\<lparr>ra_reg := Registered\<rparr>)"
| severed: "ra_reg s = Inserted \<Longrightarrow> \<not> (\<exists>p \<in> set (effective_peers id (ra_members s)). pe_node_id p = i) \<Longrightarrow>
    race_step iter gone i c s (s\<lparr>ra_reg := Severed, ra_sup := (ra_sup s)\<lparr>sv_conns := remove_if_same i c (sv_conns (ra_sup s))\<rparr>\<rparr>)"
| swap: "ra_pc s = Idle \<Longrightarrow> race_step iter gone i c s (s\<lparr>ra_pc := Swapped, ra_members := gone\<rparr>)"
| sweep: "ra_pc s = Swapped \<Longrightarrow>
    race_step iter gone i c s (s\<lparr>ra_pc := Swept, ra_sup := supervise iter (\<lambda>_. False) (ra_members s) (ra_sup s)\<rparr>)"

inductive_cases race_stepE: "race_step iter gone i c s t"

inductive race_run ::
  "((node_id \<times> peer) list \<Rightarrow> (node_id \<times> peer) list) \<Rightarrow> membership \<Rightarrow> node_id \<Rightarrow> conn \<Rightarrow> race \<Rightarrow> race \<Rightarrow> bool"
  for iter gone i c where
  start: "race_run iter gone i c s s"
| step: "race_run iter gone i c s t \<Longrightarrow> race_step iter gone i c t u \<Longrightarrow> race_run iter gone i c s u"

definition race_start :: "membership \<Rightarrow> supervisor \<Rightarrow> race" where
  "race_start m s = \<lparr>ra_members = m, ra_sup = s, ra_reg = Arrived, ra_pc = Idle\<rparr>"

text \<open>Whether the registry still has the connection.\<close>

definition registered :: "conn_registry \<Rightarrow> node_id \<Rightarrow> conn \<Rightarrow> bool" where
  "registered r i c \<longleftrightarrow> (\<exists>cs. bt_get r i = Some cs \<and> c \<in> set cs)"

lemma registered_simps [simp]:
  "registered (conn_insert i c r) j d \<longleftrightarrow> (j = i \<and> d = c) \<or> registered r j d"
  "registered (remove_if_same i c r) j d \<longleftrightarrow> registered r j d \<and> \<not> (j = i \<and> d = c)"
  by (auto simp: registered_def conn_insert_def entry_update_def remove_if_same_def bt_get_insert bt_get_remove filter_empty_conv
      unwrap_or_def Let_def split: option.splits if_splits)

lemma bt_ok_conns [simp]:
  "bt_ok r \<Longrightarrow> bt_ok (conn_insert i c r)" "bt_ok r \<Longrightarrow> bt_ok (remove_if_same i c r)"
  by (auto simp: conn_insert_def entry_update_def remove_if_same_def bt_ok_insert bt_ok_remove Let_def split: option.splits)

definition sweeps :: "node_id \<Rightarrow> supervisor \<Rightarrow> bool" where
  "sweeps i s \<longleftrightarrow> filed (sv_tasks s) \<and> bt_ok (sv_conns s) \<and> bt_get (sv_tasks s) i \<noteq> None"

definition race_inv :: "membership \<Rightarrow> node_id \<Rightarrow> conn \<Rightarrow> race \<Rightarrow> bool" where
  "race_inv gone i c s \<longleftrightarrow>
     (ra_pc s \<noteq> Idle \<longrightarrow> ra_members s = gone)
     \<and> (ra_pc s \<noteq> Swept \<longrightarrow> sweeps i (ra_sup s))
     \<and> (ra_reg s = Severed \<longrightarrow> \<not> registered (sv_conns (ra_sup s)) i c)
     \<and> (ra_reg s = Registered \<and> ra_pc s = Swept \<longrightarrow> \<not> registered (sv_conns (ra_sup s)) i c)"

lemma desired_none:
  assumes "\<forall>p \<in> set (effective_peers id m). pe_node_id p \<noteq> i"
  shows "bt_get (desired_peers m) i = None"
proof -
  have "bt_get (fold (\<lambda>p. bt_insert (pe_node_id p) p) ps t) i = bt_get t i" if "\<forall>p \<in> set ps. pe_node_id p \<noteq> i" for ps and t :: "(node_id, peer) btree"
    using that by (induction ps arbitrary: t) (auto simp: bt_get_insert)
  then show ?thesis using assms by (simp add: desired_peers_def)
qed

lemma swept_conns:
  assumes "sweeps i s" "bt_get (desired_peers m) i = None" "\<And>es. set (iter es) = set es"
  shows "\<not> registered (sv_conns (supervise iter f m s)) i c"
  using supervise_outcome [of s iter f m] assms by (simp add: sweeps_def registered_def Let_def)

lemma race_step_inv:
  assumes "race_inv gone i c s" "race_step iter gone i c s t" "\<And>es. set (iter es) = set es"
    and "\<forall>p \<in> set (effective_peers id gone). pe_node_id p \<noteq> i"
  shows "race_inv gone i c t"
  using assms(2,1)
proof cases
  case sweep
  then have "sweeps i (ra_sup s)" "ra_members s = gone" using assms(1) by (auto simp: race_inv_def)
  with swept_conns [OF this(1) desired_none [OF assms(4)] assms(3)] sweep assms(1) show ?thesis
    by (simp add: race_inv_def)
qed (use assms in \<open>auto simp: race_inv_def sweeps_def\<close>)

lemma race_run_inv:
  assumes "race_run iter gone i c s t" "race_inv gone i c s" "\<And>es. set (iter es) = set es"
    and "\<forall>p \<in> set (effective_peers id gone). pe_node_id p \<noteq> i"
  shows "race_inv gone i c t"
  using assms(1,2) by induction (use assms(3,4) race_step_inv in blast)+

lemma register_frame:
  "register_authenticated i c m r = (r', res) \<Longrightarrow>
     (res = Inr () \<longrightarrow> (\<exists>p \<in> set (effective_peers id m). pe_node_id p = i))
     \<and> (res \<noteq> Inr () \<longrightarrow> (\<forall>j d. registered r' j d \<longrightarrow> registered r j d))"
  by (auto simp: register_authenticated_def Let_def split: if_splits)

subsection \<open>Examples\<close>

definition race_peer :: peer where
  "race_peer = \<lparr>pe_node_id = [2], pe_addr = V4 [10, 0, 0, 1] 7, pe_fingerprint = [7]\<rparr>"

definition race_member :: membership where
  "race_member = (example_member [])\<lparr>mb_effective := [([2], race_peer)], mb_allowlist := {[7]}\<rparr>"

definition race_supervisor :: "(node_id, peer) btree \<Rightarrow> supervisor" where
  "race_supervisor tasks = \<lparr>sv_tasks = tasks, sv_conns = [], sv_reg = [], sv_join = tracker_new None {[2]}, sv_closed = []\<rparr>"

lemma race_member_effective: "effective_peers id race_member = [race_peer]" "effective_peers id (example_member []) = []"
  by (simp_all add: effective_peers_def race_member_def bt_values_def example_member_def)

lemma race_supervisor_ok: "sweeps [2] (race_supervisor [([2], race_peer)])" "filed (sv_tasks (race_supervisor []))"
  by (auto simp: sweeps_def race_supervisor_def filed_def race_peer_def bt_ok_Cons bt_get_Cons split: if_splits)

subsection \<open>Properties\<close>

text \<open>
  C31. An exchange is run only with a peer that proved to have the key of a pinned certificate: its
  fingerprint was in the allowlist at the handshake, belongs to the peer the connection is
  bound to, and that peer is effective when it is registered.  Afterwards the connection is
  not registered under it; an attempt that is turned away adds nothing to the registry.
\<close>

theorem inbound_only_for_pinned_members:
  assumes "handle_inbound sha256 possesses iter m_tls m_id m_reg io c certs r = (r', served, res)"
    and "\<And>ps. set (iter ps) = set ps"
  shows "case served of
      Some p \<Rightarrow> (\<exists>der rest. certs = der # rest \<and> possesses der \<and> sha256 der \<in> mb_allowlist m_tls \<and> pe_fingerprint p = sha256 der)
        \<and> p \<in> set (bt_values (mb_effective m_id)) \<and> (\<exists>q \<in> set (effective_peers id m_reg). pe_node_id q = pe_node_id p)
        \<and> \<not> registered r' (pe_node_id p) c
    | None \<Rightarrow> res \<noteq> Inr () \<and> (\<forall>j d. registered r' j d \<longrightarrow> registered r j d)"
proof (cases "\<exists>p. identify sha256 iter m_id certs = Inr p \<and> verify_client sha256 possesses m_tls certs")
  case False
  then show ?thesis using assms(1) by (auto simp: handle_inbound_def split: if_splits sum.splits)
next
  case True
  then obtain p where p: "identify sha256 iter m_id certs = Inr p" and v: "verify_client sha256 possesses m_tls certs" by blast
  then obtain der rest where certs: "certs = der # rest"
    by (cases certs) (simp_all add: identify_def peer_fingerprint_def)
  have fp: "pe_fingerprint p = sha256 der" "p \<in> set (bt_values (mb_effective m_id))"
    using p assms(2) by (auto simp: identify_def peer_fingerprint_def certs cert_fingerprint_def peer_by_fingerprint_def find_Some_iff
        split: option.splits dest: nth_mem)
  obtain r1 reg where reg: "register_authenticated (pe_node_id p) c m_reg r = (r1, reg)" by fastforce
  obtain r2 out where out: "io p r1 = (r2, out)" by fastforce
  show ?thesis
  proof (cases reg)
    case (Inl e)
    then show ?thesis using assms(1) p v register_frame [OF reg] by (auto simp: handle_inbound_def reg)
  next
    case (Inr u)
    then show ?thesis using assms(1) p v register_frame [OF reg] fp
      by (auto simp: handle_inbound_def reg out certs verify_client_def pin_ok_def cert_fingerprint_def)
  qed
qed

theorem inbound_only_for_pinned_members_witness:
  "\<exists>r'. handle_inbound (\<lambda>der. der) (\<lambda>_. True) id race_member race_member race_member (\<lambda>_ r. (r, Inr ())) 5 [[7]] [] = (r', Some race_peer, Inr ())
     \<and> \<not> registered r' [2] 5"
proof -
  obtain r' res where run: "handle_inbound (\<lambda>der. der) (\<lambda>_. True) id race_member race_member race_member (\<lambda>_ r. (r, Inr ())) 5 [[7]] [] = (r', Some race_peer, res)"
    "res = Inr ()"
    using race_member_effective
    by (simp add: handle_inbound_def verify_client_def pin_ok_def cert_fingerprint_def identify_def peer_fingerprint_def peer_by_fingerprint_def
        register_authenticated_def race_member_def bt_values_def race_peer_def Let_def)
  show ?thesis using inbound_only_for_pinned_members [OF run(1)] run by (simp add: race_peer_def)
qed

text \<open>
  C19. A removal wins against a connection that is just being registered: in whatever order the
  insertion, its check, the change of membership and the pass of the supervisor happen, once
  they have all happened the connection is not registered, provided the supervisor had a
  dial loop for the node.
\<close>

theorem removal_wins_the_race:
  assumes "race_run iter gone i c (race_start m s) t" "ra_reg t \<in> {Registered, Severed}" "ra_pc t = Swept"
    and "sweeps i s" "\<forall>p \<in> set (effective_peers id gone). pe_node_id p \<noteq> i" "\<And>es. set (iter es) = set es"
  shows "\<not> registered (sv_conns (ra_sup t)) i c"
proof -
  have "race_inv gone i c (race_start m s)" using assms(4) by (simp add: race_inv_def race_start_def)
  from race_run_inv [OF assms(1) this assms(6,5)] show ?thesis using assms(2,3) by (auto simp: race_inv_def)
qed

text \<open>
  The proviso matters: the connection of a node the supervisor has no dial loop for, because
  it was added and removed between two of its passes, stays registered after the removal.
\<close>

theorem unsupervised_connection_survives_removal:
  assumes "filed (sv_tasks s)" "bt_ok (sv_conns s)" "bt_get (sv_tasks s) i = None" "\<And>es. set (iter es) = set es"
    and "\<exists>p \<in> set (effective_peers id m). pe_node_id p = i"
  shows "\<exists>t. race_run iter gone i c (race_start m s) t \<and> ra_reg t = Registered \<and> ra_pc t = Swept \<and> registered (sv_conns (ra_sup t)) i c"
proof -
  let ?s0 = "race_start m s"
  let ?s1 = "?s0\<lparr>ra_reg := Inserted, ra_sup := s\<lparr>sv_conns := conn_insert i c (sv_conns s)\<rparr>\<rparr>"
  let ?s2 = "?s1\<lparr>ra_reg := Registered\<rparr>"
  let ?s3 = "?s2\<lparr>ra_pc := Swapped, ra_members := gone\<rparr>"
  let ?s4 = "?s3\<lparr>ra_pc := Swept, ra_sup := supervise iter (\<lambda>_. False) gone (ra_sup ?s3)\<rparr>"
  have "race_run iter gone i c ?s0 ?s1"
    using race_run.step [OF race_run.start race_step.insert [of ?s0]] by (simp add: race_start_def)
  moreover have "race_step iter gone i c ?s1 ?s2" using race_step.passed [of ?s1] assms(5) by (simp add: race_start_def)
  moreover have "race_step iter gone i c ?s2 ?s3" using race_step.swap [of ?s2] by (simp add: race_start_def)
  moreover have "race_step iter gone i c ?s3 ?s4" using race_step.sweep [of ?s3] by (simp add: race_start_def)
  ultimately have "race_run iter gone i c ?s0 ?s4" by (blast intro: race_run.step)
  moreover have "registered (sv_conns (supervise iter (\<lambda>_. False) gone (s\<lparr>sv_conns := conn_insert i c (sv_conns s)\<rparr>))) i c"
  proof -
    let ?s = "s\<lparr>sv_conns := conn_insert i c (sv_conns s)\<rparr>"
    have "registered (sv_conns ?s) i c" by simp
    then show ?thesis using supervise_outcome [of ?s iter "\<lambda>_. False" gone] assms(1-4) by (simp add: registered_def Let_def)
  qed
  ultimately show ?thesis by force
qed

theorem removal_wins_the_race_witness:
  "\<exists>t. race_run id (example_member []) [2] 5 (race_start race_member (race_supervisor [([2], race_peer)])) t
     \<and> ra_reg t = Severed \<and> ra_pc t = Swept \<and> \<not> registered (sv_conns (ra_sup t)) [2] 5"
proof -
  let ?s0 = "race_start race_member (race_supervisor [([2], race_peer)])"
  let ?s1 = "?s0\<lparr>ra_pc := Swapped, ra_members := example_member []\<rparr>"
  let ?s2 = "?s1\<lparr>ra_pc := Swept, ra_sup := supervise id (\<lambda>_. False) (ra_members ?s1) (ra_sup ?s1)\<rparr>"
  let ?s3 = "?s2\<lparr>ra_reg := Inserted, ra_sup := (ra_sup ?s2)\<lparr>sv_conns := conn_insert [2] 5 (sv_conns (ra_sup ?s2))\<rparr>\<rparr>"
  let ?s4 = "?s3\<lparr>ra_reg := Severed, ra_sup := (ra_sup ?s3)\<lparr>sv_conns := remove_if_same [2] 5 (sv_conns (ra_sup ?s3))\<rparr>\<rparr>"
  let ?R = "race_step id (example_member []) [2] 5"
  have a: "?R ?s0 ?s1" using race_step.swap [of ?s0] by (simp add: race_start_def)
  have b: "?R ?s1 ?s2" using race_step.sweep [of ?s1] by (simp add: race_start_def)
  have c: "?R ?s2 ?s3" using race_step.insert [of ?s2] by (simp add: race_start_def)
  have d: "?R ?s3 ?s4" using race_step.severed [of ?s3] by (simp add: race_start_def race_member_effective)
  note run = race_run.step [OF race_run.step [OF race_run.step [OF race_run.step [OF race_run.start a] b] c] d]
  have "\<not> registered (sv_conns (ra_sup ?s4)) [2] 5"
    by (rule removal_wins_the_race [OF run]) (simp_all add: race_supervisor_ok race_member_effective)
  with run show ?thesis by force
qed

theorem unsupervised_connection_survives_removal_witness:
  "\<exists>t. race_run id (example_member []) [2] 5 (race_start race_member (race_supervisor [])) t
     \<and> ra_pc t = Swept \<and> registered (sv_conns (ra_sup t)) [2] 5"
  using unsupervised_connection_survives_removal [OF race_supervisor_ok(2), of "[2]" id race_member "example_member []" 5] race_member_effective
  by (auto simp: race_supervisor_def race_peer_def)

end
