(* ===== verification/Cas_Files.thy ===== *)
theory Cas_Files
  imports Apply_Laws Scanner
begin

text \<open>
  The chunk store as files (\<open>src/chunk.rs\<close>, \<open>Cas\<close>): where a chunk lies, how it is inserted
  crash-safely, read back with verification and self-healing, how orphaned temporary files are
  swept and the store is measured.  Every system call may fail.  The map from hash to bytes the
  other theories use is what \<open>chunks_of\<close> reads off the tree, and the operations refine those
  of the map.
\<close>

record cas_ctx =
  cx_crates :: crates
  cx_root :: fpath
  cx_pid :: nat

definition path_for :: "cas_ctx \<Rightarrow> hash32 \<Rightarrow> fpath" where
  "path_for c h = (let hex = hex_encode (cx_crates c) h in cx_root c @ [take 2 hex, hex])"

text \<open>
  \<open>Path::is_file\<close> and \<open>Path::is_dir\<close>: an error of the call reads as no.  The store writes
  no symbolic links; one that something else put there, which these calls follow, is outside the model.
\<close>

definition stat_is :: "(node_body \<Rightarrow> bool) \<Rightarrow> fpath \<Rightarrow> world \<Rightarrow> world \<times> bool" where
  "stat_is P p w = (case sys_stat p w of (w, Inr n) \<Rightarrow> (w, P (n_body n)) | (w, Inl _) \<Rightarrow> (w, False))"

definition is_regular :: "node_body \<Rightarrow> bool" where
  "is_regular b = (case b of BFile _ _ \<Rightarrow> True | _ \<Rightarrow> False)"

definition cas_has_file :: "cas_ctx \<Rightarrow> hash32 \<Rightarrow> world \<Rightarrow> world \<times> bool" where
  "cas_has_file c h w = stat_is is_regular (path_for c h) w"

definition cas_open :: "cas_ctx \<Rightarrow> world \<Rightarrow> world \<times> (cas_error + unit)" where
  "cas_open c w = (case sys_create_dir_all (cx_root c) w of (w, Inl _) \<Rightarrow> (w, Inl CIo) | (w, Inr _) \<Rightarrow> (w, Inr ()))"

definition cas_tmp :: "cas_ctx \<Rightarrow> u64 \<Rightarrow> fpath \<Rightarrow> fpath" where
  "cas_tmp c stage_seq dest =
     butlast dest @ [''.chunk'' @ TMP_SUFFIX @ ''.'' @ show_nat (cx_pid c) @ ''.'' @ show_nat (unat stage_seq)]"

definition cas_stage :: "bytes \<Rightarrow> fpath \<Rightarrow> world \<Rightarrow> world \<times> (apply_error + unit)" where
  "cas_stage data tmp w =
     and_then (with_ctx ''create'' tmp (sys_create tmp w)) (\<lambda>_ w.
     and_then (with_ctx ''write'' tmp (sys_write_all tmp data w)) (\<lambda>_ w.
     with_ctx ''fsync'' tmp (sys_sync_all tmp w)))"

text \<open>Every failure of the insertion is an I/O error of the store.\<close>

definition as_cas_io :: "world \<times> ('e + unit) \<Rightarrow> world \<times> (cas_error + unit)" where
  "as_cas_io r = (case r of (w, Inl _) \<Rightarrow> (w, Inl CIo) | (w, Inr _) \<Rightarrow> (w, Inr ()))"

definition put_verified_file :: "cas_ctx \<Rightarrow> u64 \<Rightarrow> hash32 \<Rightarrow> bytes \<Rightarrow> world \<Rightarrow> world \<times> (cas_error + unit)" where
  "put_verified_file c stage_seq h data w =
     (if blake3 (cx_crates c) data \<noteq> h then (w, Inl CHashMismatch)
      else let dest = path_for c h; (w, present) = stat_is is_regular dest w
           in if present then (w, Inr ())
              else and_then (as_cas_io (sys_create_dir_all (butlast dest) w)) (\<lambda>_ w.
                   as_cas_io (publish (cas_stage data (cas_tmp c stage_seq dest)) (cas_tmp c stage_seq dest) dest w)))"

definition cas_read_file :: "cas_ctx \<Rightarrow> hash32 \<Rightarrow> world \<Rightarrow> world \<times> (cas_error + bytes)" where
  "cas_read_file c h w =
     (case sys_read (path_for c h) w of
        (w, Inl e) \<Rightarrow> (w, Inl (if e = OsError ENOENT then CMissing else CIo))
      | (w, Inr data) \<Rightarrow>
          if blake3 (cx_crates c) data \<noteq> h then (fst (sys_remove_file (path_for c h) w), Inl CHashMismatch)
          else (w, Inr data))"

definition cas_open_reader :: "cas_ctx \<Rightarrow> hash32 \<Rightarrow> world \<Rightarrow> world \<times> (cas_error + nat)" where
  "cas_open_reader c h w =
     (case sys_open (path_for c h) w of
        (w, Inl e) \<Rightarrow> (w, Inl (if e = OsError ENOENT then CMissing else CIo))
      | (w, Inr _) \<Rightarrow>
          (case sys_stat (path_for c h) w of
             (w, Inl _) \<Rightarrow> (w, Inl CIo)
           | (w, Inr n) \<Rightarrow> (w, Inr (case n_body n of BFile bs _ \<Rightarrow> length bs | _ \<Rightarrow> 0))))"

subsection \<open>Housekeeping\<close>

fun cas_sweep_entries :: "fpath \<Rightarrow> string list \<Rightarrow> nat \<Rightarrow> fpath list \<Rightarrow> world \<Rightarrow> world \<times> (cas_error + nat \<times> fpath list)" where
  "cas_sweep_entries d [] removed stack w = (w, Inr (removed, stack))"
| "cas_sweep_entries d (n # ns) removed stack w =
     (let (v, w) = next_verdict w
      in if failed v then (w, Inl CIo)
         else let (w, dir) = stat_is (\<lambda>b. b = BDir) (d @ [n]) w
              in if dir then cas_sweep_entries d ns removed ((d @ [n]) # stack) w
                 else if is_tmp (d @ [n])
                 then (let (w, r) = sys_remove_file (d @ [n]) w
                       in cas_sweep_entries d ns (case r of Inr _ \<Rightarrow> Suc removed | Inl _ \<Rightarrow> removed) stack w)
                 else cas_sweep_entries d ns removed stack w)"

fun cas_sweep_loop :: "nat \<Rightarrow> dir_order \<Rightarrow> nat \<Rightarrow> fpath list \<Rightarrow> world \<Rightarrow> (world \<times> (cas_error + nat)) option" where
  "cas_sweep_loop fuel ls removed [] w = Some (w, Inr removed)"
| "cas_sweep_loop 0 ls removed (d # stack) w = None"
| "cas_sweep_loop (Suc fuel) ls removed (d # stack) w =
     (case sys_read_dir ls d w of
        (w, Inl _) \<Rightarrow> Some (w, Inl CIo)
      | (w, Inr names) \<Rightarrow>
          (case cas_sweep_entries d names removed stack w of
             (w, Inl e) \<Rightarrow> Some (w, Inl e)
           | (w, Inr (removed, stack)) \<Rightarrow> cas_sweep_loop fuel ls removed stack w))"

definition cas_sweep_orphan_temps :: "nat \<Rightarrow> dir_order \<Rightarrow> cas_ctx \<Rightarrow> world \<Rightarrow> (world \<times> (cas_error + nat)) option" where
  "cas_sweep_orphan_temps fuel ls c w = cas_sweep_loop fuel ls 0 [cx_root c] w"

text \<open>Counting walks on over what it cannot read.\<close>

fun stats_entries :: "fpath \<Rightarrow> string list \<Rightarrow> nat \<times> nat \<Rightarrow> fpath list \<Rightarrow> world \<Rightarrow> world \<times> (nat \<times> nat) \<times> fpath list" where
  "stats_entries d [] acc stack w = (w, acc, stack)"
| "stats_entries d (n # ns) (k, b) stack w =
     (let (v, w) = next_verdict w
      in if failed v then stats_entries d ns (k, b) stack w
         else let (w, dir) = stat_is (\<lambda>b. b = BDir) (d @ [n]) w
              in if dir then stats_entries d ns (k, b) ((d @ [n]) # stack) w
                 else case sys_stat (d @ [n]) w of
                        (w, Inl _) \<Rightarrow> stats_entries d ns (k, b) stack w
                      | (w, Inr x) \<Rightarrow>
                          stats_entries d ns (Suc k, b + (case n_body x of BFile bs _ \<Rightarrow> length bs | _ \<Rightarrow> 0)) stack w)"

fun stats_loop :: "nat \<Rightarrow> dir_order \<Rightarrow> nat \<times> nat \<Rightarrow> fpath list \<Rightarrow> world \<Rightarrow> (world \<times> nat \<times> nat) option" where
  "stats_loop fuel ls acc [] w = Some (w, acc)"
| "stats_loop 0 ls acc (d # stack) w = None"
| "stats_loop (Suc fuel) ls acc (d # stack) w =
     (case sys_read_dir ls d w of
        (w, Inl _) \<Rightarrow> stats_loop fuel ls acc stack w
      | (w, Inr names) \<Rightarrow>
          (case stats_entries d names acc stack w of (w, acc, stack) \<Rightarrow> stats_loop fuel ls acc stack w))"

definition cas_stats :: "nat \<Rightarrow> dir_order \<Rightarrow> cas_ctx \<Rightarrow> world \<Rightarrow> (world \<times> nat \<times> nat) option" where
  "cas_stats fuel ls c w = stats_loop fuel ls (0, 0) [cx_root c] w"

subsection \<open>The store the files are\<close>

definition chunks_in :: "cas_ctx \<Rightarrow> fstree \<Rightarrow> cas" where
  "chunks_in c fs h =
     (case fs (path_for c h) of Some n \<Rightarrow> (case n_body n of BFile bs _ \<Rightarrow> Some bs | _ \<Rightarrow> None) | None \<Rightarrow> None)"

abbreviation chunks_of :: "cas_ctx \<Rightarrow> world \<Rightarrow> cas" where "chunks_of c w \<equiv> chunks_in c (w_fs w)"

text \<open>What the hexadecimal encoding is relied on for: different hashes have different names, and names have no dot.\<close>

definition hex_names :: "crates \<Rightarrow> bool" where
  "hex_names X \<longleftrightarrow> inj (hex_encode X) \<and> (\<forall>h. CHR ''.'' \<notin> set (hex_encode X h))"

lemma path_for_inj: "hex_names (cx_crates c) \<Longrightarrow> path_for c h = path_for c k \<longleftrightarrow> h = k"
  by (auto simp: path_for_def hex_names_def Let_def dest: injD)

lemma chunks_in_cong: "(\<And>k. fs (path_for c k) = fs' (path_for c k)) \<Longrightarrow> chunks_in c fs = chunks_in c fs'"
  by (simp add: chunks_in_def fun_eq_iff)

lemma chunks_in_upd:
  "hex_names (cx_crates c) \<Longrightarrow> chunks_in c (fs(path_for c h \<mapsto> n)) =
     (chunks_in c fs)(h := (case n_body n of BFile bs _ \<Rightarrow> Some bs | _ \<Rightarrow> None))"
  "hex_names (cx_crates c) \<Longrightarrow> chunks_in c (fs(path_for c h := None)) = (chunks_in c fs)(h := None)"
  by (auto simp: chunks_in_def fun_eq_iff path_for_inj)

lemma cas_tmp_not_chunk:
  assumes "hex_names (cx_crates c)"
  shows "cas_tmp c s dest \<noteq> path_for c k"
proof
  assume "cas_tmp c s dest = path_for c k"
  then have "last (cas_tmp c s dest) = last (path_for c k)" by simp
  moreover have "CHR ''.'' \<in> set (last (cas_tmp c s dest))" by (simp add: cas_tmp_def)
  moreover have "CHR ''.'' \<notin> set (last (path_for c k))" using assms by (simp add: path_for_def hex_names_def Let_def)
  ultimately show False by simp
qed

lemma chunk_path_length [simp]: "length (path_for c h) = length (cx_root c) + 2"
  by (simp add: path_for_def Let_def)

lemma dirs_not_chunk: "q \<in> set (parents (path_for c h)) \<Longrightarrow> q \<noteq> path_for c k"
  by (auto simp: parents_def dest: arg_cong [of _ _ length])

lemma only_at_chunks:
  assumes "only_at Q w w'" "\<And>k. path_for c k \<notin> Q"
  shows "chunks_of c w' = chunks_of c w"
    "\<exists>ts. w_trace w' = w_trace w @ ts \<and> (\<forall>(fs, s) \<in> set ts. chunks_in c fs = chunks_of c w)"
  using assms unfolding only_at_def by (fastforce intro!: chunks_in_cong split: prod.splits)+

lemma stat_is_only [simp]: "only_at Q w (fst (stat_is P p w))"
  by (auto intro!: only_at_untouched simp: stat_is_def sys_stat_def Let_def case_prod_unfold split: option.splits verdict.splits)

interpretation cas_file: staging "cas_stage data" "\<lambda>n. \<exists>bs. n_body n = BFile bs True" for data
proof unfold_locales
  show "only_at {tmp} w (fst (cas_stage data tmp w))" for tmp w
    unfolding cas_stage_def by (auto intro!: and_then_only)
  show "\<exists>n. w_fs (fst (cas_stage data tmp w)) tmp = Some n \<and> (\<exists>bs. n_body n = BFile bs True)"
    if "w_fs w tmp = None" "snd (cas_stage data tmp w) = Inr u" for w tmp u
    using that by (auto simp: cas_stage_def and_then_Inr elim!: sys_write_all_Inr sys_sync_all_Inr)
qed

text \<open>Worlds in which no write reports success and leaves other bytes.\<close>

definition no_torn :: "world \<Rightarrow> bool" where
  "no_torn w \<longleftrightarrow> (\<forall>v \<in> set (w_verdicts w). \<forall>bs. v \<noteq> VTorn bs)"

lemma next_verdict_no_torn:
  "no_torn w \<Longrightarrow> no_torn (snd (next_verdict w))" "no_torn w \<Longrightarrow> fst (next_verdict w) \<noteq> VTorn bs"
  by (auto simp: no_torn_def next_verdict_def split: list.splits)

lemma no_torn_set_fs [simp]: "no_torn (set_fs fs w) = no_torn w"
  by (simp add: no_torn_def set_fs_def)

lemma no_torn_syscall: "no_torn w \<Longrightarrow> no_torn (fst (syscall p f w))"
  by (cases rule: syscall_cases [of p f w]) (auto simp: next_verdict_no_torn)

lemma syscall_fail: "syscall p f w = (w', Inl e) \<Longrightarrow> w' = snd (next_verdict w)"
  by (cases rule: syscall_cases [of p f w]) auto

lemma no_torn_create: "no_torn w \<Longrightarrow> no_torn (fst (sys_create p w))"
  by (simp add: sys_create_def no_torn_syscall)

lemma no_torn_stat: "no_torn w \<Longrightarrow> no_torn (fst (stat_is P p w))"
  by (auto simp: stat_is_def sys_stat_def next_verdict_no_torn Let_def case_prod_unfold split: option.splits verdict.splits)

lemma no_torn_mkdirs: "no_torn w \<Longrightarrow> no_torn (fst (mkdirs qs w))"
proof (induction qs w rule: mkdirs.induct)
  case (2 q qs w)
  let ?r = "syscall q (\<lambda>v fs. if fs q \<noteq> None then Inl (OsError (if qs = [] then EEXIST else ENOTDIR))
      else Inr (fs(q \<mapsto> fresh_node BDir (w_new_attr w)))) w"
  have "no_torn (fst ?r)" using 2(3) by (rule no_torn_syscall)
  with 2 show ?case by (cases ?r; cases "snd ?r") auto
qed simp

lemma write_all_exact:
  assumes "no_torn w" "snd (sys_write_all p data w) = Inr u"
  obtains n where "w_fs (fst (sys_write_all p data w)) p = Some n" "n_body n = BFile data False"
  using assms next_verdict_no_torn(2) [OF assms(1)]
  by (auto simp: sys_write_all_def syscall_def existing_def set_fs_def Let_def case_prod_unfold split: option.splits verdict.splits)

lemma cas_stage_exact:
  assumes "no_torn w" "cas_stage data tmp w = (w', Inr u)"
  obtains n where "w_fs w' tmp = Some n" "n_body n = BFile data True"
proof -
  let ?w1 = "fst (sys_create tmp w)" let ?w2 = "fst (sys_write_all tmp data ?w1)"
  have ok: "snd (sys_write_all tmp data ?w1) = Inr ()" "snd (sys_sync_all tmp ?w2) = Inr ()" and w': "w' = fst (sys_sync_all tmp ?w2)"
    using arg_cong [OF assms(2), of snd] arg_cong [OF assms(2), of fst] by (auto simp: cas_stage_def and_then_Inr)
  obtain n where "w_fs ?w2 tmp = Some n" "n_body n = BFile data False" using write_all_exact [OF no_torn_create [OF assms(1)] ok(1)] .
  with ok(2) show ?thesis by (rule sys_sync_all_Inr) (simp add: that w')
qed

subsection \<open>Refinement\<close>

text \<open>A run whose every state of the tree shows one of two chunk maps.\<close>

definition shows_only :: "cas_ctx \<Rightarrow> cas set \<Rightarrow> world \<Rightarrow> world \<Rightarrow> bool" where
  "shows_only c S w w' \<longleftrightarrow> (\<exists>ts. w_trace w' = w_trace w @ ts \<and> (\<forall>(fs, s) \<in> set ts. chunks_in c fs \<in> S)) \<and> chunks_of c w' \<in> S"

lemma shows_only_at:
  "only_at Q w w' \<Longrightarrow> (\<And>k. path_for c k \<notin> Q) \<Longrightarrow> chunks_of c w \<in> S \<Longrightarrow> shows_only c S w w'"
  using only_at_chunks [of Q w w' c] by (fastforce simp: shows_only_def)

lemma shows_only_trans: "shows_only c S u v \<Longrightarrow> shows_only c S v w \<Longrightarrow> shows_only c S u w"
  unfolding shows_only_def by (metis (no_types, lifting) Un_iff append.assoc set_append)

text \<open>One insertion from the point where the directory is there.\<close>

lemma publish_chunk:
  assumes "hex_names (cx_crates c)" "no_torn w" "tmp = cas_tmp c s (path_for c h)"
    and "publish (cas_stage data tmp) tmp (path_for c h) w = (w', r)"
  shows "chunks_of c w' = (case r of Inl _ \<Rightarrow> chunks_of c w | Inr _ \<Rightarrow> (chunks_of c w)(h \<mapsto> data))"
    "shows_only c {chunks_of c w, (chunks_of c w)(h \<mapsto> data)} w w'"
proof -
  let ?S = "{chunks_of c w, (chunks_of c w)(h \<mapsto> data)}"
  have tmp: "path_for c k \<notin> {tmp}" for k using cas_tmp_not_chunk [OF assms(1)] assms(3) by (metis singletonD)
  obtain w1 r1 where st: "cas_stage data tmp w = (w1, r1)" by fastforce
  have on1: "only_at {tmp} w w1" using cas_file.stage_only [where data = data and tmp = tmp and w = w] st by simp
  have same: "shows_only c ?S w v \<and> chunks_of c v = chunks_of c w" if "only_at {tmp} w v" for v
    using shows_only_at [OF that tmp] only_at_chunks(1) [OF that tmp] by simp
  have removed: "only_at {tmp} w (fst (sys_remove_file tmp v))" if "only_at {tmp} w v" for v
    using that only_at_trans sys_only(10) by blast
  have "shows_only c ?S w w' \<and> chunks_of c w' = (case r of Inl _ \<Rightarrow> chunks_of c w | Inr _ \<Rightarrow> (chunks_of c w)(h \<mapsto> data))"
  proof (cases r1)
    case (Inl e)
    then have "w' = fst (sys_remove_file tmp w1)" "r = Inl e" using assms(4) st by (auto simp: publish_def and_then_def)
    with same [OF removed [OF on1]] show ?thesis by simp
  next
    case (Inr u1)
    obtain n where n: "w_fs w1 tmp = Some n" "n_body n = BFile data True" using cas_stage_exact [OF assms(2) st [unfolded Inr]] .
    obtain w2 r2 where rn: "sys_rename tmp (path_for c h) w1 = (w2, r2)" by fastforce
    show ?thesis
    proof (cases r2)
      case (Inl e)
      have "w2 = snd (next_verdict w1)" using rn Inl syscall_fail unfolding sys_rename_def by blast
      then have "only_at {tmp} w1 w2" by (simp add: only_at_untouched)
      with on1 have w2: "only_at {tmp} w w2" by (rule only_at_trans)
      have "w' = fst (sys_remove_file tmp w2)" "\<exists>e. r = Inl e"
        using assms(4) st Inr rn Inl by (auto simp: publish_def and_then_def with_ctx_def)
      then show ?thesis using same [OF removed [OF w2]] by auto
    next
      case (Inr u2)
      have w2: "w_fs w2 = ((w_fs w1)(tmp := None))(path_for c h \<mapsto> n)" "w_trace w2 = w_trace w1 @ [(w_fs w2, w_sup w1)]"
        using sys_rename_Inr [OF rn [unfolded Inr] n(1)] by auto
      have "chunks_of c w2 = chunks_in c ((w_fs w1)(path_for c h \<mapsto> n))"
        unfolding w2(1) using tmp by (intro chunks_in_cong) auto
      also have "\<dots> = (chunks_of c w)(h \<mapsto> data)" using n(2) same [OF on1] by (simp add: chunks_in_upd [OF assms(1)])
      finally have c2: "chunks_of c w2 = (chunks_of c w)(h \<mapsto> data)" .
      have w': "w' = sync_dir (butlast (path_for c h)) w2" "r = Inr ()"
        using assms(4) st \<open>r1 = Inr u1\<close> rn Inr by (auto simp: publish_def and_then_def with_ctx_def)
      have "shows_only c ?S w1 w2" using w2(2) c2 by (simp add: shows_only_def)
      moreover have "shows_only c ?S w2 (sync_dir (butlast (path_for c h)) w2)"
        by (rule shows_only_at [of "{}"]) (simp_all add: c2)
      ultimately have "shows_only c ?S w (sync_dir (butlast (path_for c h)) w2)"
        using same [OF on1] by (blast intro: shows_only_trans)
      with w' c2 show ?thesis by simp
    qed
  qed
  then show "chunks_of c w' = (case r of Inl _ \<Rightarrow> chunks_of c w | Inr _ \<Rightarrow> (chunks_of c w)(h \<mapsto> data))" "shows_only c ?S w w'" by auto
qed

text \<open>Looking at the tree and making directories shows the chunks there were.\<close>

lemma mkdirs_shows:
  assumes "chunks_of c w \<in> S"
  shows "shows_only c S w (fst (sys_create_dir_all (butlast (path_for c h)) w))"
    "chunks_of c (fst (sys_create_dir_all (butlast (path_for c h)) w)) = chunks_of c w"
proof -
  let ?d = "butlast (path_for c h)" let ?qs = "parents ?d @ (if ?d = [] then [] else [?d])"
  have on: "only_at (set ?qs) w (fst (sys_create_dir_all ?d w))" using mkdirs_only unfolding sys_create_dir_all_def by blast
  have short: "length q < length (cx_root c) + 2" if "q \<in> set ?qs" for q
    using that by (auto simp: parents_def split: if_splits)
  have off: "path_for c k \<notin> set ?qs" for k using short [of "path_for c k"] by fastforce
  show "shows_only c S w (fst (sys_create_dir_all ?d w))" using on off assms by (rule shows_only_at)
  show "chunks_of c (fst (sys_create_dir_all ?d w)) = chunks_of c w" using only_at_chunks(1) [OF on off] .
qed

lemma stat_shows:
  assumes "chunks_of c w \<in> S"
  shows "shows_only c S w (fst (stat_is P p w))" "chunks_of c (fst (stat_is P p w)) = chunks_of c w"
  using shows_only_at [OF stat_is_only [of "{}" w P p]] only_at_chunks(1) [OF stat_is_only [of "{}" w P p], of c] assms by auto

lemma as_cas_io_cases:
  "as_cas_io (w, Inl e) = (w, Inl CIo)" "as_cas_io (w, Inr u) = (w, Inr ())"
  by (simp_all add: as_cas_io_def)

lemma insert_steps:
  assumes "hex_names (cx_crates c)" "no_torn w" "blake3 (cx_crates c) data = h" "\<not> snd (cas_has_file c h w)"
    and "put_verified_file c s h data w = (w', r)"
  shows "\<exists>ok. (chunks_of c w', r) = (if ok then ((chunks_of c w)(h \<mapsto> data), Inr ()) else (chunks_of c w, Inl CIo))"
    "shows_only c {chunks_of c w, (chunks_of c w)(h \<mapsto> data)} w w'"
proof -
  let ?S = "{chunks_of c w, (chunks_of c w)(h \<mapsto> data)}" let ?d = "path_for c h" let ?tmp = "cas_tmp c s ?d"
  let ?w1 = "fst (stat_is is_regular ?d w)"
  obtain w2 r2 where m: "sys_create_dir_all (butlast ?d) ?w1 = (w2, r2)" by fastforce
  have 1: "chunks_of c ?w1 = chunks_of c w" "shows_only c ?S w ?w1" using stat_shows [of c w ?S is_regular ?d] by auto
  then have 2: "chunks_of c w2 = chunks_of c w" "shows_only c ?S w w2"
    using mkdirs_shows [of c ?w1 ?S h] m shows_only_trans by auto
  have nt: "no_torn w2" using no_torn_mkdirs [OF no_torn_stat [OF assms(2)]] m unfolding sys_create_dir_all_def by (metis fst_conv)
  have run: "put_verified_file c s h data w =
      and_then (as_cas_io (w2, r2)) (\<lambda>_ w. as_cas_io (publish (cas_stage data ?tmp) ?tmp ?d w))"
    using assms(3,4) m by (simp add: put_verified_file_def cas_has_file_def Let_def case_prod_unfold)
  have "(\<exists>ok. (chunks_of c w', r) = (if ok then ((chunks_of c w)(h \<mapsto> data), Inr ()) else (chunks_of c w, Inl CIo))) \<and> shows_only c ?S w w'"
  proof (cases r2)
    case (Inl e)
    with run assms(5) 2 show ?thesis by (auto simp: as_cas_io_cases and_then_def intro!: exI [of _ False])
  next
    case (Inr u)
    obtain w3 r3 where p: "publish (cas_stage data ?tmp) ?tmp ?d w2 = (w3, r3)" by fastforce
    have w': "w' = w3" "r = (case r3 of Inl _ \<Rightarrow> Inl CIo | Inr _ \<Rightarrow> Inr ())"
      using run assms(5) Inr p by (auto simp: as_cas_io_def and_then_def split: sum.splits)
    show ?thesis
      using publish_chunk [OF assms(1) nt refl p] 2(1) w' shows_only_trans [OF 2(2), of w3]
      by (cases r3) (auto intro: exI [of _ True] exI [of _ False])
  qed
  then show "\<exists>ok. (chunks_of c w', r) = (if ok then ((chunks_of c w)(h \<mapsto> data), Inr ()) else (chunks_of c w, Inl CIo))"
    "shows_only c ?S w w'" by auto
qed

text \<open>
  C18. Inserting a chunk refines the insertion into the map of chunks and is atomic: where the stat
  tells whether the chunk is there and no write tears silently, the map after the call and its
  result are those of \<open>put_verified\<close> for some outcome of the input and output, and every state of
  the tree a crash could leave on the way shows the map before or the map with the chunk.
\<close>

theorem insert_refines_map:
  assumes "hex_names (cx_crates c)" "no_torn w" "snd (cas_has_file c h w) = cas_has (chunks_of c w) h"
    and "put_verified_file c s h data w = (w', r)"
  shows "(\<exists>ok. put_verified (cx_crates c) ok (chunks_of c w) h data = (chunks_of c w', r))
    \<and> shows_only c {chunks_of c w, (chunks_of c w)(h \<mapsto> data)} w w'"
proof -
  let ?S = "{chunks_of c w, (chunks_of c w)(h \<mapsto> data)}"
  consider (bad) "blake3 (cx_crates c) data \<noteq> h" | (there) "blake3 (cx_crates c) data = h" "snd (cas_has_file c h w)"
    | (new) "blake3 (cx_crates c) data = h" "\<not> snd (cas_has_file c h w)" by blast
  then show ?thesis
  proof cases
    case bad
    with assms(4) show ?thesis by (auto simp: put_verified_file_def put_verified_def shows_only_def)
  next
    case there
    then have "w' = fst (stat_is is_regular (path_for c h) w)" "r = Inr ()"
      using assms(4) by (auto simp: put_verified_file_def cas_has_file_def Let_def case_prod_unfold)
    with there assms(3) stat_shows [of c w ?S is_regular "path_for c h"] show ?thesis by (auto simp: put_verified_def)
  next
    case new
    from insert_steps(1) [OF assms(1,2) new assms(4)] obtain ok
      where "(chunks_of c w', r) = (if ok then ((chunks_of c w)(h \<mapsto> data), Inr ()) else (chunks_of c w, Inl CIo))" by blast
    then have "put_verified (cx_crates c) ok (chunks_of c w) h data = (chunks_of c w', r)"
      using new assms(3) by (cases ok) (simp_all add: put_verified_def)
    with insert_steps(2) [OF assms(1,2) new assms(4)] show ?thesis by blast
  qed
qed

text \<open>
  Reading serves verified bytes: what a read returns is the chunk's bytes and hashes to its
  name; only bytes that do not are unlinked, and no read changes any other path.
\<close>

theorem read_serves_verified_bytes:
  assumes "cas_read_file c h w = (w', r)" "\<forall>n t. w_fs w (path_for c h) = Some n \<longrightarrow> n_body n \<noteq> BLink t"
  shows "(\<forall>bs. r = Inr bs \<longrightarrow> chunks_of c w h = Some bs \<and> blake3 (cx_crates c) bs = h)
    \<and> (w_fs w' \<noteq> w_fs w \<longrightarrow> r = Inl CHashMismatch \<and> w_fs w' = (w_fs w)(path_for c h := None)
         \<and> (\<exists>bs. chunks_of c w h = Some bs \<and> blake3 (cx_crates c) bs \<noteq> h))"
proof -
  obtain w1 r1 where rd: "sys_read (path_for c h) w = (w1, r1)" by fastforce
  then have fs1: "w_fs w1 = w_fs w" by (auto simp: sys_read_def Let_def case_prod_unfold split: option.splits verdict.splits node_body.splits)
  show ?thesis
  proof (cases r1)
    case (Inl e)
    with assms(1) rd fs1 show ?thesis by (auto simp: cas_read_file_def)
  next
    case (Inr data)
    then have ch: "chunks_of c w h = Some data" using rd assms(2)
      by (auto simp: sys_read_def chunks_in_def Let_def case_prod_unfold split: option.splits verdict.splits node_body.splits)
    have "w_fs (fst (sys_remove_file p w1)) = w_fs w1 \<or> w_fs (fst (sys_remove_file p w1)) = (w_fs w1)(p := None)" for p
      unfolding sys_remove_file_def
      by (cases rule: syscall_cases [of p "\<lambda>v fs. case fs p of None \<Rightarrow> Inl (OsError ENOENT)
          | Some n \<Rightarrow> if n_body n = BDir then Inl (OsError EISDIR) else Inr (fs(p := None))" w1])
        (auto simp: set_fs_def split: option.splits if_splits)
    with assms(1) rd fs1 ch Inr show ?thesis by (auto simp: cas_read_file_def split: if_splits)
  qed
qed

text \<open>Sweeping removes nothing but temporary files, and so no chunk.\<close>

definition temps_only :: "world \<Rightarrow> world \<Rightarrow> bool" where
  "temps_only w w' \<longleftrightarrow> only_at {p. is_tmp p} w w'"

lemma temps_only_trans: "temps_only u v \<Longrightarrow> temps_only v w \<Longrightarrow> temps_only u w"
  unfolding temps_only_def by (rule only_at_trans)

lemma temps_only_steps:
  "temps_only w (snd (next_verdict w))" "temps_only w (fst (stat_is P p w))" "temps_only w (fst (sys_read_dir ls d w))"
  "is_tmp p \<Longrightarrow> temps_only w (fst (sys_remove_file p w))"
  unfolding temps_only_def
  by (auto simp: only_at_untouched sys_read_dir_def sys_stat_def and_then_def Let_def case_prod_unfold
      intro: only_at_mono [OF sys_only(10)] split: option.splits verdict.splits sum.splits)

lemma cas_sweep_entries_only: "temps_only w (fst (cas_sweep_entries d ns removed stack w))"
proof (induction ns arbitrary: removed stack w)
  case Nil
  then show ?case by (simp add: temps_only_def)
next
  case (Cons n ns)
  let ?p = "d @ [n]" let ?w1 = "snd (next_verdict w)" let ?w2 = "fst (stat_is (\<lambda>b. b = BDir) ?p ?w1)"
  have b: "temps_only w ?w2" using temps_only_trans temps_only_steps(1,2) by blast
  have c: "temps_only w (fst (sys_remove_file ?p ?w2))" if "is_tmp ?p" using temps_only_trans [OF b temps_only_steps(4) [OF that]] .
  show ?case
    by (simp only: cas_sweep_entries.simps Let_def case_prod_unfold fst_conv split: if_splits)
      (intro conjI impI temps_only_steps(1) temps_only_trans [OF b Cons] temps_only_trans [OF c Cons]; assumption)
qed

lemma cas_sweep_loop_only: "cas_sweep_loop fuel ls removed stack w = Some (w', r) \<Longrightarrow> temps_only w w'"
proof (induction fuel ls removed stack w rule: cas_sweep_loop.induct)
  case (3 fuel ls removed d stack w)
  obtain w1 r1 where rd: "sys_read_dir ls d w = (w1, r1)" by fastforce
  have 1: "temps_only w w1" using temps_only_steps(3) [of w ls d] rd by simp
  show ?case
  proof (cases r1)
    case (Inl e)
    with 1 rd 3(2) show ?thesis by simp
  next
    case (Inr names)
    obtain w2 r2 where en: "cas_sweep_entries d names removed stack w1 = (w2, r2)" by fastforce
    have 2: "temps_only w w2" using temps_only_trans [OF 1] cas_sweep_entries_only [of w1 d names removed stack] en by simp
    with 3 rd Inr en show ?thesis by (cases r2) (auto intro: temps_only_trans)
  qed
qed (simp_all add: temps_only_def)

lemma str_contains_mem: "str_contains s pat \<Longrightarrow> set pat \<subseteq> set s"
proof (induction s pat rule: str_contains.induct)
  case (2 c cs pat)
  have "set (take (length pat) (c # cs)) \<subseteq> set (c # cs)" by (rule set_take_subset)
  with 2 show ?case by auto
qed simp

lemma chunk_not_tmp: "hex_names (cx_crates c) \<Longrightarrow> \<not> is_tmp (path_for c h)"
  by (auto simp: is_tmp_def path_for_def hex_names_def Let_def TMP_SUFFIX_def to_str_def split: option.splits if_splits dest!: str_contains_mem)

lemma sweep_keeps_chunks:
  assumes "hex_names (cx_crates c)" "cas_sweep_orphan_temps fuel ls c w = Some (w', r)"
  shows "chunks_of c w' = chunks_of c w"
  using only_at_chunks(1) cas_sweep_loop_only [OF assms(2) [unfolded cas_sweep_orphan_temps_def]] chunk_not_tmp [OF assms(1)]
  unfolding temps_only_def by blast

text \<open>A two-digit encoding of bytes for the examples.\<close>

definition hex_byte :: "u8 \<Rightarrow> string" where
  "hex_byte b = [''0123456789abcdef'' ! (unat b div 16), ''0123456789abcdef'' ! (unat b mod 16)]"

definition hex_crates :: crates where
  "hex_crates = plain_crates\<lparr>hex_encode := \<lambda>bs. concat (map hex_byte bs)\<rparr>"

lemma hex_digits: "i < 16 \<Longrightarrow> j < 16 \<Longrightarrow> ''0123456789abcdef'' ! i = ''0123456789abcdef'' ! j \<longleftrightarrow> i = j"
  by (subst nth_eq_iff_index_eq) simp_all

lemma nibble: "unat (b :: u8) div 16 < 16"
  using unsigned_less [of b, where 'a = nat] by (simp add: div_less_iff_less_mult)

lemma hex_byte_inj: "hex_byte a = hex_byte b \<longleftrightarrow> a = b"
proof
  assume "hex_byte a = hex_byte b"
  then have "unat a div 16 = unat b div 16" "unat a mod 16 = unat b mod 16"
    by (simp_all add: hex_byte_def hex_digits nibble)
  then have "unat a = unat b" by (metis mult_div_mod_eq)
  then show "a = b" by (simp add: word_unat_eq_iff)
qed simp

lemma hex_bytes_inj: "concat (map hex_byte as) = concat (map hex_byte bs) \<Longrightarrow> as = bs"
proof (induction as arbitrary: bs)
  case Nil
  then show ?case by (cases bs) (simp_all add: hex_byte_def)
next
  case (Cons a as)
  then obtain b bs' where b: "bs = b # bs'" by (cases bs) (auto simp: hex_byte_def)
  have "length (hex_byte a) = length (hex_byte b)" by (simp add: hex_byte_def)
  with Cons b show ?case by (auto simp: hex_byte_inj)
qed

lemma hex_crates_names: "hex_names hex_crates"
proof -
  have "CHR ''.'' \<notin> set (hex_byte b)" for b
  proof -
    have "unat b div 16 < 16" "unat b mod 16 < 16" by (simp_all add: nibble)
    then have "''0123456789abcdef'' ! (unat b div 16) \<in> set ''0123456789abcdef''" "''0123456789abcdef'' ! (unat b mod 16) \<in> set ''0123456789abcdef''"
      by (intro nth_mem; simp)+
    then have "set (hex_byte b) \<subseteq> set ''0123456789abcdef''" unfolding hex_byte_def by simp
    then show ?thesis by auto
  qed
  then show ?thesis by (auto simp: hex_names_def hex_crates_def intro!: injI dest: hex_bytes_inj)
qed

definition example_cas :: cas_ctx where
  "example_cas = \<lparr>cx_crates = hex_crates, cx_root = [''cas''], cx_pid = 1\<rparr>"

lemma example_chunk: "path_for example_cas [7] = [''cas'', ''07'', ''07'']"
  by (simp add: path_for_def example_cas_def hex_crates_def hex_byte_def Let_def)

lemma example_tmp: "cas_tmp example_cas 0 [''cas'', ''07'', ''07''] = [''cas'', ''07'', ''.chunk.replicore-tmp.1.0'']"
  by (simp add: cas_tmp_def example_cas_def TMP_SUFFIX_def show_nat_def digit_chars)

lemma example_hash: "blake3 (cx_crates example_cas) bs = bs"
  by (simp add: example_cas_def hex_crates_def plain_crates_def)

lemmas example_files = example_tmp example_hash example_chunk cas_has_file_def stat_is_def sys_stat_def example_world_def next_verdict_def path_error_def
  cas_has_def chunks_in_def put_verified_file_def sys_create_dir_all_def parents_def is_dir_def syscall_def set_fs_def
  publish_def cas_stage_def and_then_def with_ctx_def sys_create_def sys_write_all_def sys_sync_all_def sys_rename_def existing_def
  is_regular_def as_cas_io_def Let_def

lemma example_insert:
  "no_torn (example_world [])" "snd (cas_has_file example_cas [7] (example_world [])) = cas_has (chunks_of example_cas (example_world [])) [7]"
  "snd (put_verified_file example_cas 0 [7] [7] (example_world [])) = Inr ()"
  subgoal by (simp add: no_torn_def example_world_def)
  subgoal by (simp add: example_files)
  subgoal by (simp add: example_files fresh_node_def)
  done

theorem insert_refines_map_witness:
  "snd (put_verified_file example_cas 0 [7] [7] (example_world [])) = Inr () \<and>
   shows_only example_cas {chunks_of example_cas (example_world []), (chunks_of example_cas (example_world []))([7] \<mapsto> [7])}
     (example_world []) (fst (put_verified_file example_cas 0 [7] [7] (example_world [])))"
  using insert_refines_map [of example_cas "example_world []" "[7]" 0 "[7]", OF _ example_insert(1,2) prod.collapse [symmetric]]
    example_insert(3) hex_crates_names by (simp add: example_cas_def)

definition rotten_chunk :: world where
  "rotten_chunk = (example_world [])\<lparr>w_fs := [[''cas''] \<mapsto> \<lparr>n_body = BDir, n_attr = example_attr\<rparr>,
     [''cas'', ''07''] \<mapsto> \<lparr>n_body = BDir, n_attr = example_attr\<rparr>,
     [''cas'', ''07'', ''07''] \<mapsto> \<lparr>n_body = BFile [8] True, n_attr = example_attr\<rparr>]\<rparr>"

lemma example_rotten:
  "w_fs (fst (cas_read_file example_cas [7] rotten_chunk)) [''cas'', ''07'', ''07''] = None"
  "w_fs rotten_chunk [''cas'', ''07'', ''07''] = Some \<lparr>n_body = BFile [8] True, n_attr = example_attr\<rparr>"
  by (simp_all add: cas_read_file_def sys_read_def sys_remove_file_def rotten_chunk_def example_files)

theorem read_serves_verified_bytes_witness:
  "snd (cas_read_file example_cas [7] rotten_chunk) = Inl CHashMismatch \<and> (\<exists>bs. chunks_of example_cas rotten_chunk [7] = Some bs \<and> bs \<noteq> [7])"
proof -
  have differs: "w_fs (fst (cas_read_file example_cas [7] rotten_chunk)) \<noteq> w_fs rotten_chunk" using example_rotten by (metis option.distinct(1))
  have plain: "\<forall>n t. w_fs rotten_chunk (path_for example_cas [7]) = Some n \<longrightarrow> n_body n \<noteq> BLink t" by (simp add: example_chunk example_rotten)
  show ?thesis using read_serves_verified_bytes [OF prod.collapse [symmetric] plain] differs by (auto simp: example_hash)
qed

end
