(* ===== verification/Boot.thy ===== *)
theory Boot
  imports Control Cas_Files
begin

text \<open>
  The entry points of the daemon (\<open>src/main.rs\<close>): the options, the generation of a node
  identity and of the admin key with their files, and the start of the daemon up to the tasks it
  spawns, with every way it can refuse.  \<open>bv_loc\<close> is where a path of the configuration or the
  command line lies, from the working directory of the process; the parent of the root is taken
  to be the root.  Key generation and spawning a thread are parameters.  So is SQLite:
  \<open>bv_open_db\<close> opens or creates the database file, sets the write-ahead log, creates the tables and
  migrates the rows, which changes files of the tree; what it does to them is named as the
  hypothesis \<open>sqlite_writes_its_files\<close> of the property that depends on it.
\<close>

datatype main_error =
    NeedsValue string
  | UnknownArg string
  | MissingOption string
  | ConfigFailed config_error
  | ProbeFailed
  | CannotChown
  | MkdirFailed fpath
  | StoreFailed
  | SweepFailed
  | CasFailed cas_error
  | SpawnFailed
  | MembershipFailed membership_error
  | KeyExists path
  | GenerateFailed
  | WriteFailed fpath

datatype command = GenCert "string list" | GenAdminKey "string list" | RunDaemon "string list" | ShowVersion | ShowUsage

definition main_command :: "string list \<Rightarrow> command" where
  "main_command args =
     (case args of
        [] \<Rightarrow> ShowUsage
      | c # rest \<Rightarrow>
          if c = ''gen-cert'' then GenCert rest
          else if c = ''gen-admin-key'' then GenAdminKey rest
          else if c = ''run'' then RunDaemon rest
          else if c \<in> {''version'', ''--version'', ''-V''} then ShowVersion
          else ShowUsage)"

text \<open>The loop over the flags: each known flag takes a value, and the last one given counts.\<close>

fun parse_flags :: "string list \<Rightarrow> (string \<times> string) list \<Rightarrow> string list \<Rightarrow> main_error + (string \<times> string) list" where
  "parse_flags known acc [] = Inr acc"
| "parse_flags known acc [f] = Inl (if f \<in> set known then NeedsValue f else UnknownArg f)"
| "parse_flags known acc (f # v # rest) =
     (if f \<in> set known then parse_flags known ((f, v) # acc) rest else Inl (UnknownArg f))"

definition option_value :: "string \<Rightarrow> (string \<times> string) list \<Rightarrow> main_error + string" where
  "option_value f opts = ok_or (MissingOption f) (map_of opts f)"

definition path_join :: "path \<Rightarrow> path \<Rightarrow> path" where
  "path_join a b =
     (if b \<noteq> '''' \<and> hd b = CHR ''/'' then b
      else if a = '''' \<or> last a = CHR ''/'' then a @ b else a @ ''/'' @ b)"

subsection \<open>Identities and keys\<close>

text \<open>
  Opening for writing with the mode of a private file: created with what the umask leaves of it,
  an existing file truncated as it is.
\<close>

definition sys_create_mode :: "u32 \<Rightarrow> fpath \<Rightarrow> unit io" where
  "sys_create_mode mode p w =
     syscall p (\<lambda>v fs. case fs p of
        None \<Rightarrow> Inr (fs(p \<mapsto> fresh_node (BFile [] False) ((w_new_attr w)\<lparr>a_mode := and mode (a_mode (w_new_attr w))\<rparr>)))
      | Some n \<Rightarrow> (case n_body n of
                     BFile _ _ \<Rightarrow> Inr (fs(p \<mapsto> n\<lparr>n_body := BFile [] False\<rparr>))
                   | BDir \<Rightarrow> Inl (OsError EISDIR)
                   | _ \<Rightarrow> Inl (OsError EOTHER))) w"

definition write_private :: "fpath \<Rightarrow> bytes \<Rightarrow> unit io" where
  "write_private p contents w = and_then (sys_create_mode 0x180 p w) (\<lambda>_ w. sys_write_all p contents w)"

definition write_plain :: "fpath \<Rightarrow> bytes \<Rightarrow> unit io" where
  "write_plain p contents w = and_then (sys_create p w) (\<lambda>_ w. sys_write_all p contents w)"

record identity =
  id_cert_pem :: bytes
  id_key_pem :: bytes
  id_fingerprint :: bytes

text \<open>\<open>generate_identity\<close> over what rcgen makes: the certificate, its two encodings and the key.\<close>

definition generate_identity :: "(bytes \<Rightarrow> bytes) \<Rightarrow> (bytes \<times> bytes \<times> bytes) option \<Rightarrow> identity option" where
  "generate_identity sha256 made =
     map_option (\<lambda>(der, cert_pem, key_pem). \<lparr>id_cert_pem = cert_pem, id_key_pem = key_pem, id_fingerprint = sha256 der\<rparr>) made"

definition gen_cert ::
  "(path \<Rightarrow> fpath) \<Rightarrow> identity option \<Rightarrow> string list \<Rightarrow> world \<Rightarrow> world \<times> (main_error + bytes)" where
  "gen_cert loc ident args w =
     (case and_ok (parse_flags [''--out-dir'', ''--name''] [] args) (\<lambda>opts.
           and_ok (option_value ''--out-dir'' opts) (\<lambda>out_dir.
           and_ok (option_value ''--name'' opts) (\<lambda>name. Inr (out_dir, name)))) of
        Inl e \<Rightarrow> (w, Inl e)
      | Inr (out_dir, name) \<Rightarrow>
          and_then (err_from (\<lambda>_. MkdirFailed (loc out_dir)) (sys_create_dir_all (loc out_dir) w)) (\<lambda>_ w.
            case ident of
              None \<Rightarrow> (w, Inl GenerateFailed)
            | Some ident \<Rightarrow>
                let cert_path = loc (path_join out_dir (name @ ''.cert.pem''));
                    key_path = loc (path_join out_dir (name @ ''.key.pem''))
                in and_then (err_from (\<lambda>_. WriteFailed cert_path) (write_plain cert_path (id_cert_pem ident) w)) (\<lambda>_ w.
                   and_then (err_from (\<lambda>_. WriteFailed key_path) (write_private key_path (id_key_pem ident) w)) (\<lambda>_ w.
                   (w, Inr (id_fingerprint ident))))))"

text \<open>The admin key: the document of the generator and the public half read back from it.\<close>

definition generate_admin_key :: "(bytes \<Rightarrow> bytes option) \<Rightarrow> bytes option \<Rightarrow> (bytes \<times> admin_pubkey) option" where
  "generate_admin_key from_pkcs8 doc = (case doc of None \<Rightarrow> None | Some d \<Rightarrow> map_option (\<lambda>pk. (d, pk)) (from_pkcs8 d))"

definition gen_admin_key ::
  "(path \<Rightarrow> fpath) \<Rightarrow> (bytes \<times> admin_pubkey) option \<Rightarrow> string list \<Rightarrow> world \<Rightarrow> world \<times> (main_error + admin_pubkey)" where
  "gen_admin_key loc made args w =
     (case and_ok (parse_flags [''--out''] [] args) (option_value ''--out'') of
        Inl e \<Rightarrow> (w, Inl e)
      | Inr out \<Rightarrow>
          let (w, exists) = stat_is (\<lambda>_. True) (loc out) w
          in if exists then (w, Inl (KeyExists out))
             else and_then (err_from (\<lambda>_. MkdirFailed (butlast (loc out))) (sys_create_dir_all (butlast (loc out)) w)) (\<lambda>_ w.
                    case made of
                      None \<Rightarrow> (w, Inl GenerateFailed)
                    | Some (doc, pk) \<Rightarrow>
                        and_then (err_from (\<lambda>_. WriteFailed (loc out)) (write_private (loc out) doc w)) (\<lambda>_ w. (w, Inr pk))))"

datatype admin_key_error = KeyIo | BadKey

definition admin_secret_load :: "(bytes \<Rightarrow> 'k option) \<Rightarrow> fpath \<Rightarrow> world \<Rightarrow> world \<times> (admin_key_error + 'k)" where
  "admin_secret_load from_pkcs8 p w =
     and_then (err_from (\<lambda>_. KeyIo) (sys_read p w)) (\<lambda>doc w. (w, ok_or BadKey (from_pkcs8 doc)))"

subsection \<open>Starting the daemon\<close>

record boot_env =
  bv_crates :: crates
  bv_codec :: codec
  bv_toml :: "string \<Rightarrow> raw_config option"
  bv_hex_decode :: "string \<Rightarrow> bytes option"
  bv_host :: host
  bv_loc :: "path \<Rightarrow> fpath"
  bv_euid_is_root :: bool
  bv_pid :: nat
  bv_open_db :: "path \<Rightarrow> world \<Rightarrow> world \<times> db option"
  bv_order :: dir_order
  bv_fuel :: nat
  bv_spawn_ok :: bool
  bv_rosters :: "path \<Rightarrow> file_read"
  bv_pct_bp :: "f64 \<Rightarrow> u64"
  bv_now :: rat

text \<open>The tasks in the order they are spawned; the transport runs in the caller.\<close>

datatype task = WatcherThread | ScannerTask | IngestTask | HealthTask | ControlTask | Transport

record booted =
  bo_live :: live
  bo_store :: store
  bo_health_peers :: "node_id list"

definition chown_guard :: "boot_env \<Rightarrow> config \<Rightarrow> world \<Rightarrow> world \<times> (main_error + unit)" where
  "chown_guard B cfg w =
     (if cf_owner_policy cfg = Numeric
      then and_then (err_from (\<lambda>_. ProbeFailed) (can_chown (bv_euid_is_root B) (bv_pid B) (butlast (bv_loc B (cf_db_path cfg))) w))
             (\<lambda>ok w. (w, if ok then Inr () else Inl CannotChown))
      else (w, Inr ()))"

definition boot_store :: "boot_env \<Rightarrow> config \<Rightarrow> world \<Rightarrow> world \<times> (main_error + store)" where
  "boot_store B cfg w =
     (let dir = butlast (bv_loc B (cf_db_path cfg))
      in and_then (err_from (\<lambda>_. MkdirFailed dir) (sys_create_dir_all dir w)) (\<lambda>_ w.
           case bv_open_db B (cf_db_path cfg) w of
             (w, None) \<Rightarrow> (w, Inl StoreFailed)
           | (w, Some d) \<Rightarrow> (w, Inr (open_store (bv_crates B) (cf_node_id cfg) d))))"

definition boot_cas :: "boot_env \<Rightarrow> config \<Rightarrow> cas_ctx" where
  "boot_cas B cfg = \<lparr>cx_crates = bv_crates B, cx_root = bv_loc B (cf_cas_dir cfg), cx_pid = bv_pid B\<rparr>"

text \<open>Both sweeps, before anything that could stage is running.\<close>

definition boot_sweeps :: "boot_env \<Rightarrow> config \<Rightarrow> world \<Rightarrow> (world \<times> (main_error + unit)) option" where
  "boot_sweeps B cfg w =
     (case sweep_orphan_temps (bv_fuel B) (bv_order B) (bv_loc B (cf_share_dir cfg)) w of
        None \<Rightarrow> None
      | Some (w, Inl _) \<Rightarrow> Some (w, Inl SweepFailed)
      | Some (w, Inr _) \<Rightarrow>
          (case cas_open (boot_cas B cfg) w of
             (w, Inl e) \<Rightarrow> Some (w, Inl (CasFailed e))
           | (w, Inr _) \<Rightarrow>
               (case cas_sweep_orphan_temps (bv_fuel B) (bv_order B) (boot_cas B cfg) w of
                  None \<Rightarrow> None
                | Some (w, Inl e) \<Rightarrow> Some (w, Inl (CasFailed e))
                | Some (w, Inr _) \<Rightarrow> Some (w, Inr ()))))"

definition boot_tasks :: "config \<Rightarrow> task list" where
  "boot_tasks cfg = [WatcherThread, ScannerTask, IngestTask] @ (if cf_health_listen cfg = None then [] else [HealthTask]) @ [ControlTask, Transport]"

definition boot_spawn :: "boot_env \<Rightarrow> config \<Rightarrow> store \<Rightarrow> task list \<times> (main_error + booted)" where
  "boot_spawn B cfg s =
     (if \<not> bv_spawn_ok B then ([], Inl SpawnFailed)
      else case membership_load (bv_crates B) (bv_codec B) (member_part cfg) (bv_rosters B) of
             Inl e \<Rightarrow> (take 3 (boot_tasks cfg), Inl (MembershipFailed e))
           | Inr m \<Rightarrow> (boot_tasks cfg, Inr \<lparr>bo_live = live_new (bv_pct_bp B) (bv_now B) cfg m, bo_store = s,
                        bo_health_peers = map pe_node_id (cf_peers cfg)\<rparr>))"

definition run_daemon :: "boot_env \<Rightarrow> string list \<Rightarrow> world \<Rightarrow> (world \<times> task list \<times> (main_error + booted)) option" where
  "run_daemon B args w =
     (case and_ok (parse_flags [''--config''] [] args) (option_value ''--config'') of
        Inl e \<Rightarrow> Some (w, [], Inl e)
      | Inr p \<Rightarrow>
          (case config_load (bv_toml B) (bv_hex_decode B) (bv_host B) p of
             Inl e \<Rightarrow> Some (w, [], Inl (ConfigFailed e))
           | Inr cfg \<Rightarrow>
               (case and_then (chown_guard B cfg w) (\<lambda>_. boot_store B cfg) of
                  (w, Inl e) \<Rightarrow> Some (w, [], Inl e)
                | (w, Inr s) \<Rightarrow>
                    (case boot_sweeps B cfg w of
                       None \<Rightarrow> None
                     | Some (w, Inl e) \<Rightarrow> Some (w, [], Inl e)
                     | Some (w, Inr _) \<Rightarrow> Some (w, boot_spawn B cfg s)))))"

subsection \<open>What a start leaves alone\<close>

definition keeps :: "fpath set \<Rightarrow> world \<Rightarrow> world \<Rightarrow> bool" where
  "keeps Q w w' \<longleftrightarrow> (\<forall>p n. w_fs w p = Some n \<longrightarrow> p \<notin> Q \<longrightarrow> w_fs w' p = Some n)"

lemma keeps_refl [simp]: "keeps Q w w"
  by (simp add: keeps_def)

lemma keeps_trans: "keeps Q u v \<Longrightarrow> keeps Q v w \<Longrightarrow> keeps Q u w"
  by (auto simp: keeps_def)

lemma keeps_mono: "keeps Q w w' \<Longrightarrow> Q \<subseteq> R \<Longrightarrow> keeps R w w'"
  by (auto simp: keeps_def)

lemma only_at_keeps: "only_at Q w w' \<Longrightarrow> Q \<subseteq> R \<Longrightarrow> keeps R w w'"
  by (auto simp: only_at_def keeps_def)

lemma and_then_keeps:
  assumes "keeps Q w (fst r)" "\<And>x. snd r = Inr x \<Longrightarrow> keeps Q (fst r) (fst (k x (fst r)))"
  shows "keeps Q w (fst (and_then r k))"
  using assms by (cases r; cases "snd r") (auto simp: and_then_def intro: keeps_trans)

lemma err_from_world [simp]: "fst (err_from f r) = fst r"
  by (simp add: err_from_def)

lemma mkdirs_keeps: "keeps {} w (fst (mkdirs qs w))"
proof (induction qs w rule: mkdirs.induct)
  case (2 q qs w)
  let ?f = "\<lambda>v fs. if fs q \<noteq> None then Inl (OsError (if qs = [] then EEXIST else ENOTDIR))
      else Inr (fs(q \<mapsto> fresh_node BDir (w_new_attr w)))"
  have "keeps {} w (fst (syscall q ?f w))"
    by (cases rule: syscall_cases [of q ?f w]) (auto simp: keeps_def set_fs_def split: if_splits)
  with 2 show ?case by (cases "syscall q ?f w"; cases "snd (syscall q ?f w)") (auto intro: keeps_trans)
qed simp

lemma create_dir_all_keeps [simp]: "keeps Q w (fst (sys_create_dir_all p w))"
  unfolding sys_create_dir_all_def using mkdirs_keeps by (blast intro: keeps_mono)

lemma can_chown_keeps:
  assumes "probe = d @ [''.replicore-chown-probe.'' @ show_nat pid]" "probe \<in> Q"
  shows "keeps Q w (fst (can_chown euid pid d w))"
proof -
  have at: "keeps Q u v" if "only_at {probe} u v" for u v using only_at_keeps [OF that] assms(2) by simp
  have calls: "keeps Q u (fst (sys_create probe u))" "keeps Q u (fst (sys_write_all probe [] u))" for u by (simp_all add: at)
  have last: "keeps Q u (fst (case sys_lchown probe 0 0 u of (w', Inr _) \<Rightarrow> (fst (sys_remove_file probe w'), Inr True)
      | (w', Inl e) \<Rightarrow> (fst (sys_remove_file probe w'), if e = OsError EPERM then Inr False else Inl e)))" for u
  proof -
    have "keeps Q u (fst (sys_lchown probe 0 0 u))" "\<And>v. keeps Q v (fst (sys_remove_file probe v))" by (simp_all add: at)
    then show ?thesis by (cases "sys_lchown probe 0 0 u"; cases "snd (sys_lchown probe 0 0 u)") (auto intro: keeps_trans)
  qed
  show ?thesis
    unfolding can_chown_def Let_def assms(1) [symmetric]
    by (auto intro!: and_then_keeps calls last)
qed

lemma sweep_entries_only: "temps_only w (fst (sweep_entries d ns removed stack w))"
proof (induction ns arbitrary: removed stack w)
  case Nil
  then show ?case by (simp add: temps_only_def)
next
  case (Cons n ns)
  let ?p = "d @ [n]"
  obtain w1 r1 where e: "sys_entry ?p w = (w1, r1)" by fastforce
  have 1: "temps_only w w1" using e
    by (auto simp: temps_only_def sys_entry_def only_at_untouched Let_def case_prod_unfold split: verdict.splits)
  have rest: "temps_only w (fst (sweep_entries d ns k st w1))" for k st using temps_only_trans [OF 1 Cons] .
  have gone: "temps_only w (fst (sweep_entries d ns k st (fst (sys_remove_file ?p w1))))" if "is_tmp ?p" for k st
    using temps_only_trans [OF temps_only_trans [OF 1 temps_only_steps(4) [OF that]] Cons] .
  show ?case
    by (cases r1) (simp_all add: e 1 rest gone and_then_def Let_def case_prod_unfold split: node_body.splits)
qed

lemma sweep_loop_only: "sweep_loop fuel ls removed stack w = Some (w', r) \<Longrightarrow> temps_only w w'"
proof (induction fuel ls removed stack w rule: sweep_loop.induct)
  case (3 fuel ls removed d stack w)
  obtain w1 r1 where rd: "sys_read_dir ls d w = (w1, r1)" by fastforce
  have 1: "temps_only w w1" using temps_only_steps(3) [of w ls d] rd by simp
  show ?case
  proof (cases r1)
    case (Inl e)
    with 1 rd 3(2) show ?thesis by (simp add: and_then_def err_from_def)
  next
    case (Inr names)
    obtain w2 r2 where en: "sweep_entries d names removed stack w1 = (w2, r2)" by fastforce
    have run: "and_then (err_from (SWalk d) (sys_read_dir ls d w)) (\<lambda>names w. sweep_entries d names removed stack w) = (w2, r2)"
      by (simp add: rd Inr en and_then_def err_from_def)
    have 2: "temps_only w w2" using temps_only_trans [OF 1] sweep_entries_only [of w1 d names removed stack] en by simp
    show ?thesis
    proof (cases r2)
      case (Inl e)
      with 2 3(2) run show ?thesis by simp
    next
      case (Inr x)
      with 3 run 2 show ?thesis by (cases x) (auto intro: temps_only_trans)
    qed
  qed
qed (simp_all add: temps_only_def)

subsection \<open>Properties\<close>

definition probe_name :: "boot_env \<Rightarrow> string" where
  "probe_name B = ''.replicore-chown-probe.'' @ show_nat (bv_pid B)"

text \<open>The files of a SQLite database: the database, its write-ahead log, the index of it, its journal.\<close>

definition db_files :: "fpath \<Rightarrow> fpath set" where
  "db_files d = insert d ((\<lambda>x. butlast d @ [last d @ x]) ` {''-wal'', ''-shm'', ''-journal''})"

definition sqlite_writes_its_files :: "boot_env \<Rightarrow> bool" where
  "sqlite_writes_its_files B \<longleftrightarrow> (\<forall>p w. keeps (db_files (bv_loc B p)) w (fst (bv_open_db B p w)))"

text \<open>The configuration a start with these arguments uses, and the files it may replace.\<close>

definition start_config :: "boot_env \<Rightarrow> string list \<Rightarrow> config option" where
  "start_config B args =
     (case and_ok (parse_flags [''--config''] [] args) (option_value ''--config'') of
        Inl _ \<Rightarrow> None
      | Inr p \<Rightarrow> (case config_load (bv_toml B) (bv_hex_decode B) (bv_host B) p of Inl _ \<Rightarrow> None | Inr cfg \<Rightarrow> Some cfg))"

definition start_files :: "boot_env \<Rightarrow> config option \<Rightarrow> fpath set" where
  "start_files B c = {p. is_tmp p} \<union> {p. p \<noteq> [] \<and> last p = probe_name B}
     \<union> (case c of None \<Rightarrow> {} | Some cfg \<Rightarrow> db_files (bv_loc B (cf_db_path cfg)))"

lemma chown_guard_keeps: "keeps (start_files B c) w (fst (chown_guard B cfg w))"
  unfolding chown_guard_def
  by (auto intro!: and_then_keeps can_chown_keeps [OF refl] simp: start_files_def probe_name_def)

lemma boot_store_keeps:
  assumes "sqlite_writes_its_files B"
  shows "keeps (start_files B (Some cfg)) w (fst (boot_store B cfg w))"
proof -
  have db: "keeps (start_files B (Some cfg)) v (fst (bv_open_db B (cf_db_path cfg) v))" for v
    using assms by (auto simp: sqlite_writes_its_files_def start_files_def intro: keeps_mono)
  show ?thesis unfolding boot_store_def Let_def
  proof (intro and_then_keeps)
    fix v
    show "keeps (start_files B (Some cfg)) v (fst (case bv_open_db B (cf_db_path cfg) v of
        (w, None) \<Rightarrow> (w, Inl StoreFailed) | (w, Some d) \<Rightarrow> (w, Inr (open_store (bv_crates B) (cf_node_id cfg) d))))"
      using db [of v] by (auto split: prod.splits option.splits)
  qed simp
qed

lemma cas_open_keeps: "keeps Q w (fst (cas_open c w))"
  using create_dir_all_keeps [of Q w "cx_root c"] unfolding cas_open_def
  by (cases "sys_create_dir_all (cx_root c) w"; cases "snd (sys_create_dir_all (cx_root c) w)") simp_all

lemma boot_sweeps_keeps:
  assumes "boot_sweeps B cfg w = Some (w', r)"
  shows "keeps (start_files B c) w w'"
proof -
  have tmp: "keeps (start_files B c) u v" if "temps_only u v" for u v
    using that only_at_keeps unfolding temps_only_def start_files_def by blast
  obtain w1 r1 where s: "sweep_orphan_temps (bv_fuel B) (bv_order B) (bv_loc B (cf_share_dir cfg)) w = Some (w1, r1)"
    using assms by (auto simp: boot_sweeps_def split: option.splits)
  have 1: "keeps (start_files B c) w w1" using tmp sweep_loop_only s unfolding sweep_orphan_temps_def by blast
  obtain w2 r2 where o: "cas_open (boot_cas B cfg) w1 = (w2, r2)" by fastforce
  have 2: "keeps (start_files B c) w w2" using keeps_trans [OF 1] cas_open_keeps [of "start_files B c" w1 "boot_cas B cfg"] o by simp
  have 3: "keeps (start_files B c) w w3" if "cas_sweep_orphan_temps (bv_fuel B) (bv_order B) (boot_cas B cfg) w2 = Some (w3, r3)" for w3 r3
    using keeps_trans [OF 2 tmp] cas_sweep_loop_only that unfolding cas_sweep_orphan_temps_def by blast
  show ?thesis
    using assms s o 1 2 3 by (auto simp: boot_sweeps_def split: sum.splits option.splits)
qed

text \<open>
  C38. Starting the daemon, up to the point where the spawned tasks run, leaves the files alone:
  whatever system calls fail and however far the start gets, every node of the tree that is not a
  temporary file, not the probe of the ownership check and not one of the configured database's
  own files (the database, its write-ahead log, the index of that log, the journal) is as it was,
  provided opening the database writes no other file.
\<close>

theorem start_keeps_files:
  assumes "run_daemon B args w = Some (w', ts, r)" "sqlite_writes_its_files B" "w_fs w p = Some n"
    "p \<notin> start_files B (start_config B args)"
  shows "w_fs w' p = Some n"
proof -
  have "keeps (start_files B (start_config B args)) w w'"
  proof (cases "start_config B args")
    case None
    with assms(1) show ?thesis by (auto simp: run_daemon_def start_config_def split: sum.splits)
  next
    case (Some cfg)
    then obtain p where cfg: "and_ok (parse_flags [''--config''] [] args) (option_value ''--config'') = Inr p"
      "config_load (bv_toml B) (bv_hex_decode B) (bv_host B) p = Inr cfg" by (auto simp: start_config_def split: sum.splits)
    obtain w1 r1 where 1: "and_then (chown_guard B cfg w) (\<lambda>_. boot_store B cfg) = (w1, r1)" by fastforce
    have "keeps (start_files B (Some cfg)) w (fst (and_then (chown_guard B cfg w) (\<lambda>_. boot_store B cfg)))"
      by (intro and_then_keeps chown_guard_keeps boot_store_keeps assms(2))
    then have k: "keeps (start_files B (Some cfg)) w w1" using 1 by simp
    show ?thesis
    proof (cases r1)
      case (Inl e)
      with assms(1) cfg 1 k Some show ?thesis by (simp add: run_daemon_def)
    next
      case (Inr s)
      with assms(1) cfg 1 obtain r2 where "boot_sweeps B cfg w1 = Some (w', r2)"
        by (auto simp: run_daemon_def split: option.splits sum.splits)
      then show ?thesis using keeps_trans [OF k boot_sweeps_keeps] Some by simp
    qed
  qed
  with assms(3,4) show ?thesis by (auto simp: keeps_def)
qed

text \<open>
  The daemon starts nothing before it is ready: when any task has been spawned, the
  configuration was valid, an ownership policy that needs the privilege has it, and both sweeps
  of temporary files had ended; the tasks are those of the configuration, cut short only by a
  roster that cannot be read.
\<close>

theorem starts_only_when_ready:
  assumes "run_daemon B args w = Some (w', ts, r)" "ts \<noteq> []"
  shows "\<exists>p cfg w1 w2 s. config_load (bv_toml B) (bv_hex_decode B) (bv_host B) p = Inr cfg
    \<and> (cf_owner_policy cfg = Numeric \<longrightarrow>
         snd (can_chown (bv_euid_is_root B) (bv_pid B) (butlast (bv_loc B (cf_db_path cfg))) w) = Inr True)
    \<and> boot_sweeps B cfg w1 = Some (w2, Inr ()) \<and> w' = w2 \<and> (ts, r) = boot_spawn B cfg s
    \<and> (ts = boot_tasks cfg \<or> (\<exists>e. r = Inl (MembershipFailed e) \<and> ts = [WatcherThread, ScannerTask, IngestTask]))"
proof -
  obtain p where p: "and_ok (parse_flags [''--config''] [] args) (option_value ''--config'') = Inr p"
    using assms by (auto simp: run_daemon_def split: sum.splits)
  obtain cfg where cfg: "config_load (bv_toml B) (bv_hex_decode B) (bv_host B) p = Inr cfg"
    using assms p by (auto simp: run_daemon_def split: sum.splits)
  obtain w1 s where pre: "and_then (chown_guard B cfg w) (\<lambda>_. boot_store B cfg) = (w1, Inr s)"
    using assms p cfg by (auto simp: run_daemon_def split: sum.splits prod.splits)
  obtain w2 u where sw: "boot_sweeps B cfg w1 = Some (w2, Inr u)" and run: "w' = w2" "(ts, r) = boot_spawn B cfg s"
    using assms p cfg pre by (auto simp: run_daemon_def split: sum.splits option.splits)
  have guard: "cf_owner_policy cfg = Numeric \<longrightarrow>
      snd (can_chown (bv_euid_is_root B) (bv_pid B) (butlast (bv_loc B (cf_db_path cfg))) w) = Inr True"
    using pre by (auto simp: chown_guard_def and_then_def err_from_def split: prod.splits sum.splits if_splits)
  have "ts = boot_tasks cfg \<or> (\<exists>e. r = Inl (MembershipFailed e) \<and> ts = [WatcherThread, ScannerTask, IngestTask])"
    using run(2) assms(2) by (auto simp: boot_spawn_def boot_tasks_def split: if_splits sum.splits)
  with cfg guard sw run show ?thesis by auto
qed

lemma no_torn_create_mode: "no_torn w \<Longrightarrow> no_torn (fst (sys_create_mode mode p w))"
  unfolding sys_create_mode_def by (rule no_torn_syscall)

lemma create_mode_attr:
  assumes "sys_create_mode mode p w = (w', Inr u)"
  shows "\<exists>n. w_fs w' p = Some n \<and> a_mode (n_attr n) = (case w_fs w p of Some old \<Rightarrow> a_mode (n_attr old) | None \<Rightarrow> and mode (a_mode (w_new_attr w)))"
proof (cases "w_fs w p")
  case None
  with syscall_run [OF assms [unfolded sys_create_mode_def]] show ?thesis by (auto simp: set_fs_def fresh_node_def)
next
  case (Some n)
  with syscall_run [OF assms [unfolded sys_create_mode_def]] show ?thesis
    by (cases "n_body n") (auto simp: set_fs_def)
qed

text \<open>
  The mode of a private file is set only when the file is created: over an existing file, which
  keeps its mode, the new key is as readable as the old file was.
\<close>

theorem existing_key_keeps_mode:
  assumes "write_private p key w = (w', Inr u)" "no_torn w"
  shows "\<exists>n. w_fs w' p = Some n \<and> n_body n = BFile key False \<and>
    a_mode (n_attr n) = (case w_fs w p of Some old \<Rightarrow> a_mode (n_attr old) | None \<Rightarrow> and 0x180 (a_mode (w_new_attr w)))"
proof -
  obtain w1 r1 where c: "sys_create_mode 0x180 p w = (w1, r1)" by fastforce
  have r1: "r1 = Inr ()" and wr: "sys_write_all p key w1 = (w', Inr u)"
    using assms(1) c by (cases r1; auto simp: write_private_def and_then_def)+
  have nt: "no_torn w1" using no_torn_create_mode [OF assms(2)] c by (metis fst_conv)
  have mode: "\<exists>n. w_fs w1 p = Some n \<and> a_mode (n_attr n) = (case w_fs w p of Some old \<Rightarrow> a_mode (n_attr old) | None \<Rightarrow> and 0x180 (a_mode (w_new_attr w)))"
    using create_mode_attr c r1 by blast
  obtain n where n: "w_fs w' p = Some n" "n_body n = BFile key False"
    using write_all_exact [OF nt] wr by (metis fst_conv snd_conv)
  have "\<forall>m. w_fs w1 p = Some m \<longrightarrow> n_attr n = n_attr m"
    using syscall_run [OF wr [unfolded sys_write_all_def]] n(1) by (auto simp: existing_def set_fs_def split: option.splits)
  with n mode show ?thesis by auto
qed

subsection \<open>An example start\<close>

text \<open>A database that is created: the file appears in the data directory, without rows.\<close>

definition db_node :: fnode where
  "db_node = \<lparr>n_body = BFile [] True, n_attr = example_attr\<rparr>"

definition created_db :: "fpath \<Rightarrow> world \<Rightarrow> world \<times> db option" where
  "created_db d w = (w\<lparr>w_fs := (w_fs w)(d \<mapsto> db_node)\<rparr>, Some empty_db)"

definition example_loc :: "path \<Rightarrow> fpath" where
  "example_loc p = filter (\<lambda>c. c \<noteq> '''') (split_slash p)"

definition boot_example :: boot_env where
  "boot_example = \<lparr>bv_crates = hex_crates, bv_codec = plain_codec, bv_toml = sample_toml, bv_hex_decode = plain_hex, bv_host = linked_host,
     bv_loc = example_loc, bv_euid_is_root = True, bv_pid = 1, bv_open_db = (\<lambda>p. created_db (example_loc p)),
     bv_order = (\<lambda>fs d. if d = [''srv'', ''a''] then [''f'', ''.f.replicore-tmp''] else []), bv_fuel = 2,
     bv_spawn_ok = True, bv_rosters = (\<lambda>_. NotFound), bv_pct_bp = (\<lambda>_. 0), bv_now = 0\<rparr>"

definition boot_world :: world where
  "boot_world = (example_world [])\<lparr>w_fs :=
     [[''srv''] \<mapsto> \<lparr>n_body = BDir, n_attr = example_attr\<rparr>, [''srv'', ''a''] \<mapsto> \<lparr>n_body = BDir, n_attr = example_attr\<rparr>,
      [''data''] \<mapsto> \<lparr>n_body = BDir, n_attr = example_attr\<rparr>,
      [''srv'', ''a'', ''f''] \<mapsto> \<lparr>n_body = BFile [1] True, n_attr = example_attr\<rparr>,
      [''srv'', ''a'', ''.f.replicore-tmp''] \<mapsto> \<lparr>n_body = BFile [2] False, n_attr = example_attr\<rparr>]\<rparr>"

lemma boot_example_paths:
  "bv_loc boot_example (cf_db_path sample_config) = [''data'', ''state.db'']"
  "bv_loc boot_example (cf_cas_dir sample_config) = [''data'', ''state.cas'']"
  "bv_loc boot_example ''/srv/a'' = [''srv'', ''a'']"
  using sample_evaluates(4) by (simp_all add: state_paths_def boot_example_def example_loc_def)

lemma boot_example_names: "is_tmp [''srv'', ''a'', ''.f.replicore-tmp'']" "\<not> is_tmp [''srv'', ''a'', ''f'']"
  by code_simp+

lemma boot_example_fields:
  "bv_euid_is_root boot_example" "bv_open_db boot_example p = created_db (bv_loc boot_example p)" "bv_crates boot_example = hex_crates" "bv_spawn_ok boot_example"
  "bv_order boot_example fs d = (if d = [''srv'', ''a''] then [''f'', ''.f.replicore-tmp''] else [])" "bv_fuel boot_example = Suc (Suc 0)"
  "bv_toml boot_example = sample_toml" "bv_hex_decode boot_example = plain_hex" "bv_host boot_example = linked_host"
  "cx_root (boot_cas boot_example (sample_config\<lparr>cf_share_dir := p\<rparr>)) = [''data'', ''state.cas'']"
  using boot_example_paths(2) by (simp_all add: boot_cas_def) (simp_all add: boot_example_def)

lemma boot_example_pre:
  "and_then (chown_guard boot_example (sample_config\<lparr>cf_share_dir := ''/srv/a''\<rparr>) boot_world) (\<lambda>_. boot_store boot_example (sample_config\<lparr>cf_share_dir := ''/srv/a''\<rparr>))
     = (fst (created_db [''data'', ''state.db''] boot_world), Inr (open_store hex_crates (cf_node_id sample_config) empty_db))"
  by (simp add: chown_guard_def boot_store_def can_chown_def boot_example_paths boot_example_fields and_then_def err_from_def
      sys_create_dir_all_def parents_def is_dir_def created_db_def boot_world_def Let_def)

lemma boot_example_sweeps:
  "\<exists>w'. boot_sweeps boot_example (sample_config\<lparr>cf_share_dir := ''/srv/a''\<rparr>) (fst (created_db [''data'', ''state.db''] boot_world)) = Some (w', Inr ())"
  by (simp add: boot_sweeps_def boot_example_paths boot_example_fields failed_def stat_is_def
      sweep_orphan_temps_def sys_read_dir_def sys_stat_def sys_entry_def created_db_def boot_world_def example_world_def next_verdict_def
      path_error_def parents_def is_dir_def and_then_def err_from_def boot_example_names sys_remove_file_def syscall_def set_fs_def
      cas_open_def sys_create_dir_all_def cas_sweep_orphan_temps_def fresh_node_def Let_def)

lemma boot_example_run:
  "\<exists>w' ts r. run_daemon boot_example [''--config'', ''/etc/a.toml''] boot_world = Some (w', ts, r) \<and> ts \<noteq> []"
proof -
  obtain w' where "boot_sweeps boot_example (sample_config\<lparr>cf_share_dir := ''/srv/a''\<rparr>) (fst (created_db [''data'', ''state.db''] boot_world)) = Some (w', Inr ())"
    using boot_example_sweeps by blast
  then show ?thesis
    by (simp add: run_daemon_def option_value_def boot_example_fields sample_loads boot_example_pre)
      (simp add: boot_spawn_def boot_tasks_def boot_example_fields split: sum.splits)
qed

lemma boot_example_sqlite: "sqlite_writes_its_files boot_example"
  by (simp add: sqlite_writes_its_files_def boot_example_fields created_db_def keeps_def db_files_def)

lemma boot_example_config:
  "start_config boot_example [''--config'', ''/etc/a.toml''] = Some (sample_config\<lparr>cf_share_dir := ''/srv/a''\<rparr>)"
  by (simp add: start_config_def option_value_def boot_example_fields sample_loads)

text \<open>
  A start that creates the database and sweeps a temporary file keeps the user's file; the
  database file, which is among the files excluded, is new.
\<close>

theorem start_keeps_files_witness:
  "\<exists>w' ts r. run_daemon boot_example [''--config'', ''/etc/a.toml''] boot_world = Some (w', ts, r) \<and> ts \<noteq> []
     \<and> sqlite_writes_its_files boot_example
     \<and> [''data'', ''state.db''] \<in> start_files boot_example (start_config boot_example [''--config'', ''/etc/a.toml''])
     \<and> w_fs w' [''srv'', ''a'', ''f''] = Some \<lparr>n_body = BFile [1] True, n_attr = example_attr\<rparr>"
proof -
  obtain w' ts r where run: "run_daemon boot_example [''--config'', ''/etc/a.toml''] boot_world = Some (w', ts, r)" "ts \<noteq> []"
    using boot_example_run by blast
  have node: "w_fs boot_world [''srv'', ''a'', ''f''] = Some \<lparr>n_body = BFile [1] True, n_attr = example_attr\<rparr>" by (simp add: boot_world_def)
  have out: "[''srv'', ''a'', ''f''] \<notin> start_files boot_example (start_config boot_example [''--config'', ''/etc/a.toml''])"
    by (simp add: boot_example_config start_files_def boot_example_names boot_example_paths probe_name_def db_files_def)
  have db: "[''data'', ''state.db''] \<in> start_files boot_example (start_config boot_example [''--config'', ''/etc/a.toml''])"
    by (simp add: boot_example_config start_files_def boot_example_paths db_files_def)
  from start_keeps_files [OF run(1) boot_example_sqlite node out] run db boot_example_sqlite show ?thesis by blast
qed

theorem starts_only_when_ready_witness:
  "\<exists>w' ts r. run_daemon boot_example [''--config'', ''/etc/a.toml''] boot_world = Some (w', ts, r)
     \<and> (\<exists>cfg. ts = boot_tasks cfg \<or> (\<exists>e. r = Inl (MembershipFailed e) \<and> ts = [WatcherThread, ScannerTask, IngestTask]))"
  using boot_example_run starts_only_when_ready [of boot_example "[''--config'', ''/etc/a.toml'']" boot_world] by blast

lemma example_key_write: "snd (write_private [''f''] [5] example_file) = Inr ()" "no_torn example_file"
  by (simp_all add: write_private_def sys_create_mode_def sys_write_all_def syscall_def existing_def example_world_def example_file_def
      next_verdict_def path_error_def parents_def is_dir_def and_then_def set_fs_def no_torn_def Let_def)

theorem existing_key_keeps_mode_witness:
  "\<exists>n. w_fs (fst (write_private [''f''] [5] example_file)) [''f''] = Some n \<and> n_body n = BFile [5] False
     \<and> a_mode (n_attr n) = a_mode example_attr"
proof -
  have "write_private [''f''] [5] example_file = (fst (write_private [''f''] [5] example_file), Inr ())"
    using example_key_write(1) by (metis prod.collapse)
  from existing_key_keeps_mode [OF this example_key_write(2)] show ?thesis by (auto simp: example_file_def set_fs_def)
qed

end
