(* ===== verification/Xattrs.thy ===== *)
theory Xattrs
  imports Disk
begin

text \<open>
  Listing the extended attributes of a file (\<open>src/metadata.rs\<close>, \<open>read_xattrs\<close>).  Each of the calls
  \<open>llistxattr\<close> and \<open>lgetxattr\<close> sees the attributes the file has at its moment, so the number of the
  call is an argument of the attributes.  A buffer that is too small is doubled and the call
  repeated, an attribute that is gone in between is skipped.  A fuel bounds each of the two
  loops, which never end against a file that outgrows every buffer.
\<close>

datatype xattr_error = XRange | XNotSup | XNoData | XOther errno | XNulInPath

type_synonym xattrs_at = "nat \<Rightarrow> xattr_error + (bytes \<times> bytes) list"

definition llistxattr :: "xattrs_at \<Rightarrow> nat \<Rightarrow> nat \<Rightarrow> xattr_error + bytes" where
  "llistxattr F t cap =
     (case F t of
        Inl e \<Rightarrow> Inl e
      | Inr xs \<Rightarrow> (let names = concat (map (\<lambda>(k, v). k @ [0]) xs) in if length names \<le> cap then Inr names else Inl XRange))"

definition lgetxattr :: "xattrs_at \<Rightarrow> bytes \<Rightarrow> nat \<Rightarrow> nat \<Rightarrow> xattr_error + bytes" where
  "lgetxattr F name t cap =
     (case F t of
        Inl e \<Rightarrow> Inl e
      | Inr xs \<Rightarrow> (case map_of xs name of
                     None \<Rightarrow> Inl XNoData
                   | Some v \<Rightarrow> if length v \<le> cap then Inr v else Inl XRange))"

text \<open>The retry loop both share: the answer and the number of the next call.\<close>

fun grow :: "(nat \<Rightarrow> nat \<Rightarrow> xattr_error + bytes) \<Rightarrow> nat \<Rightarrow> nat \<Rightarrow> nat \<Rightarrow> (nat \<times> (xattr_error + bytes)) option" where
  "grow call 0 t cap = None"
| "grow call (Suc fuel) t cap = (if call t cap = Inl XRange then grow call fuel (Suc t) (2 * cap) else Some (Suc t, call t cap))"

fun split_names :: "bytes \<Rightarrow> bytes \<Rightarrow> bytes list" where
  "split_names acc [] = [acc]"
| "split_names acc (b # bs) = (if b = 0 then acc # split_names [] bs else split_names (acc @ [b]) bs)"

fun read_values ::
  "nat \<Rightarrow> xattrs_at \<Rightarrow> bytes list \<Rightarrow> nat \<Rightarrow> (bytes \<times> bytes) list \<Rightarrow> (xattr_error + (bytes \<times> bytes) list) option" where
  "read_values fuel F [] t out = Some (Inr out)"
| "read_values fuel F (name # names) t out =
     (case grow (lgetxattr F name) fuel t 256 of
        None \<Rightarrow> None
      | Some (t, Inr v) \<Rightarrow> read_values fuel F names t (out @ [(name, v)])
      | Some (t, Inl e) \<Rightarrow> if e = XNoData then read_values fuel F names t out else Some (Inl e))"

definition read_xattrs :: "nat \<Rightarrow> fpath \<Rightarrow> xattrs_at \<Rightarrow> (xattr_error + (bytes \<times> bytes) list) option" where
  "read_xattrs fuel p F =
     (if \<exists>c \<in> set p. CHR 0x00 \<in> set c then Some (Inl XNulInPath)
      else case grow (llistxattr F) fuel 0 1024 of
             None \<Rightarrow> None
           | Some (t, Inl e) \<Rightarrow> Some (if e = XNotSup then Inr [] else Inl e)
           | Some (t, Inr names) \<Rightarrow> read_values fuel F (filter (\<lambda>s. s \<noteq> []) (split_names [] names)) t [])"

subsection \<open>The retry loop\<close>

text \<open>A file whose names and values never take more than \<open>bound\<close> bytes.\<close>

definition within :: "nat \<Rightarrow> (bytes \<times> bytes) list \<Rightarrow> bool" where
  "within bound xs \<longleftrightarrow> length (concat (map (\<lambda>(k, v). k @ [0]) xs)) \<le> bound \<and> (\<forall>(k, v) \<in> set xs. length v \<le> bound)"

lemma grow_ends:
  assumes "\<And>t s. s \<ge> bound \<Longrightarrow> call t s \<noteq> Inl XRange" "cap * 2 ^ fuel \<ge> bound"
  shows "\<exists>t' s'. t' \<ge> t \<and> grow call (Suc fuel) t cap = Some (Suc t', call t' s') \<and> call t' s' \<noteq> Inl XRange"
  using assms(2)
proof (induction fuel arbitrary: t cap)
  case 0
  then show ?case using assms(1) by auto
next
  case (Suc fuel)
  show ?case
  proof (cases "call t cap = Inl XRange")
    case True
    have "2 * cap * 2 ^ fuel \<ge> bound" using Suc.prems by (simp add: ac_simps)
    from Suc.IH [OF this, of "Suc t"] obtain t' s' where "t' \<ge> Suc t" "grow call (Suc fuel) (Suc t) (2 * cap) = Some (Suc t', call t' s')"
      "call t' s' \<noteq> Inl XRange" by blast
    with True show ?thesis by (intro exI [of _ t'] exI [of _ s']) simp
  qed auto
qed

lemma calls_fit:
  assumes "\<forall>t xs. F t = Inr xs \<longrightarrow> within bound xs" "\<forall>t. F t \<noteq> Inl XRange" "s \<ge> bound"
  shows "llistxattr F t s \<noteq> Inl XRange" "lgetxattr F name t s \<noteq> Inl XRange"
proof -
  have "length v \<le> s" if "F t = Inr xs" "map_of xs name = Some v" for xs v
    using assms(1,3) that by (fastforce simp: within_def dest: map_of_SomeD)
  moreover have "length (concat (map (\<lambda>(k, v). k @ [0]) xs)) \<le> s" if "F t = Inr xs" for xs
    using assms(1,3) that unfolding within_def by (meson le_trans)
  ultimately show "llistxattr F t s \<noteq> Inl XRange" "lgetxattr F name t s \<noteq> Inl XRange"
    using assms(2) by (auto simp: llistxattr_def lgetxattr_def Let_def split: sum.splits option.splits if_splits)
qed

lemma split_names_entries:
  assumes "\<forall>k \<in> set ks. 0 \<notin> set k \<and> k \<noteq> []"
  shows "filter (\<lambda>s. s \<noteq> []) (split_names [] (concat (map (\<lambda>k. k @ [0]) ks))) = ks"
proof -
  have step: "split_names acc (k @ 0 # bs) = (acc @ k) # split_names [] bs" if "0 \<notin> set k" for acc k bs
    using that by (induction k arbitrary: acc) auto
  show ?thesis using assms by (induction ks) (auto simp: step)
qed

definition seen_in :: "xattrs_at \<Rightarrow> bytes \<times> bytes \<Rightarrow> bool" where
  "seen_in F x \<longleftrightarrow> (\<exists>t xs. F t = Inr xs \<and> map_of xs (fst x) = Some (snd x))"

lemma read_values_ends:
  assumes "\<And>t s name. s \<ge> bound \<Longrightarrow> lgetxattr F name t s \<noteq> Inl XRange" "256 * 2 ^ fuel \<ge> bound" "\<forall>x \<in> set out. seen_in F x"
  shows "\<exists>r. read_values (Suc fuel) F names t out = Some r \<and> (\<forall>ys. r = Inr ys \<longrightarrow> (\<forall>x \<in> set ys. seen_in F x))"
  using assms(3)
proof (induction names arbitrary: t out)
  case (Cons name names)
  obtain t' s' where g: "grow (lgetxattr F name) (Suc fuel) t 256 = Some (Suc t', lgetxattr F name t' s')"
    using grow_ends [of bound "lgetxattr F name", OF assms(1) assms(2)] by blast
  show ?case
  proof (cases "lgetxattr F name t' s'")
    case (Inl e)
    with g Cons.IH [OF Cons.prems, of "Suc t'"] show ?thesis by (simp del: grow.simps)
  next
    case (Inr v)
    then have "seen_in F (name, v)"
      by (auto simp: seen_in_def lgetxattr_def split: sum.splits option.splits if_splits)
    with Cons.prems have "\<forall>x \<in> set (out @ [(name, v)]). seen_in F x" by auto
    from Cons.IH [OF this, of "Suc t'"] g Inr show ?thesis by (simp del: grow.simps)
  qed
qed simp

lemma grow_steady:
  assumes "\<And>t s. call t s = (if length v \<le> s then Inr v else Inl XRange)" "cap * 2 ^ fuel \<ge> length v"
  shows "\<exists>t'. grow call (Suc fuel) t cap = Some (t', Inr v)"
proof -
  obtain t' s' where "grow call (Suc fuel) t cap = Some (Suc t', call t' s')" "call t' s' \<noteq> Inl XRange"
    using grow_ends [of "length v" call cap fuel t] assms by auto
  with assms(1) [of t' s'] show ?thesis by (auto split: if_splits)
qed

lemma read_values_steady:
  assumes "\<forall>(k, v) \<in> set ys. map_of xs k = Some v \<and> length v \<le> 256 * 2 ^ fuel"
  shows "read_values (Suc fuel) (\<lambda>_. Inr xs) (map fst ys) t out = Some (Inr (out @ ys))"
  using assms
proof (induction ys arbitrary: t out)
  case (Cons y ys)
  obtain k v where y: "y = (k, v)" by fastforce
  with Cons.prems have "\<And>t s. lgetxattr (\<lambda>_. Inr xs) k t s = (if length v \<le> s then Inr v else Inl XRange)" "256 * 2 ^ fuel \<ge> length v"
    by (simp_all add: lgetxattr_def)
  from grow_steady [of "lgetxattr (\<lambda>_. Inr xs) k", OF this] obtain t' where "grow (lgetxattr (\<lambda>_. Inr xs) k) (Suc fuel) t 256 = Some (t', Inr v)" by blast
  with Cons y show ?case by (simp del: grow.simps)
qed simp

text \<open>
  C40. Reading the attributes of a file ends, however the file changes between the calls, as long
  as its attributes stay within a bound that the doubled buffers reach; every pair it returns
  was an attribute of the file at some call.  Of a file that does not change it returns exactly
  the attributes.
\<close>

theorem read_xattrs_ends:
  assumes "\<forall>c \<in> set p. CHR 0x00 \<notin> set c" "256 * 2 ^ fuel \<ge> bound"
    and "\<forall>t xs. F t = Inr xs \<longrightarrow> within bound xs" "\<forall>t. F t \<noteq> Inl XRange"
  shows "(\<exists>r. read_xattrs (Suc fuel) p F = Some r \<and> (\<forall>ys. r = Inr ys \<longrightarrow> (\<forall>x \<in> set ys. seen_in F x)))
    \<and> (\<forall>xs. F = (\<lambda>_. Inr xs) \<and> distinct (map fst xs) \<and> (\<forall>k \<in> fst ` set xs. 0 \<notin> set k \<and> k \<noteq> []) \<longrightarrow>
         read_xattrs (Suc fuel) p F = Some (Inr xs))"
proof -
  have bounded: "within bound xs" if "F t = Inr xs" for t xs using assms(3) that by blast
  note fit = calls_fit [OF assms(3,4)]
  have nul: "\<not> (\<exists>c \<in> set p. CHR 0x00 \<in> set c)" using assms(1) by blast
  have cap: "1024 * 2 ^ fuel \<ge> bound" using assms(2) by simp
  obtain t' s' where g: "grow (llistxattr F) (Suc fuel) 0 1024 = Some (Suc t', llistxattr F t' s')" "llistxattr F t' s' \<noteq> Inl XRange"
    using grow_ends [of bound "llistxattr F" 1024 fuel 0] fit(1) cap by blast
  have "\<exists>r. read_xattrs (Suc fuel) p F = Some r \<and> (\<forall>ys. r = Inr ys \<longrightarrow> (\<forall>x \<in> set ys. seen_in F x))"
  proof (cases "llistxattr F t' s'")
    case (Inl e)
    with g nul show ?thesis by (simp add: read_xattrs_def del: grow.simps)
  next
    case (Inr names)
    obtain r where "read_values (Suc fuel) F (filter (\<lambda>s. s \<noteq> []) (split_names [] names)) (Suc t') [] = Some r"
      "\<forall>ys. r = Inr ys \<longrightarrow> (\<forall>x \<in> set ys. seen_in F x)"
      using read_values_ends [of bound F fuel "[]"] fit(2) assms(2) by (metis empty_iff list.set(1))
    with g Inr nul show ?thesis by (simp add: read_xattrs_def del: grow.simps)
  qed
  moreover have "read_xattrs (Suc fuel) p F = Some (Inr xs)"
    if F: "F = (\<lambda>_. Inr xs)" and xs: "distinct (map fst xs)" "\<forall>k \<in> fst ` set xs. 0 \<notin> set k \<and> k \<noteq> []" for xs
  proof -
    let ?names = "concat (map (\<lambda>(k, v). k @ [0]) xs)"
    have "llistxattr F t' s' = Inr ?names" using g(2) by (auto simp: llistxattr_def F Let_def split: if_splits)
    moreover have "filter (\<lambda>s. s \<noteq> []) (split_names [] ?names) = map fst xs"
      using split_names_entries [of "map fst xs"] xs(2) by (simp add: comp_def case_prod_unfold)
    moreover have "\<forall>(k, v) \<in> set xs. map_of xs k = Some v \<and> length v \<le> 256 * 2 ^ fuel"
      using xs(1) bounded [of 0 xs] assms(2) by (force simp: F within_def)
    ultimately show ?thesis using g(1) nul read_values_steady [of xs xs fuel "Suc t'" "[]"]
      by (simp add: read_xattrs_def F del: grow.simps read_values.simps)
  qed
  ultimately show ?thesis by blast
qed

theorem read_xattrs_ends_witness:
  "read_xattrs 5 [''f''] (\<lambda>_. Inr [([97], [1, 2])]) = Some (Inr [([97], [1, 2])])"
  using read_xattrs_ends [of "[''f'']" 8 4 "\<lambda>_. Inr [([97], [1, 2])]"] by (simp add: within_def)

end
